(* ===== verification/Prelude.thy ===== *)
theory Prelude
  imports Main "HOL-Library.Word" "HOL-Library.Monad_Syntax"
begin

unbundle bit_operations_syntax

text \<open>
  Shared types, automation and generic lemmas.

  The server is C++ on a little-endian 64-bit target: bytes are \<open>8 word\<close>, the fixed-width
  integers of the source are words of the same width, and \<open>memcpy\<close> of an integer to or from a
  byte buffer is \<open>le_bytes\<close> and \<open>le_word\<close>. A fixed C array is a list whose accesses go through
  \<open>mem_read\<close> and \<open>mem_write\<close>: \<open>None\<close> is an access outside the array (undefined behaviour in
  the source), so "the result is not \<open>None\<close>" is the memory-safety statement of an operation.
\<close>

named_theorems mem_simps \<open>reads and writes of byte buffers\<close>
named_theorems bytes_simps \<open>little-endian encoding of integers\<close>

type_synonym byte = "8 word"
type_synonym u8 = "8 word"
type_synonym u16 = "16 word"
type_synonym u32 = "32 word"
type_synonym u64 = "64 word"

text \<open>A string of the source (\<open>std::string\<close>) is a list of bytes.\<close>

type_synonym bstring = "byte list"

section \<open>Words\<close>

lemma unat_ucast_up:
  fixes w :: "'a::len word"
  assumes "LENGTH('a) \<le> LENGTH('b::len)"
  shows "unat (ucast w :: 'b word) = unat w"
proof -
  have "unat w < 2 ^ LENGTH('a)" by simp
  also have "(2::nat) ^ LENGTH('a) \<le> 2 ^ LENGTH('b)" using assms by (rule power_increasing) simp
  finally show ?thesis by (simp add: unsigned_ucast_eq take_bit_nat_eq_self)
qed

lemma unat_byte_le: "unat (d :: byte) \<le> 255"
proof -
  have "unat d < 2 ^ LENGTH(8)" by (rule unsigned_less)
  then show ?thesis by simp
qed

lemma unat_u16_le: "unat (d :: u16) \<le> 65535"
proof -
  have "unat d < 2 ^ LENGTH(16)" by (rule unsigned_less)
  then show ?thesis by simp
qed

lemma unat_of_nat_u16: "n < 65536 \<Longrightarrow> unat (of_nat n :: u16) = n"
  by (simp add: unat_of_nat)

lemma or_eq_plus:
  fixes x y :: "'a::len word"
  assumes "x AND y = 0"
  shows "x OR y = x + y"
  using word_plus_and_or [of x y] assms by simp

lemma bit_lt_of_unat_lt:
  assumes "unat a < 2 ^ k" and "bit a n"
  shows "n < k"
proof -
  have "bit (unat a) n" using assms(2) by (simp add: bit_unsigned_iff)
  moreover have "take_bit k (unat a) = unat a" using assms(1) by (simp add: take_bit_nat_eq_self)
  ultimately show ?thesis by (metis bit_take_bit_iff)
qed

section \<open>Little-endian encoding\<close>

fun le_bytes :: "nat \<Rightarrow> 'a::len word \<Rightarrow> byte list" where
  "le_bytes 0 w = []"
| "le_bytes (Suc n) w = ucast w # le_bytes n (drop_bit 8 w)"

fun le_word :: "byte list \<Rightarrow> 'a::len word" where
  "le_word [] = 0"
| "le_word (b # bs) = ucast b OR push_bit 8 (le_word bs)"

lemma length_le_bytes [simp, bytes_simps]: "length (le_bytes n w) = n"
  by (induction n arbitrary: w) auto

lemma nth_le_bytes: "i < n \<Longrightarrow> le_bytes n w ! i = ucast (drop_bit (8 * i) w)"
proof (induction n arbitrary: w i)
  case 0
  then show ?case by simp
next
  case (Suc n)
  show ?case
  proof (cases i)
    case 0
    then show ?thesis by simp
  next
    case (Suc j)
    with Suc.prems Suc.IH [of j "drop_bit 8 w"] show ?thesis
      by (simp add: drop_bit_drop_bit add.commute)
  qed
qed

lemma bit_le_word:
  "bit (le_word bs :: 'a::len word) i \<longleftrightarrow>
     i < LENGTH('a) \<and> i div 8 < length bs \<and> bit (bs ! (i div 8)) (i mod 8)"
proof (induction bs arbitrary: i)
  case Nil
  then show ?case by simp
next
  case (Cons b bs)
  show ?case
  proof (cases "i < 8")
    case True
    then show ?thesis by (auto simp: bit_simps)
  next
    case False
    then obtain j where i: "i = 8 + j"
      by (metis add.commute le_add_diff_inverse2 leI)
    have "\<not> bit b i"
      using i by (auto dest: bit_imp_le_length)
    moreover have "(8 + j) div 8 = Suc (j div 8)" and "(8 + j) mod 8 = j mod 8"
      by simp_all
    ultimately show ?thesis
      using i Cons.IH [of j] by (auto simp: bit_simps)
  qed
qed

lemma le_word_le_bytes [bytes_simps]:
  assumes "LENGTH('a) \<le> 8 * n"
  shows "le_word (le_bytes n (w :: 'a::len word)) = w"
proof (rule bit_word_eqI)
  fix i
  assume i: "i < LENGTH('a)"
  with assms have n: "i div 8 < n" by auto
  have "8 * (i div 8) + i mod 8 = i" by simp
  with i n show "bit (le_word (le_bytes n w) :: 'a word) i = bit w i"
    by (simp add: bit_le_word nth_le_bytes bit_simps)
qed

lemma le_bytes_le_word [bytes_simps]:
  assumes "length bs = n" and "8 * n \<le> LENGTH('a)"
  shows "le_bytes n (le_word bs :: 'a::len word) = bs"
proof (rule nth_equalityI)
  show "length (le_bytes n (le_word bs :: 'a word)) = length bs"
    using assms by simp
next
  fix i
  assume "i < length (le_bytes n (le_word bs :: 'a word))"
  then have i: "i < n" by simp
  show "le_bytes n (le_word bs :: 'a word) ! i = bs ! i"
  proof (rule bit_word_eqI)
    fix j
    assume j: "j < LENGTH(8)"
    with i assms have "8 * i + j < LENGTH('a)" by simp
    with i j assms show "bit (le_bytes n (le_word bs :: 'a word) ! i) j = bit (bs ! i) j"
      by (simp add: nth_le_bytes bit_simps bit_le_word)
  qed
qed

section \<open>Byte buffers\<close>

definition mem_read :: "byte list \<Rightarrow> nat \<Rightarrow> nat \<Rightarrow> byte list option" where
  "mem_read buf off n = (if off + n \<le> length buf then Some (take n (drop off buf)) else None)"

definition mem_write :: "byte list \<Rightarrow> nat \<Rightarrow> byte list \<Rightarrow> byte list option" where
  "mem_write buf off bs =
     (if off + length bs \<le> length buf
      then Some (take off buf @ bs @ drop (off + length bs) buf) else None)"

lemma mem_read_Some [mem_simps]:
  "off + n \<le> length buf \<Longrightarrow> mem_read buf off n = Some (take n (drop off buf))"
  by (simp add: mem_read_def)

lemma mem_write_Some [mem_simps]:
  "off + length bs \<le> length buf \<Longrightarrow>
     mem_write buf off bs = Some (take off buf @ bs @ drop (off + length bs) buf)"
  by (simp add: mem_write_def)

lemma mem_read_eq_Some_iff:
  "mem_read buf off n = Some bs \<longleftrightarrow> off + n \<le> length buf \<and> bs = take n (drop off buf)"
  by (auto simp: mem_read_def)

lemma mem_write_eq_Some_iff:
  "mem_write buf off bs = Some buf' \<longleftrightarrow>
     off + length bs \<le> length buf \<and> buf' = take off buf @ bs @ drop (off + length bs) buf"
  by (auto simp: mem_write_def)

lemma length_mem_write: "mem_write buf off bs = Some buf' \<Longrightarrow> length buf' = length buf"
  by (auto simp: mem_write_def split: if_splits)

lemma length_mem_read: "mem_read buf off n = Some bs \<Longrightarrow> length bs = n"
  by (auto simp: mem_read_def split: if_splits)

text \<open>A read of what was just written, and a read of a region the write does not touch.\<close>

lemma mem_read_write_same:
  "mem_write buf off bs = Some buf' \<Longrightarrow> mem_read buf' off (length bs) = Some bs"
  by (auto simp: mem_write_eq_Some_iff mem_read_def)

lemma mem_read_write_below:
  assumes "mem_write buf off bs = Some buf'" and "p + n \<le> off"
  shows "mem_read buf' p n = mem_read buf p n"
proof -
  have len: "length buf' = length buf" using assms(1) by (rule length_mem_write)
  have "take n (drop p buf') = take n (drop p buf)" if "p + n \<le> length buf"
  proof (rule nth_equalityI)
    show "length (take n (drop p buf')) = length (take n (drop p buf))"
      using len by simp
  next
    fix i
    assume "i < length (take n (drop p buf'))"
    then have "i < n" and "p + i < length buf" using len by auto
    then show "take n (drop p buf') ! i = take n (drop p buf) ! i"
      using assms len by (simp add: mem_write_eq_Some_iff nth_append)
  qed
  with len show ?thesis by (simp add: mem_read_def)
qed

lemma mem_read_write_above:
  assumes "mem_write buf off bs = Some buf'" and "off + length bs \<le> p"
  shows "mem_read buf' p n = mem_read buf p n"
proof -
  have len: "length buf' = length buf" using assms(1) by (rule length_mem_write)
  have "drop p buf' = drop p buf"
    using assms by (auto simp: mem_write_eq_Some_iff)
  with len show ?thesis by (simp add: mem_read_def)
qed

text \<open>Accesses to a buffer that is known as a concatenation.\<close>

lemma mem_read_at:
  "length xs = off \<Longrightarrow> length bs = n \<Longrightarrow> mem_read (xs @ bs @ ys) off n = Some bs"
  by (auto simp: mem_read_def)

lemma mem_write_at:
  "length xs = off \<Longrightarrow> length old = length bs \<Longrightarrow>
     mem_write (xs @ old @ ys) off bs = Some (xs @ bs @ ys)"
  by (auto simp: mem_write_def)

end
