(* ===== verification/Position.thy ===== *)
theory Position
  imports Prelude
begin

text \<open>
  Positions and directions: \<open>position.h\<close> and the direction functions of \<open>tools.cpp\<close>.
  A position is three unsigned coordinates that wrap at their width, as the struct's fields do.
  The order is the struct's \<open>operator<\<close>, declared as the type's \<open>linorder\<close>, since the spectator
  caches are \<open>std::map\<close>s keyed by positions.
\<close>

section \<open>Data\<close>

datatype Direction =
    DIRECTION_NORTH | DIRECTION_EAST | DIRECTION_SOUTH | DIRECTION_WEST
  | DIRECTION_SOUTHWEST | DIRECTION_SOUTHEAST | DIRECTION_NORTHWEST | DIRECTION_NORTHEAST
  | DIRECTION_NONE

fun direction_code :: "Direction \<Rightarrow> u8" where
  "direction_code DIRECTION_NORTH = 0"
| "direction_code DIRECTION_EAST = 1"
| "direction_code DIRECTION_SOUTH = 2"
| "direction_code DIRECTION_WEST = 3"
| "direction_code DIRECTION_SOUTHWEST = 4 OR 0"
| "direction_code DIRECTION_SOUTHEAST = 4 OR 1"
| "direction_code DIRECTION_NORTHWEST = 4 OR 2"
| "direction_code DIRECTION_NORTHEAST = 4 OR 3"
| "direction_code DIRECTION_NONE = 8"

datatype position = Position (pos_x: u16) (pos_y: u16) (pos_z: u8)

section \<open>Offsets and distances\<close>

definition getX :: "position \<Rightarrow> int" where "getX p = uint (pos_x p)"
definition getY :: "position \<Rightarrow> int" where "getY p = uint (pos_y p)"
definition getZ :: "position \<Rightarrow> int" where "getZ p = uint (pos_z p)"

definition getOffsetX :: "position \<Rightarrow> position \<Rightarrow> int" where
  "getOffsetX p1 p2 = getX p1 - getX p2"

definition getOffsetY :: "position \<Rightarrow> position \<Rightarrow> int" where
  "getOffsetY p1 p2 = getY p1 - getY p2"

definition getOffsetZ :: "position \<Rightarrow> position \<Rightarrow> int" where
  "getOffsetZ p1 p2 = getZ p1 - getZ p2"

definition getDistanceX :: "position \<Rightarrow> position \<Rightarrow> int" where
  "getDistanceX p1 p2 = \<bar>getOffsetX p1 p2\<bar>"

definition getDistanceY :: "position \<Rightarrow> position \<Rightarrow> int" where
  "getDistanceY p1 p2 = \<bar>getOffsetY p1 p2\<bar>"

definition getDistanceZ :: "position \<Rightarrow> position \<Rightarrow> int" where
  "getDistanceZ p1 p2 = \<bar>getOffsetZ p1 p2\<bar>"

definition areInRange2 :: "int \<Rightarrow> int \<Rightarrow> position \<Rightarrow> position \<Rightarrow> bool" where
  "areInRange2 deltax deltay p1 p2 \<longleftrightarrow>
     getDistanceX p1 p2 \<le> deltax \<and> getDistanceY p1 p2 \<le> deltay"

definition areInRange3 :: "int \<Rightarrow> int \<Rightarrow> int \<Rightarrow> position \<Rightarrow> position \<Rightarrow> bool" where
  "areInRange3 deltax deltay deltaz p1 p2 \<longleftrightarrow>
     getDistanceX p1 p2 \<le> deltax \<and> getDistanceY p1 p2 \<le> deltay \<and> getDistanceZ p1 p2 \<le> deltaz"

lemmas distance_defs = getX_def getY_def getZ_def getOffsetX_def getOffsetY_def getOffsetZ_def
  getDistanceX_def getDistanceY_def getDistanceZ_def

section \<open>Comparison and arithmetic\<close>

text \<open>\<open>operator<\<close> compares z, then y, then x.\<close>

definition position_less :: "position \<Rightarrow> position \<Rightarrow> bool" where
  "position_less a p =
     (if pos_z a < pos_z p then True
      else if pos_z a > pos_z p then False
      else if pos_y a < pos_y p then True
      else if pos_y a > pos_y p then False
      else if pos_x a < pos_x p then True
      else if pos_x a > pos_x p then False
      else False)"

text \<open>\<open>operator>\<close> is written as the negation of \<open>operator<\<close>.\<close>

definition position_greater :: "position \<Rightarrow> position \<Rightarrow> bool" where
  "position_greater a p \<longleftrightarrow> \<not> position_less a p"

definition position_eq :: "position \<Rightarrow> position \<Rightarrow> bool" where
  "position_eq a p \<longleftrightarrow> pos_x p = pos_x a \<and> pos_y p = pos_y a \<and> pos_z p = pos_z a"

definition position_plus :: "position \<Rightarrow> position \<Rightarrow> position" where
  "position_plus a p = Position (pos_x a + pos_x p) (pos_y a + pos_y p) (pos_z a + pos_z p)"

definition position_minus :: "position \<Rightarrow> position \<Rightarrow> position" where
  "position_minus a p = Position (pos_x a - pos_x p) (pos_y a - pos_y p) (pos_z a - pos_z p)"

lemma position_eq_iff: "position_eq a p \<longleftrightarrow> a = p"
  by (cases a; cases p) (auto simp: position_eq_def)

lemma position_minus_plus: "position_minus (position_plus a p) p = a"
  by (simp add: position_minus_def position_plus_def)

instantiation position :: linorder
begin

definition less_position :: "position \<Rightarrow> position \<Rightarrow> bool" where
  "less_position a p \<longleftrightarrow> position_less a p"

definition less_eq_position :: "position \<Rightarrow> position \<Rightarrow> bool" where
  "less_eq_position a p \<longleftrightarrow> position_less a p \<or> a = p"

instance
proof
  fix a b c :: position
  show "a < b \<longleftrightarrow> a \<le> b \<and> \<not> b \<le> a"
    by (auto simp: less_position_def less_eq_position_def position_less_def split: if_splits)
  show "a \<le> a"
    by (simp add: less_eq_position_def)
  show "a \<le> b \<Longrightarrow> b \<le> c \<Longrightarrow> a \<le> c"
    by (auto simp: less_eq_position_def position_less_def split: if_splits)
  show "a \<le> b \<Longrightarrow> b \<le> a \<Longrightarrow> a = b"
    by (auto simp: less_eq_position_def position_less_def split: if_splits)
  show "a \<le> b \<or> b \<le> a"
    by (cases a; cases b) (auto simp: less_eq_position_def position_less_def split: if_splits)
qed

end

section \<open>Directions\<close>

definition getNextPosition :: "Direction \<Rightarrow> position \<Rightarrow> position" where
  "getNextPosition direction pos =
     (case direction of
        DIRECTION_NORTH \<Rightarrow> Position (pos_x pos) (pos_y pos - 1) (pos_z pos)
      | DIRECTION_SOUTH \<Rightarrow> Position (pos_x pos) (pos_y pos + 1) (pos_z pos)
      | DIRECTION_WEST \<Rightarrow> Position (pos_x pos - 1) (pos_y pos) (pos_z pos)
      | DIRECTION_EAST \<Rightarrow> Position (pos_x pos + 1) (pos_y pos) (pos_z pos)
      | DIRECTION_SOUTHWEST \<Rightarrow> Position (pos_x pos - 1) (pos_y pos + 1) (pos_z pos)
      | DIRECTION_NORTHWEST \<Rightarrow> Position (pos_x pos - 1) (pos_y pos - 1) (pos_z pos)
      | DIRECTION_NORTHEAST \<Rightarrow> Position (pos_x pos + 1) (pos_y pos - 1) (pos_z pos)
      | DIRECTION_SOUTHEAST \<Rightarrow> Position (pos_x pos + 1) (pos_y pos + 1) (pos_z pos)
      | DIRECTION_NONE \<Rightarrow> pos)"

definition getDirectionTo :: "position \<Rightarrow> position \<Rightarrow> Direction" where
  "getDirectionTo from to =
     (let x0 = getOffsetX from to;
          dir = (if x0 < 0 then DIRECTION_EAST else DIRECTION_WEST);
          x_offset = (if x0 < 0 then \<bar>x0\<bar> else x0);
          y0 = getOffsetY from to
      in if y0 \<ge> 0 then
           (if y0 > x_offset then DIRECTION_NORTH
            else if y0 = x_offset then
              (if dir = DIRECTION_EAST then DIRECTION_NORTHEAST else DIRECTION_NORTHWEST)
            else dir)
         else
           (let y_offset = \<bar>y0\<bar>
            in if y_offset > x_offset then DIRECTION_SOUTH
               else if y_offset = x_offset then
                 (if dir = DIRECTION_EAST then DIRECTION_SOUTHEAST else DIRECTION_SOUTHWEST)
               else dir))"

text \<open>The direction names; a name that is none of them is north.\<close>

definition getDirection :: "string \<Rightarrow> Direction" where
  "getDirection s =
     (if s = ''north'' \<or> s = ''n'' \<or> s = ''0'' then DIRECTION_NORTH
      else if s = ''east'' \<or> s = ''e'' \<or> s = ''1'' then DIRECTION_EAST
      else if s = ''south'' \<or> s = ''s'' \<or> s = ''2'' then DIRECTION_SOUTH
      else if s = ''west'' \<or> s = ''w'' \<or> s = ''3'' then DIRECTION_WEST
      else if s = ''southwest'' \<or> s = ''south west'' \<or> s = ''south-west'' \<or> s = ''sw'' \<or> s = ''4''
        then DIRECTION_SOUTHWEST
      else if s = ''southeast'' \<or> s = ''south east'' \<or> s = ''south-east'' \<or> s = ''se'' \<or> s = ''5''
        then DIRECTION_SOUTHEAST
      else if s = ''northwest'' \<or> s = ''north west'' \<or> s = ''north-west'' \<or> s = ''nw'' \<or> s = ''6''
        then DIRECTION_NORTHWEST
      else if s = ''northeast'' \<or> s = ''north east'' \<or> s = ''north-east'' \<or> s = ''ne'' \<or> s = ''7''
        then DIRECTION_NORTHEAST
      else DIRECTION_NORTH)"

text \<open>The opposite of a direction, to state that a step back undoes a step.\<close>

fun opposite :: "Direction \<Rightarrow> Direction" where
  "opposite DIRECTION_NORTH = DIRECTION_SOUTH"
| "opposite DIRECTION_SOUTH = DIRECTION_NORTH"
| "opposite DIRECTION_EAST = DIRECTION_WEST"
| "opposite DIRECTION_WEST = DIRECTION_EAST"
| "opposite DIRECTION_SOUTHWEST = DIRECTION_NORTHEAST"
| "opposite DIRECTION_NORTHEAST = DIRECTION_SOUTHWEST"
| "opposite DIRECTION_NORTHWEST = DIRECTION_SOUTHEAST"
| "opposite DIRECTION_SOUTHEAST = DIRECTION_NORTHWEST"
| "opposite DIRECTION_NONE = DIRECTION_NONE"

lemma getNextPosition_opposite:
  "getNextPosition (opposite d) (getNextPosition d p) = p"
  by (cases p; cases d) (simp_all add: getNextPosition_def)

lemma uint16_add1: "uint (x + 1 :: u16) = (if uint x = 65535 then 0 else uint x + 1)"
proof -
  have "uint (x + 1) = (uint x + 1) mod 65536" by (simp add: uint_word_ariths)
  moreover have "uint x < 65536" and "0 \<le> uint x" using uint_bounded [of x] by simp_all
  ultimately show ?thesis by simp
qed

lemma uint16_sub1: "uint (x - 1 :: u16) = (if uint x = 0 then 65535 else uint x - 1)"
proof -
  have "(1 \<le> uint x) = (uint x \<noteq> 0)" using uint_ge_0 [of x] by linarith
  then show ?thesis by (simp add: uint_sub_if')
qed

text \<open>A step does not leave the coordinate range: no coordinate it changes wraps.\<close>

definition step_in_range :: "Direction \<Rightarrow> position \<Rightarrow> bool" where
  "step_in_range d p \<longleftrightarrow>
     getX (getNextPosition d p) - getX p \<in> {-1, 0, 1} \<and>
     getY (getNextPosition d p) - getY p \<in> {-1, 0, 1}"

lemma getDirectionTo_getNextPosition:
  assumes "d \<noteq> DIRECTION_NONE" and "step_in_range d p"
  shows "getDirectionTo p (getNextPosition d p) = d"
  using assms
  by (cases d)
     (simp_all add: getDirectionTo_def getNextPosition_def step_in_range_def distance_defs
        uint16_add1 uint16_sub1 Let_def split: if_splits)

end
