(* ===== verification/NetMessage.thy ===== *)
theory NetMessage
  imports Position
begin

text \<open>
  \<open>networkmessage.h\<close>, \<open>networkmessage.cpp\<close> and the class \<open>OutputMessage\<close> of \<open>outputmessage.h\<close>:
  the fixed buffer a packet is read from and written to, with its cursor, its length and its
  overrun flag. Cursor and length are 16-bit and wrap as \<open>MsgSize_t\<close> does; the buffer is a list of
  \<open>NETWORKMESSAGE_MAXSIZE\<close> bytes and an access outside it is \<open>None\<close>.
\<close>

section \<open>State\<close>

definition NETWORKMESSAGE_MAXSIZE :: nat where "NETWORKMESSAGE_MAXSIZE = 24590"
definition INITIAL_BUFFER_POSITION :: u16 where "INITIAL_BUFFER_POSITION = 8"
definition HEADER_LENGTH :: nat where "HEADER_LENGTH = 2"
definition CHECKSUM_LENGTH :: nat where "CHECKSUM_LENGTH = 4"
definition XTEA_MULTIPLE :: nat where "XTEA_MULTIPLE = 8"

definition MAX_BODY_LENGTH :: nat where
  "MAX_BODY_LENGTH = NETWORKMESSAGE_MAXSIZE - HEADER_LENGTH - CHECKSUM_LENGTH - XTEA_MULTIPLE"

definition MAX_PROTOCOL_BODY_LENGTH :: nat where
  "MAX_PROTOCOL_BODY_LENGTH = MAX_BODY_LENGTH - 10"

lemmas size_defs = NETWORKMESSAGE_MAXSIZE_def HEADER_LENGTH_def CHECKSUM_LENGTH_def
  XTEA_MULTIPLE_def MAX_BODY_LENGTH_def MAX_PROTOCOL_BODY_LENGTH_def

record netmsg =
  msg_length :: u16
  msg_position :: u16
  msg_overrun :: bool
  msg_buffer :: "byte list"

definition buf_ok :: "'m netmsg_scheme \<Rightarrow> bool" where
  "buf_ok m \<longleftrightarrow> length (msg_buffer m) = NETWORKMESSAGE_MAXSIZE"

section \<open>Reading\<close>

definition reset :: "'m netmsg_scheme \<Rightarrow> 'm netmsg_scheme" where
  "reset m = m\<lparr>msg_length := 0, msg_position := INITIAL_BUFFER_POSITION, msg_overrun := False\<rparr>"

definition canAdd :: "nat \<Rightarrow> 'm netmsg_scheme \<Rightarrow> bool" where
  \<comment> \<open>the sum of a \<open>size_t\<close>, which wraps\<close>
  "canAdd n m \<longleftrightarrow> (n + unat (msg_position m)) mod 2 ^ 64 < MAX_BODY_LENGTH"

definition canRead :: "int \<Rightarrow> 'm netmsg_scheme \<Rightarrow> bool \<times> 'm netmsg_scheme" where
  "canRead n m =
     (if uint (msg_position m) + n > uint (msg_length m) + 8 \<or>
         n \<ge> int NETWORKMESSAGE_MAXSIZE - uint (msg_position m)
      then (False, m\<lparr>msg_overrun := True\<rparr>)
      else (True, m))"

definition getByte :: "'m netmsg_scheme \<Rightarrow> (byte \<times> 'm netmsg_scheme) option" where
  "getByte m =
     (case canRead 1 m of
        (False, m') \<Rightarrow> Some (0, m')
      | (True, m') \<Rightarrow> do {
          bs \<leftarrow> mem_read (msg_buffer m') (unat (msg_position m')) 1;
          Some (hd bs, m'\<lparr>msg_position := msg_position m' + 1\<rparr>)
        })"

definition getPreviousByte :: "'m netmsg_scheme \<Rightarrow> (byte \<times> 'm netmsg_scheme) option" where
  "getPreviousByte m =
     (let p = msg_position m - 1
      in do {
        bs \<leftarrow> mem_read (msg_buffer m) (unat p) 1;
        Some (hd bs, m\<lparr>msg_position := p\<rparr>)
      })"

definition sizeof :: "'a::len itself \<Rightarrow> nat" where
  "sizeof (t :: 'a itself) = LENGTH('a) div 8"

definition get :: "'m netmsg_scheme \<Rightarrow> ('a::len word \<times> 'm netmsg_scheme) option" where
  "get m =
     (let n = sizeof TYPE('a)
      in case canRead (int n) m of
           (False, m') \<Rightarrow> Some (0, m')
         | (True, m') \<Rightarrow> do {
             bs \<leftarrow> mem_read (msg_buffer m') (unat (msg_position m')) n;
             Some (le_word bs, m'\<lparr>msg_position := msg_position m' + of_nat n\<rparr>)
           })"

definition getString :: "u16 \<Rightarrow> 'm netmsg_scheme \<Rightarrow> (bstring \<times> 'm netmsg_scheme) option" where
  "getString stringLen m = do {
     (n, m1) \<leftarrow> (if stringLen = 0 then get m else Some (stringLen, m));
     (case canRead (uint n) m1 of
        (False, m2) \<Rightarrow> Some ([], m2)
      | (True, m2) \<Rightarrow> do {
          bs \<leftarrow> mem_read (msg_buffer m2) (unat (msg_position m2)) (unat n);
          Some (bs, m2\<lparr>msg_position := msg_position m2 + n\<rparr>)
        })
   }"

definition getPosition :: "'m netmsg_scheme \<Rightarrow> (position \<times> 'm netmsg_scheme) option" where
  "getPosition m = do {
     (x, m1) \<leftarrow> get m;
     (y, m2) \<leftarrow> get m1;
     (z, m3) \<leftarrow> getByte m2;
     Some (Position x y z, m3)
   }"

definition skipBytes :: "16 word \<Rightarrow> 'm netmsg_scheme \<Rightarrow> 'm netmsg_scheme" where
  \<comment> \<open>\<open>int16_t count\<close> is added to the 16-bit cursor, which wraps\<close>
  "skipBytes count m = m\<lparr>msg_position := msg_position m + count\<rparr>"

section \<open>Writing\<close>

text \<open>The copy all the writers share: bytes at the cursor, cursor and length moved on.\<close>

definition put_bytes :: "byte list \<Rightarrow> 'm netmsg_scheme \<Rightarrow> 'm netmsg_scheme option" where
  "put_bytes bs m = do {
     buf \<leftarrow> mem_write (msg_buffer m) (unat (msg_position m)) bs;
     Some (m\<lparr>msg_buffer := buf,
             msg_position := msg_position m + of_nat (length bs),
             msg_length := msg_length m + of_nat (length bs)\<rparr>)
   }"

definition addByte :: "byte \<Rightarrow> 'm netmsg_scheme \<Rightarrow> 'm netmsg_scheme option" where
  "addByte v m = (if \<not> canAdd 1 m then Some m else put_bytes [v] m)"

definition add :: "'a::len word \<Rightarrow> 'm netmsg_scheme \<Rightarrow> 'm netmsg_scheme option" where
  "add v m =
     (let n = sizeof TYPE('a)
      in if \<not> canAdd n m then Some m else put_bytes (le_bytes n v) m)"

definition addBytes :: "byte list \<Rightarrow> 'm netmsg_scheme \<Rightarrow> 'm netmsg_scheme option" where
  "addBytes bs m = (if \<not> canAdd (length bs) m \<or> length bs > 8192 then Some m else put_bytes bs m)"

definition addPaddingBytes :: "u64 \<Rightarrow> 'm netmsg_scheme \<Rightarrow> 'm netmsg_scheme option" where
  "addPaddingBytes n m =
     (if \<not> canAdd (unat n) m then Some m
      else do {
        buf \<leftarrow> mem_write (msg_buffer m) (unat (msg_position m)) (replicate (unat n) 0x33);
        Some (m\<lparr>msg_buffer := buf, msg_length := msg_length m + ucast n\<rparr>)
      })"

definition addString :: "bstring \<Rightarrow> 'm netmsg_scheme \<Rightarrow> 'm netmsg_scheme option" where
  "addString s m =
     (let stringLen = length s
      in if \<not> canAdd (stringLen + 2) m \<or> stringLen > 8192 then Some m
         else do {
           m1 \<leftarrow> add (of_nat stringLen :: u16) m;
           put_bytes s m1
         })"

definition addPosition :: "position \<Rightarrow> 'm netmsg_scheme \<Rightarrow> 'm netmsg_scheme option" where
  "addPosition p m = do {
     m1 \<leftarrow> add (pos_x p) m;
     m2 \<leftarrow> add (pos_y p) m1;
     addByte (pos_z p) m2
   }"

text \<open>
  Item types come from the loaded \<open>Item::items\<close> table, a parameter here. An item that is
  written is seen through its id, its count and its fluid type.
\<close>

record msg_item_type =
  it_clientId :: u16
  it_stackable :: bool
  it_isSplash :: bool
  it_isFluidContainer :: bool

record item_view =
  iv_id :: u16
  iv_count :: u16
  iv_fluidType :: u16

definition fluidMap :: "byte list" where
  "fluidMap = [0, 1, 5, 3, 6, 8, 9, 2]"

definition addItem_id ::
  "(u16 \<Rightarrow> msg_item_type) \<Rightarrow> u16 \<Rightarrow> byte \<Rightarrow> 'm netmsg_scheme \<Rightarrow> 'm netmsg_scheme option" where
  "addItem_id items i count m =
     (let it = items i
      in do {
        m1 \<leftarrow> add (it_clientId it) m;
        (if it_stackable it then addByte count m1
         else if it_isSplash it \<or> it_isFluidContainer it then
           addByte (fluidMap ! unat (count AND 7)) m1
         else Some m1)
      })"

definition addItem ::
  "(u16 \<Rightarrow> msg_item_type) \<Rightarrow> item_view \<Rightarrow> 'm netmsg_scheme \<Rightarrow> 'm netmsg_scheme option" where
  "addItem items i m =
     (let it = items (iv_id i)
      in do {
        m1 \<leftarrow> add (it_clientId it) m;
        (if it_stackable it then addByte (ucast (min 0xFF (iv_count i))) m1
         else if it_isSplash it \<or> it_isFluidContainer it then
           addByte (fluidMap ! unat (iv_fluidType i AND 7)) m1
         else Some m1)
      })"

definition addItemId ::
  "(u16 \<Rightarrow> msg_item_type) \<Rightarrow> u16 \<Rightarrow> 'm netmsg_scheme \<Rightarrow> 'm netmsg_scheme option" where
  "addItemId items i m = add (it_clientId (items i)) m"

section \<open>Header and cursor\<close>

definition setLength :: "u16 \<Rightarrow> 'm netmsg_scheme \<Rightarrow> 'm netmsg_scheme" where
  "setLength n m = m\<lparr>msg_length := n\<rparr>"

definition setBufferPosition :: "u16 \<Rightarrow> 'm netmsg_scheme \<Rightarrow> 'm netmsg_scheme" where
  "setBufferPosition p m = m\<lparr>msg_position := p\<rparr>"

definition decodeHeader :: "'m netmsg_scheme \<Rightarrow> (int \<times> 'm netmsg_scheme) option" where
  "decodeHeader m = do {
     bs \<leftarrow> mem_read (msg_buffer m) 0 2;
     let newSize = uint (bs ! 0) OR push_bit 8 (uint (bs ! 1));
     let m' = m\<lparr>msg_length := of_int newSize\<rparr>;
     Some (uint (msg_length m'), m')
   }"

definition getBodyBuffer :: "'m netmsg_scheme \<Rightarrow> nat \<times> 'm netmsg_scheme" where
  \<comment> \<open>the offset of the body in the buffer, and the message with its cursor there\<close>
  "getBodyBuffer m = (HEADER_LENGTH, m\<lparr>msg_position := 2\<rparr>)"

section \<open>Outgoing messages\<close>

record outmsg = netmsg +
  om_broadcast :: bool
  om_start :: u16 \<comment> \<open>\<open>outputBufferStart\<close>\<close>

definition new_outmsg :: "byte list \<Rightarrow> outmsg" where
  \<comment> \<open>a fresh message; the array's initial content is arbitrary\<close>
  "new_outmsg buf =
     \<lparr>msg_length = 0, msg_position = INITIAL_BUFFER_POSITION, msg_overrun = False,
      msg_buffer = buf, om_broadcast = False, om_start = INITIAL_BUFFER_POSITION\<rparr>"

definition add_header :: "'a::len word \<Rightarrow> 'm outmsg_scheme \<Rightarrow> 'm outmsg_scheme option" where
  \<comment> \<open>\<open>None\<close> is also the failed \<open>assert\<close>\<close>
  "add_header v m =
     (let n = sizeof TYPE('a)
      in if unat (om_start m) < n then None
         else let m1 = m\<lparr>om_start := om_start m - of_nat n\<rparr>
         in do {
           buf \<leftarrow> mem_write (msg_buffer m1) (unat (om_start m1)) (le_bytes n v);
           Some (m1\<lparr>msg_buffer := buf, msg_length := msg_length m1 + of_nat n\<rparr>)
         })"

definition writeMessageLength :: "'m outmsg_scheme \<Rightarrow> 'm outmsg_scheme option" where
  "writeMessageLength m = add_header (msg_length m) m"

definition append_msg ::
  "'k netmsg_scheme \<Rightarrow> 'm outmsg_scheme \<Rightarrow> 'm outmsg_scheme option" where
  "append_msg src m =
     (let msgLen = msg_length src
      in do {
        bs \<leftarrow> mem_read (msg_buffer src) 8 (unat msgLen);
        buf \<leftarrow> mem_write (msg_buffer m) (unat (msg_position m)) bs;
        Some (m\<lparr>msg_buffer := buf, msg_length := msg_length m + msgLen,
                msg_position := msg_position m + msgLen\<rparr>)
      })"

section \<open>Memory safety\<close>

lemma sizeof_simps [simp]:
  "sizeof TYPE(8) = 1" "sizeof TYPE(16) = 2" "sizeof TYPE(32) = 4" "sizeof TYPE(64) = 8"
  by (simp_all add: sizeof_def)

lemma buf_ok_update [simp]:
  "buf_ok (m\<lparr>msg_length := n\<rparr>) = buf_ok m"
  "buf_ok (m\<lparr>msg_position := p\<rparr>) = buf_ok m"
  "buf_ok (m\<lparr>msg_overrun := b\<rparr>) = buf_ok m"
  "buf_ok (m\<lparr>msg_buffer := bs\<rparr>) = (length bs = NETWORKMESSAGE_MAXSIZE)"
  by (simp_all add: buf_ok_def)

lemma buf_ok_outmsg_update [simp]:
  "buf_ok (om\<lparr>om_start := p\<rparr>) = buf_ok om"
  "buf_ok (om\<lparr>om_broadcast := b\<rparr>) = buf_ok om"
  by (simp_all add: buf_ok_def)

text \<open>
  What \<open>canRead\<close> decides, over the naturals: the bytes lie before the end of the message
  and strictly inside the array.
\<close>

definition readable :: "nat \<Rightarrow> 'm netmsg_scheme \<Rightarrow> bool" where
  "readable n m \<longleftrightarrow>
     unat (msg_position m) + n \<le> unat (msg_length m) + 8 \<and>
     unat (msg_position m) + n < NETWORKMESSAGE_MAXSIZE"

definition bytes_at :: "nat \<Rightarrow> 'm netmsg_scheme \<Rightarrow> byte list" where
  "bytes_at n m = take n (drop (unat (msg_position m)) (msg_buffer m))"

lemma canRead_eq:
  "canRead (int n) m = (if readable n m then (True, m) else (False, m\<lparr>msg_overrun := True\<rparr>))"
  by (auto simp: canRead_def readable_def nat_int_comparison)

lemma canRead_uint:
  "canRead (uint n) m =
     (if readable (unat n) m then (True, m) else (False, m\<lparr>msg_overrun := True\<rparr>))"
  using canRead_eq [of "unat n" m] by simp

lemma mem_read_readable:
  "buf_ok m \<Longrightarrow> readable n m \<Longrightarrow>
     mem_read (msg_buffer m) (unat (msg_position m)) n = Some (bytes_at n m)"
  by (simp add: mem_read_def readable_def buf_ok_def bytes_at_def)

lemma getByte_eq:
  "buf_ok m \<Longrightarrow> getByte m =
     (if readable 1 m then Some (hd (bytes_at 1 m), m\<lparr>msg_position := msg_position m + 1\<rparr>)
      else Some (0, m\<lparr>msg_overrun := True\<rparr>))"
  using canRead_eq [of 1 m] by (simp add: getByte_def mem_read_readable)

lemma get_eq:
  fixes m :: "'m netmsg_scheme"
  shows "buf_ok m \<Longrightarrow> get m =
     (if readable (sizeof TYPE('a)) m
      then Some (le_word (bytes_at (sizeof TYPE('a)) m) :: 'a::len word,
                 m\<lparr>msg_position := msg_position m + of_nat (sizeof TYPE('a))\<rparr>)
      else Some (0, m\<lparr>msg_overrun := True\<rparr>))"
  by (simp add: get_def canRead_eq mem_read_readable Let_def)

lemma getByte_safe: "buf_ok m \<Longrightarrow> \<exists>v m'. getByte m = Some (v, m') \<and> buf_ok m'"
  by (simp add: getByte_eq)

lemma get_safe: "buf_ok m \<Longrightarrow> \<exists>v m'. get m = Some (v :: 'a::len word, m') \<and> buf_ok m'"
  by (simp add: get_eq)

lemma getString_known_eq:
  "buf_ok m \<Longrightarrow> n \<noteq> 0 \<Longrightarrow> getString n m =
     (if readable (unat n) m
      then Some (bytes_at (unat n) m, m\<lparr>msg_position := msg_position m + n\<rparr>)
      else Some ([], m\<lparr>msg_overrun := True\<rparr>))"
  by (simp add: getString_def canRead_uint mem_read_readable)

lemma getString_prefixed_eq:
  "buf_ok m \<Longrightarrow> get m = Some (n, m1) \<Longrightarrow> buf_ok m1 \<Longrightarrow> getString 0 m =
     (if readable (unat n) m1
      then Some (bytes_at (unat n) m1, m1\<lparr>msg_position := msg_position m1 + n\<rparr>)
      else Some ([], m1\<lparr>msg_overrun := True\<rparr>))"
  by (simp add: getString_def canRead_uint mem_read_readable)

lemma getString_safe:
  assumes "buf_ok m"
  shows "\<exists>v m'. getString n m = Some (v, m') \<and> buf_ok m'"
proof (cases "n = 0")
  case True
  from get_safe [OF assms] obtain k :: u16 and m1 where "get m = Some (k, m1)" "buf_ok m1" by blast
  with True assms show ?thesis by (simp add: getString_prefixed_eq)
next
  case False
  with assms show ?thesis by (simp add: getString_known_eq)
qed

lemma getPosition_safe:
  assumes "buf_ok m"
  shows "\<exists>v m'. getPosition m = Some (v, m') \<and> buf_ok m'"
proof -
  from get_safe [OF assms] obtain x :: u16 and m1 where 1: "get m = Some (x, m1)" "buf_ok m1" by blast
  from get_safe [OF 1(2)] obtain y :: u16 and m2 where 2: "get m1 = Some (y, m2)" "buf_ok m2" by blast
  from getByte_safe [OF 2(2)] obtain z m3 where 3: "getByte m2 = Some (z, m3)" "buf_ok m3" by blast
  from 1 2 3 show ?thesis by (simp add: getPosition_def)
qed

text \<open>The sum wraps only for sizes that no writer but \<open>addPaddingBytes\<close> can be given.\<close>

lemma canAdd_iff: "n \<le> 2 ^ 32 \<Longrightarrow> canAdd n m \<longleftrightarrow> n + unat (msg_position m) < MAX_BODY_LENGTH"
  using unat_u16_le [of "msg_position m"] by (simp add: canAdd_def)

lemma canAdd_put_bytes:
  assumes "buf_ok m" and "canAdd (length bs) m" and "length bs \<le> 2 ^ 32"
  shows "\<exists>m'. put_bytes bs m = Some m' \<and> buf_ok m'"
  using assms by (simp add: put_bytes_def canAdd_iff mem_write_def buf_ok_def size_defs)

lemma addByte_safe: "buf_ok m \<Longrightarrow> \<exists>m'. addByte v m = Some m' \<and> buf_ok m'"
  using canAdd_put_bytes [of m "[v]"] by (simp add: addByte_def)

lemma add_safe: "buf_ok m \<Longrightarrow> sizeof TYPE('a) \<le> 8 \<Longrightarrow> \<exists>m'. add v m = Some m' \<and> buf_ok m'"
  for v :: "'a::len word"
  using canAdd_put_bytes [of m "le_bytes (sizeof TYPE('a)) v"] by (simp add: add_def Let_def)

lemma addBytes_safe: "buf_ok m \<Longrightarrow> \<exists>m'. addBytes bs m = Some m' \<and> buf_ok m'"
  using canAdd_put_bytes [of m bs] by (simp add: addBytes_def)


lemma put_bytes_append:
  assumes "put_bytes as m = Some m1" and "unat (msg_position m) + length as < 2 ^ 16"
  shows "put_bytes bs m1 = put_bytes (as @ bs) m"
proof -
  have "unat (msg_position m + of_nat (length as)) = unat (msg_position m) + length as"
    using assms(2) by (simp add: unat_word_ariths unat_of_nat)
  with assms(1) show ?thesis
    by (auto simp: put_bytes_def mem_write_def add_ac split: if_splits)
qed

lemma put_bytes_position:
  "put_bytes bs m = Some m' \<Longrightarrow> unat (msg_position m) + length bs < 2 ^ 16 \<Longrightarrow>
     unat (msg_position m') = unat (msg_position m) + length bs"
  by (auto simp: put_bytes_def unat_word_ariths unat_of_nat split: bind_splits)

text \<open>When there is room, every writer is one copy of the value's wire format.\<close>

lemma addByte_put: "canAdd 1 m \<Longrightarrow> addByte v m = put_bytes [v] m"
  by (simp add: addByte_def)

lemma add_put:
  fixes v :: "'a::len word"
  shows "canAdd (sizeof TYPE('a)) m \<Longrightarrow> add v m = put_bytes (le_bytes (sizeof TYPE('a)) v) m"
  by (simp add: add_def)

lemma addString_put:
  assumes "buf_ok m" and "canAdd (length s + 2) m" and "length s \<le> 8192"
  shows "addString s m = put_bytes (le_bytes 2 (of_nat (length s) :: u16) @ s) m"
proof -
  have fits: "canAdd 2 m" using assms(2,3) by (simp add: canAdd_iff del: add_2_eq_Suc')
  with assms(1) obtain m1 where m1: "put_bytes (le_bytes 2 (of_nat (length s) :: u16)) m = Some m1"
    using canAdd_put_bytes [of m "le_bytes 2 (of_nat (length s) :: u16)"] by auto
  moreover have "unat (msg_position m) + length (le_bytes 2 (of_nat (length s) :: u16)) < 2 ^ 16"
    using fits by (simp add: canAdd_iff size_defs)
  ultimately have "put_bytes s m1 = put_bytes (le_bytes 2 (of_nat (length s) :: u16) @ s) m"
    by (rule put_bytes_append)
  with assms fits m1 show ?thesis
    by (simp add: addString_def add_put Let_def)
qed

definition position_wire :: "position \<Rightarrow> byte list" where
  "position_wire p = le_bytes 2 (pos_x p) @ le_bytes 2 (pos_y p) @ [pos_z p]"

lemma addPosition_put:
  assumes "buf_ok m" and "canAdd 5 m"
  shows "addPosition p m = put_bytes (position_wire p) m"
proof -
  have room: "unat (msg_position m) + 5 < MAX_BODY_LENGTH" using assms(2) by (simp add: canAdd_iff)
  obtain m1 where m1: "put_bytes (le_bytes 2 (pos_x p)) m = Some m1" and ok1: "buf_ok m1"
    using canAdd_put_bytes [of m "le_bytes 2 (pos_x p)"] assms by (auto simp: canAdd_iff)
  have p1: "unat (msg_position m1) = unat (msg_position m) + 2"
    using put_bytes_position [OF m1] room by (simp add: size_defs)
  obtain m2 where m2: "put_bytes (le_bytes 2 (pos_y p)) m1 = Some m2" and ok2: "buf_ok m2"
    using canAdd_put_bytes [of m1 "le_bytes 2 (pos_y p)"] ok1 p1 room by (auto simp: canAdd_iff)
  have m2': "put_bytes (le_bytes 2 (pos_x p) @ le_bytes 2 (pos_y p)) m = Some m2"
    using put_bytes_append [OF m1] m2 room by (simp add: size_defs)
  have p2: "unat (msg_position m2) = unat (msg_position m) + 4"
    using put_bytes_position [OF m2'] room by (simp add: size_defs)
  have "put_bytes [pos_z p] m2 = put_bytes (position_wire p) m"
    using put_bytes_append [OF m2'] room by (simp add: size_defs position_wire_def)
  with m1 m2 p1 p2 room show ?thesis
    by (simp add: addPosition_def add_put addByte_put canAdd_iff)
qed

section \<open>What is written is read back\<close>

text \<open>
  The values a packet carries, with the operation that writes each, the one that reads each and
  the bytes on the wire. A reader knows the kind of the value it expects, not its content.
\<close>

datatype field = FByte byte | FU16 u16 | FU32 u32 | FString bstring | FPosition position

datatype field_kind = KByte | KU16 | KU32 | KString | KPosition

fun kind_of :: "field \<Rightarrow> field_kind" where
  "kind_of (FByte _) = KByte"
| "kind_of (FU16 _) = KU16"
| "kind_of (FU32 _) = KU32"
| "kind_of (FString _) = KString"
| "kind_of (FPosition _) = KPosition"

fun wire :: "field \<Rightarrow> byte list" where
  "wire (FByte b) = [b]"
| "wire (FU16 w) = le_bytes 2 w"
| "wire (FU32 w) = le_bytes 4 w"
| "wire (FString s) = le_bytes 2 (of_nat (length s) :: u16) @ s"
| "wire (FPosition p) = position_wire p"

fun valid_field :: "field \<Rightarrow> bool" where
  "valid_field (FString s) = (length s \<le> 8192)"
| "valid_field _ = True"

fun put_field :: "field \<Rightarrow> netmsg \<Rightarrow> netmsg option" where
  "put_field (FByte b) m = addByte b m"
| "put_field (FU16 w) m = add w m"
| "put_field (FU32 w) m = add w m"
| "put_field (FString s) m = addString s m"
| "put_field (FPosition p) m = addPosition p m"

fun get_field :: "field_kind \<Rightarrow> netmsg \<Rightarrow> (field \<times> netmsg) option" where
  "get_field KByte m = map_option (apfst FByte) (getByte m)"
| "get_field KU16 m = map_option (apfst FU16) (get m)"
| "get_field KU32 m = map_option (apfst FU32) (get m)"
| "get_field KString m = map_option (apfst FString) (getString 0 m)"
| "get_field KPosition m = map_option (apfst FPosition) (getPosition m)"

text \<open>The bytes \<open>bs\<close> are next in the message, inside its length and its array.\<close>

definition pending :: "'m netmsg_scheme \<Rightarrow> byte list \<Rightarrow> bool" where
  "pending m bs \<longleftrightarrow> buf_ok m \<and> readable (length bs) m \<and> bytes_at (length bs) m = bs"

lemma pending_advance:
  assumes "pending m (as @ bs)"
  shows "bytes_at (length as) m = as" and "readable (length as) m"
    and "pending (m\<lparr>msg_position := msg_position m + of_nat (length as)\<rparr>) bs"
proof -
  have r: "readable (length as + length bs) m" and ok: "buf_ok m"
    and at: "bytes_at (length as + length bs) m = as @ bs"
    using assms by (simp_all add: pending_def)
  show "bytes_at (length as) m = as"
  proof -
    have "take (length as) (bytes_at (length as + length bs) m) = as" by (simp add: at)
    then show ?thesis by (simp add: bytes_at_def)
  qed
  show "readable (length as) m" using r by (simp add: readable_def)
  have pos: "unat (msg_position m + of_nat (length as)) = unat (msg_position m) + length as"
    using r by (simp add: readable_def size_defs unat_word_ariths unat_of_nat)
  have "drop (length as) (bytes_at (length as + length bs) m) = bs" by (simp add: at)
  then have "bytes_at (length bs) (m\<lparr>msg_position := msg_position m + of_nat (length as)\<rparr>) = bs"
    by (simp add: bytes_at_def pos drop_take add.commute)
  with r ok show "pending (m\<lparr>msg_position := msg_position m + of_nat (length as)\<rparr>) bs"
    by (simp add: pending_def readable_def pos)
qed

fun write_all :: "('v \<Rightarrow> 'm \<Rightarrow> 'm option) \<Rightarrow> 'v list \<Rightarrow> 'm \<Rightarrow> 'm option" where
  "write_all put [] m = Some m"
| "write_all put (v # vs) m = do { m1 \<leftarrow> put v m; write_all put vs m1 }"

fun read_all ::
  "('k \<Rightarrow> 'm \<Rightarrow> ('v \<times> 'm) option) \<Rightarrow> 'k list \<Rightarrow> 'm \<Rightarrow> ('v list \<times> 'm) option" where
  "read_all rd [] m = Some ([], m)"
| "read_all rd (k # ks) m = do {
     (v, m1) \<leftarrow> rd k m;
     (vs, m2) \<leftarrow> read_all rd ks m1;
     Some (v # vs, m2)
   }"

text \<open>
  The contract between the writers and the readers of a message: a writer that has room copies
  the value's wire format, a reader that finds it returns the value and moves past it.
\<close>

locale field_codec =
  fixes kind :: "'v \<Rightarrow> 'k"
    and wire_of :: "'v \<Rightarrow> byte list"
    and valid :: "'v \<Rightarrow> bool"
    and put :: "'v \<Rightarrow> netmsg \<Rightarrow> netmsg option"
    and rd :: "'k \<Rightarrow> netmsg \<Rightarrow> ('v \<times> netmsg) option"
  assumes put_law: "buf_ok m \<Longrightarrow> valid v \<Longrightarrow>
      unat (msg_position m) + length (wire_of v) < MAX_BODY_LENGTH \<Longrightarrow>
      put v m = put_bytes (wire_of v) m"
    and rd_law: "valid v \<Longrightarrow> pending m (wire_of v @ rest) \<Longrightarrow>
      rd (kind v) m = Some (v, m\<lparr>msg_position := msg_position m + of_nat (length (wire_of v))\<rparr>)"
begin

definition wires :: "'v list \<Rightarrow> byte list" where
  "wires vs = concat (map wire_of vs)"

lemma wires_simps [simp]: "wires [] = []" "wires (v # vs) = wire_of v @ wires vs"
  by (simp_all add: wires_def)

lemma write_all_put_bytes:
  assumes "buf_ok m" and "list_all valid vs"
    and "unat (msg_position m) + length (wires vs) < MAX_BODY_LENGTH"
  shows "\<exists>m'. write_all put vs m = Some m' \<and> put_bytes (wires vs) m = Some m' \<and> buf_ok m'"
  using assms
proof (induction vs arbitrary: m)
  case Nil
  then show ?case by (simp add: put_bytes_def mem_write_def buf_ok_def size_defs)
next
  case (Cons v vs)
  obtain m1 where m1: "put_bytes (wire_of v) m = Some m1" and ok1: "buf_ok m1"
    using canAdd_put_bytes [of m "wire_of v"] Cons.prems by (auto simp: canAdd_iff size_defs)
  have pos1: "unat (msg_position m1) = unat (msg_position m) + length (wire_of v)"
    using put_bytes_position [OF m1] Cons.prems by (simp add: size_defs)
  have "put_bytes (wires vs) m1 = put_bytes (wires (v # vs)) m"
    using put_bytes_append [OF m1] Cons.prems by (simp add: size_defs)
  moreover obtain m' where "write_all put vs m1 = Some m'" "put_bytes (wires vs) m1 = Some m'" "buf_ok m'"
    using Cons.IH [of m1] Cons.prems ok1 pos1 by (auto simp: add.assoc)
  moreover have "put v m = Some m1" using Cons.prems m1 put_law [of m v] by simp
  ultimately show ?case by (intro exI [of _ m']) simp
qed

lemma read_all_pending:
  assumes "list_all valid vs" and "pending m (wires vs @ rest)"
  shows "read_all rd (map kind vs) m =
           Some (vs, m\<lparr>msg_position := msg_position m + of_nat (length (wires vs))\<rparr>)"
  using assms
proof (induction vs arbitrary: m)
  case Nil
  then show ?case by simp
next
  case (Cons v vs)
  let ?m = "m\<lparr>msg_position := msg_position m + of_nat (length (wire_of v))\<rparr>"
  have p: "pending m (wire_of v @ wires vs @ rest)" using Cons.prems by simp
  then have "rd (kind v) m = Some (v, ?m)" using rd_law Cons.prems by simp
  moreover have "pending ?m (wires vs @ rest)" using pending_advance(3) [OF p] .
  ultimately show ?case
    using Cons.IH [of ?m] Cons.prems by (simp add: add.assoc)
qed

lemma pending_written:
  assumes "put_bytes bs m = Some m'" and "buf_ok m"
    and "unat (msg_position m) + length bs < MAX_BODY_LENGTH"
    and "unat (msg_position m) = unat (msg_length m) + 8"
  shows "pending (m'\<lparr>msg_position := msg_position m\<rparr>) bs"
proof -
  have "unat (msg_length m') = unat (msg_length m) + length bs"
    using assms by (auto simp: put_bytes_def unat_word_ariths unat_of_nat size_defs split: bind_splits)
  then show ?thesis
    using assms by (auto simp: pending_def buf_ok_def put_bytes_def mem_write_def readable_def
        bytes_at_def size_defs split: if_splits)
qed

lemma write_read_all:
  assumes "buf_ok m" and "list_all valid vs" and "length (wires vs) + 8 < MAX_BODY_LENGTH"
  shows "\<exists>m' m''. write_all put vs (reset m) = Some m' \<and>
           unat (msg_length m') = length (wires vs) \<and>
           read_all rd (map kind vs) (setBufferPosition INITIAL_BUFFER_POSITION m') = Some (vs, m'') \<and>
           \<not> msg_overrun m''"
proof -
  let ?r = "reset m"
  have ok: "buf_ok ?r" and pos: "unat (msg_position ?r) = 8" and len: "msg_length ?r = 0"
    and "\<not> msg_overrun ?r"
    using assms(1) by (simp_all add: reset_def buf_ok_def INITIAL_BUFFER_POSITION_def)
  obtain m' where m': "write_all put vs ?r = Some m'" and "put_bytes (wires vs) ?r = Some m'"
    using write_all_put_bytes [OF ok assms(2)] assms(3) pos by (auto simp: add.commute)
  moreover have "msg_overrun m' = msg_overrun ?r" and "unat (msg_length m') = length (wires vs)"
    using calculation(2) len assms(3)
    by (auto simp: put_bytes_def unat_of_nat size_defs split: bind_splits)
  moreover have "pending (setBufferPosition INITIAL_BUFFER_POSITION m') (wires vs @ [])"
    using pending_written [OF calculation(2) ok] pos len assms(3)
    by (simp add: setBufferPosition_def reset_def add.commute)
  ultimately show ?thesis
    using read_all_pending [OF assms(2), of "setBufferPosition INITIAL_BUFFER_POSITION m'" "[]"]
      \<open>\<not> msg_overrun ?r\<close>
    by (simp add: setBufferPosition_def)
qed

end

lemma get_pending:
  fixes w :: "'a::len word"
  assumes "pending m (le_bytes (sizeof TYPE('a)) w @ rest)" and "8 * sizeof TYPE('a) = LENGTH('a)"
  shows "get m = Some (w, m\<lparr>msg_position := msg_position m + of_nat (sizeof TYPE('a))\<rparr>)"
  using pending_advance(1,2) [OF assms(1)] assms
  by (simp add: get_eq pending_def le_word_le_bytes)

lemmas get_u16_pending = get_pending [where 'a = 16, simplified]
lemmas get_u32_pending = get_pending [where 'a = 32, simplified]

lemma getByte_pending:
  "pending m ([b] @ rest) \<Longrightarrow> getByte m = Some (b, m\<lparr>msg_position := msg_position m + 1\<rparr>)"
  using pending_advance(1,2) [of m "[b]" rest] by (simp add: getByte_eq pending_def)

lemma getString_pending:
  assumes "pending m ((le_bytes 2 (of_nat (length s) :: u16) @ s) @ rest)" and "length s \<le> 8192"
  shows "getString 0 m = Some (s, m\<lparr>msg_position := msg_position m + of_nat (2 + length s)\<rparr>)"
proof -
  let ?m = "m\<lparr>msg_position := msg_position m + of_nat 2\<rparr>"
  have p: "pending m (le_bytes 2 (of_nat (length s) :: u16) @ s @ rest)" using assms by simp
  have g: "get m = Some (of_nat (length s) :: u16, ?m)"
    using get_pending [of m "of_nat (length s) :: u16" "s @ rest"] p by simp
  have p': "pending ?m (s @ rest)" using pending_advance(3) [OF p] by simp
  have n: "unat (of_nat (length s) :: u16) = length s" using assms(2) by (simp add: unat_of_nat)
  show ?thesis
    using getString_prefixed_eq [OF _ g] p p' pending_advance(1,2) [OF p'] n
    by (simp add: pending_def add.assoc)
qed

lemma getPosition_pending:
  assumes "pending m (position_wire p @ rest)"
  shows "getPosition m = Some (p, m\<lparr>msg_position := msg_position m + of_nat 5\<rparr>)"
proof -
  let ?m1 = "m\<lparr>msg_position := msg_position m + of_nat 2\<rparr>"
  let ?m2 = "?m1\<lparr>msg_position := msg_position ?m1 + of_nat 2\<rparr>"
  have p0: "pending m (le_bytes 2 (pos_x p) @ le_bytes 2 (pos_y p) @ [pos_z p] @ rest)"
    using assms by (simp add: position_wire_def)
  have p1: "pending ?m1 (le_bytes 2 (pos_y p) @ [pos_z p] @ rest)"
    using pending_advance(3) [OF p0] by simp
  have p2: "pending ?m2 ([pos_z p] @ rest)" using pending_advance(3) [OF p1] by simp
  have "get m = Some (pos_x p, ?m1)" and "get ?m1 = Some (pos_y p, ?m2)"
    using get_pending [of m "pos_x p"] get_pending [of ?m1 "pos_y p"] p0 p1 by simp_all
  with getByte_pending [OF p2] show ?thesis by (simp add: getPosition_def add.assoc)
qed

interpretation nm: field_codec kind_of wire valid_field put_field get_field
proof
  fix m :: netmsg and v
  assume "buf_ok m" "valid_field v" "unat (msg_position m) + length (wire v) < MAX_BODY_LENGTH"
  then show "put_field v m = put_bytes (wire v) m"
    by (cases v) (simp_all add: addByte_put add_put addString_put addPosition_put canAdd_iff
        position_wire_def add_ac)
next
  fix m :: netmsg and v rest
  assume "valid_field v" "pending m (wire v @ rest)"
  then show "get_field (kind_of v) m =
      Some (v, m\<lparr>msg_position := msg_position m + of_nat (length (wire v))\<rparr>)"
    by (cases v) (simp_all add: getByte_pending get_u16_pending get_u32_pending getString_pending
        getPosition_pending position_wire_def)
qed

section \<open>Properties\<close>

text \<open>Any mix of the operations of a message, as handlers and senders perform them.\<close>

datatype msg_op =
    GetByte | GetPreviousByte | GetU16 | GetU32 | GetU64 | GetString u16 | GetPosition
  | AddByte byte | AddU16 u16 | AddU32 u32 | AddU64 u64 | AddBytes "byte list" | AddPadding u64
  | AddString bstring | AddPosition position
  | SkipBytes u16 | SetLength u16 | SetPosition u16 | Reset
  | Append netmsg | AddHeader16 u16 | AddHeader32 u32 | WriteMessageLength

fun run_op :: "msg_op \<Rightarrow> outmsg \<Rightarrow> outmsg option" where
  "run_op GetByte m = map_option snd (getByte m)"
| "run_op GetPreviousByte m = map_option snd (getPreviousByte m)"
| "run_op GetU16 m = map_option snd (get m :: (u16 \<times> outmsg) option)"
| "run_op GetU32 m = map_option snd (get m :: (u32 \<times> outmsg) option)"
| "run_op GetU64 m = map_option snd (get m :: (u64 \<times> outmsg) option)"
| "run_op (GetString n) m = map_option snd (getString n m)"
| "run_op GetPosition m = map_option snd (getPosition m)"
| "run_op (AddByte b) m = addByte b m"
| "run_op (AddU16 w) m = add w m"
| "run_op (AddU32 w) m = add w m"
| "run_op (AddU64 w) m = add w m"
| "run_op (AddBytes bs) m = addBytes bs m"
| "run_op (AddPadding n) m = addPaddingBytes n m"
| "run_op (AddString s) m = addString s m"
| "run_op (AddPosition p) m = addPosition p m"
| "run_op (SkipBytes n) m = Some (skipBytes n m)"
| "run_op (SetLength n) m = Some (setLength n m)"
| "run_op (SetPosition p) m = Some (setBufferPosition p m)"
| "run_op Reset m = Some (reset m)"
| "run_op (Append src) m = append_msg src m"
| "run_op (AddHeader16 w) m = add_header w m"
| "run_op (AddHeader32 w) m = add_header w m"
| "run_op WriteMessageLength m = writeMessageLength m"

fun run_ops :: "msg_op list \<Rightarrow> outmsg \<Rightarrow> outmsg option" where
  "run_ops [] m = Some m"
| "run_ops (x # xs) m = do { m' \<leftarrow> run_op x m; run_ops xs m' }"

text \<open>
  The operations that access the array without a check of their own, and when they leave it: a step
  back from the start or from beyond the end, a padding so long that the sum of \<open>canAdd\<close> wraps, a message
  that does not fit, and a header with no room in front.
\<close>

fun leaves_array :: "msg_op \<Rightarrow> outmsg \<Rightarrow> bool" where
  "leaves_array GetPreviousByte m \<longleftrightarrow> msg_position m = 0 \<or> unat (msg_position m) > NETWORKMESSAGE_MAXSIZE"
| "leaves_array (AddPadding n) m \<longleftrightarrow> unat n + unat (msg_position m) \<ge> 2 ^ 64 \<and>
     unat n + unat (msg_position m) - 2 ^ 64 < MAX_BODY_LENGTH"
| "leaves_array (Append src) m \<longleftrightarrow> 8 + unat (msg_length src) > length (msg_buffer src) \<or>
     unat (msg_position m) + unat (msg_length src) > NETWORKMESSAGE_MAXSIZE"
| "leaves_array (AddHeader16 w) m \<longleftrightarrow> unat (om_start m) < 2 \<or> unat (om_start m) > NETWORKMESSAGE_MAXSIZE"
| "leaves_array (AddHeader32 w) m \<longleftrightarrow> unat (om_start m) < 4 \<or> unat (om_start m) > NETWORKMESSAGE_MAXSIZE"
| "leaves_array WriteMessageLength m \<longleftrightarrow> unat (om_start m) < 2 \<or> unat (om_start m) > NETWORKMESSAGE_MAXSIZE"
| "leaves_array _ m \<longleftrightarrow> False"

lemma addString_safe:
  assumes "buf_ok m"
  shows "\<exists>m'. addString s m = Some m' \<and> buf_ok m'"
proof (cases "canAdd (length s + 2) m \<and> length s \<le> 8192")
  case True
  then show ?thesis
    using assms addString_put [of m s] canAdd_put_bytes [of m "le_bytes 2 (of_nat (length s) :: u16) @ s"]
    by (auto simp: add.commute)
next
  case False
  then show ?thesis using assms by (auto simp: addString_def Let_def)
qed

lemma addPosition_safe:
  assumes "buf_ok m"
  shows "\<exists>m'. addPosition p m = Some m' \<and> buf_ok m'"
proof -
  from add_safe [OF assms, of "pos_x p"] obtain m1 where 1: "add (pos_x p) m = Some m1" "buf_ok m1" by auto
  from add_safe [OF 1(2), of "pos_y p"] obtain m2 where 2: "add (pos_y p) m1 = Some m2" "buf_ok m2" by auto
  from addByte_safe [OF 2(2)] 1 2 show ?thesis by (auto simp: addPosition_def)
qed

lemma map_option_snd_safe:
  "\<exists>v m'. x = Some (v, m') \<and> P m' \<Longrightarrow> \<exists>m'. map_option snd x = Some m' \<and> P m'"
  by auto

lemmas read_safe = getByte_safe get_safe getString_safe getPosition_safe
lemmas write_safe = addByte_safe add_safe addBytes_safe addString_safe addPosition_safe

lemma getPreviousByte_safe:
  assumes "buf_ok m"
  shows "getPreviousByte m = None \<longleftrightarrow> msg_position m = 0 \<or> unat (msg_position m) > NETWORKMESSAGE_MAXSIZE"
    and "getPreviousByte m = Some (b, m') \<Longrightarrow> buf_ok m'"
proof -
  have p: "unat (msg_position m - 1) = (if msg_position m = 0 then 65535 else unat (msg_position m) - 1)"
    by (auto simp: unat_minus_one unsigned_minus_1_eq_mask mask_eq_exp_minus_1)
  have "msg_position m \<noteq> 0 \<Longrightarrow> unat (msg_position m) > 0" by (simp add: word_gt_0_no unat_gt_0)
  then show "getPreviousByte m = None \<longleftrightarrow> msg_position m = 0 \<or> unat (msg_position m) > NETWORKMESSAGE_MAXSIZE"
    using assms p by (auto simp: getPreviousByte_def Let_def mem_read_def buf_ok_def size_defs)
  show "getPreviousByte m = Some (b, m') \<Longrightarrow> buf_ok m'"
    using assms by (auto simp: getPreviousByte_def Let_def split: bind_splits)
qed

lemma addPaddingBytes_safe:
  assumes "buf_ok m"
  shows "addPaddingBytes n m = None \<longleftrightarrow> leaves_array (AddPadding n) m"
    and "addPaddingBytes n m = Some m' \<Longrightarrow> buf_ok m'"
proof -
  let ?s = "unat n + unat (msg_position m)"
  have p: "unat n < 2 ^ 64" "unat (msg_position m) \<le> 65535" using unsigned_less [of n] unat_u16_le by simp_all
  show "addPaddingBytes n m = None \<longleftrightarrow> leaves_array (AddPadding n) m"
  proof (cases "?s < 2 ^ 64")
    case True
    then have "?s mod 2 ^ 64 = ?s" by (rule mod_less)
    with True assms show ?thesis
      by (auto simp: addPaddingBytes_def canAdd_def mem_write_def buf_ok_def size_defs)
  next
    case False
    then have "?s mod 2 ^ 64 = ?s - 2 ^ 64" using p by (simp add: mod_if)
    with False assms p show ?thesis
      by (auto simp: addPaddingBytes_def canAdd_def mem_write_def buf_ok_def size_defs)
  qed
  show "addPaddingBytes n m = Some m' \<Longrightarrow> buf_ok m'"
    using assms by (auto simp: addPaddingBytes_def mem_write_def buf_ok_def split: bind_splits if_splits)
qed

lemma append_msg_safe:
  assumes "buf_ok m"
  shows "append_msg src m = None \<longleftrightarrow> leaves_array (Append src) m"
    and "append_msg src m = Some m' \<Longrightarrow> buf_ok m'"
  using assms by (auto simp: append_msg_def Let_def mem_read_def mem_write_def buf_ok_def split: bind_splits if_splits)

lemma add_header_safe:
  fixes v :: "'a::len word"
  assumes "buf_ok m"
  shows "add_header v m = None \<longleftrightarrow> unat (om_start m) < sizeof TYPE('a) \<or> unat (om_start m) > NETWORKMESSAGE_MAXSIZE"
    and "add_header v m = Some m' \<Longrightarrow> buf_ok m'"
proof -
  have "unat (om_start m - of_nat (sizeof TYPE('a))) = unat (om_start m) - sizeof TYPE('a)"
    if "sizeof TYPE('a) \<le> unat (om_start m)"
    using that unat_u16_le [of "om_start m"] by (simp add: unat_sub_if' unat_of_nat)
  then show "add_header v m = None \<longleftrightarrow> unat (om_start m) < sizeof TYPE('a) \<or> unat (om_start m) > NETWORKMESSAGE_MAXSIZE"
    using assms by (auto simp: add_header_def Let_def mem_write_def buf_ok_def)
  show "add_header v m = Some m' \<Longrightarrow> buf_ok m'"
    using assms by (auto simp: add_header_def Let_def mem_write_def buf_ok_def split: bind_splits if_splits)
qed

lemmas unchecked_safe = getPreviousByte_safe(1) addPaddingBytes_safe(1) append_msg_safe(1) add_header_safe(1)

lemma safe_exact: "\<exists>m'. x = Some m' \<and> P m' \<Longrightarrow> x \<noteq> None \<and> (\<forall>m'. x = Some m' \<longrightarrow> P m')"
  by auto

lemma run_op_safe:
  assumes "buf_ok m"
  shows "run_op x m = None \<longleftrightarrow> leaves_array x m" and "run_op x m = Some m' \<Longrightarrow> buf_ok m'"
proof -
  have checked: "\<exists>m'. run_op x m = Some m' \<and> buf_ok m'"
    if "\<nexists>n src v w. x = GetPreviousByte \<or> x = AddPadding n \<or> x = Append src \<or> x = AddHeader16 v \<or>
      x = AddHeader32 w \<or> x = WriteMessageLength"
    using that assms
    by (cases x) (simp_all add: read_safe write_safe map_option_snd_safe skipBytes_def setLength_def
        setBufferPosition_def reset_def del: map_option_eq_Some)
  show "run_op x m = None \<longleftrightarrow> leaves_array x m"
    using checked by (cases x) (auto simp: writeMessageLength_def unchecked_safe [OF assms])
  show "run_op x m = Some m' \<Longrightarrow> buf_ok m'"
    using checked
    by (cases x) (auto simp: writeMessageLength_def dest: getPreviousByte_safe(2) [OF assms]
        addPaddingBytes_safe(2) [OF assms] append_msg_safe(2) [OF assms] add_header_safe(2) [OF assms])
qed

lemma run_ops_safe: "buf_ok m \<Longrightarrow> run_ops xs m = Some m' \<Longrightarrow> buf_ok m'"
  by (induction xs arbitrary: m) (auto simp: bind_eq_Some_conv dest: run_op_safe(2))

lemma run_ops_None:
  "buf_ok m \<Longrightarrow> run_ops xs m = None \<longleftrightarrow>
     (\<exists>as x bs m'. xs = as @ x # bs \<and> run_ops as m = Some m' \<and> leaves_array x m')"
proof (induction xs arbitrary: m)
  case Nil
  then show ?case by simp
next
  case (Cons y ys)
  show ?case
  proof (cases "run_op y m")
    case None
    then have "leaves_array y m" using run_op_safe(1) [OF Cons.prems] by simp
    moreover have "run_ops (y # ys) m = None" using None by simp
    moreover have "y # ys = [] @ y # ys \<and> run_ops [] m = Some m" by simp
    ultimately show ?thesis by blast
  next
    case (Some m1)
    then have "\<not> leaves_array y m" using run_op_safe(1) [OF Cons.prems, of y] by auto
    have "run_ops (y # ys) m = None \<longleftrightarrow> run_ops ys m1 = None" using Some by simp
    also have "\<dots> \<longleftrightarrow> (\<exists>as x bs m'. ys = as @ x # bs \<and> run_ops as m1 = Some m' \<and> leaves_array x m')"
      by (rule Cons.IH [OF run_op_safe(2) [OF Cons.prems Some]])
    also have "\<dots> \<longleftrightarrow> (\<exists>as x bs m'. y # ys = as @ x # bs \<and> run_ops as m = Some m' \<and> leaves_array x m')"
    proof (intro iffI; elim exE conjE)
      fix as x bs m'
      assume "ys = as @ x # bs" "run_ops as m1 = Some m'" "leaves_array x m'"
      then have "y # ys = (y # as) @ x # bs \<and> run_ops (y # as) m = Some m' \<and> leaves_array x m'" using Some by simp
      then show "\<exists>as x bs m'. y # ys = as @ x # bs \<and> run_ops as m = Some m' \<and> leaves_array x m'" by blast
    next
      fix as x bs m'
      assume *: "y # ys = as @ x # bs" "run_ops as m = Some m'" "leaves_array x m'"
      then obtain as' where "as = y # as'" using \<open>\<not> leaves_array y m\<close> by (cases as) auto
      with * Some show "\<exists>as x bs m'. ys = as @ x # bs \<and> run_ops as m1 = Some m' \<and> leaves_array x m'" by auto
    qed
    finally show ?thesis .
  qed
qed

text \<open>
  C1: whatever the cursor and the length of a message are, a sequence of its operations leaves the array
  only at a step back by \<open>getPreviousByte\<close>, a padding of almost \<open>2 ^ 64\<close> bytes, an \<open>append\<close> or a header,
  and there exactly when \<open>leaves_array\<close> says so: all other reads, writes and cursor moves stay inside
  (the checks of \<open>canRead\<close> and \<open>canAdd\<close> suffice even where the 16-bit cursor has wrapped). The array
  keeps its size.
\<close>

theorem message_ops_in_bounds:
  assumes "buf_ok m"
  shows "(run_ops ops m = None \<longleftrightarrow>
      (\<exists>as x bs m'. ops = as @ x # bs \<and> run_ops as m = Some m' \<and> leaves_array x m')) \<and>
    (\<forall>m'. run_ops ops m = Some m' \<longrightarrow> buf_ok m')"
  by (intro conjI allI impI) (rule run_ops_None [OF assms], rule run_ops_safe [OF assms])

theorem message_ops_in_bounds_witness:
  "run_ops [SetPosition 65535, SetLength 65535, SkipBytes 3, GetString 0, AddString [1, 2]]
     (new_outmsg (replicate 24590 0)) \<noteq> None"
proof -
  have "buf_ok (new_outmsg (replicate 24590 0))"
    by (simp add: new_outmsg_def buf_ok_def NETWORKMESSAGE_MAXSIZE_def)
  let ?ops = "[SetPosition 65535, SetLength 65535, SkipBytes 3, GetString 0, AddString [1, 2]]"
  show ?thesis
  proof
    assume "run_ops ?ops (new_outmsg (replicate 24590 0)) = None"
    then obtain as x bs m' where *: "?ops = as @ x # bs" "leaves_array x m'"
      using message_ops_in_bounds [OF \<open>buf_ok (new_outmsg (replicate 24590 0))\<close>, of ?ops] by blast
    have "x \<in> set ?ops" unfolding *(1) by simp
    with *(2) show False by auto
  qed
qed

text \<open>
  C2: a packet's values are read back as they were written: for any list of bytes, 16- and
  32-bit integers, strings and positions that fits the body, writing them to a message that was
  reset and reading from the start of its body returns the same values without an overrun, and
  the message's length is that of their wire format.
\<close>

theorem message_roundtrip:
  assumes "buf_ok m" and "list_all valid_field fs"
    and "length (concat (map wire fs)) + 8 < MAX_BODY_LENGTH"
  shows "\<exists>m' m''. write_all put_field fs (reset m) = Some m' \<and>
           unat (msg_length m') = length (concat (map wire fs)) \<and>
           read_all get_field (map kind_of fs) (setBufferPosition INITIAL_BUFFER_POSITION m')
             = Some (fs, m'') \<and>
           \<not> msg_overrun m''"
  using nm.write_read_all [OF assms(1,2)] assms(3) by (simp add: nm.wires_def)

theorem message_roundtrip_witness:
  "\<exists>m' m''. write_all put_field [FU16 7, FString [65, 66], FPosition (Position 100 200 7)]
             (reset \<lparr>msg_length = 0, msg_position = 0, msg_overrun = True,
                     msg_buffer = replicate 24590 0\<rparr>) = Some m' \<and>
     unat (msg_length m')
       = length (concat (map wire [FU16 7, FString [65, 66], FPosition (Position 100 200 7)])) \<and>
     read_all get_field (map kind_of [FU16 7, FString [65, 66], FPosition (Position 100 200 7)])
         (setBufferPosition INITIAL_BUFFER_POSITION m')
       = Some ([FU16 7, FString [65, 66], FPosition (Position 100 200 7)], m'') \<and>
     \<not> msg_overrun m''"
  by (rule message_roundtrip) (simp_all add: buf_ok_def size_defs position_wire_def)

end
