(* ===== verification/Adler.thy ===== *)
theory Adler
  imports NetMessage
begin

text \<open>
  \<open>adlerChecksum\<close> of \<open>tools.cpp\<close>: the packet checksum, computed on 32-bit sums that are only
  reduced every 5552 bytes. The theory shows that the unreduced sums never wrap, so that the
  routine computes the checksum RFC 1950 defines byte by byte.
\<close>

section \<open>The routine\<close>

fun adler_bytes :: "byte list \<Rightarrow> u32 \<times> u32 \<Rightarrow> u32 \<times> u32" where
  "adler_bytes [] (a, b) = (a, b)"
| "adler_bytes (d # ds) (a, b) = (let a' = a + ucast d; b' = b + a' in adler_bytes ds (a', b'))"

function adler_loop :: "byte list \<Rightarrow> u32 \<times> u32 \<Rightarrow> u32 \<times> u32" where
  "adler_loop bs ab =
     (if bs \<noteq> [] then
        let tmp = (if length bs > 5552 then 5552 else length bs);
            (a, b) = adler_bytes (take tmp bs) ab
        in adler_loop (drop tmp bs) (a mod 65521, b mod 65521)
      else ab)"
  by pat_completeness auto
termination
  by (relation "measure (\<lambda>(bs, ab). length bs)") (auto split: if_splits)

declare adler_loop.simps [simp del]

definition adlerChecksum :: "byte list \<Rightarrow> u32" where
  "adlerChecksum bs =
     (if length bs > NETWORKMESSAGE_MAXSIZE then 0
      else let (a, b) = adler_loop bs (1, 0) in push_bit 16 b OR a)"

section \<open>The definition of RFC 1950\<close>

definition adler_step :: "byte \<Rightarrow> nat \<times> nat \<Rightarrow> nat \<times> nat" where
  "adler_step d s = (let a = (fst s + unat d) mod 65521 in (a, (snd s + a) mod 65521))"

definition adler32_rfc :: "byte list \<Rightarrow> nat" where
  "adler32_rfc bs = (let (a, b) = fold adler_step bs (1, 0) in b * 65536 + a)"

section \<open>The sums over the naturals\<close>

fun adler_nat :: "byte list \<Rightarrow> nat \<times> nat \<Rightarrow> nat \<times> nat" where
  "adler_nat [] s = s"
| "adler_nat (d # ds) s = adler_nat ds (fst s + unat d, snd s + (fst s + unat d))"

text \<open>How large the two sums can get over a run of \<open>n\<close> bytes.\<close>

definition adler_bound :: "nat \<Rightarrow> nat \<Rightarrow> nat \<Rightarrow> nat" where
  "adler_bound n a b = b + n * a + 255 * (n * (n + 1) div 2)"

lemma adler_bound_Suc:
  assumes "d \<le> 255"
  shows "adler_bound n (a + d) (b + (a + d)) \<le> adler_bound (Suc n) a b"
proof -
  have "Suc n * (Suc n + 1) div 2 = n * (n + 1) div 2 + (n + 1)"
  proof -
    have "Suc n * (Suc n + 1) = n * (n + 1) + 2 * (n + 1)" by (simp add: algebra_simps)
    then show ?thesis by simp
  qed
  moreover have "n * d + d \<le> 255 * (n + 1)"
    using assms mult_le_mono [of "n + 1" "n + 1" d 255] by (simp add: algebra_simps)
  ultimately show ?thesis by (simp add: adler_bound_def algebra_simps)
qed

lemma adler_bytes_nat:
  assumes "unat a + 255 * length bs < 2 ^ 32" and "adler_bound (length bs) (unat a) (unat b) < 2 ^ 32"
  shows "(let r = adler_bytes bs (a, b) in (unat (fst r), unat (snd r))) = adler_nat bs (unat a, unat b)"
  using assms
proof (induction bs arbitrary: a b)
  case Nil
  then show ?case by simp
next
  case (Cons d ds)
  let ?a = "a + ucast d" and ?b = "b + (a + ucast d)"
  have d: "unat d \<le> 255" by (rule unat_byte_le)
  have ud: "unat (ucast d :: u32) = unat d" by (rule unat_ucast_up) simp
  have a: "unat ?a = unat a + unat d"
    using Cons.prems(1) d by (simp add: unat_word_ariths ud)
  have bound: "adler_bound (length ds) (unat ?a) (unat b + unat ?a) < 2 ^ 32"
    using adler_bound_Suc [OF d, of "length ds" "unat a" "unat b"] Cons.prems(2) a by simp
  then have "unat b + unat ?a < 2 ^ 32" by (simp add: adler_bound_def)
  then have b: "unat ?b = unat b + unat ?a" by (simp add: unat_word_ariths)
  have "unat ?a + 255 * length ds < 2 ^ 32" using Cons.prems(1) d a by simp
  with Cons.IH [of ?a ?b] bound a b show ?case by (simp add: Let_def)
qed

lemma adler_nat_mod:
  "fst (adler_nat bs (a, b)) mod 65521 = fst (fold adler_step bs (a mod 65521, b mod 65521)) mod 65521 \<and>
   snd (adler_nat bs (a, b)) mod 65521 = snd (fold adler_step bs (a mod 65521, b mod 65521)) mod 65521"
proof (induction bs arbitrary: a b)
  case Nil
  then show ?case by simp
next
  case (Cons d ds)
  have "adler_step d (a mod 65521, b mod 65521)
      = ((a + unat d) mod 65521, (b + (a + unat d)) mod 65521)"
    by (simp add: adler_step_def Let_def mod_simps)
  with Cons.IH [of "a + unat d" "b + (a + unat d)"] show ?case by simp
qed

lemma adler_step_lt: "fst (adler_step d s) < 65521" "snd (adler_step d s) < 65521"
  by (simp_all add: adler_step_def Let_def)

lemma fold_adler_step_lt:
  "fst s < 65521 \<Longrightarrow> snd s < 65521 \<Longrightarrow>
     fst (fold adler_step bs s) < 65521 \<and> snd (fold adler_step bs s) < 65521"
  by (induction bs arbitrary: s) (simp_all add: adler_step_lt)

lemma adler_chunk:
  assumes "length bs \<le> 5552" and "unat a < 65521" and "unat b < 65521"
  shows "unat (fst (adler_bytes bs (a, b)) mod 65521) = fst (fold adler_step bs (unat a, unat b))"
    and "unat (snd (adler_bytes bs (a, b)) mod 65521) = snd (fold adler_step bs (unat a, unat b))"
proof -
  let ?n = "length bs"
  have "?n * (?n + 1) div 2 \<le> 5552 * 5553 div 2"
    using assms(1) by (intro div_le_mono mult_le_mono) auto
  moreover have "?n * unat a \<le> 5552 * 65520" using assms by (intro mult_le_mono) auto
  ultimately have "adler_bound ?n (unat a) (unat b) < 2 ^ 32"
    using assms(3) by (simp add: adler_bound_def)
  moreover have "unat a + 255 * ?n < 2 ^ 32" using assms by simp
  ultimately have "unat (fst (adler_bytes bs (a, b))) = fst (adler_nat bs (unat a, unat b))"
    and "unat (snd (adler_bytes bs (a, b))) = snd (adler_nat bs (unat a, unat b))"
    using adler_bytes_nat [of a bs b] by (simp_all add: Let_def prod_eq_iff)
  then show "unat (fst (adler_bytes bs (a, b)) mod 65521) = fst (fold adler_step bs (unat a, unat b))"
    and "unat (snd (adler_bytes bs (a, b)) mod 65521) = snd (fold adler_step bs (unat a, unat b))"
    using adler_nat_mod [of bs "unat a" "unat b"] assms(2,3)
      fold_adler_step_lt [of "(unat a, unat b)" bs]
    by (simp_all add: unat_mod)
qed

lemma adler_loop_rfc:
  "unat (fst ab) < 65521 \<Longrightarrow> unat (snd ab) < 65521 \<Longrightarrow>
     (unat (fst (adler_loop bs ab)), unat (snd (adler_loop bs ab)))
       = fold adler_step bs (unat (fst ab), unat (snd ab))"
proof (induction bs ab rule: adler_loop.induct)
  case (1 bs ab)
  show ?case
  proof (cases "bs = []")
    case True
    then show ?thesis by (simp add: adler_loop.simps)
  next
    case False
    define tmp where "tmp = (if length bs > 5552 then 5552 else length bs)"
    obtain a b where ab: "ab = (a, b)" by (cases ab)
    obtain a' b' where r: "adler_bytes (take tmp bs) (a, b) = (a', b')" by fastforce
    have "length (take tmp bs) \<le> 5552" by (simp add: tmp_def)
    from adler_chunk [OF this, of a b] 1(2,3) ab r
    have a': "unat (a' mod 65521) = fst (fold adler_step (take tmp bs) (unat a, unat b))"
      and b': "unat (b' mod 65521) = snd (fold adler_step (take tmp bs) (unat a, unat b))"
      by simp_all
    have "unat (a' mod 65521) < 65521" and "unat (b' mod 65521) < 65521"
      using fold_adler_step_lt [of "(unat a, unat b)" "take tmp bs"] 1(2,3) ab a' b' by simp_all
    then have "(unat (fst (adler_loop (drop tmp bs) (a' mod 65521, b' mod 65521))),
                unat (snd (adler_loop (drop tmp bs) (a' mod 65521, b' mod 65521))))
        = fold adler_step (drop tmp bs) (unat (a' mod 65521), unat (b' mod 65521))"
      using 1(1) [OF False tmp_def refl] r ab by simp
    also have "\<dots> = fold adler_step (take tmp bs @ drop tmp bs) (unat a, unat b)"
      unfolding fold_append o_def a' b' by simp
    finally show ?thesis
      using False r ab by (subst (1 2) adler_loop.simps) (simp add: Let_def flip: tmp_def)
  qed
qed

lemma adlerChecksum_rfc:
  assumes "length bs \<le> NETWORKMESSAGE_MAXSIZE"
  shows "unat (adlerChecksum bs) = adler32_rfc bs"
proof -
  obtain a b where ab: "adler_loop bs (1, 0) = (a, b)" by fastforce
  have f: "fold adler_step bs (1, 0) = (unat a, unat b)"
    using adler_loop_rfc [of "(1, 0)" bs] ab by simp
  then have lt: "unat a < 65521" "unat b < 65521" using fold_adler_step_lt [of "(1, 0)" bs] by auto
  have "push_bit 16 b OR a = push_bit 16 b + a"
  proof (rule or_eq_plus)
    show "push_bit 16 b AND a = 0"
    proof (rule bit_word_eqI)
      fix n
      have "bit a n \<Longrightarrow> n < 16" using bit_lt_of_unat_lt [of a 16 n] lt by simp
      then show "bit (push_bit 16 b AND a) n = bit (0 :: u32) n"
        by (auto simp: bit_simps not_le)
    qed
  qed
  moreover have "unat (push_bit 16 b) = unat b * 65536"
    using lt by (simp add: push_bit_eq_mult unat_word_ariths)
  ultimately have "unat (push_bit 16 b OR a) = unat b * 65536 + unat a"
    using lt by (simp add: unat_word_ariths)
  with assms ab f show ?thesis by (simp add: adlerChecksum_def adler32_rfc_def)
qed

section \<open>Properties\<close>

text \<open>
  C3: the packet checksum is the Adler-32 of RFC 1950 for every packet the server handles: the
  sums that the routine leaves unreduced for up to 5552 bytes never wrap at 32 bits.
\<close>

theorem adler_is_rfc1950:
  assumes "length bs \<le> NETWORKMESSAGE_MAXSIZE"
  shows "unat (adlerChecksum bs) = adler32_rfc bs"
  using adlerChecksum_rfc [OF assms] .

theorem adler_is_rfc1950_witness:
  "unat (adlerChecksum (replicate 6000 255)) = adler32_rfc (replicate 6000 255)"
  by (rule adler_is_rfc1950) (simp add: NETWORKMESSAGE_MAXSIZE_def)

end
