(* ===== verification/Protocol.thy ===== *)
theory Protocol
  imports Adler
begin

text \<open>
  \<open>protocol.cpp\<close> and the packet handling of \<open>connection.cpp\<close>: XTEA encryption of the packet
  body in place, the framing of an outgoing message (inner length, padding, checksum, outer
  length) and the checks of an incoming one.
\<close>

section \<open>XTEA\<close>

definition xtea_delta :: u32 where "xtea_delta = 0x61C88647"

definition xtea_mix :: "u32 \<Rightarrow> u32" where
  "xtea_mix v = (push_bit 4 v XOR drop_bit 5 v) + v"

definition xtea_encrypt_round :: "u32 list \<Rightarrow> u32 \<times> u32 \<times> u32 \<Rightarrow> u32 \<times> u32 \<times> u32" where
  "xtea_encrypt_round k = (\<lambda>(v0, v1, sum).
     let v0' = v0 + (xtea_mix v1 XOR (sum + k ! unat (sum AND 3)));
         sum' = sum - xtea_delta;
         v1' = v1 + (xtea_mix v0' XOR (sum' + k ! unat (drop_bit 11 sum' AND 3)))
     in (v0', v1', sum'))"

definition xtea_decrypt_round :: "u32 list \<Rightarrow> u32 \<times> u32 \<times> u32 \<Rightarrow> u32 \<times> u32 \<times> u32" where
  "xtea_decrypt_round k = (\<lambda>(v0, v1, sum).
     let v1' = v1 - (xtea_mix v0 XOR (sum + k ! unat (drop_bit 11 sum AND 3)));
         sum' = sum + xtea_delta;
         v0' = v0 - (xtea_mix v1' XOR (sum' + k ! unat (sum' AND 3)))
     in (v0', v1', sum'))"

definition xtea_encrypt_block :: "u32 list \<Rightarrow> byte list \<Rightarrow> byte list" where
  "xtea_encrypt_block k bs =
     (let (v0, v1, sum) = (xtea_encrypt_round k ^^ 32) (le_word (take 4 bs), le_word (drop 4 bs), 0)
      in le_bytes 4 v0 @ le_bytes 4 v1)"

definition xtea_decrypt_block :: "u32 list \<Rightarrow> byte list \<Rightarrow> byte list" where
  "xtea_decrypt_block k bs =
     (let (v0, v1, sum) =
        (xtea_decrypt_round k ^^ 32) (le_word (take 4 bs), le_word (drop 4 bs), 0xC6EF3720)
      in le_bytes 4 v0 @ le_bytes 4 v1)"

text \<open>The loop over a region of the buffer: \<open>while (readPos < messageLength)\<close>.\<close>

function crypt_loop ::
  "(byte list \<Rightarrow> byte list) \<Rightarrow> nat \<Rightarrow> nat \<Rightarrow> nat \<Rightarrow> byte list \<Rightarrow> byte list option" where
  "crypt_loop f base readPos messageLength buf =
     (if readPos < messageLength then do {
        block \<leftarrow> mem_read buf (base + readPos) 8;
        buf' \<leftarrow> mem_write buf (base + readPos) (f block);
        crypt_loop f base (readPos + 8) messageLength buf'
      }
      else Some buf)"
  by pat_completeness auto
termination
  by (relation "measure (\<lambda>(f, base, readPos, messageLength, buf). messageLength - readPos)") auto

declare crypt_loop.simps [simp del]

section \<open>The protocol object and its messages\<close>

record protocol =
  proto_key :: "u32 list" \<comment> \<open>\<open>uint32_t key[4]\<close>\<close>
  encryptionEnabled :: bool
  checksumEnabled :: bool
  rawMessages :: bool
  outputBuffer :: "outmsg option"

definition new_protocol :: protocol where
  "new_protocol = \<lparr>proto_key = [0, 0, 0, 0], encryptionEnabled = False, checksumEnabled = True,
     rawMessages = False, outputBuffer = None\<rparr>"

definition enableXTEAEncryption :: "protocol \<Rightarrow> protocol" where
  "enableXTEAEncryption p = p\<lparr>encryptionEnabled := True\<rparr>"

definition setXTEAKey :: "u32 list \<Rightarrow> protocol \<Rightarrow> protocol" where
  "setXTEAKey k p = p\<lparr>proto_key := take 4 k\<rparr>"

definition disableChecksum :: "protocol \<Rightarrow> protocol" where
  "disableChecksum p = p\<lparr>checksumEnabled := False\<rparr>"

definition setRawMessages :: "bool \<Rightarrow> protocol \<Rightarrow> protocol" where
  "setRawMessages v p = p\<lparr>rawMessages := v\<rparr>"

definition addCryptoHeader :: "bool \<Rightarrow> outmsg \<Rightarrow> outmsg option" where
  "addCryptoHeader addChecksum m = do {
     m1 \<leftarrow> (if addChecksum then do {
             bs \<leftarrow> mem_read (msg_buffer m) (unat (om_start m)) (unat (msg_length m));
             add_header (adlerChecksum bs) m
           } else Some m);
     writeMessageLength m1
   }"

definition XTEA_encrypt :: "protocol \<Rightarrow> outmsg \<Rightarrow> outmsg option" where
  "XTEA_encrypt p m =
     (let paddingBytes = unat (msg_length m) mod 8
      in do {
        m1 \<leftarrow> (if paddingBytes \<noteq> 0 then addPaddingBytes (of_nat (8 - paddingBytes)) m else Some m);
        buf \<leftarrow> crypt_loop (xtea_encrypt_block (proto_key p)) (unat (om_start m1)) 0
                 (unat (msg_length m1)) (msg_buffer m1);
        Some (m1\<lparr>msg_buffer := buf\<rparr>)
      })"

definition XTEA_decrypt :: "protocol \<Rightarrow> netmsg \<Rightarrow> (bool \<times> netmsg) option" where
  "XTEA_decrypt p m =
     (if (uint (msg_length m) - 6) AND 7 \<noteq> 0 then Some (False, m)
      else do {
        buf \<leftarrow> crypt_loop (xtea_decrypt_block (proto_key p)) (unat (msg_position m)) 0
                 (nat (uint (msg_length m) - 6)) (msg_buffer m);
        (innerLength, m2) \<leftarrow> get (m\<lparr>msg_buffer := buf\<rparr>);
        (if uint (innerLength :: u16) > uint (msg_length m2) - 8 then Some (False, m2)
         else Some (True, setLength innerLength m2))
      })"

definition onSendMessage :: "protocol \<Rightarrow> outmsg \<Rightarrow> outmsg option" where
  "onSendMessage p m =
     (if \<not> rawMessages p then do {
        m1 \<leftarrow> writeMessageLength m;
        (if encryptionEnabled p then do {
           m2 \<leftarrow> XTEA_encrypt p m1;
           addCryptoHeader (checksumEnabled p) m2
         } else Some m1)
      } else Some m)"

text \<open>
  What is handed to \<open>parsePacket\<close>: \<open>None\<close> inside the result is the early return.
\<close>

definition onRecvMessage :: "protocol \<Rightarrow> netmsg \<Rightarrow> netmsg option option" where
  "onRecvMessage p m =
     (if encryptionEnabled p then do {
        (ok, m') \<leftarrow> XTEA_decrypt p m;
        Some (if ok then Some m' else None)
      } else Some (Some m))"

definition getOutputBuffer :: "byte list \<Rightarrow> int \<Rightarrow> protocol \<Rightarrow> outmsg \<times> protocol" where
  \<comment> \<open>\<open>buf\<close> is the array of the message the pool hands out\<close>
  "getOutputBuffer buf n p =
     (case outputBuffer p of
        Some m \<Rightarrow>
          if int MAX_PROTOCOL_BODY_LENGTH \<ge> uint (msg_length m) + n then (m, p)
          else (new_outmsg buf, p\<lparr>outputBuffer := Some (new_outmsg buf)\<rparr>)
      | None \<Rightarrow> (new_outmsg buf, p\<lparr>outputBuffer := Some (new_outmsg buf)\<rparr>))"

text \<open>
  \<open>ProtocolGame::writeToOutputBuffer\<close>: the messages sent at once and the protocol afterwards.
\<close>

definition writeToOutputBuffer ::
  "byte list \<Rightarrow> bool \<Rightarrow> bool \<Rightarrow> netmsg \<Rightarrow> protocol \<Rightarrow> (outmsg list \<times> protocol) option" where
  "writeToOutputBuffer buf broadcast isLiveCaster msg p =
     (if \<not> broadcast \<and> isLiveCaster then do {
        out \<leftarrow> append_msg msg (new_outmsg buf);
        Some ([out], p)
      }
      else
        let (out, p1) = getOutputBuffer buf (uint (msg_length msg)) p;
            out1 = (if isLiveCaster then out\<lparr>om_broadcast := True\<rparr> else out)
        in do {
          out2 \<leftarrow> append_msg msg out1;
          Some ([], p1\<lparr>outputBuffer := Some out2\<rparr>)
        })"

text \<open>RSA is outside the modelled code: the decryption of the 128 bytes is a parameter.\<close>

definition RSA_decrypt ::
  "(byte list \<Rightarrow> byte list) \<Rightarrow> netmsg \<Rightarrow> (bool \<times> netmsg) option" where
  "RSA_decrypt rsa m =
     (if uint (msg_length m) - uint (msg_position m) < 128 then Some (False, m)
      else do {
        bs \<leftarrow> mem_read (msg_buffer m) (unat (msg_position m)) 128;
        buf \<leftarrow> mem_write (msg_buffer m) (unat (msg_position m)) (rsa bs);
        (b, m') \<leftarrow> getByte (m\<lparr>msg_buffer := buf\<rparr>);
        Some (b = 0, m')
      })"

section \<open>Reception of a packet\<close>

text \<open>The guard of \<open>Connection::parseHeader\<close> on the announced size.\<close>

definition size_refused :: "int \<Rightarrow> bool" where
  "size_refused n \<longleftrightarrow> n \<le> 0 \<or> n \<ge> int NETWORKMESSAGE_MAXSIZE - 16"

text \<open>
  The checksum test of \<open>Connection::parsePacket\<close>: whether the packet had its checksum, and the
  message with its cursor past it, or back where it was when the four bytes were something else.
\<close>

definition checkPacketChecksum :: "netmsg \<Rightarrow> (bool \<times> netmsg) option" where
  "checkPacketChecksum m =
     (let len = uint (msg_length m) - uint (msg_position m) - int CHECKSUM_LENGTH
      in do {
        checksum \<leftarrow> (if len > 0 then do {
                       bs \<leftarrow> mem_read (msg_buffer m) (unat (msg_position m) + CHECKSUM_LENGTH) (nat len);
                       Some (adlerChecksum bs)
                     } else Some 0);
        (recvChecksum, m1) \<leftarrow> get m;
        (if recvChecksum \<noteq> checksum then Some (False, skipBytes (- 4) m1)
         else Some (True, m1))
      })"

text \<open>
  One packet after the first: the header bytes are read to the start of the buffer, the body
  after them, then the checksum is tested and the protocol gets the message. The bytes come from
  the socket; the outer result is \<open>None\<close> only for an access out of bounds, the inner one when
  the packet is dropped.
\<close>

definition receive_packet :: "protocol \<Rightarrow> byte list \<Rightarrow> byte list \<Rightarrow> netmsg \<Rightarrow> netmsg option option" where
  "receive_packet p header body m = do {
     buf \<leftarrow> mem_write (msg_buffer m) 0 header;
     (n, m1) \<leftarrow> decodeHeader (m\<lparr>msg_buffer := buf\<rparr>);
     (if size_refused n then Some None
      else do {
        let m2 = setLength (of_int (n + int HEADER_LENGTH)) m1;
        let (off, m3) = getBodyBuffer m2;
        buf3 \<leftarrow> mem_write (msg_buffer m3) off body;
        (ok, m4) \<leftarrow> checkPacketChecksum (m3\<lparr>msg_buffer := buf3\<rparr>);
        onRecvMessage p m4
      })
   }"

section \<open>The cipher\<close>

lemma xtea_round_inverse: "xtea_decrypt_round k (xtea_encrypt_round k s) = s"
  by (cases s) (simp add: xtea_encrypt_round_def xtea_decrypt_round_def Let_def)

lemma xtea_rounds_inverse: "(xtea_decrypt_round k ^^ n) ((xtea_encrypt_round k ^^ n) s) = s"
proof (induction n arbitrary: s)
  case 0
  then show ?case by simp
next
  case (Suc n)
  have "(xtea_decrypt_round k ^^ Suc n) ((xtea_encrypt_round k ^^ Suc n) s)
      = (xtea_decrypt_round k ^^ n)
          (xtea_decrypt_round k (xtea_encrypt_round k ((xtea_encrypt_round k ^^ n) s)))"
    by (simp add: funpow_swap1)
  with Suc show ?case by (simp add: xtea_round_inverse)
qed

lemma xtea_rounds_sum:
  "snd (snd ((xtea_encrypt_round k ^^ n) s)) = snd (snd s) - of_nat n * xtea_delta"
proof (induction n)
  case 0
  then show ?case by simp
next
  case (Suc n)
  have step: "snd (snd (xtea_encrypt_round k t)) = snd (snd t) - xtea_delta" for t
    by (cases t) (simp add: xtea_encrypt_round_def Let_def)
  show ?case by (simp only: funpow.simps o_apply step Suc.IH) (simp add: algebra_simps)
qed

lemma length_xtea_encrypt_block: "length (xtea_encrypt_block k bs) = 8"
  by (simp add: xtea_encrypt_block_def split: prod.split)

lemma length_xtea_decrypt_block: "length (xtea_decrypt_block k bs) = 8"
  by (simp add: xtea_decrypt_block_def split: prod.split)

lemma xtea_block_inverse:
  assumes "length bs = 8"
  shows "xtea_decrypt_block k (xtea_encrypt_block k bs) = bs"
proof -
  let ?s = "(le_word (take 4 bs), le_word (drop 4 bs), 0) :: u32 \<times> u32 \<times> u32"
  obtain v0 v1 sum where e: "(xtea_encrypt_round k ^^ 32) ?s = (v0, v1, sum)"
    by (cases "(xtea_encrypt_round k ^^ 32) ?s")
  have "sum = 0xC6EF3720"
    using xtea_rounds_sum [where n = 32 and k = k and s = ?s] by (simp add: e xtea_delta_def)
  with e have "(xtea_decrypt_round k ^^ 32) (v0, v1, 0xC6EF3720) = ?s"
    using xtea_rounds_inverse [where n = 32 and k = k and s = ?s] by simp
  moreover have "le_bytes 4 (le_word (take 4 bs) :: u32) = take 4 bs"
    and "le_bytes 4 (le_word (drop 4 bs) :: u32) = drop 4 bs"
    using assms by (simp_all add: le_bytes_le_word)
  ultimately show ?thesis
    using e by (simp add: xtea_encrypt_block_def xtea_decrypt_block_def le_word_le_bytes)
qed

section \<open>The loop over a region\<close>

fun map_blocks :: "(byte list \<Rightarrow> byte list) \<Rightarrow> nat \<Rightarrow> byte list \<Rightarrow> byte list" where
  "map_blocks f 0 bs = bs"
| "map_blocks f (Suc n) bs = f (take 8 bs) @ map_blocks f n (drop 8 bs)"

text \<open>
  A block cipher on 8-byte blocks: what the in-place loops rely on. Any such cipher, applied
  block by block to a region whose length is a multiple of eight, is undone by its inverse.
\<close>

locale block_cipher =
  fixes enc :: "byte list \<Rightarrow> byte list" and dec :: "byte list \<Rightarrow> byte list"
  assumes length_enc: "length bs = 8 \<Longrightarrow> length (enc bs) = 8"
    and length_dec: "length bs = 8 \<Longrightarrow> length (dec bs) = 8"
    and dec_enc: "length bs = 8 \<Longrightarrow> dec (enc bs) = bs"
begin

lemma crypt_loop_blocks:
  assumes f: "\<And>bs. length bs = 8 \<Longrightarrow> length (f bs) = 8"
  shows "length xs = base + r \<Longrightarrow> length ys = 8 * n \<Longrightarrow>
    crypt_loop f base r (r + 8 * n) (xs @ ys @ zs) = Some (xs @ map_blocks f n ys @ zs)"
proof (induction n arbitrary: xs ys r)
  case 0
  then show ?case by (simp add: crypt_loop.simps)
next
  case (Suc n)
  let ?b = "take 8 ys" and ?rest = "drop 8 ys"
  have b: "length ?b = 8" and rest: "length ?rest = 8 * n" using Suc.prems by simp_all
  have ys: "?b @ ?rest @ zs = ys @ zs" by (simp flip: append_assoc)
  have "mem_read (xs @ ys @ zs) (base + r) 8 = Some ?b"
    using mem_read_at [of xs "base + r" ?b 8 "?rest @ zs"] Suc.prems(1) b ys by simp
  moreover have "mem_write (xs @ ys @ zs) (base + r) (f ?b) = Some ((xs @ f ?b) @ ?rest @ zs)"
    using mem_write_at [of xs "base + r" ?b "f ?b" "?rest @ zs"] Suc.prems(1) b f ys by simp
  ultimately have "crypt_loop f base r (r + 8 * Suc n) (xs @ ys @ zs)
      = crypt_loop f base (r + 8) (r + 8 + 8 * n) ((xs @ f ?b) @ ?rest @ zs)"
    by (subst crypt_loop.simps) (simp add: add.assoc)
  with Suc.IH [of "xs @ f ?b" "r + 8" ?rest] Suc.prems b rest f show ?case by simp
qed

lemma length_map_blocks_enc: "length bs = 8 * n \<Longrightarrow> length (map_blocks enc n bs) = 8 * n"
  by (induction n arbitrary: bs) (simp_all add: length_enc)

lemma map_blocks_inverse:
  "length bs = 8 * n \<Longrightarrow> map_blocks dec n (map_blocks enc n bs) = bs"
proof (induction n arbitrary: bs)
  case 0
  then show ?case by simp
next
  case (Suc n)
  have "length (take 8 bs) = 8" and "length (drop 8 bs) = 8 * n" using Suc.prems by simp_all
  with Suc.IH [of "drop 8 bs"] show ?case by (simp add: length_enc dec_enc)
qed

lemma decrypt_region:
  assumes "length xs = base" and "length ys = 8 * n"
  shows "crypt_loop dec base 0 (8 * n) (xs @ map_blocks enc n ys @ zs) = Some (xs @ ys @ zs)"
  using crypt_loop_blocks [of dec xs base 0 "map_blocks enc n ys" n zs] assms
  by (simp add: length_dec length_map_blocks_enc map_blocks_inverse)

lemma encrypt_region:
  assumes "length xs = base" and "length ys = 8 * n"
  shows "crypt_loop enc base 0 (8 * n) (xs @ ys @ zs) = Some (xs @ map_blocks enc n ys @ zs)"
  using crypt_loop_blocks [of enc xs base 0 ys n zs] assms by (simp add: length_enc)

end

interpretation xtea: block_cipher "xtea_encrypt_block k" "xtea_decrypt_block k" for k
  by unfold_locales
     (simp_all add: length_xtea_encrypt_block length_xtea_decrypt_block xtea_block_inverse)

section \<open>The frame of an outgoing message\<close>

text \<open>
  A message as its handlers leave it: \<open>L\<close> bytes of payload after the eight reserved ones, the
  cursor behind them and no header written.
\<close>

definition payload :: "'m netmsg_scheme \<Rightarrow> byte list" where
  "payload m = take (unat (msg_length m)) (drop 8 (msg_buffer m))"

definition body_written :: "outmsg \<Rightarrow> bool" where
  "body_written m \<longleftrightarrow> buf_ok m \<and> om_start m = 8 \<and>
     unat (msg_length m) \<le> MAX_PROTOCOL_BODY_LENGTH \<and>
     msg_position m = msg_length m + 8"

text \<open>The bytes before encryption: inner length, payload, padding up to a multiple of eight.\<close>

definition pad_length :: "nat \<Rightarrow> nat" where
  "pad_length L = (8 - (L + 2) mod 8) mod 8"

definition plain_body :: "outmsg \<Rightarrow> byte list" where
  "plain_body m = le_bytes 2 (msg_length m) @ payload m @
     replicate (pad_length (unat (msg_length m))) 0x33"

definition cipher_body :: "protocol \<Rightarrow> outmsg \<Rightarrow> byte list" where
  "cipher_body p m =
     map_blocks (xtea_encrypt_block (proto_key p)) (length (plain_body m) div 8) (plain_body m)"

lemma pad_length_total:
  "L + 2 + pad_length L = 8 * (if (L + 2) mod 8 = 0 then (L + 2) div 8 else (L + 2) div 8 + 1)"
proof -
  define q r where "q = (L + 2) div 8" and "r = (L + 2) mod 8"
  have Lqr: "L + 2 = 8 * q + r" and r: "r < 8" by (simp_all add: q_def r_def)
  have "pad_length L = (8 - r) mod 8" by (simp only: pad_length_def r_def)
  with r have "pad_length L = (if r = 0 then 0 else 8 - r)" by simp
  then show ?thesis using Lqr r unfolding q_def [symmetric] r_def [symmetric] by auto
qed

lemma pad_length_less: "pad_length L < 8"
  by (simp add: pad_length_def)

lemma pad_length_dvd: "8 dvd L + 2 + pad_length L"
  unfolding pad_length_total by (rule dvd_triv_left)

lemma pad_length_bound:
  assumes "L \<le> MAX_PROTOCOL_BODY_LENGTH"
  shows "L + 2 + pad_length L \<le> 24568"
proof -
  define q r where "q = (L + 2) div 8" and "r = (L + 2) mod 8"
  have "8 * q + r \<le> 24568" using assms by (simp add: q_def r_def size_defs)
  then show ?thesis unfolding pad_length_total q_def [symmetric] r_def [symmetric] by auto
qed

lemma length_payload: "body_written m \<Longrightarrow> length (payload m) = unat (msg_length m)"
  by (simp add: payload_def body_written_def buf_ok_def size_defs)

lemma length_plain_body:
  "body_written m \<Longrightarrow>
     length (plain_body m) = unat (msg_length m) + 2 + pad_length (unat (msg_length m))"
  by (simp add: plain_body_def length_payload)

lemma length_cipher_body:
  assumes "body_written m"
  shows "length (cipher_body p m) = length (plain_body m)"
proof -
  have "length (plain_body m) = 8 * (length (plain_body m) div 8)"
    using pad_length_dvd length_plain_body [OF assms] by (metis dvd_mult_div_cancel)
  from xtea.length_map_blocks_enc [OF this] this show ?thesis by (simp add: cipher_body_def)
qed

lemma buffer_split:
  assumes "body_written m"
  obtains h2 h4 h6 ts zs where
    "msg_buffer m = h2 @ h4 @ h6 @ payload m @ ts @ zs"
    "length h2 = 2" "length h4 = 4" "length h6 = 2"
    "length ts = pad_length (unat (msg_length m))"
proof -
  let ?B = "msg_buffer m" and ?L = "unat (msg_length m)"
  let ?n = "pad_length ?L"
  have len: "length ?B = 24590" and L: "?L \<le> 24566"
    using assms by (simp_all add: body_written_def buf_ok_def size_defs)
  have n: "?n < 8" by (simp add: pad_length_def)
  have "?B = take 2 ?B @ drop 2 ?B" by simp
  also have "drop 2 ?B = take 4 (drop 2 ?B) @ drop 6 ?B"
    using append_take_drop_id [of 4 "drop 2 ?B"] by simp
  also have "drop 6 ?B = take 2 (drop 6 ?B) @ drop 8 ?B"
    using append_take_drop_id [of 2 "drop 6 ?B"] by simp
  also have "drop 8 ?B = payload m @ drop (8 + ?L) ?B"
    using append_take_drop_id [of ?L "drop 8 ?B"] by (simp add: payload_def add.commute)
  also have "drop (8 + ?L) ?B = take ?n (drop (8 + ?L) ?B) @ drop (8 + ?L + ?n) ?B"
    using append_take_drop_id [of ?n "drop (8 + ?L) ?B"] by (simp add: add.commute add.left_commute)
  finally have "?B = take 2 ?B @ take 4 (drop 2 ?B) @ take 2 (drop 6 ?B) @ payload m @
      take ?n (drop (8 + ?L) ?B) @ drop (8 + ?L + ?n) ?B" .
  then show thesis
    by (rule that) (use len L n in simp_all)
qed

lemma add_header_at:
  fixes v :: "'a::len word"
  assumes "msg_buffer m = xs @ old @ ys" and "length xs + sizeof TYPE('a) = unat (om_start m)"
    and "length old = sizeof TYPE('a)"
  shows "add_header v m = Some (m\<lparr>om_start := om_start m - of_nat (sizeof TYPE('a)),
     msg_buffer := xs @ le_bytes (sizeof TYPE('a)) v @ ys,
     msg_length := msg_length m + of_nat (sizeof TYPE('a))\<rparr>)"
proof -
  have le: "of_nat (sizeof TYPE('a)) \<le> om_start m"
    using assms(2) by (simp add: word_le_nat_alt unat_of_nat)
  have "unat (of_nat (sizeof TYPE('a)) :: u16) = sizeof TYPE('a)"
    using assms(2) unat_u16_le [of "om_start m"] by (simp add: unat_of_nat)
  with le have "unat (om_start m - of_nat (sizeof TYPE('a))) = length xs"
    using assms(2) by (simp add: unat_sub)
  with assms show ?thesis
    by (simp add: add_header_def Let_def mem_write_at)
qed

lemmas add_header_u16 = add_header_at [where 'a = 16, simplified]
lemmas add_header_u32 = add_header_at [where 'a = 32, simplified]

lemma addPaddingBytes_at:
  assumes "msg_buffer m = xs @ old @ ys" and "length xs = unat (msg_position m)"
    and "length old = n" and "canAdd n m" and "n \<le> 8"
  shows "addPaddingBytes (of_nat n) m =
    Some (m\<lparr>msg_buffer := xs @ replicate n 0x33 @ ys, msg_length := msg_length m + of_nat n\<rparr>)"
proof -
  have "unat (of_nat n :: u64) = n" "(ucast (of_nat n :: u64) :: u16) = of_nat n"
    using assms(5) by (simp_all add: unat_of_nat unsigned_of_nat take_bit_nat_eq_self)
  with assms show ?thesis by (simp add: addPaddingBytes_def mem_write_at)
qed

text \<open>The first half of the frame: inner length and padding, still in clear.\<close>

definition frame_length :: "outmsg \<Rightarrow> nat" where
  "frame_length m = length (plain_body m)"

lemma frame_length_facts:
  assumes "body_written m"
  shows "frame_length m = unat (msg_length m) + 2 + pad_length (unat (msg_length m))"
    and "frame_length m \<le> 24568" and "8 dvd frame_length m"
  using length_plain_body [OF assms] pad_length_bound [of "unat (msg_length m)"] pad_length_dvd assms
  by (simp_all add: frame_length_def body_written_def)

lemma unat_frame_length:
  "body_written m \<Longrightarrow> unat (of_nat (frame_length m) :: u16) = frame_length m"
  using frame_length_facts(2) [of m] by (simp add: unat_of_nat)

lemma XTEA_encrypt_frame:
  assumes m: "body_written m" and m1: "writeMessageLength m = Some m1"
  obtains h2 h4 zs m2 where "XTEA_encrypt p m1 = Some m2"
    "msg_buffer m2 = h2 @ h4 @ cipher_body p m @ zs" "length h2 = 2" "length h4 = 4"
    "om_start m2 = 6" "msg_length m2 = of_nat (frame_length m)" "buf_ok m2"
proof -
  let ?L = "unat (msg_length m)" and ?n = "pad_length (unat (msg_length m))"
  obtain h2 h4 h6 ts zs where B: "msg_buffer m = h2 @ h4 @ h6 @ payload m @ ts @ zs"
    and lens: "length h2 = 2" "length h4 = 4" "length h6 = 2" "length ts = ?n"
    using buffer_split [OF m] .
  have start: "om_start m = 8" and L: "?L \<le> 24566" and ok: "buf_ok m"
    and pos: "msg_position m = msg_length m + 8"
    using m by (simp_all add: body_written_def size_defs)
  have posn: "unat (msg_position m) = ?L + 8"
    using L pos by (simp add: unat_word_ariths)
  let ?h = "h2 @ h4 @ le_bytes 2 (msg_length m) @ payload m"
  have m1': "m1 = m\<lparr>om_start := 6, msg_buffer := ?h @ ts @ zs, msg_length := msg_length m + 2\<rparr>"
    using m1 add_header_u16 [of m "h2 @ h4" h6 "payload m @ ts @ zs" "msg_length m"] B lens start
    by (simp add: writeMessageLength_def)
  have L1: "unat (msg_length m1) = ?L + 2" using L by (simp add: m1' unat_word_ariths)
  have room: "?n + (?L + 8) < MAX_BODY_LENGTH"
    using pad_length_bound [of ?L] L by (simp add: size_defs)
  have mod: "?L mod 8 = 6 \<longleftrightarrow> (?L + 2) mod 8 = 0" by presburger
  define m1p where "m1p = m1\<lparr>msg_buffer := ?h @ replicate ?n 0x33 @ zs,
      msg_length := of_nat (frame_length m)\<rparr>"
  have fl: "msg_length m1 + of_nat ?n = of_nat (frame_length m)"
    using frame_length_facts(1) [OF m] by (simp add: m1')
  have pad: "(if unat (msg_length m1) mod 8 \<noteq> 0
              then addPaddingBytes (of_nat (8 - unat (msg_length m1) mod 8)) m1 else Some m1) = Some m1p"
  proof (cases "(?L + 2) mod 8 = 0")
    case True
    then have "?n = 0" by (simp only: pad_length_def) simp
    then have "m1 = m1p" using lens fl by (simp add: m1p_def m1')
    moreover have "unat (msg_length m1) mod 8 = 0" using L1 True by simp
    ultimately show ?thesis by simp
  next
    case False
    then have "8 - (?L + 2) mod 8 = ?n" by (simp only: pad_length_def) simp
    moreover have "addPaddingBytes (of_nat ?n) m1 = Some m1p"
      using addPaddingBytes_at [of m1 ?h ts zs ?n] lens room posn fl pad_length_less [of ?L]
      by (simp add: m1p_def) (simp add: m1' canAdd_iff length_payload [OF m])
    ultimately show ?thesis using False by (simp only: L1) simp
  qed
  have m1p: "msg_buffer m1p = (h2 @ h4) @ plain_body m @ zs" "om_start m1p = 6"
      "msg_length m1p = of_nat (frame_length m)"
    by (simp_all add: m1p_def plain_body_def) (simp add: m1')
  have fl8: "8 * (length (plain_body m) div 8) = frame_length m"
    using frame_length_facts(3) [OF m] by (simp add: frame_length_def)
  have "crypt_loop (xtea_encrypt_block (proto_key p)) 6 0 (frame_length m) ((h2 @ h4) @ plain_body m @ zs)
      = Some ((h2 @ h4) @ cipher_body p m @ zs)"
    using xtea.encrypt_region [of "h2 @ h4" 6 "plain_body m" "length (plain_body m) div 8"] lens fl8
    by (simp add: cipher_body_def frame_length_def)
  then have "XTEA_encrypt p m1 = Some (m1p\<lparr>msg_buffer := (h2 @ h4) @ cipher_body p m @ zs\<rparr>)"
    unfolding XTEA_encrypt_def Let_def pad by (simp add: m1p unat_frame_length [OF m])
  moreover have "length ((h2 @ h4) @ cipher_body p m @ zs) = NETWORKMESSAGE_MAXSIZE"
    using ok lens B frame_length_facts(1) [OF m] length_payload [OF m] length_cipher_body [OF m]
    by (simp add: buf_ok_def frame_length_def)
  ultimately show thesis
    using that [of "m1p\<lparr>msg_buffer := (h2 @ h4) @ cipher_body p m @ zs\<rparr>" h2 h4 zs] lens m1p
    by (simp add: buf_ok_def)
qed

lemma writeMessageLength_defined:
  assumes "body_written m"
  obtains m1 where "writeMessageLength m = Some m1"
proof -
  obtain h2 h4 h6 ts zs where "msg_buffer m = h2 @ h4 @ h6 @ payload m @ ts @ zs"
    and "length h2 = 2" "length h4 = 4" "length h6 = 2"
    using buffer_split [OF assms] .
  moreover have "om_start m = 8" using assms by (simp add: body_written_def)
  ultimately have "writeMessageLength m \<noteq> None"
    using add_header_u16 [of m "h2 @ h4" h6 "payload m @ ts @ zs" "msg_length m"]
    by (simp add: writeMessageLength_def)
  then show thesis using that by blast
qed

text \<open>The bytes handed to the socket.\<close>

definition output_bytes :: "outmsg \<Rightarrow> byte list" where
  "output_bytes m = take (unat (msg_length m)) (drop (unat (om_start m)) (msg_buffer m))"

lemma addCryptoHeader_frame:
  assumes "msg_buffer m = h2 @ h4 @ C @ zs" and "length h2 = 2" "length h4 = 4"
    and "om_start m = 6" and "msg_length m = of_nat (length C)" and "length C \<le> 24568"
  shows "\<exists>m'. addCryptoHeader True m = Some m' \<and>
    output_bytes m' = le_bytes 2 (of_nat (length C + 4) :: u16) @ le_bytes 4 (adlerChecksum C) @ C"
proof -
  let ?a = "adlerChecksum C"
  have len: "unat (of_nat (length C) :: u16) = length C" using assms(6) by (simp add: unat_of_nat)
  have rd: "mem_read (msg_buffer m) 6 (length C) = Some C"
    using mem_read_at [of "h2 @ h4" 6 C "length C" zs] assms by simp
  define m1 where "m1 = m\<lparr>om_start := 2, msg_buffer := h2 @ le_bytes 4 ?a @ C @ zs,
      msg_length := of_nat (length C) + 4\<rparr>"
  have 1: "add_header ?a m = Some m1"
    using add_header_u32 [of m h2 h4 "C @ zs" ?a] assms by (simp add: m1_def)
  define m2 where "m2 = m1\<lparr>om_start := 0,
      msg_buffer := le_bytes 2 (of_nat (length C) + 4 :: u16) @ le_bytes 4 ?a @ C @ zs,
      msg_length := of_nat (length C) + 6\<rparr>"
  have 2: "writeMessageLength m1 = Some m2"
    using add_header_u16 [of m1 "[]" h2 "le_bytes 4 ?a @ C @ zs" "msg_length m1"] assms
    by (simp add: m2_def m1_def writeMessageLength_def)
  have "addCryptoHeader True m = Some m2"
    using rd 1 2 assms(4,5) len by (simp add: addCryptoHeader_def)
  moreover have "unat (msg_length m2) = length C + 6"
    using len assms(6) by (simp add: m2_def unat_word_ariths)
  moreover have "msg_buffer m2 = (le_bytes 2 (of_nat (length C) + 4 :: u16) @ le_bytes 4 ?a @ C) @ zs"
    and "om_start m2 = 0" by (simp_all add: m2_def)
  ultimately show ?thesis by (simp add: output_bytes_def add.commute)
qed

lemma onSendMessage_frame:
  assumes m: "body_written m"
    and p: "encryptionEnabled p" "checksumEnabled p" "\<not> rawMessages p"
  shows "\<exists>m'. onSendMessage p m = Some m' \<and>
    output_bytes m' = le_bytes 2 (of_nat (frame_length m + 4) :: u16) @
      le_bytes 4 (adlerChecksum (cipher_body p m)) @ cipher_body p m"
proof -
  obtain m1 where 1: "writeMessageLength m = Some m1" using writeMessageLength_defined [OF m] .
  obtain h2 h4 zs m2 where 2: "XTEA_encrypt p m1 = Some m2"
    and f: "msg_buffer m2 = h2 @ h4 @ cipher_body p m @ zs" "length h2 = 2" "length h4 = 4"
      "om_start m2 = 6" "msg_length m2 = of_nat (frame_length m)"
    using XTEA_encrypt_frame [OF m 1] by metis
  have C: "length (cipher_body p m) = frame_length m"
    using length_cipher_body [OF m] by (simp add: frame_length_def)
  with addCryptoHeader_frame [OF f(1-4)] f(5) frame_length_facts(2) [OF m] 1 2 p
  show ?thesis by (simp add: onSendMessage_def)
qed

section \<open>Reception of the frame\<close>

lemma le_word_two:
  assumes "length bs = 2"
  shows "of_int (uint (bs ! 0) OR push_bit 8 (uint (bs ! 1))) = (le_word bs :: u16)"
proof -
  obtain b0 b1 where bs: "bs = [b0, b1]" using assms by (auto simp: length_Suc_conv numeral_2_eq_2)
  show ?thesis
    by (rule bit_word_eqI) (auto simp: bs bit_simps)
qed

lemma decodeHeader_at:
  assumes "msg_buffer m = le_bytes 2 w @ rest"
  shows "decodeHeader m = Some (uint w, m\<lparr>msg_length := w\<rparr>)"
proof -
  have "mem_read (msg_buffer m) 0 2 = Some (le_bytes 2 w)"
    using mem_read_at [of "[]" 0 "le_bytes 2 w" 2 rest] assms by simp
  moreover have "of_int (uint (le_bytes 2 w ! 0) OR push_bit 8 (uint (le_bytes 2 w ! 1))) = w"
    using le_word_two [of "le_bytes 2 w"] by (simp add: le_word_le_bytes)
  ultimately show ?thesis by (simp add: decodeHeader_def Let_def)
qed

lemma checkPacketChecksum_ok:
  assumes "msg_buffer m = h @ le_bytes 4 (adlerChecksum C) @ C @ rest" and "length h = 2"
    and "msg_position m = 2" and "unat (msg_length m) = length C + 6" and "C \<noteq> []" and "buf_ok m"
    and "length C \<le> 24568"
  shows "checkPacketChecksum m = Some (True, m\<lparr>msg_position := 6\<rparr>)"
proof -
  let ?a = "adlerChecksum C"
  have len: "uint (msg_length m) = int (length C) + 6"
    using assms(4) by (metis of_nat_add of_nat_numeral of_nat_unat)
  have rd: "mem_read (msg_buffer m) 6 (length C) = Some C"
    using mem_read_at [of "h @ le_bytes 4 ?a" 6 C "length C" rest] assms(1,2) by simp
  have "pending m (le_bytes 4 ?a @ [])"
    using assms by (simp add: pending_def readable_def bytes_at_def size_defs)
  from get_u32_pending [OF this] have "get m = Some (?a, m\<lparr>msg_position := 6\<rparr>)"
    using assms(3) by simp
  then show ?thesis
    using len rd assms(3,5) by (simp add: checkPacketChecksum_def CHECKSUM_LENGTH_def Let_def)
qed

lemma and_7_mod: "(i :: int) AND 7 = i mod 8"
proof -
  have "i AND 7 = take_bit 3 i" by (simp add: take_bit_eq_mask mask_eq_exp_minus_1)
  then show ?thesis by (simp add: take_bit_eq_mod)
qed

lemma dvd_and_7: "8 dvd n \<Longrightarrow> int n AND 7 = 0"
  unfolding and_7_mod by presburger

lemma XTEA_decrypt_frame:
  assumes m: "body_written m"
    and r: "msg_buffer r = h @ cipher_body p m @ rest" "length h = 6" "msg_position r = 6"
      "unat (msg_length r) = frame_length m + 6" "buf_ok r"
  shows "XTEA_decrypt p r = Some (True, r\<lparr>msg_buffer := h @ plain_body m @ rest,
    msg_position := 8, msg_length := msg_length m\<rparr>)"
proof -
  have len: "uint (msg_length r) = int (frame_length m) + 6"
    using r(4) by (metis of_nat_add of_nat_numeral of_nat_unat)
  have fl8: "8 * (length (plain_body m) div 8) = frame_length m"
    using frame_length_facts(3) [OF m] by (simp add: frame_length_def)
  have dec: "crypt_loop (xtea_decrypt_block (proto_key p)) 6 0 (frame_length m) (msg_buffer r)
      = Some (h @ plain_body m @ rest)"
    using xtea.decrypt_region [of h 6 "plain_body m" "length (plain_body m) div 8" "proto_key p" rest] r fl8
    by (simp add: cipher_body_def frame_length_def)
  let ?r = "r\<lparr>msg_buffer := h @ plain_body m @ rest\<rparr>"
  have "length (h @ plain_body m @ rest) = NETWORKMESSAGE_MAXSIZE"
    using r length_cipher_body [OF m] by (simp add: buf_ok_def)
  then have "pending ?r (le_bytes 2 (msg_length m) @ [])"
    using r frame_length_facts(2) [OF m]
    by (simp add: pending_def readable_def bytes_at_def buf_ok_def plain_body_def size_defs)
  from get_u16_pending [OF this] have g: "get ?r = Some (msg_length m, ?r\<lparr>msg_position := 8\<rparr>)"
    using r(3) by simp
  have "int (unat (msg_length m)) \<le> int (frame_length m) - 2"
    using frame_length_facts(1) [OF m] by linarith
  then have "\<not> uint (msg_length m) > uint (msg_length r) - 8" using len by simp
  with dec g r(3) len dvd_and_7 [OF frame_length_facts(3) [OF m]] show ?thesis
    by (simp add: XTEA_decrypt_def setLength_def)
qed

lemma receive_packet_frame:
  assumes m: "body_written m" and r: "buf_ok r"
    and p: "encryptionEnabled p"
  shows "\<exists>r'. receive_packet p (le_bytes 2 (of_nat (frame_length m + 4) :: u16))
             (le_bytes 4 (adlerChecksum (cipher_body p m)) @ cipher_body p m) r = Some (Some r') \<and>
           payload r' = payload m \<and> msg_length r' = msg_length m \<and> msg_position r' = 8"
proof -
  let ?C = "cipher_body p m" and ?n = "frame_length m"
  let ?w = "of_nat (?n + 4) :: u16" and ?body = "le_bytes 4 (adlerChecksum ?C) @ ?C"
  have n: "?n \<le> 24568" "2 \<le> ?n" using frame_length_facts(1,2) [OF m] by simp_all
  have C: "length ?C = ?n" using length_cipher_body [OF m] by (simp add: frame_length_def)
  have len: "length (msg_buffer r) = 24590" using r by (simp add: buf_ok_def size_defs)
  define rest where "rest = drop (?n + 6) (msg_buffer r)"
  have B1: "mem_write (msg_buffer r) 0 (le_bytes 2 ?w) = Some (le_bytes 2 ?w @ drop 2 (msg_buffer r))"
    using len by (simp add: mem_write_Some numeral_2_eq_2)
  have "drop 2 (msg_buffer r) = take (?n + 4) (drop 2 (msg_buffer r)) @ rest"
    using append_take_drop_id [of "?n + 4" "drop 2 (msg_buffer r)"] by (simp add: rest_def add.commute)
  then have B2: "mem_write (le_bytes 2 ?w @ drop 2 (msg_buffer r)) 2 ?body = Some (le_bytes 2 ?w @ ?body @ rest)"
    using mem_write_at [of "le_bytes 2 ?w" 2 "take (?n + 4) (drop 2 (msg_buffer r))" ?body rest] len C n
    by simp
  have "unat ?w = ?n + 4" using n by (intro unat_of_nat_u16) simp
  then have w: "uint ?w = int ?n + 4" by (metis of_nat_add of_nat_numeral of_nat_unat)
  let ?r1 = "r\<lparr>msg_length := of_nat (?n + 6), msg_position := 2,
      msg_buffer := le_bytes 2 ?w @ ?body @ rest\<rparr>"
  have ok: "buf_ok ?r1" using len n C by (simp add: buf_ok_def rest_def size_defs)
  have len1: "unat (msg_length ?r1) = ?n + 6"
    using n unat_of_nat_u16 [of "?n + 6"] by simp
  have "?C \<noteq> []" using C n by auto
  then have "checkPacketChecksum ?r1 = Some (True, ?r1\<lparr>msg_position := 6\<rparr>)"
    using checkPacketChecksum_ok [of ?r1 "le_bytes 2 ?w" ?C rest] C n ok len1 by auto
  moreover have "XTEA_decrypt p (?r1\<lparr>msg_position := 6\<rparr>) = Some (True,
      ?r1\<lparr>msg_buffer := (le_bytes 2 ?w @ le_bytes 4 (adlerChecksum ?C)) @ plain_body m @ rest,
          msg_position := 8, msg_length := msg_length m\<rparr>)"
    using XTEA_decrypt_frame [OF m, of "?r1\<lparr>msg_position := 6\<rparr>"
        "le_bytes 2 ?w @ le_bytes 4 (adlerChecksum ?C)" p rest] ok len1 by simp
  moreover have "of_int (int ?n + 6) = (of_nat (?n + 6) :: u16)" by simp
  ultimately have "receive_packet p (le_bytes 2 ?w) ?body r = Some (Some (
      ?r1\<lparr>msg_buffer := (le_bytes 2 ?w @ le_bytes 4 (adlerChecksum ?C)) @ plain_body m @ rest,
          msg_position := 8, msg_length := msg_length m\<rparr>))"
    using B1 B2 p w n(1) decodeHeader_at [of "r\<lparr>msg_buffer := le_bytes 2 ?w @ drop 2 (msg_buffer r)\<rparr>" ?w]
    by (simp add: receive_packet_def size_refused_def size_defs setLength_def getBodyBuffer_def
        onRecvMessage_def add.commute)
  then show ?thesis
    using length_payload [OF m] by (simp add: payload_def plain_body_def)
qed

section \<open>Memory safety of the loop and of reception\<close>

lemma crypt_loop_safe:
  assumes f: "\<And>bs. length bs = 8 \<Longrightarrow> length (f bs) = 8"
  shows "base + r + 8 * q \<le> length buf \<Longrightarrow> L \<le> r + 8 * q \<Longrightarrow>
    \<exists>buf'. crypt_loop f base r L buf = Some buf' \<and> length buf' = length buf"
proof (induction q arbitrary: r buf)
  case 0
  then show ?case by (simp add: crypt_loop.simps)
next
  case (Suc q)
  show ?case
  proof (cases "r < L")
    case False
    then show ?thesis by (simp add: crypt_loop.simps)
  next
    case True
    let ?b = "take 8 (drop (base + r) buf)"
    have rd: "mem_read buf (base + r) 8 = Some ?b" and "length ?b = 8"
      using Suc.prems by (simp_all add: mem_read_Some)
    then have fb: "length (f ?b) = 8" using f by blast
    then obtain buf' where wr: "mem_write buf (base + r) (f ?b) = Some buf'"
      using Suc.prems by (simp add: mem_write_def)
    have len: "length buf' = length buf" using length_mem_write [OF wr] .
    have "\<exists>buf''. crypt_loop f base (r + 8) L buf' = Some buf'' \<and> length buf'' = length buf'"
      using Suc.IH [of "r + 8" buf'] Suc.prems len by simp
    with True rd wr len show ?thesis by (subst crypt_loop.simps) simp
  qed
qed

lemma dvd_nat_mod: "i mod 8 = 0 \<Longrightarrow> 8 dvd nat i"
  by (auto simp: nat_mult_distrib elim!: dvdE dest!: mod_0_imp_dvd)

lemma XTEA_decrypt_safe:
  assumes "buf_ok m"
    and "uint (msg_position m) + uint (msg_length m) - 6 \<le> int NETWORKMESSAGE_MAXSIZE"
  shows "\<exists>ok m'. XTEA_decrypt p m = Some (ok, m') \<and> buf_ok m'"
proof (cases "(uint (msg_length m) - 6) AND 7 = 0")
  case False
  with assms(1) show ?thesis by (auto simp: XTEA_decrypt_def)
next
  case True
  let ?n = "nat (uint (msg_length m) - 6)"
  let ?loop = "crypt_loop (xtea_decrypt_block (proto_key p)) (unat (msg_position m)) 0 ?n (msg_buffer m)"
  have "\<exists>buf'. ?loop = Some buf' \<and> length buf' = length (msg_buffer m)"
  proof (cases "?n = 0")
    case True
    then show ?thesis by (simp only: crypt_loop.simps [of _ _ _ 0]) simp
  next
    case False
    from True obtain q where q: "?n = 8 * q"
      unfolding and_7_mod using dvd_nat_mod by (metis dvdE)
    have "unat (msg_position m) + 0 + 8 * q \<le> length (msg_buffer m)"
    proof -
      have "int (8 * q) = uint (msg_length m) - 6" using q False by linarith
      with assms have "int (unat (msg_position m)) + int (8 * q) \<le> int (length (msg_buffer m))"
        by (simp add: buf_ok_def)
      then show ?thesis by linarith
    qed
    then show ?thesis
      using crypt_loop_safe [of "xtea_decrypt_block (proto_key p)"] q
      by (simp add: length_xtea_decrypt_block)
  qed
  then obtain buf' where loop: "?loop = Some buf'" and "length buf' = length (msg_buffer m)" by blast
  then have ok: "buf_ok (m\<lparr>msg_buffer := buf'\<rparr>)" using assms(1) by (simp add: buf_ok_def)
  from get_safe [OF ok] obtain v :: u16 and m2
    where "get (m\<lparr>msg_buffer := buf'\<rparr>) = Some (v, m2)" and "buf_ok m2" by blast
  with True loop show ?thesis by (auto simp: XTEA_decrypt_def setLength_def)
qed

lemma checkPacketChecksum_safe:
  assumes ok: "buf_ok m" and pos: "msg_position m = 2"
    and len: "unat (msg_length m) \<le> NETWORKMESSAGE_MAXSIZE"
  shows "\<exists>b m'. checkPacketChecksum m = Some (b, m') \<and> buf_ok m' \<and>
           msg_length m' = msg_length m \<and> msg_position m' \<in> {2, 6}"
proof -
  have "readable 4 m" using pos by (simp add: readable_def size_defs)
  with ok pos obtain v :: u32 where v: "get m = Some (v, m\<lparr>msg_position := 6\<rparr>)"
    by (simp add: get_eq)
  show ?thesis
  proof (cases "uint (msg_length m) > 6")
    case True
    then have "int (6 + nat (uint (msg_length m) - 6)) = int (unat (msg_length m))" by simp
    then have "6 + nat (uint (msg_length m) - 6) = unat (msg_length m)" by linarith
    with len ok obtain bs where "mem_read (msg_buffer m) 6 (nat (uint (msg_length m) - 6)) = Some bs"
      by (simp add: mem_read_def buf_ok_def)
    with True v ok pos show ?thesis
      by (auto simp: checkPacketChecksum_def CHECKSUM_LENGTH_def skipBytes_def)
  next
    case False
    with v ok pos show ?thesis
      by (auto simp: checkPacketChecksum_def CHECKSUM_LENGTH_def skipBytes_def)
  qed
qed

lemma receive_packet_safe:
  assumes "buf_ok r" and "length header = 2" and "length body = unat (le_word header :: u16)"
  shows "\<exists>x. receive_packet p header body r = Some x \<and> (\<forall>r'. x = Some r' \<longrightarrow> buf_ok r')"
proof -
  let ?w = "le_word header :: u16"
  have "le_bytes 2 ?w = header" using assms(2) by (simp add: le_bytes_le_word)
  have B: "mem_write (msg_buffer r) 0 header = Some (le_bytes 2 ?w @ drop 2 (msg_buffer r))"
    using assms(1,2) \<open>le_bytes 2 ?w = header\<close> by (simp add: mem_write_Some buf_ok_def size_defs numeral_2_eq_2)
  let ?r0 = "r\<lparr>msg_buffer := le_bytes 2 ?w @ drop 2 (msg_buffer r)\<rparr>"
  have D: "decodeHeader ?r0 = Some (uint ?w, ?r0\<lparr>msg_length := ?w\<rparr>)"
    by (rule decodeHeader_at) simp
  show ?thesis
  proof (cases "size_refused (uint ?w)")
    case True
    with B D show ?thesis by (simp add: receive_packet_def)
  next
    case False
    then have "uint ?w < 24574" by (simp add: size_refused_def size_defs)
    then have n: "unat ?w < 24574" by (metis of_nat_less_iff of_nat_numeral of_nat_unat)
    obtain buf3 where W: "mem_write (le_bytes 2 ?w @ drop 2 (msg_buffer r)) 2 body = Some buf3"
      and len3: "length buf3 = NETWORKMESSAGE_MAXSIZE"
      using n assms by (simp add: mem_write_def buf_ok_def size_defs)
    let ?len = "of_int (uint ?w + 2) :: u16"
    have "?len = of_nat (unat ?w + 2)" by simp
    then have len: "unat ?len = unat ?w + 2" using n unat_of_nat_u16 [of "unat ?w + 2"] by (simp add: add.commute)
    let ?r3 = "r\<lparr>msg_length := ?len, msg_position := 2, msg_buffer := buf3\<rparr>"
    obtain b m4 where C: "checkPacketChecksum ?r3 = Some (b, m4)" and ok4: "buf_ok m4"
      and m4: "msg_length m4 = ?len" "msg_position m4 \<in> {2, 6}"
      using checkPacketChecksum_safe [of ?r3] len3 len n by (auto simp: size_defs)
    have "uint (msg_position m4) + uint (msg_length m4) - 6 \<le> int NETWORKMESSAGE_MAXSIZE"
    proof -
      have "uint (msg_position m4) \<le> 6" using m4(2) by auto
      moreover have "uint (msg_length m4) = int (unat ?w) + 2"
        using m4(1) len by (metis of_nat_add of_nat_numeral of_nat_unat)
      ultimately show ?thesis using \<open>uint ?w < 24574\<close> by (simp add: size_defs)
    qed
    from XTEA_decrypt_safe [OF ok4 this, of p] obtain b' m5
      where "XTEA_decrypt p m4 = Some (b', m5)" "buf_ok m5" by blast
    with ok4 have "\<exists>x. onRecvMessage p m4 = Some x \<and> (\<forall>r'. x = Some r' \<longrightarrow> buf_ok r')"
      by (auto simp: onRecvMessage_def)
    with B D W C False show ?thesis
      by (simp add: receive_packet_def setLength_def getBodyBuffer_def HEADER_LENGTH_def)
  qed
qed

section \<open>Every message can be sent\<close>

text \<open>
  A message as \<open>send\<close> gets it: no header written, and a body that the writers can have produced. Its
  cursor may stand anywhere; the challenge of \<open>onConnect\<close> is sent with the cursor moved back.
\<close>

definition sendable :: "outmsg \<Rightarrow> bool" where
  "sendable m \<longleftrightarrow> buf_ok m \<and> om_start m = 8 \<and> unat (msg_length m) + 8 < MAX_BODY_LENGTH"

lemma body_written_sendable: "body_written m \<Longrightarrow> sendable m"
  by (simp add: body_written_def sendable_def size_defs)

lemma add_header_fields:
  fixes v :: "'a::len word"
  assumes "add_header v m = Some m'" and "unat (msg_length m) + sizeof TYPE('a) < 2 ^ 16"
  shows "om_start m' = om_start m - of_nat (sizeof TYPE('a))"
    and "unat (msg_length m') = unat (msg_length m) + sizeof TYPE('a)"
  using assms
  by (auto simp: add_header_def Let_def unat_word_ariths unat_of_nat split: bind_splits if_splits)

lemma addPaddingBytes_fields:
  assumes "addPaddingBytes (of_nat n) m = Some m'" and "n \<le> 8" and "unat (msg_length m) + n < 2 ^ 16"
  shows "om_start m' = om_start m" and "unat (msg_length m') \<le> unat (msg_length m) + n"
proof -
  have n: "(ucast (of_nat n :: u64) :: u16) = of_nat n"
    using assms(2) by (simp add: unsigned_of_nat take_bit_nat_eq_self)
  show "om_start m' = om_start m" "unat (msg_length m') \<le> unat (msg_length m) + n"
    using assms n by (auto simp: addPaddingBytes_def unat_word_ariths unat_of_nat split: bind_splits if_splits)
qed

lemma addCryptoHeader_safe:
  assumes "buf_ok m" and "om_start m = 6" and "unat (msg_length m) + 6 \<le> NETWORKMESSAGE_MAXSIZE"
  shows "addCryptoHeader c m \<noteq> None"
proof -
  have start: "unat (om_start m) = 6" using assms(2) by simp
  have "writeMessageLength m1 \<noteq> None" if "buf_ok m1" "unat (om_start m1) \<in> {2, 6}" for m1
    using add_header_safe(1) [OF that(1), of "msg_length m1"] that(2)
    by (auto simp: writeMessageLength_def size_defs)
  note wr = this
  show ?thesis
  proof (cases c)
    case False
    then show ?thesis using wr [OF assms(1)] start by (simp add: addCryptoHeader_def)
  next
    case True
    obtain bs where bs: "mem_read (msg_buffer m) 6 (unat (msg_length m)) = Some bs"
      using assms(1,3) by (simp add: mem_read_def buf_ok_def)
    obtain m1 where m1: "add_header (adlerChecksum bs) m = Some m1"
      using add_header_safe(1) [OF assms(1), of "adlerChecksum bs"] start by (auto simp: size_defs)
    have "buf_ok m1" by (rule add_header_safe(2) [OF assms(1) m1])
    moreover have "unat (om_start m1) = 2"
      using m1 assms(2) by (auto simp: add_header_def Let_def split: bind_splits if_splits)
    ultimately show ?thesis using wr [of m1] True bs m1 start by (simp add: addCryptoHeader_def)
  qed
qed

lemma XTEA_encrypt_safe:
  assumes m: "buf_ok m" "om_start m = 6" and L: "unat (msg_length m) + 16 \<le> NETWORKMESSAGE_MAXSIZE"
  shows "\<exists>m'. XTEA_encrypt p m = Some m' \<and> buf_ok m' \<and> om_start m' = 6 \<and>
    unat (msg_length m') + 8 \<le> NETWORKMESSAGE_MAXSIZE"
proof -
  let ?n = "8 - unat (msg_length m) mod 8"
  have n: "?n \<le> 8" by simp
  have "unat (of_nat k :: u64) = k" if "k \<le> 8" for k using that by (simp add: unat_of_nat)
  from this [OF n] have "unat (of_nat ?n :: u64) + unat (msg_position m) < 2 ^ 64"
    using add_mono [OF n unat_u16_le [of "msg_position m"]] by simp
  then have "\<not> leaves_array (AddPadding (of_nat ?n)) m" by (simp only: leaves_array.simps) linarith
  then obtain mp where mp: "addPaddingBytes (of_nat ?n) m = Some mp"
    using addPaddingBytes_safe(1) [OF m(1)] by (auto simp del: leaves_array.simps)
  have "unat (msg_length m) + ?n \<le> unat (msg_length m) + 8" by simp
  also have "\<dots> < 2 ^ 16" using L by (simp add: size_defs)
  finally have fits: "unat (msg_length m) + ?n < 2 ^ 16" .
  note f = addPaddingBytes_fields(1) [OF mp n fits, unfolded m(2)] addPaddingBytes_safe(2) [OF m(1) mp]
    order.trans [OF addPaddingBytes_fields(2) [OF mp n fits] add_left_mono [OF n]]
  define m1 where "m1 = (if unat (msg_length m) mod 8 \<noteq> 0 then mp else m)"
  have m1: "buf_ok m1" "om_start m1 = 6" "unat (msg_length m1) + 8 \<le> NETWORKMESSAGE_MAXSIZE"
    using f m L by (auto simp: m1_def size_defs)
  define q where "q = (unat (msg_length m1) + 7) div 8"
  have q: "unat (msg_length m1) \<le> 8 * q" "8 * q \<le> unat (msg_length m1) + 7"
    unfolding q_def by presburger+
  obtain buf where buf: "crypt_loop (xtea_encrypt_block (proto_key p)) 6 0 (unat (msg_length m1)) (msg_buffer m1) = Some buf"
      "length buf = length (msg_buffer m1)"
    using crypt_loop_safe [of "xtea_encrypt_block (proto_key p)" 6 0 q "msg_buffer m1" "unat (msg_length m1)"] q m1
    by (auto simp: xtea.length_enc buf_ok_def size_defs)
  have "XTEA_encrypt p m = Some (m1\<lparr>msg_buffer := buf\<rparr>)"
    using mp buf(1) m1(2) by (auto simp: XTEA_encrypt_def Let_def m1_def)
  then show ?thesis using m1 buf(2) by (simp add: buf_ok_def)
qed

lemma onSendMessage_defined:
  assumes "sendable m"
  shows "\<exists>m'. onSendMessage p m = Some m'"
proof -
  have m: "buf_ok m" "om_start m = 8" and L: "unat (msg_length m) < 24568"
    using assms by (simp_all add: sendable_def size_defs)
  obtain m1 where m1: "writeMessageLength m = Some m1"
    using add_header_safe(1) [OF m(1), of "msg_length m"] m(2) by (auto simp: writeMessageLength_def size_defs)
  have ok1: "buf_ok m1" using m1 add_header_safe(2) [OF m(1)] by (simp add: writeMessageLength_def)
  have "add_header (msg_length m) m = Some m1" using m1 by (simp add: writeMessageLength_def)
  from add_header_fields [OF this] L m(2) have "om_start m1 = 6" "unat (msg_length m1) = unat (msg_length m) + 2"
    by simp_all
  then obtain m2 where m2: "XTEA_encrypt p m1 = Some m2" "buf_ok m2" "om_start m2 = 6"
      "unat (msg_length m2) + 8 \<le> NETWORKMESSAGE_MAXSIZE"
    using XTEA_encrypt_safe [OF ok1, of p] L by (auto simp: size_defs)
  with addCryptoHeader_safe [of m2] m1 show ?thesis by (auto simp: onSendMessage_def)
qed

text \<open>Whatever is written to a fresh message, it can be sent.\<close>

definition body_room :: "outmsg \<Rightarrow> bool" where
  "body_room m \<longleftrightarrow> buf_ok m \<and> om_start m = 8 \<and> unat (msg_position m) = unat (msg_length m) + 8 \<and>
     unat (msg_position m) < MAX_BODY_LENGTH"

lemma body_room_put:
  assumes "body_room m" and "put_bytes bs m = Some m'" and "unat (msg_position m) + length bs < MAX_BODY_LENGTH"
  shows "body_room m'"
proof -
  have "buf_ok m'" "om_start m' = om_start m"
    using assms by (auto simp: put_bytes_def mem_write_def body_room_def buf_ok_def split: bind_splits if_splits)
  moreover have "unat (msg_position m') = unat (msg_position m) + length bs"
      "unat (msg_length m') = unat (msg_length m) + length bs"
    using assms by (auto simp: put_bytes_def body_room_def unat_word_ariths unat_of_nat size_defs split: bind_splits)
  ultimately show ?thesis using assms by (simp add: body_room_def)
qed

fun is_write :: "msg_op \<Rightarrow> bool" where
  "is_write (AddByte b) = True" | "is_write (AddU16 w) = True" | "is_write (AddU32 w) = True"
| "is_write (AddU64 w) = True" | "is_write (AddBytes bs) = True" | "is_write (AddString s) = True"
| "is_write (AddPosition p) = True" | "is_write _ = False"

lemma body_room_add:
  fixes v :: "'a::len word"
  shows "body_room m \<Longrightarrow> sizeof TYPE('a) \<le> 8 \<Longrightarrow> add v m = Some m' \<Longrightarrow> body_room m'"
  using body_room_put [of m "le_bytes (sizeof TYPE('a)) v" m']
  by (auto simp: add_def Let_def canAdd_iff split: if_splits)

lemma body_room_addByte: "body_room m \<Longrightarrow> addByte b m = Some m' \<Longrightarrow> body_room m'"
  using body_room_put [of m "[b]" m'] by (auto simp: addByte_def canAdd_iff split: if_splits)

lemma body_room_write:
  assumes "body_room m" and "run_op x m = Some m'" and "is_write x"
  shows "body_room m'"
proof (cases x)
  case (AddString s)
  show ?thesis
  proof (cases "canAdd (length s + 2) m \<and> length s \<le> 8192")
    case True
    then have room: "unat (msg_position m) + length (le_bytes 2 (of_nat (length s) :: u16) @ s) < MAX_BODY_LENGTH"
      using canAdd_iff [of "length s + 2" m] by auto
    have "put_bytes (le_bytes 2 (of_nat (length s) :: u16) @ s) m = Some m'"
      using True AddString assms(1,2) by (simp add: addString_put body_room_def del: le_bytes.simps)
    from body_room_put [OF assms(1) this room] show ?thesis .
  next
    case False
    with AddString assms(1,2) show ?thesis by (auto simp: addString_def Let_def)
  qed
next
  case (AddBytes bs)
  with assms(1,2) body_room_put [of m bs m'] show ?thesis
    by (auto simp: addBytes_def canAdd_iff split: if_splits)
next
  case (AddPosition p)
  with assms(2) obtain m1 m2 where "add (pos_x p) m = Some m1" "add (pos_y p) m1 = Some m2" "addByte (pos_z p) m2 = Some m'"
    by (auto simp: addPosition_def bind_eq_Some_conv)
  with assms(1) body_room_add [of m "pos_x p" m1] body_room_add [of m1 "pos_y p" m2] body_room_addByte [of m2 "pos_z p" m']
  show ?thesis by simp
next
  case (AddByte b)
  with assms body_room_addByte show ?thesis by simp
next
  case (AddU16 w)
  with assms body_room_add [of m w] show ?thesis by simp
next
  case (AddU32 w)
  with assms body_room_add [of m w] show ?thesis by simp
next
  case (AddU64 w)
  with assms body_room_add [of m w] show ?thesis by simp
qed (use assms in simp_all)

lemma written_sendable:
  assumes "length buf = NETWORKMESSAGE_MAXSIZE" and "list_all is_write xs" and "run_ops xs (new_outmsg buf) = Some m"
  shows "sendable m"
proof -
  have "body_room m0 \<Longrightarrow> run_ops xs m0 = Some m \<Longrightarrow> body_room m" for m0
    using assms(2) by (induction xs arbitrary: m0) (auto simp: bind_eq_Some_conv intro: body_room_write)
  moreover have "body_room (new_outmsg buf)"
    using assms(1) by (simp add: body_room_def new_outmsg_def buf_ok_def INITIAL_BUFFER_POSITION_def size_defs)
  ultimately have "body_room m" using assms(3) by blast
  then show ?thesis by (simp add: body_room_def sendable_def)
qed

section \<open>The challenge\<close>

text \<open>
  \<open>ProtocolGame::onConnect\<close>: the first message of a game connection, with its own checksum written
  after the body. The time and the random number are inputs.
\<close>

definition onConnect :: "byte list \<Rightarrow> u32 \<Rightarrow> byte \<Rightarrow> outmsg option" where
  "onConnect buf challengeTimestamp challengeRandom = do {
     let m0 = skipBytes 4 (new_outmsg buf);
     m1 \<leftarrow> add (0x0006 :: u16) m0;
     m2 \<leftarrow> addByte 0x1F m1;
     m3 \<leftarrow> add challengeTimestamp m2;
     m4 \<leftarrow> addByte challengeRandom m3;
     let m5 = skipBytes (- 12) m4;
     bs \<leftarrow> mem_read (msg_buffer m5) (unat (om_start m5) + 4) 8;
     add (adlerChecksum bs) m5
   }"

definition challenge_body :: "u32 \<Rightarrow> byte \<Rightarrow> byte list" where
  "challenge_body challengeTimestamp challengeRandom =
     [6, 0, 0x1F] @ le_bytes 4 challengeTimestamp @ [challengeRandom]"

lemma length_challenge_body [simp]: "length (challenge_body ts r) = 8"
  by (simp add: challenge_body_def)

lemma challenge_written:
  assumes "length buf = NETWORKMESSAGE_MAXSIZE"
  shows "onConnect buf ts r = Some ((new_outmsg buf)\<lparr>
     msg_buffer := take 8 buf @ le_bytes 4 (adlerChecksum (challenge_body ts r)) @ challenge_body ts r @ drop 20 buf,
     msg_position := 12, msg_length := 12\<rparr>)"
proof -
  let ?m0 = "skipBytes 4 (new_outmsg buf)" and ?C = "challenge_body ts r"
  have pos: "msg_position ?m0 = 12" by (simp add: skipBytes_def new_outmsg_def INITIAL_BUFFER_POSITION_def)
  define m4 where "m4 = ?m0\<lparr>msg_buffer := take 12 buf @ ?C @ drop 20 buf, msg_position := 20, msg_length := 8\<rparr>"
  have put: "put_bytes ?C ?m0 = Some m4"
    using assms by (simp add: put_bytes_def mem_write_def m4_def skipBytes_def new_outmsg_def size_defs
        INITIAL_BUFFER_POSITION_def)
  have step: "\<exists>m1. put_bytes as ?m0 = Some m1 \<and> unat (msg_position m1) = 12 + length as \<and>
      (\<forall>bs. put_bytes bs m1 = put_bytes (as @ bs) ?m0)" if "length as \<le> 8" for as
  proof -
    have "unat (msg_position ?m0) + length as < 2 ^ 16" using that by (simp add: pos)
    moreover have "put_bytes as ?m0 \<noteq> None"
      using that assms by (simp add: put_bytes_def mem_write_def pos) (simp add: skipBytes_def new_outmsg_def size_defs)
    then obtain m1 where "put_bytes as ?m0 = Some m1" by blast
    ultimately show ?thesis using put_bytes_append [of as ?m0 m1] put_bytes_position [of as ?m0 m1] by (simp add: pos)
  qed
  obtain m1 where m1: "put_bytes [6, 0] ?m0 = Some m1" "unat (msg_position m1) = 14"
      "\<And>bs. put_bytes bs m1 = put_bytes ([6, 0] @ bs) ?m0" using step [of "[6, 0]"] by auto
  obtain m2 where m2: "put_bytes [6, 0, 0x1F] ?m0 = Some m2" "unat (msg_position m2) = 15"
      "\<And>bs. put_bytes bs m2 = put_bytes ([6, 0, 0x1F] @ bs) ?m0" using step [of "[6, 0, 0x1F]"] by auto
  obtain m3 where m3: "put_bytes ([6, 0, 0x1F] @ le_bytes 4 ts) ?m0 = Some m3" "unat (msg_position m3) = 19"
      "\<And>bs. put_bytes bs m3 = put_bytes (([6, 0, 0x1F] @ le_bytes 4 ts) @ bs) ?m0"
    using step [of "[6, 0, 0x1F] @ le_bytes 4 ts"] by (auto simp del: le_bytes.simps)
  have six: "le_bytes 2 (6 :: u16) = [6, 0]" by code_simp
  have "add (6 :: u16) ?m0 = Some m1"
    using m1(1) by (simp add: add_def canAdd_iff pos size_defs six del: le_bytes.simps)
  moreover have "addByte 0x1F m1 = Some m2"
    using m1(2,3) m2(1) by (simp add: addByte_def canAdd_iff size_defs)
  moreover have "add ts m2 = Some m3"
    using m2(2,3) m3(1) by (simp add: add_def canAdd_iff size_defs del: le_bytes.simps)
  moreover have "addByte r m3 = Some m4"
    using m3(2,3) put by (simp add: addByte_def canAdd_iff size_defs challenge_body_def del: le_bytes.simps)
  moreover have "mem_read (msg_buffer m4) 12 8 = Some ?C"
    using mem_read_at [of "take 12 buf" 12 ?C 8 "drop 20 buf"] assms by (simp add: m4_def size_defs)
  moreover have "om_start m4 = 8" "msg_position m4 = 20"
    by (simp_all add: m4_def skipBytes_def new_outmsg_def INITIAL_BUFFER_POSITION_def)
  ultimately have "onConnect buf ts r = add (adlerChecksum ?C) (skipBytes (- 12) m4)"
    by (simp add: onConnect_def Let_def skipBytes_def)
  moreover have "take 8 buf @ take 4 (drop 8 buf) = take 12 buf"
    using take_add [of 8 4 buf] by simp
  ultimately show ?thesis
    using assms
    by (simp add: add_def canAdd_iff put_bytes_def mem_write_def m4_def skipBytes_def new_outmsg_def size_defs
        INITIAL_BUFFER_POSITION_def del: le_bytes.simps)
qed

text \<open>The challenge can be sent, and its checksum is the one of its body.\<close>

lemma challenge_sent:
  assumes "length buf = NETWORKMESSAGE_MAXSIZE"
  obtains m m' where "onConnect buf ts r = Some m" "sendable m" "onSendMessage new_protocol m = Some m'"
    "output_bytes m' = [12, 0] @ le_bytes 4 (adlerChecksum (challenge_body ts r)) @ challenge_body ts r"
proof -
  let ?W = "le_bytes 4 (adlerChecksum (challenge_body ts r)) @ challenge_body ts r"
  let ?m = "(new_outmsg buf)\<lparr>msg_buffer := take 8 buf @ ?W @ drop 20 buf, msg_position := 12, msg_length := 12\<rparr>"
  have 1: "onConnect buf ts r = Some ?m" using challenge_written [OF assms] by simp
  have 2: "sendable ?m"
    using assms by (simp add: sendable_def buf_ok_def new_outmsg_def INITIAL_BUFFER_POSITION_def size_defs)
  have split: "take 8 buf = take 6 buf @ take 2 (drop 6 buf)" using take_add [of 6 2 buf] by simp
  have "add_header (12 :: u16) ?m = Some (?m\<lparr>om_start := 6,
      msg_buffer := take 6 buf @ le_bytes 2 (12 :: u16) @ ?W @ drop 20 buf, msg_length := 14\<rparr>)"
    using add_header_u16 [of ?m "take 6 buf" "take 2 (drop 6 buf)" "?W @ drop 20 buf" 12] assms
    by (simp add: split new_outmsg_def INITIAL_BUFFER_POSITION_def size_defs del: le_bytes.simps)
  then have 3: "onSendMessage new_protocol ?m = Some (?m\<lparr>om_start := 6,
      msg_buffer := take 6 buf @ le_bytes 2 (12 :: u16) @ ?W @ drop 20 buf, msg_length := 14\<rparr>)"
    by (simp add: onSendMessage_def new_protocol_def writeMessageLength_def del: le_bytes.simps)
  have "le_bytes 2 (12 :: u16) = [12, 0]" by code_simp
  then show thesis
    using that [OF 1 2 3] assms by (simp add: output_bytes_def size_defs del: le_bytes.simps)
qed

section \<open>The autosend buffer\<close>

definition autosend_ok :: "protocol \<Rightarrow> bool" where
  "autosend_ok p \<longleftrightarrow> (case outputBuffer p of None \<Rightarrow> True | Some m \<Rightarrow> body_written m)"

lemma body_written_new: "length buf = NETWORKMESSAGE_MAXSIZE \<Longrightarrow> body_written (new_outmsg buf)"
  by (simp add: body_written_def new_outmsg_def buf_ok_def INITIAL_BUFFER_POSITION_def)

lemma payload_new [simp]: "payload (new_outmsg buf) = []"
  by (simp add: payload_def new_outmsg_def)

lemma body_written_broadcast [simp]: "body_written (m\<lparr>om_broadcast := b\<rparr>) = body_written m"
  by (simp add: body_written_def)

lemma payload_broadcast [simp]: "payload (m\<lparr>om_broadcast := b\<rparr>) = payload m"
  by (simp add: payload_def)

lemma append_msg_payload:
  assumes m: "body_written m" and src: "buf_ok src"
    and room: "unat (msg_length m) + unat (msg_length src) \<le> MAX_PROTOCOL_BODY_LENGTH"
  shows "\<exists>m'. append_msg src m = Some m' \<and> body_written m' \<and> payload m' = payload m @ payload src"
proof -
  let ?L = "unat (msg_length m)" and ?n = "unat (msg_length src)"
  have B: "length (msg_buffer m) = 24590" and pos: "msg_position m = msg_length m + 8"
    and L: "?L + ?n \<le> 24566"
    using m room by (simp_all add: body_written_def buf_ok_def size_defs)
  have posn: "unat (msg_position m) = ?L + 8"
    using L pos unat_u16_le [of "msg_length src"] by (simp add: unat_word_ariths)
  have sum: "unat (msg_length m + msg_length src) = ?L + ?n" using L by (simp add: unat_word_ariths)
  have rd: "mem_read (msg_buffer src) 8 ?n = Some (payload src)"
    using src L by (simp add: mem_read_def buf_ok_def payload_def size_defs)
  have n: "length (payload src) = ?n" using length_mem_read [OF rd] .
  let ?buf = "take (?L + 8) (msg_buffer m) @ payload src @ drop (?L + 8 + ?n) (msg_buffer m)"
  have wr: "mem_write (msg_buffer m) (unat (msg_position m)) (payload src) = Some ?buf"
    using B L n posn by (simp add: mem_write_def add.commute add.left_commute)
  let ?m = "m\<lparr>msg_buffer := ?buf, msg_length := msg_length m + msg_length src,
      msg_position := msg_position m + msg_length src\<rparr>"
  have "append_msg src m = Some ?m" using rd wr by (simp add: append_msg_def Let_def)
  moreover have "body_written ?m"
    using m B L n sum pos by (simp add: body_written_def size_defs add_ac)
  moreover have "payload ?m = payload m @ payload src"
    using B L n sum by (simp add: payload_def take_drop add.commute)
  ultimately show ?thesis by blast
qed

section \<open>Properties\<close>

text \<open>
  C4: a message that is sent arrives: with encryption and checksum on, the bytes that
  \<open>onSendMessage\<close> leaves for the socket, received with the same key into any buffer, pass the
  checksum and the length checks and hand \<open>parsePacket\<close> a message with the same payload, of any
  length up to \<open>MAX_PROTOCOL_BODY_LENGTH\<close>, with its cursor at the start of it.
\<close>

theorem send_receive_roundtrip:
  assumes "body_written m" and "buf_ok r"
    and "encryptionEnabled p" and "checksumEnabled p" and "\<not> rawMessages p"
  shows "\<exists>m' r'. onSendMessage p m = Some m' \<and>
           receive_packet p (take 2 (output_bytes m')) (drop 2 (output_bytes m')) r = Some (Some r') \<and>
           payload r' = payload m \<and> msg_length r' = msg_length m \<and> msg_position r' = 8"
proof -
  let ?header = "le_bytes 2 (of_nat (frame_length m + 4) :: u16)"
  let ?body = "le_bytes 4 (adlerChecksum (cipher_body p m)) @ cipher_body p m"
  obtain m' where "onSendMessage p m = Some m'" and out: "output_bytes m' = ?header @ ?body"
    using onSendMessage_frame [OF assms(1,3-5)] by blast
  moreover have "take 2 (output_bytes m') = ?header" and "drop 2 (output_bytes m') = ?body"
    unfolding out by (simp_all del: le_bytes.simps)
  ultimately show ?thesis using receive_packet_frame [OF assms(1,2,3)] by metis
qed

theorem send_receive_roundtrip_witness:
  "\<exists>m' r'. onSendMessage (enableXTEAEncryption (setXTEAKey [1, 2, 3, 4] new_protocol))
              (new_outmsg (replicate 24590 7)) = Some m' \<and>
     receive_packet (enableXTEAEncryption (setXTEAKey [1, 2, 3, 4] new_protocol))
       (take 2 (output_bytes m')) (drop 2 (output_bytes m'))
       (reset (netmsg.make 0 0 True (replicate 24590 9))) = Some (Some r') \<and>
     payload r' = payload (new_outmsg (replicate 24590 7)) \<and>
     msg_length r' = msg_length (new_outmsg (replicate 24590 7)) \<and> msg_position r' = 8"
  by (rule send_receive_roundtrip)
     (simp_all add: body_written_new NETWORKMESSAGE_MAXSIZE_def enableXTEAEncryption_def
        setXTEAKey_def new_protocol_def reset_def buf_ok_def netmsg.make_def)

text \<open>
  C5: no bytes from the network make the reception of a packet access the buffer out of bounds:
  whatever the announced size, the checksum, the encrypted body and the inner length are, and
  whether the packet is accepted or dropped.
\<close>

theorem receive_in_bounds:
  assumes "buf_ok r" and "length header = 2" and "length body = unat (le_word header :: u16)"
  shows "\<exists>x. receive_packet p header body r = Some x \<and> (\<forall>r'. x = Some r' \<longrightarrow> buf_ok r')"
  using receive_packet_safe [OF assms] .

theorem receive_in_bounds_witness:
  "\<exists>x. receive_packet (enableXTEAEncryption new_protocol) [12, 0] (replicate 12 255)
          (netmsg.make 0 0 True (replicate 24590 9)) = Some x \<and> (\<forall>r'. x = Some r' \<longrightarrow> buf_ok r')"
  by (rule receive_in_bounds) (simp_all add: buf_ok_def NETWORKMESSAGE_MAXSIZE_def netmsg.make_def)

text \<open>
  XTEA decryption with a key undoes encryption with it on every 8-byte block.
\<close>

lemma xtea_decrypt_encrypt:
  assumes "length bs = 8"
  shows "xtea_decrypt_block k (xtea_encrypt_block k bs) = bs"
  using xtea_block_inverse [OF assms] .

text \<open>
  As long as it fits the autosend buffer, what a handler writes is appended to what is
  buffered, within bounds, and the buffer stays ready to be framed.
\<close>

lemma autosend_appends:
  assumes "outputBuffer p = Some m" and "body_written m" and "buf_ok msg"
    and "unat (msg_length m) + unat (msg_length msg) \<le> MAX_PROTOCOL_BODY_LENGTH"
  shows "\<exists>m'. writeToOutputBuffer buf True live msg p = Some ([], p\<lparr>outputBuffer := Some m'\<rparr>) \<and>
           body_written m' \<and> payload m' = payload m @ payload msg"
proof -
  let ?m = "if live then m\<lparr>om_broadcast := True\<rparr> else m"
  have "uint (msg_length m) + uint (msg_length msg) \<le> int MAX_PROTOCOL_BODY_LENGTH"
    using assms(4) by (simp add: nat_int_comparison)
  with assms(1) have "getOutputBuffer buf (uint (msg_length msg)) p = (m, p)"
    by (simp add: getOutputBuffer_def)
  moreover have "\<exists>m'. append_msg msg ?m = Some m' \<and> body_written m' \<and>
      payload m' = payload ?m @ payload msg"
    using append_msg_payload [of ?m msg] assms(2-4) by simp
  ultimately show ?thesis
    by (auto simp: writeToOutputBuffer_def)
qed

text \<open>
  When the next message does not fit, the buffered one is lost: nothing is sent, and the
  autosend buffer holds the new message alone.
\<close>

lemma autosend_overflow_drops:
  assumes "outputBuffer p = Some m"
    and "unat (msg_length m) + unat (msg_length msg) > MAX_PROTOCOL_BODY_LENGTH"
    and "unat (msg_length msg) \<le> MAX_PROTOCOL_BODY_LENGTH"
    and "buf_ok msg" and "length buf = NETWORKMESSAGE_MAXSIZE"
  shows "\<exists>m'. writeToOutputBuffer buf True live msg p = Some ([], p\<lparr>outputBuffer := Some m'\<rparr>) \<and>
           payload m' = payload msg"
proof -
  let ?new = "new_outmsg buf"
  let ?m = "if live then ?new\<lparr>om_broadcast := True\<rparr> else ?new"
  have "\<not> uint (msg_length m) + uint (msg_length msg) \<le> int MAX_PROTOCOL_BODY_LENGTH"
    using assms(2) by (simp add: nat_int_comparison)
  with assms(1) have "getOutputBuffer buf (uint (msg_length msg)) p = (?new, p\<lparr>outputBuffer := Some ?new\<rparr>)"
    by (simp add: getOutputBuffer_def)
  moreover have "msg_length ?m = 0" and "payload ?m = []"
    by (simp_all add: new_outmsg_def payload_def)
  moreover have "body_written ?m"
    using body_written_new [OF assms(5)] by simp
  ultimately have got: "getOutputBuffer buf (uint (msg_length msg)) p = (?new, p\<lparr>outputBuffer := Some ?new\<rparr>)"
    and m: "msg_length ?m = 0" "payload ?m = []" "body_written ?m" by blast+
  have "unat (msg_length ?m) + unat (msg_length msg) \<le> MAX_PROTOCOL_BODY_LENGTH"
    unfolding m(1) using assms(3) by simp
  from append_msg_payload [OF m(3) assms(4) this]
  have "\<exists>m'. append_msg msg ?m = Some m' \<and> body_written m' \<and> payload m' = payload msg"
    unfolding m(2) by simp
  with got show ?thesis
    by (auto simp: writeToOutputBuffer_def)
qed

end
