(* ===== verification/Connection.thy ===== *)
theory Connection
  imports Protocol "HOL-Library.Sublist"
begin

text \<open>
  \<open>connection.cpp\<close>: one client connection as a state machine. The handlers run by the network
  thread (\<open>parseHeader\<close>, \<open>parsePacket\<close>, \<open>onWriteOperation\<close>, \<open>handleTimeout\<close>) and the calls made by
  the protocols (\<open>send\<close>, \<open>close\<close>) are functions on the state; all of them run under
  \<open>connectionLock\<close>, so a run of the server is a sequence of them. The asynchronous operations that
  boost.asio has accepted and not completed yet are part of the state, and a completion handler runs
  only for such an operation. The asio calls themselves are taken not to throw: they report errors to
  the completion handlers, as documented.
\<close>

section \<open>State\<close>

datatype read_op = ReadHeader | ReadBody nat nat \<comment> \<open>offset in the buffer and size\<close>

datatype conn_effect =
    ReleaseConnection            \<comment> \<open>\<open>ConnectionManager::releaseConnection\<close>\<close>
  | DispatchRelease              \<comment> \<open>the task \<open>Protocol::release\<close> given to the dispatcher\<close>
  | DispatchOnConnect            \<comment> \<open>the task \<open>Protocol::onConnect\<close>\<close>
  | Enqueue outmsg               \<comment> \<open>a message accepted by \<open>send\<close>\<close>
  | Broadcast "byte list"        \<comment> \<open>the payload copied for the spectators\<close>
  | StartWrite outmsg "byte list" \<comment> \<open>the message given to \<open>internalSend\<close> and the bytes written\<close>
  | CloseSocket

record connection =
  conn_msg :: netmsg
  readTimer :: bool          \<comment> \<open>armed\<close>
  writeTimer :: bool
  messageQueue :: "outmsg list"
  conn_protocol :: "protocol option"
  timeConnected :: int
  packetsSent :: u32
  conn_open :: bool          \<comment> \<open>\<open>connectionState == CONNECTION_STATE_OPEN\<close>\<close>
  receivedFirst :: bool
  socketOpen :: bool
  socketReads :: "read_op list"  \<comment> \<open>reads in progress\<close>
  socketWrites :: "outmsg list"  \<comment> \<open>writes in progress\<close>
  conn_log :: "conn_effect list"

definition new_connection :: "netmsg \<Rightarrow> int \<Rightarrow> connection" where
  "new_connection m now =
     \<lparr>conn_msg = m, readTimer = False, writeTimer = False, messageQueue = [], conn_protocol = None,
      timeConnected = now, packetsSent = 0, conn_open = True, receivedFirst = False,
      socketOpen = True, socketReads = [], socketWrites = [], conn_log = []\<rparr>"

definition emit :: "conn_effect \<Rightarrow> connection \<Rightarrow> connection" where
  "emit e c = c\<lparr>conn_log := conn_log c @ [e]\<rparr>"

definition async_read :: "read_op \<Rightarrow> connection \<Rightarrow> connection" where
  "async_read r c = c\<lparr>readTimer := True, socketReads := socketReads c @ [r]\<rparr>"

section \<open>Operations\<close>

definition closeSocket :: "connection \<Rightarrow> connection" where
  "closeSocket c =
     (if socketOpen c
      then emit CloseSocket (c\<lparr>readTimer := False, writeTimer := False, socketOpen := False\<rparr>)
      else c)"

definition close :: "bool \<Rightarrow> connection \<Rightarrow> connection" where
  "close force c =
     (let c1 = emit ReleaseConnection c
      in if \<not> conn_open c1 then c1
         else
           let c2 = c1\<lparr>conn_open := False\<rparr>;
               c3 = (if conn_protocol c2 \<noteq> None then emit DispatchRelease c2 else c2)
           in if messageQueue c3 = [] \<or> force then closeSocket c3 else c3)"

definition accept :: "connection \<Rightarrow> connection" where
  "accept c = async_read ReadHeader c"

definition accept_protocol :: "protocol \<Rightarrow> connection \<Rightarrow> connection" where
  "accept_protocol p c = accept (emit DispatchOnConnect (c\<lparr>conn_protocol := Some p\<rparr>))"

definition dispatchBroadcastMessage :: "outmsg \<Rightarrow> connection \<Rightarrow> connection option" where
  "dispatchBroadcastMessage m c = do {
     bs \<leftarrow> mem_read (msg_buffer m) 8 (unat (msg_length m));
     Some (emit (Broadcast bs) c)
   }"

definition internalSend :: "outmsg \<Rightarrow> connection \<Rightarrow> connection option" where
  "internalSend m c = do {
     c1 \<leftarrow> (if om_broadcast m then dispatchBroadcastMessage m c else Some c);
     p \<leftarrow> conn_protocol c1;
     m' \<leftarrow> onSendMessage p m;
     Some (emit (StartWrite m (output_bytes m'))
             (c1\<lparr>writeTimer := True, socketWrites := socketWrites c1 @ [m]\<rparr>))
   }"

definition send :: "outmsg \<Rightarrow> connection \<Rightarrow> connection option" where
  "send m c =
     (if \<not> conn_open c then Some c
      else
        let noPendingWrite = (messageQueue c = []);
            c1 = emit (Enqueue m) (c\<lparr>messageQueue := messageQueue c @ [m]\<rparr>)
        in if noPendingWrite then internalSend m c1 else Some c1)"

definition onWriteOperation :: "bool \<Rightarrow> connection \<Rightarrow> connection option" where
  \<comment> \<open>\<open>pop_front\<close> of an empty list is undefined\<close>
  "onWriteOperation error c =
     (let c0 = c\<lparr>writeTimer := False\<rparr>
      in case messageQueue c0 of
           [] \<Rightarrow> None
         | _ # q \<Rightarrow>
             (let c1 = c0\<lparr>messageQueue := q\<rparr>
              in if error then Some (close True (c1\<lparr>messageQueue := []\<rparr>))
                 else case q of
                        m # _ \<Rightarrow> internalSend m c1
                      | [] \<Rightarrow> Some (if \<not> conn_open c1 then closeSocket c1 else c1)))"

definition handleTimeout :: "bool \<Rightarrow> connection \<Rightarrow> connection" where
  "handleTimeout aborted c = (if aborted then c else close True c)"

text \<open>\<open>parseHeader\<close> in three parts: the size, the packet rate, and the read of the body.\<close>

definition read_body :: "int \<Rightarrow> connection \<Rightarrow> connection" where
  "read_body sz c =
     (let (off, m) = getBodyBuffer (setLength (of_int (sz + int HEADER_LENGTH)) (conn_msg c))
      in async_read (ReadBody off (nat sz)) (c\<lparr>conn_msg := m\<rparr>))"

definition limit_rate :: "int \<Rightarrow> int \<Rightarrow> u32 \<Rightarrow> bool \<Rightarrow> connection \<Rightarrow> connection" where
  "limit_rate sz now maxPackets client c =
     (let timePassed = max 1 (of_int (now - timeConnected c + 1) :: u32);
          c1 = c\<lparr>packetsSent := packetsSent c + 1\<rparr>
      in if packetsSent c1 div timePassed > maxPackets \<and> client then close False c1
         else read_body sz
                (if timePassed > 2 then c1\<lparr>timeConnected := now, packetsSent := 0\<rparr> else c1))"

definition parseHeader ::
  "bool \<Rightarrow> int \<Rightarrow> u32 \<Rightarrow> bool \<Rightarrow> connection \<Rightarrow> connection option" where
  \<comment> \<open>\<open>now\<close> is the clock, \<open>maxPackets\<close> the configured limit, and \<open>client\<close> says whether the protocol is
      the game protocol of a player that is not a spectator\<close>
  "parseHeader error now maxPackets client c = do {
     (sz, m) \<leftarrow> decodeHeader (conn_msg c);
     let c1 = c\<lparr>readTimer := False, conn_msg := m\<rparr>;
     let c2 = (if error \<or> size_refused sz then close True c1 else c1);
     Some (if \<not> conn_open c2 then c2 else limit_rate sz now maxPackets client c2)
   }"

subsection \<open>The services of a port\<close>

record service =
  is_single_socket :: bool      \<comment> \<open>\<open>server_sends_first\<close>\<close>
  is_checksummed :: bool
  protocol_identifier :: byte
  protocol_name :: bstring

definition port_is_single_socket :: "service list \<Rightarrow> bool" where
  "port_is_single_socket services \<longleftrightarrow> services \<noteq> [] \<and> is_single_socket (hd services)"

definition add_service :: "service \<Rightarrow> service list \<Rightarrow> bool \<times> service list" where
  "add_service s services =
     (if \<exists>t \<in> set services. is_single_socket t then (False, services) else (True, services @ [s]))"

fun find_service :: "byte \<Rightarrow> bool \<Rightarrow> service list \<Rightarrow> service option" where
  "find_service protocolID checksummed [] = None"
| "find_service protocolID checksummed (s # ss) =
     (if protocolID \<noteq> protocol_identifier s then find_service protocolID checksummed ss
      else if (checksummed \<and> is_checksummed s) \<or> \<not> is_checksummed s then Some s
      else find_service protocolID checksummed ss)"

definition make_protocol ::
  "bool \<Rightarrow> netmsg \<Rightarrow> service list \<Rightarrow> (service option \<times> netmsg) option" where
  "make_protocol checksummed m services = do {
     (protocolID, m') \<leftarrow> getByte m;
     Some (find_service protocolID checksummed services, m')
   }"

text \<open>
  \<open>ServiceManager::add\<close> on the map from ports to services; the second component says whether the
  service was added.
\<close>

definition add_port ::
  "u16 \<Rightarrow> service \<Rightarrow> (u16 \<rightharpoonup> service list) \<Rightarrow> (u16 \<rightharpoonup> service list) \<times> bool" where
  "add_port port s acceptors =
     (if port = 0 then (acceptors, False)
      else case acceptors port of
             None \<Rightarrow> (let (ok, ss) = add_service s [] in (acceptors(port \<mapsto> ss), ok))
           | Some services \<Rightarrow>
               if port_is_single_socket services \<or> is_single_socket s then (acceptors, False)
               else (let (ok, ss) = add_service s services in (acceptors(port \<mapsto> ss), ok)))"

subsection \<open>Packets\<close>

text \<open>
  What a protocol's own handler does to the connection: it sends, closes, or changes its own state
  (keys, flags). The handlers of the protocols are a parameter, given by the calls they make for a
  message; the flag tells \<open>onRecvFirstMessage\<close> from \<open>parsePacket\<close>.
\<close>

datatype conn_call = CallSend outmsg | CallClose bool | CallProtocol protocol

type_synonym handler = "bool \<Rightarrow> netmsg \<Rightarrow> protocol \<Rightarrow> conn_call list"

fun run_call :: "conn_call \<Rightarrow> connection \<Rightarrow> connection option" where
  "run_call (CallSend m) c = send m c"
| "run_call (CallClose force) c = Some (close force c)"
| "run_call (CallProtocol p) c = Some (c\<lparr>conn_protocol := Some p\<rparr>)"

fun run_calls :: "conn_call list \<Rightarrow> connection \<Rightarrow> connection option" where
  "run_calls [] c = Some c"
| "run_calls (x # xs) c = do { c' \<leftarrow> run_call x c; run_calls xs c' }"

text \<open>
  A packet that \<open>onRecvMessage\<close> drops leaves a half-decrypted buffer behind; it is not read again
  before the next header and body overwrite it, and the model keeps the message as it was.
\<close>

definition deliver :: "handler \<Rightarrow> bool \<Rightarrow> protocol \<Rightarrow> connection \<Rightarrow> connection option" where
  "deliver h first p c =
     (if first then run_calls (h True (conn_msg c) p) c
      else do {
        r \<leftarrow> onRecvMessage p (conn_msg c);
        (case r of
           None \<Rightarrow> Some c
         | Some m \<Rightarrow> run_calls (h False m p) (c\<lparr>conn_msg := m\<rparr>))
      })"

definition parsePacket :: "handler \<Rightarrow> service list \<Rightarrow> bool \<Rightarrow> connection \<Rightarrow> connection option" where
  "parsePacket h services error c =
     (let c0 = c\<lparr>readTimer := False\<rparr>;
          c1 = (if error then close True c0 else c0)
      in if \<not> conn_open c1 then Some c1
      else do {
        (checksummed, m) \<leftarrow> checkPacketChecksum (conn_msg c1);
        let c2 = c1\<lparr>conn_msg := m\<rparr>;
        (if \<not> receivedFirst c2 then
           let c3 = c2\<lparr>receivedFirst := True\<rparr>
           in case conn_protocol c3 of
                None \<Rightarrow> do {
                  (s, m1) \<leftarrow> make_protocol checksummed m services;
                  (case s of
                     None \<Rightarrow> Some (close True (c3\<lparr>conn_msg := m1\<rparr>))
                   | Some _ \<Rightarrow> do {
                       c4 \<leftarrow> deliver h True new_protocol
                               (c3\<lparr>conn_msg := m1, conn_protocol := Some new_protocol\<rparr>);
                       Some (async_read ReadHeader c4)
                     })
                }
              | Some p \<Rightarrow> do {
                  c4 \<leftarrow> deliver h True p (c3\<lparr>conn_msg := skipBytes 1 m\<rparr>);
                  Some (async_read ReadHeader c4)
                }
         else do {
           p \<leftarrow> conn_protocol c2;
           c4 \<leftarrow> deliver h False p c2;
           Some (async_read ReadHeader c4)
         })
      })"

section \<open>Runs of a connection\<close>

datatype conn_event =
    EvHeader bool "byte list" int u32 bool  \<comment> \<open>the two header bytes have been read, or an error\<close>
  | EvPacket bool "byte list"               \<comment> \<open>the body has been read, or an error\<close>
  | EvWritten bool                          \<comment> \<open>a write has completed, or an error\<close>
  | EvTimeout bool                          \<comment> \<open>a timer fired, or was cancelled\<close>
  | EvSend outmsg                           \<comment> \<open>\<open>Protocol::send\<close>\<close>
  | EvClose bool
  | EvProtocol protocol                     \<comment> \<open>a task of the dispatcher changes the protocol's flags\<close>

text \<open>
  One event: \<open>conn_enabled\<close> is what boost.asio and the callers guarantee (a completion handler runs
  for an operation in progress, with as many bytes as asked for unless there is an error; only a
  protocol sends, and what it sends fits the body, wherever its cursor stands: see \<open>written_sendable\<close>
  and \<open>challenge_sent\<close> of \<open>Protocol\<close>), and \<open>conn_handle\<close> runs the handler. Its result is \<open>None\<close> for an access out of
  bounds, a null protocol or a \<open>pop_front\<close> of an empty queue.
\<close>

fun conn_enabled :: "conn_event \<Rightarrow> connection \<Rightarrow> bool" where
  "conn_enabled (EvHeader error bs now maxp client) c =
     (length bs = 2 \<and> (case socketReads c of ReadHeader # _ \<Rightarrow> True | _ \<Rightarrow> False))"
| "conn_enabled (EvPacket error bs) c =
     (case socketReads c of ReadBody off n # _ \<Rightarrow> length bs = n | _ \<Rightarrow> False)"
| "conn_enabled (EvWritten error) c = (socketWrites c \<noteq> [])"
| "conn_enabled (EvTimeout aborted) c = True"
| "conn_enabled (EvSend m) c = (conn_protocol c \<noteq> None \<and> sendable m)"
| "conn_enabled (EvClose force) c = True"
| "conn_enabled (EvProtocol p) c = (conn_protocol c \<noteq> None)"

definition conn_read :: "nat \<Rightarrow> byte list \<Rightarrow> connection \<Rightarrow> connection option" where
  \<comment> \<open>the bytes of a completed read are stored at the offset it was started with\<close>
  "conn_read off bs c = do {
     buf \<leftarrow> mem_write (msg_buffer (conn_msg c)) off bs;
     Some (c\<lparr>socketReads := tl (socketReads c), conn_msg := (conn_msg c)\<lparr>msg_buffer := buf\<rparr>\<rparr>)
   }"

fun conn_handle :: "handler \<Rightarrow> service list \<Rightarrow> conn_event \<Rightarrow> connection \<Rightarrow> connection option" where
  "conn_handle h ss (EvHeader error bs now maxp client) c =
     do { c' \<leftarrow> conn_read 0 bs c; parseHeader error now maxp client c' }"
| "conn_handle h ss (EvPacket error bs) c =
     (case socketReads c of
        ReadBody off n # _ \<Rightarrow> do { c' \<leftarrow> conn_read off bs c; parsePacket h ss error c' }
      | _ \<Rightarrow> None)"
| "conn_handle h ss (EvWritten error) c =
     onWriteOperation error (c\<lparr>socketWrites := tl (socketWrites c)\<rparr>)"
| "conn_handle h ss (EvTimeout aborted) c = Some (handleTimeout aborted c)"
| "conn_handle h ss (EvSend m) c = send m c"
| "conn_handle h ss (EvClose force) c = Some (close force c)"
| "conn_handle h ss (EvProtocol p) c = Some (c\<lparr>conn_protocol := Some p\<rparr>)"

inductive conn_reachable :: "handler \<Rightarrow> service list \<Rightarrow> connection \<Rightarrow> bool" for h ss where
  accepted: "buf_ok m \<Longrightarrow> conn_reachable h ss (accept (new_connection m now))"
| accepted_protocol: "buf_ok m \<Longrightarrow> conn_reachable h ss (accept_protocol p (new_connection m now))"
| event: "conn_reachable h ss c \<Longrightarrow> conn_enabled e c \<Longrightarrow> conn_handle h ss e c = Some c' \<Longrightarrow>
    conn_reachable h ss c'"

section \<open>What is accepted, written and released\<close>

definition enqueued :: "conn_effect list \<Rightarrow> outmsg list" where
  "enqueued = List.map_filter (\<lambda>e. case e of Enqueue m \<Rightarrow> Some m | _ \<Rightarrow> None)"

definition written :: "conn_effect list \<Rightarrow> outmsg list" where
  "written = List.map_filter (\<lambda>e. case e of StartWrite m _ \<Rightarrow> Some m | _ \<Rightarrow> None)"

definition releases :: "conn_effect list \<Rightarrow> nat" where
  "releases es = length (filter (\<lambda>e. e = DispatchRelease) es)"

lemma log_simps [simp]:
  "enqueued [] = []" "written [] = []" "releases [] = 0"
  "enqueued (es @ fs) = enqueued es @ enqueued fs"
  "written (es @ fs) = written es @ written fs"
  "releases (es @ fs) = releases es + releases fs"
  "enqueued (e # es) = (case e of Enqueue m \<Rightarrow> [m] | _ \<Rightarrow> []) @ enqueued es"
  "written (e # es) = (case e of StartWrite m _ \<Rightarrow> [m] | _ \<Rightarrow> []) @ written es"
  "releases (e # es) = (if e = DispatchRelease then 1 else 0) + releases es"
  by (auto simp: enqueued_def written_def releases_def List.map_filter_def split: conn_effect.splits)

text \<open>
  The invariant: the write in progress is the one of the head of the queue, every message accepted
  is written or still queued behind it unless a write failed, the protocol is released at most once
  and only when the connection has been closed, and the read in progress fits the buffer.
\<close>

definition queue_inv :: "connection \<Rightarrow> bool" where
  "queue_inv c \<longleftrightarrow>
     socketWrites c = take 1 (messageQueue c) \<and> list_all sendable (messageQueue c) \<and>
     (messageQueue c \<noteq> [] \<longrightarrow> conn_protocol c \<noteq> None)"

definition order_inv :: "connection \<Rightarrow> bool" where
  "order_inv c \<longleftrightarrow>
     enqueued (conn_log c) = written (conn_log c) @ tl (messageQueue c) \<or>
     (\<not> conn_open c \<and> messageQueue c = [] \<and> prefix (written (conn_log c)) (enqueued (conn_log c)))"

definition release_inv :: "connection \<Rightarrow> bool" where
  "release_inv c \<longleftrightarrow>
     releases (conn_log c) \<le> 1 \<and> (conn_open c \<longrightarrow> releases (conn_log c) = 0) \<and>
     (conn_open c \<longrightarrow> socketOpen c)"

fun read_fits :: "read_op list \<Rightarrow> netmsg \<Rightarrow> bool" where
  "read_fits [] m = True"
| "read_fits [ReadHeader] m = True"
| "read_fits [ReadBody off n] m =
     (off = 2 \<and> n < 24574 \<and> msg_position m = 2 \<and> unat (msg_length m) = n + 2)"
| "read_fits _ m = False"

definition read_inv :: "connection \<Rightarrow> bool" where
  "read_inv c \<longleftrightarrow> buf_ok (conn_msg c) \<and> read_fits (socketReads c) (conn_msg c) \<and>
     (receivedFirst c \<and> conn_open c \<longrightarrow> conn_protocol c \<noteq> None)"

definition write_inv :: "connection \<Rightarrow> bool" where
  "write_inv c \<longleftrightarrow> queue_inv c \<and> order_inv c \<and> release_inv c"

definition conn_inv :: "connection \<Rightarrow> bool" where
  "conn_inv c \<longleftrightarrow> write_inv c \<and> read_inv c"

lemmas write_inv_defs = write_inv_def queue_inv_def order_inv_def release_inv_def

section \<open>Writing\<close>

lemma internalSend_eq:
  assumes "sendable m" and "conn_protocol c \<noteq> None"
  shows "\<exists>es. internalSend m c =
           Some (c\<lparr>writeTimer := True, socketWrites := socketWrites c @ [m], conn_log := conn_log c @ es\<rparr>) \<and>
           enqueued es = [] \<and> written es = [m] \<and> releases es = 0"
proof -
  obtain p where p: "conn_protocol c = Some p" using assms(2) by blast
  obtain m' where m': "onSendMessage p m = Some m'" using onSendMessage_defined [OF assms(1)] by blast
  have "mem_read (msg_buffer m) 8 (unat (msg_length m)) = Some (payload m)"
    using assms(1) by (simp add: mem_read_def sendable_def buf_ok_def payload_def size_defs)
  with p m' have "internalSend m c =
      Some (c\<lparr>writeTimer := True, socketWrites := socketWrites c @ [m],
              conn_log := conn_log c @ (if om_broadcast m then [Broadcast (payload m)] else []) @
                [StartWrite m (output_bytes m')]\<rparr>)"
    by (simp add: internalSend_def dispatchBroadcastMessage_def emit_def)
  then show ?thesis by (intro exI conjI) (assumption | simp)+
qed

lemma write_inv_emit:
  "write_inv c \<Longrightarrow> e \<noteq> DispatchRelease \<Longrightarrow> enqueued [e] = [] \<Longrightarrow> written [e] = [] \<Longrightarrow> write_inv (emit e c)"
  by (auto simp: write_inv_defs emit_def simp del: log_simps(7,8))

lemma write_inv_send:
  assumes "write_inv c" and "sendable m" and "conn_protocol c \<noteq> None"
  shows "\<exists>c'. send m c = Some c' \<and> write_inv c' \<and> conn_protocol c' = conn_protocol c"
proof (cases "conn_open c \<and> messageQueue c = []")
  case True
  let ?c = "emit (Enqueue m) (c\<lparr>messageQueue := messageQueue c @ [m]\<rparr>)"
  obtain es where es: "internalSend m ?c =
      Some (?c\<lparr>writeTimer := True, socketWrites := socketWrites ?c @ [m], conn_log := conn_log ?c @ es\<rparr>)"
    "enqueued es = []" "written es = [m]" "releases es = 0"
    using internalSend_eq [of m ?c] assms by (auto simp: emit_def)
  with True assms show ?thesis
    by (simp add: send_def write_inv_defs emit_def)
next
  case False
  with assms show ?thesis
    by (auto simp: send_def write_inv_defs emit_def take_Suc neq_Nil_conv)
qed

lemma closeSocket_simps [simp]:
  "conn_open (closeSocket c) = conn_open c" "conn_msg (closeSocket c) = conn_msg c"
  "messageQueue (closeSocket c) = messageQueue c" "conn_protocol (closeSocket c) = conn_protocol c"
  "socketReads (closeSocket c) = socketReads c" "socketWrites (closeSocket c) = socketWrites c"
  "receivedFirst (closeSocket c) = receivedFirst c" "\<not> socketOpen (closeSocket c)"
  "enqueued (conn_log (closeSocket c)) = enqueued (conn_log c)"
  "written (conn_log (closeSocket c)) = written (conn_log c)"
  "releases (conn_log (closeSocket c)) = releases (conn_log c)"
  by (simp_all add: closeSocket_def emit_def)

lemma close_simps [simp]:
  "\<not> conn_open (close force c)" "conn_msg (close force c) = conn_msg c"
  "messageQueue (close force c) = messageQueue c" "conn_protocol (close force c) = conn_protocol c"
  "socketReads (close force c) = socketReads c" "socketWrites (close force c) = socketWrites c"
  "receivedFirst (close force c) = receivedFirst c"
  "enqueued (conn_log (close force c)) = enqueued (conn_log c)"
  "written (conn_log (close force c)) = written (conn_log c)"
  "releases (conn_log (close force c)) =
     releases (conn_log c) + (if conn_open c \<and> conn_protocol c \<noteq> None then 1 else 0)"
  by (simp_all add: close_def emit_def Let_def)

lemma async_read_simps [simp]:
  "conn_open (async_read r c) = conn_open c" "conn_msg (async_read r c) = conn_msg c"
  "messageQueue (async_read r c) = messageQueue c" "conn_protocol (async_read r c) = conn_protocol c"
  "socketReads (async_read r c) = socketReads c @ [r]" "socketWrites (async_read r c) = socketWrites c"
  "receivedFirst (async_read r c) = receivedFirst c" "socketOpen (async_read r c) = socketOpen c"
  "conn_log (async_read r c) = conn_log c"
  by (simp_all add: async_read_def)

lemma write_inv_close: "write_inv c \<Longrightarrow> write_inv (close force c)"
  by (auto simp: write_inv_defs)

lemma write_inv_async_read [simp]: "write_inv (async_read r c) = write_inv c"
  by (simp add: write_inv_defs)

lemma write_inv_update [simp]:
  "write_inv (c\<lparr>conn_msg := m\<rparr>) = write_inv c" "write_inv (c\<lparr>readTimer := t\<rparr>) = write_inv c"
  "write_inv (c\<lparr>packetsSent := n\<rparr>) = write_inv c" "write_inv (c\<lparr>timeConnected := i\<rparr>) = write_inv c"
  "write_inv (c\<lparr>receivedFirst := b\<rparr>) = write_inv c" "write_inv (c\<lparr>socketReads := rs\<rparr>) = write_inv c"
  by (simp_all add: write_inv_defs)

lemma write_inv_protocol: "write_inv c \<Longrightarrow> write_inv (c\<lparr>conn_protocol := Some p\<rparr>)"
  by (auto simp: write_inv_defs)

lemma write_inv_onWriteOperation:
  assumes inv: "write_inv c" and busy: "socketWrites c \<noteq> []"
  shows "\<exists>c'. onWriteOperation error (c\<lparr>socketWrites := tl (socketWrites c)\<rparr>) = Some c' \<and> write_inv c'"
proof -
  obtain m q where q: "messageQueue c = m # q"
    using assms by (cases "messageQueue c") (auto simp: write_inv_defs)
  have sw: "tl (socketWrites c) = []" using inv q by (simp add: write_inv_defs)
  show ?thesis
  proof (cases "\<not> error \<and> q \<noteq> []")
    case True
    then obtain m' q' where q': "q = m' # q'" by (cases q) auto
    let ?c = "c\<lparr>socketWrites := [], writeTimer := False, messageQueue := q\<rparr>"
    obtain es where es: "internalSend m' ?c =
        Some (?c\<lparr>writeTimer := True, socketWrites := socketWrites ?c @ [m'], conn_log := conn_log ?c @ es\<rparr>)"
      "enqueued es = []" "written es = [m']" "releases es = 0"
      using internalSend_eq [of m' ?c] inv q q' by (auto simp: write_inv_defs)
    with True inv q q' sw show ?thesis
      by (simp add: onWriteOperation_def write_inv_defs Let_def)
  next
    case False
    with inv q sw show ?thesis
      by (cases error) (auto simp: onWriteOperation_def write_inv_defs Let_def)
  qed
qed

text \<open>The calls a handler makes.\<close>

fun call_ok :: "conn_call \<Rightarrow> bool" where
  "call_ok (CallSend m) = sendable m"
| "call_ok _ = True"

definition handler_ok :: "handler \<Rightarrow> bool" where
  "handler_ok h \<longleftrightarrow> (\<forall>first m p. list_all call_ok (h first m p))"

text \<open>What the calls of a handler leave alone.\<close>

definition same_reads :: "connection \<Rightarrow> connection \<Rightarrow> bool" where
  "same_reads c c' \<longleftrightarrow> conn_msg c' = conn_msg c \<and> socketReads c' = socketReads c \<and>
     receivedFirst c' = receivedFirst c \<and> conn_protocol c' \<noteq> None"

lemma send_same_reads:
  "send m c = Some c' \<Longrightarrow> conn_protocol c \<noteq> None \<Longrightarrow> same_reads c c'"
  by (auto simp: send_def internalSend_def dispatchBroadcastMessage_def emit_def same_reads_def Let_def
      split: if_splits bind_splits)

lemma run_call_ok:
  assumes "write_inv c" and "call_ok x" and "conn_protocol c \<noteq> None"
  shows "\<exists>c'. run_call x c = Some c' \<and> write_inv c' \<and> same_reads c c'"
proof (cases x)
  case (CallSend m)
  with write_inv_send [of c m] send_same_reads assms show ?thesis by fastforce
next
  case (CallClose force)
  with assms write_inv_close show ?thesis by (simp add: same_reads_def)
next
  case (CallProtocol p)
  with assms write_inv_protocol show ?thesis by (simp add: same_reads_def)
qed

lemma run_calls_ok:
  "write_inv c \<Longrightarrow> list_all call_ok xs \<Longrightarrow> conn_protocol c \<noteq> None \<Longrightarrow>
     \<exists>c'. run_calls xs c = Some c' \<and> write_inv c' \<and> same_reads c c'"
proof (induction xs arbitrary: c)
  case Nil
  then show ?case by (simp add: same_reads_def)
next
  case (Cons x xs)
  then obtain c1 where 1: "run_call x c = Some c1" "write_inv c1" "same_reads c c1"
    using run_call_ok [of c x] by auto
  with Cons.IH [of c1] Cons.prems show ?case by (auto simp: same_reads_def)
qed

section \<open>Reading\<close>

lemma decodeHeader_defined:
  assumes "buf_ok m"
  obtains w where "decodeHeader m = Some (uint w, m\<lparr>msg_length := w\<rparr>)"
proof -
  let ?w = "le_word (take 2 (msg_buffer m)) :: u16"
  have "le_bytes 2 ?w = take 2 (msg_buffer m)"
    using assms by (simp add: le_bytes_le_word buf_ok_def size_defs)
  then have "msg_buffer m = le_bytes 2 ?w @ drop 2 (msg_buffer m)" by simp
  then show thesis using that decodeHeader_at by blast
qed

text \<open>The state in which a read handler runs: its read is over, no other one is in progress.\<close>

definition idle_inv :: "connection \<Rightarrow> bool" where
  "idle_inv c \<longleftrightarrow> write_inv c \<and> buf_ok (conn_msg c) \<and> socketReads c = [] \<and>
     (receivedFirst c \<and> conn_open c \<longrightarrow> conn_protocol c \<noteq> None)"

lemma conn_inv_idle: "idle_inv c \<Longrightarrow> conn_inv c"
  by (simp add: idle_inv_def conn_inv_def read_inv_def)

lemma idle_inv_close: "idle_inv c \<Longrightarrow> idle_inv (close force c)"
  by (auto simp: idle_inv_def write_inv_close)

lemma idle_inv_update [simp]:
  "idle_inv (c\<lparr>readTimer := t\<rparr>) = idle_inv c" "idle_inv (c\<lparr>packetsSent := n\<rparr>) = idle_inv c"
  "idle_inv (c\<lparr>timeConnected := i\<rparr>) = idle_inv c"
  by (simp_all add: idle_inv_def)

lemma idle_inv_msg: "idle_inv c \<Longrightarrow> buf_ok m \<Longrightarrow> idle_inv (c\<lparr>conn_msg := m\<rparr>)"
  by (simp add: idle_inv_def)

lemma conn_inv_read_header: "idle_inv c \<Longrightarrow> conn_inv (async_read ReadHeader c)"
  by (simp add: idle_inv_def conn_inv_def read_inv_def)

lemma conn_inv_read_body:
  assumes "idle_inv c" and "\<not> size_refused (uint w)"
  shows "conn_inv (read_body (uint (w :: u16)) c)"
proof -
  have n: "unat w < 24574"
    using assms(2) by (auto simp: size_refused_def size_defs nat_int_comparison)
  have "of_int (uint w + 2) = (of_nat (unat w + 2) :: u16)" by simp
  then have "unat (of_int (uint w + 2) :: u16) = unat w + 2"
    using n unat_of_nat_u16 [of "unat w + 2"] by (simp add: add.commute)
  with assms(1) n show ?thesis
    by (simp add: idle_inv_def conn_inv_def read_inv_def read_body_def getBodyBuffer_def
        setLength_def HEADER_LENGTH_def)
qed

lemma conn_inv_limit_rate:
  assumes "idle_inv c" and "\<not> size_refused (uint w)"
  shows "conn_inv (limit_rate (uint (w :: u16)) now maxp client c)"
  using assms conn_inv_read_body
  by (auto simp: limit_rate_def Let_def intro!: conn_inv_idle idle_inv_close conn_inv_read_body)

lemma parseHeader_ok:
  assumes "idle_inv c"
  shows "\<exists>c'. parseHeader error now maxp client c = Some c' \<and> conn_inv c'"
proof -
  have "buf_ok (conn_msg c)" using assms by (simp add: idle_inv_def)
  then obtain w where w: "decodeHeader (conn_msg c) = Some (uint w, (conn_msg c)\<lparr>msg_length := w\<rparr>)"
    using decodeHeader_defined by blast
  let ?c = "c\<lparr>readTimer := False, conn_msg := (conn_msg c)\<lparr>msg_length := w\<rparr>\<rparr>"
  have c: "idle_inv ?c" using assms by (simp add: idle_inv_def)
  show ?thesis
  proof (cases "error \<or> size_refused (uint w) \<or> \<not> conn_open ?c")
    case True
    with c w show ?thesis
      by (auto simp: parseHeader_def Let_def intro!: conn_inv_idle idle_inv_close)
  next
    case False
    with c w conn_inv_limit_rate [of ?c w] show ?thesis by (simp add: parseHeader_def)
  qed
qed

lemma deliver_ok:
  assumes h: "handler_ok h" and c: "write_inv c" "buf_ok (conn_msg c)" "conn_protocol c = Some p"
    and fits: "first \<or> uint (msg_position (conn_msg c)) + uint (msg_length (conn_msg c)) - 6
                 \<le> int NETWORKMESSAGE_MAXSIZE"
  shows "\<exists>c'. deliver h first p c = Some c' \<and> write_inv c' \<and> buf_ok (conn_msg c') \<and>
           socketReads c' = socketReads c \<and> conn_protocol c' \<noteq> None"
proof -
  have calls: "\<exists>c'. run_calls (h f m q) d = Some c' \<and> write_inv c' \<and> same_reads d c'"
    if "write_inv d" "conn_protocol d \<noteq> None" for f m q d
    using run_calls_ok that h by (simp add: handler_ok_def)
  show ?thesis
  proof (cases first)
    case True
    obtain c' where "run_calls (h True (conn_msg c) p) c = Some c'" "write_inv c'" "same_reads c c'"
      using calls [where d = c] c by blast
    with c True show ?thesis by (auto simp: deliver_def same_reads_def)
  next
    case False
    then obtain ok m where m: "XTEA_decrypt p (conn_msg c) = Some (ok, m)" "buf_ok m"
      using XTEA_decrypt_safe c(2) fits by blast
    have "write_inv (c\<lparr>conn_msg := m'\<rparr>)" and "conn_protocol (c\<lparr>conn_msg := m'\<rparr>) \<noteq> None" for m'
      using c by simp_all
    note calls [OF this]
    then obtain c' where "run_calls (h False m p) (c\<lparr>conn_msg := m\<rparr>) = Some c'" "write_inv c'"
        "same_reads (c\<lparr>conn_msg := m\<rparr>) c'" by blast
    moreover obtain c'' where "run_calls (h False (conn_msg c) p) c = Some c''" "write_inv c''" "same_reads c c''"
      using calls [where d = c] c by blast
    ultimately show ?thesis
      using m c False by (cases ok) (auto simp: deliver_def onRecvMessage_def same_reads_def)
  qed
qed

text \<open>The end of \<open>parsePacket\<close>: the message goes to the protocol and the next header is awaited.\<close>

lemma deliver_and_read_ok:
  assumes "handler_ok h" "write_inv c" "buf_ok (conn_msg c)" "conn_protocol c = Some p" "socketReads c = []"
    and "first \<or> uint (msg_position (conn_msg c)) + uint (msg_length (conn_msg c)) - 6
           \<le> int NETWORKMESSAGE_MAXSIZE"
  shows "\<exists>c'. (do { c4 \<leftarrow> deliver h first p c; Some (async_read ReadHeader c4) }) = Some c' \<and> conn_inv c'"
proof -
  obtain c4 where c4: "deliver h first p c = Some c4" "write_inv c4" "buf_ok (conn_msg c4)"
      "socketReads c4 = []" "conn_protocol c4 \<noteq> None"
    using deliver_ok [OF assms(1-4,6)] assms(5) by auto
  then have "idle_inv c4" by (simp add: idle_inv_def)
  with c4 conn_inv_read_header show ?thesis by auto
qed

lemma parsePacket_ok:
  assumes h: "handler_ok h" and c: "idle_inv c" and pos: "msg_position (conn_msg c) = 2"
    and len: "unat (msg_length (conn_msg c)) = n + 2" and n: "n < 24574"
  shows "\<exists>c'. parsePacket h ss error c = Some c' \<and> conn_inv c'"
proof (cases "error \<or> \<not> conn_open c")
  case True
  with c show ?thesis
    by (auto simp: parsePacket_def Let_def intro!: conn_inv_idle idle_inv_close)
next
  case False
  have ok: "buf_ok (conn_msg c)" "write_inv c" "socketReads c = []" using c by (simp_all add: idle_inv_def)
  from checkPacketChecksum_safe [OF ok(1) pos] len n
  obtain b m where m: "checkPacketChecksum (conn_msg c) = Some (b, m)" "buf_ok m"
      "msg_length m = msg_length (conn_msg c)" "msg_position m \<in> {2, 6}"
    by (auto simp: size_defs)
  have fits: "uint (msg_position m) + uint (msg_length m) - 6 \<le> int NETWORKMESSAGE_MAXSIZE"
  proof -
    have "uint (msg_position m) \<le> 6" using m(4) by auto
    moreover have "uint (msg_length m) = int n + 2"
      using len m(3) by (metis of_nat_add of_nat_numeral of_nat_unat)
    ultimately show ?thesis using n by (simp add: size_defs)
  qed
  let ?c3 = "c\<lparr>readTimer := False, conn_msg := m, receivedFirst := True\<rparr>"
  show ?thesis
  proof (cases "receivedFirst c")
    case True
    then obtain p where p: "conn_protocol c = Some p" using c False by (auto simp: idle_inv_def)
    with deliver_and_read_ok [OF h, of "c\<lparr>readTimer := False, conn_msg := m\<rparr>" p False] ok m(1,2) fits False True
    show ?thesis by (simp add: parsePacket_def)
  next
    case first: False
    show ?thesis
    proof (cases "conn_protocol c")
      case (Some p)
      with deliver_and_read_ok [OF h, of "?c3\<lparr>conn_msg := skipBytes 1 m\<rparr>" p True] ok m(1,2) False first
      show ?thesis by (simp add: parsePacket_def skipBytes_def Let_def)
    next
      case None
      obtain v m1 where m1: "getByte m = Some (v, m1)" "buf_ok m1" using getByte_safe [OF m(2)] by blast
      have idle: "idle_inv (close True (?c3\<lparr>conn_msg := m1\<rparr>))"
        using ok m1(2) by (simp add: idle_inv_def write_inv_close)
      have "write_inv (?c3\<lparr>conn_msg := m1, conn_protocol := Some new_protocol\<rparr>)"
        using write_inv_protocol [of "?c3\<lparr>conn_msg := m1\<rparr>"] ok by simp
      with deliver_and_read_ok [OF h, of "?c3\<lparr>conn_msg := m1, conn_protocol := Some new_protocol\<rparr>" new_protocol True]
      show ?thesis
        using None m m1 ok False first idle conn_inv_idle [OF idle]
        by (simp add: parsePacket_def make_protocol_def Let_def split: option.split)
    qed
  qed
qed

section \<open>Every event keeps the invariant\<close>

lemma read_fits_cases:
  assumes "read_fits rs m" and "rs = r # rs'"
  shows "rs' = []" and "r = ReadBody off n \<Longrightarrow>
    off = 2 \<and> n < 24574 \<and> msg_position m = 2 \<and> unat (msg_length m) = n + 2"
  using assms by (cases rs'; cases r; simp)+

lemma conn_read_ok:
  assumes "conn_inv c" and "socketReads c = r # rs" and "off + length bs \<le> NETWORKMESSAGE_MAXSIZE"
  shows "\<exists>c'. conn_read off bs c = Some c' \<and> idle_inv c' \<and>
           msg_position (conn_msg c') = msg_position (conn_msg c) \<and>
           msg_length (conn_msg c') = msg_length (conn_msg c)"
proof -
  have ok: "buf_ok (conn_msg c)" and "rs = []"
    using assms read_fits_cases(1) by (auto simp: conn_inv_def read_inv_def)
  obtain buf where "mem_write (msg_buffer (conn_msg c)) off bs = Some buf" "length buf = NETWORKMESSAGE_MAXSIZE"
    using ok assms(3) by (auto simp: mem_write_def buf_ok_def)
  then show ?thesis
    using assms(1,2) \<open>rs = []\<close>
    by (simp add: conn_read_def conn_inv_def read_inv_def idle_inv_def buf_ok_def)
qed

lemma conn_inv_write_step:
  assumes "conn_inv c" and "write_inv c'" and "same_reads c c' \<or> conn_msg c' = conn_msg c \<and>
    socketReads c' = socketReads c \<and> receivedFirst c' = receivedFirst c \<and>
    conn_protocol c' = conn_protocol c \<and> (conn_open c' \<longrightarrow> conn_open c)"
  shows "conn_inv c'"
  using assms by (auto simp: conn_inv_def read_inv_def same_reads_def)

lemma onWriteOperation_same_reads:
  "onWriteOperation error c = Some c' \<Longrightarrow>
     conn_msg c' = conn_msg c \<and> socketReads c' = socketReads c \<and> receivedFirst c' = receivedFirst c \<and>
     conn_protocol c' = conn_protocol c \<and> (conn_open c' \<longrightarrow> conn_open c)"
  by (auto simp: onWriteOperation_def internalSend_def dispatchBroadcastMessage_def emit_def Let_def
      split: if_splits bind_splits list.splits)

lemma conn_handle_ok:
  assumes h: "handler_ok h" and c: "conn_inv c" and e: "conn_enabled e c"
  shows "\<exists>c'. conn_handle h ss e c = Some c' \<and> conn_inv c'"
proof (cases e)
  case (EvHeader error bs now maxp client)
  with e obtain rs where "socketReads c = ReadHeader # rs" and "length bs = 2"
    by (auto split: list.splits read_op.splits)
  with conn_read_ok [OF c, of ReadHeader rs 0 bs] parseHeader_ok EvHeader show ?thesis
    by (fastforce simp: size_defs)
next
  case (EvPacket error bs)
  with e obtain off rs where r: "socketReads c = ReadBody off (length bs) # rs"
    by (auto split: list.splits read_op.splits)
  then have fits: "off = 2 \<and> length bs < 24574 \<and> msg_position (conn_msg c) = 2 \<and>
      unat (msg_length (conn_msg c)) = length bs + 2"
    using c read_fits_cases(2) [of "socketReads c" "conn_msg c"]
    by (auto simp: conn_inv_def read_inv_def simp del: read_fits.simps)
  then obtain c1 where "conn_read off bs c = Some c1" "idle_inv c1" "msg_position (conn_msg c1) = 2"
      "unat (msg_length (conn_msg c1)) = length bs + 2"
    using conn_read_ok [OF c r, of off bs] by (auto simp: size_defs)
  with parsePacket_ok [OF h, of c1 "length bs" ss error] EvPacket r fits show ?thesis by auto
next
  case (EvWritten error)
  with e c obtain c' where "conn_handle h ss e c = Some c'" "write_inv c'"
    using write_inv_onWriteOperation [of c error] by (auto simp: conn_inv_def)
  with EvWritten onWriteOperation_same_reads [of error "c\<lparr>socketWrites := tl (socketWrites c)\<rparr>" c']
    conn_inv_write_step [OF c, of c'] show ?thesis by auto
next
  case (EvSend m)
  with e c obtain c' where "send m c = Some c'" "write_inv c'" "conn_protocol c \<noteq> None"
    using write_inv_send [of c m] by (auto simp: conn_inv_def)
  with EvSend send_same_reads [of m c c'] conn_inv_write_step [OF c, of c'] show ?thesis by auto
next
  case (EvTimeout aborted)
  with c conn_inv_write_step [OF c write_inv_close [of c]] show ?thesis
    by (simp add: handleTimeout_def conn_inv_def)
next
  case (EvClose force)
  with c conn_inv_write_step [OF c write_inv_close [of c]] show ?thesis by (simp add: conn_inv_def)
next
  case (EvProtocol p)
  with c write_inv_protocol conn_inv_write_step [OF c, of "c\<lparr>conn_protocol := Some p\<rparr>"] show ?thesis
    by (simp add: conn_inv_def same_reads_def)
qed

lemma conn_inv_new: "buf_ok m \<Longrightarrow> idle_inv (new_connection m now)"
  by (simp add: new_connection_def idle_inv_def write_inv_defs)

lemma conn_inv_reachable:
  assumes "conn_reachable h ss c" and "handler_ok h"
  shows "conn_inv c"
  using assms(1)
proof induction
  case (accepted m now)
  then show ?case using conn_inv_read_header [OF conn_inv_new] by (simp add: accept_def)
next
  case (accepted_protocol m p now)
  have "idle_inv (emit DispatchOnConnect ((new_connection m now)\<lparr>conn_protocol := Some p\<rparr>))"
    using accepted_protocol by (simp add: new_connection_def idle_inv_def write_inv_defs emit_def)
  then show ?case using conn_inv_read_header by (simp add: accept_protocol_def accept_def)
next
  case (event c e c')
  then show ?case using conn_handle_ok [OF assms(2) event.IH event.hyps(2), of ss] by auto
qed

section \<open>Closing\<close>

lemma onWriteOperation_success:
  assumes inv: "write_inv c" and q: "messageQueue c = m # q" and closed: "\<not> conn_open c"
  shows "\<exists>c'. onWriteOperation False (c\<lparr>socketWrites := tl (socketWrites c)\<rparr>) = Some c' \<and> write_inv c' \<and>
           messageQueue c' = q \<and> \<not> conn_open c' \<and> (if q = [] then \<not> socketOpen c' else socketOpen c' = socketOpen c) \<and>
           written (conn_log c') = written (conn_log c) @ take 1 q"
proof -
  have busy: "socketWrites c \<noteq> []" using inv q by (simp add: write_inv_defs)
  from write_inv_onWriteOperation [OF inv busy, of False] obtain c'
    where c': "onWriteOperation False (c\<lparr>socketWrites := tl (socketWrites c)\<rparr>) = Some c'" "write_inv c'"
    by blast
  show ?thesis
  proof (cases q)
    case Nil
    with c' q closed show ?thesis by (auto simp: onWriteOperation_def Let_def)
  next
    case (Cons m' q')
    let ?c = "c\<lparr>socketWrites := tl (socketWrites c), writeTimer := False, messageQueue := q\<rparr>"
    obtain es where "internalSend m' ?c =
        Some (?c\<lparr>writeTimer := True, socketWrites := socketWrites ?c @ [m'], conn_log := conn_log ?c @ es\<rparr>)"
      "written es = [m']"
      using internalSend_eq [of m' ?c] inv q Cons by (auto simp: write_inv_defs)
    with c' q closed Cons show ?thesis by (auto simp: onWriteOperation_def Let_def)
  qed
qed

fun writes_done :: "handler \<Rightarrow> service list \<Rightarrow> nat \<Rightarrow> connection \<Rightarrow> connection option" where
  "writes_done h ss 0 c = Some c"
| "writes_done h ss (Suc n) c = do { c' \<leftarrow> conn_handle h ss (EvWritten False) c; writes_done h ss n c' }"

lemma writes_done_drains:
  "write_inv c \<Longrightarrow> \<not> conn_open c \<Longrightarrow> messageQueue c = m # q \<Longrightarrow>
     \<exists>c'. writes_done h ss (Suc (length q)) c = Some c' \<and>
       written (conn_log c') = written (conn_log c) @ q \<and> messageQueue c' = [] \<and> \<not> socketOpen c'"
proof (induction q arbitrary: c m)
  case Nil
  with onWriteOperation_success [of c m "[]"] show ?case by auto
next
  case (Cons m' q)
  from onWriteOperation_success [OF Cons.prems(1,3,2)] obtain c1
    where c1: "onWriteOperation False (c\<lparr>socketWrites := tl (socketWrites c)\<rparr>) = Some c1"
      "write_inv c1" "messageQueue c1 = m' # q" "\<not> conn_open c1"
      "written (conn_log c1) = written (conn_log c) @ [m']" by auto
  with Cons.IH [OF c1(2,4,3)] show ?case by simp
qed

lemma writes_done_waits:
  "write_inv c \<Longrightarrow> \<not> conn_open c \<Longrightarrow> socketOpen c \<Longrightarrow> k < length (messageQueue c) \<Longrightarrow>
     \<exists>c'. writes_done h ss k c = Some c' \<and> socketOpen c' \<and> messageQueue c' = drop k (messageQueue c) \<and>
       written (conn_log c') = written (conn_log c) @ take k (tl (messageQueue c))"
proof (induction k arbitrary: c)
  case 0
  then show ?case by simp
next
  case (Suc k)
  then obtain m m' q where q: "messageQueue c = m # m' # q"
    by (metis Suc_lessE gr_implies_not0 length_Suc_conv length_0_conv neq_Nil_conv)
  from onWriteOperation_success [OF Suc.prems(1) q Suc.prems(2)] Suc.prems(3) obtain c1
    where c1: "onWriteOperation False (c\<lparr>socketWrites := tl (socketWrites c)\<rparr>) = Some c1"
      "write_inv c1" "\<not> conn_open c1" "socketOpen c1" "messageQueue c1 = m' # q"
      "written (conn_log c1) = written (conn_log c) @ [m']" by auto
  with Suc.IH [OF c1(2-4)] Suc.prems(4) q show ?case by simp
qed

lemma open_order: "conn_inv c \<Longrightarrow> conn_open c \<Longrightarrow> enqueued (conn_log c) = written (conn_log c) @ tl (messageQueue c)"
  by (auto simp: conn_inv_def write_inv_defs)

lemma limit_rate_bound:
  assumes open_after: "conn_open (limit_rate sz now maxp True c)" and maxp: "unat maxp < 2 ^ 30"
  shows "unat (packetsSent (limit_rate sz now maxp True c)) \<le> 2 * unat maxp + 1"
proof -
  let ?t = "max 1 (of_int (now - timeConnected c + 1) :: u32)" and ?n = "packetsSent c + 1"
  have ok: "\<not> ?n div ?t > maxp"
    using open_after by (auto simp: limit_rate_def Let_def split: if_splits)
  show ?thesis
  proof (cases "?t > 2")
    case True
    with ok show ?thesis
      by (auto simp: limit_rate_def Let_def read_body_def getBodyBuffer_def async_read_def)
  next
    case False
    have "1 \<le> ?t" by simp
    then have "unat (1 :: u32) \<le> unat ?t" by (simp only: word_le_nat_alt)
    moreover have "unat ?t \<le> unat (2 :: u32)" using False by (simp only: word_less_nat_alt)
    ultimately have t: "unat ?t \<le> 2" "unat ?t \<ge> 1" by simp_all
    have "unat ?n div unat ?t \<le> unat maxp" using ok by (simp add: word_le_nat_alt unat_div not_less)
    then have "unat ?n div unat ?t < unat maxp + 1" by linarith
    then have "unat ?n < (unat maxp + 1) * unat ?t"
      using t(2) by (subst (asm) div_less_iff_less_mult) simp_all
    also have "\<dots> \<le> (unat maxp + 1) * 2" using t by (intro mult_le_mono) auto
    finally have "unat ?n \<le> 2 * unat maxp + 1" by simp
    moreover have "packetsSent (limit_rate sz now maxp True c) = ?n"
      using ok False by (auto simp: limit_rate_def Let_def read_body_def getBodyBuffer_def async_read_def)
    ultimately show ?thesis by (simp only:)
  qed
qed

section \<open>Ports\<close>

text \<open>A service whose server sends first has its port for itself.\<close>

definition ports_ok :: "(u16 \<rightharpoonup> service list) \<Rightarrow> bool" where
  "ports_ok acceptors \<longleftrightarrow> (\<forall>port ss. acceptors port = Some ss \<longrightarrow>
     port \<noteq> 0 \<and> ss \<noteq> [] \<and> ((\<exists>s \<in> set ss. is_single_socket s) \<longrightarrow> length ss = 1))"

lemma ports_ok_add:
  assumes "ports_ok acceptors"
  shows "ports_ok (fst (add_port port s acceptors))"
proof (cases "acceptors port")
  case None
  with assms show ?thesis by (auto simp: ports_ok_def add_port_def add_service_def)
next
  case (Some services)
  with assms have ne: "services \<noteq> []" and len: "(\<exists>s \<in> set services. is_single_socket s) \<longrightarrow> length services = 1"
    by (auto simp: ports_ok_def)
  show ?thesis
  proof (cases "port_is_single_socket services \<or> is_single_socket s")
    case True
    with assms Some show ?thesis by (simp add: add_port_def)
  next
    case False
    with ne len have "\<not> (\<exists>s \<in> set services. is_single_socket s)"
      by (cases services) (auto simp: port_is_single_socket_def)
    with False Some assms show ?thesis
      by (auto simp: ports_ok_def add_port_def add_service_def)
  qed
qed

lemma find_service_Some:
  "find_service i b ss = Some s \<Longrightarrow>
     s \<in> set ss \<and> protocol_identifier s = i \<and> (is_checksummed s \<longrightarrow> b)"
  by (induction ss) (auto split: if_splits)

lemma find_service_None:
  "find_service i b ss = None \<longleftrightarrow>
     (\<forall>s \<in> set ss. protocol_identifier s \<noteq> i \<or> is_checksummed s \<and> \<not> b)"
  by (induction ss) auto

section \<open>Properties\<close>

text \<open>
  C6: whatever the peer sends and whenever operations complete, fail or time out, no handler of
  a connection accesses the packet buffer out of bounds, uses a protocol that is not there or pops
  an empty queue, as long as the protocols send messages with at most 24567 bytes in their body.
\<close>

theorem connection_safe:
  assumes "conn_reachable h ss c" and "handler_ok h" and "conn_enabled e c"
  shows "conn_handle h ss e c \<noteq> None"
  using conn_handle_ok [OF assms(2) conn_inv_reachable [OF assms(1,2)] assms(3)] by auto

text \<open>The challenge is sent first on every game connection.\<close>

theorem connection_safe_witness:
  "\<exists>m. onConnect (replicate 24590 0) 7 42 = Some m \<and>
     conn_handle (\<lambda>first m p. []) [] (EvSend m)
       (accept_protocol new_protocol (new_connection (netmsg.make 0 0 True (replicate 24590 9)) 0)) \<noteq> None"
proof -
  obtain m where m: "onConnect (replicate 24590 0) 7 42 = Some m" "sendable m"
    by (rule challenge_sent [of "replicate 24590 0" 7 42]) (simp_all add: NETWORKMESSAGE_MAXSIZE_def)
  have "conn_handle (\<lambda>first m p. []) [] (EvSend m)
       (accept_protocol new_protocol (new_connection (netmsg.make 0 0 True (replicate 24590 9)) 0)) \<noteq> None"
    by (rule connection_safe, rule accepted_protocol)
       (simp_all add: handler_ok_def buf_ok_def netmsg.make_def NETWORKMESSAGE_MAXSIZE_def m(2)
          accept_protocol_def accept_def new_connection_def emit_def)
  with m(1) show ?thesis by blast
qed

text \<open>
  C7: messages are written one at a time and in the order in which they were sent; while the
  connection is open none is lost. As in C6, a message has at most 24567 bytes in its body.
\<close>

theorem connection_fifo:
  assumes "conn_reachable h ss c" and "handler_ok h"
  shows "length (socketWrites c) \<le> 1 \<and>
         prefix (written (conn_log c)) (enqueued (conn_log c)) \<and>
         (conn_open c \<longrightarrow> enqueued (conn_log c) = written (conn_log c) @ tl (messageQueue c))"
proof -
  have "conn_inv c" by (rule conn_inv_reachable [OF assms])
  moreover from this have "queue_inv c" "order_inv c" by (simp_all add: conn_inv_def write_inv_def)
  ultimately show ?thesis using open_order by (auto simp: queue_inv_def order_inv_def)
qed

theorem connection_fifo_witness:
  "let c = accept_protocol new_protocol (new_connection (netmsg.make 0 0 True (replicate 24590 9)) 0)
   in length (socketWrites c) \<le> 1 \<and> prefix (written (conn_log c)) (enqueued (conn_log c)) \<and>
      (conn_open c \<longrightarrow> enqueued (conn_log c) = written (conn_log c) @ tl (messageQueue c))"
  unfolding Let_def
  by (rule connection_fifo [where h = "\<lambda>first m p. []" and ss = "[]"], rule accepted_protocol)
     (simp_all add: handler_ok_def buf_ok_def netmsg.make_def NETWORKMESSAGE_MAXSIZE_def)

text \<open>
  C8: closing a connection without force lets it drain: the socket stays open until the last queued
  message has been written, each success starts the next write in order, and then everything that was sent
  has been written and the socket is closed.
\<close>

theorem graceful_close_drains:
  assumes "conn_reachable h ss c" and "handler_ok h" and "conn_open c" and "messageQueue c \<noteq> []"
  shows "(\<forall>k < length (messageQueue c). \<exists>c'. writes_done h ss k (close False c) = Some c' \<and> socketOpen c' \<and>
           messageQueue c' = drop k (messageQueue c) \<and>
           written (conn_log c') = written (conn_log c) @ take k (tl (messageQueue c))) \<and>
         (\<exists>c'. writes_done h ss (length (messageQueue c)) (close False c) = Some c' \<and>
           written (conn_log c') = enqueued (conn_log c) \<and> messageQueue c' = [] \<and> \<not> socketOpen c')"
proof
  have inv: "conn_inv c" by (rule conn_inv_reachable [OF assms(1,2)])
  then have closing: "write_inv (close False c)" by (simp add: conn_inv_def write_inv_close)
  have "socketOpen (close False c)"
    using inv assms(3,4) by (simp add: conn_inv_def write_inv_defs close_def emit_def Let_def)
  then show "\<forall>k < length (messageQueue c). \<exists>c'. writes_done h ss k (close False c) = Some c' \<and> socketOpen c' \<and>
      messageQueue c' = drop k (messageQueue c) \<and> written (conn_log c') = written (conn_log c) @ take k (tl (messageQueue c))"
    using writes_done_waits [OF closing, where h = h and ss = ss] by simp
  obtain m q where q: "messageQueue c = m # q" using assms(4) by (cases "messageQueue c") auto
  with writes_done_drains [of "close False c" m q] open_order [OF inv assms(3)] closing
  show "\<exists>c'. writes_done h ss (length (messageQueue c)) (close False c) = Some c' \<and>
      written (conn_log c') = enqueued (conn_log c) \<and> messageQueue c' = [] \<and> \<not> socketOpen c'" by simp
qed

lemma sent_once:
  assumes "buf_ok r" and "sendable m"
  obtains c where "conn_reachable h ss c" "conn_open c" "messageQueue c = [m]"
    "send m (accept_protocol p (new_connection r now)) = Some c"
proof -
  let ?c = "accept_protocol p (new_connection r now)"
  have R: "conn_reachable h ss ?c" using assms(1) by (rule accepted_protocol)
  have p: "conn_protocol ?c = Some p" "messageQueue ?c = []" "conn_open ?c"
    by (simp_all add: accept_protocol_def accept_def new_connection_def emit_def)
  let ?d = "emit (Enqueue m) (?c\<lparr>messageQueue := [m]\<rparr>)"
  obtain c where c: "internalSend m ?d = Some c" "conn_open c" "messageQueue c = [m]"
    using internalSend_eq [of m ?d] assms(2) p by (auto simp: emit_def)
  then have "send m ?c = Some c" using p by (simp add: send_def)
  moreover from this have "conn_reachable h ss c"
    using conn_reachable.event [OF R, of "EvSend m" c] p assms(2) by simp
  ultimately show thesis using that c by blast
qed

theorem graceful_close_drains_witness:
  "\<exists>c c' c''. send (new_outmsg (replicate 24590 0))
       (accept_protocol new_protocol (new_connection (netmsg.make 0 0 True (replicate 24590 9)) 0)) = Some c \<and>
     writes_done (\<lambda>first m p. []) [] 0 (close False c) = Some c' \<and> socketOpen c' \<and>
     writes_done (\<lambda>first m p. []) [] (length (messageQueue c)) (close False c) = Some c'' \<and>
     written (conn_log c'') = enqueued (conn_log c) \<and> messageQueue c'' = [] \<and> \<not> socketOpen c''"
proof -
  let ?h = "\<lambda>first m p. []"
  have "buf_ok (netmsg.make 0 0 True (replicate 24590 9))"
    and "sendable (new_outmsg (replicate 24590 0))" and h: "handler_ok ?h"
    by (simp_all add: handler_ok_def buf_ok_def netmsg.make_def body_written_sendable body_written_new
        NETWORKMESSAGE_MAXSIZE_def)
  with sent_once [where h = ?h and ss = "[]"]
  obtain c where c: "conn_reachable ?h [] c" "conn_open c" "messageQueue c \<noteq> []"
    "send (new_outmsg (replicate 24590 0))
       (accept_protocol new_protocol (new_connection (netmsg.make 0 0 True (replicate 24590 9)) 0)) = Some c"
    by (metis list.distinct(1))
  from c(3) have "0 < length (messageQueue c)" by simp
  with graceful_close_drains [OF c(1) h c(2,3)] c(4) show ?thesis by blast
qed

text \<open>
  A connection that drains after a close ignores its timeouts: a peer that stops reading keeps
  the socket and the queued messages for as long as it wants.
\<close>

lemma draining_ignores_timeout:
  assumes "\<not> conn_open c" and "socketOpen c"
  shows "socketOpen (handleTimeout False c) \<and> messageQueue (handleTimeout False c) = messageQueue c \<and>
         socketWrites (handleTimeout False c) = socketWrites c"
  using assms by (simp add: handleTimeout_def close_def emit_def)

text \<open>
  The packet limit holds: a player's connection that stays open after a packet has, since the
  start of its counting window, sent at most twice the configured number of packets per second,
  plus one.
\<close>

lemma packet_rate_bound:
  assumes "conn_open (limit_rate sz now maxp True c)" and "unat maxp < 2 ^ 30"
  shows "unat (packetsSent (limit_rate sz now maxp True c)) \<le> 2 * unat maxp + 1"
  by (rule limit_rate_bound [OF assms])

text \<open>
  However services are added to ports, a service whose server sends first never shares its
  port, and no service is on port 0.
\<close>

lemma services_keep_ports:
  assumes "ports_ok acceptors"
  shows "ports_ok (fst (add_port port s acceptors))"
  by (rule ports_ok_add [OF assms])

end
