(* ===== verification/PropStream.thy ===== *)
theory PropStream
  imports Prelude
begin

text \<open>
  \<open>fileloader.h\<close> and \<open>fileloader.cpp\<close>: the property streams in which items, conditions and maps are
  stored, and the loader of the OTB container files (a tree of nodes with escaped properties).
\<close>

section \<open>\<open>PropStream\<close> and \<open>PropWriteStream\<close>\<close>

text \<open>
  A \<open>PropStream\<close> is the bytes between \<open>p\<close> and \<open>end\<close>; a read that fails (\<open>None\<close>) leaves it unchanged.
\<close>

type_synonym prop_stream = "byte list"

definition ps_read :: "prop_stream \<Rightarrow> ('a::len word \<times> prop_stream) option" where
  "ps_read s =
     (let n = LENGTH('a) div 8
      in if length s < n then None else Some (le_word (take n s), drop n s))"

definition ps_readString :: "prop_stream \<Rightarrow> (bstring \<times> prop_stream) option" where
  "ps_readString s =
     (case ps_read s :: (u16 \<times> prop_stream) option of
        None \<Rightarrow> None
      | Some (strLen, s1) \<Rightarrow>
          if length s1 < unat strLen then None
          else Some (take (unat strLen) s1, drop (unat strLen) s1))"

definition ps_skip :: "nat \<Rightarrow> prop_stream \<Rightarrow> prop_stream option" where
  "ps_skip n s = (if length s < n then None else Some (drop n s))"

text \<open>A \<open>PropWriteStream\<close> is its buffer; writing appends.\<close>

definition ps_write :: "'a::len word \<Rightarrow> byte list \<Rightarrow> byte list" where
  "ps_write w buffer = buffer @ le_bytes (LENGTH('a) div 8) w"

definition ps_writeString :: "bstring \<Rightarrow> byte list \<Rightarrow> byte list" where
  "ps_writeString str buffer =
     (if length str > 65535 then ps_write (0 :: u16) buffer
      else ps_write (of_nat (length str) :: u16) buffer @ str)"

text \<open>
  Both directions of a value: what a codec writes, read back in front of anything, is the value.
\<close>

locale stream_codec =
  fixes wr :: "'v \<Rightarrow> byte list \<Rightarrow> byte list"
    and rd :: "prop_stream \<Rightarrow> ('v \<times> prop_stream) option"
    and ok :: "'v \<Rightarrow> bool"
  assumes wr_append: "wr v buffer = buffer @ wr v []"
    and rd_wr: "ok v \<Longrightarrow> rd (wr v [] @ rest) = Some (v, rest)"
begin

lemma wr_nil_append: "wr v buffer @ rest = buffer @ wr v [] @ rest"
  by (subst wr_append) simp

fun rd_many :: "nat \<Rightarrow> prop_stream \<Rightarrow> ('v list \<times> prop_stream) option" where
  "rd_many 0 s = Some ([], s)"
| "rd_many (Suc n) s = do { (v, s1) \<leftarrow> rd s; (vs, s2) \<leftarrow> rd_many n s1; Some (v # vs, s2) }"

lemma rd_many_wr:
  "list_all ok vs \<Longrightarrow> rd_many (length vs) (foldl (\<lambda>b v. wr v b) [] vs @ rest) = Some (vs, rest)"
proof (induction vs arbitrary: rest)
  case Nil
  then show ?case by simp
next
  case (Cons v vs)
  have fold: "foldl (\<lambda>b v. wr v b) xs ys = xs @ foldl (\<lambda>b v. wr v b) [] ys" for xs ys
  proof (induction ys arbitrary: xs)
    case (Cons y ys)
    have "foldl (\<lambda>b v. wr v b) (wr y xs) ys = wr y xs @ foldl (\<lambda>b v. wr v b) [] ys"
      by (rule Cons.IH)
    also have "\<dots> = xs @ foldl (\<lambda>b v. wr v b) (wr y []) ys"
      using Cons.IH [of "wr y []"] wr_nil_append [of y xs] by simp
    finally show ?case by simp
  qed simp
  show ?case
    using Cons rd_wr [of v "foldl (\<lambda>b v. wr v b) [] vs @ rest"] by (simp add: fold [of "wr v []"])
qed

end

lemma div8_exact:
  "LENGTH(8) div 8 = 1" "LENGTH(16) div 8 = 2" "LENGTH(32) div 8 = 4" "LENGTH(64) div 8 = 8"
  by simp_all

lemma ps_read_le_bytes [bytes_simps]:
  "ps_read (b # s) = Some (b :: u8, s)"
  "ps_read (le_bytes 2 w2 @ s) = Some (w2 :: u16, s)"
  "ps_read (le_bytes 4 w4 @ s) = Some (w4 :: u32, s)"
  "ps_read (le_bytes 8 w8 @ s) = Some (w8 :: u64, s)"
proof -
  show "ps_read (b # s) = Some (b :: u8, s)"
    using le_word_le_bytes [of 1 b] by (simp add: ps_read_def)
qed (simp_all add: ps_read_def le_word_le_bytes del: le_bytes.simps)

interpretation stream_u8: stream_codec ps_write "ps_read :: prop_stream \<Rightarrow> (u8 \<times> prop_stream) option" "\<lambda>_. True"
  by unfold_locales (simp_all add: ps_write_def ps_read_le_bytes)

interpretation stream_u16: stream_codec ps_write "ps_read :: prop_stream \<Rightarrow> (u16 \<times> prop_stream) option" "\<lambda>_. True"
  by unfold_locales (simp_all add: ps_write_def ps_read_le_bytes del: le_bytes.simps)

interpretation stream_u32: stream_codec ps_write "ps_read :: prop_stream \<Rightarrow> (u32 \<times> prop_stream) option" "\<lambda>_. True"
  by unfold_locales (simp_all add: ps_write_def ps_read_le_bytes del: le_bytes.simps)

interpretation stream_u64: stream_codec ps_write "ps_read :: prop_stream \<Rightarrow> (u64 \<times> prop_stream) option" "\<lambda>_. True"
  by unfold_locales (simp_all add: ps_write_def ps_read_le_bytes del: le_bytes.simps)

interpretation stream_string: stream_codec ps_writeString ps_readString "\<lambda>s. length s \<le> 65535"
proof
  fix v :: bstring and rest
  assume "length v \<le> 65535"
  then show "ps_readString (ps_writeString v [] @ rest) = Some (v, rest)"
    using unat_of_nat_u16 [of "length v"]
    by (simp add: ps_writeString_def ps_readString_def ps_write_def ps_read_le_bytes del: le_bytes.simps)
qed (simp add: ps_writeString_def ps_write_def)

text \<open>No read lengthens the stream.\<close>

lemma ps_read_shorter: "ps_read s = Some (v, s') \<Longrightarrow> length s' \<le> length s"
  by (auto simp: ps_read_def Let_def split: if_splits)

lemma ps_read_u8_shorter: "ps_read s = Some (v :: u8, s') \<Longrightarrow> length s' < length s"
  by (auto simp: ps_read_def Let_def split: if_splits)

lemma ps_readString_shorter: "ps_readString s = Some (v, s') \<Longrightarrow> length s' \<le> length s"
  by (auto simp: ps_readString_def split: option.splits if_splits dest!: ps_read_shorter)

lemma ps_skip_shorter: "ps_skip n s = Some s' \<Longrightarrow> length s' \<le> length s"
  by (auto simp: ps_skip_def split: if_splits)

section \<open>The OTB container\<close>

definition otb_ESCAPE :: byte where "otb_ESCAPE = 0xFD"
definition otb_START :: byte where "otb_START = 0xFE"
definition otb_END :: byte where "otb_END = 0xFF"

lemmas otb_chars = otb_ESCAPE_def otb_START_def otb_END_def

text \<open>The iterators of a node are offsets in the file.\<close>

datatype otb_node = Node (node_type: byte) (propsBegin: nat) (propsEnd: nat) (children: "otb_node list")

datatype load_error = InvalidOTBFormat

type_synonym 'a load_result = "load_error + 'a"

definition open_loader :: "byte list \<Rightarrow> byte list \<Rightarrow> byte list load_result" where
  \<comment> \<open>the constructor of \<open>Loader\<close>: the file's content, or the exception\<close>
  "open_loader acceptedIdentifier contents =
     (if length contents \<le> 7 then Inl InvalidOTBFormat
      else
        let fileIdentifier = take 4 contents
        in if fileIdentifier \<noteq> acceptedIdentifier \<and> fileIdentifier \<noteq> [0, 0, 0, 0]
           then Inl InvalidOTBFormat else Inr contents)"

text \<open>
  A node that is still open: the stack holds the path from the current node to the root. In the
  source the child is in its parent's vector as soon as it is opened; here it joins it when it is
  closed, which cannot be told apart while the child is on top of the stack.
\<close>

record open_node =
  on_type :: byte
  on_begin :: nat
  on_end :: nat
  on_children :: "otb_node list"

definition close_node :: "open_node \<Rightarrow> otb_node" where
  "close_node n = Node (on_type n) (on_begin n) (on_end n) (on_children n)"

definition mark_end :: "nat \<Rightarrow> open_node \<Rightarrow> open_node" where
  \<comment> \<open>\<open>if (currentNode.children.empty()) currentNode.propsEnd = it\<close>\<close>
  "mark_end it n = (if on_children n = [] then n\<lparr>on_end := it\<rparr> else n)"

definition attach :: "open_node \<Rightarrow> open_node list \<Rightarrow> otb_node option \<Rightarrow> open_node list \<times> otb_node option" where
  "attach n parseStack root =
     (case parseStack of
        [] \<Rightarrow> ([], Some (close_node n))
      | parent # up \<Rightarrow> (parent\<lparr>on_children := on_children parent @ [close_node n]\<rparr> # up, root))"

function parse_loop ::
  "byte list \<Rightarrow> nat \<Rightarrow> open_node list \<Rightarrow> otb_node option \<Rightarrow> (open_node list \<times> otb_node option) load_result" where
  "parse_loop contents it parseStack root =
     (if it \<ge> length contents then Inr (parseStack, root)
      else if contents ! it = otb_START then
        (case parseStack of
           [] \<Rightarrow> Inl InvalidOTBFormat
         | currentNode # up \<Rightarrow>
             if it + 1 \<ge> length contents then Inl InvalidOTBFormat
             else
               let child = \<lparr>on_type = contents ! (it + 1), on_begin = it + 2, on_end = 0, on_children = []\<rparr>
               in parse_loop contents (it + 2) (child # mark_end it currentNode # up) root)
      else if contents ! it = otb_END then
        (case parseStack of
           [] \<Rightarrow> Inl InvalidOTBFormat
         | currentNode # up \<Rightarrow>
             let (parseStack', root') = attach (mark_end it currentNode) up root
             in parse_loop contents (it + 1) parseStack' root')
      else if contents ! it = otb_ESCAPE then
        (if it + 1 \<ge> length contents then Inl InvalidOTBFormat
         else parse_loop contents (it + 2) parseStack root)
      else parse_loop contents (it + 1) parseStack root)"
  by pat_completeness auto
termination
  by (relation "measure (\<lambda>(contents, it, _). length contents - it)") auto

declare parse_loop.simps [simp del]

definition parseTree :: "byte list \<Rightarrow> otb_node load_result" where
  "parseTree contents =
     (if contents ! 4 \<noteq> otb_START then Inl InvalidOTBFormat
      else
        case parse_loop contents 6
               [\<lparr>on_type = contents ! 5, on_begin = 6, on_end = 0, on_children = []\<rparr>] None of
          Inl e \<Rightarrow> Inl e
        | Inr (parseStack, root) \<Rightarrow>
            if parseStack \<noteq> [] then Inl InvalidOTBFormat
            else (case root of None \<Rightarrow> Inl InvalidOTBFormat | Some n \<Rightarrow> Inr n))"

fun unescape :: "bool \<Rightarrow> byte list \<Rightarrow> byte list" where
  "unescape lastEscaped [] = []"
| "unescape lastEscaped (b # bs) =
     (let lastEscaped' = (b = otb_ESCAPE \<and> \<not> lastEscaped)
      in if \<not> lastEscaped' then b # unescape lastEscaped' bs else unescape lastEscaped' bs)"

definition getProps :: "byte list \<Rightarrow> otb_node \<Rightarrow> prop_stream option" where
  "getProps contents n =
     (let sz = propsEnd n - propsBegin n
      in if sz = 0 then None
         else Some (unescape False (take sz (drop (propsBegin n) contents))))"

section \<open>Writing such a file\<close>

text \<open>The format the loader reads: what a tree of typed property blocks looks like in a file.\<close>

datatype otb = Otb byte "byte list" "otb list"

fun escape :: "byte list \<Rightarrow> byte list" where
  "escape [] = []"
| "escape (b # bs) = (if b \<in> {otb_ESCAPE, otb_START, otb_END} then [otb_ESCAPE, b] else [b]) @ escape bs"

fun encode_otb :: "otb \<Rightarrow> byte list" where
  "encode_otb (Otb t ps cs) = otb_START # t # escape ps @ concat (map encode_otb cs) @ [otb_END]"

fun decode_otb :: "byte list \<Rightarrow> otb_node \<Rightarrow> otb" where
  "decode_otb contents (Node t b e cs) =
     Otb t (case getProps contents (Node t b e cs) of None \<Rightarrow> [] | Some ps \<Rightarrow> ps)
       (map (decode_otb contents) cs)"

lemma unescape_escape [simp]: "unescape False (escape bs) = bs"
  by (induction bs) (auto simp: otb_chars)

lemma escape_eq_Nil [simp]: "escape bs = [] \<longleftrightarrow> bs = []"
  by (cases bs) auto

text \<open>The loop passes over escaped properties.\<close>

lemma parse_loop_escape:
  "contents = pre @ escape ps @ post \<Longrightarrow>
     parse_loop contents (length pre) st root = parse_loop contents (length pre + length (escape ps)) st root"
proof (induction ps arbitrary: pre)
  case Nil
  then show ?case by simp
next
  case (Cons b ps)
  show ?case
  proof (cases "b \<in> {otb_ESCAPE, otb_START, otb_END}")
    case True
    have c: "contents = (pre @ [otb_ESCAPE, b]) @ escape ps @ post" using Cons.prems True by simp
    from Cons.IH [OF c] show ?thesis
      using c True by (subst parse_loop.simps) (auto simp: otb_chars nth_append)
  next
    case False
    have c: "contents = (pre @ [b]) @ escape ps @ post" using Cons.prems False by simp
    from Cons.IH [OF c] show ?thesis
      using c False by (subst parse_loop.simps) (auto simp: nth_append)
  qed
qed

text \<open>Where the nodes of an encoded tree end up.\<close>

fun locate :: "nat \<Rightarrow> otb \<Rightarrow> otb_node" and locates :: "nat \<Rightarrow> otb list \<Rightarrow> otb_node list" where
  "locate p (Otb t ps cs) =
     Node t (p + 2) (p + 2 + length (escape ps)) (locates (p + 2 + length (escape ps)) cs)"
| "locates p [] = []"
| "locates p (c # cs) = locate p c # locates (p + length (encode_otb c)) cs"

lemma mark_end_simps [simp]:
  "on_type (mark_end it n) = on_type n" "on_begin (mark_end it n) = on_begin n"
  "on_children (mark_end it n) = on_children n"
  "on_end (mark_end it n) = (if on_children n = [] then it else on_end n)"
  by (simp_all add: mark_end_def)

definition add_children :: "nat \<Rightarrow> otb_node list \<Rightarrow> open_node \<Rightarrow> open_node" where
  "add_children it cs n = (if cs = [] then n else (mark_end it n)\<lparr>on_children := on_children n @ cs\<rparr>)"

lemma add_children_Nil [simp]: "add_children it [] n = n"
  by (simp add: add_children_def)

lemma add_children_Cons:
  "add_children it (c # cs) n = add_children it' cs (add_children it [c] n)"
  by (simp add: add_children_def mark_end_def)

text \<open>One encoded node is read as one child of the current node.\<close>

definition reads_as_child :: "otb \<Rightarrow> bool" where
  "reads_as_child t \<longleftrightarrow>
     (\<forall>contents pre post n up root. contents = pre @ encode_otb t @ post \<longrightarrow>
        parse_loop contents (length pre) (n # up) root =
        parse_loop contents (length pre + length (encode_otb t))
          (add_children (length pre) [locate (length pre) t] n # up) root)"

lemma parse_loop_children:
  "list_all reads_as_child cs \<Longrightarrow> contents = pre @ concat (map encode_otb cs) @ post \<Longrightarrow>
     parse_loop contents (length pre) (n # up) root =
     parse_loop contents (length pre + length (concat (map encode_otb cs)))
       (add_children (length pre) (locates (length pre) cs) n # up) root"
proof (induction cs arbitrary: pre n)
  case Nil
  then show ?case by simp
next
  case (Cons c cs)
  let ?p = "pre @ encode_otb c"
  let ?n = "add_children (length pre) [locate (length pre) c] n"
  have split: "contents = pre @ encode_otb c @ (concat (map encode_otb cs) @ post)"
    using Cons.prems(2) by simp
  from Cons.prems(1) have "reads_as_child c" by simp
  then have "parse_loop contents (length pre) (n # up) root
      = parse_loop contents (length pre + length (encode_otb c)) (?n # up) root"
    using split unfolding reads_as_child_def by blast
  also have "\<dots> = parse_loop contents (length ?p + length (concat (map encode_otb cs)))
      (add_children (length ?p) (locates (length ?p) cs) ?n # up) root"
    using Cons.IH [of ?p ?n] Cons.prems split by simp
  also have "add_children (length ?p) (locates (length ?p) cs) ?n
      = add_children (length pre) (locate (length pre) c # locates (length ?p) cs) n"
    by (rule add_children_Cons [symmetric])
  finally show ?case by (simp add: add.assoc)
qed

definition finished :: "byte \<Rightarrow> nat \<Rightarrow> byte list \<Rightarrow> otb list \<Rightarrow> open_node" where
  "finished t p ps cs = \<lparr>on_type = t, on_begin = p, on_end = p + length (escape ps),
     on_children = locates (p + length (escape ps)) cs\<rparr>"

lemma parse_loop_body:
  assumes kids: "list_all reads_as_child cs"
    and contents: "contents = pre @ escape ps @ concat (map encode_otb cs) @ otb_END # post"
  shows "parse_loop contents (length pre)
           (\<lparr>on_type = t, on_begin = length pre, on_end = e, on_children = []\<rparr> # up) root =
         (let (st, r) = attach (finished t (length pre) ps cs) up root
          in parse_loop contents
               (length pre + length (escape ps) + length (concat (map encode_otb cs)) + 1) st r)"
proof -
  let ?n = "\<lparr>on_type = t, on_begin = length pre, on_end = e, on_children = []\<rparr>"
  let ?q = "pre @ escape ps" and ?cs = "concat (map encode_otb cs)"
  let ?m = "add_children (length ?q) (locates (length ?q) cs) ?n"
  have "parse_loop contents (length pre) (?n # up) root = parse_loop contents (length ?q) (?n # up) root"
    using parse_loop_escape [of contents pre ps "?cs @ otb_END # post"] contents by simp
  also have "\<dots> = parse_loop contents (length ?q + length ?cs) (?m # up) root"
    using parse_loop_children [OF kids, of contents ?q] contents by simp
  also have "\<dots> = (let (st, r) = attach (mark_end (length ?q + length ?cs) ?m) up root
      in parse_loop contents (length ?q + length ?cs + 1) st r)"
    using contents by (subst parse_loop.simps) (simp add: nth_append otb_chars)
  also have "mark_end (length ?q + length ?cs) ?m = finished t (length pre) ps cs"
    by (cases cs) (simp_all add: finished_def add_children_def mark_end_def)
  finally show ?thesis by (simp add: add.assoc)
qed

lemma reads_as_child_all: "reads_as_child t"
proof (induction t)
  case (Otb t ps cs)
  then have kids: "list_all reads_as_child cs" by (simp add: list_all_iff)
  show ?case
    unfolding reads_as_child_def
  proof (intro allI impI)
    fix contents pre post :: "byte list" and n up root
    assume contents: "contents = pre @ encode_otb (Otb t ps cs) @ post"
    let ?pre = "pre @ [otb_START, t]"
    have "parse_loop contents (length pre) (n # up) root =
        parse_loop contents (length ?pre)
          (\<lparr>on_type = t, on_begin = length ?pre, on_end = 0, on_children = []\<rparr> #
           mark_end (length pre) n # up) root"
      using contents by (subst parse_loop.simps) (simp add: nth_append otb_chars Let_def)
    also have "\<dots> = parse_loop contents (length pre + length (encode_otb (Otb t ps cs)))
        (add_children (length pre) [locate (length pre) (Otb t ps cs)] n # up) root"
      using parse_loop_body [OF kids, of contents ?pre ps post] contents
      by (simp add: attach_def finished_def close_node_def add_children_def add.assoc)
    finally show "parse_loop contents (length pre) (n # up) root =
        parse_loop contents (length pre + length (encode_otb (Otb t ps cs)))
          (add_children (length pre) [locate (length pre) (Otb t ps cs)] n # up) root" .
  qed
qed

lemma parseTree_encode:
  assumes "length ident = 4"
  shows "parseTree (ident @ encode_otb t) = Inr (locate 4 t)"
proof -
  obtain ty ps cs where t: "t = Otb ty ps cs" by (cases t)
  let ?c = "ident @ encode_otb t" and ?pre = "ident @ [otb_START, ty]"
  have kids: "list_all reads_as_child cs" by (simp add: list_all_iff reads_as_child_all)
  have "?c ! 4 = otb_START" and "?c ! 5 = ty" using assms by (simp_all add: t nth_append)
  moreover have "parse_loop ?c 6 [\<lparr>on_type = ty, on_begin = 6, on_end = 0, on_children = []\<rparr>] None
      = Inr ([], Some (locate 4 t))"
    using parse_loop_body [OF kids, of ?c ?pre ps "[]" ty 0 "[]" None] assms
    by (simp add: t attach_def finished_def close_node_def) (subst parse_loop.simps, simp)
  ultimately show ?thesis by (simp add: parseTree_def)
qed

text \<open>The properties are found again where the nodes are.\<close>

lemma decode_locate: "contents = pre @ encode_otb t @ post \<Longrightarrow> decode_otb contents (locate (length pre) t) = t"
proof (induction t arbitrary: pre post)
  case (Otb ty ps cs)
  let ?q = "pre @ otb_START # ty # escape ps"
  have kids: "list_all (\<lambda>c. \<forall>pre post. contents = pre @ encode_otb c @ post \<longrightarrow>
      decode_otb contents (locate (length pre) c) = c) cs"
    using Otb.IH by (auto simp: list_all_iff)
  have "map (decode_otb contents) (locates (length q) ds) = ds"
    if "contents = q @ concat (map encode_otb ds) @ r" and
      "list_all (\<lambda>c. \<forall>pre post. contents = pre @ encode_otb c @ post \<longrightarrow>
         decode_otb contents (locate (length pre) c) = c) ds" for q r ds
    using that
  proof (induction ds arbitrary: q)
    case (Cons d ds)
    with Cons.IH [of "q @ encode_otb d"] show ?case by simp
  qed simp
  from this [of ?q cs "otb_END # post"] Otb.prems kids
  show ?case by (simp add: getProps_def Let_def)
qed

section \<open>Properties\<close>

text \<open>
  C9: a tree of nodes written in the OTB format is read back: the loader accepts the file, and the
  nodes it finds have the types, the properties (unescaped) and the children that were written,
  whatever bytes the properties hold. Only the smallest tree, a root with nothing in it, is refused.
\<close>

theorem otb_roundtrip:
  assumes "length ident = 4" and "length (encode_otb t) > 3"
  shows "\<exists>root. open_loader ident (ident @ encode_otb t) = Inr (ident @ encode_otb t) \<and>
           parseTree (ident @ encode_otb t) = Inr root \<and>
           decode_otb (ident @ encode_otb t) root = t"
  using parseTree_encode [OF assms(1), of t] decode_locate [of "ident @ encode_otb t" ident t "[]"] assms
  by (auto simp: open_loader_def Let_def)

theorem otb_roundtrip_witness:
  "\<exists>root. open_loader [79, 84, 66, 73]
        ([79, 84, 66, 73] @ encode_otb (Otb 0 [0xFE, 1] [Otb 1 [0xFD, 0xFF] [], Otb 2 [] []])) =
      Inr ([79, 84, 66, 73] @ encode_otb (Otb 0 [0xFE, 1] [Otb 1 [0xFD, 0xFF] [], Otb 2 [] []])) \<and>
    parseTree ([79, 84, 66, 73] @ encode_otb (Otb 0 [0xFE, 1] [Otb 1 [0xFD, 0xFF] [], Otb 2 [] []])) = Inr root \<and>
    decode_otb ([79, 84, 66, 73] @ encode_otb (Otb 0 [0xFE, 1] [Otb 1 [0xFD, 0xFF] [], Otb 2 [] []])) root =
      Otb 0 [0xFE, 1] [Otb 1 [0xFD, 0xFF] [], Otb 2 [] []]"
  using otb_roundtrip [of "[79, 84, 66, 73]" "Otb 0 [0xFE, 1] [Otb 1 [0xFD, 0xFF] [], Otb 2 [] []]"] by simp

end
