(* ===== verification/Condition.thy ===== *)
theory Condition
  imports PropStream
begin

text \<open>
  \<open>condition.h\<close> and \<open>condition.cpp\<close>: the conditions of a creature (burning, haste, regeneration, ...).
  This theory holds their data and their creation. The class hierarchy is a
  record of the common fields and a \<open>kind\<close> with the fields of the subclass. 32-bit integers are
  words, read signed where the source declares them signed.
\<close>

section \<open>Constants\<close>

type_synonym i32 = "32 word"

definition CONDITION_POISON :: u32 where "CONDITION_POISON = 0x1"
definition CONDITION_FIRE :: u32 where "CONDITION_FIRE = 0x2"
definition CONDITION_ENERGY :: u32 where "CONDITION_ENERGY = 0x4"
definition CONDITION_BLEEDING :: u32 where "CONDITION_BLEEDING = 0x8"
definition CONDITION_HASTE :: u32 where "CONDITION_HASTE = 0x10"
definition CONDITION_PARALYZE :: u32 where "CONDITION_PARALYZE = 0x20"
definition CONDITION_OUTFIT :: u32 where "CONDITION_OUTFIT = 0x40"
definition CONDITION_INVISIBLE :: u32 where "CONDITION_INVISIBLE = 0x80"
definition CONDITION_LIGHT :: u32 where "CONDITION_LIGHT = 0x100"
definition CONDITION_MANASHIELD :: u32 where "CONDITION_MANASHIELD = 0x200"
definition CONDITION_INFIGHT :: u32 where "CONDITION_INFIGHT = 0x400"
definition CONDITION_DRUNK :: u32 where "CONDITION_DRUNK = 0x800"
definition CONDITION_EXHAUST_WEAPON :: u32 where "CONDITION_EXHAUST_WEAPON = 0x1000"
definition CONDITION_REGENERATION :: u32 where "CONDITION_REGENERATION = 0x2000"
definition CONDITION_SOUL :: u32 where "CONDITION_SOUL = 0x4000"
definition CONDITION_DROWN :: u32 where "CONDITION_DROWN = 0x8000"
definition CONDITION_MUTED :: u32 where "CONDITION_MUTED = 0x10000"
definition CONDITION_CHANNELMUTEDTICKS :: u32 where "CONDITION_CHANNELMUTEDTICKS = 0x20000"
definition CONDITION_YELLTICKS :: u32 where "CONDITION_YELLTICKS = 0x40000"
definition CONDITION_ATTRIBUTES :: u32 where "CONDITION_ATTRIBUTES = 0x80000"
definition CONDITION_FREEZING :: u32 where "CONDITION_FREEZING = 0x100000"
definition CONDITION_DAZZLED :: u32 where "CONDITION_DAZZLED = 0x200000"
definition CONDITION_CURSED :: u32 where "CONDITION_CURSED = 0x400000"
definition CONDITION_EXHAUST_COMBAT :: u32 where "CONDITION_EXHAUST_COMBAT = 0x800000"
definition CONDITION_EXHAUST_HEAL :: u32 where "CONDITION_EXHAUST_HEAL = 0x1000000"
definition CONDITION_PACIFIED :: u32 where "CONDITION_PACIFIED = 0x2000000"

lemmas condition_type_defs = CONDITION_POISON_def CONDITION_FIRE_def CONDITION_ENERGY_def
  CONDITION_BLEEDING_def CONDITION_HASTE_def CONDITION_PARALYZE_def CONDITION_OUTFIT_def
  CONDITION_INVISIBLE_def CONDITION_LIGHT_def CONDITION_MANASHIELD_def CONDITION_INFIGHT_def
  CONDITION_DRUNK_def CONDITION_EXHAUST_WEAPON_def CONDITION_REGENERATION_def CONDITION_SOUL_def
  CONDITION_DROWN_def CONDITION_MUTED_def CONDITION_CHANNELMUTEDTICKS_def CONDITION_YELLTICKS_def
  CONDITION_ATTRIBUTES_def CONDITION_FREEZING_def CONDITION_DAZZLED_def CONDITION_CURSED_def
  CONDITION_EXHAUST_COMBAT_def CONDITION_EXHAUST_HEAL_def CONDITION_PACIFIED_def

text \<open>\<open>ConditionId_t\<close> is an \<open>int8_t\<close>.\<close>

definition CONDITIONID_DEFAULT :: "8 word" where "CONDITIONID_DEFAULT = - 1"
definition CONDITIONID_COMBAT :: "8 word" where "CONDITIONID_COMBAT = 0"

text \<open>The tags of the stored attributes (\<open>ConditionAttr_t\<close>).\<close>

definition ATTR_TYPE :: u8 where "ATTR_TYPE = 1"
definition ATTR_ID :: u8 where "ATTR_ID = 2"
definition ATTR_TICKS :: u8 where "ATTR_TICKS = 3"
definition ATTR_HEALTHTICKS :: u8 where "ATTR_HEALTHTICKS = 4"
definition ATTR_HEALTHGAIN :: u8 where "ATTR_HEALTHGAIN = 5"
definition ATTR_MANATICKS :: u8 where "ATTR_MANATICKS = 6"
definition ATTR_MANAGAIN :: u8 where "ATTR_MANAGAIN = 7"
definition ATTR_DELAYED :: u8 where "ATTR_DELAYED = 8"
definition ATTR_OWNER :: u8 where "ATTR_OWNER = 9"
definition ATTR_INTERVALDATA :: u8 where "ATTR_INTERVALDATA = 10"
definition ATTR_SPEEDDELTA :: u8 where "ATTR_SPEEDDELTA = 11"
definition ATTR_FORMULA_MINA :: u8 where "ATTR_FORMULA_MINA = 12"
definition ATTR_FORMULA_MINB :: u8 where "ATTR_FORMULA_MINB = 13"
definition ATTR_FORMULA_MAXA :: u8 where "ATTR_FORMULA_MAXA = 14"
definition ATTR_FORMULA_MAXB :: u8 where "ATTR_FORMULA_MAXB = 15"
definition ATTR_LIGHTCOLOR :: u8 where "ATTR_LIGHTCOLOR = 16"
definition ATTR_LIGHTLEVEL :: u8 where "ATTR_LIGHTLEVEL = 17"
definition ATTR_LIGHTTICKS :: u8 where "ATTR_LIGHTTICKS = 18"
definition ATTR_LIGHTINTERVAL :: u8 where "ATTR_LIGHTINTERVAL = 19"
definition ATTR_SOULTICKS :: u8 where "ATTR_SOULTICKS = 20"
definition ATTR_SOULGAIN :: u8 where "ATTR_SOULGAIN = 21"
definition ATTR_SKILLS :: u8 where "ATTR_SKILLS = 22"
definition ATTR_STATS :: u8 where "ATTR_STATS = 23"
definition ATTR_OUTFIT :: u8 where "ATTR_OUTFIT = 24"
definition ATTR_PERIODDAMAGE :: u8 where "ATTR_PERIODDAMAGE = 25"
definition ATTR_ISBUFF :: u8 where "ATTR_ISBUFF = 26"
definition ATTR_SUBID :: u8 where "ATTR_SUBID = 27"
definition ATTR_END :: u8 where "ATTR_END = 254"

lemmas attr_defs = ATTR_TYPE_def ATTR_ID_def ATTR_TICKS_def ATTR_HEALTHTICKS_def ATTR_HEALTHGAIN_def
  ATTR_MANATICKS_def ATTR_MANAGAIN_def ATTR_DELAYED_def ATTR_OWNER_def ATTR_INTERVALDATA_def
  ATTR_SPEEDDELTA_def ATTR_FORMULA_MINA_def ATTR_FORMULA_MINB_def ATTR_FORMULA_MAXA_def
  ATTR_FORMULA_MAXB_def ATTR_LIGHTCOLOR_def ATTR_LIGHTLEVEL_def ATTR_LIGHTTICKS_def
  ATTR_LIGHTINTERVAL_def ATTR_SOULTICKS_def ATTR_SOULGAIN_def ATTR_SKILLS_def ATTR_STATS_def
  ATTR_OUTFIT_def ATTR_PERIODDAMAGE_def ATTR_ISBUFF_def ATTR_SUBID_def ATTR_END_def

section \<open>Data\<close>

record attributes_data =
  skills :: "i32 list"          \<comment> \<open>\<open>SKILL_FIRST .. SKILL_LAST\<close>: fist, club, sword, axe, distance, shield, fishing\<close>
  skillsPercent :: "i32 list"
  stats :: "i32 list"           \<comment> \<open>hit points, mana points, soul points, magic points\<close>
  statsPercent :: "i32 list"
  currentSkill :: nat
  currentStat :: nat
  array_overrun :: bool         \<comment> \<open>a stored attribute has been read past one of the arrays\<close>

record regeneration_data =
  internalHealthTicks :: u32
  internalManaTicks :: u32
  healthTicks :: u32
  manaTicks :: u32
  healthGain :: u32
  manaGain :: u32

record soul_data =
  internalSoulTicks :: u32
  soulTicks :: u32
  soulGain :: u32

record interval_info =
  timeLeft :: i32
  iv_value :: i32
  iv_interval :: i32

record damage_data =
  maxDamage :: i32
  minDamage :: i32
  startDamage :: i32
  periodDamage :: i32
  periodDamageTick :: i32
  tickInterval :: i32
  forceUpdate :: bool
  delayed :: bool
  dmg_field :: bool
  dmg_owner :: u32
  damageList :: "interval_info list"

record speed_data =
  speedDelta :: i32
  mina :: u32                   \<comment> \<open>the four floats, as their bits\<close>
  minb :: u32
  maxa :: u32
  maxb :: u32

record outfit_data =
  lookType :: u16
  lookTypeEx :: u16
  lookMount :: u16
  lookHead :: u8
  lookBody :: u8
  lookLegs :: u8
  lookFeet :: u8
  lookAddons :: u8
  lookPadding :: u8             \<comment> \<open>the padding byte of the 12-byte structure\<close>

record light_data =
  light_level :: u8
  light_color :: u8
  internalLightTicks :: u32
  lightChangeInterval :: u32

datatype cond_kind =
    Generic
  | Attributes attributes_data
  | Regeneration regeneration_data
  | Soul soul_data
  | Invisible
  | Damage damage_data
  | Speed speed_data
  | Outfit outfit_data
  | Light light_data

record condition =
  endTime :: int
  subId :: u32
  ticks :: i32
  conditionType :: u32
  cond_id :: "8 word"
  isBuff :: bool
  kind :: cond_kind

definition INT64_MAX :: int where "INT64_MAX = 2 ^ 63 - 1"

definition new_condition :: "8 word \<Rightarrow> u32 \<Rightarrow> i32 \<Rightarrow> bool \<Rightarrow> u32 \<Rightarrow> cond_kind \<Rightarrow> condition" where
  "new_condition i t n buff sub k =
     \<lparr>endTime = (if n = - 1 then INT64_MAX else 0), subId = sub, ticks = n, conditionType = t,
      cond_id = i, isBuff = buff, kind = k\<rparr>"

definition new_attributes :: attributes_data where
  "new_attributes = \<lparr>skills = replicate 7 0, skillsPercent = replicate 7 0, stats = replicate 4 0,
     statsPercent = replicate 4 0, currentSkill = 0, currentStat = 0, array_overrun = False\<rparr>"

definition new_regeneration :: regeneration_data where
  "new_regeneration = \<lparr>internalHealthTicks = 0, internalManaTicks = 0, healthTicks = 1000,
     manaTicks = 1000, healthGain = 0, manaGain = 0\<rparr>"

definition new_soul :: soul_data where
  "new_soul = \<lparr>internalSoulTicks = 0, soulTicks = 0, soulGain = 0\<rparr>"

definition new_damage :: damage_data where
  "new_damage = \<lparr>maxDamage = 0, minDamage = 0, startDamage = 0, periodDamage = 0, periodDamageTick = 0,
     tickInterval = 2000, forceUpdate = False, delayed = False, dmg_field = False, dmg_owner = 0,
     damageList = []\<rparr>"

definition new_outfit :: outfit_data where
  "new_outfit = \<lparr>lookType = 0, lookTypeEx = 0, lookMount = 0, lookHead = 0, lookBody = 0, lookLegs = 0,
     lookFeet = 0, lookAddons = 0, lookPadding = 0\<rparr>"

section \<open>Creation\<close>

definition createCondition :: "8 word \<Rightarrow> u32 \<Rightarrow> i32 \<Rightarrow> i32 \<Rightarrow> bool \<Rightarrow> u32 \<Rightarrow> condition option" where
  "createCondition i t n param buff sub =
     (if t \<in> {CONDITION_POISON, CONDITION_FIRE, CONDITION_ENERGY, CONDITION_DROWN, CONDITION_FREEZING,
              CONDITION_DAZZLED, CONDITION_CURSED, CONDITION_BLEEDING}
      then Some (new_condition i t 0 buff sub (Damage new_damage))
      else if t \<in> {CONDITION_HASTE, CONDITION_PARALYZE}
      then Some (new_condition i t n buff sub
                   (Speed \<lparr>speedDelta = param, mina = 0, minb = 0, maxa = 0, maxb = 0\<rparr>))
      else if t = CONDITION_INVISIBLE then Some (new_condition i t n buff sub Invisible)
      else if t = CONDITION_OUTFIT then Some (new_condition i t n buff sub (Outfit new_outfit))
      else if t = CONDITION_LIGHT
      then Some (new_condition i t n buff sub
                   (Light \<lparr>light_level = ucast (param AND 0xFF),
                           light_color = ucast (drop_bit 8 (param AND 0xFF00)),
                           internalLightTicks = 0, lightChangeInterval = 0\<rparr>))
      else if t = CONDITION_REGENERATION
      then Some (new_condition i t n buff sub (Regeneration new_regeneration))
      else if t = CONDITION_SOUL then Some (new_condition i t n buff sub (Soul new_soul))
      else if t = CONDITION_ATTRIBUTES
      then Some (new_condition i t n buff sub (Attributes new_attributes))
      else if t \<in> {CONDITION_INFIGHT, CONDITION_DRUNK, CONDITION_EXHAUST_WEAPON, CONDITION_EXHAUST_COMBAT,
                   CONDITION_EXHAUST_HEAL, CONDITION_MUTED, CONDITION_CHANNELMUTEDTICKS,
                   CONDITION_YELLTICKS, CONDITION_PACIFIED, CONDITION_MANASHIELD}
      then Some (new_condition i t n buff sub Generic)
      else None)"

definition isPersistent :: "condition \<Rightarrow> bool" where
  "isPersistent c \<longleftrightarrow>
     (if ticks c = - 1 then False
      else if \<not> (cond_id c = CONDITIONID_DEFAULT \<or> cond_id c = CONDITIONID_COMBAT) then False
      else True)"

end
