(* ===== verification/ConditionParam.thy ===== *)
theory ConditionParam
  imports Condition
begin

text \<open>
  \<open>Condition::setParam\<close> and its overrides: how scripts and spells fill in a condition.
\<close>

section \<open>Parameters\<close>

datatype condition_param =
    PARAM_OWNER | PARAM_TICKS | PARAM_HEALTHGAIN | PARAM_HEALTHTICKS | PARAM_MANAGAIN
  | PARAM_MANATICKS | PARAM_DELAYED | PARAM_SPEED | PARAM_LIGHT_LEVEL | PARAM_LIGHT_COLOR
  | PARAM_SOULGAIN | PARAM_SOULTICKS | PARAM_MINVALUE | PARAM_MAXVALUE | PARAM_STARTVALUE
  | PARAM_TICKINTERVAL | PARAM_FORCEUPDATE | PARAM_SKILL_MELEE | PARAM_SKILL_FIST
  | PARAM_SKILL_CLUB | PARAM_SKILL_SWORD | PARAM_SKILL_AXE | PARAM_SKILL_DISTANCE
  | PARAM_SKILL_SHIELD | PARAM_SKILL_FISHING | PARAM_STAT_MAXHITPOINTS | PARAM_STAT_MAXMANAPOINTS
  | PARAM_STAT_MAGICPOINTS | PARAM_STAT_MAXHITPOINTSPERCENT | PARAM_STAT_MAXMANAPOINTSPERCENT
  | PARAM_STAT_MAGICPOINTSPERCENT | PARAM_PERIODICDAMAGE | PARAM_SKILL_MELEEPERCENT
  | PARAM_SKILL_FISTPERCENT | PARAM_SKILL_CLUBPERCENT | PARAM_SKILL_SWORDPERCENT
  | PARAM_SKILL_AXEPERCENT | PARAM_SKILL_DISTANCEPERCENT | PARAM_SKILL_SHIELDPERCENT
  | PARAM_SKILL_FISHINGPERCENT | PARAM_BUFF_SPELL | PARAM_SUBID | PARAM_FIELD

definition abs32 :: "i32 \<Rightarrow> i32" where "abs32 v = (if sint v < 0 then - v else v)"

definition max0 :: "i32 \<Rightarrow> i32" where "max0 v = (if sint v < 0 then 0 else v)"

definition setParam_base :: "condition_param \<Rightarrow> i32 \<Rightarrow> condition \<Rightarrow> bool \<times> condition" where
  "setParam_base param v c =
     (if param = PARAM_TICKS then (True, c\<lparr>ticks := v\<rparr>)
      else if param = PARAM_BUFF_SPELL then (True, c\<lparr>isBuff := (v \<noteq> 0)\<rparr>)
      else if param = PARAM_SUBID then (True, c\<lparr>subId := v\<rparr>)
      else (False, c))"

text \<open>The subclasses' switches: \<open>None\<close> is their \<open>default\<close> branch.\<close>

definition set_skill :: "nat \<Rightarrow> i32 \<Rightarrow> attributes_data \<Rightarrow> attributes_data" where
  "set_skill i v a = a\<lparr>skills := (skills a)[i := v]\<rparr>"

definition set_skill_percent :: "nat \<Rightarrow> i32 \<Rightarrow> attributes_data \<Rightarrow> attributes_data" where
  "set_skill_percent i v a = a\<lparr>skillsPercent := (skillsPercent a)[i := v]\<rparr>"

definition set_stat :: "nat \<Rightarrow> i32 \<Rightarrow> attributes_data \<Rightarrow> attributes_data" where
  "set_stat i v a = a\<lparr>stats := (stats a)[i := v]\<rparr>"

definition set_stat_percent :: "nat \<Rightarrow> i32 \<Rightarrow> attributes_data \<Rightarrow> attributes_data" where
  "set_stat_percent i v a = a\<lparr>statsPercent := (statsPercent a)[i := max0 v]\<rparr>"

definition setParam_attributes :: "condition_param \<Rightarrow> i32 \<Rightarrow> attributes_data \<Rightarrow> attributes_data option" where
  "setParam_attributes param v a =
     (if param = PARAM_SKILL_MELEE then Some (set_skill 2 v (set_skill 3 v (set_skill 1 v a)))
      else if param = PARAM_SKILL_MELEEPERCENT then Some (set_skill_percent 2 v (set_skill_percent 3 v (set_skill_percent 1 v a)))
      else if param = PARAM_SKILL_FIST then Some (set_skill 0 v a)
      else if param = PARAM_SKILL_FISTPERCENT then Some (set_skill_percent 0 v a)
      else if param = PARAM_SKILL_CLUB then Some (set_skill 1 v a)
      else if param = PARAM_SKILL_CLUBPERCENT then Some (set_skill_percent 1 v a)
      else if param = PARAM_SKILL_SWORD then Some (set_skill 2 v a)
      else if param = PARAM_SKILL_SWORDPERCENT then Some (set_skill_percent 2 v a)
      else if param = PARAM_SKILL_AXE then Some (set_skill 3 v a)
      else if param = PARAM_SKILL_AXEPERCENT then Some (set_skill_percent 3 v a)
      else if param = PARAM_SKILL_DISTANCE then Some (set_skill 4 v a)
      else if param = PARAM_SKILL_DISTANCEPERCENT then Some (set_skill_percent 4 v a)
      else if param = PARAM_SKILL_SHIELD then Some (set_skill 5 v a)
      else if param = PARAM_SKILL_SHIELDPERCENT then Some (set_skill_percent 5 v a)
      else if param = PARAM_SKILL_FISHING then Some (set_skill 6 v a)
      else if param = PARAM_SKILL_FISHINGPERCENT then Some (set_skill_percent 6 v a)
      else if param = PARAM_STAT_MAXHITPOINTS then Some (set_stat 0 v a)
      else if param = PARAM_STAT_MAXMANAPOINTS then Some (set_stat 1 v a)
      else if param = PARAM_STAT_MAGICPOINTS then Some (set_stat 3 v a)
      else if param = PARAM_STAT_MAXHITPOINTSPERCENT then Some (set_stat_percent 0 v a)
      else if param = PARAM_STAT_MAXMANAPOINTSPERCENT then Some (set_stat_percent 1 v a)
      else if param = PARAM_STAT_MAGICPOINTSPERCENT then Some (set_stat_percent 3 v a)
      else None)"

definition setParam_regeneration :: "condition_param \<Rightarrow> i32 \<Rightarrow> regeneration_data \<Rightarrow> regeneration_data option" where
  "setParam_regeneration param v r =
     (if param = PARAM_HEALTHGAIN then Some (r\<lparr>healthGain := v\<rparr>)
      else if param = PARAM_HEALTHTICKS then Some (r\<lparr>healthTicks := v\<rparr>)
      else if param = PARAM_MANAGAIN then Some (r\<lparr>manaGain := v\<rparr>)
      else if param = PARAM_MANATICKS then Some (r\<lparr>manaTicks := v\<rparr>)
      else None)"

definition setParam_soul :: "condition_param \<Rightarrow> i32 \<Rightarrow> soul_data \<Rightarrow> soul_data option" where
  "setParam_soul param v r =
     (if param = PARAM_SOULGAIN then Some (r\<lparr>soulGain := v\<rparr>)
      else if param = PARAM_SOULTICKS then Some (r\<lparr>soulTicks := v\<rparr>)
      else None)"

text \<open>
  \<open>ConditionDamage::setParam\<close> runs the base version first. Its switch has three outcomes: \<open>return
  true\<close>, \<open>break\<close> (the base result), and the default \<open>return false\<close>.
\<close>

definition setParam_damage :: "bool \<Rightarrow> condition_param \<Rightarrow> i32 \<Rightarrow> damage_data \<Rightarrow> bool \<times> damage_data" where
  "setParam_damage ret param v d =
     (if param = PARAM_OWNER then (True, d\<lparr>dmg_owner := v\<rparr>)
      else if param = PARAM_FORCEUPDATE then (True, d\<lparr>forceUpdate := (v \<noteq> 0)\<rparr>)
      else if param = PARAM_DELAYED then (True, d\<lparr>delayed := (v \<noteq> 0)\<rparr>)
      else if param = PARAM_MAXVALUE then (ret, d\<lparr>maxDamage := abs32 v\<rparr>)
      else if param = PARAM_MINVALUE then (ret, d\<lparr>minDamage := abs32 v\<rparr>)
      else if param = PARAM_STARTVALUE then (ret, d\<lparr>startDamage := abs32 v\<rparr>)
      else if param = PARAM_TICKINTERVAL then (ret, d\<lparr>tickInterval := abs32 v\<rparr>)
      else if param = PARAM_PERIODICDAMAGE then (ret, d\<lparr>periodDamage := v\<rparr>)
      else if param = PARAM_FIELD then (ret, d\<lparr>dmg_field := (v \<noteq> 0)\<rparr>)
      else (False, d))"

definition setParam_light :: "condition_param \<Rightarrow> i32 \<Rightarrow> light_data \<Rightarrow> light_data option" where
  "setParam_light param v l =
     (if param = PARAM_LIGHT_LEVEL then Some (l\<lparr>light_level := ucast v\<rparr>)
      else if param = PARAM_LIGHT_COLOR then Some (l\<lparr>light_color := ucast v\<rparr>)
      else None)"

definition with_kind :: "('a \<Rightarrow> cond_kind) \<Rightarrow> bool \<times> condition \<Rightarrow> 'a option \<Rightarrow> bool \<times> condition" where
  \<comment> \<open>\<open>return true\<close> with the changed fields, or \<open>default: return ret\<close>\<close>
  "with_kind K base x = (case x of Some a \<Rightarrow> (True, (snd base)\<lparr>kind := K a\<rparr>) | None \<Rightarrow> base)"

definition setParam :: "condition_param \<Rightarrow> i32 \<Rightarrow> condition \<Rightarrow> bool \<times> condition" where
  "setParam param v c =
     (let base = setParam_base param v c
      in case kind c of
           Generic \<Rightarrow> base
         | Invisible \<Rightarrow> base
         | Outfit _ \<Rightarrow> base
         | Attributes a \<Rightarrow> with_kind Attributes base (setParam_attributes param v a)
         | Regeneration r \<Rightarrow> with_kind Regeneration base (setParam_regeneration param v r)
         | Soul s \<Rightarrow> with_kind Soul base (setParam_soul param v s)
         | Damage d \<Rightarrow>
             (let (ret, d') = setParam_damage (fst base) param v d
              in (ret, (snd base)\<lparr>kind := Damage d'\<rparr>))
         | Speed s \<Rightarrow>
             (if param \<noteq> PARAM_SPEED then (False, snd base)
              else (True, (snd base)\<lparr>conditionType := (if sint v > 0 then CONDITION_HASTE else CONDITION_PARALYZE),
                                     kind := Speed (s\<lparr>speedDelta := v\<rparr>)\<rparr>))
         | Light l \<Rightarrow>
             (if fst base then (False, snd base)
              else with_kind Light (False, snd base) (setParam_light param v l)))"

end
