(* ===== verification/ConditionStore.thy ===== *)
theory ConditionStore
  imports Condition
begin

text \<open>
  How conditions are stored with a player and loaded again: \<open>serialize\<close>, \<open>unserialize\<close>,
  \<open>unserializeProp\<close> and \<open>createCondition\<close> of \<open>condition.cpp\<close>, and the two loops of \<open>iologindata.cpp\<close>
  that save and load the list of conditions.
\<close>

section \<open>Storing\<close>

definition put_attr :: "u8 \<Rightarrow> 'a::len word \<Rightarrow> byte list \<Rightarrow> byte list" where
  "put_attr attr w s = ps_write w (ps_write attr s)"

definition bool_byte :: "bool \<Rightarrow> u8" where "bool_byte b = (if b then 1 else 0)"

definition serialize_base :: "condition \<Rightarrow> byte list \<Rightarrow> byte list" where
  "serialize_base c s =
     (let s = put_attr ATTR_TYPE (conditionType c) s;
          s = put_attr ATTR_ID (scast (cond_id c) :: u32) s;
          s = put_attr ATTR_TICKS (ticks c) s;
          s = put_attr ATTR_ISBUFF (bool_byte (isBuff c)) s
      in put_attr ATTR_SUBID (subId c) s)"

definition write_interval :: "interval_info \<Rightarrow> byte list \<Rightarrow> byte list" where
  \<comment> \<open>the three 32-bit fields of the structure, in order\<close>
  "write_interval i s = ps_write (iv_interval i) (ps_write (iv_value i) (ps_write (timeLeft i) s))"

definition write_outfit :: "outfit_data \<Rightarrow> byte list \<Rightarrow> byte list" where
  "write_outfit f s = s @ le_bytes 2 (lookType f) @ le_bytes 2 (lookTypeEx f) @ le_bytes 2 (lookMount f) @
     [lookHead f, lookBody f, lookLegs f, lookFeet f, lookAddons f, lookPadding f]"

fun serialize_kind :: "cond_kind \<Rightarrow> byte list \<Rightarrow> byte list" where
  "serialize_kind Generic s = s"
| "serialize_kind Invisible s = s"
| "serialize_kind (Attributes a) s =
     fold (put_attr ATTR_STATS) (stats a) (fold (put_attr ATTR_SKILLS) (skills a) s)"
| "serialize_kind (Regeneration r) s =
     put_attr ATTR_MANAGAIN (manaGain r) (put_attr ATTR_MANATICKS (manaTicks r)
       (put_attr ATTR_HEALTHGAIN (healthGain r) (put_attr ATTR_HEALTHTICKS (healthTicks r) s)))"
| "serialize_kind (Soul r) s = put_attr ATTR_SOULTICKS (soulTicks r) (put_attr ATTR_SOULGAIN (soulGain r) s)"
| "serialize_kind (Damage d) s =
     fold (\<lambda>i s. write_interval i (ps_write ATTR_INTERVALDATA s)) (damageList d)
       (put_attr ATTR_PERIODDAMAGE (periodDamage d) (put_attr ATTR_DELAYED (bool_byte (delayed d)) s))"
| "serialize_kind (Speed v) s =
     put_attr ATTR_FORMULA_MAXB (maxb v) (put_attr ATTR_FORMULA_MAXA (maxa v)
       (put_attr ATTR_FORMULA_MINB (minb v) (put_attr ATTR_FORMULA_MINA (mina v)
         (put_attr ATTR_SPEEDDELTA (speedDelta v) s))))"
| "serialize_kind (Outfit f) s = write_outfit f (ps_write ATTR_OUTFIT s)"
| "serialize_kind (Light l) s =
     put_attr ATTR_LIGHTINTERVAL (lightChangeInterval l) (put_attr ATTR_LIGHTTICKS (internalLightTicks l)
       (put_attr ATTR_LIGHTLEVEL (ucast (light_level l) :: u32)
         (put_attr ATTR_LIGHTCOLOR (ucast (light_color l) :: u32) s)))"

definition serialize :: "condition \<Rightarrow> byte list \<Rightarrow> byte list" where
  "serialize c s = serialize_kind (kind c) (serialize_base c s)"

section \<open>Loading\<close>

definition setTicks :: "int \<Rightarrow> i32 \<Rightarrow> condition \<Rightarrow> condition" where
  \<comment> \<open>\<open>now\<close> is \<open>OTSYS_TIME()\<close>\<close>
  "setTicks now n c = c\<lparr>ticks := n, endTime := sint n + now\<rparr>"

definition unserializeProp_base :: "u8 \<Rightarrow> prop_stream \<Rightarrow> condition \<Rightarrow> (condition \<times> prop_stream) option" where
  \<comment> \<open>\<open>None\<close> is \<open>return false\<close>\<close>
  "unserializeProp_base attr s c =
     (if attr = ATTR_TYPE then do { (v, s') \<leftarrow> ps_read s; Some (c\<lparr>conditionType := v\<rparr>, s') }
      else if attr = ATTR_ID then do { (v, s') \<leftarrow> ps_read s; Some (c\<lparr>cond_id := ucast (v :: i32)\<rparr>, s') }
      else if attr = ATTR_TICKS then do { (v, s') \<leftarrow> ps_read s; Some (c\<lparr>ticks := v\<rparr>, s') }
      else if attr = ATTR_ISBUFF then do { (v, s') \<leftarrow> ps_read s; Some (c\<lparr>isBuff := ((v :: u8) \<noteq> 0)\<rparr>, s') }
      else if attr = ATTR_SUBID then do { (v, s') \<leftarrow> ps_read s; Some (c\<lparr>subId := v\<rparr>, s') }
      else if attr = ATTR_END then Some (c, s)
      else None)"

definition read_attributes :: "u8 \<Rightarrow> prop_stream \<Rightarrow> attributes_data \<Rightarrow> (attributes_data \<times> prop_stream) option option" where
  \<comment> \<open>outer \<open>None\<close>: not an attribute of the subclass; inner \<open>None\<close>: the read fails\<close>
  "read_attributes attr s a =
     (if attr = ATTR_SKILLS then
        (let i = currentSkill a; a1 = a\<lparr>currentSkill := i + 1, array_overrun := array_overrun a \<or> i \<ge> 7\<rparr>
         in Some (do { (v, s') \<leftarrow> ps_read s; Some (a1\<lparr>skills := (skills a)[i := v]\<rparr>, s') }))
      else if attr = ATTR_STATS then
        (let i = currentStat a; a1 = a\<lparr>currentStat := i + 1, array_overrun := array_overrun a \<or> i \<ge> 4\<rparr>
         in Some (do { (v, s') \<leftarrow> ps_read s; Some (a1\<lparr>stats := (stats a)[i := v]\<rparr>, s') }))
      else None)"

definition read_regeneration :: "u8 \<Rightarrow> prop_stream \<Rightarrow> regeneration_data \<Rightarrow> (regeneration_data \<times> prop_stream) option option" where
  "read_regeneration attr s r =
     (if attr = ATTR_HEALTHTICKS then Some (do { (v, s') \<leftarrow> ps_read s; Some (r\<lparr>healthTicks := v\<rparr>, s') })
      else if attr = ATTR_HEALTHGAIN then Some (do { (v, s') \<leftarrow> ps_read s; Some (r\<lparr>healthGain := v\<rparr>, s') })
      else if attr = ATTR_MANATICKS then Some (do { (v, s') \<leftarrow> ps_read s; Some (r\<lparr>manaTicks := v\<rparr>, s') })
      else if attr = ATTR_MANAGAIN then Some (do { (v, s') \<leftarrow> ps_read s; Some (r\<lparr>manaGain := v\<rparr>, s') })
      else None)"

definition read_soul :: "u8 \<Rightarrow> prop_stream \<Rightarrow> soul_data \<Rightarrow> (soul_data \<times> prop_stream) option option" where
  "read_soul attr s r =
     (if attr = ATTR_SOULGAIN then Some (do { (v, s') \<leftarrow> ps_read s; Some (r\<lparr>soulGain := v\<rparr>, s') })
      else if attr = ATTR_SOULTICKS then Some (do { (v, s') \<leftarrow> ps_read s; Some (r\<lparr>soulTicks := v\<rparr>, s') })
      else None)"

definition read_speed :: "u8 \<Rightarrow> prop_stream \<Rightarrow> speed_data \<Rightarrow> (speed_data \<times> prop_stream) option option" where
  "read_speed attr s r =
     (if attr = ATTR_SPEEDDELTA then Some (do { (v, s') \<leftarrow> ps_read s; Some (r\<lparr>speedDelta := v\<rparr>, s') })
      else if attr = ATTR_FORMULA_MINA then Some (do { (v, s') \<leftarrow> ps_read s; Some (r\<lparr>mina := v\<rparr>, s') })
      else if attr = ATTR_FORMULA_MINB then Some (do { (v, s') \<leftarrow> ps_read s; Some (r\<lparr>minb := v\<rparr>, s') })
      else if attr = ATTR_FORMULA_MAXA then Some (do { (v, s') \<leftarrow> ps_read s; Some (r\<lparr>maxa := v\<rparr>, s') })
      else if attr = ATTR_FORMULA_MAXB then Some (do { (v, s') \<leftarrow> ps_read s; Some (r\<lparr>maxb := v\<rparr>, s') })
      else None)"

definition read_outfit :: "prop_stream \<Rightarrow> (outfit_data \<times> prop_stream) option" where
  "read_outfit s =
     (if length s < 12 then None
      else Some (\<lparr>lookType = le_word (take 2 s), lookTypeEx = le_word (take 2 (drop 2 s)),
                  lookMount = le_word (take 2 (drop 4 s)), lookHead = s ! 6, lookBody = s ! 7,
                  lookLegs = s ! 8, lookFeet = s ! 9, lookAddons = s ! 10, lookPadding = s ! 11\<rparr>,
                 drop 12 s))"

definition read_light :: "u8 \<Rightarrow> prop_stream \<Rightarrow> light_data \<Rightarrow> (light_data \<times> prop_stream) option option" where
  "read_light attr s l =
     (if attr = ATTR_LIGHTCOLOR then Some (do { (v, s') \<leftarrow> ps_read s; Some (l\<lparr>light_color := ucast (v :: u32)\<rparr>, s') })
      else if attr = ATTR_LIGHTLEVEL then Some (do { (v, s') \<leftarrow> ps_read s; Some (l\<lparr>light_level := ucast (v :: u32)\<rparr>, s') })
      else if attr = ATTR_LIGHTTICKS then Some (do { (v, s') \<leftarrow> ps_read s; Some (l\<lparr>internalLightTicks := v\<rparr>, s') })
      else if attr = ATTR_LIGHTINTERVAL then Some (do { (v, s') \<leftarrow> ps_read s; Some (l\<lparr>lightChangeInterval := v\<rparr>, s') })
      else None)"

definition read_interval :: "prop_stream \<Rightarrow> (interval_info \<times> prop_stream) option" where
  "read_interval s = do {
     (a, s1) \<leftarrow> ps_read s; (b, s2) \<leftarrow> ps_read s1; (c, s3) \<leftarrow> ps_read s2;
     Some (\<lparr>timeLeft = a, iv_value = b, iv_interval = c\<rparr>, s3)
   }"

definition unserializeProp_damage ::
  "int \<Rightarrow> u8 \<Rightarrow> prop_stream \<Rightarrow> damage_data \<Rightarrow> condition \<Rightarrow> (condition \<times> prop_stream) option" where
  "unserializeProp_damage now attr s d c =
     (if attr = ATTR_DELAYED then do {
        (v, s') \<leftarrow> ps_read s;
        Some (c\<lparr>kind := Damage (d\<lparr>delayed := ((v :: u8) \<noteq> 0)\<rparr>)\<rparr>, s')
      }
      else if attr = ATTR_PERIODDAMAGE then do {
        (v, s') \<leftarrow> ps_read s;
        Some (c\<lparr>kind := Damage (d\<lparr>periodDamage := v\<rparr>)\<rparr>, s')
      }
      else if attr = ATTR_OWNER then do { s' \<leftarrow> ps_skip 4 s; Some (c, s') }
      else if attr = ATTR_INTERVALDATA then do {
        (damageInfo, s') \<leftarrow> read_interval s;
        let c1 = c\<lparr>kind := Damage (d\<lparr>damageList := damageList d @ [damageInfo]\<rparr>)\<rparr>;
        Some (if ticks c1 \<noteq> - 1 then setTicks now (ticks c1 + iv_interval damageInfo) c1 else c1, s')
      }
      else unserializeProp_base attr s c)"

definition or_base ::
  "('a \<Rightarrow> cond_kind) \<Rightarrow> u8 \<Rightarrow> prop_stream \<Rightarrow> condition \<Rightarrow> ('a \<times> prop_stream) option option \<Rightarrow>
     (condition \<times> prop_stream) option" where
  "or_base K attr s c x =
     (case x of
        None \<Rightarrow> unserializeProp_base attr s c
      | Some r \<Rightarrow> map_option (\<lambda>(a, s'). (c\<lparr>kind := K a\<rparr>, s')) r)"

definition unserializeProp :: "int \<Rightarrow> u8 \<Rightarrow> prop_stream \<Rightarrow> condition \<Rightarrow> (condition \<times> prop_stream) option" where
  "unserializeProp now attr s c =
     (case kind c of
        Generic \<Rightarrow> unserializeProp_base attr s c
      | Invisible \<Rightarrow> unserializeProp_base attr s c
      | Attributes a \<Rightarrow> or_base Attributes attr s c (read_attributes attr s a)
      | Regeneration r \<Rightarrow> or_base Regeneration attr s c (read_regeneration attr s r)
      | Soul r \<Rightarrow> or_base Soul attr s c (read_soul attr s r)
      | Damage d \<Rightarrow> unserializeProp_damage now attr s d c
      | Speed r \<Rightarrow> or_base Speed attr s c (read_speed attr s r)
      | Outfit f \<Rightarrow> or_base Outfit attr s c (if attr = ATTR_OUTFIT then Some (read_outfit s) else None)
      | Light l \<Rightarrow> or_base Light attr s c (read_light attr s l))"

lemma unserializeProp_base_shorter:
  "unserializeProp_base attr s c = Some (c', s') \<Longrightarrow> length s' \<le> length s"
  by (auto simp: unserializeProp_base_def split: if_splits bind_splits dest: ps_read_shorter)

lemmas read_kind_defs = read_attributes_def read_regeneration_def read_soul_def read_speed_def
  read_light_def read_outfit_def

lemma read_kind_shorter:
  "read_attributes attr s a = Some (Some (a', s')) \<Longrightarrow> length s' \<le> length s"
  "read_regeneration attr s r = Some (Some (r', s')) \<Longrightarrow> length s' \<le> length s"
  "read_soul attr s u = Some (Some (u', s')) \<Longrightarrow> length s' \<le> length s"
  "read_speed attr s v = Some (Some (v', s')) \<Longrightarrow> length s' \<le> length s"
  "read_light attr s l = Some (Some (l', s')) \<Longrightarrow> length s' \<le> length s"
  "read_outfit s = Some (f', s') \<Longrightarrow> length s' \<le> length s"
  by (auto simp: read_kind_defs Let_def split: if_splits bind_splits dest: ps_read_shorter)

lemma read_interval_shorter: "read_interval s = Some (i, s') \<Longrightarrow> length s' \<le> length s"
  by (auto simp: read_interval_def split: bind_splits dest!: ps_read_shorter)

lemma unserializeProp_damage_shorter:
  "unserializeProp_damage now attr s d c = Some (c', s') \<Longrightarrow> length s' \<le> length s"
  by (auto simp: unserializeProp_damage_def Let_def ps_skip_def
      split: if_splits bind_splits dest: ps_read_shorter read_interval_shorter unserializeProp_base_shorter)

lemma or_base_shorter:
  assumes "or_base K attr s c x = Some (c', s')"
    and "\<And>a s'. x = Some (Some (a, s')) \<Longrightarrow> length s' \<le> length s"
  shows "length s' \<le> length s"
  using assms by (auto simp: or_base_def split: option.splits dest: unserializeProp_base_shorter)

lemma unserializeProp_shorter:
  "unserializeProp now attr s c = Some (c', s') \<Longrightarrow> length s' \<le> length s"
  by (auto simp: unserializeProp_def split: cond_kind.splits if_splits
      dest: unserializeProp_base_shorter unserializeProp_damage_shorter read_kind_shorter
      elim!: or_base_shorter)

function unserialize :: "int \<Rightarrow> prop_stream \<Rightarrow> condition \<Rightarrow> bool \<times> condition \<times> prop_stream" where
  "unserialize now s c =
     (case ps_read s of
        None \<Rightarrow> (True, c, s)
      | Some (attr_type, s1) \<Rightarrow>
          if attr_type = ATTR_END then (True, c, s1)
          else (case unserializeProp now attr_type s1 c of
                  None \<Rightarrow> (False, c, s1)
                | Some (c', s2) \<Rightarrow> unserialize now s2 c'))"
  by pat_completeness auto
termination
  by (relation "measure (\<lambda>(now, s, c). length s)")
     (auto dest!: unserializeProp_shorter ps_read_u8_shorter)

declare unserialize.simps [simp del]

definition expect_attr :: "u8 \<Rightarrow> prop_stream \<Rightarrow> prop_stream option" where
  \<comment> \<open>\<open>!propStream.read<uint8_t>(attr) || attr != a\<close>\<close>
  "expect_attr a s = do { (attr, s') \<leftarrow> ps_read s; if attr \<noteq> a then None else Some s' }"

definition createCondition_stream :: "prop_stream \<Rightarrow> (condition \<times> prop_stream) option" where
  "createCondition_stream s = do {
     s \<leftarrow> expect_attr ATTR_TYPE s; (t, s) \<leftarrow> ps_read s;
     s \<leftarrow> expect_attr ATTR_ID s; (i, s) \<leftarrow> ps_read s;
     s \<leftarrow> expect_attr ATTR_TICKS s; (n, s) \<leftarrow> ps_read s;
     s \<leftarrow> expect_attr ATTR_ISBUFF s; (buff, s) \<leftarrow> ps_read s;
     s \<leftarrow> expect_attr ATTR_SUBID s; (sub, s) \<leftarrow> ps_read s;
     c \<leftarrow> createCondition (ucast (i :: u32)) t n 0 ((buff :: u8) \<noteq> 0) sub;
     Some (c, s)
   }"

lemma expect_attr_shorter: "expect_attr a s = Some s' \<Longrightarrow> length s' < length s"
  by (auto simp: expect_attr_def split: bind_splits if_splits dest: ps_read_u8_shorter)

lemma createCondition_stream_shorter:
  "createCondition_stream s = Some (c, s') \<Longrightarrow> length s' < length s"
  by (auto simp: createCondition_stream_def split: bind_splits dest!: ps_read_shorter expect_attr_shorter)

lemma unserialize_shorter: "unserialize now s c = (b, c', s') \<Longrightarrow> length s' \<le> length s"
proof (induction now s c rule: unserialize.induct)
  case (1 now s c)
  show ?case
  proof (cases "ps_read s :: (u8 \<times> prop_stream) option")
    case None
    with "1.prems" show ?thesis by (simp add: unserialize.simps [of now s])
  next
    case (Some p)
    obtain a s1 where p: "p = (a, s1)" by (cases p)
    with Some have "length s1 < length s" using ps_read_u8_shorter by blast
    with 1 Some p show ?thesis
      by (fastforce simp: unserialize.simps [of now s] split: if_splits option.splits prod.splits
          dest: unserializeProp_shorter)
  qed
qed

text \<open>The loops of \<open>IOLoginData::savePlayer\<close> and \<open>IOLoginData::loadPlayer\<close>.\<close>

definition save_condition :: "condition \<Rightarrow> byte list \<Rightarrow> byte list" where
  "save_condition c s = (if isPersistent c then ps_write ATTR_END (serialize c s) else s)"

definition save_conditions :: "condition list \<Rightarrow> byte list" where
  "save_conditions cs = fold save_condition cs []"

function load_conditions :: "int \<Rightarrow> prop_stream \<Rightarrow> condition list \<Rightarrow> condition list" where
  "load_conditions now s stored =
     (case createCondition_stream s of
        None \<Rightarrow> stored
      | Some (c, s1) \<Rightarrow>
          (let (ok, c', s2) = unserialize now s1 c
           in load_conditions now s2 (if ok then c' # stored else stored)))"
  by pat_completeness auto
termination
proof (relation "measure (\<lambda>(now, s, stored). length s)", goal_cases)
  case (2 now s stored x2 c s1 x ok y c' s2)
  then have "length s1 < length s" and "length s2 \<le> length s1"
    using createCondition_stream_shorter [of s c s1] unserialize_shorter [of now s1 c ok c' s2] by auto
  then show ?case by simp
qed simp

declare load_conditions.simps [simp del]

section \<open>What is written\<close>

lemma put_attr_bytes [bytes_simps]:
  "put_attr a (b :: u8) s = s @ [a, b]"
  "put_attr a (w :: u32) s = s @ a # le_bytes 4 w"
  "ps_write (b :: u8) s = s @ [b]"
  "ps_write (w :: u32) s = s @ le_bytes 4 w"
  by (simp_all add: put_attr_def ps_write_def)

lemma fold_put_attr:
  "fold (put_attr a) (ws :: u32 list) s = s @ concat (map (\<lambda>w. a # le_bytes 4 w) ws)"
  by (induction ws arbitrary: s) (simp_all add: put_attr_bytes del: le_bytes.simps)

definition interval_bytes :: "interval_info \<Rightarrow> byte list" where
  "interval_bytes i = le_bytes 4 (timeLeft i) @ le_bytes 4 (iv_value i) @ le_bytes 4 (iv_interval i)"

lemma write_interval_bytes: "write_interval i s = s @ interval_bytes i"
  by (simp add: write_interval_def interval_bytes_def ps_write_def)

lemma fold_write_interval:
  "fold (\<lambda>i s. write_interval i (ps_write ATTR_INTERVALDATA s)) is s =
     s @ concat (map (\<lambda>i. ATTR_INTERVALDATA # interval_bytes i) is)"
  "fold (\<lambda>i s. write_interval i (s @ [ATTR_INTERVALDATA])) is s =
     s @ concat (map (\<lambda>i. ATTR_INTERVALDATA # interval_bytes i) is)"
  by (induction "is" arbitrary: s) (simp_all add: put_attr_bytes write_interval_bytes)

lemma serialize_base_append: "serialize_base c s = s @ serialize_base c []"
  by (simp add: serialize_base_def put_attr_bytes del: le_bytes.simps)

lemma serialize_kind_append: "serialize_kind k s = s @ serialize_kind k []"
  by (cases k) (simp_all add: put_attr_bytes fold_put_attr fold_write_interval write_outfit_def del: le_bytes.simps)

lemma serialize_split: "serialize c s = s @ serialize_base c [] @ serialize_kind (kind c) []"
  by (metis append.assoc serialize_base_append serialize_def serialize_kind_append)

section \<open>What is read back\<close>

lemma ucast_scast_id8: "ucast (scast (w :: 8 word) :: u32) = w"
  by (rule bit_word_eqI) (simp add: bit_simps)

lemma expect_attr_same [simp]: "expect_attr a (a # s) = Some s"
  by (simp add: expect_attr_def ps_read_le_bytes)

lemma createCondition_serialize_base:
  "createCondition_stream (serialize_base c [] @ rest) =
     map_option (\<lambda>c0. (c0, rest))
       (createCondition (cond_id c) (conditionType c) (ticks c) 0 (isBuff c) (subId c))"
  by (cases "isBuff c"; cases "createCondition (cond_id c) (conditionType c) (ticks c) 0 (isBuff c) (subId c)")
     (simp_all add: createCondition_stream_def serialize_base_def put_attr_bytes ps_read_le_bytes
       ucast_scast_id8 bool_byte_def del: le_bytes.simps)

text \<open>One attribute at a time.\<close>

lemma unserialize_end [simp]: "unserialize now (ATTR_END # s) c = (True, c, s)"
  by (subst unserialize.simps) (simp add: ps_read_le_bytes)

lemmas unserialize_end' = unserialize_end [unfolded ATTR_END_def]

lemma unserialize_attr:
  "a \<noteq> ATTR_END \<Longrightarrow> unserialize now (a # s) c =
     (case unserializeProp now a s c of None \<Rightarrow> (False, c, s) | Some (c', s2) \<Rightarrow> unserialize now s2 c')"
  by (subst unserialize.simps) (simp add: ps_read_le_bytes)

definition add_interval :: "int \<Rightarrow> interval_info \<Rightarrow> condition \<Rightarrow> condition" where
  "add_interval now i c = (if ticks c \<noteq> - 1 then setTicks now (ticks c + iv_interval i) c else c)"

fun load_kind :: "int \<Rightarrow> condition \<Rightarrow> cond_kind \<Rightarrow> condition" where
  "load_kind now c Generic = c"
| "load_kind now c Invisible = c"
| "load_kind now c (Attributes a) =
     c\<lparr>kind := Attributes (new_attributes\<lparr>skills := skills a, stats := stats a, currentSkill := 7, currentStat := 4\<rparr>)\<rparr>"
| "load_kind now c (Regeneration r) =
     c\<lparr>kind := Regeneration (r\<lparr>internalHealthTicks := 0, internalManaTicks := 0\<rparr>)\<rparr>"
| "load_kind now c (Soul r) = c\<lparr>kind := Soul (r\<lparr>internalSoulTicks := 0\<rparr>)\<rparr>"
| "load_kind now c (Damage d) =
     fold (add_interval now) (damageList d)
       (c\<lparr>kind := Damage (new_damage\<lparr>periodDamage := periodDamage d, delayed := delayed d,
                                   damageList := damageList d\<rparr>)\<rparr>)"
| "load_kind now c (Speed v) = c\<lparr>kind := Speed v\<rparr>"
| "load_kind now c (Outfit f) = c\<lparr>kind := Outfit f\<rparr>"
| "load_kind now c (Light l) = c\<lparr>kind := Light l\<rparr>"

lemma list_of_7: "length xs = 7 \<Longrightarrow> \<exists>a b c d e f g. xs = [a, b, c, d, e, f, g]"
  by (auto simp: length_Suc_conv eval_nat_numeral)

lemma list_of_4: "length xs = 4 \<Longrightarrow> \<exists>a b c d. xs = [a, b, c, d]"
  by (auto simp: length_Suc_conv eval_nat_numeral)

lemma list_update_numeral: "(x # xs)[numeral n := v] = x # xs[pred_numeral n := v]"
  by (simp add: numeral_eq_Suc)

lemma replicate_numeral: "replicate (numeral n) x = x # replicate (pred_numeral n) x"
  by (simp add: numeral_eq_Suc)

lemma unserialize_attributes:
  assumes "length (skills a) = 7" and "length (stats a) = 4" and k: "kind c = Attributes new_attributes"
  shows "unserialize now (serialize_kind (Attributes a) [] @ ATTR_END # rest) c
           = (True, load_kind now c (Attributes a), rest)"
proof -
  obtain s0 s1 s2 s3 s4 s5 s6 where s: "skills a = [s0, s1, s2, s3, s4, s5, s6]"
    using list_of_7 [OF assms(1)] by blast
  obtain t0 t1 t2 t3 where t: "stats a = [t0, t1, t2, t3]" using list_of_4 [OF assms(2)] by blast
  show ?thesis
    by (simp add: s t put_attr_bytes unserialize_attr unserializeProp_def k or_base_def
        read_attributes_def ps_read_le_bytes attr_defs new_attributes_def Let_def list_update_numeral
        replicate_numeral unserialize_end' del: le_bytes.simps)
qed


lemma read_outfit_write: "read_outfit (write_outfit f [] @ rest) = Some (f, rest)"
  by (simp add: read_outfit_def write_outfit_def le_word_le_bytes nth_append del: le_bytes.simps)

lemma ucast_ucast_u8: "ucast (ucast (w :: u8) :: u32) = w"
  by (rule bit_word_eqI) (simp add: bit_simps)

lemma unserialize_simple:
  "kind c = Regeneration new_regeneration \<Longrightarrow>
     unserialize now (serialize_kind (Regeneration r) [] @ ATTR_END # rest) c
       = (True, load_kind now c (Regeneration r), rest)"
  "kind c = Soul new_soul \<Longrightarrow>
     unserialize now (serialize_kind (Soul u) [] @ ATTR_END # rest) c = (True, load_kind now c (Soul u), rest)"
  "kind c = Speed v0 \<Longrightarrow>
     unserialize now (serialize_kind (Speed v) [] @ ATTR_END # rest) c = (True, load_kind now c (Speed v), rest)"
  "kind c = Light l0 \<Longrightarrow>
     unserialize now (serialize_kind (Light l) [] @ ATTR_END # rest) c = (True, load_kind now c (Light l), rest)"
  by (simp_all add: put_attr_bytes unserialize_attr unserializeProp_def or_base_def read_kind_defs
      ps_read_le_bytes attr_defs unserialize_end' new_regeneration_def new_soul_def ucast_ucast_u8
      del: le_bytes.simps)

lemma unserialize_outfit:
  "kind c = Outfit f0 \<Longrightarrow>
     unserialize now (serialize_kind (Outfit f) [] @ ATTR_END # rest) c = (True, load_kind now c (Outfit f), rest)"
proof -
  assume k: "kind c = Outfit f0"
  have "write_outfit f [ATTR_OUTFIT] = ATTR_OUTFIT # write_outfit f []" by (simp add: write_outfit_def)
  moreover have "ATTR_OUTFIT \<noteq> ATTR_END" by (simp add: attr_defs)
  ultimately show ?thesis
    using k by (simp add: put_attr_bytes unserialize_attr unserializeProp_def or_base_def read_outfit_write)
qed

lemma add_interval_kind: "add_interval now i (c\<lparr>kind := k\<rparr>) = (add_interval now i c)\<lparr>kind := k\<rparr>"
  by (simp add: add_interval_def setTicks_def)

lemma read_interval_bytes: "read_interval (interval_bytes i @ rest) = Some (i, rest)"
  by (simp add: read_interval_def interval_bytes_def ps_read_le_bytes del: le_bytes.simps)

lemma fold_add_interval_kind:
  "fold (add_interval now) is (c\<lparr>kind := k\<rparr>) = (fold (add_interval now) is c)\<lparr>kind := k\<rparr>"
  by (induction "is" arbitrary: c) (simp_all add: add_interval_kind)

lemma unserialize_intervals:
  "kind c = Damage d \<Longrightarrow>
     unserialize now (concat (map (\<lambda>i. ATTR_INTERVALDATA # interval_bytes i) is) @ ATTR_END # rest) c =
       (True, (fold (add_interval now) is c)\<lparr>kind := Damage (d\<lparr>damageList := damageList d @ is\<rparr>)\<rparr>, rest)"
proof (induction "is" arbitrary: c d)
  case Nil
  then have "c = c\<lparr>kind := Damage d\<rparr>" by simp
  then show ?case by simp
next
  case (Cons i "is")
  let ?d = "d\<lparr>damageList := damageList d @ [i]\<rparr>"
  let ?c = "(add_interval now i c)\<lparr>kind := Damage ?d\<rparr>"
  let ?rest = "concat (map (\<lambda>i. ATTR_INTERVALDATA # interval_bytes i) is) @ ATTR_END # rest"
  have "unserializeProp now ATTR_INTERVALDATA (interval_bytes i @ ?rest) c = Some (?c, ?rest)"
    using Cons.prems
    by (simp add: unserializeProp_def unserializeProp_damage_def read_interval_bytes attr_defs
        add_interval_def setTicks_def)
  moreover have "ATTR_INTERVALDATA \<noteq> ATTR_END" by (simp add: attr_defs)
  ultimately have "unserialize now (ATTR_INTERVALDATA # interval_bytes i @ ?rest) c = unserialize now ?rest ?c"
    by (simp add: unserialize_attr)
  with Cons.IH [of ?c ?d] show ?case by (simp add: fold_add_interval_kind)
qed

lemma unserialize_damage:
  assumes k: "kind c = Damage new_damage"
  shows "unserialize now (serialize_kind (Damage d) [] @ ATTR_END # rest) c = (True, load_kind now c (Damage d), rest)"
proof -
  let ?d = "new_damage\<lparr>delayed := delayed d, periodDamage := periodDamage d\<rparr>"
  let ?rest = "concat (map (\<lambda>i. ATTR_INTERVALDATA # interval_bytes i) (damageList d)) @ ATTR_END # rest"
  have "serialize_kind (Damage d) [] @ ATTR_END # rest =
      ATTR_DELAYED # bool_byte (delayed d) # ATTR_PERIODDAMAGE # le_bytes 4 (periodDamage d) @ ?rest"
    by (simp add: put_attr_bytes fold_write_interval del: le_bytes.simps)
  moreover have "unserialize now (ATTR_DELAYED # bool_byte (delayed d) # ATTR_PERIODDAMAGE #
      le_bytes 4 (periodDamage d) @ r) c = unserialize now r (c\<lparr>kind := Damage ?d\<rparr>)" for r
    using k
    by (cases "delayed d") (simp_all add: unserialize_attr unserializeProp_def
        unserializeProp_damage_def ps_read_le_bytes bool_byte_def attr_defs del: le_bytes.simps)
  ultimately have "unserialize now (serialize_kind (Damage d) [] @ ATTR_END # rest) c =
      unserialize now ?rest (c\<lparr>kind := Damage ?d\<rparr>)" by simp
  also have "\<dots> = (True, load_kind now c (Damage d), rest)"
    using unserialize_intervals [of "c\<lparr>kind := Damage ?d\<rparr>" ?d now "damageList d" rest]
    by (simp add: fold_add_interval_kind new_damage_def)
  finally show ?thesis .
qed


section \<open>Saving and loading\<close>

text \<open>
  A condition as the program builds it: its subclass is the one \<open>createCondition\<close> chooses for its
  type, and the arrays have their declared sizes.
\<close>

fun class_number :: "cond_kind \<Rightarrow> nat" where
  "class_number Generic = 0"
| "class_number Invisible = 1"
| "class_number (Attributes _) = 2"
| "class_number (Regeneration _) = 3"
| "class_number (Soul _) = 4"
| "class_number (Damage _) = 5"
| "class_number (Speed _) = 6"
| "class_number (Outfit _) = 7"
| "class_number (Light _) = 8"

definition same_class :: "cond_kind \<Rightarrow> cond_kind \<Rightarrow> bool" where
  "same_class k0 k \<longleftrightarrow> class_number k0 = class_number k \<and>
     (case k of Attributes a \<Rightarrow> length (skills a) = 7 \<and> length (stats a) = 4 | _ \<Rightarrow> True)"

declare same_class_def [simp]

definition created_as :: "condition \<Rightarrow> condition option" where
  "created_as c = createCondition (cond_id c) (conditionType c) (ticks c) 0 (isBuff c) (subId c)"

definition storable :: "condition \<Rightarrow> bool" where
  "storable c \<longleftrightarrow> (case created_as c of None \<Rightarrow> False | Some c0 \<Rightarrow> same_class (kind c0) (kind c))"

definition loaded :: "int \<Rightarrow> condition \<Rightarrow> condition" where
  "loaded now c = (case created_as c of None \<Rightarrow> c | Some c0 \<Rightarrow> load_kind now c0 (kind c))"

lemma created_kind:
  assumes "created_as c = Some c0"
  shows "kind c0 \<in> {Generic, Invisible, Attributes new_attributes, Regeneration new_regeneration,
      Soul new_soul, Damage new_damage} \<or> (\<exists>v. kind c0 = Speed v) \<or> (\<exists>f. kind c0 = Outfit f) \<or>
      (\<exists>l. kind c0 = Light l)"
  using assms by (auto simp: created_as_def createCondition_def new_condition_def split: if_splits)

lemma unserialize_kind:
  assumes "created_as c = Some c0" and "same_class (kind c0) (kind c)"
  shows "unserialize now (serialize_kind (kind c) [] @ ATTR_END # rest) c0 = (True, load_kind now c0 (kind c), rest)"
proof (cases "kind c")
  case (Attributes a)
  with assms(2) created_kind [OF assms(1)] have "kind c0 = Attributes new_attributes" by auto
  with Attributes assms(2) unserialize_attributes show ?thesis by simp
next
  case (Regeneration r)
  with assms(2) created_kind [OF assms(1)] have "kind c0 = Regeneration new_regeneration" by auto
  with Regeneration unserialize_simple(1) show ?thesis by metis
next
  case (Soul r)
  with assms(2) created_kind [OF assms(1)] have "kind c0 = Soul new_soul" by auto
  with Soul unserialize_simple(2) show ?thesis by metis
next
  case (Damage d)
  with assms(2) created_kind [OF assms(1)] have "kind c0 = Damage new_damage" by auto
  with Damage unserialize_damage show ?thesis by metis
next
  case (Speed v)
  with assms(2) obtain v0 where "kind c0 = Speed v0" by (cases "kind c0") auto
  with Speed unserialize_simple(3) show ?thesis by metis
next
  case (Outfit f)
  with assms(2) obtain f0 where "kind c0 = Outfit f0" by (cases "kind c0") auto
  with Outfit unserialize_outfit show ?thesis by metis
next
  case (Light l)
  with assms(2) obtain l0 where "kind c0 = Light l0" by (cases "kind c0") auto
  with Light unserialize_simple(4) show ?thesis by metis
qed simp_all

lemma save_condition_bytes:
  "isPersistent c \<Longrightarrow>
     save_condition c s = s @ serialize_base c [] @ serialize_kind (kind c) [] @ [ATTR_END]"
  by (simp add: save_condition_def put_attr_bytes serialize_split [of c s])

lemma load_one:
  assumes "storable c" and "isPersistent c"
  shows "load_conditions now (save_condition c [] @ rest) stored = load_conditions now rest (loaded now c # stored)"
proof -
  obtain c0 where c0: "created_as c = Some c0" "same_class (kind c0) (kind c)"
    using assms(1) by (auto simp: storable_def split: option.splits)
  have "createCondition_stream (save_condition c [] @ rest)
      = Some (c0, serialize_kind (kind c) [] @ ATTR_END # rest)"
    using c0(1) createCondition_serialize_base [of c "serialize_kind (kind c) [] @ ATTR_END # rest"]
    by (simp add: save_condition_bytes [OF assms(2)] created_as_def)
  with c0 unserialize_kind [OF c0] show ?thesis
    by (subst load_conditions.simps) (simp add: loaded_def)
qed

lemma save_condition_append: "save_condition c s = s @ save_condition c []"
  by (cases "isPersistent c") (simp_all add: save_condition_bytes, simp add: save_condition_def)

lemma save_conditions_Cons: "fold save_condition cs s = s @ save_conditions cs"
proof (induction cs arbitrary: s)
  case Nil
  then show ?case by (simp add: save_conditions_def)
next
  case (Cons c cs)
  from Cons.IH [of "save_condition c s"] Cons.IH [of "save_condition c []"]
  show ?case using save_condition_append [of c s] by (simp add: save_conditions_def)
qed

lemma load_save:
  "list_all storable cs \<Longrightarrow>
     load_conditions now (save_conditions cs) stored = rev (map (loaded now) (filter isPersistent cs)) @ stored"
proof (induction cs arbitrary: stored)
  case Nil
  then show ?case
    by (subst load_conditions.simps)
       (simp add: save_conditions_def createCondition_stream_def expect_attr_def ps_read_def)
next
  case (Cons c cs)
  have "save_conditions (c # cs) = save_condition c [] @ save_conditions cs"
    using save_conditions_Cons [of cs "save_condition c []"] by (simp add: save_conditions_def)
  with Cons load_one [of c now "save_conditions cs" stored] show ?case
    by (cases "isPersistent c") (simp_all, simp add: save_condition_def)
qed

section \<open>What survives\<close>

lemma fold_add_interval_common [simp]:
  "conditionType (fold (add_interval now) is d) = conditionType d"
  "cond_id (fold (add_interval now) is d) = cond_id d"
  "subId (fold (add_interval now) is d) = subId d" "isBuff (fold (add_interval now) is d) = isBuff d"
  by (induction "is" arbitrary: d) (simp_all add: add_interval_def setTicks_def)

lemma load_kind_common:
  "conditionType (load_kind now c k) = conditionType c" "cond_id (load_kind now c k) = cond_id c"
  "subId (load_kind now c k) = subId c" "isBuff (load_kind now c k) = isBuff c"
  by (cases k; simp)+

lemma created_fields:
  assumes "created_as c = Some c0"
  shows "conditionType c0 = conditionType c" "cond_id c0 = cond_id c" "subId c0 = subId c"
    "isBuff c0 = isBuff c" "ticks c0 = (case kind c0 of Damage _ \<Rightarrow> 0 | _ \<Rightarrow> ticks c)"
  using assms by (auto simp: created_as_def createCondition_def new_condition_def split: if_splits)

definition total_interval :: "interval_info list \<Rightarrow> int" where
  "total_interval is = (\<Sum>i\<leftarrow>is. sint (iv_interval i))"

lemma fold_add_interval_ticks:
  assumes "\<forall>i \<in> set is. 0 \<le> sint (iv_interval i)" and "0 \<le> sint (ticks c)"
    and "sint (ticks c) + total_interval is < 2 ^ 31"
  shows "sint (ticks (fold (add_interval now) is c)) = sint (ticks c) + total_interval is"
  using assms
proof (induction "is" arbitrary: c)
  case Nil
  then show ?case by (simp add: total_interval_def)
next
  case (Cons i "is")
  let ?c = "add_interval now i c"
  have nonneg: "0 \<le> total_interval is" using Cons.prems(1) by (auto simp: total_interval_def intro!: sum_list_nonneg)
  have sum: "total_interval (i # is) = sint (iv_interval i) + total_interval is" by (simp add: total_interval_def)
  have "ticks c \<noteq> - 1" using Cons.prems(2) by auto
  then have t: "ticks ?c = ticks c + iv_interval i" by (simp add: add_interval_def setTicks_def)
  have small: "0 \<le> sint (ticks c) + sint (iv_interval i)" "sint (ticks c) + sint (iv_interval i) < 2 ^ 31"
    using Cons.prems nonneg sum by auto
  have "sint (ticks c + iv_interval i) = sint (ticks c) + sint (iv_interval i)"
    using small by (simp add: signed_take_bit_int_eq_self sint_word_ariths(1))
  with Cons.IH [of ?c] Cons.prems small sum t show ?case by (simp add: add.assoc)
qed

section \<open>Properties\<close>

text \<open>
  C10: the conditions of a player survive a logout: loading what was saved gives back, in reverse
  order, exactly the persistent ones, whatever their subclass and their number.
\<close>

theorem conditions_survive_logout:
  assumes "list_all storable cs"
  shows "load_conditions now (save_conditions cs) [] = rev (map (loaded now) (filter isPersistent cs))"
  using load_save [OF assms, of now "[]"] by simp

theorem conditions_survive_logout_witness:
  "let cs = [new_condition (- 1) CONDITION_HASTE 30000 False 0
               (Speed \<lparr>speedDelta = 80, mina = 0, minb = 0, maxa = 0, maxb = 0\<rparr>),
             new_condition 0 CONDITION_FIRE 0 False 0
               (Damage (new_damage\<lparr>damageList := [\<lparr>timeLeft = 9, iv_value = - 10, iv_interval = 2000\<rparr>]\<rparr>))]
   in load_conditions 5 (save_conditions cs) [] = rev (map (loaded 5) (filter isPersistent cs))"
  unfolding Let_def
  by (rule conditions_survive_logout)
     (simp add: storable_def created_as_def createCondition_def new_condition_def condition_type_defs)

text \<open>
  What survives of a condition: its type, slot, sub-id and buff flag; its remaining time and
  its own data, except that a damage condition gets the sum of its remaining rounds as its time.
\<close>

lemma loaded_condition:
  assumes "storable c"
  shows "conditionType (loaded now c) = conditionType c \<and> cond_id (loaded now c) = cond_id c \<and>
         subId (loaded now c) = subId c \<and> isBuff (loaded now c) = isBuff c \<and>
         (case kind c of
            Damage d \<Rightarrow>
              (\<exists>d'. kind (loaded now c) = Damage d' \<and> damageList d' = damageList d \<and>
                 periodDamage d' = periodDamage d \<and> delayed d' = delayed d) \<and>
              ((\<forall>i \<in> set (damageList d). 0 \<le> sint (iv_interval i)) \<and> total_interval (damageList d) < 2 ^ 31 \<longrightarrow>
                 sint (ticks (loaded now c)) = total_interval (damageList d))
          | Attributes a \<Rightarrow> ticks (loaded now c) = ticks c \<and>
              (\<exists>a'. kind (loaded now c) = Attributes a' \<and> skills a' = skills a \<and> stats a' = stats a)
          | Regeneration r \<Rightarrow> ticks (loaded now c) = ticks c \<and>
              kind (loaded now c) = Regeneration (r\<lparr>internalHealthTicks := 0, internalManaTicks := 0\<rparr>)
          | Soul r \<Rightarrow> ticks (loaded now c) = ticks c \<and> kind (loaded now c) = Soul (r\<lparr>internalSoulTicks := 0\<rparr>)
          | k \<Rightarrow> ticks (loaded now c) = ticks c \<and> kind (loaded now c) = k)"
proof -
  obtain c0 where c0: "created_as c = Some c0" "same_class (kind c0) (kind c)"
    using assms by (auto simp: storable_def split: option.splits)
  then have l: "loaded now c = load_kind now c0 (kind c)" by (simp add: loaded_def)
  show ?thesis
  proof (cases "kind c")
    case (Damage d)
    then have "kind c0 = Damage new_damage" using c0 created_kind [OF c0(1)] by auto
    then have "ticks c0 = 0" using created_fields(5) [OF c0(1)] by simp
    then have "sint (ticks (fold (add_interval now) (damageList d) c0)) = total_interval (damageList d)"
      if "\<forall>i \<in> set (damageList d). 0 \<le> sint (iv_interval i)" "total_interval (damageList d) < 2 ^ 31"
      using fold_add_interval_ticks [of "damageList d" c0 now] that by simp
    with Damage show ?thesis
      by (simp add: l load_kind_common created_fields(1-4) [OF c0(1)] fold_add_interval_kind)
  qed (use c0 created_fields [OF c0(1)] in \<open>cases "kind c0"; simp add: l load_kind_common\<close>)+
qed

text \<open>
  A stored attributes condition with more skills than there are makes the loader write past the
  array: nothing bounds the counter that \<open>unserializeProp\<close> indexes with.
\<close>

lemma stored_skills_overrun:
  assumes "kind c = Attributes a" and "currentSkill a = 0"
  shows "\<exists>a'. kind (fst (snd (unserialize now
           (concat (replicate 8 (ATTR_SKILLS # le_bytes 4 (0 :: u32))) @ [ATTR_END]) c))) = Attributes a' \<and>
         array_overrun a'"
  using assms
  by (simp add: replicate_numeral unserialize_attr unserializeProp_def or_base_def read_attributes_def
      ps_read_le_bytes attr_defs unserialize_end' Let_def del: le_bytes.simps)

end
