(* ===== verification/ConditionRun.thy ===== *)
theory ConditionRun
  imports ConditionParam ConditionStore "HOL-Library.Signed_Division"
begin

text \<open>
  What conditions do: \<open>startCondition\<close>, \<open>executeCondition\<close>, \<open>addCondition\<close> (merging a condition into
  the one already there), \<open>endCondition\<close> and the damage rounds of \<open>condition.cpp\<close>. The creature is
  seen through an environment (what the code reads of it) and a list of effects (what the code does
  to it, in order). The floating-point formulas are fields of the environment.
\<close>

section \<open>The creature as the conditions see it\<close>

definition COMBAT_NONE :: u32 where "COMBAT_NONE = 0"
definition COMBAT_PHYSICALDAMAGE :: u32 where "COMBAT_PHYSICALDAMAGE = 0x1"
definition COMBAT_ENERGYDAMAGE :: u32 where "COMBAT_ENERGYDAMAGE = 0x2"
definition COMBAT_EARTHDAMAGE :: u32 where "COMBAT_EARTHDAMAGE = 0x4"
definition COMBAT_FIREDAMAGE :: u32 where "COMBAT_FIREDAMAGE = 0x8"
definition COMBAT_DROWNDAMAGE :: u32 where "COMBAT_DROWNDAMAGE = 0x100"
definition COMBAT_ICEDAMAGE :: u32 where "COMBAT_ICEDAMAGE = 0x200"
definition COMBAT_HOLYDAMAGE :: u32 where "COMBAT_HOLYDAMAGE = 0x400"
definition COMBAT_DEATHDAMAGE :: u32 where "COMBAT_DEATHDAMAGE = 0x800"

definition ConditionToDamageType :: "u32 \<Rightarrow> u32" where
  "ConditionToDamageType t =
     (if t = CONDITION_FIRE then COMBAT_FIREDAMAGE
      else if t = CONDITION_ENERGY then COMBAT_ENERGYDAMAGE
      else if t = CONDITION_BLEEDING then COMBAT_PHYSICALDAMAGE
      else if t = CONDITION_DROWN then COMBAT_DROWNDAMAGE
      else if t = CONDITION_POISON then COMBAT_EARTHDAMAGE
      else if t = CONDITION_FREEZING then COMBAT_ICEDAMAGE
      else if t = CONDITION_DAZZLED then COMBAT_HOLYDAMAGE
      else if t = CONDITION_CURSED then COMBAT_DEATHDAMAGE
      else COMBAT_NONE)"

datatype creature_effect =
    ChangeSpeed i32
  | SetVarSkill nat i32 | SendSkills
  | SetVarStats nat i32 | SendStats
  | ChangeHealth i32 | ChangeMana i32 | ChangeSoul i32
  | HealMessage i32                 \<comment> \<open>the message and the animated text of a healing buff\<close>
  | ChangeVisible bool
  | ChangeOutfit outfit_data | RestoreOutfit
  | SetLight u8 u8 | NormalLight | ChangeLight
  | PoffEffect
  | CombatDamage i32 u32            \<comment> \<open>\<open>combatBlockHit\<close> and \<open>combatChangeHealth\<close> with a value and a type\<close>

record cond_env =
  env_now :: int                        \<comment> \<open>\<open>OTSYS_TIME()\<close>\<close>
  env_player :: bool
  env_protection :: bool                \<comment> \<open>in a protection zone\<close>
  env_baseSpeed :: i32
  env_maxHealth :: i32
  env_maxMana :: i32
  env_magicLevel :: i32
  env_baseSkill :: "nat \<Rightarrow> i32"
  env_suppress :: "u32 \<Rightarrow> bool"
  env_field :: "u32 option"             \<comment> \<open>the combat type of the magic field under the creature\<close>
  env_light :: "u8 \<times> u8"                \<comment> \<open>the creature's light: level and colour\<close>
  env_invisible :: bool
  env_healed :: "i32 \<Rightarrow> i32"            \<comment> \<open>how much of a health change takes effect\<close>
  env_attackerPlayer :: "u32 \<Rightarrow> bool"   \<comment> \<open>the owner of the condition is a player in the game\<close>
  env_attackable :: bool
  env_canCombat :: "u32 \<Rightarrow> bool"
  env_ghost :: bool
  env_blocked :: "i32 \<Rightarrow> bool"
  env_changeHealth :: "i32 \<Rightarrow> bool"
  env_random :: "i32 \<Rightarrow> i32 \<Rightarrow> i32"     \<comment> \<open>\<open>uniform_random\<close>\<close>
  env_percent :: "i32 \<Rightarrow> i32 \<Rightarrow> i32"    \<comment> \<open>\<open>static_cast<int32_t>(x * ((p - 100) / 100.f))\<close>\<close>
  env_formula :: "speed_data \<Rightarrow> i32 \<Rightarrow> i32 \<times> i32"
  env_closer :: "int \<Rightarrow> int \<Rightarrow> int \<Rightarrow> bool" \<comment> \<open>\<open>x1 < x2\<close> in \<open>generateDamageList\<close>\<close>

text \<open>
  A step on a condition: its result, the condition afterwards and the effects. \<open>None\<close> is a division
  by zero, or a damage list whose generation does not end.
\<close>

type_synonym cond_step = "(bool \<times> condition \<times> creature_effect list) option"

section \<open>Common part\<close>

definition startCondition_base :: "cond_env \<Rightarrow> condition \<Rightarrow> condition" where
  "startCondition_base e c = (if sint (ticks c) > 0 then c\<lparr>endTime := sint (ticks c) + env_now e\<rparr> else c)"

definition executeCondition_base :: "cond_env \<Rightarrow> i32 \<Rightarrow> condition \<Rightarrow> bool \<times> condition" where
  "executeCondition_base e interval c =
     (if ticks c = - 1 then (True, c)
      else (endTime c \<ge> env_now e, c\<lparr>ticks := max0 (ticks c - interval)\<rparr>))"

definition updateCondition_base :: "cond_env \<Rightarrow> condition \<Rightarrow> condition \<Rightarrow> bool" where
  "updateCondition_base e c new =
     (if conditionType c \<noteq> conditionType new then False
      else if ticks c = - 1 \<and> sint (ticks new) > 0 then False
      else if sint (ticks new) \<ge> 0 \<and> endTime c > env_now e + sint (ticks new) then False
      else True)"

section \<open>Attributes\<close>

definition update_percent :: "(nat \<Rightarrow> i32 \<Rightarrow> i32 \<Rightarrow> i32) \<Rightarrow> i32 list \<Rightarrow> i32 list \<Rightarrow> i32 list" where
  "update_percent f percents vs =
     map (\<lambda>i. if percents ! i = 0 then vs ! i else f i (percents ! i) (vs ! i)) [0..<length vs]"

definition updatePercentSkills :: "cond_env \<Rightarrow> attributes_data \<Rightarrow> attributes_data" where
  "updatePercentSkills e a =
     a\<lparr>skills := update_percent (\<lambda>i p v. env_percent e (env_baseSkill e i) p) (skillsPercent a) (skills a)\<rparr>"

definition percent_stat :: "cond_env \<Rightarrow> nat \<Rightarrow> i32 \<Rightarrow> i32 \<Rightarrow> i32" where
  "percent_stat e i p v =
     (if i = 0 then env_percent e (env_maxHealth e) p
      else if i = 1 then env_percent e (env_maxMana e) p
      else if i = 3 then env_percent e (env_magicLevel e) p
      else v)"

definition updatePercentStats :: "cond_env \<Rightarrow> attributes_data \<Rightarrow> attributes_data" where
  "updatePercentStats e a = a\<lparr>stats := update_percent (percent_stat e) (statsPercent a) (stats a)\<rparr>"

definition var_effects :: "(nat \<Rightarrow> i32 \<Rightarrow> creature_effect) \<Rightarrow> creature_effect \<Rightarrow> (i32 \<Rightarrow> i32) \<Rightarrow> (nat \<Rightarrow> bool) \<Rightarrow>
    i32 list \<Rightarrow> creature_effect list" where
  \<comment> \<open>one \<open>setVar\<close> for each index that passes the test, then the message if there was one\<close>
  "var_effects setVar sendAll f test vs =
     map (\<lambda>i. setVar i (f (vs ! i))) (filter test [0..<length vs]) @
     (if \<exists>i \<in> set [0..<length vs]. test i then [sendAll] else [])"

definition updateSkills :: "attributes_data \<Rightarrow> creature_effect list" where
  "updateSkills a = var_effects SetVarSkill SendSkills (\<lambda>v. v) (\<lambda>i. skills a ! i \<noteq> 0) (skills a)"

definition updateStats :: "attributes_data \<Rightarrow> creature_effect list" where
  "updateStats a = var_effects SetVarStats SendStats (\<lambda>v. v) (\<lambda>i. stats a ! i \<noteq> 0) (stats a)"

definition endAttributes :: "cond_env \<Rightarrow> attributes_data \<Rightarrow> creature_effect list" where
  "endAttributes e a =
     (if env_player e
      then var_effects SetVarSkill SendSkills uminus (\<lambda>i. skills a ! i \<noteq> 0 \<or> skillsPercent a ! i \<noteq> 0) (skills a) @
           var_effects SetVarStats SendStats uminus (\<lambda>i. stats a ! i \<noteq> 0) (stats a)
      else [])"

definition applyAttributes :: "cond_env \<Rightarrow> attributes_data \<Rightarrow> attributes_data \<times> creature_effect list" where
  \<comment> \<open>the four updates of \<open>startCondition\<close> and \<open>addCondition\<close>\<close>
  "applyAttributes e a =
     (if env_player e then
        (let a1 = updatePercentSkills e a; a2 = updatePercentStats e a1
         in (a2, updateSkills a1 @ updateStats a2))
      else (a, []))"

section \<open>Damage\<close>

partial_function (option) damage_values ::
  "(int \<Rightarrow> int \<Rightarrow> int \<Rightarrow> bool) \<Rightarrow> int \<Rightarrow> int \<Rightarrow> int \<Rightarrow> (int list \<times> int) option" where
  \<comment> \<open>\<open>do { sum += i; list.push_back(i); } while (x1 < x2)\<close>\<close>
  "damage_values closer med i acc =
     (let acc' = acc + i
      in if closer acc' i med
         then do { (vs, s) \<leftarrow> damage_values closer med i acc'; Some (i # vs, s) }
         else Some ([i], acc'))"

fun damage_rounds ::
  "(int \<Rightarrow> int \<Rightarrow> int \<Rightarrow> bool) \<Rightarrow> int \<Rightarrow> nat \<Rightarrow> nat \<Rightarrow> int \<Rightarrow> int list option" where
  \<comment> \<open>\<open>for (i = start; i > 0; --i)\<close>\<close>
  "damage_rounds closer amount start 0 acc = Some []"
| "damage_rounds closer amount start (Suc j) acc =
     (let i = Suc j; n = start + 1 - i; med = (int n * amount) div int start
      in do {
        (vs, s) \<leftarrow> damage_values closer med (int i) acc;
        ws \<leftarrow> damage_rounds closer amount start j s;
        Some (vs @ ws)
      })"

definition generateDamageList :: "(int \<Rightarrow> int \<Rightarrow> int \<Rightarrow> bool) \<Rightarrow> int \<Rightarrow> int \<Rightarrow> int list option" where
  "generateDamageList closer amount start = damage_rounds closer \<bar>amount\<bar> (nat start) (nat start) 0"

definition getTotalDamage :: "damage_data \<Rightarrow> i32" where
  "getTotalDamage d =
     abs32 (if damageList d \<noteq> [] then sum_list (map iv_value (damageList d))
            else minDamage d + of_int (sint (maxDamage d - minDamage d) sdiv 2))"

definition updateCondition_damage :: "condition \<Rightarrow> damage_data \<Rightarrow> condition \<Rightarrow> damage_data \<Rightarrow> bool" where
  "updateCondition_damage c d new nd =
     (if forceUpdate nd then True
      else if ticks c = - 1 \<and> sint (ticks new) > 0 then False
      else sint (getTotalDamage nd) > sint (getTotalDamage d))"

definition EVENT_CREATURE_THINK_INTERVAL :: i32 where "EVENT_CREATURE_THINK_INTERVAL = 1000"

fun add_rounds :: "int \<Rightarrow> nat \<Rightarrow> i32 \<Rightarrow> i32 \<Rightarrow> damage_data \<Rightarrow> condition \<Rightarrow> damage_data \<times> condition" where
  "add_rounds now 0 time v d c = (d, c)"
| "add_rounds now (Suc n) time v d c =
     (let d' = d\<lparr>damageList := damageList d @ [\<lparr>timeLeft = time, iv_value = v, iv_interval = time\<rparr>]\<rparr>;
          c' = (if ticks c \<noteq> - 1 then setTicks now (ticks c + time) c else c)
      in add_rounds now n time v d' c')"

definition addDamage :: "int \<Rightarrow> i32 \<Rightarrow> i32 \<Rightarrow> i32 \<Rightarrow> condition \<Rightarrow> bool \<times> condition" where
  "addDamage now rounds time v c =
     (case kind c of
        Damage d \<Rightarrow>
          (let time = (if sint time < sint EVENT_CREATURE_THINK_INTERVAL
                       then EVENT_CREATURE_THINK_INTERVAL else time)
           in if rounds = - 1 then
                (let c1 = c\<lparr>kind := Damage (d\<lparr>periodDamage := v\<rparr>)\<rparr>;
                     c2 = snd (setParam PARAM_TICKINTERVAL time c1)
                 in (True, snd (setParam PARAM_TICKS (- 1) c2)))
              else if sint (periodDamage d) > 0 then (False, c)
              else (let (d', c') = add_rounds now (nat (sint rounds)) time v d c
                    in (True, c'\<lparr>kind := Damage d'\<rparr>)))
      | _ \<Rightarrow> (False, c))"

definition half_away :: "i32 \<Rightarrow> i32" where
  \<comment> \<open>\<open>std::round(value / 2.)\<close> rounds halves away from zero\<close>
  "half_away v = (if sint v < 0 then of_int (- ((- sint v + 1) div 2)) else of_int ((sint v + 1) div 2))"

definition doDamage :: "cond_env \<Rightarrow> condition \<Rightarrow> damage_data \<Rightarrow> i32 \<Rightarrow> bool \<times> creature_effect list" where
  "doDamage e c d healthChange =
     (if env_suppress e (conditionType c) then (True, [])
      else
        let v = (if dmg_field d \<and> env_player e \<and> env_attackerPlayer e (dmg_owner d)
                 then half_away healthChange else healthChange)
        in if \<not> env_attackable e \<or> \<not> env_canCombat e (dmg_owner d)
           then (False, if \<not> env_ghost e then [PoffEffect] else [])
           else if env_blocked e v then (False, [])
           else (env_changeHealth e v, [CombatDamage v (ConditionToDamageType (conditionType c))]))"

definition getNextDamage :: "condition \<Rightarrow> damage_data \<Rightarrow> (i32 \<times> damage_data) option" where
  \<comment> \<open>\<open>None\<close> is \<open>return false\<close>\<close>
  "getNextDamage c d =
     (if periodDamage d \<noteq> 0 then Some (periodDamage d, d)
      else case damageList d of
             [] \<Rightarrow> None
           | i # rest \<Rightarrow> Some (iv_value i, if ticks c \<noteq> - 1 then d\<lparr>damageList := rest\<rparr> else d))"

text \<open>
  The start damage when none is set: \<open>std::max<int32_t>(1, std::ceil(amount / 20.0))\<close>, which is exact
  on 32-bit integers.
\<close>

definition first_damage :: "i32 \<Rightarrow> damage_data \<Rightarrow> i32" where
  "first_damage amount d =
     (if sint (startDamage d) > sint (maxDamage d) then maxDamage d
      else if startDamage d = 0 then of_int (max 1 (- ((- sint amount) div 20)))
      else startDamage d)"

definition set_damage :: "damage_data \<Rightarrow> condition \<Rightarrow> condition" where
  "set_damage d c = c\<lparr>kind := Damage d\<rparr>"

fun add_values :: "int \<Rightarrow> i32 \<Rightarrow> int list \<Rightarrow> condition \<Rightarrow> condition" where
  \<comment> \<open>\<open>addDamage(1, tickInterval, -value)\<close> for each value of the list\<close>
  "add_values now time [] c = c"
| "add_values now time (v # vs) c = add_values now time vs (snd (addDamage now 1 time (- of_int v) c))"

definition init_damage :: "cond_env \<Rightarrow> condition \<Rightarrow> damage_data \<Rightarrow> (bool \<times> condition) option" where
  "init_damage e c d =
     (if periodDamage d \<noteq> 0 then Some (True, c)
      else if damageList d = [] then
        (let c1 = setTicks (env_now e) 0 c;
             amount = env_random e (minDamage d) (maxDamage d)
         in if amount \<noteq> 0 then do {
              let d1 = d\<lparr>startDamage := first_damage amount d\<rparr>;
              vs \<leftarrow> generateDamageList (env_closer e) (sint amount) (sint (startDamage d1));
              let c2 = add_values (env_now e) (tickInterval d1) vs (set_damage d1 c1);
              Some (vs \<noteq> [], c2)
            }
            else Some (False, c1))
      else Some (True, c))"

definition first_round :: "cond_env \<Rightarrow> condition \<Rightarrow> bool \<times> condition \<times> creature_effect list" where
  \<comment> \<open>\<open>if (!delayed) { if (getNextDamage(damage)) return doDamage(creature, damage); } return true\<close>\<close>
  "first_round e c =
     (case kind c of
        Damage d \<Rightarrow>
          (if delayed d then (True, c, [])
           else case getNextDamage c d of
                  None \<Rightarrow> (True, c, [])
                | Some (v, d') \<Rightarrow>
                    (let (ok, fx) = doDamage e (set_damage d' c) d' v in (ok, set_damage d' c, fx)))
      | _ \<Rightarrow> (True, c, []))"

text \<open>\<open>Creature::onTickCondition\<close>: a field of the condition's own damage keeps the round.\<close>

definition onTickCondition :: "cond_env \<Rightarrow> u32 \<Rightarrow> bool \<Rightarrow> bool" where
  "onTickCondition e t bRemove =
     (case env_field e of
        None \<Rightarrow> bRemove
      | Some combat \<Rightarrow>
          if ConditionToDamageType t = COMBAT_NONE then bRemove
          else combat \<noteq> ConditionToDamageType t)"

definition execute_damage ::
  "cond_env \<Rightarrow> i32 \<Rightarrow> condition \<Rightarrow> damage_data \<Rightarrow> bool \<times> condition \<times> creature_effect list" where
  "execute_damage e interval c d =
     (if periodDamage d \<noteq> 0 then
        (let d1 = d\<lparr>periodDamageTick := periodDamageTick d + interval\<rparr>;
             due = sint (periodDamageTick d1) \<ge> sint (tickInterval d1);
             d2 = (if due then d1\<lparr>periodDamageTick := 0\<rparr> else d1);
             fx = (if due then snd (doDamage e c d2 (periodDamage d2)) else []);
             (alive, c') = executeCondition_base e interval (set_damage d2 c)
         in (alive, c', fx))
      else case damageList d of
        [] \<Rightarrow> (let (alive, c') = executeCondition_base e interval c in (alive, c', []))
      | i # rest \<Rightarrow>
          (let bRemove = onTickCondition e (conditionType c) (ticks c \<noteq> - 1);
               i1 = i\<lparr>timeLeft := timeLeft i - interval\<rparr>;
               due = sint (timeLeft i1) \<le> 0;
               d1 = d\<lparr>damageList :=
                        (if due then (if bRemove then rest else i1\<lparr>timeLeft := iv_interval i1\<rparr> # rest)
                         else i1 # rest)\<rparr>;
               fx = (if due then snd (doDamage e c d1 (iv_value i1)) else []);
               c1 = set_damage d1 c;
               c2 = (if \<not> bRemove \<and> sint (ticks c1) > 0 then c1\<lparr>endTime := endTime c1 + sint interval\<rparr> else c1);
               (alive, c') = executeCondition_base e (if bRemove then interval else 0) c2
           in (alive, c', fx)))"

section \<open>The operations\<close>

definition formula_speed :: "cond_env \<Rightarrow> speed_data \<Rightarrow> speed_data" where
  \<comment> \<open>\<open>if (speedDelta == 0) speedDelta = uniform_random(min, max)\<close> of the formula\<close>
  "formula_speed e v =
     (if speedDelta v = 0
      then (let (lo, hi) = env_formula e v (env_baseSpeed e) in v\<lparr>speedDelta := env_random e lo hi\<rparr>)
      else v)"

definition light_interval :: "i32 \<Rightarrow> u8 \<Rightarrow> u32 option" where
  \<comment> \<open>\<open>ticks / lightInfo.level\<close>: undefined when the level is zero\<close>
  "light_interval n level = (if level = 0 then None else Some (of_int (sint n sdiv uint level)))"

definition startCondition :: "cond_env \<Rightarrow> condition \<Rightarrow> cond_step" where
  "startCondition e c0 =
     (let c = startCondition_base e c0
      in case kind c of
           Generic \<Rightarrow> Some (True, c, [])
         | Regeneration _ \<Rightarrow> Some (True, c, [])
         | Soul _ \<Rightarrow> Some (True, c, [])
         | Attributes a \<Rightarrow>
             (let (a', fx) = applyAttributes e a in Some (True, c\<lparr>kind := Attributes a'\<rparr>, fx))
         | Invisible \<Rightarrow> Some (True, c, [ChangeVisible False])
         | Damage d \<Rightarrow> do {
             (ok, c1) \<leftarrow> init_damage e c d;
             Some (if \<not> ok then (False, c1, []) else first_round e c1)
           }
         | Speed v \<Rightarrow>
             (let v' = formula_speed e v in Some (True, c\<lparr>kind := Speed v'\<rparr>, [ChangeSpeed (speedDelta v')]))
         | Outfit f \<Rightarrow> Some (True, c, [ChangeOutfit f])
         | Light l \<Rightarrow> do {
             n \<leftarrow> light_interval (ticks c) (light_level l);
             Some (True, c\<lparr>kind := Light (l\<lparr>internalLightTicks := 0, lightChangeInterval := n\<rparr>)\<rparr>,
                   [SetLight (light_level l) (light_color l), ChangeLight])
           })"

definition execute_regeneration ::
  "cond_env \<Rightarrow> i32 \<Rightarrow> bool \<Rightarrow> regeneration_data \<Rightarrow> regeneration_data \<times> creature_effect list" where
  "execute_regeneration e interval buff r0 =
     (let r1 = r0\<lparr>internalHealthTicks := internalHealthTicks r0 + interval,
                  internalManaTicks := internalManaTicks r0 + interval\<rparr>
      in if env_protection e then (r1, [])
         else
           let health = internalHealthTicks r1 \<ge> healthTicks r1;
               gain = env_healed e (healthGain r1);
               r2 = (if health then r1\<lparr>internalHealthTicks := 0\<rparr> else r1);
               fx1 = (if health
                      then ChangeHealth (healthGain r1) #
                           (if buff \<and> sint gain > 0 \<and> env_player e then [HealMessage gain] else [])
                      else []);
               mana = internalManaTicks r2 \<ge> manaTicks r2
           in (if mana then r2\<lparr>internalManaTicks := 0\<rparr> else r2,
               fx1 @ (if mana then [ChangeMana (manaGain r2)] else [])))"

definition execute_soul :: "cond_env \<Rightarrow> i32 \<Rightarrow> soul_data \<Rightarrow> soul_data \<times> creature_effect list" where
  "execute_soul e interval s0 =
     (let s1 = s0\<lparr>internalSoulTicks := internalSoulTicks s0 + interval\<rparr>
      in if env_player e \<and> \<not> env_protection e \<and> internalSoulTicks s1 \<ge> soulTicks s1
         then (s1\<lparr>internalSoulTicks := 0\<rparr>, [ChangeSoul (soulGain s1)])
         else (s1, []))"

definition execute_light :: "cond_env \<Rightarrow> i32 \<Rightarrow> light_data \<Rightarrow> light_data \<times> creature_effect list" where
  "execute_light e interval l0 =
     (let l1 = l0\<lparr>internalLightTicks := internalLightTicks l0 + interval\<rparr>
      in if internalLightTicks l1 \<ge> lightChangeInterval l1
         then (l1\<lparr>internalLightTicks := 0\<rparr>,
               if fst (env_light e) > 0
               then [SetLight (fst (env_light e) - 1) (snd (env_light e)), ChangeLight] else [])
         else (l1, []))"

definition executeCondition :: "cond_env \<Rightarrow> i32 \<Rightarrow> condition \<Rightarrow> bool \<times> condition \<times> creature_effect list" where
  "executeCondition e interval c =
     (case kind c of
        Damage d \<Rightarrow> execute_damage e interval c d
      | k \<Rightarrow>
          (let (k', fx) =
             (case k of
                Regeneration r \<Rightarrow> map_prod Regeneration id (execute_regeneration e interval (isBuff c) r)
              | Soul s \<Rightarrow> map_prod Soul id (execute_soul e interval s)
              | Light l \<Rightarrow> map_prod Light id (execute_light e interval l)
              | _ \<Rightarrow> (k, []));
             (alive, c') = executeCondition_base e interval (c\<lparr>kind := k'\<rparr>)
           in (alive, c', fx)))"

definition endCondition :: "cond_env \<Rightarrow> condition \<Rightarrow> creature_effect list" where
  "endCondition e c =
     (case kind c of
        Attributes a \<Rightarrow> endAttributes e a
      | Invisible \<Rightarrow> if \<not> env_invisible e then [ChangeVisible True] else []
      | Speed v \<Rightarrow> [ChangeSpeed (- speedDelta v)]
      | Outfit _ \<Rightarrow> [RestoreOutfit]
      | Light _ \<Rightarrow> [NormalLight, ChangeLight]
      | _ \<Rightarrow> [])"

definition add_damage_condition ::
  "cond_env \<Rightarrow> condition \<Rightarrow> damage_data \<Rightarrow> condition \<Rightarrow> damage_data \<Rightarrow> (condition \<times> creature_effect list) option" where
  "add_damage_condition e c d new nd =
     (if conditionType new \<noteq> conditionType c \<or> \<not> updateCondition_damage c d new nd then Some (c, [])
      else
        let c1 = setTicks (env_now e) (ticks new) c;
            nextTimeLeft = (case damageList d of i # _ \<Rightarrow> timeLeft i | [] \<Rightarrow> tickInterval nd);
            d1 = d\<lparr>maxDamage := maxDamage nd, minDamage := minDamage nd, startDamage := startDamage nd,
                   periodDamage := periodDamage nd, tickInterval := tickInterval nd,
                   dmg_owner := dmg_owner nd, damageList := damageList nd\<rparr>
        in do {
          (ok, c2) \<leftarrow> init_damage e (set_damage d1 c1) d1;
          (if \<not> ok then Some (c2, [])
           else
             let c3 = (case kind c2 of
                         Damage d2 \<Rightarrow>
                           set_damage (d2\<lparr>damageList :=
                             (case damageList d2 of i # r \<Rightarrow> i\<lparr>timeLeft := nextTimeLeft\<rparr> # r | [] \<Rightarrow> [])\<rparr>) c2
                       | _ \<Rightarrow> c2);
                 (_, c4, fx) = first_round e c3
             in Some (c4, fx))
        })"

definition add_speed_condition ::
  "cond_env \<Rightarrow> condition \<Rightarrow> speed_data \<Rightarrow> condition \<Rightarrow> speed_data \<Rightarrow> condition \<times> creature_effect list" where
  "add_speed_condition e c v new nv =
     (if conditionType c \<noteq> conditionType new then (c, [])
      else if ticks c = - 1 \<and> sint (ticks new) > 0 then (c, [])
      else
        let c1 = setTicks (env_now e) (ticks new) c;
            v1 = formula_speed e (v\<lparr>speedDelta := speedDelta nv, mina := mina nv, minb := minb nv,
                                    maxa := maxa nv, maxb := maxb nv\<rparr>);
            newSpeedChange = speedDelta v1 - speedDelta v
        in (c1\<lparr>kind := Speed v1\<rparr>, if newSpeedChange \<noteq> 0 then [ChangeSpeed newSpeedChange] else []))"

definition addCondition :: "cond_env \<Rightarrow> condition \<Rightarrow> condition \<Rightarrow> (condition \<times> creature_effect list) option" where
  \<comment> \<open>\<open>c->addCondition(creature, new)\<close>; casting \<open>new\<close> to another subclass is undefined\<close>
  "addCondition e c new =
     (let update = updateCondition_base e c new;
          c1 = setTicks (env_now e) (ticks new) c
      in case (kind c, kind new) of
           (Damage d, Damage nd) \<Rightarrow> add_damage_condition e c d new nd
         | (Speed v, Speed nv) \<Rightarrow> Some (add_speed_condition e c v new nv)
         | (Generic, _) \<Rightarrow> Some (if update then c1 else c, [])
         | (Invisible, _) \<Rightarrow> Some (if update then c1 else c, [])
         | (Attributes a, Attributes na) \<Rightarrow>
             (if \<not> update then Some (c, [])
              else
                let a1 = a\<lparr>skills := skills na, skillsPercent := skillsPercent na,
                           stats := stats na, statsPercent := statsPercent na\<rparr>;
                    (a2, fx) = applyAttributes e a1
                in Some (c1\<lparr>kind := Attributes a2\<rparr>, endAttributes e a @ fx))
         | (Regeneration r, Regeneration nr) \<Rightarrow>
             Some (if update
                   then c1\<lparr>kind := Regeneration (r\<lparr>healthTicks := healthTicks nr, manaTicks := manaTicks nr,
                                                  healthGain := healthGain nr, manaGain := manaGain nr\<rparr>)\<rparr>
                   else c, [])
         | (Soul s, Soul ns) \<Rightarrow>
             Some (if update then c1\<lparr>kind := Soul (s\<lparr>soulTicks := soulTicks ns, soulGain := soulGain ns\<rparr>)\<rparr>
                   else c, [])
         | (Outfit f, Outfit nf) \<Rightarrow>
             Some (if update then (c1\<lparr>kind := Outfit nf\<rparr>, [ChangeOutfit nf]) else (c, []))
         | (Light l, Light nl) \<Rightarrow>
             (if \<not> update then Some (c, [])
              else do {
                n \<leftarrow> light_interval (ticks c1) (light_level nl);
                Some (c1\<lparr>kind := Light (l\<lparr>light_level := light_level nl, light_color := light_color nl,
                                          internalLightTicks := 0, lightChangeInterval := n\<rparr>)\<rparr>,
                      [SetLight (light_level nl) (light_color nl), ChangeLight])
              })
         | _ \<Rightarrow> if update then None else Some (c, []))"

section \<open>Icons\<close>

definition ICON_POISON :: u32 where "ICON_POISON = 0x1"
definition ICON_BURN :: u32 where "ICON_BURN = 0x2"
definition ICON_ENERGY :: u32 where "ICON_ENERGY = 0x4"
definition ICON_DRUNK :: u32 where "ICON_DRUNK = 0x8"
definition ICON_MANASHIELD :: u32 where "ICON_MANASHIELD = 0x10"
definition ICON_PARALYZE :: u32 where "ICON_PARALYZE = 0x20"
definition ICON_HASTE :: u32 where "ICON_HASTE = 0x40"
definition ICON_SWORDS :: u32 where "ICON_SWORDS = 0x80"
definition ICON_DROWNING :: u32 where "ICON_DROWNING = 0x100"
definition ICON_FREEZING :: u32 where "ICON_FREEZING = 0x200"
definition ICON_DAZZLED :: u32 where "ICON_DAZZLED = 0x400"
definition ICON_CURSED :: u32 where "ICON_CURSED = 0x800"
definition ICON_PARTY_BUFF :: u32 where "ICON_PARTY_BUFF = 0x1000"

definition getIcons :: "condition \<Rightarrow> u32" where
  "getIcons c =
     (let icons = (if isBuff c then ICON_PARTY_BUFF else 0); t = conditionType c
      in icons OR
         (case kind c of
            Damage _ \<Rightarrow>
              if t = CONDITION_FIRE then ICON_BURN
              else if t = CONDITION_ENERGY then ICON_ENERGY
              else if t = CONDITION_DROWN then ICON_DROWNING
              else if t = CONDITION_POISON then ICON_POISON
              else if t = CONDITION_FREEZING then ICON_FREEZING
              else if t = CONDITION_DAZZLED then ICON_DAZZLED
              else if t = CONDITION_CURSED then ICON_CURSED
              else 0
          | Speed _ \<Rightarrow>
              if t = CONDITION_HASTE then ICON_HASTE else if t = CONDITION_PARALYZE then ICON_PARALYZE else 0
          | Outfit _ \<Rightarrow> 0
          | Light _ \<Rightarrow> 0
          | _ \<Rightarrow>
              if t = CONDITION_MANASHIELD then ICON_MANASHIELD
              else if t = CONDITION_INFIGHT then ICON_SWORDS
              else if t = CONDITION_DRUNK then ICON_DRUNK
              else 0))"

section \<open>The conditions of a creature\<close>

text \<open>
  \<open>creature.cpp\<close>: the list of conditions and what is done to it. Effects accumulate in the order in
  which they happen; the delayed tasks of a paralysed walker are not run (\<open>walkDelay\<close> is a parameter,
  and a positive one refuses as the code does). \<open>cr_log\<close> is the history of effects.
\<close>

record creature_state =
  cr_conditions :: "condition list"
  cr_log :: "creature_effect list"

definition same_slot :: "condition \<Rightarrow> condition \<Rightarrow> bool" where
  "same_slot c d \<longleftrightarrow> conditionType c = conditionType d \<and> cond_id c = cond_id d \<and> subId c = subId d"

definition hasCondition :: "cond_env \<Rightarrow> u32 \<Rightarrow> u32 \<Rightarrow> condition list \<Rightarrow> bool" where
  "hasCondition e t sub cs \<longleftrightarrow> \<not> env_suppress e t \<and>
     (\<exists>c \<in> set cs. conditionType c = t \<and> subId c = sub \<and> endTime c \<ge> env_now e)"

definition getCondition :: "u32 \<Rightarrow> 8 word \<Rightarrow> u32 \<Rightarrow> condition list \<Rightarrow> condition option" where
  "getCondition t i sub cs =
     List.find (\<lambda>c. conditionType c = t \<and> cond_id c = i \<and> subId c = sub) cs"

fun removeConditions_loop ::
  "cond_env \<Rightarrow> bool \<Rightarrow> u32 \<Rightarrow> condition list \<Rightarrow> condition list \<times> creature_effect list" where
  \<comment> \<open>\<open>refuse\<close>: \<open>!force && type == CONDITION_PARALYZE && getWalkDelay() > 0\<close>, which stops the loop\<close>
  "removeConditions_loop e refuse t [] = ([], [])"
| "removeConditions_loop e refuse t (c # cs) =
     (if conditionType c \<noteq> t
      then (let (cs', fx) = removeConditions_loop e refuse t cs in (c # cs', fx))
      else if refuse then (c # cs, [])
      else (let (cs', fx) = removeConditions_loop e refuse t cs in (cs', endCondition e c @ fx)))"

definition removeCondition :: "cond_env \<Rightarrow> bool \<Rightarrow> int \<Rightarrow> u32 \<Rightarrow> creature_state \<Rightarrow> creature_state" where
  "removeCondition e force walkDelay t s =
     (let (cs, fx) = removeConditions_loop e (\<not> force \<and> t = CONDITION_PARALYZE \<and> walkDelay > 0) t (cr_conditions s)
      in \<lparr>cr_conditions = cs, cr_log = cr_log s @ fx\<rparr>)"

definition onAddCondition :: "cond_env \<Rightarrow> int \<Rightarrow> u32 \<Rightarrow> creature_state \<Rightarrow> creature_state" where
  "onAddCondition e walkDelay t s =
     (if t = CONDITION_PARALYZE \<and> hasCondition e CONDITION_HASTE 0 (cr_conditions s)
      then removeCondition e False walkDelay CONDITION_HASTE s
      else if t = CONDITION_HASTE \<and> hasCondition e CONDITION_PARALYZE 0 (cr_conditions s)
      then removeCondition e False walkDelay CONDITION_PARALYZE s
      else s)"

fun replace_first :: "('a \<Rightarrow> bool) \<Rightarrow> 'a \<Rightarrow> 'a list \<Rightarrow> 'a list" where
  "replace_first P y [] = []"
| "replace_first P y (x # xs) = (if P x then y # xs else x # replace_first P y xs)"

definition creature_addCondition ::
  "cond_env \<Rightarrow> bool \<Rightarrow> int \<Rightarrow> condition \<Rightarrow> creature_state \<Rightarrow> (bool \<times> creature_state) option" where
  "creature_addCondition e force walkDelay c s =
     (if \<not> force \<and> conditionType c = CONDITION_HASTE \<and>
         hasCondition e CONDITION_PARALYZE 0 (cr_conditions s) \<and> walkDelay > 0
      then Some (False, s)
      else case getCondition (conditionType c) (cond_id c) (subId c) (cr_conditions s) of
             Some prevCond \<Rightarrow> do {
               (c', fx) \<leftarrow> addCondition e prevCond c;
               Some (True, \<lparr>cr_conditions = replace_first (\<lambda>d. same_slot d c) c' (cr_conditions s),
                            cr_log = cr_log s @ fx\<rparr>)
             }
           | None \<Rightarrow> do {
               (ok, c', fx) \<leftarrow> startCondition e c;
               (if ok
                then Some (True, onAddCondition e walkDelay (conditionType c')
                             \<lparr>cr_conditions = cr_conditions s @ [c'], cr_log = cr_log s @ fx\<rparr>)
                else Some (False, s\<lparr>cr_log := cr_log s @ fx\<rparr>))
             })"

fun executeConditions_loop ::
  "cond_env \<Rightarrow> i32 \<Rightarrow> condition list \<Rightarrow> condition list \<times> creature_effect list" where
  "executeConditions_loop e interval [] = ([], [])"
| "executeConditions_loop e interval (c # cs) =
     (let (alive, c', fx) = executeCondition e interval c;
          (cs', gx) = executeConditions_loop e interval cs
      in if alive then (c' # cs', fx @ gx) else (cs', fx @ endCondition e c' @ gx))"

definition executeConditions :: "cond_env \<Rightarrow> i32 \<Rightarrow> creature_state \<Rightarrow> creature_state" where
  "executeConditions e interval s =
     (let (cs, fx) = executeConditions_loop e interval (cr_conditions s)
      in \<lparr>cr_conditions = cs, cr_log = cr_log s @ fx\<rparr>)"

datatype cond_op =
    AddCondition cond_env bool int condition
  | RemoveCondition cond_env bool int u32
  | ExecuteConditions cond_env i32

fun op_env :: "cond_op \<Rightarrow> cond_env" where
  "op_env (AddCondition e _ _ _) = e"
| "op_env (RemoveCondition e _ _ _) = e"
| "op_env (ExecuteConditions e _) = e"

fun run_cond_op :: "cond_op \<Rightarrow> creature_state \<Rightarrow> creature_state option" where
  "run_cond_op (AddCondition e force delay c) s = map_option snd (creature_addCondition e force delay c s)"
| "run_cond_op (RemoveCondition e force delay t) s = Some (removeCondition e force delay t s)"
| "run_cond_op (ExecuteConditions e interval) s = Some (executeConditions e interval s)"

fun run_cond_ops :: "cond_op list \<Rightarrow> creature_state \<Rightarrow> creature_state option" where
  "run_cond_ops [] s = Some s"
| "run_cond_ops (x # xs) s = do { s' \<leftarrow> run_cond_op x s; run_cond_ops xs s' }"

end
