(* ===== verification/ConditionLedger.thy ===== *)
theory ConditionLedger
  imports ConditionRun
begin

text \<open>
  What conditions add to a creature while they last (speed, skill modifiers) is given back when they
  end: the contract is a locale over the operations of \<open>ConditionRun\<close>, interpreted for each quantity.
\<close>

section \<open>Bookkeeping\<close>

text \<open>
  A quantity that conditions add to while they last: \<open>share\<close> is what one condition contributes, \<open>net\<close>
  what a list of effects has done to the creature. The laws say that starting adds the share, ending
  takes it away, merging adjusts it and executing leaves it alone; then the creature's total is always
  the sum over its present conditions.
\<close>

locale condition_ledger =
  fixes env_ok :: "cond_env \<Rightarrow> bool"
    and net :: "creature_effect list \<Rightarrow> 'g::ab_group_add"
    and share :: "condition \<Rightarrow> 'g"
  assumes net_append: "net (xs @ ys) = net xs + net ys"
    and net_Nil: "net [] = 0"
    and net_start: "env_ok e \<Longrightarrow> startCondition e c = Some (ok, c', fx) \<Longrightarrow>
      net fx = (if ok then share c' else 0)"
    and net_add: "env_ok e \<Longrightarrow> addCondition e c new = Some (c', fx) \<Longrightarrow> net fx = share c' - share c"
    and net_execute: "env_ok e \<Longrightarrow> executeCondition e interval c = (alive, c', fx) \<Longrightarrow>
      net fx = 0 \<and> share c' = share c"
    and net_end: "env_ok e \<Longrightarrow> net (endCondition e c) = - share c"
begin

definition balanced :: "creature_state \<Rightarrow> bool" where
  "balanced s \<longleftrightarrow> net (cr_log s) = sum_list (map share (cr_conditions s))"

lemma balanced_empty: "balanced \<lparr>cr_conditions = [], cr_log = []\<rparr>"
  by (simp add: balanced_def net_Nil)

lemma removeConditions_net:
  "env_ok e \<Longrightarrow> removeConditions_loop e refuse t cs = (cs', fx) \<Longrightarrow>
     net fx = sum_list (map share cs') - sum_list (map share cs)"
proof (induction cs arbitrary: cs' fx)
  case Nil
  then show ?case by (simp add: net_Nil)
next
  case (Cons c cs)
  obtain ds gx where r: "removeConditions_loop e refuse t cs = (ds, gx)" by fastforce
  from Cons.IH [OF Cons.prems(1) r] Cons.prems r show ?case
    by (auto simp: net_append net_Nil net_end split: if_splits)
qed

lemma balanced_remove: "env_ok e \<Longrightarrow> balanced s \<Longrightarrow> balanced (removeCondition e force d t s)"
  using removeConditions_net [of e "\<not> force \<and> t = CONDITION_PARALYZE \<and> d > 0" t "cr_conditions s"]
  by (auto simp: balanced_def removeCondition_def net_append split: prod.split)

lemma balanced_onAdd: "env_ok e \<Longrightarrow> balanced s \<Longrightarrow> balanced (onAddCondition e d t s)"
  by (simp add: onAddCondition_def balanced_remove)

lemma executeConditions_net:
  "env_ok e \<Longrightarrow> executeConditions_loop e interval cs = (cs', fx) \<Longrightarrow>
     net fx = sum_list (map share cs') - sum_list (map share cs)"
proof (induction cs arbitrary: cs' fx)
  case Nil
  then show ?case by (simp add: net_Nil)
next
  case (Cons c cs)
  obtain ds gx where r: "executeConditions_loop e interval cs = (ds, gx)" by fastforce
  obtain alive c' hx where x: "executeCondition e interval c = (alive, c', hx)"
    by (cases "executeCondition e interval c")
  from net_execute [OF Cons.prems(1) x] Cons.IH [OF Cons.prems(1) r] Cons.prems r x show ?case
    by (auto simp: net_append net_Nil net_end split: if_splits)
qed

lemma balanced_execute: "env_ok e \<Longrightarrow> balanced s \<Longrightarrow> balanced (executeConditions e interval s)"
  using executeConditions_net [of e interval "cr_conditions s"]
  by (auto simp: balanced_def executeConditions_def net_append split: prod.split)

lemma find_replace_share:
  "List.find P cs = Some c \<Longrightarrow>
     sum_list (map share (replace_first P d cs)) = sum_list (map share cs) + (share d - share c)"
  by (induction cs) (auto split: if_splits)

lemma balanced_add:
  assumes e: "env_ok e" and b: "balanced s" and a: "creature_addCondition e force d c s = Some (ok, s')"
  shows "balanced s'"
proof (cases "\<not> force \<and> conditionType c = CONDITION_HASTE \<and>
         hasCondition e CONDITION_PARALYZE 0 (cr_conditions s) \<and> d > 0")
  case True
  with a b show ?thesis by (simp add: creature_addCondition_def)
next
  case False
  show ?thesis
  proof (cases "getCondition (conditionType c) (cond_id c) (subId c) (cr_conditions s)")
    case None
    with a False obtain c' fx ok' where st: "startCondition e c = Some (ok', c', fx)"
      and s': "if ok' then s' = onAddCondition e d (conditionType c')
                  \<lparr>cr_conditions = cr_conditions s @ [c'], cr_log = cr_log s @ fx\<rparr>
               else s' = s\<lparr>cr_log := cr_log s @ fx\<rparr>"
      by (auto simp: creature_addCondition_def split: bind_splits if_splits)
    from net_start [OF e st] b
    have "balanced (if ok' then \<lparr>cr_conditions = cr_conditions s @ [c'], cr_log = cr_log s @ fx\<rparr>
                    else s\<lparr>cr_log := cr_log s @ fx\<rparr>)"
      by (simp add: balanced_def net_append)
    with s' balanced_onAdd [OF e] show ?thesis by (auto split: if_splits)
  next
    case (Some p)
    with a False obtain c' fx where ad: "addCondition e p c = Some (c', fx)"
      and s': "s' = \<lparr>cr_conditions = replace_first (\<lambda>x. same_slot x c) c' (cr_conditions s),
                      cr_log = cr_log s @ fx\<rparr>"
      by (auto simp: creature_addCondition_def split: bind_splits if_splits)
    have "List.find (\<lambda>x. same_slot x c) (cr_conditions s) = Some p"
      using Some by (simp add: getCondition_def same_slot_def [abs_def])
    with net_add [OF e ad] b s' find_replace_share show ?thesis
      by (simp add: balanced_def net_append)
  qed
qed

lemma balanced_op: "env_ok (op_env x) \<Longrightarrow> balanced s \<Longrightarrow> run_cond_op x s = Some s' \<Longrightarrow> balanced s'"
  by (cases x) (auto simp: balanced_remove balanced_execute intro: balanced_add)

lemma balanced_run:
  "list_all (\<lambda>x. env_ok (op_env x)) xs \<Longrightarrow> balanced s \<Longrightarrow> run_cond_ops xs s = Some s' \<Longrightarrow> balanced s'"
  by (induction xs arbitrary: s) (auto split: bind_splits intro: balanced_op)

end

text \<open>The speed.\<close>

definition speed_change :: "creature_effect \<Rightarrow> i32" where
  "speed_change x = (case x of ChangeSpeed v \<Rightarrow> v | _ \<Rightarrow> 0)"

definition net_speed :: "creature_effect list \<Rightarrow> i32" where
  "net_speed fx = sum_list (map speed_change fx)"

definition speed_share :: "condition \<Rightarrow> i32" where
  "speed_share c = (case kind c of Speed v \<Rightarrow> speedDelta v | _ \<Rightarrow> 0)"

text \<open>The modifier of a skill.\<close>

definition skill_change :: "nat \<Rightarrow> creature_effect \<Rightarrow> i32" where
  "skill_change i x = (case x of SetVarSkill j v \<Rightarrow> if i = j then v else 0 | _ \<Rightarrow> 0)"

definition net_skill :: "nat \<Rightarrow> creature_effect list \<Rightarrow> i32" where
  "net_skill i fx = sum_list (map (skill_change i) fx)"

definition skill_share :: "nat \<Rightarrow> condition \<Rightarrow> i32" where
  "skill_share i c =
     (case kind c of Attributes a \<Rightarrow> if i < length (skills a) then skills a ! i else 0 | _ \<Rightarrow> 0)"

lemma net_speed_simps [simp]:
  "net_speed [] = 0" "net_speed (x # xs) = speed_change x + net_speed xs"
  "net_speed (xs @ ys) = net_speed xs + net_speed ys"
  by (simp_all add: net_speed_def)

lemma net_skill_simps [simp]:
  "net_skill i [] = 0" "net_skill i (x # xs) = skill_change i x + net_skill i xs"
  "net_skill i (xs @ ys) = net_skill i xs + net_skill i ys"
  by (simp_all add: net_skill_def)

lemma speed_change_simps [simp]:
  "speed_change (ChangeSpeed v) = v" "speed_change (SetVarSkill i v) = 0" "speed_change SendSkills = 0"
  "speed_change (SetVarStats i v) = 0" "speed_change SendStats = 0" "speed_change (ChangeHealth v) = 0"
  "speed_change (ChangeMana v) = 0" "speed_change (ChangeSoul v) = 0" "speed_change (HealMessage v) = 0"
  "speed_change (ChangeVisible b) = 0" "speed_change (ChangeOutfit f) = 0" "speed_change RestoreOutfit = 0"
  "speed_change (SetLight l k) = 0" "speed_change NormalLight = 0" "speed_change ChangeLight = 0"
  "speed_change PoffEffect = 0" "speed_change (CombatDamage v t) = 0"
  by (simp_all add: speed_change_def)

lemma skill_change_simps [simp]:
  "skill_change i (ChangeSpeed v) = 0" "skill_change i (SetVarSkill j v) = (if i = j then v else 0)"
  "skill_change i SendSkills = 0" "skill_change i (SetVarStats j v) = 0" "skill_change i SendStats = 0"
  "skill_change i (ChangeHealth v) = 0" "skill_change i (ChangeMana v) = 0" "skill_change i (ChangeSoul v) = 0"
  "skill_change i (HealMessage v) = 0" "skill_change i (ChangeVisible b) = 0"
  "skill_change i (ChangeOutfit f) = 0" "skill_change i RestoreOutfit = 0" "skill_change i (SetLight l k) = 0"
  "skill_change i NormalLight = 0" "skill_change i ChangeLight = 0" "skill_change i PoffEffect = 0"
  "skill_change i (CombatDamage v t) = 0"
  by (simp_all add: skill_change_def)

lemma share_update [simp]:
  "speed_share (setTicks now n c) = speed_share c" "skill_share i (setTicks now n c) = skill_share i c"
  "speed_share (c\<lparr>ticks := n\<rparr>) = speed_share c" "skill_share i (c\<lparr>ticks := n\<rparr>) = skill_share i c"
  "speed_share (c\<lparr>endTime := t\<rparr>) = speed_share c" "skill_share i (c\<lparr>endTime := t\<rparr>) = skill_share i c"
  "kind (setTicks now n c) = kind c"
  by (simp_all add: speed_share_def skill_share_def setTicks_def)

text \<open>Damage moves neither, and a damage condition stays one.\<close>

lemma damage_net [simp]:
  "net_speed (snd (doDamage e c d v)) = 0" "net_skill i (snd (doDamage e c d v)) = 0"
  by (simp_all add: doDamage_def Let_def)

lemma kind_set_damage [simp]: "kind (set_damage d c) = Damage d"
  by (simp add: set_damage_def)

definition is_damage :: "condition \<Rightarrow> bool" where
  "is_damage c \<longleftrightarrow> (case kind c of Damage _ \<Rightarrow> True | _ \<Rightarrow> False)"

lemma is_damage_share:
  assumes "is_damage c"
  shows "speed_share c = 0" "skill_share i c = 0" "\<exists>d. kind c = Damage d"
  using assms by (auto simp: is_damage_def speed_share_def skill_share_def split: cond_kind.splits)

lemma setParam_is_damage: "is_damage c \<Longrightarrow> is_damage (snd (setParam p v c))"
  by (auto simp: is_damage_def setParam_def Let_def split: cond_kind.splits prod.splits)

lemma addDamage_is_damage:
  assumes "is_damage c"
  shows "is_damage (snd (addDamage now r t v c))"
proof -
  obtain d where d: "kind c = Damage d" using assms is_damage_share(3) by blast
  have k: "is_damage (x\<lparr>kind := Damage d'\<rparr>)" for x d' by (simp add: is_damage_def)
  show ?thesis
    using assms by (simp add: addDamage_def d Let_def k setParam_is_damage split: prod.split)
qed

lemma add_values_is_damage: "is_damage c \<Longrightarrow> is_damage (add_values now t vs c)"
  by (induction vs arbitrary: c) (simp_all add: addDamage_is_damage)

lemma init_damage_is_damage:
  assumes "init_damage e c d = Some (ok, c')" and "kind c = Damage d"
  shows "is_damage c'"
proof -
  have "is_damage c" "is_damage (setTicks n t c)" "is_damage (set_damage d' x)" for n t d' x
    using assms(2) by (simp_all add: is_damage_def)
  with assms(1) show ?thesis
    by (auto simp: init_damage_def Let_def intro!: add_values_is_damage split: if_splits bind_splits)
qed

lemma first_round_is_damage:
  assumes "is_damage c" and "first_round e c = (ok, c', fx)"
  shows "is_damage c' \<and> net_speed fx = 0 \<and> net_skill i fx = 0"
proof -
  obtain d where d: "kind c = Damage d" using assms(1) is_damage_share(3) by blast
  show ?thesis
  proof (cases "delayed d \<or> getNextDamage c d = None")
    case True
    with assms d show ?thesis by (auto simp: first_round_def split: if_splits)
  next
    case False
    then obtain v d' where n: "getNextDamage c d = Some (v, d')" by auto
    obtain ok' gx where g: "doDamage e (set_damage d' c) d' v = (ok', gx)" by fastforce
    from damage_net(1) [of e "set_damage d' c" d' v] damage_net(2) [of i e "set_damage d' c" d' v]
    show ?thesis using assms(2) d n g False by (auto simp: first_round_def is_damage_def)
  qed
qed

lemma executeCondition_base_share:
  "executeCondition_base e t c = (alive, c') \<Longrightarrow>
     speed_share c' = speed_share c \<and> skill_share i c' = skill_share i c \<and> kind c' = kind c"
  by (auto simp: executeCondition_base_def split: if_splits)

lemma execute_damage_share:
  assumes "kind c = Damage d" and "execute_damage e t c d = (alive, c', fx)"
  shows "is_damage c' \<and> net_speed fx = 0 \<and> net_skill i fx = 0"
proof -
  have base: "is_damage x' = is_damage x" if "executeCondition_base e k x = (b, x')" for k x b x'
    using executeCondition_base_share [OF that] by (simp add: is_damage_def)
  have sd: "is_damage (set_damage d' x)" for d' x by (simp add: is_damage_def)
  have ck: "is_damage c" using assms(1) by (simp add: is_damage_def)
  have upd: "is_damage (x\<lparr>endTime := n\<rparr>) = is_damage x" for x n by (simp add: is_damage_def)
  show ?thesis
    using assms(2)
    by (auto simp: execute_damage_def Let_def sd ck upd dest!: base
        split: if_splits list.splits prod.splits)
qed

text \<open>The effects of attributes.\<close>

lemma net_speed_var_effects [simp]:
  "net_speed (var_effects SetVarSkill SendSkills f t vs) = 0"
  "net_speed (var_effects SetVarStats SendStats f t vs) = 0"
  by (simp_all add: var_effects_def net_speed_def comp_def)

lemma net_skill_var_stats [simp]: "net_skill i (var_effects SetVarStats SendStats f t vs) = 0"
  by (simp add: var_effects_def net_skill_def comp_def)

lemma sum_list_delta:
  "sum_list (map (\<lambda>j. if i = j then g j else 0) (filter t [0..<n])) = (if i < n \<and> t i then g i else (0 :: i32))"
  by (induction n) auto

lemma net_skill_var_skills [simp]:
  "net_skill i (var_effects SetVarSkill SendSkills f t vs) = (if i < length vs \<and> t i then f (vs ! i) else 0)"
  using sum_list_delta [of i "\<lambda>j. f (vs ! j)" t "length vs"]
  by (simp add: var_effects_def net_skill_def comp_def)

lemma applyAttributes_net:
  assumes "applyAttributes e a = (a', fx)"
  shows "net_speed fx = 0"
    and "env_player e \<Longrightarrow> net_skill i fx = (if i < length (skills a') then skills a' ! i else 0)"
  using assms
  by (auto simp: applyAttributes_def updateSkills_def updateStats_def updatePercentStats_def
      updatePercentSkills_def Let_def split: if_splits)

lemma endAttributes_net:
  "net_speed (endAttributes e a) = 0"
  "env_player e \<Longrightarrow> net_skill i (endAttributes e a) = - (if i < length (skills a) then skills a ! i else 0)"
  by (simp_all add: endAttributes_def)

text \<open>The four laws, for both quantities.\<close>

lemma startCondition_base_kind [simp]: "kind (startCondition_base e c) = kind c"
  by (simp add: startCondition_base_def)

lemma start_net:
  assumes "startCondition e c = Some (ok, c', fx)"
  shows "net_speed fx = (if ok then speed_share c' else 0)"
    and "env_player e \<Longrightarrow> net_skill i fx = (if ok then skill_share i c' else 0)"
proof -
  show "net_speed fx = (if ok then speed_share c' else 0)"
  proof (cases "kind c")
    case (Damage d)
    with assms init_damage_is_damage [of e "startCondition_base e c" d]
      first_round_is_damage [of _ e ok c' fx i] is_damage_share
    show ?thesis by (auto simp: startCondition_def Let_def split: bind_splits if_splits)
  next
    case (Attributes a)
    with assms applyAttributes_net(1) show ?thesis
      by (auto simp: startCondition_def Let_def speed_share_def split: prod.splits)
  qed (use assms in \<open>auto simp: startCondition_def Let_def speed_share_def split: bind_splits\<close>)
  show "net_skill i fx = (if ok then skill_share i c' else 0)" if "env_player e"
  proof (cases "kind c")
    case (Damage d)
    with assms init_damage_is_damage [of e "startCondition_base e c" d]
      first_round_is_damage [of _ e ok c' fx i] is_damage_share
    show ?thesis by (auto simp: startCondition_def Let_def split: bind_splits if_splits)
  next
    case (Attributes a)
    with assms applyAttributes_net(2) that show ?thesis
      by (auto simp: startCondition_def Let_def skill_share_def split: prod.splits)
  qed (use assms in \<open>auto simp: startCondition_def Let_def skill_share_def split: bind_splits\<close>)
qed

lemma end_net:
  "net_speed (endCondition e c) = - speed_share c"
  "env_player e \<Longrightarrow> net_skill i (endCondition e c) = - skill_share i c"
  by (auto simp: endCondition_def speed_share_def skill_share_def endAttributes_net split: cond_kind.splits)

lemma execute_regeneration_net:
  "execute_regeneration e t b r = (r', fx) \<Longrightarrow> net_speed fx = 0 \<and> net_skill i fx = 0"
  "execute_soul e t u = (u', fx) \<Longrightarrow> net_speed fx = 0 \<and> net_skill i fx = 0"
  "execute_light e t l = (l', fx) \<Longrightarrow> net_speed fx = 0 \<and> net_skill i fx = 0"
  by (auto simp: execute_regeneration_def execute_soul_def execute_light_def Let_def split: if_splits)

lemma share_of_kind:
  "kind c = k \<Longrightarrow> speed_share c = (case k of Speed v \<Rightarrow> speedDelta v | _ \<Rightarrow> 0)"
  "kind c = k \<Longrightarrow> skill_share i c =
     (case k of Attributes a \<Rightarrow> if i < length (skills a) then skills a ! i else 0 | _ \<Rightarrow> 0)"
  by (simp_all add: speed_share_def skill_share_def)

lemma execute_net:
  assumes "executeCondition e t c = (alive, c', fx)"
  shows "net_speed fx = 0 \<and> speed_share c' = speed_share c \<and> net_skill i fx = 0 \<and> skill_share i c' = skill_share i c"
proof (cases "kind c")
  case (Damage d)
  with assms execute_damage_share [of c d e t alive c' fx i] is_damage_share show ?thesis
    by (auto simp: executeCondition_def share_of_kind)
qed (use assms in \<open>auto simp: executeCondition_def Let_def share_of_kind map_prod_def
       split: prod.splits dest!: executeCondition_base_share execute_regeneration_net [where i = i]\<close>)

lemma add_damage_net:
  assumes "add_damage_condition e c d new nd = Some (c', fx)" and "kind c = Damage d"
  shows "is_damage c' \<and> net_speed fx = 0 \<and> net_skill i fx = 0"
proof -
  have c: "is_damage c" using assms(2) by (simp add: is_damage_def)
  define c1 where "c1 = setTicks (env_now e) (ticks new) c"
  define d1 where "d1 = d\<lparr>maxDamage := maxDamage nd, minDamage := minDamage nd, startDamage := startDamage nd,
      periodDamage := periodDamage nd, tickInterval := tickInterval nd,
      dmg_owner := dmg_owner nd, damageList := damageList nd\<rparr>"
  show ?thesis
  proof (cases "conditionType new \<noteq> conditionType c \<or> \<not> updateCondition_damage c d new nd")
    case True
    with assms(1) c show ?thesis by (auto simp: add_damage_condition_def)
  next
    case False
    with assms(1) obtain ok c2 where i: "init_damage e (set_damage d1 c1) d1 = Some (ok, c2)"
      by (auto simp: add_damage_condition_def Let_def c1_def d1_def split: bind_splits)
    from init_damage_is_damage [OF this] have "is_damage c2" by simp
    then obtain d2 where d2: "kind c2 = Damage d2" using is_damage_share(3) by blast
    show ?thesis
    proof (cases ok)
      case no: False
      with assms(1) False i \<open>is_damage c2\<close> show ?thesis
        by (auto simp: add_damage_condition_def Let_def c1_def d1_def)
    next
      case True
      with assms(1) False i d2 obtain b d3 where "first_round e (set_damage d3 c2) = (b, c', fx)"
        by (auto simp: add_damage_condition_def Let_def c1_def d1_def split: prod.splits)
      from first_round_is_damage [OF _ this] show ?thesis by (simp add: is_damage_def)
    qed
  qed
qed

lemma add_speed_net:
  "add_speed_condition e c v new nv = (c', fx) \<Longrightarrow> kind c = Speed v \<Longrightarrow>
     net_speed fx = speed_share c' - speed_share c \<and> net_skill i fx = 0 \<and> skill_share i c' = 0"
  by (auto simp: add_speed_condition_def share_of_kind Let_def split: if_splits)

lemma add_net:
  assumes a: "addCondition e c new = Some (c', fx)"
  shows "net_speed fx = speed_share c' - speed_share c \<and>
    (env_player e \<longrightarrow> net_skill i fx = skill_share i c' - skill_share i c)"
proof (cases "kind c")
  case (Damage d)
  show ?thesis
  proof (cases "kind new")
    case (Damage nd)
    with a \<open>kind c = Damage d\<close> add_damage_net [of e c d new nd c' fx i] is_damage_share
    show ?thesis by (auto simp: addCondition_def share_of_kind)
  qed (use a Damage in \<open>auto simp: addCondition_def Let_def split: if_splits\<close>)
next
  case (Speed v)
  show ?thesis
  proof (cases "kind new")
    case (Speed nv)
    with a \<open>kind c = Speed v\<close> add_speed_net [of e c v new nv c' fx i]
    show ?thesis by (auto simp: addCondition_def share_of_kind)
  qed (use a Speed in \<open>auto simp: addCondition_def Let_def split: if_splits\<close>)
next
  case (Attributes at)
  show ?thesis
  proof (cases "kind new")
    case (Attributes na)
    obtain a2 gx where g: "applyAttributes e (at\<lparr>skills := skills na, skillsPercent := skillsPercent na,
        stats := stats na, statsPercent := statsPercent na\<rparr>) = (a2, gx)" by fastforce
    from a \<open>kind c = Attributes at\<close> Attributes g applyAttributes_net [OF g] endAttributes_net
    show ?thesis by (auto simp: addCondition_def Let_def share_of_kind split: if_splits)
  qed (use a Attributes in \<open>auto simp: addCondition_def Let_def split: if_splits\<close>)
qed (use a in \<open>auto simp: addCondition_def Let_def share_of_kind split: if_splits cond_kind.splits bind_splits\<close>)

interpretation speed: condition_ledger "\<lambda>_. True" net_speed speed_share
proof
  fix e :: cond_env and c c' new :: condition and ok alive :: bool and fx :: "creature_effect list" and interval :: i32
  show "startCondition e c = Some (ok, c', fx) \<Longrightarrow> net_speed fx = (if ok then speed_share c' else 0)"
    by (rule start_net)
  show "addCondition e c new = Some (c', fx) \<Longrightarrow> net_speed fx = speed_share c' - speed_share c"
    using add_net by blast
  show "executeCondition e interval c = (alive, c', fx) \<Longrightarrow> net_speed fx = 0 \<and> speed_share c' = speed_share c"
    using execute_net by blast
  show "net_speed (endCondition e c) = - speed_share c" by (rule end_net)
qed simp_all

interpretation skill: condition_ledger env_player "net_skill i" "skill_share i" for i
proof
  fix e :: cond_env and c c' new :: condition and ok alive :: bool and fx :: "creature_effect list" and interval :: i32
  assume p: "env_player e"
  show "startCondition e c = Some (ok, c', fx) \<Longrightarrow> net_skill i fx = (if ok then skill_share i c' else 0)"
    using start_net(2) p by blast
  show "addCondition e c new = Some (c', fx) \<Longrightarrow> net_skill i fx = skill_share i c' - skill_share i c"
    using add_net p by blast
  show "executeCondition e interval c = (alive, c', fx) \<Longrightarrow> net_skill i fx = 0 \<and> skill_share i c' = skill_share i c"
    using execute_net by blast
  show "net_skill i (endCondition e c) = - skill_share i c" using end_net(2) p by blast
qed simp_all

section \<open>One condition per slot\<close>

text \<open>No operation changes what slot a condition is in.\<close>

definition slot :: "condition \<Rightarrow> u32 \<times> 8 word \<times> u32" where
  "slot c = (conditionType c, cond_id c, subId c)"

lemma same_slot_eq: "same_slot c d \<longleftrightarrow> slot c = slot d"
  by (auto simp: same_slot_def slot_def)

lemma slot_update [simp]:
  "slot (c\<lparr>endTime := t\<rparr>) = slot c" "slot (c\<lparr>ticks := n\<rparr>) = slot c" "slot (c\<lparr>kind := k\<rparr>) = slot c"
  "slot (setTicks now n c) = slot c" "slot (set_damage d c) = slot c" "slot (startCondition_base e c) = slot c"
  by (simp_all add: slot_def setTicks_def set_damage_def startCondition_base_def)

lemma slot_setParam_damage:
  "kind c = Damage d \<Longrightarrow> p \<notin> {PARAM_SUBID} \<Longrightarrow> slot (snd (setParam p v c)) = slot c"
  by (simp add: setParam_def setParam_base_def slot_def split: prod.split)

lemma slot_add_rounds: "add_rounds now n t v d c = (d', c') \<Longrightarrow> slot c' = slot c"
  by (induction now n t v d c rule: add_rounds.induct) (auto simp: Let_def split: if_splits)

lemma slot_addDamage:
  assumes "is_damage c"
  shows "slot (snd (addDamage now r t v c)) = slot c"
proof -
  obtain d where d: "kind c = Damage d" using assms is_damage_share(3) by blast
  let ?t = "if sint t < sint EVENT_CREATURE_THINK_INTERVAL then EVENT_CREATURE_THINK_INTERVAL else t"
  have "is_damage (snd (setParam PARAM_TICKINTERVAL ?t (c\<lparr>kind := Damage (d\<lparr>periodDamage := v\<rparr>)\<rparr>)))"
    by (rule setParam_is_damage) (simp add: is_damage_def)
  then obtain d2 where
    "kind (snd (setParam PARAM_TICKINTERVAL ?t (c\<lparr>kind := Damage (d\<lparr>periodDamage := v\<rparr>)\<rparr>))) = Damage d2"
    using is_damage_share(3) by blast
  from slot_setParam_damage [OF this] show ?thesis
    by (auto simp: addDamage_def d Let_def slot_setParam_damage slot_add_rounds split: prod.split)
qed

lemma slot_add_values: "is_damage c \<Longrightarrow> slot (add_values now t vs c) = slot c"
  by (induction vs arbitrary: c) (simp_all add: slot_addDamage addDamage_is_damage)

lemma slot_init_damage: "init_damage e c d = Some (ok, c') \<Longrightarrow> slot c' = slot c"
  by (auto simp: init_damage_def Let_def slot_add_values is_damage_def split: if_splits bind_splits)

lemma slot_first_round: "first_round e c = (ok, c', fx) \<Longrightarrow> slot c' = slot c"
  by (auto simp: first_round_def split: cond_kind.splits if_splits option.splits prod.splits)

lemma slot_startCondition: "startCondition e c = Some (ok, c', fx) \<Longrightarrow> slot c' = slot c"
  by (auto simp: startCondition_def Let_def split: cond_kind.splits bind_splits prod.splits if_splits
      dest!: slot_init_damage slot_first_round)

lemma slot_execute_base: "executeCondition_base e t c = (b, c') \<Longrightarrow> slot c' = slot c"
  by (auto simp: executeCondition_base_def split: if_splits)

lemma slot_execute_damage: "execute_damage e t c d = (b, c', fx) \<Longrightarrow> slot c' = slot c"
  by (auto simp: execute_damage_def Let_def split: if_splits list.splits prod.splits dest!: slot_execute_base)

lemma slot_executeCondition: "executeCondition e t c = (b, c', fx) \<Longrightarrow> slot c' = slot c"
  by (cases "kind c")
     (auto simp: executeCondition_def Let_def split: prod.splits dest!: slot_execute_base slot_execute_damage)

lemma slot_add_damage_condition:
  assumes "add_damage_condition e c d new nd = Some (c', fx)"
  shows "slot c' = slot c"
proof (cases "conditionType new \<noteq> conditionType c \<or> \<not> updateCondition_damage c d new nd")
  case True
  with assms show ?thesis by (auto simp: add_damage_condition_def)
next
  case False
  with assms obtain d1 n ok c2
    where i: "init_damage e (set_damage d1 (setTicks (env_now e) n c)) d1 = Some (ok, c2)"
      and r: "c' = c2 \<or> (\<exists>c3 b. slot c3 = slot c2 \<and> first_round e c3 = (b, c', fx))"
    by (auto simp: add_damage_condition_def Let_def split: bind_splits if_splits prod.splits cond_kind.splits)
       (metis slot_update(5))+
  from slot_init_damage [OF i] have "slot c2 = slot c" by simp
  with r slot_first_round show ?thesis by metis
qed

lemma slot_add_speed: "add_speed_condition e c v new nv = (c', fx) \<Longrightarrow> slot c' = slot c"
  by (auto simp: add_speed_condition_def Let_def split: if_splits)

lemma slot_addCondition:
  assumes a: "addCondition e c new = Some (c', fx)"
  shows "slot c' = slot c"
proof (cases "kind c")
  case (Damage d)
  with a show ?thesis
    by (cases "kind new") (auto simp: addCondition_def Let_def slot_add_damage_condition split: if_splits)
next
  case (Speed v)
  with a show ?thesis
    by (cases "kind new") (auto simp: addCondition_def Let_def slot_add_speed split: if_splits)
next
  case (Attributes at)
  with a show ?thesis
    by (cases "kind new") (auto simp: addCondition_def Let_def split: if_splits prod.splits)
qed (use a in \<open>auto simp: addCondition_def Let_def split: if_splits cond_kind.splits bind_splits\<close>)

definition distinct_slots :: "condition list \<Rightarrow> bool" where
  "distinct_slots cs \<longleftrightarrow> distinct (map slot cs)"

lemma removeConditions_subseq:
  "removeConditions_loop e refuse t cs = (cs', fx) \<Longrightarrow> set (map slot cs') \<subseteq> set (map slot cs) \<and>
     (distinct (map slot cs) \<longrightarrow> distinct (map slot cs'))"
proof (induction cs arbitrary: cs' fx)
  case (Cons c cs)
  obtain ds gx where r: "removeConditions_loop e refuse t cs = (ds, gx)" by fastforce
  from Cons.IH [OF r] Cons.prems r show ?case by (auto split: if_splits; blast)
qed simp

lemma executeConditions_subseq:
  "executeConditions_loop e t cs = (cs', fx) \<Longrightarrow> set (map slot cs') \<subseteq> set (map slot cs) \<and>
     (distinct (map slot cs) \<longrightarrow> distinct (map slot cs'))"
proof (induction cs arbitrary: cs' fx)
  case (Cons c cs)
  obtain ds gx where r: "executeConditions_loop e t cs = (ds, gx)" by fastforce
  obtain alive c' hx where x: "executeCondition e t c = (alive, c', hx)"
    by (cases "executeCondition e t c")
  from Cons.IH [OF r] Cons.prems r x slot_executeCondition [OF x] show ?case by (auto split: if_splits; blast)
qed simp

lemma replace_first_slot:
  "slot d = slot c \<Longrightarrow> map slot (replace_first (\<lambda>x. same_slot x c) d cs) = map slot cs"
  by (induction cs) (auto simp: same_slot_eq)

lemma find_None_slot:
  "getCondition (conditionType c) (cond_id c) (subId c) cs = None \<Longrightarrow> slot c \<notin> set (map slot cs)"
  by (auto simp: getCondition_def find_None_iff slot_def)

lemma find_Some_slot:
  "getCondition (conditionType c) (cond_id c) (subId c) cs = Some p \<Longrightarrow> slot p = slot c"
  by (auto simp: getCondition_def find_Some_iff slot_def)

lemma distinct_slots_remove:
  "distinct_slots (cr_conditions s) \<Longrightarrow> distinct_slots (cr_conditions (removeCondition e force d t s))"
  using removeConditions_subseq
  by (fastforce simp: removeCondition_def distinct_slots_def split: prod.split)

lemma distinct_slots_add:
  assumes "distinct_slots (cr_conditions s)" and "creature_addCondition e force d c s = Some (ok, s')"
  shows "distinct_slots (cr_conditions s')"
proof (cases "getCondition (conditionType c) (cond_id c) (subId c) (cr_conditions s)")
  case None
  have keep: "distinct_slots (cr_conditions (onAddCondition e d t u))" if "distinct_slots (cr_conditions u)" for t u
    using that by (simp add: onAddCondition_def distinct_slots_remove)
  have "distinct_slots (cr_conditions s @ [c'])" if "slot c' = slot c" for c'
    using assms(1) find_None_slot [OF None] that by (simp add: distinct_slots_def)
  with None assms keep show ?thesis
    by (auto simp: creature_addCondition_def split: if_splits bind_splits dest!: slot_startCondition)
next
  case (Some p)
  from find_Some_slot [OF Some] assms Some replace_first_slot slot_addCondition show ?thesis
    by (fastforce simp: creature_addCondition_def distinct_slots_def split: if_splits bind_splits)
qed

lemma distinct_slots_op:
  "distinct_slots (cr_conditions s) \<Longrightarrow> run_cond_op x s = Some s' \<Longrightarrow> distinct_slots (cr_conditions s')"
proof (cases x)
  case (ExecuteConditions e t)
  assume "distinct_slots (cr_conditions s)" "run_cond_op x s = Some s'"
  with ExecuteConditions executeConditions_subseq [of e t "cr_conditions s"] show ?thesis
    by (auto simp: executeConditions_def distinct_slots_def split: prod.splits)
qed (auto simp: distinct_slots_remove intro: distinct_slots_add)

lemma distinct_slots_run:
  "distinct_slots (cr_conditions s) \<Longrightarrow> run_cond_ops xs s = Some s' \<Longrightarrow> distinct_slots (cr_conditions s')"
  by (induction xs arbitrary: s) (auto split: bind_splits intro: distinct_slots_op)

section \<open>Properties\<close>

definition no_conditions :: creature_state where
  "no_conditions = \<lparr>cr_conditions = [], cr_log = []\<rparr>"

text \<open>An environment and a haste condition, for concrete runs.\<close>

definition plain_env :: cond_env where
  "plain_env = \<lparr>env_now = 1000, env_player = True, env_protection = False, env_baseSpeed = 220,
     env_maxHealth = 150, env_maxMana = 55, env_magicLevel = 3, env_baseSkill = (\<lambda>_. 10),
     env_suppress = (\<lambda>_. False), env_field = None, env_light = (0, 0), env_invisible = False,
     env_healed = (\<lambda>v. v), env_attackerPlayer = (\<lambda>_. False), env_attackable = True,
     env_canCombat = (\<lambda>_. True), env_ghost = False, env_blocked = (\<lambda>_. False),
     env_changeHealth = (\<lambda>_. True), env_random = (\<lambda>a b. a), env_percent = (\<lambda>x p. x),
     env_formula = (\<lambda>_ _. (0, 0)), env_closer = (\<lambda>_ _ _. False)\<rparr>"

definition haste :: condition where
  "haste = new_condition 0 CONDITION_HASTE 3000 False 0
     (Speed \<lparr>speedDelta = 80, mina = 0, minb = 0, maxa = 0, maxb = 0\<rparr>)"

lemma add_haste: "creature_addCondition plain_env False 0 haste no_conditions =
    Some (True, \<lparr>cr_conditions = [haste\<lparr>endTime := 4000\<rparr>], cr_log = [ChangeSpeed 80]\<rparr>)"
  by (simp add: creature_addCondition_def no_conditions_def getCondition_def startCondition_def
      startCondition_base_def haste_def new_condition_def formula_speed_def onAddCondition_def
      hasCondition_def plain_env_def condition_type_defs)

lemma run_haste: "run_cond_ops [AddCondition plain_env False 0 haste] no_conditions =
    Some \<lparr>cr_conditions = [haste\<lparr>endTime := 4000\<rparr>], cr_log = [ChangeSpeed 80]\<rparr>"
  by (simp add: add_haste)

lemma plain_env_player: "list_all (\<lambda>x. env_player (op_env x)) [AddCondition plain_env False 0 haste]"
  by (simp add: plain_env_def)

text \<open>
  C11: whatever conditions a creature gets, merges, loses and outlives, in any order, the speed they
  have given it in total is the sum of the speeds of the conditions it has now: haste and paralysis
  never leave a speed behind.
\<close>

theorem speed_is_balanced:
  assumes "run_cond_ops xs no_conditions = Some s"
  shows "net_speed (cr_log s) = sum_list (map speed_share (cr_conditions s))"
  using speed.balanced_run [where xs = xs and s = no_conditions and s' = s] speed.balanced_empty assms
  by (simp add: list_all_iff speed.balanced_def no_conditions_def)

theorem speed_is_balanced_witness:
  "let s = \<lparr>cr_conditions = [haste\<lparr>endTime := 4000\<rparr>], cr_log = [ChangeSpeed 80]\<rparr>
   in net_speed (cr_log s) = sum_list (map speed_share (cr_conditions s))"
  unfolding Let_def
  by (rule speed_is_balanced [OF run_haste])

text \<open>
  C12: the same for each skill of a player: the modifiers that attribute conditions have added and
  taken away sum up to those of the conditions in force.
\<close>

theorem skills_are_balanced:
  assumes "run_cond_ops xs no_conditions = Some s" and "list_all (\<lambda>x. env_player (op_env x)) xs"
  shows "net_skill i (cr_log s) = sum_list (map (skill_share i) (cr_conditions s))"
  using skill.balanced_run [where xs = xs and s = no_conditions and s' = s and i = i] skill.balanced_empty [of i] assms
  by (simp add: skill.balanced_def no_conditions_def)

theorem skills_are_balanced_witness:
  "let s = \<lparr>cr_conditions = [haste\<lparr>endTime := 4000\<rparr>], cr_log = [ChangeSpeed 80]\<rparr>
   in net_skill 2 (cr_log s) = sum_list (map (skill_share 2) (cr_conditions s))"
  unfolding Let_def
  by (rule skills_are_balanced [OF run_haste plain_env_player])

text \<open>
  A creature never has two conditions of the same type, slot and sub-id: adding one that is
  there merges into it.
\<close>

lemma condition_slots_distinct:
  assumes "run_cond_ops xs no_conditions = Some s"
  shows "distinct_slots (cr_conditions s)"
  using distinct_slots_run [of no_conditions xs s] assms by (simp add: no_conditions_def distinct_slots_def)

text \<open>
  Starting a light condition whose level is zero divides by zero, and that is the level
  \<open>createCondition\<close> gives it when no parameter says otherwise.
\<close>

lemma light_level_zero:
  assumes "createCondition i CONDITION_LIGHT n 0 buff sub = Some c"
  shows "startCondition e c = None"
  using assms
  by (auto simp: createCondition_def new_condition_def startCondition_def startCondition_base_def
      light_interval_def condition_type_defs)

end
