(* ===== verification/ConditionDamage.thy ===== *)
theory ConditionDamage
  imports ConditionRun
begin

text \<open>
  The damage rounds of a condition: the list \<open>generateDamageList\<close> builds deals at least the amount
  asked for, and executing the condition deals the rounds in order, each once.
\<close>

section \<open>The generated list\<close>

text \<open>
  The test of the source, \<open>|1 - (sum + i) / med| < |1 - sum / med|\<close>, on exact numbers: adding another
  \<open>i\<close> brings the sum closer to \<open>med\<close>. With \<open>med = 0\<close> the quotients are infinite and the test fails.
\<close>

definition closer_exact :: "int \<Rightarrow> int \<Rightarrow> int \<Rightarrow> bool" where
  "closer_exact s i med \<longleftrightarrow> med > 0 \<and> \<bar>med - (s + i)\<bar> < \<bar>med - s\<bar>"

lemma closer_exact_iff: "i > 0 \<Longrightarrow> closer_exact s i med \<longleftrightarrow> med > 0 \<and> 2 * s + i < 2 * med"
  by (auto simp: closer_exact_def)

lemma damage_values_exact:
  assumes "i > 0" and "s \<ge> 0"
  shows "\<exists>vs s'. damage_values closer_exact med i s = Some (vs, s') \<and> vs \<noteq> [] \<and> (\<forall>v \<in> set vs. v = i) \<and>
           s' = s + sum_list vs \<and> (med > 0 \<longrightarrow> 2 * med \<le> 2 * s' + i) \<and>
           (s' = s + i \<or> 2 * s' < 2 * med + i)"
  using assms(2)
proof (induction "nat (2 * med - 2 * s)" arbitrary: s rule: less_induct)
  case less
  show ?case
  proof (cases "closer_exact (s + i) i med")
    case False
    then have "damage_values closer_exact med i s = Some ([i], s + i)"
      by (subst damage_values.simps) simp
    with False show ?thesis using closer_exact_iff [OF assms(1), of "s + i" med] by auto
  next
    case True
    then have lt: "2 * (s + i) + i < 2 * med" by (simp add: closer_exact_iff [OF assms(1)])
    then have "nat (2 * med - 2 * (s + i)) < nat (2 * med - 2 * s)" using assms(1) by (simp add: zless_nat_conj)
    from less.hyps [OF this] less.prems assms(1) obtain vs s' where
      IH: "damage_values closer_exact med i (s + i) = Some (vs, s')" "vs \<noteq> []" "\<forall>v \<in> set vs. v = i"
        "s' = s + i + sum_list vs" "med > 0 \<longrightarrow> 2 * med \<le> 2 * s' + i"
        "s' = s + i + i \<or> 2 * s' < 2 * med + i" by auto
    have "2 * s' < 2 * med + i" using IH(6) lt by auto
    moreover have "damage_values closer_exact med i s = Some (i # vs, s')"
      using True IH(1) by (subst damage_values.simps) simp
    ultimately show ?thesis using IH by auto
  qed
qed

lemma sorted_wrt_const: "\<forall>v \<in> set vs. v = c \<Longrightarrow> sorted_wrt (\<ge>) (vs :: int list)"
  by (induction vs) auto

text \<open>The rounds with values \<open>j, j - 1, ..., 1\<close>, from a partial sum that is not too far ahead.\<close>

definition median :: "int \<Rightarrow> nat \<Rightarrow> nat \<Rightarrow> int" where
  "median amount start j = (int (start - j) * amount) div int start"

lemma median_mono: "amount \<ge> 0 \<Longrightarrow> start > 0 \<Longrightarrow> median amount start (Suc j) \<le> median amount start j"
  by (simp add: median_def zdiv_mono1 mult_right_mono)

lemma median_0: "start > 0 \<Longrightarrow> median amount start 0 = amount"
  by (simp add: median_def)

lemma damage_rounds_exact:
  assumes "amount > 0" and "start > 0"
  shows "j \<le> start \<Longrightarrow> s \<ge> 0 \<Longrightarrow> 2 * s \<le> 2 * median amount start j + slack \<Longrightarrow> slack \<ge> 0 \<Longrightarrow> j > 0 \<Longrightarrow>
     \<exists>vs. damage_rounds closer_exact amount start j s = Some vs \<and>
       (\<forall>v \<in> set vs. 1 \<le> v \<and> v \<le> int j) \<and> sorted_wrt (\<ge>) vs \<and>
       amount \<le> s + sum_list vs \<and> 2 * (s + sum_list vs) \<le> 2 * amount + slack + int j * (int j + 1)"
proof (induction j arbitrary: s slack)
  case 0
  then show ?case by simp
next
  case (Suc j)
  let ?i = "int (Suc j)" and ?med = "median amount start j"
  have med: "(int (start + 1 - Suc j) * amount) div int start = ?med" by (simp add: median_def)
  have up: "median amount start (Suc j) \<le> ?med" using median_mono assms by simp
  obtain vs s' where v: "damage_values closer_exact ?med ?i s = Some (vs, s')" "vs \<noteq> []" "\<forall>v \<in> set vs. v = ?i"
      "s' = s + sum_list vs" "?med > 0 \<longrightarrow> 2 * ?med \<le> 2 * s' + ?i" "s' = s + ?i \<or> 2 * s' < 2 * ?med + ?i"
    using damage_values_exact [of ?i s ?med] Suc.prems by auto
  have s'0: "s' \<ge> 0" using v(3,4) Suc.prems(2) by (auto intro!: add_nonneg_nonneg sum_list_nonneg)
  have bound: "2 * s' \<le> 2 * ?med + (slack + 2 * ?i)" using v(6) Suc.prems up by auto
  show ?case
  proof (cases "j = 0")
    case True
    then have "?med = amount" using assms by (simp add: median_0)
    with True v bound assms sorted_wrt_const [OF v(3)] show ?thesis
      by (auto simp: med [unfolded True] Let_def)
  next
    case False
    with Suc.IH [of s' "slack + 2 * ?i"] Suc.prems s'0 bound obtain ws where
      w: "damage_rounds closer_exact amount start j s' = Some ws"
        "\<forall>v \<in> set ws. 1 \<le> v \<and> v \<le> int j" "sorted_wrt (\<ge>) ws" "amount \<le> s' + sum_list ws"
        "2 * (s' + sum_list ws) \<le> 2 * amount + (slack + 2 * ?i) + int j * (int j + 1)" by auto
    have "sorted_wrt (\<ge>) vs" using sorted_wrt_const [OF v(3)] .
    moreover have "\<forall>x \<in> set vs. \<forall>y \<in> set ws. y \<le> x" using v(3) w(2) by fastforce
    ultimately have "sorted_wrt (\<ge>) (vs @ ws)" using w(3) by (simp add: sorted_wrt_append)
    moreover have "\<forall>x \<in> set (vs @ ws). 1 \<le> x \<and> x \<le> ?i" using v(3) w(2) by fastforce
    moreover have sum: "s + sum_list (vs @ ws) = s' + sum_list ws" using v(4) by simp
    moreover have sq: "?i * (?i + 1) = int j * (int j + 1) + 2 * ?i" by (simp add: algebra_simps)
    have "2 * (s + sum_list (vs @ ws)) \<le> 2 * amount + slack + ?i * (?i + 1)"
      unfolding sum sq using w(5) by linarith
    moreover have "damage_rounds closer_exact amount start (Suc j) s = Some (vs @ ws)"
      using v(1) w(1) by (simp add: median_def Let_def del: of_nat_Suc)
    ultimately show ?thesis using w(4,5) by (intro exI [of _ "vs @ ws"] conjI) (assumption | linarith)+
  qed
qed


section \<open>The rounds are dealt in order\<close>

definition dealt :: "creature_effect list \<Rightarrow> i32 list" where
  "dealt = List.map_filter (\<lambda>x. case x of CombatDamage v _ \<Rightarrow> Some v | _ \<Rightarrow> None)"

lemma dealt_simps [simp]:
  "dealt [] = []" "dealt (fx @ gx) = dealt fx @ dealt gx" "dealt [CombatDamage v t] = [v]"
  by (simp_all add: dealt_def map_filter_def)

definition remaining :: "condition \<Rightarrow> i32 list" where
  "remaining c = (case kind c of Damage d \<Rightarrow> map iv_value (damageList d) | _ \<Rightarrow> [])"

text \<open>Nothing stands between the condition and the creature: no immunity, block or field.\<close>

definition exposed :: "u32 \<Rightarrow> u32 \<Rightarrow> cond_env \<Rightarrow> bool" where
  "exposed t owner e \<longleftrightarrow> \<not> env_suppress e t \<and> env_attackable e \<and> env_canCombat e owner \<and>
     (\<forall>v. \<not> env_blocked e v) \<and> env_field e = None"

definition plain_damage :: "u32 \<Rightarrow> u32 \<Rightarrow> condition \<Rightarrow> bool" where
  \<comment> \<open>a damage condition with rounds, not one that lasts forever or comes from a field\<close>
  "plain_damage t owner c \<longleftrightarrow> conditionType c = t \<and> ticks c \<noteq> - 1 \<and>
     (\<exists>d. kind c = Damage d \<and> periodDamage d = 0 \<and> \<not> dmg_field d \<and> dmg_owner d = owner)"

fun execute_many ::
  "(cond_env \<times> i32) list \<Rightarrow> condition \<Rightarrow> condition \<times> creature_effect list" where
  "execute_many [] c = (c, [])"
| "execute_many ((e, t) # xs) c =
     (let (_, c', fx) = executeCondition e t c; (c'', gx) = execute_many xs c' in (c'', fx @ gx))"

lemma max0_not_minus_one: "max0 v \<noteq> - 1"
  by (auto simp: max0_def)

lemma executeCondition_plain:
  assumes c: "plain_damage t owner c" and e: "exposed t owner e"
  shows "\<exists>b c' fx. executeCondition e n c = (b, c', fx) \<and> plain_damage t owner c' \<and>
           dealt fx @ remaining c' = remaining c"
proof -
  obtain d where d: "kind c = Damage d" "periodDamage d = 0" "\<not> dmg_field d" "dmg_owner d = owner"
    and t: "conditionType c = t" "ticks c \<noteq> - 1"
    using c by (auto simp: plain_damage_def)
  have deal: "snd (doDamage e c d' v) = [CombatDamage v (ConditionToDamageType t)]"
    if "\<not> dmg_field d'" "dmg_owner d' = owner" for d' v
    using that e t by (simp add: doDamage_def exposed_def)
  have base: "executeCondition_base e n (set_damage d' c) =
      (endTime c \<ge> env_now e, (set_damage d' c)\<lparr>ticks := max0 (ticks c - n)\<rparr>)" for d'
    using t(2) by (simp add: executeCondition_base_def set_damage_def)
  show ?thesis
  proof (cases "damageList d")
    case Nil
    then have "executeCondition e n c = (endTime c \<ge> env_now e, c\<lparr>ticks := max0 (ticks c - n)\<rparr>, [])"
      using d t by (simp add: executeCondition_def execute_damage_def executeCondition_base_def)
    with Nil d t show ?thesis by (simp add: plain_damage_def remaining_def max0_not_minus_one)
  next
    case (Cons i rest)
    have "onTickCondition e (conditionType c) (ticks c \<noteq> - 1)"
      using e t by (simp add: onTickCondition_def exposed_def)
    with Cons d t base deal show ?thesis
      by (simp add: executeCondition_def execute_damage_def plain_damage_def remaining_def
          max0_not_minus_one set_damage_def [abs_def] Let_def)
  qed
qed

lemma execute_many_plain:
  "plain_damage t owner c \<Longrightarrow> \<forall>(e, n) \<in> set xs. exposed t owner e \<Longrightarrow>
     \<exists>c' fx. execute_many xs c = (c', fx) \<and> plain_damage t owner c' \<and> dealt fx @ remaining c' = remaining c"
proof (induction xs arbitrary: c)
  case Nil
  then show ?case by simp
next
  case (Cons x xs)
  obtain e n where x: "x = (e, n)" by (cases x)
  from executeCondition_plain [OF Cons.prems(1), of e n] Cons.prems(2) x obtain b c1 fx
    where 1: "executeCondition e n c = (b, c1, fx)" "plain_damage t owner c1"
      "dealt fx @ remaining c1 = remaining c" by auto
  from Cons.IH [OF 1(2)] Cons.prems(2) obtain c2 gx where
    2: "execute_many xs c1 = (c2, gx)" "plain_damage t owner c2" "dealt gx @ remaining c2 = remaining c1" by auto
  with 1 x show ?case by (metis append.assoc case_prod_conv dealt_simps(2) execute_many.simps(2))
qed

section \<open>Properties\<close>

text \<open>
  The damage list is generated (the loops end), it deals at least the amount asked for and at
  most \<open>start * (start + 1) / 2\<close> more, and its values fall from the start damage down to one.
\<close>

lemma damage_list_generated:
  assumes "amount > 0" and "start > 0"
  shows "\<exists>vs. generateDamageList closer_exact amount start = Some vs \<and>
           amount \<le> sum_list vs \<and> 2 * sum_list vs \<le> 2 * amount + start * (start + 1) \<and>
           (\<forall>v \<in> set vs. 1 \<le> v \<and> v \<le> start) \<and> sorted_wrt (\<ge>) vs"
  using damage_rounds_exact [of amount "nat start" "nat start" 0 0] assms
  by (auto simp: generateDamageList_def median_def)

text \<open>
  C13: a damage condition with rounds deals them in order and each once: however often and with
  whatever intervals it is executed, the damage dealt followed by the rounds left is the list it had.
\<close>

theorem damage_rounds_in_order:
  assumes "plain_damage t owner c" and "\<forall>(e, n) \<in> set xs. exposed t owner e"
  shows "dealt (snd (execute_many xs c)) @ remaining (fst (execute_many xs c)) = remaining c"
  using execute_many_plain [OF assms] by auto

theorem damage_rounds_in_order_witness:
  "let e = \<lparr>env_now = 1000, env_player = True, env_protection = False, env_baseSpeed = 220,
        env_maxHealth = 150, env_maxMana = 55, env_magicLevel = 3, env_baseSkill = (\<lambda>_. 10),
        env_suppress = (\<lambda>_. False), env_field = None, env_light = (0, 0), env_invisible = False,
        env_healed = (\<lambda>v. v), env_attackerPlayer = (\<lambda>_. False), env_attackable = True,
        env_canCombat = (\<lambda>_. True), env_ghost = False, env_blocked = (\<lambda>_. False),
        env_changeHealth = (\<lambda>_. True), env_random = (\<lambda>a b. a), env_percent = (\<lambda>x p. x),
        env_formula = (\<lambda>_ _. (0, 0)), env_closer = (\<lambda>_ _ _. False)\<rparr>;
       c = new_condition 0 CONDITION_FIRE 4000 False 0
             (Damage (new_damage\<lparr>damageList := [\<lparr>timeLeft = 9, iv_value = - 10, iv_interval = 2000\<rparr>]\<rparr>))
   in dealt (snd (execute_many [(e, 1000), (e, 1000)] c)) @ remaining (fst (execute_many [(e, 1000), (e, 1000)] c))
        = [- 10]"
  unfolding Let_def
  by (subst damage_rounds_in_order [where t = CONDITION_FIRE and owner = 0])
     (simp_all add: plain_damage_def exposed_def new_condition_def new_damage_def remaining_def)

end
