(* ===== verification/ReturnValues.thy ===== *)
theory ReturnValues
  imports Prelude
begin

text \<open>
  The return values of the queries and look-ups that are modelled (\<open>ReturnValue\<close> of \<open>enums.h\<close>). The
  values that only other parts of the game return are kept as their number.
\<close>

datatype ReturnValue =
    RETURNVALUE_NOERROR | RETURNVALUE_NOTPOSSIBLE | RETURNVALUE_NOTMOVEABLE
  | RETURNVALUE_CONTAINERNOTENOUGHROOM | RETURNVALUE_CANNOTPICKUP | RETURNVALUE_THISISIMPOSSIBLE
  | RETURNVALUE_PLAYERWITHTHISNAMEISNOTONLINE | RETURNVALUE_NAMEISTOOAMBIGUOUS
  | OtherReturnValue nat

end
