(* ===== verification/WildcardTree.thy ===== *)
theory WildcardTree
  imports ReturnValues "HOL-Library.AList" "HOL-Library.Sublist"
begin

text \<open>
  The tree of the names of the players online (\<open>wildcardtree.cpp\<close>) and its use by the game
  (\<open>game.cpp\<close>: \<open>addPlayer\<close>, \<open>removePlayer\<close>, \<open>getPlayerByName\<close>, \<open>getPlayerByNameWildcard\<close>).

  A node is its \<open>std::map\<close> of children, an association list with distinct keys, and its flag: a
  name ends here. The pointers that \<open>insert\<close> and \<open>remove\<close> walk are paths from the root, and an
  update of the node at the end of the path is the tree with that node replaced. The abstract value
  is the set of the names the tree holds; \<open>name_index\<close> is the contract the game relies on, and the
  tree is shown to meet it.
\<close>

section \<open>The tree\<close>

datatype wnode = WNode (children: "(byte \<times> wnode) list") (breakpoint: bool)

definition getChild :: "wnode \<Rightarrow> byte \<Rightarrow> wnode option" where
  "getChild n ch = map_of (children n) ch"

text \<open>The node after the child reached by \<open>ch\<close> was modified through its pointer.\<close>

definition setChild :: "wnode \<Rightarrow> byte \<Rightarrow> wnode \<Rightarrow> wnode" where
  "setChild n ch c = WNode (AList.update ch c (children n)) (breakpoint n)"

definition eraseChild :: "wnode \<Rightarrow> byte \<Rightarrow> wnode" where
  "eraseChild n ch = WNode (AList.delete ch (children n)) (breakpoint n)"

definition addChild :: "wnode \<Rightarrow> byte \<Rightarrow> bool \<Rightarrow> wnode" where
  "addChild n ch bp =
     (case getChild n ch of
        Some child \<Rightarrow>
          if bp \<and> \<not> breakpoint child then setChild n ch (WNode (children child) True) else n
      | None \<Rightarrow> setChild n ch (WNode [] bp))"

text \<open>
  \<open>insert\<close>. The bound of its loop is \<open>str.length() - 1\<close>: for the empty string it wraps and the
  loop reads outside the string, which is \<open>None\<close>.
\<close>

fun insert_name :: "wnode \<Rightarrow> bstring \<Rightarrow> wnode option" where
  "insert_name cur [] = None"
| "insert_name cur [c] = Some (addChild cur c True)"
| "insert_name cur (c # d # str) =
     (let cur' = addChild cur c False
      in case getChild cur' c of
           None \<Rightarrow> None
         | Some child \<Rightarrow> map_option (setChild cur' c) (insert_name child (d # str)))"

text \<open>
  \<open>remove\<close>. The stack is the list of the nodes above \<open>cur\<close>, the last one first, each with the
  character that leads on; \<open>rebuild\<close> is the tree seen from the root.
\<close>

type_synonym path = "(wnode \<times> byte) list"

fun walk_path :: "wnode \<Rightarrow> bstring \<Rightarrow> path \<Rightarrow> (wnode \<times> path) option" where
  "walk_path cur [] stack = Some (cur, stack)"
| "walk_path cur (c # str) stack =
     (case getChild cur c of None \<Rightarrow> None | Some child \<Rightarrow> walk_path child str ((cur, c) # stack))"

fun rebuild :: "wnode \<Rightarrow> path \<Rightarrow> wnode" where
  "rebuild cur [] = cur"
| "rebuild cur ((up, c) # stack) = rebuild (setChild up c cur) stack"

fun remove_loop :: "wnode \<Rightarrow> path \<Rightarrow> wnode" where
  "remove_loop cur stack =
     (if children cur \<noteq> [] \<or> breakpoint cur \<or> stack = [] then rebuild cur stack
      else (case stack of
              [] \<Rightarrow> cur
            | (up, c) # rest \<Rightarrow> remove_loop (eraseChild up c) rest))"

declare remove_loop.simps [simp del]

definition remove_name :: "wnode \<Rightarrow> bstring \<Rightarrow> wnode" where
  "remove_name root str =
     (case walk_path root str [] of
        None \<Rightarrow> root
      | Some (cur, stack) \<Rightarrow> remove_loop (WNode (children cur) False) stack)"

fun walk :: "wnode \<Rightarrow> bstring \<Rightarrow> wnode option" where
  "walk cur [] = Some cur"
| "walk cur (c # str) = (case getChild cur c of None \<Rightarrow> None | Some child \<Rightarrow> walk child str)"

fun extend_name :: "wnode \<Rightarrow> bstring \<Rightarrow> ReturnValue \<times> bstring" where
  "extend_name (WNode [] bp) result = (RETURNVALUE_NOERROR, result)"
| "extend_name (WNode [(c, child)] bp) result =
     (if bp then (RETURNVALUE_NAMEISTOOAMBIGUOUS, result) else extend_name child (result @ [c]))"
| "extend_name (WNode (p1 # p2 # cs) bp) result = (RETURNVALUE_NAMEISTOOAMBIGUOUS, result)"

text \<open>The return value, and the out-parameter \<open>result\<close> given its value before the call.\<close>

definition findOne :: "wnode \<Rightarrow> bstring \<Rightarrow> bstring \<Rightarrow> ReturnValue \<times> bstring" where
  "findOne root query result =
     (case walk root query of
        None \<Rightarrow> (RETURNVALUE_PLAYERWITHTHISNAMEISNOTONLINE, result)
      | Some cur \<Rightarrow> extend_name cur query)"

section \<open>The set of names\<close>

fun isin :: "wnode \<Rightarrow> bstring \<Rightarrow> bool" where
  "isin n [] = breakpoint n"
| "isin n (c # s) = (case getChild n c of None \<Rightarrow> False | Some m \<Rightarrow> isin m s)"

definition names :: "wnode \<Rightarrow> bstring set" where
  "names n = {s. isin n s}"

definition alive :: "wnode \<Rightarrow> bool" where
  "alive n \<longleftrightarrow> children n \<noteq> [] \<or> breakpoint n"

text \<open>No key twice, and no leaf that ends no name.\<close>

fun wf_node :: "wnode \<Rightarrow> bool" where
  "wf_node (WNode cs b) \<longleftrightarrow>
     distinct (map fst cs) \<and> (\<forall>p\<in>set cs. wf_node (snd p) \<and> alive (snd p))"

lemma getChild_setChild [simp]:
  "getChild (setChild n c m) d = (if d = c then Some m else getChild n d)"
  by (simp add: getChild_def setChild_def update_conv')

lemma getChild_eraseChild [simp]:
  "getChild (eraseChild n c) d = (if d = c then None else getChild n d)"
  by (simp add: getChild_def eraseChild_def delete_conv')

lemma breakpoint_setChild [simp]: "breakpoint (setChild n c m) = breakpoint n"
  by (simp add: setChild_def)

lemma breakpoint_eraseChild [simp]: "breakpoint (eraseChild n c) = breakpoint n"
  by (simp add: eraseChild_def)

lemma children_setChild: "children (setChild n c m) = AList.update c m (children n)"
  by (simp add: setChild_def)

lemma children_eraseChild: "children (eraseChild n c) = AList.delete c (children n)"
  by (simp add: eraseChild_def)

lemma wf_node_iff:
  "wf_node n \<longleftrightarrow> distinct (map fst (children n)) \<and>
     (\<forall>c m. getChild n c = Some m \<longrightarrow> wf_node m \<and> alive m)"
  by (cases n) (fastforce simp: getChild_def map_of_eq_Some_iff dest: map_of_SomeD)

lemma wf_getChild: "wf_node n \<Longrightarrow> getChild n c = Some m \<Longrightarrow> wf_node m \<and> alive m"
  by (auto simp: wf_node_iff [of n])

lemma wf_setChild: "wf_node n \<Longrightarrow> wf_node m \<Longrightarrow> alive m \<Longrightarrow> wf_node (setChild n c m)"
  unfolding wf_node_iff [of n] wf_node_iff [of "setChild n c m"]
  by (simp add: children_setChild distinct_update)

lemma wf_eraseChild: "wf_node n \<Longrightarrow> wf_node (eraseChild n c)"
  unfolding wf_node_iff [of n] wf_node_iff [of "eraseChild n c"]
  by (simp add: children_eraseChild distinct_delete)

lemma wf_set_breakpoint: "wf_node (WNode (children n) b) = wf_node n"
  by (cases n) simp

lemma wf_leaf [simp]: "wf_node (WNode [] b)"
  by simp

declare wf_node.simps [simp del]

lemma getChild_set_breakpoint [simp]: "getChild (WNode (children n) b) c = getChild n c"
  by (simp add: getChild_def)

lemma getChild_leaf [simp]: "getChild (WNode [] b) c = None"
  by (simp add: getChild_def)

lemma alive_setChild [simp]: "alive (setChild n c m)"
  by (simp add: alive_def children_setChild update_nonempty)

lemma setChild_setChild [simp]: "setChild (setChild n c m) c m' = setChild n c m'"
  by (simp add: setChild_def update_last)

lemma isin_set_breakpoint: "isin (WNode (children n) b) t = (if t = [] then b else isin n t)"
  by (cases t) simp_all

lemma isin_empty: "\<not> isin (WNode [] False) s"
  by (cases s) (simp_all add: getChild_def)

lemma not_alive_isin: "\<not> alive n \<Longrightarrow> \<not> isin n s"
  by (cases n) (auto simp: alive_def isin_empty)

lemma alive_set_breakpoint [simp]: "alive (WNode cs True)"
  by (simp add: alive_def)

section \<open>Insertion\<close>

lemma insert_name_total: "s \<noteq> [] \<Longrightarrow> \<exists>n'. insert_name n s = Some n'"
  by (induction n s rule: insert_name.induct)
     (auto simp: Let_def addChild_def split: option.splits)

lemma isin_addChild_True:
  "isin (addChild n c True) t \<longleftrightarrow> t = [c] \<or> isin n t"
proof (cases t)
  case Nil
  then show ?thesis by (simp add: addChild_def split: option.split)
next
  case (Cons d s)
  then show ?thesis
    by (cases s) (auto simp: addChild_def isin_set_breakpoint split: option.splits)
qed

lemma addChild_False_child:
  "\<exists>child. getChild (addChild n c False) c = Some child \<and> wf_node n \<longrightarrow> wf_node child"
  by (auto simp: addChild_def split: option.splits)

lemma setChild_addChild [simp]: "setChild (addChild n c bp) c m = setChild n c m"
  by (simp add: addChild_def split: option.split)

lemma isin_addChild_False [simp]: "isin (addChild n c False) = isin n"
proof
  fix t
  show "isin (addChild n c False) t = isin n t"
    by (cases t) (auto simp: addChild_def isin_empty split: option.splits)
qed

text \<open>The tree after an insertion holds the name inserted and the names it held.\<close>

lemma isin_insert_name:
  "insert_name n s = Some n' \<Longrightarrow> isin n' t \<longleftrightarrow> t = s \<or> isin n t"
proof (induction n s arbitrary: n' t rule: insert_name.induct)
  case (1 cur)
  then show ?case by simp
next
  case (2 cur c)
  then show ?case by (auto simp: isin_addChild_True simp del: isin.simps)
next
  case (3 cur c d str)
  then obtain child child' where ch: "getChild (addChild cur c False) c = Some child"
    and ins: "insert_name child (d # str) = Some child'" and n': "n' = setChild cur c child'"
    by (auto simp: Let_def split: option.splits)
  have IH: "isin child' u \<longleftrightarrow> u = d # str \<or> isin child u" for u
    using 3(1) [OF refl ch ins] .
  have "isin cur (c # u) = isin child u" for u
  proof -
    have "isin cur (c # u) = isin (addChild cur c False) (c # u)" by simp
    also have "\<dots> = isin child u" by (simp only: isin.simps ch option.case)
    finally show ?thesis .
  qed
  then show ?case
    using n' IH by (cases t) auto
qed

lemma wf_addChild_True: "wf_node n \<Longrightarrow> wf_node (addChild n c True)"
  by (auto simp: addChild_def wf_set_breakpoint intro!: wf_setChild dest: wf_getChild
      split: option.split)

lemma alive_addChild: "alive (addChild n c b)"
  by (cases n) (auto simp: addChild_def alive_def getChild_def children_setChild update_nonempty
      split: option.split)

lemma alive_insert_name: "insert_name n s = Some n' \<Longrightarrow> alive n'"
  by (cases "(n, s)" rule: insert_name.cases)
     (auto simp: Let_def alive_addChild split: option.splits)

lemma wf_insert_name: "insert_name n s = Some n' \<Longrightarrow> wf_node n \<Longrightarrow> wf_node n'"
proof (induction n s arbitrary: n' rule: insert_name.induct)
  case (1 cur)
  then show ?case by simp
next
  case (2 cur c)
  then show ?case by (auto simp: wf_addChild_True)
next
  case (3 cur c d str)
  then obtain child child' where ch: "getChild (addChild cur c False) c = Some child"
    and ins: "insert_name child (d # str) = Some child'" and n': "n' = setChild cur c child'"
    by (auto simp: Let_def split: option.splits)
  have "wf_node child"
    using ch 3(3) by (auto simp: addChild_def split: option.splits if_splits dest: wf_getChild)
  with 3(1) [OF refl ch ins] have "wf_node child'" by blast
  with alive_insert_name [OF ins] n' 3(3) show ?case by (simp add: wf_setChild)
qed

section \<open>Removal\<close>

text \<open>A step up of the loop of \<open>remove\<close>, and the loop as a fold of steps over the stack.\<close>

definition prune :: "wnode \<Rightarrow> byte \<Rightarrow> wnode \<Rightarrow> wnode" where
  "prune up c m = (if alive m then setChild up c m else eraseChild up c)"

lemma remove_loop_fold: "remove_loop cur stack = foldl (\<lambda>m (up, c). prune up c m) cur stack"
proof (induction stack arbitrary: cur)
  case Nil
  then show ?case by (simp add: remove_loop.simps)
next
  case (Cons p rest)
  obtain up c where p: "p = (up, c)" by (cases p)
  have "remove_loop cur (p # rest) = remove_loop (prune up c cur) rest"
  proof (cases "alive cur")
    case True
    have "remove_loop (setChild up c cur) rest = rebuild (setChild up c cur) rest"
      using alive_setChild [of up c cur] by (subst remove_loop.simps) (simp add: alive_def)
    with True p show ?thesis
      by (subst remove_loop.simps) (simp add: alive_def prune_def)
  next
    case False
    with p show ?thesis
      by (subst remove_loop.simps) (simp add: alive_def prune_def)
  qed
  with Cons.IH p show ?case by simp
qed

fun prune_path :: "wnode \<Rightarrow> bstring \<Rightarrow> wnode option" where
  "prune_path n [] = Some (WNode (children n) False)"
| "prune_path n (c # s) =
     (case getChild n c of None \<Rightarrow> None | Some m \<Rightarrow> map_option (prune n c) (prune_path m s))"

lemma walk_path_prune:
  "map_option (\<lambda>(cur, st). remove_loop (WNode (children cur) False) st) (walk_path n s stack) =
   map_option (\<lambda>m. remove_loop m stack) (prune_path n s)"
  by (induction n s stack rule: walk_path.induct)
     (auto simp: remove_loop_fold option.map_comp comp_def split: option.splits)

lemma remove_name_prune:
  "remove_name n s = (case prune_path n s of None \<Rightarrow> n | Some n' \<Rightarrow> n')"
  using walk_path_prune [of n s "[]"]
  by (cases "walk_path n s []"; cases "prune_path n s")
     (auto simp: remove_name_def remove_loop_fold)

lemma isin_prune_Nil: "isin (prune n c m) [] = isin n []"
  by (simp add: prune_def)

lemma isin_prune_Cons: "isin (prune n c m) (d # u) = (if d = c then isin m u else isin n (d # u))"
  by (auto simp: prune_def not_alive_isin)

lemma wf_prune: "wf_node n \<Longrightarrow> wf_node m \<Longrightarrow> wf_node (prune n c m)"
  by (simp add: prune_def wf_setChild wf_eraseChild)

lemma isin_prune_path:
  "prune_path n s = Some n' \<Longrightarrow> isin n' t \<longleftrightarrow> t \<noteq> s \<and> isin n t"
proof (induction n s arbitrary: n' t rule: prune_path.induct)
  case (1 n)
  then show ?case by (cases t) (auto simp: isin_set_breakpoint)
next
  case (2 n c s)
  then obtain m m' where m: "getChild n c = Some m" and m': "prune_path m s = Some m'"
    and n': "n' = prune n c m'"
    by (auto split: option.splits)
  have "isin m' u \<longleftrightarrow> u \<noteq> s \<and> isin m u" for u
    using 2(1) [OF m m'] .
  moreover have "isin n (c # u) = isin m u" for u
    using m by simp
  ultimately show ?case
    unfolding n' by (cases t) (simp_all add: isin_prune_Nil isin_prune_Cons del: isin.simps)
qed

lemma prune_path_None: "prune_path n s = None \<Longrightarrow> \<not> isin n s"
  by (induction n s rule: prune_path.induct) (auto split: option.splits)

lemma wf_prune_path: "prune_path n s = Some n' \<Longrightarrow> wf_node n \<Longrightarrow> wf_node n'"
  by (induction n s arbitrary: n' rule: prune_path.induct)
     (auto simp: wf_set_breakpoint intro!: wf_prune dest: wf_getChild split: option.splits)

lemma isin_remove_name: "isin (remove_name n s) t \<longleftrightarrow> t \<noteq> s \<and> isin n t"
  by (auto simp: remove_name_prune isin_prune_path dest: prune_path_None split: option.splits)

lemma wf_remove_name: "wf_node n \<Longrightarrow> wf_node (remove_name n s)"
  by (auto simp: remove_name_prune wf_prune_path split: option.splits)

section \<open>Search\<close>

lemma walk_None: "walk n q = None \<Longrightarrow> \<not> isin n (q @ t)"
  by (induction n q rule: walk.induct) (auto split: option.splits)

lemma walk_Some: "walk n q = Some m \<Longrightarrow> isin n (q @ t) = isin m t"
  by (induction n q rule: walk.induct) (auto split: option.splits)

lemma wf_walk: "walk n q = Some m \<Longrightarrow> wf_node n \<Longrightarrow> wf_node m \<and> (q \<noteq> [] \<longrightarrow> alive m)"
  by (induction n q rule: walk.induct)
     (auto split: option.splits dest: wf_getChild, metis option.inject walk.simps(1) wf_getChild)

lemma alive_has_name: "wf_node n \<Longrightarrow> alive n \<Longrightarrow> \<exists>t. isin n t"
proof (induction n rule: wf_node.induct)
  case (1 cs b)
  show ?case
  proof (cases cs)
    case Nil
    with 1 have "isin (WNode cs b) []" by (simp add: alive_def)
    then show ?thesis by blast
  next
    case (Cons p ps)
    with 1(2) have "wf_node (snd p)" and "alive (snd p)" by (auto simp: wf_node.simps)
    with 1(1) [of p] Cons obtain t where "isin (snd p) t" by auto
    with Cons have "isin (WNode cs b) (fst p # t)" by (simp add: getChild_def)
    then show ?thesis by blast
  qed
qed

lemma extend_name_cases:
  "wf_node n \<Longrightarrow> alive n \<Longrightarrow>
     (\<exists>t. extend_name n acc = (RETURNVALUE_NOERROR, acc @ t) \<and> (\<forall>u. isin n u = (u = t))) \<or>
     (fst (extend_name n acc) = RETURNVALUE_NAMEISTOOAMBIGUOUS \<and> (\<exists>t u. t \<noteq> u \<and> isin n t \<and> isin n u))"
proof (induction n acc rule: extend_name.induct)
  case (1 bp acc)
  then have "bp" by (simp add: alive_def)
  then have "isin (WNode [] bp) u = (u = [])" for u
    by (cases u) (simp_all add: getChild_def)
  then show ?case by auto
next
  case (2 c child bp acc)
  then have child: "wf_node child" "alive child" by (simp_all add: wf_node.simps)
  have one: "isin (WNode [(c, child)] bp) (d # u) \<longleftrightarrow> d = c \<and> isin child u" for d u
    by (simp add: getChild_def)
  show ?case
  proof (cases bp)
    case True
    obtain t where "isin child t" using alive_has_name child by blast
    then have "isin (WNode [(c, child)] bp) (c # t)" by (simp only: one simp_thms)
    moreover have "isin (WNode [(c, child)] bp) []" using True by simp
    ultimately show ?thesis using True by fastforce
  next
    case False
    from 2(1) [OF False child] show ?thesis
    proof
      assume "\<exists>t. extend_name child (acc @ [c]) = (RETURNVALUE_NOERROR, (acc @ [c]) @ t) \<and>
        (\<forall>u. isin child u = (u = t))"
      then obtain t where t: "extend_name child (acc @ [c]) = (RETURNVALUE_NOERROR, acc @ c # t)"
        and child_t: "\<forall>v. isin child v = (v = t)"
        by auto
      have "isin (WNode [(c, child)] bp) v = (v = c # t)" for v
      proof (cases v)
        case Nil
        with False show ?thesis by simp
      next
        case (Cons d w)
        then show ?thesis by (simp add: one child_t del: isin.simps)
      qed
      with t False show ?thesis by (intro disjI1 exI [of _ "c # t"]) (simp del: isin.simps)
    next
      assume "fst (extend_name child (acc @ [c])) = RETURNVALUE_NAMEISTOOAMBIGUOUS \<and>
        (\<exists>t u. t \<noteq> u \<and> isin child t \<and> isin child u)"
      then obtain t u where "fst (extend_name child (acc @ [c])) = RETURNVALUE_NAMEISTOOAMBIGUOUS"
        and "c # t \<noteq> c # u" and "isin child t" and "isin child u" by auto
      moreover from this have "isin (WNode [(c, child)] bp) (c # t)" "isin (WNode [(c, child)] bp) (c # u)"
        by (simp_all add: one del: isin.simps(2))
      ultimately show ?thesis using False
        by (intro disjI2 conjI exI [of _ "c # t"] exI [of _ "c # u"]) (simp_all del: isin.simps)
    qed
  qed
next
  case (3 p1 p2 cs bp acc)
  then have "wf_node (snd p1)" "alive (snd p1)" "wf_node (snd p2)" "alive (snd p2)"
    and ne: "fst p1 \<noteq> fst p2"
    by (auto simp: wf_node.simps)
  then obtain t u where "isin (snd p1) t" "isin (snd p2) u"
    using alive_has_name by blast
  with ne have "isin (WNode (p1 # p2 # cs) bp) (fst p1 # t)" "isin (WNode (p1 # p2 # cs) bp) (fst p2 # u)"
    and "fst p1 # t \<noteq> fst p2 # u"
    by (simp_all add: getChild_def)
  then have "\<exists>t u. t \<noteq> u \<and> isin (WNode (p1 # p2 # cs) bp) t \<and> isin (WNode (p1 # p2 # cs) bp) u"
    by blast
  then show ?case by (simp del: isin.simps)
qed

section \<open>The contract of the index\<close>

text \<open>The names of a set that start with a query.\<close>

definition matches :: "bstring set \<Rightarrow> bstring \<Rightarrow> bstring set" where
  "matches S q = {s \<in> S. prefix q s}"

datatype name_op = AddName bstring | RemoveName bstring

fun run_names :: "('t \<Rightarrow> bstring \<Rightarrow> 't option) \<Rightarrow> ('t \<Rightarrow> bstring \<Rightarrow> 't) \<Rightarrow> name_op list \<Rightarrow> 't \<Rightarrow> 't option"
where
  "run_names ins del [] t = Some t"
| "run_names ins del (AddName s # ops) t = do { t' \<leftarrow> ins t s; run_names ins del ops t' }"
| "run_names ins del (RemoveName s # ops) t = run_names ins del ops (del t s)"

fun names_after :: "name_op list \<Rightarrow> bstring set \<Rightarrow> bstring set" where
  "names_after [] S = S"
| "names_after (AddName s # ops) S = names_after ops (insert s S)"
| "names_after (RemoveName s # ops) S = names_after ops (S - {s})"

locale name_index =
  fixes empty_index :: "'t"
    and ins :: "'t \<Rightarrow> bstring \<Rightarrow> 't option"
    and del :: "'t \<Rightarrow> bstring \<Rightarrow> 't"
    and find :: "'t \<Rightarrow> bstring \<Rightarrow> bstring \<Rightarrow> ReturnValue \<times> bstring"
    and elems :: "'t \<Rightarrow> bstring set"
    and inv :: "'t \<Rightarrow> bool"
  assumes inv_empty: "inv empty_index"
    and elems_empty: "elems empty_index = {}"
    and ins_ok: "inv t \<Longrightarrow> s \<noteq> [] \<Longrightarrow> \<exists>t'. ins t s = Some t' \<and> inv t' \<and> elems t' = insert s (elems t)"
    and del_ok: "inv t \<Longrightarrow> inv (del t s) \<and> elems (del t s) = elems t - {s}"
    and find_none: "inv t \<Longrightarrow> q \<noteq> [] \<Longrightarrow> matches (elems t) q = {} \<Longrightarrow>
      find t q r0 = (RETURNVALUE_PLAYERWITHTHISNAMEISNOTONLINE, r0)"
    and find_one: "inv t \<Longrightarrow> matches (elems t) q = {s} \<Longrightarrow> find t q r0 = (RETURNVALUE_NOERROR, s)"
    and find_many: "inv t \<Longrightarrow> s \<in> matches (elems t) q \<Longrightarrow> u \<in> matches (elems t) q \<Longrightarrow> s \<noteq> u \<Longrightarrow>
      fst (find t q r0) = RETURNVALUE_NAMEISTOOAMBIGUOUS"
begin

lemma run_ok:
  "inv t \<Longrightarrow> AddName [] \<notin> set ops \<Longrightarrow>
     \<exists>t'. run_names ins del ops t = Some t' \<and> inv t' \<and> elems t' = names_after ops (elems t)"
proof (induction ops arbitrary: t)
  case Nil
  then show ?case by simp
next
  case (Cons p ops)
  show ?case
  proof (cases p)
    case (AddName s)
    with Cons.prems have "s \<noteq> []" by auto
    with ins_ok [OF Cons.prems(1)] obtain t' where "ins t s = Some t'" "inv t'"
      "elems t' = insert s (elems t)" by blast
    with Cons.IH [of t'] Cons.prems(2) AddName show ?thesis by auto
  next
    case (RemoveName s)
    with Cons.IH [of "del t s"] Cons.prems del_ok [OF Cons.prems(1), of s] show ?thesis by auto
  qed
qed

lemma find_cases:
  assumes "inv t" and "q \<noteq> []"
  shows "(matches (elems t) q = {} \<and> find t q r0 = (RETURNVALUE_PLAYERWITHTHISNAMEISNOTONLINE, r0)) \<or>
    (\<exists>s. matches (elems t) q = {s} \<and> find t q r0 = (RETURNVALUE_NOERROR, s)) \<or>
    ((\<exists>s\<in>matches (elems t) q. \<exists>u\<in>matches (elems t) q. s \<noteq> u) \<and>
     fst (find t q r0) = RETURNVALUE_NAMEISTOOAMBIGUOUS)"
proof (cases "\<exists>s\<in>matches (elems t) q. \<exists>u\<in>matches (elems t) q. s \<noteq> u")
  case True
  with find_many [OF assms(1)] show ?thesis by blast
next
  case False
  then consider "matches (elems t) q = {}" | s where "matches (elems t) q = {s}" by blast
  then show ?thesis
    using find_none [OF assms] find_one [OF assms(1)] by cases auto
qed

end

lemma matches_walk_Some: "walk n q = Some m \<Longrightarrow> matches (names n) q = (\<lambda>t. q @ t) ` {t. isin m t}"
  by (auto simp: matches_def names_def prefix_def walk_Some)

lemma matches_walk_None: "walk n q = None \<Longrightarrow> matches (names n) q = {}"
  by (auto simp: matches_def names_def prefix_def walk_None)

lemma alive_if_isin: "isin n t \<Longrightarrow> alive n"
  using not_alive_isin by blast

interpretation tree: name_index "WNode [] False" insert_name remove_name findOne names wf_node
proof
  show "wf_node (WNode [] False)" by simp
  show "names (WNode [] False) = {}" by (simp add: names_def isin_empty)
next
  fix t :: wnode and s :: bstring
  assume t: "wf_node t"
  show "wf_node (remove_name t s) \<and> names (remove_name t s) = names t - {s}"
    using wf_remove_name [OF t] by (auto simp: names_def isin_remove_name)
  assume "s \<noteq> []"
  then obtain t' where t': "insert_name t s = Some t'" using insert_name_total by blast
  with wf_insert_name [OF t' t] isin_insert_name [OF t']
  show "\<exists>t'. insert_name t s = Some t' \<and> wf_node t' \<and> names t' = insert s (names t)"
    by (auto simp: names_def)
next
  fix t :: wnode and q r0 :: bstring
  assume t: "wf_node t" "q \<noteq> []" "matches (names t) q = {}"
  have "walk t q = None"
  proof (rule ccontr)
    assume "walk t q \<noteq> None"
    then obtain m where m: "walk t q = Some m" by blast
    with wf_walk [OF m t(1)] t(2) obtain u where "isin m u" using alive_has_name by blast
    with m t(3) show False by (simp add: matches_walk_Some)
  qed
  then show "findOne t q r0 = (RETURNVALUE_PLAYERWITHTHISNAMEISNOTONLINE, r0)"
    by (simp add: findOne_def)
next
  fix t :: wnode and q r0 s :: bstring
  assume t: "wf_node t" and one: "matches (names t) q = {s}"
  then obtain m where m: "walk t q = Some m" using matches_walk_None by fastforce
  with one have img: "(\<lambda>u. q @ u) ` {u. isin m u} = {s}" by (simp add: matches_walk_Some)
  then obtain u where u: "isin m u" and s: "s = q @ u" by blast
  from img have uniq: "isin m v \<Longrightarrow> v = u" for v using s by blast
  from extend_name_cases [OF conjunct1 [OF wf_walk [OF m t]] alive_if_isin [OF u], of q] u uniq
  have "extend_name m q = (RETURNVALUE_NOERROR, q @ u)" by blast
  with m s show "findOne t q r0 = (RETURNVALUE_NOERROR, s)" by (simp add: findOne_def)
next
  fix t :: wnode and q r0 s u :: bstring
  assume t: "wf_node t" and many: "s \<in> matches (names t) q" "u \<in> matches (names t) q" "s \<noteq> u"
  then obtain m where m: "walk t q = Some m" using matches_walk_None by fastforce
  with many obtain v w where vw: "isin m v" "isin m w" "v \<noteq> w"
    by (auto simp: matches_walk_Some)
  from extend_name_cases [OF conjunct1 [OF wf_walk [OF m t]] alive_if_isin [OF vw(1)], of q] vw
  have "fst (extend_name m q) = RETURNVALUE_NAMEISTOOAMBIGUOUS" by metis
  with m show "fst (findOne t q r0) = RETURNVALUE_NAMEISTOOAMBIGUOUS" by (simp add: findOne_def)
qed

text \<open>
  C14: The tree refines a set of names: from the empty tree, every sequence of insertions of
  non-empty names and removals succeeds, the tree then holds exactly the names of the set after the
  same operations, and \<open>findOne\<close> answers for that set - it finds the name when exactly one name
  starts with the query, reports that none is online when none does, and ambiguity when two do.
\<close>

theorem wildcard_tree_refines_set:
  assumes "AddName [] \<notin> set ops"
  shows "\<exists>t. run_names insert_name remove_name ops (WNode [] False) = Some t \<and>
    names t = names_after ops {} \<and>
    (\<forall>q result. q = [] \<or>
      (matches (names_after ops {}) q = {} \<and>
       findOne t q result = (RETURNVALUE_PLAYERWITHTHISNAMEISNOTONLINE, result)) \<or>
      (\<exists>s. matches (names_after ops {}) q = {s} \<and> findOne t q result = (RETURNVALUE_NOERROR, s)) \<or>
      ((\<exists>s\<in>matches (names_after ops {}) q. \<exists>u\<in>matches (names_after ops {}) q. s \<noteq> u) \<and>
       fst (findOne t q result) = RETURNVALUE_NAMEISTOOAMBIGUOUS))"
proof -
  from tree.run_ok [OF tree.inv_empty assms] obtain t
    where run: "run_names insert_name remove_name ops (WNode [] False) = Some t"
      and t: "wf_node t" "names t = names_after ops {}"
    unfolding tree.elems_empty by blast
  have "q = [] \<or> (matches (names t) q = {} \<and>
       findOne t q result = (RETURNVALUE_PLAYERWITHTHISNAMEISNOTONLINE, result)) \<or>
      (\<exists>s. matches (names t) q = {s} \<and> findOne t q result = (RETURNVALUE_NOERROR, s)) \<or>
      ((\<exists>s\<in>matches (names t) q. \<exists>u\<in>matches (names t) q. s \<noteq> u) \<and>
       fst (findOne t q result) = RETURNVALUE_NAMEISTOOAMBIGUOUS)" for q result
    using tree.find_cases [OF t(1)] by blast
  with run show ?thesis
    unfolding t(2) [symmetric] by (intro exI [of _ t] conjI allI) auto
qed

theorem wildcard_tree_refines_set_witness:
  "\<exists>t. run_names insert_name remove_name
     [AddName [97, 110], AddName [97, 110, 97], RemoveName [97, 110]] (WNode [] False) = Some t \<and>
     names t = {[97, 110, 97]}"
  using wildcard_tree_refines_set
    [of "[AddName [97, 110], AddName [97, 110, 97], RemoveName [97, 110]]"]
  by auto

end
