(* ===== verification/PlayerNames.thy ===== *)
theory PlayerNames
  imports WildcardTree
begin

text \<open>
  The players online, by name: the name map and the name tree of the game (\<open>game.cpp\<close>) and the
  exact and wildcard look-ups that commands and private messages use. A player is its id and name;
  \<open>tolower\<close> is the C locale's, which moves the letters A to Z only.
\<close>

definition tolower :: "byte \<Rightarrow> byte" where
  "tolower c = (if 65 \<le> c \<and> c \<le> 90 then c + 32 else c)"

definition asLowerCaseString :: "bstring \<Rightarrow> bstring" where
  "asLowerCaseString source = map tolower source"

lemma tolower_idem [simp]: "tolower (tolower c) = tolower c"
proof (cases "65 \<le> c \<and> c \<le> 90")
  case True
  then have "65 \<le> unat c" "unat c \<le> 90" by (simp_all add: word_le_nat_alt)
  then have "unat (c + 32) = unat c + 32" by (simp add: unat_word_ariths)
  with \<open>65 \<le> unat c\<close> have "\<not> c + 32 \<le> 90" by (simp add: word_le_nat_alt)
  with True show ?thesis by (simp add: tolower_def)
next
  case False
  then show ?thesis by (auto simp: tolower_def)
qed

lemma asLowerCaseString_idem [simp]: "asLowerCaseString (asLowerCaseString s) = asLowerCaseString s"
  by (simp add: asLowerCaseString_def comp_def)

lemma asLowerCaseString_Nil_iff [simp]: "asLowerCaseString s = [] \<longleftrightarrow> s = []"
  by (simp add: asLowerCaseString_def)

record player_ref =
  player_id :: u32
  player_name :: bstring







section \<open>The invariant of the two indices\<close>

datatype player_op = Login player_ref | Logout player_ref









section \<open>Who is online\<close>

text \<open>A player is online when the last event under its name, case aside, is its login.\<close>

fun op_name :: "player_op \<Rightarrow> bstring" where
  "op_name (Login p) = asLowerCaseString (player_name p)"
| "op_name (Logout p) = asLowerCaseString (player_name p)"

definition online :: "player_op list \<Rightarrow> player_ref \<Rightarrow> bool" where
  "online ops p \<longleftrightarrow> (\<exists>as bs. ops = as @ Login p # bs \<and> (\<forall>e \<in> set bs. op_name e \<noteq> asLowerCaseString (player_name p)))"

lemma online_Nil [simp]: "\<not> online [] p"
  by (simp add: online_def)










end
