(* ===== verification/WorkQueue.thy ===== *)
theory WorkQueue
  imports Prelude "HOL-Library.Multiset"
begin

text \<open>
  Runs of a component as sequences of events, and the contract of a thread that works off a list:
  every event moves tasks from what it adds through the list to what it takes. The dispatcher and
  the database thread meet the contract.
\<close>

fun run_events :: "('e \<Rightarrow> 's \<Rightarrow> 's \<times> 'o) \<Rightarrow> 'e list \<Rightarrow> 's \<Rightarrow> 's \<times> 'o list" where
  "run_events step [] s = (s, [])"
| "run_events step (e # es) s =
     (let (s', r) = step e s; (s'', rs) = run_events step es s' in (s'', r # rs))"

text \<open>The tasks that the events of a run add, each judged in the state it meets.\<close>

fun added :: "('e \<Rightarrow> 's \<Rightarrow> 's \<times> 'o) \<Rightarrow> ('e \<Rightarrow> 's \<Rightarrow> 't list) \<Rightarrow> 'e list \<Rightarrow> 's \<Rightarrow> 't list" where
  "added step put [] s = []"
| "added step put (e # es) s = put e s @ added step put es (fst (step e s))"

lemma run_events_Cons:
  assumes "run_events step (e # es) s = (s2, os)"
  obtains s1 r rs where "step e s = (s1, r)" "run_events step es s1 = (s2, rs)" "os = r # rs"
  using assms by (auto split: prod.splits)

lemma run_events_invariant:
  assumes "run_events step es s = (s', rs)" and "I s"
    and "\<And>e s s' r. I s \<Longrightarrow> step e s = (s', r) \<Longrightarrow> I s' \<and> J r"
  shows "I s' \<and> list_all J rs"
  using assms(1,2)
proof (induction es arbitrary: s rs)
  case Nil
  then show ?case by simp
next
  case (Cons e es)
  from Cons.prems(1) obtain s1 r rs1 where e: "step e s = (s1, r)"
    and run: "run_events step es s1 = (s', rs1)" and rs: "rs = r # rs1"
    by (rule run_events_Cons)
  from assms(3) [OF Cons.prems(2) e] have s1: "I s1" and r: "J r" by auto
  from Cons.IH [OF run s1] r rs show ?case by simp
qed

locale work_queue =
  fixes step :: "'e \<Rightarrow> 's \<Rightarrow> 's \<times> 'o"
    and put :: "'e \<Rightarrow> 's \<Rightarrow> 't list"
    and out :: "'o \<Rightarrow> 't list"
    and pending :: "'s \<Rightarrow> 't list"
    and behind :: "'e \<Rightarrow> bool"
  assumes step_mset: "step e s = (s', r) \<Longrightarrow>
      mset (out r) + mset (pending s') = mset (pending s) + mset (put e s)"
    and step_back: "step e s = (s', r) \<Longrightarrow> behind e \<Longrightarrow> out r @ pending s' = pending s @ put e s"
begin

lemma run_mset:
  "run_events step es s = (s', rs) \<Longrightarrow>
     mset (concat (map out rs)) + mset (pending s') = mset (pending s) + mset (added step put es s)"
proof (induction es arbitrary: s rs)
  case Nil
  then show ?case by simp
next
  case (Cons e es)
  from Cons.prems obtain s1 r rs1 where e: "step e s = (s1, r)"
    and run: "run_events step es s1 = (s', rs1)" and rs: "rs = r # rs1"
    by (rule run_events_Cons)
  from step_mset [OF e] Cons.IH [OF run] show ?case
    unfolding rs by (simp add: e ac_simps)
qed

lemma run_back:
  "run_events step es s = (s', rs) \<Longrightarrow> list_all behind es \<Longrightarrow>
     concat (map out rs) @ pending s' = pending s @ added step put es s"
proof (induction es arbitrary: s rs)
  case Nil
  then show ?case by simp
next
  case (Cons e es)
  from Cons.prems(1) obtain s1 r rs1 where e: "step e s = (s1, r)"
    and run: "run_events step es s1 = (s', rs1)" and rs: "rs = r # rs1"
    by (rule run_events_Cons)
  have "behind e" and "list_all behind es" using Cons.prems(2) by simp_all
  from step_back [OF e this(1)] Cons.IH [OF run this(2)] show ?case
    unfolding rs by (simp add: e)
qed

end

end
