(* ===== verification/Tasks.thy ===== *)
theory Tasks
  imports WorkQueue
begin

text \<open>
  The dispatcher, the thread on which the game runs (\<open>tasks.h\<close>, \<open>tasks.cpp\<close>,
  \<open>thread_holder_base.h\<close>).

  Time is the system clock as an integer; the expiration 0 is \<open>SYSTEM_TIME_ZERO\<close>. What a task does
  is a parameter \<open>'f\<close>: its own calls to the dispatcher are later events of the run. Every operation
  holds \<open>taskLock\<close> while it touches the list, so a run is an interleaving of whole operations and
  of iterations of \<open>threadMain\<close>. An iteration that finds the list empty blocks the thread, and a
  later iteration of a blocked thread is its return from \<open>wait\<close>, on a signal or spuriously.
\<close>

section \<open>Data\<close>

datatype ThreadState = THREAD_STATE_RUNNING | THREAD_STATE_CLOSING | THREAD_STATE_TERMINATED

record 'f task =
  expiration :: int
  func :: 'f

definition createTask :: "'f \<Rightarrow> 'f task" where
  "createTask f = \<lparr> expiration = 0, func = f \<rparr>"

definition createTaskExpiring :: "int \<Rightarrow> u32 \<Rightarrow> 'f \<Rightarrow> 'f task" where
  "createTaskExpiring now ms f = \<lparr> expiration = now + uint ms, func = f \<rparr>"

definition setDontExpire :: "('f, 'm) task_scheme \<Rightarrow> ('f, 'm) task_scheme" where
  "setDontExpire t = t\<lparr> expiration := 0 \<rparr>"

definition hasExpired :: "int \<Rightarrow> ('f, 'm) task_scheme \<Rightarrow> bool" where
  "hasExpired now t = (if expiration t = 0 then False else expiration t < now)"

text \<open>The body of a task: a function of the game, or the one that \<open>Dispatcher::shutdown\<close> queues.\<close>

datatype 'f job = Job 'f | TerminateThread

record 'f dispatcher =
  d_threadState :: ThreadState
  taskList :: "'f job task list"
  dispatcherCycle :: u64
  d_waiting :: bool
  d_signalled :: bool

definition new_dispatcher :: "'f dispatcher" where
  "new_dispatcher = \<lparr> d_threadState = THREAD_STATE_TERMINATED, taskList = [], dispatcherCycle = 0,
     d_waiting = False, d_signalled = False \<rparr>"

definition dispatcher_start :: "'f dispatcher \<Rightarrow> 'f dispatcher" where
  "dispatcher_start d = d\<lparr> d_threadState := THREAD_STATE_RUNNING \<rparr>"

definition dispatcher_stop :: "'f dispatcher \<Rightarrow> 'f dispatcher" where
  "dispatcher_stop d = d\<lparr> d_threadState := THREAD_STATE_CLOSING \<rparr>"

section \<open>Operations\<close>

text \<open>\<open>notify_one\<close>: it wakes the thread when it is blocked and is lost when it is not.\<close>

definition dispatcher_notify :: "'f dispatcher \<Rightarrow> 'f dispatcher" where
  "dispatcher_notify d = (if d_waiting d then d\<lparr> d_signalled := True \<rparr> else d)"

definition addTask :: "'f dispatcher \<Rightarrow> 'f job task \<Rightarrow> bool \<Rightarrow> 'f dispatcher" where
  "addTask d task push_front =
     (if d_threadState d = THREAD_STATE_RUNNING then
        (let do_signal = (taskList d = []);
             d' = (if push_front then d\<lparr> taskList := task # taskList d \<rparr>
                   else d\<lparr> taskList := taskList d @ [task] \<rparr>)
         in if do_signal then dispatcher_notify d' else d')
      else d)"

definition dispatcher_shutdown :: "'f dispatcher \<Rightarrow> 'f dispatcher" where
  "dispatcher_shutdown d =
     dispatcher_notify (d\<lparr> taskList := taskList d @ [createTask TerminateThread] \<rparr>)"

fun run_job :: "'f job \<Rightarrow> 'f dispatcher \<Rightarrow> 'f dispatcher" where
  "run_job (Job f) d = d"
| "run_job TerminateThread d = dispatcher_notify (d\<lparr> d_threadState := THREAD_STATE_TERMINATED \<rparr>)"

text \<open>What an iteration of the thread did with a task.\<close>

datatype 'f outcome = Nothing | Ran int "'f job task" | Dropped int "'f job task"

definition dispatcher_take :: "int \<Rightarrow> 'f dispatcher \<Rightarrow> 'f dispatcher \<times> 'f outcome" where
  "dispatcher_take now d =
     (case taskList d of
        [] \<Rightarrow> (d, Nothing)
      | task # rest \<Rightarrow>
          let d' = d\<lparr> taskList := rest \<rparr>
          in if \<not> hasExpired now task
             then (run_job (func task) (d'\<lparr> dispatcherCycle := dispatcherCycle d' + 1 \<rparr>), Ran now task)
             else (d', Dropped now task))"

definition threadMain_iteration :: "int \<Rightarrow> 'f dispatcher \<Rightarrow> 'f dispatcher \<times> 'f outcome" where
  "threadMain_iteration now d =
     (if d_threadState d = THREAD_STATE_TERMINATED then (d, Nothing)
      else if \<not> d_waiting d \<and> taskList d = [] then
        (d\<lparr> d_waiting := True, d_signalled := False \<rparr>, Nothing)
      else dispatcher_take now (d\<lparr> d_waiting := False, d_signalled := False \<rparr>))"

section \<open>Runs\<close>

datatype 'f dispatcher_event =
    AddTask "'f task" bool | StopDispatcher | ShutdownDispatcher | Iteration int

definition as_job :: "'f task \<Rightarrow> 'f job task" where
  "as_job t = \<lparr> expiration = expiration t, func = Job (func t) \<rparr>"

fun dispatcher_handle :: "'f dispatcher_event \<Rightarrow> 'f dispatcher \<Rightarrow> 'f dispatcher \<times> 'f outcome" where
  "dispatcher_handle (AddTask t push_front) d = (addTask d (as_job t) push_front, Nothing)"
| "dispatcher_handle StopDispatcher d = (dispatcher_stop d, Nothing)"
| "dispatcher_handle ShutdownDispatcher d = (dispatcher_shutdown d, Nothing)"
| "dispatcher_handle (Iteration now) d = threadMain_iteration now d"

abbreviation run_dispatcher :: "'f dispatcher_event list \<Rightarrow> 'f dispatcher \<Rightarrow> 'f dispatcher \<times> 'f outcome list"
  where "run_dispatcher \<equiv> run_events dispatcher_handle"

text \<open>The tasks that an outcome takes off the list, and the tasks that an event puts on it.\<close>

fun taken :: "'f outcome \<Rightarrow> 'f job task list" where
  "taken Nothing = []"
| "taken (Ran now t) = [t]"
| "taken (Dropped now t) = [t]"

fun put :: "'f dispatcher_event \<Rightarrow> 'f dispatcher \<Rightarrow> 'f job task list" where
  "put (AddTask t push_front) d =
     (if d_threadState d = THREAD_STATE_RUNNING then [as_job t] else [])"
| "put ShutdownDispatcher d = [createTask TerminateThread]"
| "put StopDispatcher d = []"
| "put (Iteration now) d = []"

definition pushes_back :: "'f dispatcher_event \<Rightarrow> bool" where
  "pushes_back e \<longleftrightarrow> (case e of AddTask t push_front \<Rightarrow> \<not> push_front | _ \<Rightarrow> True)"

fun outcome_in_time :: "'f outcome \<Rightarrow> bool" where
  "outcome_in_time Nothing \<longleftrightarrow> True"
| "outcome_in_time (Ran now t) \<longleftrightarrow> \<not> hasExpired now t"
| "outcome_in_time (Dropped now t) \<longleftrightarrow> hasExpired now t"

lemma taskList_notify [simp]: "taskList (dispatcher_notify d) = taskList d"
  by (simp add: dispatcher_notify_def)

lemma waiting_notify [simp]: "d_waiting (dispatcher_notify d) = d_waiting d"
  by (simp add: dispatcher_notify_def)

lemma threadState_notify [simp]: "d_threadState (dispatcher_notify d) = d_threadState d"
  by (simp add: dispatcher_notify_def)

lemma taskList_run_job [simp]: "taskList (run_job j d) = taskList d"
  by (cases j) simp_all

lemma waiting_run_job [simp]: "d_waiting (run_job j d) = d_waiting d"
  by (cases j) simp_all

lemma iteration_taken:
  "threadMain_iteration now d = (d', r) \<Longrightarrow> taken r @ taskList d' = taskList d \<and> outcome_in_time r"
  by (auto simp: threadMain_iteration_def dispatcher_take_def Let_def split: if_splits list.splits)

lemma handle_in_time: "dispatcher_handle e d = (d', r) \<Longrightarrow> outcome_in_time r"
  by (cases e) (auto dest: iteration_taken)

interpretation dispatcher: work_queue dispatcher_handle put taken taskList pushes_back
proof
  fix e :: "'f dispatcher_event" and d d' r
  assume h: "dispatcher_handle e d = (d', r)"
  show "mset (taken r) + mset (taskList d') = mset (taskList d) + mset (put e d)"
  proof (cases e)
    case (Iteration now)
    with h iteration_taken have "taken r @ taskList d' = taskList d" by fastforce
    then have "mset (taken r) + mset (taskList d') = mset (taskList d)" by (metis mset_append)
    with Iteration show ?thesis by simp
  qed (use h in \<open>auto simp: addTask_def dispatcher_stop_def dispatcher_shutdown_def Let_def
        split: if_splits\<close>)
  assume "pushes_back e"
  with h show "taken r @ taskList d' = taskList d @ put e d"
    by (cases e)
       (auto simp: addTask_def dispatcher_stop_def dispatcher_shutdown_def Let_def pushes_back_def
         dest: iteration_taken split: if_splits)
qed

text \<open>
  C16: In every run of the dispatcher, the tasks taken off the list and those still on it are exactly
  the tasks accepted, each once; a task is run if it has not expired at that moment and dropped if it
  has; and when no task was pushed to the front, tasks leave in the order in which they were accepted.
\<close>

theorem dispatcher_takes_each_task_once:
  assumes "run_dispatcher es (dispatcher_start new_dispatcher) = (d, rs)"
  shows "mset (concat (map taken rs)) + mset (taskList d) =
      mset (added dispatcher_handle put es (dispatcher_start new_dispatcher)) \<and>
    list_all outcome_in_time rs \<and>
    (list_all pushes_back es \<longrightarrow>
       concat (map taken rs) @ taskList d = added dispatcher_handle put es (dispatcher_start new_dispatcher))"
proof -
  have empty: "taskList (dispatcher_start new_dispatcher) = []"
    by (simp add: dispatcher_start_def new_dispatcher_def)
  have "list_all outcome_in_time rs"
    using run_events_invariant [OF assms, of "\<lambda>_. True" outcome_in_time] handle_in_time by blast
  with dispatcher.run_mset [OF assms] dispatcher.run_back [OF assms] show ?thesis
    by (simp add: empty)
qed

text \<open>A task that waited too long is dropped, the one behind it runs.\<close>

lemmas dispatcher_eval = dispatcher_start_def new_dispatcher_def createTask_def
  createTaskExpiring_def addTask_def as_job_def dispatcher_notify_def threadMain_iteration_def
  dispatcher_take_def hasExpired_def dispatcher_shutdown_def dispatcher_stop_def

theorem dispatcher_takes_each_task_once_witness:
  "snd (run_dispatcher [AddTask (createTaskExpiring 0 2000 (1 :: nat)) False,
      AddTask (createTask 2) False, Iteration 3000, Iteration 3000]
      (dispatcher_start new_dispatcher)) =
     [Nothing, Nothing, Dropped 3000 \<lparr> expiration = 2000, func = Job 1 \<rparr>,
      Ran 3000 \<lparr> expiration = 0, func = Job 2 \<rparr>] \<and>
   list_all outcome_in_time (snd (run_dispatcher [AddTask (createTaskExpiring 0 2000 (1 :: nat)) False,
      AddTask (createTask 2) False, Iteration 3000, Iteration 3000]
      (dispatcher_start new_dispatcher)))"
proof (rule conjI)
  let ?es = "[AddTask (createTaskExpiring 0 2000 (1 :: nat)) False,
      AddTask (createTask 2) False, Iteration 3000, Iteration 3000]"
  show "snd (run_dispatcher ?es (dispatcher_start new_dispatcher)) =
     [Nothing, Nothing, Dropped 3000 \<lparr> expiration = 2000, func = Job 1 \<rparr>,
      Ran 3000 \<lparr> expiration = 0, func = Job 2 \<rparr>]"
    by (simp add: dispatcher_eval)
  show "list_all outcome_in_time (snd (run_dispatcher ?es (dispatcher_start new_dispatcher)))"
    using dispatcher_takes_each_task_once [of ?es] by (metis prod.collapse)
qed

section \<open>Wake-ups\<close>

text \<open>The thread is not left asleep over work: blocked and not signalled, its list is empty.\<close>

definition awake_or_idle :: "'f dispatcher \<Rightarrow> bool" where
  "awake_or_idle d \<longleftrightarrow> (d_waiting d \<and> \<not> d_signalled d \<longrightarrow> taskList d = [])"

lemma awake_or_idle_handle:
  "awake_or_idle d \<Longrightarrow> dispatcher_handle e d = (d', r) \<Longrightarrow> awake_or_idle d'"
  by (cases e)
     (auto simp: awake_or_idle_def addTask_def dispatcher_stop_def dispatcher_shutdown_def Let_def
       dispatcher_notify_def threadMain_iteration_def dispatcher_take_def
       split: if_splits list.splits)

section \<open>Shutdown\<close>

lemma iteration_job:
  assumes "d_threadState d \<noteq> THREAD_STATE_TERMINATED" and "taskList d = \<lparr> expiration = e, func = Job f \<rparr> # ts"
  obtains d' where "threadMain_iteration now d =
      (d', if hasExpired now \<lparr> expiration = e, func = Job f \<rparr> then Dropped now \<lparr> expiration = e, func = Job f \<rparr>
           else Ran now \<lparr> expiration = e, func = Job f \<rparr>)"
    "taskList d' = ts" "d_threadState d' = d_threadState d"
  using assms by (cases "hasExpired now \<lparr> expiration = e, func = Job f \<rparr>")
    (simp_all add: threadMain_iteration_def dispatcher_take_def Let_def)

lemma iterations_drain:
  "taskList d = map as_job ts @ [createTask TerminateThread] \<Longrightarrow>
   d_threadState d \<noteq> THREAD_STATE_TERMINATED \<Longrightarrow> length nows = length ts \<Longrightarrow>
   \<exists>d'. run_dispatcher (map Iteration nows @ [Iteration now]) d =
     (d', map2 (\<lambda>n t. if hasExpired n (as_job t) then Dropped n (as_job t) else Ran n (as_job t)) nows ts @
          [Ran now (createTask TerminateThread)]) \<and>
     d_threadState d' = THREAD_STATE_TERMINATED \<and> taskList d' = []"
proof (induction ts arbitrary: d nows)
  case Nil
  then show ?case
    by (auto simp: threadMain_iteration_def dispatcher_take_def hasExpired_def createTask_def Let_def)
next
  case (Cons t ts)
  obtain n ns where nows: "nows = n # ns" and len: "length ns = length ts"
    using Cons.prems(3) by (cases nows) auto
  have "taskList d = \<lparr> expiration = expiration t, func = Job (func t) \<rparr> #
      (map as_job ts @ [createTask TerminateThread])"
    using Cons.prems(1) by (simp add: as_job_def)
  from iteration_job [OF Cons.prems(2) this, of n] obtain d1 where
    it: "threadMain_iteration n d =
      (d1, if hasExpired n (as_job t) then Dropped n (as_job t) else Ran n (as_job t))"
    and d1: "taskList d1 = map as_job ts @ [createTask TerminateThread]"
      "d_threadState d1 = d_threadState d"
    unfolding as_job_def by blast
  from Cons.IH [OF d1(1) _ len] d1(2) Cons.prems(2) show ?case
    by (auto simp: nows it)
qed

text \<open>
  C17: Shutting the dispatcher down loses nothing that is still due: whatever is queued when
  \<open>shutdown\<close> is called is taken in order, one task per iteration of the thread, run unless it has
  expired, and then the thread ends; after \<open>stop\<close> no further task gets in, so this is what happens
  from then on. The thread is never left asleep with the shutdown task queued.
\<close>

theorem dispatcher_shutdown_drains:
  assumes "taskList d = map as_job ts" and "d_threadState d \<noteq> THREAD_STATE_TERMINATED"
    and "length nows = length ts" and "awake_or_idle d"
  shows "awake_or_idle (dispatcher_shutdown d) \<and>
    (d_waiting (dispatcher_shutdown d) \<longrightarrow> d_signalled (dispatcher_shutdown d)) \<and>
    (\<exists>d'. run_dispatcher (map Iteration nows @ [Iteration now]) (dispatcher_shutdown d) =
       (d', map2 (\<lambda>n t. if hasExpired n (as_job t) then Dropped n (as_job t) else Ran n (as_job t)) nows ts @
            [Ran now (createTask TerminateThread)]) \<and>
       d_threadState d' = THREAD_STATE_TERMINATED \<and> taskList d' = []) \<and>
    (\<forall>t push_front. addTask (dispatcher_stop d) t push_front = dispatcher_stop d)"
proof -
  have "taskList (dispatcher_shutdown d) = map as_job ts @ [createTask TerminateThread]"
    and "d_threadState (dispatcher_shutdown d) \<noteq> THREAD_STATE_TERMINATED"
    using assms by (simp_all add: dispatcher_shutdown_def)
  from iterations_drain [OF this assms(3), of now] show ?thesis
    using awake_or_idle_handle [OF assms(4), of ShutdownDispatcher]
    by (auto simp: addTask_def dispatcher_stop_def dispatcher_shutdown_def dispatcher_notify_def)
qed

theorem dispatcher_shutdown_drains_witness:
  "\<exists>d'. run_dispatcher [Iteration 5, Iteration 9]
     (dispatcher_shutdown (addTask (dispatcher_start new_dispatcher) (as_job (createTask (7 :: nat))) False)) =
     (d', [Ran 5 (as_job (createTask 7)), Ran 9 (createTask TerminateThread)]) \<and>
     d_threadState d' = THREAD_STATE_TERMINATED"
  using dispatcher_shutdown_drains
    [of "addTask (dispatcher_start new_dispatcher) (as_job (createTask (7 :: nat))) False"
      "[createTask 7]" "[5]" 9]
  by (simp add: awake_or_idle_def dispatcher_eval)

end
