(* ===== verification/DatabaseTasks.thy ===== *)
theory DatabaseTasks
  imports Tasks
begin

text \<open>
  The database thread (\<open>databasetasks.h\<close>, \<open>databasetasks.cpp\<close>): queries queued by the game, run in
  the background, their results handed back to the dispatcher.

  The connection is a state \<open>'db\<close> and the two operations of \<open>Database\<close> on it are parameters, since
  they are the MySQL client's. The thread takes a task under the lock and runs it after releasing
  the lock: these are two steps, \<open>DbIteration\<close> and \<open>DbRun\<close>, and \<open>db_current\<close> is the task between
  them. \<open>shutdown\<close>, called by another thread, holds the lock throughout and is one step.
\<close>

record 'c database_task =
  db_query :: bstring
  db_callback :: "'c option"
  db_store :: bool

record ('c, 'db) database_tasks =
  db_threadState :: ThreadState
  db_tasks :: "'c database_task list"
  db_current :: "'c database_task option"
  db_conn :: 'db
  db_waiting :: bool
  db_signalled :: bool

text \<open>The operations of \<open>Database\<close>: \<open>storeQuery\<close> gives a result or null, \<open>executeQuery\<close> success.\<close>

record ('db, 'r) database =
  storeQuery :: "'db \<Rightarrow> bstring \<Rightarrow> 'r option \<times> 'db"
  executeQuery :: "'db \<Rightarrow> bstring \<Rightarrow> bool \<times> 'db"

definition database_tasks_start :: "'db \<Rightarrow> ('c, 'db) database_tasks" where
  "database_tasks_start conn = \<lparr> db_threadState = THREAD_STATE_RUNNING, db_tasks = [],
     db_current = None, db_conn = conn, db_waiting = False, db_signalled = False \<rparr>"

definition db_notify :: "('c, 'db) database_tasks \<Rightarrow> ('c, 'db) database_tasks" where
  "db_notify s = (if db_waiting s then s\<lparr> db_signalled := True \<rparr> else s)"

definition db_addTask :: "('c, 'db) database_tasks \<Rightarrow> 'c database_task \<Rightarrow> ('c, 'db) database_tasks" where
  "db_addTask s task =
     (if db_threadState s = THREAD_STATE_RUNNING then
        (let signal = (db_tasks s = []); s' = s\<lparr> db_tasks := db_tasks s @ [task] \<rparr>
         in if signal then db_notify s' else s')
      else s)"

definition db_stop :: "('c, 'db) database_tasks \<Rightarrow> ('c, 'db) database_tasks" where
  "db_stop s = s\<lparr> db_threadState := THREAD_STATE_CLOSING \<rparr>"

text \<open>
  \<open>runTask\<close>: the connection afterwards and the task given to the dispatcher, the callback with the
  result and the success flag it is bound to.
\<close>

type_synonym ('c, 'r) bound_callback = "'c \<times> 'r option \<times> bool"

definition runTask ::
  "('db, 'r) database \<Rightarrow> 'db \<Rightarrow> 'c database_task \<Rightarrow> 'db \<times> ('c, 'r) bound_callback task list" where
  "runTask db conn task =
     (let (result, success, conn') =
            (if db_store task then
               (case storeQuery db conn (db_query task) of (result, conn') \<Rightarrow> (result, True, conn'))
             else
               (case executeQuery db conn (db_query task) of (success, conn') \<Rightarrow> (None, success, conn')))
      in (conn', case db_callback task of
                   None \<Rightarrow> []
                 | Some callback \<Rightarrow> [createTask (callback, result, success)]))"

fun db_flush ::
  "('db, 'r) database \<Rightarrow> 'db \<Rightarrow> 'c database_task list \<Rightarrow> 'db \<times> ('c, 'r) bound_callback task list" where
  "db_flush db conn [] = (conn, [])"
| "db_flush db conn (task # rest) =
     (let (conn1, out1) = runTask db conn task; (conn2, out2) = db_flush db conn1 rest
      in (conn2, out1 @ out2))"

text \<open>An outcome is the tasks run and the tasks given to the dispatcher.\<close>

type_synonym ('c, 'r) db_outcome = "'c database_task list \<times> ('c, 'r) bound_callback task list"

definition db_shutdown ::
  "('db, 'r) database \<Rightarrow> ('c, 'db) database_tasks \<Rightarrow> ('c, 'db) database_tasks \<times> ('c, 'r) db_outcome"
where
  "db_shutdown db s =
     (let s1 = s\<lparr> db_threadState := THREAD_STATE_TERMINATED \<rparr>;
          (conn, out) = db_flush db (db_conn s1) (db_tasks s1)
      in (db_notify (s1\<lparr> db_tasks := [], db_conn := conn \<rparr>), (db_tasks s1, out)))"

definition db_threadMain_take :: "('c, 'db) database_tasks \<Rightarrow> ('c, 'db) database_tasks" where
  "db_threadMain_take s =
     (if db_current s \<noteq> None then s
      else if \<not> db_waiting s \<and> db_threadState s = THREAD_STATE_TERMINATED then s
      else if \<not> db_waiting s \<and> db_tasks s = [] then s\<lparr> db_waiting := True, db_signalled := False \<rparr>
      else (case db_tasks s of
              [] \<Rightarrow> s\<lparr> db_waiting := False, db_signalled := False \<rparr>
            | task # rest \<Rightarrow>
                s\<lparr> db_tasks := rest, db_current := Some task, db_waiting := False, db_signalled := False \<rparr>))"

definition db_threadMain_run ::
  "('db, 'r) database \<Rightarrow> ('c, 'db) database_tasks \<Rightarrow> ('c, 'db) database_tasks \<times> ('c, 'r) db_outcome"
where
  "db_threadMain_run db s =
     (case db_current s of
        None \<Rightarrow> (s, ([], []))
      | Some task \<Rightarrow>
          let (conn, out) = runTask db (db_conn s) task
          in (s\<lparr> db_current := None, db_conn := conn \<rparr>, ([task], out)))"

section \<open>Runs\<close>

datatype 'c db_event = DbAddTask "'c database_task" | DbStop | DbShutdown | DbIteration | DbRun

fun db_handle ::
  "('db, 'r) database \<Rightarrow> 'c db_event \<Rightarrow> ('c, 'db) database_tasks \<Rightarrow>
     ('c, 'db) database_tasks \<times> ('c, 'r) db_outcome" where
  "db_handle db (DbAddTask task) s = (db_addTask s task, ([], []))"
| "db_handle db DbStop s = (db_stop s, ([], []))"
| "db_handle db DbShutdown s = db_shutdown db s"
| "db_handle db DbIteration s = (db_threadMain_take s, ([], []))"
| "db_handle db DbRun s = db_threadMain_run db s"

fun db_put :: "'c db_event \<Rightarrow> ('c, 'db) database_tasks \<Rightarrow> 'c database_task list" where
  "db_put (DbAddTask task) s = (if db_threadState s = THREAD_STATE_RUNNING then [task] else [])"
| "db_put _ s = []"

definition db_pending :: "('c, 'db) database_tasks \<Rightarrow> 'c database_task list" where
  "db_pending s = (case db_current s of None \<Rightarrow> [] | Some task \<Rightarrow> [task]) @ db_tasks s"

definition no_shutdown :: "'c db_event \<Rightarrow> bool" where
  "no_shutdown e \<longleftrightarrow> (case e of DbShutdown \<Rightarrow> False | _ \<Rightarrow> True)"

lemmas db_defs = db_addTask_def db_stop_def db_shutdown_def db_threadMain_take_def
  db_threadMain_run_def db_notify_def db_pending_def

interpretation database: work_queue "db_handle db" db_put fst db_pending no_shutdown
proof
  fix e :: "'c db_event" and s s' r
  assume h: "db_handle db e s = (s', r)"
  show "mset (fst r) + mset (db_pending s') = mset (db_pending s) + mset (db_put e s)"
    using h
    by (cases e) (auto simp: db_defs Let_def split: if_splits list.splits option.splits prod.splits)
  assume "no_shutdown e"
  with h show "fst r @ db_pending s' = db_pending s @ db_put e s"
    by (cases e)
       (auto simp: db_defs no_shutdown_def Let_def split: if_splits list.splits option.splits prod.splits)
qed

text \<open>The dispatcher gets one task for each callback of the tasks run, in the order they ran.\<close>

definition callbacks :: "'c database_task list \<Rightarrow> 'c list" where
  "callbacks ts = List.map_filter db_callback ts"

lemma callbacks_simps [simp]:
  "callbacks [] = []"
  "callbacks (t # ts) = (case db_callback t of None \<Rightarrow> [] | Some c \<Rightarrow> [c]) @ callbacks ts"
  by (simp_all add: callbacks_def map_filter_simps split: option.split)

lemma runTask_callbacks: "map (fst \<circ> func) (snd (runTask db conn t)) = callbacks [t]"
  by (auto simp: runTask_def createTask_def Let_def split: option.splits prod.splits)

lemma db_flush_callbacks: "map (fst \<circ> func) (snd (db_flush db conn ts)) = callbacks ts"
proof (induction ts arbitrary: conn)
  case Nil
  then show ?case by simp
next
  case (Cons t ts)
  have "snd (db_flush db conn (t # ts)) =
      snd (runTask db conn t) @ snd (db_flush db (fst (runTask db conn t)) ts)"
    by (simp split: prod.split)
  then show ?case
    using runTask_callbacks [of db conn t] by (simp only: map_append Cons.IH) simp
qed

definition calls_back :: "('c, 'r) db_outcome \<Rightarrow> bool" where
  "calls_back r \<longleftrightarrow> map (fst \<circ> func) (snd r) = callbacks (fst r)"

lemma handle_calls_back: "db_handle db e s = (s', r) \<Longrightarrow> calls_back r"
proof (cases e)
  case DbShutdown
  assume "db_handle db e s = (s', r)"
  with DbShutdown have "fst r = db_tasks s" and "snd r = snd (db_flush db (db_conn s) (db_tasks s))"
    by (auto simp: db_shutdown_def Let_def split: prod.splits)
  then show ?thesis by (simp add: calls_back_def db_flush_callbacks)
next
  case DbRun
  assume h: "db_handle db e s = (s', r)"
  show ?thesis
  proof (cases "db_current s")
    case None
    with h DbRun show ?thesis by (auto simp: db_threadMain_run_def calls_back_def)
  next
    case (Some t)
    with h DbRun have "fst r = [t]" and "snd r = snd (runTask db (db_conn s) t)"
      by (auto simp: db_threadMain_run_def Let_def split: prod.splits)
    then show ?thesis by (simp only: calls_back_def runTask_callbacks)
  qed
qed (auto simp: calls_back_def)

text \<open>After \<open>shutdown\<close> only the task the thread is in the middle of is left.\<close>

lemma db_shutdown_empties: "db_shutdown db s = (s', r) \<Longrightarrow> db_tasks s' = []"
  by (auto simp: db_shutdown_def db_notify_def Let_def split: prod.splits)

text \<open>
  No query is lost or run twice: in every run of the database thread, the tasks run, the one the
  thread holds and those queued are exactly the tasks accepted; each callback of a task run is given
  to the dispatcher once; the tasks run in the order in which they were accepted as long as the
  server is not shut down; and \<open>shutdown\<close> leaves nothing queued.
\<close>

lemma database_tasks_run_once:
  assumes "run_events (db_handle db) es (database_tasks_start conn) = (s, rs)"
  shows "mset (concat (map fst rs)) + mset (db_pending s) =
      mset (added (db_handle db) db_put es (database_tasks_start conn)) \<and>
    list_all calls_back rs \<and>
    (list_all no_shutdown es \<longrightarrow>
       concat (map fst rs) @ db_pending s = added (db_handle db) db_put es (database_tasks_start conn)) \<and>
    db_tasks (fst (db_shutdown db s)) = []"
proof -
  have empty: "db_pending (database_tasks_start conn) = []"
    by (simp add: database_tasks_start_def db_pending_def)
  have "list_all calls_back rs"
    using run_events_invariant [OF assms, of "\<lambda>_. True" calls_back] handle_calls_back by blast
  moreover have "db_tasks (fst (db_shutdown db s)) = []"
    by (rule db_shutdown_empties) (rule prod.collapse [symmetric])
  ultimately show ?thesis
    using database.run_mset [OF assms] database.run_back [OF assms] by (simp add: empty)
qed

definition some_database :: "(nat, nat) database" where
  "some_database = \<lparr> storeQuery = (\<lambda>n q. (Some n, n)), executeQuery = (\<lambda>n q. (True, Suc n)) \<rparr>"

definition save_task :: "nat database_task" where
  "save_task = \<lparr> db_query = [85], db_callback = None, db_store = False \<rparr>"

definition load_task :: "nat database_task" where
  "load_task = \<lparr> db_query = [83], db_callback = Some 9, db_store = True \<rparr>"

lemmas db_eval = database_tasks_start_def some_database_def save_task_def load_task_def
  db_defs runTask_def createTask_def

text \<open>
  With a task taken and not yet run, \<open>shutdown\<close> runs the queries behind it first: the order of the
  queries is not kept then.
\<close>

theorem database_shutdown_reorders:
  "concat (map fst (snd (run_events (db_handle some_database)
     [DbAddTask save_task, DbAddTask load_task, DbIteration, DbShutdown, DbRun]
     (database_tasks_start 0)))) = [load_task, save_task]"
  by (simp add: db_eval)

end
