(* ===== verification/Scheduler.thy ===== *)
theory Scheduler
  imports Tasks
begin

text \<open>
  The scheduler, the thread that gives delayed tasks to the dispatcher (\<open>scheduler.h\<close>,
  \<open>scheduler.cpp\<close>).

  \<open>eventList\<close> is a priority queue whose top is some task with the least cycle: which one of several
  is not specified, so the steps are a relation. The thread holds \<open>eventLock\<close> except while it waits:
  an iteration of \<open>threadMain\<close> is two steps, going to wait, with the deadline it waits for, and
  coming back, by a signal (or spuriously) or because the deadline passed. \<open>None\<close> as the result of a
  step is undefined behaviour of the source.
\<close>

section \<open>Data\<close>

record 'f scheduler_task = "'f task" +
  eventId :: u32

definition getCycle :: "'f scheduler_task \<Rightarrow> int" where
  "getCycle t = expiration t"

definition createSchedulerTask :: "int \<Rightarrow> u32 \<Rightarrow> 'f \<Rightarrow> 'f scheduler_task" where
  "createSchedulerTask now delay f = \<lparr> expiration = now + uint delay, func = f, eventId = 0 \<rparr>"

datatype wait = NotWaiting | WaitingForEvent | WaitingUntil int

record 'f scheduler =
  s_threadState :: ThreadState
  lastEventId :: u32
  eventList :: "'f scheduler_task list"
  eventIds :: "u32 set"
  s_waiting :: wait
  s_signalled :: bool

definition scheduler_start :: "'f scheduler" where
  "scheduler_start = \<lparr> s_threadState = THREAD_STATE_RUNNING, lastEventId = 0, eventList = [],
     eventIds = {}, s_waiting = NotWaiting, s_signalled = False \<rparr>"

definition is_top :: "'f scheduler_task \<Rightarrow> 'f scheduler_task list \<Rightarrow> bool" where
  "is_top t ts \<longleftrightarrow> t \<in> set ts \<and> list_all (\<lambda>u. getCycle t \<le> getCycle u) ts"

section \<open>Operations\<close>

definition s_notify :: "'f scheduler \<Rightarrow> 'f scheduler" where
  "s_notify s = (if s_waiting s \<noteq> NotWaiting then s\<lparr> s_signalled := True \<rparr> else s)"

text \<open>
  \<open>addEvent\<close>, given whether the new task is the one that the queue has at its top, which it can only
  be if it is \<open>is_top\<close>.
\<close>

definition nextEventId :: "u32 \<Rightarrow> u32" where
  "nextEventId lastId = (if lastId + 1 = 0 then 1 else lastId + 1)"

definition addEvent :: "bool \<Rightarrow> 'f scheduler_task \<Rightarrow> 'f scheduler \<Rightarrow> 'f scheduler \<times> u32" where
  "addEvent on_top task s =
     (if s_threadState s = THREAD_STATE_RUNNING then
        (let (task', s') =
               (if eventId task = 0 then
                  (task\<lparr> eventId := nextEventId (lastEventId s) \<rparr>,
                   s\<lparr> lastEventId := nextEventId (lastEventId s) \<rparr>)
                else (task, s));
             s'' = s'\<lparr> eventList := eventList s' @ [task'],
                       eventIds := insert (eventId task') (eventIds s') \<rparr>;
             do_signal = on_top
         in (if do_signal then s_notify s'' else s'', eventId task'))
      else (s, 0))"

definition stopEvent :: "u32 \<Rightarrow> 'f scheduler \<Rightarrow> 'f scheduler \<times> bool" where
  "stopEvent eventid s =
     (if eventid = 0 then (s, False)
      else if eventid \<notin> eventIds s then (s, False)
      else (s\<lparr> eventIds := eventIds s - {eventid} \<rparr>, True))"

definition scheduler_shutdown :: "'f scheduler \<Rightarrow> 'f scheduler" where
  "scheduler_shutdown s =
     s_notify (s\<lparr> s_threadState := THREAD_STATE_TERMINATED, eventList := [], eventIds := {} \<rparr>)"

text \<open>The first half of an iteration of \<open>threadMain\<close>: the thread blocks.\<close>

definition threadMain_wait :: "'f scheduler \<Rightarrow> 'f scheduler \<Rightarrow> bool" where
  "threadMain_wait s s' \<longleftrightarrow>
     s_threadState s \<noteq> THREAD_STATE_TERMINATED \<and> s_waiting s = NotWaiting \<and>
     (if eventList s = [] then s' = s\<lparr> s_waiting := WaitingForEvent, s_signalled := False \<rparr>
      else (\<exists>t\<in>set (eventList s). is_top t (eventList s) \<and>
              s' = s\<lparr> s_waiting := WaitingUntil (getCycle t), s_signalled := False \<rparr>))"

text \<open>
  The second half after a timeout, given the task at the top: it is popped and, unless its event was
  stopped, goes to the dispatcher as a task that does not expire.
\<close>

definition fire :: "'f scheduler_task \<Rightarrow> 'f scheduler \<Rightarrow> 'f scheduler \<times> 'f scheduler_task list" where
  "fire task s =
     (let s1 = s\<lparr> eventList := remove1 task (eventList s), s_waiting := NotWaiting, s_signalled := False \<rparr>
      in if eventId task \<notin> eventIds s1 then (s1, [])
         else (s1\<lparr> eventIds := eventIds s1 - {eventId task} \<rparr>, [setDontExpire task]))"

section \<open>Steps\<close>

datatype 'f label =
    Added "'f scheduler_task" u32 | Stopped u32 bool | Closed | Shut | Slept | Woken
  | Popped int "'f scheduler_task" "'f scheduler_task list"

inductive step :: "'f scheduler \<Rightarrow> 'f label \<Rightarrow> 'f scheduler option \<Rightarrow> bool" where
  add: "addEvent on_top task s = (s', i) \<Longrightarrow>
      (on_top \<longrightarrow> list_all (\<lambda>u. getCycle task \<le> getCycle u) (eventList s)) \<Longrightarrow>
      (\<not> on_top \<longrightarrow> \<not> list_all (\<lambda>u. getCycle task < getCycle u) (eventList s)) \<Longrightarrow>
      step s (Added task i) (Some s')"
| stop: "stopEvent i s = (s', r) \<Longrightarrow> step s (Stopped i r) (Some s')"
| close: "step s Closed (Some (s\<lparr> s_threadState := THREAD_STATE_CLOSING \<rparr>))"
| shutdown: "step s Shut (Some (scheduler_shutdown s))"
| sleep: "threadMain_wait s s' \<Longrightarrow> step s Slept (Some s')"
| wake: "s_waiting s \<noteq> NotWaiting \<Longrightarrow>
      step s Woken (Some (s\<lparr> s_waiting := NotWaiting, s_signalled := False \<rparr>))"
| pop: "s_waiting s = WaitingUntil deadline \<Longrightarrow> deadline \<le> now \<Longrightarrow> is_top task (eventList s) \<Longrightarrow>
      fire task s = (s', out) \<Longrightarrow> step s (Popped now task out) (Some s')"
| pop_empty: "s_waiting s = WaitingUntil deadline \<Longrightarrow> deadline \<le> now \<Longrightarrow> eventList s = [] \<Longrightarrow>
      step s Woken None"

inductive_cases stepE: "step s l (Some s')"
inductive_cases addE: "step s (Added task i) (Some s')"
inductive_cases stopE: "step s (Stopped i r) (Some s')"
inductive_cases popE: "step s (Popped now task out) (Some s')"
inductive_cases step_crashE: "step s l None"

inductive run :: "'f scheduler \<Rightarrow> 'f label list \<Rightarrow> 'f scheduler \<Rightarrow> bool" where
  start: "run s [] s"
| more: "run s ls s1 \<Longrightarrow> step s1 l (Some s2) \<Longrightarrow> run s (ls @ [l]) s2"

text \<open>What a trace says: the ids given out, the ids stopped and the tasks given to the dispatcher.\<close>

fun added_of :: "'f label \<Rightarrow> u32 list" where
  "added_of (Added task i) = (if i = 0 then [] else [i])"
| "added_of _ = []"

fun stopped_of :: "'f label \<Rightarrow> u32 list" where
  "stopped_of (Stopped i r) = (if r then [i] else [])"
| "stopped_of _ = []"

fun fired_of :: "'f label \<Rightarrow> 'f scheduler_task list" where
  "fired_of (Popped now task out) = out"
| "fired_of _ = []"

abbreviation added_ids :: "'f label list \<Rightarrow> u32 list" where
  "added_ids ls \<equiv> concat (map added_of ls)"

abbreviation stopped_ids :: "'f label list \<Rightarrow> u32 list" where
  "stopped_ids ls \<equiv> concat (map stopped_of ls)"

abbreviation fired_tasks :: "'f label list \<Rightarrow> 'f scheduler_task list" where
  "fired_tasks ls \<equiv> concat (map fired_of ls)"

text \<open>The tasks added are new ones, as \<open>createSchedulerTask\<close> makes them, and no shutdown occurs.\<close>

fun usual :: "'f label \<Rightarrow> bool" where
  "usual (Added task i) \<longleftrightarrow> eventId task = 0"
| "usual Shut \<longleftrightarrow> False"
| "usual _ \<longleftrightarrow> True"

text \<open>A task pops no earlier than its cycle, and only it goes to the dispatcher.\<close>

fun on_time :: "'f label \<Rightarrow> bool" where
  "on_time (Popped now task out) \<longleftrightarrow> getCycle task \<le> now \<and> (out = [] \<or> out = [setDontExpire task])"
| "on_time _ \<longleftrightarrow> True"

section \<open>Wake-ups and deadlines\<close>

definition wakes_in_time :: "'f scheduler \<Rightarrow> bool" where
  "wakes_in_time s \<longleftrightarrow> \<not> s_signalled s \<longrightarrow>
     (case s_waiting s of
        NotWaiting \<Rightarrow> True
      | WaitingForEvent \<Rightarrow> eventList s = []
      | WaitingUntil deadline \<Rightarrow> list_all (\<lambda>t. deadline \<le> getCycle t) (eventList s))"

definition deadline_covered :: "'f scheduler \<Rightarrow> bool" where
  "deadline_covered s \<longleftrightarrow>
     (\<forall>deadline. s_waiting s = WaitingUntil deadline \<longrightarrow>
        (eventList s = [] \<and> s_threadState s \<noteq> THREAD_STATE_RUNNING) \<or>
        (\<exists>t\<in>set (eventList s). getCycle t \<le> deadline))"

definition never_empty :: "'f scheduler \<Rightarrow> bool" where
  "never_empty s \<longleftrightarrow> (\<forall>deadline. s_waiting s = WaitingUntil deadline \<longrightarrow> eventList s \<noteq> [])"

lemma getCycle_eventId [simp]: "getCycle (t\<lparr> eventId := i \<rparr>) = getCycle t"
  by (simp add: getCycle_def)

lemma is_top_le: "is_top t ts \<Longrightarrow> u \<in> set ts \<Longrightarrow> getCycle t \<le> getCycle u"
  by (auto simp: is_top_def list_all_iff)

lemmas s_defs = addEvent_def stopEvent_def scheduler_shutdown_def threadMain_wait_def fire_def
  s_notify_def Let_def

lemma wakes_in_time_step:
  assumes "step s l (Some s')" and "wakes_in_time s"
  shows "wakes_in_time s'"
  using assms
  by (cases rule: stepE)
     (fastforce simp: s_defs wakes_in_time_def list_all_iff is_top_def
       split: if_splits wait.splits)+

lemma wakes_in_time_run: "run s ls s' \<Longrightarrow> wakes_in_time s \<Longrightarrow> wakes_in_time s'"
  by (induction rule: run.induct) (auto intro: wakes_in_time_step)

lemma deadline_covered_step:
  assumes "step s l (Some s')" and "deadline_covered s"
  shows "deadline_covered s'"
  using assms
  by (cases rule: stepE)
     (auto simp: s_defs deadline_covered_def split: if_splits)

lemma deadline_covered_run: "run s ls s' \<Longrightarrow> deadline_covered s \<Longrightarrow> deadline_covered s'"
  by (induction rule: run.induct) (auto intro: deadline_covered_step)

lemma never_empty_step:
  assumes "step s l (Some s')" and "never_empty s" and "usual l"
  shows "never_empty s'"
  using assms
  by (cases rule: stepE)
     (auto simp: s_defs never_empty_def split: if_splits)

lemma never_empty_run: "run s ls s' \<Longrightarrow> list_all usual ls \<Longrightarrow> never_empty s \<Longrightarrow> never_empty s'"
  by (induction rule: run.induct) (auto intro: never_empty_step)

lemma on_time_step:
  assumes "step s l (Some s')" and "deadline_covered s"
  shows "on_time l"
proof (cases l)
  case (Popped now task out)
  with assms(1) obtain deadline where d: "s_waiting s = WaitingUntil deadline" "deadline \<le> now"
    and top: "is_top task (eventList s)" and f: "fire task s = (s', out)"
    by (auto elim: popE)
  from top have "eventList s \<noteq> []" by (auto simp: is_top_def)
  with assms(2) d(1) obtain u where "u \<in> set (eventList s)" "getCycle u \<le> deadline"
    by (auto simp: deadline_covered_def)
  with d(2) is_top_le [OF top] have "getCycle task \<le> now" by fastforce
  with Popped f show ?thesis
    by (auto simp: fire_def Let_def split: if_splits)
qed simp_all

lemma on_time_run: "run s ls s' \<Longrightarrow> deadline_covered s \<Longrightarrow> list_all on_time ls"
  by (induction rule: run.induct) (auto intro: on_time_step deadline_covered_run)

section \<open>Accounting of event ids\<close>

definition ids_of :: "'f scheduler \<Rightarrow> u32 set" where
  "ids_of s = eventId ` set (eventList s)"

text \<open>
  Every id given out is below the counter and is of exactly one kind: its task is still to come, its
  event was stopped, or its task went to the dispatcher; and the task was added under that id.
\<close>

definition account :: "u32 list \<Rightarrow> u32 list \<Rightarrow> u32 list \<Rightarrow> 'f scheduler \<Rightarrow> bool" where
  "account A S F s \<longleftrightarrow>
     length A = unat (lastEventId s) \<and> distinct A \<and> (\<forall>i\<in>set A. i \<le> lastEventId s) \<and>
     eventIds s \<subseteq> ids_of s \<and> distinct (map eventId (eventList s)) \<and> ids_of s \<subseteq> set A \<and>
     distinct (S @ F) \<and> (set S \<union> set F) \<inter> eventIds s = {} \<and> set S \<union> set F \<union> eventIds s = set A"

abbreviation accounted :: "'f label list \<Rightarrow> 'f scheduler \<Rightarrow> bool" where
  "accounted ls s \<equiv> account (added_ids ls) (stopped_ids ls) (map eventId (fired_tasks ls)) s"

lemma nextEventId_no_wrap:
  assumes "unat l + 1 < 2 ^ 32"
  shows "unat (nextEventId l) = unat l + 1" and "nextEventId l \<noteq> 0" and "l < nextEventId l"
proof -
  have n: "unat (l + 1) = unat l + 1"
    using assms by (simp add: unat_word_ariths)
  then have "l + 1 \<noteq> 0" by (metis add_eq_0_iff_both_eq_0 one_neq_zero unat_0)
  then have e: "nextEventId l = l + 1" by (simp add: nextEventId_def)
  then show "unat (nextEventId l) = unat l + 1" "nextEventId l \<noteq> 0"
    using n \<open>l + 1 \<noteq> 0\<close> by simp_all
  show "l < nextEventId l" using n by (simp add: e word_less_nat_alt)
qed

lemma account_add:
  assumes acc: "account A S F s" and add: "addEvent on_top task s = (s', i)"
    and new: "eventId task = 0" and room: "length (A @ added_of (Added task i)) < 2 ^ 32"
  shows "account (A @ added_of (Added task i)) S F s'"
proof (cases "s_threadState s = THREAD_STATE_RUNNING")
  case False
  with add have "i = 0" "s' = s" by (simp_all add: addEvent_def)
  with acc show ?thesis by simp
next
  case True
  let ?i = "nextEventId (lastEventId s)"
  from add True new have i: "i = ?i" and s': "lastEventId s' = ?i"
    "eventList s' = eventList s @ [task\<lparr> eventId := ?i \<rparr>]" "eventIds s' = insert ?i (eventIds s)"
    by (auto simp: addEvent_def s_notify_def Let_def split: if_splits)
  have len: "length A = unat (lastEventId s)" using acc by (simp add: account_def)
  have "unat (lastEventId s) + 1 < 2 ^ 32"
  proof (rule ccontr)
    assume "\<not> unat (lastEventId s) + 1 < 2 ^ 32"
    moreover have "unat (lastEventId s) < 2 ^ 32" using unsigned_less [of "lastEventId s"] by simp
    ultimately have "unat (lastEventId s) + 1 = 2 ^ 32" by simp
    then have "unat (lastEventId s + 1) = 0" by (simp add: unat_word_ariths)
    then have "lastEventId s + 1 = 0" by (simp add: unat_eq_zero)
    then have "?i = 1" by (simp add: nextEventId_def)
    with i len room \<open>unat (lastEventId s) + 1 = 2 ^ 32\<close> show False by simp
  qed
  note no_wrap = nextEventId_no_wrap [OF this]
  have below: "\<forall>j\<in>set A. j \<le> lastEventId s" using acc unfolding account_def by blast
  have fresh: "?i \<notin> set A"
    using below no_wrap(3) by (meson leD)
  have le: "\<forall>j\<in>set A. j \<le> ?i"
    using below no_wrap(3) by (meson order_trans less_imp_le)
  have "set S \<union> set F \<union> eventIds s = set A" using acc unfolding account_def by blast
  with fresh have fresh': "?i \<notin> set S" "?i \<notin> set F" "?i \<notin> eventIds s" by auto
  from acc fresh fresh' le show ?thesis
    unfolding account_def i
    by (auto simp: s' no_wrap ids_of_def)
qed

lemma account_stop:
  "account A S F s \<Longrightarrow> stopEvent i s = (s', r) \<Longrightarrow> account A (S @ stopped_of (Stopped i r)) F s'"
  by (auto simp: stopEvent_def account_def ids_of_def split: if_splits)

lemma account_fire:
  assumes acc: "account A S F s" and top: "is_top task (eventList s)" and f: "fire task s = (s', out)"
  shows "account A S (F @ map eventId out) s'"
proof -
  have mem: "task \<in> set (eventList s)" using top by (simp add: is_top_def)
  have dist: "distinct (map eventId (eventList s))" using acc by (simp add: account_def)
  then have "distinct (eventList s)" by (simp add: distinct_map)
  have ids: "eventId ` set (remove1 task (eventList s)) = ids_of s - {eventId task}"
    using dist mem \<open>distinct (eventList s)\<close>
    by (auto simp: ids_of_def distinct_map set_remove1_eq inj_on_def)
  have dist': "distinct (map eventId (remove1 task (eventList s)))"
    using dist by (metis distinct_map distinct_remove1 inj_on_subset set_remove1_subset)
  show ?thesis
  proof (cases "eventId task \<in> eventIds s")
    case False
    with f have "out = []" and s': "eventList s' = remove1 task (eventList s)" "eventIds s' = eventIds s"
      "lastEventId s' = lastEventId s"
      by (auto simp: fire_def Let_def)
    with acc ids dist' False show ?thesis by (auto simp: account_def ids_of_def)
  next
    case True
    with f have "map eventId out = [eventId task]" and s': "eventList s' = remove1 task (eventList s)"
      "eventIds s' = eventIds s - {eventId task}" "lastEventId s' = lastEventId s"
      by (auto simp: fire_def setDontExpire_def Let_def)
    with acc ids dist' True show ?thesis by (auto simp: account_def ids_of_def)
  qed
qed

lemma account_iff:
  "lastEventId s' = lastEventId s \<Longrightarrow> eventList s' = eventList s \<Longrightarrow> eventIds s' = eventIds s \<Longrightarrow>
     account A S F s' = account A S F s"
  by (simp only: account_def ids_of_def)

lemma account_cong:
  "account A S F s \<Longrightarrow> lastEventId s' = lastEventId s \<Longrightarrow> eventList s' = eventList s \<Longrightarrow>
     eventIds s' = eventIds s \<Longrightarrow> account A S F s'"
  using account_iff by blast

lemma accounted_step:
  assumes "step s l (Some s')" and "accounted ls s" and "usual l"
    and "length (added_ids (ls @ [l])) < 2 ^ 32"
  shows "accounted (ls @ [l]) s'"
proof (cases l)
  case (Added task i)
  with assms(1) obtain on_top where "addEvent on_top task s = (s', i)" by (auto elim: addE)
  from account_add [OF assms(2) this] Added assms(3,4) show ?thesis by simp
next
  case (Stopped i r)
  with assms(1) have "stopEvent i s = (s', r)" by (auto elim: stopE)
  from account_stop [OF assms(2) this] Stopped show ?thesis by simp
next
  case (Popped now task out)
  with assms(1) have "is_top task (eventList s)" and "fire task s = (s', out)" by (auto elim: popE)
  from account_fire [OF assms(2) this] Popped show ?thesis by simp
qed (use assms in \<open>auto simp: threadMain_wait_def split: if_splits elim!: stepE account_cong\<close>)

lemma accounted_run:
  "run s ls s' \<Longrightarrow> s = scheduler_start \<Longrightarrow> list_all usual ls \<Longrightarrow> length (added_ids ls) < 2 ^ 32 \<Longrightarrow>
     accounted ls s'"
proof (induction rule: run.induct)
  case (start s)
  then show ?case by (simp add: scheduler_start_def account_def ids_of_def)
next
  case (more s ls s1 l s2)
  then have "accounted ls s1" by simp
  from accounted_step [OF more.hyps(2) this] more.prems show ?case by simp
qed

lemma scheduler_start_good: "deadline_covered scheduler_start" "wakes_in_time scheduler_start"
  "never_empty scheduler_start"
  by (simp_all add: deadline_covered_def wakes_in_time_def never_empty_def scheduler_start_def)

text \<open>
  C18: As long as fewer than 2^32 events were added, every event id given out is new and is of exactly
  one kind: its event was stopped (\<open>stopEvent\<close> returned true), its task was given to the dispatcher,
  or it is still pending. So no task is dispatched twice, and none is dispatched once \<open>stopEvent\<close> has
  returned true for it; and no task is dispatched before its time.
\<close>

theorem events_stop_or_fire_once:
  assumes "run scheduler_start ls s" and "list_all usual ls" and "length (added_ids ls) < 2 ^ 32"
  shows "distinct (added_ids ls) \<and>
    distinct (stopped_ids ls @ map eventId (fired_tasks ls)) \<and>
    set (stopped_ids ls) \<union> eventId ` set (fired_tasks ls) \<union> eventIds s = set (added_ids ls) \<and>
    (set (stopped_ids ls) \<union> eventId ` set (fired_tasks ls)) \<inter> eventIds s = {} \<and>
    list_all on_time ls"
  using accounted_run [OF assms(1) refl assms(2,3)] on_time_run [OF assms(1) scheduler_start_good(1)]
  unfolding account_def by simp

text \<open>A run: an event due at 60 is added, the thread sleeps until then and dispatches it.\<close>

definition due_60 :: "nat scheduler_task" where
  "due_60 = createSchedulerTask 10 50 7"

definition due_60_id :: "nat scheduler_task" where
  "due_60_id = due_60\<lparr> eventId := 1 \<rparr>"

definition after_add :: "nat scheduler" where
  "after_add = fst (addEvent True due_60 scheduler_start)"

definition after_sleep :: "nat scheduler" where
  "after_sleep = after_add\<lparr> s_waiting := WaitingUntil 60, s_signalled := False \<rparr>"

lemmas scheduler_eval = due_60_def due_60_id_def after_add_def after_sleep_def scheduler_start_def
  createSchedulerTask_def getCycle_def nextEventId_def is_top_def setDontExpire_def s_defs

lemma run_sleep: "run scheduler_start [Added due_60 1, Slept] after_sleep"
proof -
  have "step scheduler_start (Added due_60 1) (Some after_add)"
    by (rule step.add [of True]) (simp_all add: scheduler_eval)
  from run.more [OF run.start this] have 1: "run scheduler_start [Added due_60 1] after_add" by simp
  have "step after_add Slept (Some after_sleep)"
    by (rule step.sleep) (simp add: scheduler_eval)
  from run.more [OF 1 this] show ?thesis by simp
qed

theorem events_stop_or_fire_once_witness:
  "\<exists>s. run scheduler_start
       [Added due_60 1, Slept, Popped 61 due_60_id [setDontExpire due_60_id]] s \<and> eventIds s = {}"
proof -
  let ?ls = "[Added due_60 1, Slept, Popped 61 due_60_id [setDontExpire due_60_id]]"
  have "step after_sleep (Popped 61 due_60_id [setDontExpire due_60_id]) (Some (fst (fire due_60_id after_sleep)))"
    by (rule step.pop [of _ 60]) (simp_all add: scheduler_eval)
  from run.more [OF run_sleep this] have r: "run scheduler_start ?ls (fst (fire due_60_id after_sleep))"
    by simp
  have "list_all usual ?ls" and "length (added_ids ?ls) < 2 ^ 32"
    by (simp_all add: scheduler_eval)
  from events_stop_or_fire_once [OF r this]
  have "eventId (setDontExpire due_60_id) \<notin> eventIds (fst (fire due_60_id after_sleep))"
    and "eventIds (fst (fire due_60_id after_sleep)) \<subseteq> {1}"
    by (auto simp del: insert_subset)
  moreover have "eventId (setDontExpire due_60_id) = 1" by (simp add: scheduler_eval)
  ultimately have "eventIds (fst (fire due_60_id after_sleep)) = {}" by auto
  with r show ?thesis by blast
qed

lemma is_top_exists: "ts \<noteq> [] \<Longrightarrow> \<exists>t. is_top t ts"
proof (induction ts)
  case Nil
  then show ?case by simp
next
  case (Cons u ts)
  show ?case
  proof (cases "ts = []")
    case True
    then have "is_top u (u # ts)" by (simp add: is_top_def)
    then show ?thesis ..
  next
    case False
    with Cons.IH obtain t where t: "is_top t ts" by blast
    then have "is_top (if getCycle u \<le> getCycle t then u else t) (u # ts)"
      by (auto simp: is_top_def list_all_iff)
    then show ?thesis ..
  qed
qed

text \<open>
  C19: The scheduler never sleeps past an event: in every run, a sleeping thread that was not signalled
  waits for a deadline no later than that of any pending event, or nothing is pending; and once that
  deadline has passed the thread can take the event at the top. As long as the scheduler is not shut
  down, it never takes an event from an empty queue.
\<close>

theorem scheduler_wakes_for_every_event:
  assumes "run scheduler_start ls s"
  shows "wakes_in_time s \<and>
    (\<forall>deadline now. s_waiting s = WaitingUntil deadline \<longrightarrow> deadline \<le> now \<longrightarrow> eventList s \<noteq> [] \<longrightarrow>
       (\<exists>task out s'. step s (Popped now task out) (Some s') \<and> getCycle task \<le> now)) \<and>
    (list_all usual ls \<longrightarrow> (\<forall>l. \<not> step s l None))"
proof (intro conjI allI impI)
  show "wakes_in_time s"
    using wakes_in_time_run [OF assms scheduler_start_good(2)] .
next
  fix deadline now
  assume d: "s_waiting s = WaitingUntil deadline" "deadline \<le> now" "eventList s \<noteq> []"
  from is_top_exists [OF d(3)] obtain task where top: "is_top task (eventList s)" ..
  obtain s' out where "fire task s = (s', out)" by (cases "fire task s")
  from step.pop [OF d(1,2) top this] have st: "step s (Popped now task out) (Some s')" .
  with on_time_step [OF st deadline_covered_run [OF assms scheduler_start_good(1)]]
  show "\<exists>task out s'. step s (Popped now task out) (Some s') \<and> getCycle task \<le> now"
    by auto
next
  fix l
  assume "list_all usual ls"
  from never_empty_run [OF assms this scheduler_start_good(3)]
  show "\<not> step s l None"
    by (auto elim!: step_crashE simp: never_empty_def)
qed

theorem scheduler_wakes_for_every_event_witness:
  "wakes_in_time after_sleep \<and> (\<forall>l. \<not> step after_sleep l None)"
  using scheduler_wakes_for_every_event [OF run_sleep] by (simp add: scheduler_eval)

text \<open>
  Shutting the scheduler down while its thread waits for an event can crash it: \<open>shutdown\<close> empties
  the queue, and if the deadline has passed when the thread comes back it takes the top of the empty
  queue.
\<close>

lemma scheduler_shutdown_race:
  "\<exists>ls s. run scheduler_start ls s \<and> Shut \<in> set ls \<and> step (s :: nat scheduler) Woken None"
proof -
  from run.more [OF run_sleep step.shutdown]
  have "run scheduler_start [Added due_60 1, Slept, Shut] (scheduler_shutdown after_sleep)" by simp
  moreover have "step (scheduler_shutdown after_sleep) Woken None"
    by (rule step.pop_empty [of _ 60 60]) (simp_all add: scheduler_eval)
  ultimately show ?thesis by (intro exI conjI) auto
qed

end
