(* ===== verification/ItemAttributes.thy ===== *)
theory ItemAttributes
  imports Prelude
begin

text \<open>
  The attributes of an item (class \<open>ItemAttributes\<close> of \<open>item.h\<close> and \<open>item.cpp\<close>): a linked list of
  typed values with a bit mask of the types in it.

  The union of an integer and a string pointer is \<open>attr_value\<close>: reading the member that was not
  written is \<open>None\<close>, undefined behaviour in the source, as is taking the front of an empty list.
  The abstract value is a map from types to integers and one from types to strings; the list
  refines it.
\<close>

section \<open>Types of attributes\<close>

datatype itemAttrTypes =
    ITEM_ATTRIBUTE_NONE | ITEM_ATTRIBUTE_ACTIONID | ITEM_ATTRIBUTE_UNIQUEID
  | ITEM_ATTRIBUTE_DESCRIPTION | ITEM_ATTRIBUTE_TEXT | ITEM_ATTRIBUTE_DATE | ITEM_ATTRIBUTE_WRITER
  | ITEM_ATTRIBUTE_NAME | ITEM_ATTRIBUTE_ARTICLE | ITEM_ATTRIBUTE_PLURALNAME | ITEM_ATTRIBUTE_WEIGHT
  | ITEM_ATTRIBUTE_ATTACK | ITEM_ATTRIBUTE_DEFENSE | ITEM_ATTRIBUTE_EXTRADEFENSE
  | ITEM_ATTRIBUTE_ARMOR | ITEM_ATTRIBUTE_HITCHANCE | ITEM_ATTRIBUTE_SHOOTRANGE
  | ITEM_ATTRIBUTE_OWNER | ITEM_ATTRIBUTE_DURATION | ITEM_ATTRIBUTE_DECAYSTATE
  | ITEM_ATTRIBUTE_CORPSEOWNER | ITEM_ATTRIBUTE_CHARGES | ITEM_ATTRIBUTE_FLUIDTYPE
  | ITEM_ATTRIBUTE_DOORID

fun attr_flag :: "itemAttrTypes \<Rightarrow> u32" where
  "attr_flag ITEM_ATTRIBUTE_NONE = 0"
| "attr_flag ITEM_ATTRIBUTE_ACTIONID = push_bit 0 1"
| "attr_flag ITEM_ATTRIBUTE_UNIQUEID = push_bit 1 1"
| "attr_flag ITEM_ATTRIBUTE_DESCRIPTION = push_bit 2 1"
| "attr_flag ITEM_ATTRIBUTE_TEXT = push_bit 3 1"
| "attr_flag ITEM_ATTRIBUTE_DATE = push_bit 4 1"
| "attr_flag ITEM_ATTRIBUTE_WRITER = push_bit 5 1"
| "attr_flag ITEM_ATTRIBUTE_NAME = push_bit 6 1"
| "attr_flag ITEM_ATTRIBUTE_ARTICLE = push_bit 7 1"
| "attr_flag ITEM_ATTRIBUTE_PLURALNAME = push_bit 8 1"
| "attr_flag ITEM_ATTRIBUTE_WEIGHT = push_bit 9 1"
| "attr_flag ITEM_ATTRIBUTE_ATTACK = push_bit 10 1"
| "attr_flag ITEM_ATTRIBUTE_DEFENSE = push_bit 11 1"
| "attr_flag ITEM_ATTRIBUTE_EXTRADEFENSE = push_bit 12 1"
| "attr_flag ITEM_ATTRIBUTE_ARMOR = push_bit 13 1"
| "attr_flag ITEM_ATTRIBUTE_HITCHANCE = push_bit 14 1"
| "attr_flag ITEM_ATTRIBUTE_SHOOTRANGE = push_bit 15 1"
| "attr_flag ITEM_ATTRIBUTE_OWNER = push_bit 16 1"
| "attr_flag ITEM_ATTRIBUTE_DURATION = push_bit 17 1"
| "attr_flag ITEM_ATTRIBUTE_DECAYSTATE = push_bit 18 1"
| "attr_flag ITEM_ATTRIBUTE_CORPSEOWNER = push_bit 19 1"
| "attr_flag ITEM_ATTRIBUTE_CHARGES = push_bit 20 1"
| "attr_flag ITEM_ATTRIBUTE_FLUIDTYPE = push_bit 21 1"
| "attr_flag ITEM_ATTRIBUTE_DOORID = push_bit 22 1"

definition isIntAttrType :: "itemAttrTypes \<Rightarrow> bool" where
  "isIntAttrType type \<longleftrightarrow> attr_flag type AND 0x7FFE13 \<noteq> 0"

definition isStrAttrType :: "itemAttrTypes \<Rightarrow> bool" where
  "isStrAttrType type \<longleftrightarrow> attr_flag type AND 0x1EC \<noteq> 0"

text \<open>Every type but the empty one is exactly one of the two.\<close>

lemma isStr_not_isInt: "isStrAttrType t \<Longrightarrow> \<not> isIntAttrType t"
  by (cases t) (simp_all add: isStrAttrType_def isIntAttrType_def)

lemma isStr_or_isInt: "t \<noteq> ITEM_ATTRIBUTE_NONE \<Longrightarrow> isStrAttrType t \<or> isIntAttrType t"
  by (cases t) (simp_all add: isStrAttrType_def isIntAttrType_def)

lemma none_type [simp]: "\<not> isStrAttrType ITEM_ATTRIBUTE_NONE" "\<not> isIntAttrType ITEM_ATTRIBUTE_NONE"
  by (simp_all add: isStrAttrType_def isIntAttrType_def)

section \<open>The list of attributes\<close>

datatype attr_value = ZeroBytes | IntegerValue u64 | StringValue bstring

record attribute =
  attr_type :: itemAttrTypes
  attr_value :: attr_value

record item_attributes =
  attributes :: "attribute list"
  attributeBits :: u32

definition new_attributes_list :: item_attributes where
  "new_attributes_list = \<lparr> attributes = [], attributeBits = 0 \<rparr>"

fun read_integer :: "attr_value \<Rightarrow> u64 option" where
  "read_integer ZeroBytes = Some 0"
| "read_integer (IntegerValue n) = Some n"
| "read_integer (StringValue s) = None"

fun read_string :: "attr_value \<Rightarrow> bstring option" where
  "read_string (StringValue s) = Some s"
| "read_string _ = None"

definition hasAttribute_list :: "item_attributes \<Rightarrow> itemAttrTypes \<Rightarrow> bool" where
  "hasAttribute_list a type \<longleftrightarrow> attr_flag type AND attributeBits a \<noteq> 0"

definition getExistingAttr :: "item_attributes \<Rightarrow> itemAttrTypes \<Rightarrow> attr_value option" where
  "getExistingAttr a type =
     (if hasAttribute_list a type
      then map_option attr_value (find (\<lambda>x. attr_type x = type) (attributes a)) else None)"

text \<open>
  \<open>getAttr\<close> gives a reference to the attribute of the type, a new zeroed one at the front if there is
  none; a caller that writes through the reference is \<open>update_attr\<close> with the write as a function.
\<close>

fun update_first :: "itemAttrTypes \<Rightarrow> (attr_value \<Rightarrow> attr_value option) \<Rightarrow> attribute list \<Rightarrow>
    attribute list option option" where
  "update_first type f [] = None"
| "update_first type f (x # xs) =
     (if attr_type x = type then Some (map_option (\<lambda>v. x\<lparr> attr_value := v \<rparr> # xs) (f (attr_value x)))
      else map_option (map_option ((#) x)) (update_first type f xs))"

definition update_attr ::
  "itemAttrTypes \<Rightarrow> (attr_value \<Rightarrow> attr_value option) \<Rightarrow> item_attributes \<Rightarrow> item_attributes option" where
  "update_attr type f a =
     (case (if hasAttribute_list a type then update_first type f (attributes a) else None) of
        Some written \<Rightarrow> map_option (\<lambda>xs. a\<lparr> attributes := xs \<rparr>) written
      | None \<Rightarrow>
          map_option (\<lambda>v. a\<lparr> attributes := \<lparr> attr_type = type, attr_value = v \<rparr> # attributes a,
                             attributeBits := attributeBits a OR attr_flag type \<rparr>) (f ZeroBytes))"

definition getStrAttr_list :: "item_attributes \<Rightarrow> itemAttrTypes \<Rightarrow> bstring option" where
  "getStrAttr_list a type =
     (if \<not> isStrAttrType type then Some []
      else case getExistingAttr a type of None \<Rightarrow> Some [] | Some v \<Rightarrow> read_string v)"

text \<open>\<open>setStrAttr\<close> deletes the old string, which must not be an integer.\<close>

definition setStrAttr_list :: "itemAttrTypes \<Rightarrow> bstring \<Rightarrow> item_attributes \<Rightarrow> item_attributes option" where
  "setStrAttr_list type value a =
     (if \<not> isStrAttrType type then Some a
      else if value = [] then Some a
      else update_attr type
        (\<lambda>old. case old of IntegerValue n \<Rightarrow> None | _ \<Rightarrow> Some (StringValue value)) a)"

definition getIntAttr_list :: "item_attributes \<Rightarrow> itemAttrTypes \<Rightarrow> u64 option" where
  "getIntAttr_list a type =
     (if \<not> isIntAttrType type then Some 0
      else case getExistingAttr a type of None \<Rightarrow> Some 0 | Some v \<Rightarrow> read_integer v)"

definition setIntAttr_list :: "itemAttrTypes \<Rightarrow> u64 \<Rightarrow> item_attributes \<Rightarrow> item_attributes option" where
  "setIntAttr_list type value a =
     (if \<not> isIntAttrType type then Some a
      else update_attr type (\<lambda>old. Some (IntegerValue value)) a)"

text \<open>The sum of \<open>increaseIntAttr\<close> is undefined when it leaves the range of \<open>int64_t\<close>.\<close>

definition add_int64 :: "u64 \<Rightarrow> u64 \<Rightarrow> u64 option" where
  "add_int64 x y = (if sint (x + y) = sint x + sint y then Some (x + y) else None)"

definition increaseIntAttr_list :: "itemAttrTypes \<Rightarrow> u64 \<Rightarrow> item_attributes \<Rightarrow> item_attributes option" where
  "increaseIntAttr_list type value a =
     (if \<not> isIntAttrType type then Some a
      else update_attr type
        (\<lambda>old. case read_integer old of None \<Rightarrow> None | Some n \<Rightarrow> map_option IntegerValue (add_int64 n value)) a)"

fun remove_first :: "itemAttrTypes \<Rightarrow> attribute list \<Rightarrow> attribute list" where
  "remove_first type [] = []"
| "remove_first type (x # xs) = (if attr_type x = type then xs else x # remove_first type xs)"

definition removeAttribute_list :: "itemAttrTypes \<Rightarrow> item_attributes \<Rightarrow> item_attributes option" where
  "removeAttribute_list type a =
     (if \<not> hasAttribute_list a type then Some a
      else case attributes a of
             [] \<Rightarrow> None
           | x # xs \<Rightarrow> Some (a\<lparr> attributes := remove_first type (x # xs),
                                attributeBits := attributeBits a AND NOT (attr_flag type) \<rparr>))"

section \<open>The abstract attributes\<close>

record attr_maps =
  ints :: "itemAttrTypes \<Rightarrow> u64 option"
  strs :: "itemAttrTypes \<Rightarrow> bstring option"

definition abs_attrs :: "item_attributes \<Rightarrow> attr_maps" where
  "abs_attrs a = \<lparr>
     ints = (\<lambda>t. if isIntAttrType t then
               (case getExistingAttr a t of None \<Rightarrow> None | Some v \<Rightarrow> read_integer v) else None),
     strs = (\<lambda>t. if isStrAttrType t then
               (case getExistingAttr a t of None \<Rightarrow> None | Some v \<Rightarrow> read_string v) else None) \<rparr>"

text \<open>The mask says what is in the list, no type is there twice, and values have their type's kind.\<close>

definition well_typed :: "attribute \<Rightarrow> bool" where
  "well_typed x \<longleftrightarrow>
     (if isStrAttrType (attr_type x) then (\<exists>s. s \<noteq> [] \<and> attr_value x = StringValue s)
      else isIntAttrType (attr_type x) \<and> (\<exists>n. attr_value x = IntegerValue n))"

definition wf_attrs :: "item_attributes \<Rightarrow> bool" where
  "wf_attrs a \<longleftrightarrow> distinct (map attr_type (attributes a)) \<and> list_all well_typed (attributes a) \<and>
     (\<forall>t. hasAttribute_list a t \<longleftrightarrow> t \<in> set (map attr_type (attributes a)))"

fun attr_index :: "itemAttrTypes \<Rightarrow> nat" where
  "attr_index ITEM_ATTRIBUTE_NONE = 23"
| "attr_index ITEM_ATTRIBUTE_ACTIONID = 0"
| "attr_index ITEM_ATTRIBUTE_UNIQUEID = 1"
| "attr_index ITEM_ATTRIBUTE_DESCRIPTION = 2"
| "attr_index ITEM_ATTRIBUTE_TEXT = 3"
| "attr_index ITEM_ATTRIBUTE_DATE = 4"
| "attr_index ITEM_ATTRIBUTE_WRITER = 5"
| "attr_index ITEM_ATTRIBUTE_NAME = 6"
| "attr_index ITEM_ATTRIBUTE_ARTICLE = 7"
| "attr_index ITEM_ATTRIBUTE_PLURALNAME = 8"
| "attr_index ITEM_ATTRIBUTE_WEIGHT = 9"
| "attr_index ITEM_ATTRIBUTE_ATTACK = 10"
| "attr_index ITEM_ATTRIBUTE_DEFENSE = 11"
| "attr_index ITEM_ATTRIBUTE_EXTRADEFENSE = 12"
| "attr_index ITEM_ATTRIBUTE_ARMOR = 13"
| "attr_index ITEM_ATTRIBUTE_HITCHANCE = 14"
| "attr_index ITEM_ATTRIBUTE_SHOOTRANGE = 15"
| "attr_index ITEM_ATTRIBUTE_OWNER = 16"
| "attr_index ITEM_ATTRIBUTE_DURATION = 17"
| "attr_index ITEM_ATTRIBUTE_DECAYSTATE = 18"
| "attr_index ITEM_ATTRIBUTE_CORPSEOWNER = 19"
| "attr_index ITEM_ATTRIBUTE_CHARGES = 20"
| "attr_index ITEM_ATTRIBUTE_FLUIDTYPE = 21"
| "attr_index ITEM_ATTRIBUTE_DOORID = 22"

lemma attr_index_inj: "attr_index s = attr_index t \<longleftrightarrow> s = t"
  by (cases s; cases t; simp)

lemma attr_flag_index: "t \<noteq> ITEM_ATTRIBUTE_NONE \<Longrightarrow> attr_flag t = push_bit (attr_index t) 1"
  by (cases t) simp_all

lemma attr_index_less: "t \<noteq> ITEM_ATTRIBUTE_NONE \<Longrightarrow> attr_index t < 32"
  by (cases t) simp_all

lemma flag_and_iff:
  assumes "t \<noteq> ITEM_ATTRIBUTE_NONE"
  shows "attr_flag t AND w \<noteq> 0 \<longleftrightarrow> bit w (attr_index t)"
  unfolding attr_flag_index [OF assms] bit_iff_and_push_bit_not_eq_0 by (simp only: and.commute)

lemma hasAttribute_list_bit:
  "hasAttribute_list a t \<longleftrightarrow> t \<noteq> ITEM_ATTRIBUTE_NONE \<and> bit (attributeBits a) (attr_index t)"
  by (cases "t = ITEM_ATTRIBUTE_NONE") (simp_all add: hasAttribute_list_def flag_and_iff)

lemma hasAttribute_list_set:
  assumes "t \<noteq> ITEM_ATTRIBUTE_NONE"
  shows "hasAttribute_list \<lparr> attributes = xs, attributeBits = w OR attr_flag t \<rparr> u \<longleftrightarrow>
    u = t \<or> hasAttribute_list \<lparr> attributes = xs, attributeBits = w \<rparr> u"
  using assms attr_index_less [of t]
  by (auto simp: hasAttribute_list_bit attr_flag_index bit_simps attr_index_inj)

lemma hasAttribute_list_clear:
  assumes "t \<noteq> ITEM_ATTRIBUTE_NONE"
  shows "hasAttribute_list \<lparr> attributes = xs, attributeBits = w AND NOT (attr_flag t) \<rparr> u \<longleftrightarrow>
    u \<noteq> t \<and> hasAttribute_list \<lparr> attributes = xs, attributeBits = w \<rparr> u"
  using assms attr_index_less [of t] attr_index_less [of u]
  by (auto simp: hasAttribute_list_bit attr_flag_index bit_simps attr_index_inj)

lemma hasAttribute_list_cong:
  "attributeBits a = attributeBits b \<Longrightarrow> hasAttribute_list a t = hasAttribute_list b t"
  by (simp add: hasAttribute_list_def)

section \<open>Look-ups after updates\<close>

definition look :: "attribute list \<Rightarrow> itemAttrTypes \<Rightarrow> attr_value option" where
  "look xs t = map_option attr_value (find (\<lambda>x. attr_type x = t) xs)"

lemma look_simps [simp]:
  "look [] t = None"
  "look (x # xs) t = (if attr_type x = t then Some (attr_value x) else look xs t)"
  by (simp_all add: look_def)

lemma look_None_iff: "look xs t = None \<longleftrightarrow> t \<notin> set (map attr_type xs)"
  by (induction xs) auto

lemma look_well_typed: "list_all well_typed xs \<Longrightarrow> look xs t = Some v \<Longrightarrow>
    well_typed \<lparr> attr_type = t, attr_value = v \<rparr>"
proof (induction xs)
  case Nil
  then show ?case by simp
next
  case (Cons x xs)
  show ?case
  proof (cases "attr_type x = t")
    case True
    with Cons.prems have "well_typed x" and "attr_type x = t" and "attr_value x = v" by simp_all
    then show ?thesis by (simp add: well_typed_def split: if_splits)
  next
    case False
    with Cons show ?thesis by simp
  qed
qed

lemma getExistingAttr_look: "wf_attrs a \<Longrightarrow> getExistingAttr a t = look (attributes a) t"
  using look_None_iff [of "attributes a" t]
  by (cases "look (attributes a) t") (simp_all add: getExistingAttr_def look_def [symmetric] wf_attrs_def)

lemma update_first_None: "t \<notin> set (map attr_type xs) \<Longrightarrow> update_first t f xs = None"
  by (induction xs) auto

lemma update_first_Some:
  assumes "look xs t = Some v" and "f v = Some v'" and "well_typed \<lparr> attr_type = t, attr_value = v' \<rparr>"
    and "list_all well_typed xs"
  shows "\<exists>ys. update_first t f xs = Some (Some ys) \<and> map attr_type ys = map attr_type xs \<and>
    list_all well_typed ys \<and> (\<forall>u. look ys u = (if u = t then Some v' else look xs u))"
  using assms
proof (induction xs)
  case Nil
  then show ?case by simp
next
  case (Cons x xs)
  show ?case
  proof (cases "attr_type x = t")
    case True
    with Cons.prems show ?thesis by (auto simp: well_typed_def)
  next
    case False
    with Cons.prems have "look xs t = Some v" "list_all well_typed xs" by simp_all
    from Cons.IH [OF this(1) Cons.prems(2,3) this(2)] obtain ys
      where "update_first t f xs = Some (Some ys)" "map attr_type ys = map attr_type xs"
        "list_all well_typed ys" "\<forall>u. look ys u = (if u = t then Some v' else look xs u)" by blast
    with False Cons.prems show ?thesis by (intro exI [of _ "x # ys"]) auto
  qed
qed

text \<open>A write through the reference of \<open>getAttr\<close> that is defined on the value found there.\<close>

lemma update_attr_ok:
  assumes wf: "wf_attrs a" and t: "t \<noteq> ITEM_ATTRIBUTE_NONE"
    and f: "f (case look (attributes a) t of None \<Rightarrow> ZeroBytes | Some v \<Rightarrow> v) = Some v'"
    and v': "well_typed \<lparr> attr_type = t, attr_value = v' \<rparr>"
  shows "\<exists>a'. update_attr t f a = Some a' \<and> wf_attrs a' \<and>
    (\<forall>u. look (attributes a') u = (if u = t then Some v' else look (attributes a) u))"
proof (cases "look (attributes a) t")
  case None
  then have new: "t \<notin> set (map attr_type (attributes a))" by (simp add: look_None_iff)
  with wf have "\<not> hasAttribute_list a t" by (simp add: wf_attrs_def)
  with None f have "update_attr t f a =
      Some (a\<lparr> attributes := \<lparr> attr_type = t, attr_value = v' \<rparr> # attributes a,
               attributeBits := attributeBits a OR attr_flag t \<rparr>)" (is "_ = Some ?a")
    by (simp add: update_attr_def)
  moreover have "hasAttribute_list ?a u \<longleftrightarrow> u = t \<or> hasAttribute_list a u" for u
    using hasAttribute_list_set [OF t, of _ "attributeBits a" u]
    by (metis hasAttribute_list_cong item_attributes.select_convs(2) item_attributes.simps(3,4)
        item_attributes.surjective item_attributes.update_convs(1,2))
  ultimately show ?thesis
    using wf new v' by (auto simp: wf_attrs_def)
next
  case (Some v)
  then have "t \<in> set (map attr_type (attributes a))" by (metis look_None_iff option.distinct(1))
  with wf have has: "hasAttribute_list a t" by (simp add: wf_attrs_def)
  from wf have "list_all well_typed (attributes a)" by (simp add: wf_attrs_def)
  from update_first_Some [OF Some _ v' this, of f] f Some obtain ys
    where ys: "update_first t f (attributes a) = Some (Some ys)"
      "map attr_type ys = map attr_type (attributes a)" "list_all well_typed ys"
      "\<forall>u. look ys u = (if u = t then Some v' else look (attributes a) u)" by auto
  with has have "update_attr t f a = Some (a\<lparr> attributes := ys \<rparr>)"
    by (simp add: update_attr_def)
  moreover have "wf_attrs (a\<lparr> attributes := ys \<rparr>)"
    using wf ys(2,3) hasAttribute_list_cong [of "a\<lparr> attributes := ys \<rparr>" a]
    unfolding wf_attrs_def by (metis item_attributes.select_convs(2) item_attributes.simps(1)
      item_attributes.surjective item_attributes.update_convs(1))
  ultimately show ?thesis using ys(4) by simp
qed

lemma set_remove_first:
  "distinct (map attr_type xs) \<Longrightarrow> attr_type ` set (remove_first t xs) = attr_type ` set xs - {t}"
  by (induction xs) (auto, metis imageI)

lemma distinct_remove_first:
  "distinct (map attr_type xs) \<Longrightarrow> distinct (map attr_type (remove_first t xs))"
  by (induction xs) (auto simp: set_remove_first)

lemma well_typed_remove_first:
  "list_all well_typed xs \<Longrightarrow> list_all well_typed (remove_first t xs)"
  by (induction xs) auto

lemma look_remove_first:
  "distinct (map attr_type xs) \<Longrightarrow> look (remove_first t xs) u = (if u = t then None else look xs u)"
proof (induction xs)
  case Nil
  then show ?case by simp
next
  case (Cons x xs)
  then have "attr_type x \<notin> set (map attr_type xs)" by simp
  then have "look xs (attr_type x) = None" using look_None_iff by blast
  with Cons show ?case by auto
qed

lemma removal_ok:
  assumes wf: "wf_attrs a"
  shows "\<exists>a'. removeAttribute_list t a = Some a' \<and> wf_attrs a' \<and>
    (\<forall>u. look (attributes a') u = (if u = t then None else look (attributes a) u))"
proof (cases "hasAttribute_list a t")
  case False
  with wf have "look (attributes a) t = None" by (simp add: wf_attrs_def look_None_iff)
  with wf False show ?thesis by (auto simp: removeAttribute_list_def)
next
  case True
  then have t: "t \<noteq> ITEM_ATTRIBUTE_NONE" by (simp add: hasAttribute_list_bit)
  from True wf obtain x xs where xs: "attributes a = x # xs"
    by (cases "attributes a") (auto simp: wf_attrs_def)
  let ?a = "a\<lparr> attributes := remove_first t (attributes a),
               attributeBits := attributeBits a AND NOT (attr_flag t) \<rparr>"
  have "removeAttribute_list t a = Some ?a"
    using True xs by (simp add: removeAttribute_list_def)
  moreover have "hasAttribute_list ?a u \<longleftrightarrow> u \<noteq> t \<and> hasAttribute_list a u" for u
    using hasAttribute_list_clear [OF t, of "attributes ?a" "attributeBits a" u]
    by (simp add: hasAttribute_list_def)
  moreover have "distinct (map attr_type (attributes a))" using wf by (simp add: wf_attrs_def)
  ultimately show ?thesis
    using wf by (simp add: wf_attrs_def set_remove_first distinct_remove_first
      well_typed_remove_first look_remove_first) blast
qed

section \<open>Refinement\<close>

datatype attr_op =
    SetStr itemAttrTypes bstring | SetInt itemAttrTypes u64 | IncreaseInt itemAttrTypes u64
  | RemoveAttr itemAttrTypes

fun attr_list_op :: "attr_op \<Rightarrow> item_attributes \<Rightarrow> item_attributes option" where
  "attr_list_op (SetStr t s) a = setStrAttr_list t s a"
| "attr_list_op (SetInt t n) a = setIntAttr_list t n a"
| "attr_list_op (IncreaseInt t n) a = increaseIntAttr_list t n a"
| "attr_list_op (RemoveAttr t) a = removeAttribute_list t a"

fun attr_maps_op :: "attr_op \<Rightarrow> attr_maps \<Rightarrow> attr_maps option" where
  "attr_maps_op (SetStr t s) m =
     Some (if isStrAttrType t \<and> s \<noteq> [] then m\<lparr> strs := (strs m)(t \<mapsto> s) \<rparr> else m)"
| "attr_maps_op (SetInt t n) m =
     Some (if isIntAttrType t then m\<lparr> ints := (ints m)(t \<mapsto> n) \<rparr> else m)"
| "attr_maps_op (IncreaseInt t n) m =
     (if isIntAttrType t then
        map_option (\<lambda>k. m\<lparr> ints := (ints m)(t \<mapsto> k) \<rparr>)
          (add_int64 (case ints m t of None \<Rightarrow> 0 | Some k \<Rightarrow> k) n)
      else Some m)"
| "attr_maps_op (RemoveAttr t) m = Some (m\<lparr> ints := (ints m)(t := None), strs := (strs m)(t := None) \<rparr>)"

definition no_attrs :: attr_maps where
  "no_attrs = \<lparr> ints = Map.empty, strs = Map.empty \<rparr>"

fun run_ops :: "('op \<Rightarrow> 's \<Rightarrow> 's option) \<Rightarrow> 'op list \<Rightarrow> 's \<Rightarrow> 's option" where
  "run_ops step [] s = Some s"
| "run_ops step (x # xs) s = do { s' \<leftarrow> step x s; run_ops step xs s' }"

lemma abs_attrs_look: "wf_attrs a \<Longrightarrow> abs_attrs a = \<lparr>
    ints = (\<lambda>t. if isIntAttrType t then Option.bind (look (attributes a) t) read_integer else None),
    strs = (\<lambda>t. if isStrAttrType t then Option.bind (look (attributes a) t) read_string else None) \<rparr>"
  by (auto simp: abs_attrs_def getExistingAttr_look fun_eq_iff split: option.split)

lemma wf_new: "wf_attrs new_attributes_list" "abs_attrs new_attributes_list = no_attrs"
  by (auto simp: wf_attrs_def new_attributes_list_def hasAttribute_list_def abs_attrs_def
      getExistingAttr_def no_attrs_def)

lemma look_typed:
  "wf_attrs a \<Longrightarrow> look (attributes a) t = Some v \<Longrightarrow> isStrAttrType t \<Longrightarrow> \<exists>s. v = StringValue s"
  "wf_attrs a \<Longrightarrow> look (attributes a) t = Some v \<Longrightarrow> isIntAttrType t \<Longrightarrow> \<exists>n. v = IntegerValue n"
  using look_well_typed [of "attributes a" t v] isStr_not_isInt [of t]
  by (auto simp: wf_attrs_def well_typed_def split: if_splits)

lemma set_str_refines:
  assumes wf: "wf_attrs a"
  shows "\<exists>a'. setStrAttr_list t s a = Some a' \<and> wf_attrs a' \<and>
    Some (abs_attrs a') = attr_maps_op (SetStr t s) (abs_attrs a)"
proof (cases "isStrAttrType t \<and> s \<noteq> []")
  case False
  with wf show ?thesis by (auto simp: setStrAttr_list_def)
next
  case True
  then have t: "t \<noteq> ITEM_ATTRIBUTE_NONE" "\<not> isIntAttrType t"
    using isStr_not_isInt by auto
  let ?f = "\<lambda>old. case old of IntegerValue n \<Rightarrow> None | _ \<Rightarrow> Some (StringValue s)"
  have "?f (case look (attributes a) t of None \<Rightarrow> ZeroBytes | Some v \<Rightarrow> v) = Some (StringValue s)"
    using look_typed(1) [OF wf] True by (fastforce split: option.split)
  from update_attr_ok [where f = ?f and v' = "StringValue s", OF wf t(1) this] True obtain a' where a': "update_attr t ?f a = Some a'"
    "wf_attrs a'" "\<forall>u. look (attributes a') u = (if u = t then Some (StringValue s) else look (attributes a) u)"
    by (auto simp: well_typed_def)
  with True have "setStrAttr_list t s a = Some a'" by (simp add: setStrAttr_list_def)
  with a' wf True t show ?thesis by (auto simp: abs_attrs_look fun_eq_iff)
qed

lemma int_update_refines:
  assumes wf: "wf_attrs a" and t: "isIntAttrType t"
    and f: "f (case look (attributes a) t of None \<Rightarrow> ZeroBytes | Some v \<Rightarrow> v) = Some (IntegerValue n)"
  shows "\<exists>a'. update_attr t f a = Some a' \<and> wf_attrs a' \<and>
    abs_attrs a' = (abs_attrs a)\<lparr> ints := (ints (abs_attrs a))(t \<mapsto> n) \<rparr>"
proof -
  have ne: "t \<noteq> ITEM_ATTRIBUTE_NONE" "\<not> isStrAttrType t" using t isStr_not_isInt by auto
  from update_attr_ok [where f = f and v' = "IntegerValue n", OF wf ne(1) f] t ne(2) obtain a' where a': "update_attr t f a = Some a'"
    "wf_attrs a'" "\<forall>u. look (attributes a') u = (if u = t then Some (IntegerValue n) else look (attributes a) u)"
    by (auto simp: well_typed_def)
  with wf t ne show ?thesis by (auto simp: abs_attrs_look fun_eq_iff)
qed

lemma old_int:
  assumes wf: "wf_attrs a" and t: "isIntAttrType t"
  shows "read_integer (case look (attributes a) t of None \<Rightarrow> ZeroBytes | Some v \<Rightarrow> v) =
    Some (case ints (abs_attrs a) t of None \<Rightarrow> 0 | Some k \<Rightarrow> k)"
  using look_typed(2) [OF wf _ t] t
  by (auto simp: abs_attrs_look [OF wf] split: option.split)

lemma increase_refines:
  assumes wf: "wf_attrs a"
  shows "case increaseIntAttr_list t n a of
      None \<Rightarrow> attr_maps_op (IncreaseInt t n) (abs_attrs a) = None
    | Some a' \<Rightarrow> wf_attrs a' \<and> attr_maps_op (IncreaseInt t n) (abs_attrs a) = Some (abs_attrs a')"
proof (cases "isIntAttrType t")
  case False
  with wf show ?thesis by (simp add: increaseIntAttr_list_def)
next
  case True
  let ?old = "case look (attributes a) t of None \<Rightarrow> ZeroBytes | Some v \<Rightarrow> v"
  let ?k = "case ints (abs_attrs a) t of None \<Rightarrow> 0 | Some k \<Rightarrow> k"
  let ?f = "\<lambda>old. case read_integer old of None \<Rightarrow> None | Some m \<Rightarrow> map_option IntegerValue (add_int64 m n)"
  have f: "?f ?old = map_option IntegerValue (add_int64 ?k n)" by (simp add: old_int [OF wf True])
  show ?thesis
  proof (cases "add_int64 ?k n")
    case (Some m)
    with f have "?f ?old = Some (IntegerValue m)" by simp
    from int_update_refines [where f = ?f and n = m, OF wf True this] obtain a' where "update_attr t ?f a = Some a'" "wf_attrs a'"
      "abs_attrs a' = (abs_attrs a)\<lparr> ints := (ints (abs_attrs a))(t \<mapsto> m) \<rparr>" by blast
    with True Some show ?thesis by (simp add: increaseIntAttr_list_def)
  next
    case None
    with f have n: "?f ?old = None" by simp
    have "update_attr t ?f a = None"
    proof (cases "look (attributes a) t")
      case None
      with wf have "\<not> hasAttribute_list a t" by (simp add: wf_attrs_def look_None_iff)
      with n None show ?thesis by (simp add: update_attr_def)
    next
      case (Some v)
      then have "t \<in> set (map attr_type (attributes a))" by (metis look_None_iff option.distinct(1))
      with wf have "hasAttribute_list a t" by (simp add: wf_attrs_def)
      moreover have "update_first t g xs = Some None" if "look xs t = Some v" "g v = None" for g xs
        using that by (induction xs) (auto split: if_splits)
      ultimately show ?thesis using n Some by (simp add: update_attr_def)
    qed
    with True None show ?thesis by (simp add: increaseIntAttr_list_def)
  qed
qed

lemma remove_refines:
  assumes wf: "wf_attrs a"
  shows "\<exists>a'. removeAttribute_list t a = Some a' \<and> wf_attrs a' \<and>
    Some (abs_attrs a') = attr_maps_op (RemoveAttr t) (abs_attrs a)"
proof -
  from removal_ok [OF wf, of t] obtain a' where "removeAttribute_list t a = Some a'" "wf_attrs a'"
    "\<forall>u. look (attributes a') u = (if u = t then None else look (attributes a) u)" by blast
  with wf show ?thesis by (auto simp: abs_attrs_look fun_eq_iff)
qed

lemma attr_op_refines:
  assumes wf: "wf_attrs a"
  shows "case attr_list_op x a of
      None \<Rightarrow> attr_maps_op x (abs_attrs a) = None
    | Some a' \<Rightarrow> wf_attrs a' \<and> attr_maps_op x (abs_attrs a) = Some (abs_attrs a')"
proof (cases x)
  case (SetStr t s)
  with set_str_refines [OF wf, of t s] show ?thesis by (auto simp del: attr_maps_op.simps)
next
  case (SetInt t n)
  show ?thesis
  proof (cases "isIntAttrType t")
    case True
    from int_update_refines [where f = "\<lambda>old. Some (IntegerValue n)" and n = n, OF wf True] True SetInt
    show ?thesis by (auto simp: setIntAttr_list_def)
  next
    case False
    with SetInt wf show ?thesis by (simp add: setIntAttr_list_def)
  qed
next
  case (IncreaseInt t n)
  with increase_refines [OF wf, of t n] show ?thesis by (simp only: attr_list_op.simps)
next
  case (RemoveAttr t)
  with remove_refines [OF wf, of t] show ?thesis by (auto simp del: attr_maps_op.simps)
qed

lemma attr_ops_refine:
  "wf_attrs a \<Longrightarrow> case run_ops attr_list_op xs a of
      None \<Rightarrow> run_ops attr_maps_op xs (abs_attrs a) = None
    | Some a' \<Rightarrow> wf_attrs a' \<and> run_ops attr_maps_op xs (abs_attrs a) = Some (abs_attrs a')"
proof (induction xs arbitrary: a)
  case Nil
  then show ?case by simp
next
  case (Cons x xs)
  show ?case
  proof (cases "attr_list_op x a")
    case None
    with attr_op_refines [OF Cons.prems, of x] show ?thesis by simp
  next
    case (Some a1)
    with attr_op_refines [OF Cons.prems, of x] have "wf_attrs a1"
      and "attr_maps_op x (abs_attrs a) = Some (abs_attrs a1)" by simp_all
    with Cons.IH [of a1] Some show ?thesis by (simp split: option.splits)
  qed
qed

text \<open>
  C20: The attribute list of an item refines a pair of maps. Every sequence of operations on a new
  attribute list is undefined only where an increment leaves the range of its integer; otherwise no
  string is read as an integer or freed as one, no empty list is dereferenced, the mask agrees with
  the list, and every look-up gives what the maps hold, a default where they hold nothing.
\<close>

theorem item_attributes_refine_maps:
  "case run_ops attr_list_op xs new_attributes_list of
      None \<Rightarrow> run_ops attr_maps_op xs no_attrs = None
    | Some a \<Rightarrow> run_ops attr_maps_op xs no_attrs = Some (abs_attrs a) \<and>
        (\<forall>t. hasAttribute_list a t \<longleftrightarrow> ints (abs_attrs a) t \<noteq> None \<or> strs (abs_attrs a) t \<noteq> None) \<and>
        (\<forall>t. getIntAttr_list a t = Some (case ints (abs_attrs a) t of None \<Rightarrow> 0 | Some n \<Rightarrow> n)) \<and>
        (\<forall>t. getStrAttr_list a t = Some (case strs (abs_attrs a) t of None \<Rightarrow> [] | Some s \<Rightarrow> s))"
proof -
  have "(hasAttribute_list a t \<longleftrightarrow> ints (abs_attrs a) t \<noteq> None \<or> strs (abs_attrs a) t \<noteq> None) \<and>
      getIntAttr_list a t = Some (case ints (abs_attrs a) t of None \<Rightarrow> 0 | Some n \<Rightarrow> n) \<and>
      getStrAttr_list a t = Some (case strs (abs_attrs a) t of None \<Rightarrow> [] | Some s \<Rightarrow> s)"
    if wf: "wf_attrs a" for a t
  proof (cases "look (attributes a) t")
    case None
    with wf have "\<not> hasAttribute_list a t" by (simp add: wf_attrs_def look_None_iff)
    with wf None show ?thesis
      by (simp add: abs_attrs_look getIntAttr_list_def getStrAttr_list_def getExistingAttr_look)
  next
    case (Some v)
    then have "t \<in> set (map attr_type (attributes a))" by (metis look_None_iff option.distinct(1))
    with wf have has: "hasAttribute_list a t" by (simp add: wf_attrs_def)
    then have "isStrAttrType t \<or> isIntAttrType t"
      using isStr_or_isInt by (auto simp: hasAttribute_list_bit)
    with wf Some has look_typed [OF wf Some] isStr_not_isInt [of t] show ?thesis
      by (auto simp: abs_attrs_look getIntAttr_list_def getStrAttr_list_def getExistingAttr_look)
  qed
  with attr_ops_refine [OF wf_new(1), of xs] show ?thesis
    by (auto simp: wf_new(2) split: option.splits)
qed

theorem item_attributes_refine_maps_witness:
  "case run_ops attr_list_op [SetInt ITEM_ATTRIBUTE_CHARGES 3, SetStr ITEM_ATTRIBUTE_TEXT [72], RemoveAttr ITEM_ATTRIBUTE_CHARGES]
      new_attributes_list of
      None \<Rightarrow> run_ops attr_maps_op [SetInt ITEM_ATTRIBUTE_CHARGES 3, SetStr ITEM_ATTRIBUTE_TEXT [72], RemoveAttr ITEM_ATTRIBUTE_CHARGES]
        no_attrs = None
    | Some a \<Rightarrow>
        run_ops attr_maps_op [SetInt ITEM_ATTRIBUTE_CHARGES 3, SetStr ITEM_ATTRIBUTE_TEXT [72], RemoveAttr ITEM_ATTRIBUTE_CHARGES]
          no_attrs = Some (abs_attrs a) \<and>
        (\<forall>t. hasAttribute_list a t \<longleftrightarrow> ints (abs_attrs a) t \<noteq> None \<or> strs (abs_attrs a) t \<noteq> None) \<and>
        (\<forall>t. getIntAttr_list a t = Some (case ints (abs_attrs a) t of None \<Rightarrow> 0 | Some n \<Rightarrow> n)) \<and>
        (\<forall>t. getStrAttr_list a t = Some (case strs (abs_attrs a) t of None \<Rightarrow> [] | Some s \<Rightarrow> s))"
  by (rule item_attributes_refine_maps)

end
