(* ===== verification/Item.thy ===== *)
theory Item
  imports ItemAttributes PropStream
begin

text \<open>
  Items (\<open>item.h\<close>, \<open>item.cpp\<close>): the operations of the class \<open>Item\<close> on its count and attributes, and
  their storage. An item's attributes are the maps that \<open>ItemAttributes\<close> refines, or \<open>None\<close> for the
  null pointer of an item that never had one. The table of item types, loaded from data files, is the
  parameter \<open>items\<close>.
\<close>

section \<open>Data\<close>

record item_type =
  it_fluidContainer :: bool
  it_splash :: bool
  it_stackable :: bool
  it_moveable :: bool
  it_pickupable :: bool
  it_stopTime :: bool
  it_charges :: u32
  it_weight :: u32
  it_decayTime :: u32
  it_decayTo :: u32
  it_maxItems :: u16

type_synonym item_types = "u16 \<Rightarrow> item_type"

record item =
  item_id :: u16
  item_count :: u8
  item_attrs :: "attr_maps option"

section \<open>Attributes\<close>

definition getAttributes :: "item \<Rightarrow> attr_maps" where
  "getAttributes i = (case item_attrs i of None \<Rightarrow> no_attrs | Some a \<Rightarrow> a)"

definition hasAttribute :: "item \<Rightarrow> itemAttrTypes \<Rightarrow> bool" where
  "hasAttribute i t = (case item_attrs i of
     None \<Rightarrow> False
   | Some a \<Rightarrow> ints a t \<noteq> None \<or> strs a t \<noteq> None)"

definition getStrAttr :: "item \<Rightarrow> itemAttrTypes \<Rightarrow> bstring" where
  "getStrAttr i t = (case item_attrs i of
     None \<Rightarrow> []
   | Some a \<Rightarrow> (case strs a t of None \<Rightarrow> [] | Some s \<Rightarrow> s))"

definition setStrAttr :: "itemAttrTypes \<Rightarrow> bstring \<Rightarrow> item \<Rightarrow> item" where
  "setStrAttr t s i =
     (let a = getAttributes i
      in i\<lparr> item_attrs := Some (if isStrAttrType t \<and> s \<noteq> [] then a\<lparr> strs := (strs a)(t \<mapsto> s) \<rparr> else a) \<rparr>)"

text \<open>\<open>int32_t\<close> values, kept in an \<open>int64_t\<close>.\<close>

definition getIntAttr :: "item \<Rightarrow> itemAttrTypes \<Rightarrow> u32" where
  "getIntAttr i t = (case item_attrs i of
     None \<Rightarrow> 0
   | Some a \<Rightarrow> (case ints a t of None \<Rightarrow> 0 | Some n \<Rightarrow> ucast n))"

definition setIntAttr :: "itemAttrTypes \<Rightarrow> u32 \<Rightarrow> item \<Rightarrow> item" where
  "setIntAttr t n i =
     (let a = getAttributes i
      in i\<lparr> item_attrs := Some (if isIntAttrType t then a\<lparr> ints := (ints a)(t \<mapsto> scast n) \<rparr> else a) \<rparr>)"

definition removeAttribute :: "itemAttrTypes \<Rightarrow> item \<Rightarrow> item" where
  "removeAttribute t i = (case item_attrs i of
     None \<Rightarrow> i
   | Some a \<Rightarrow> i\<lparr> item_attrs := Some (a\<lparr> ints := (ints a)(t := None), strs := (strs a)(t := None) \<rparr>) \<rparr>)"

text \<open>The accessors of single attributes.\<close>

definition getText :: "item \<Rightarrow> bstring" where "getText i = getStrAttr i ITEM_ATTRIBUTE_TEXT"
definition setText :: "bstring \<Rightarrow> item \<Rightarrow> item" where "setText = setStrAttr ITEM_ATTRIBUTE_TEXT"
definition getWriter :: "item \<Rightarrow> bstring" where "getWriter i = getStrAttr i ITEM_ATTRIBUTE_WRITER"
definition setWriter :: "bstring \<Rightarrow> item \<Rightarrow> item" where "setWriter = setStrAttr ITEM_ATTRIBUTE_WRITER"

definition getSpecialDescription :: "item \<Rightarrow> bstring" where
  "getSpecialDescription i = getStrAttr i ITEM_ATTRIBUTE_DESCRIPTION"

definition setSpecialDescription :: "bstring \<Rightarrow> item \<Rightarrow> item" where
  "setSpecialDescription = setStrAttr ITEM_ATTRIBUTE_DESCRIPTION"

definition getDate :: "item \<Rightarrow> u64" where "getDate i = scast (getIntAttr i ITEM_ATTRIBUTE_DATE)"
definition setDate :: "u32 \<Rightarrow> item \<Rightarrow> item" where "setDate = setIntAttr ITEM_ATTRIBUTE_DATE"

definition getActionId :: "item \<Rightarrow> u16" where
  "getActionId i = ucast (getIntAttr i ITEM_ATTRIBUTE_ACTIONID)"

definition setActionId :: "u16 \<Rightarrow> item \<Rightarrow> item" where
  "setActionId n = setIntAttr ITEM_ATTRIBUTE_ACTIONID (ucast (if n < 100 then 100 else n))"

definition getCharges :: "item \<Rightarrow> u16" where
  "getCharges i = ucast (getIntAttr i ITEM_ATTRIBUTE_CHARGES)"

definition setCharges :: "u16 \<Rightarrow> item \<Rightarrow> item" where
  "setCharges n = setIntAttr ITEM_ATTRIBUTE_CHARGES (ucast n)"

definition getFluidType :: "item \<Rightarrow> u16" where
  "getFluidType i = ucast (getIntAttr i ITEM_ATTRIBUTE_FLUIDTYPE)"

definition setFluidType :: "u16 \<Rightarrow> item \<Rightarrow> item" where
  "setFluidType n = setIntAttr ITEM_ATTRIBUTE_FLUIDTYPE (ucast n)"

definition getDuration :: "item \<Rightarrow> u32" where "getDuration i = getIntAttr i ITEM_ATTRIBUTE_DURATION"
definition setDuration :: "u32 \<Rightarrow> item \<Rightarrow> item" where "setDuration = setIntAttr ITEM_ATTRIBUTE_DURATION"

definition DECAYING_FALSE :: u8 where "DECAYING_FALSE = 0"
definition DECAYING_TRUE :: u8 where "DECAYING_TRUE = 1"
definition DECAYING_PENDING :: u8 where "DECAYING_PENDING = 2"

definition getDecaying :: "item \<Rightarrow> u8" where
  "getDecaying i = ucast (getIntAttr i ITEM_ATTRIBUTE_DECAYSTATE)"

definition setDecaying :: "u8 \<Rightarrow> item \<Rightarrow> item" where
  "setDecaying s = setIntAttr ITEM_ATTRIBUTE_DECAYSTATE (ucast s)"

definition getCorpseOwner :: "item \<Rightarrow> u32" where
  "getCorpseOwner i = getIntAttr i ITEM_ATTRIBUTE_CORPSEOWNER"

definition isRewardCorpse :: "item \<Rightarrow> bool" where
  "isRewardCorpse i \<longleftrightarrow> getCorpseOwner i = 0x7FFFFFFF"

section \<open>Count, subtype, identity and weight\<close>

definition isStackable :: "item_types \<Rightarrow> item \<Rightarrow> bool" where
  "isStackable items i = it_stackable (items (item_id i))"

definition setItemCount :: "u8 \<Rightarrow> item \<Rightarrow> item" where
  "setItemCount n i = i\<lparr> item_count := n \<rparr>"

definition getItemCount :: "item \<Rightarrow> u16" where
  "getItemCount i = ucast (item_count i)"

definition getSubType :: "item_types \<Rightarrow> item \<Rightarrow> u16" where
  "getSubType items i =
     (let it = items (item_id i)
      in if it_fluidContainer it \<or> it_splash it then getFluidType i
         else if it_stackable it then ucast (item_count i)
         else if it_charges it \<noteq> 0 then getCharges i
         else ucast (item_count i))"

definition setSubType :: "item_types \<Rightarrow> u16 \<Rightarrow> item \<Rightarrow> item" where
  "setSubType items n i =
     (let it = items (item_id i)
      in if it_fluidContainer it \<or> it_splash it then setFluidType n i
         else if it_stackable it then setItemCount (ucast n) i
         else if it_charges it \<noteq> 0 then setCharges n i
         else setItemCount (ucast n) i)"

definition getDefaultDuration :: "item_types \<Rightarrow> item \<Rightarrow> u32" where
  "getDefaultDuration items i = it_decayTime (items (item_id i)) * 1000"

definition setDefaultDuration :: "item_types \<Rightarrow> item \<Rightarrow> item" where
  "setDefaultDuration items i =
     (let duration = getDefaultDuration items i in if duration \<noteq> 0 then setDuration duration i else i)"

text \<open>The constructor \<open>Item(type, count)\<close>.\<close>

definition new_item :: "item_types \<Rightarrow> u16 \<Rightarrow> u16 \<Rightarrow> item" where
  "new_item items type count =
     (let i = \<lparr> item_id = type, item_count = 1, item_attrs = None \<rparr>;
          it = items type;
          i' = (if it_fluidContainer it \<or> it_splash it then setFluidType count i
                else if it_stackable it then
                  (if count \<noteq> 0 then setItemCount (ucast count) i
                   else if it_charges it \<noteq> 0 then setItemCount (ucast (it_charges it)) i
                   else i)
                else if it_charges it \<noteq> 0 then
                  (if count \<noteq> 0 then setCharges count i else setCharges (ucast (it_charges it)) i)
                else i)
      in setDefaultDuration items i')"

definition setDefaultSubtype :: "item_types \<Rightarrow> item \<Rightarrow> item" where
  "setDefaultSubtype items i =
     (let it = items (item_id i); i' = setItemCount 1 i
      in if it_charges it \<noteq> 0 then
           (if it_stackable it then setItemCount (ucast (it_charges it)) i'
            else setCharges (ucast (it_charges it)) i')
         else i')"

definition setID :: "item_types \<Rightarrow> u16 \<Rightarrow> item \<Rightarrow> item" where
  "setID items newid i =
     (let prevIt = items (item_id i);
          i1 = i\<lparr> item_id := newid \<rparr>;
          it = items newid;
          newDuration = it_decayTime it * 1000;
          i2 = (if newDuration = 0 \<and> \<not> it_stopTime it \<and> it_decayTo it <s 0
                then removeAttribute ITEM_ATTRIBUTE_DURATION (removeAttribute ITEM_ATTRIBUTE_DECAYSTATE i1)
                else i1);
          i3 = (if \<not> isRewardCorpse i2 then removeAttribute ITEM_ATTRIBUTE_CORPSEOWNER i2 else i2)
      in if newDuration > 0 \<and> (\<not> it_stopTime prevIt \<or> \<not> hasAttribute i3 ITEM_ATTRIBUTE_DURATION)
         then setDuration newDuration (setDecaying DECAYING_FALSE i3)
         else i3)"

definition getBaseWeight :: "item_types \<Rightarrow> item \<Rightarrow> u32" where
  "getBaseWeight items i =
     (if hasAttribute i ITEM_ATTRIBUTE_WEIGHT then getIntAttr i ITEM_ATTRIBUTE_WEIGHT
      else it_weight (items (item_id i)))"

definition getWeight :: "item_types \<Rightarrow> item \<Rightarrow> u32" where
  "getWeight items i =
     (let weight = getBaseWeight items i
      in if isStackable items i then weight * max 1 (ucast (getItemCount i)) else weight)"

definition countByType :: "item_types \<Rightarrow> item \<Rightarrow> u32 \<Rightarrow> u32" where
  "countByType items i subType =
     (if subType = -1 \<or> subType = ucast (getSubType items i) then ucast (getItemCount i) else 0)"

text \<open>
  \<open>equals\<close>: the masks of the two attribute lists are equal when the maps have the same domains, and
  the loops compare the values type by type.
\<close>

definition equals :: "item \<Rightarrow> item option \<Rightarrow> bool" where
  "equals i other =
     (case other of
        None \<Rightarrow> False
      | Some j \<Rightarrow>
          item_id i = item_id j \<and>
          (case (item_attrs i, item_attrs j) of
             (None, None) \<Rightarrow> True
           | (Some a, Some b) \<Rightarrow>
               dom (ints a) = dom (ints b) \<and> dom (strs a) = dom (strs b) \<and>
               (\<forall>t\<in>dom (ints a). ints a t = ints b t) \<and> (\<forall>t\<in>dom (strs a). strs a t = strs b t)
           | _ \<Rightarrow> False))"

section \<open>Storage\<close>

abbreviation ATTR_ACTION_ID :: u8 where "ATTR_ACTION_ID \<equiv> 4"
abbreviation ATTR_UNIQUE_ID :: u8 where "ATTR_UNIQUE_ID \<equiv> 5"
abbreviation ATTR_TEXT :: u8 where "ATTR_TEXT \<equiv> 6"
abbreviation ATTR_DESC :: u8 where "ATTR_DESC \<equiv> 7"
abbreviation ATTR_TELE_DEST :: u8 where "ATTR_TELE_DEST \<equiv> 8"
abbreviation ATTR_DEPOT_ID :: u8 where "ATTR_DEPOT_ID \<equiv> 10"
abbreviation ATTR_RUNE_CHARGES :: u8 where "ATTR_RUNE_CHARGES \<equiv> 12"
abbreviation ATTR_HOUSEDOORID :: u8 where "ATTR_HOUSEDOORID \<equiv> 14"
abbreviation ATTR_COUNT :: u8 where "ATTR_COUNT \<equiv> 15"
abbreviation ATTR_DURATION :: u8 where "ATTR_DURATION \<equiv> 16"
abbreviation ATTR_DECAYING_STATE :: u8 where "ATTR_DECAYING_STATE \<equiv> 17"
abbreviation ATTR_WRITTENDATE :: u8 where "ATTR_WRITTENDATE \<equiv> 18"
abbreviation ATTR_WRITTENBY :: u8 where "ATTR_WRITTENBY \<equiv> 19"
abbreviation ATTR_SLEEPERGUID :: u8 where "ATTR_SLEEPERGUID \<equiv> 20"
abbreviation ATTR_SLEEPSTART :: u8 where "ATTR_SLEEPSTART \<equiv> 21"
abbreviation ATTR_CHARGES :: u8 where "ATTR_CHARGES \<equiv> 22"
abbreviation ATTR_CONTAINER_ITEMS :: u8 where "ATTR_CONTAINER_ITEMS \<equiv> 23"
abbreviation ATTR_NAME :: u8 where "ATTR_NAME \<equiv> 24"
abbreviation ATTR_ARTICLE :: u8 where "ATTR_ARTICLE \<equiv> 25"
abbreviation ATTR_PLURALNAME :: u8 where "ATTR_PLURALNAME \<equiv> 26"
abbreviation ATTR_WEIGHT :: u8 where "ATTR_WEIGHT \<equiv> 27"
abbreviation ATTR_ATTACK :: u8 where "ATTR_ATTACK \<equiv> 28"
abbreviation ATTR_DEFENSE :: u8 where "ATTR_DEFENSE \<equiv> 29"
abbreviation ATTR_EXTRADEFENSE :: u8 where "ATTR_EXTRADEFENSE \<equiv> 30"
abbreviation ATTR_ARMOR :: u8 where "ATTR_ARMOR \<equiv> 31"
abbreviation ATTR_HITCHANCE :: u8 where "ATTR_HITCHANCE \<equiv> 32"
abbreviation ATTR_SHOOTRANGE :: u8 where "ATTR_SHOOTRANGE \<equiv> 33"

datatype Attr_ReadValue = ATTR_READ_CONTINUE | ATTR_READ_ERROR | ATTR_READ_END

text \<open>
  The unique ids in use (\<open>Game::uniqueItems\<close>) are a set; \<open>setUniqueId\<close> enters the id of the item
  unless it is taken. A read that fails leaves item and stream as they were; nothing reads on then.
\<close>

definition addUniqueItem :: "u16 \<Rightarrow> u16 set \<Rightarrow> bool \<times> u16 set" where
  "addUniqueItem n u = (n \<notin> u, insert n u)"

definition setUniqueId :: "u16 \<Rightarrow> u16 set \<Rightarrow> item \<Rightarrow> u16 set \<times> item" where
  "setUniqueId n u i =
     (if hasAttribute i ITEM_ATTRIBUTE_UNIQUEID then (u, i)
      else (case addUniqueItem n u of (added, u') \<Rightarrow>
              (u', if added then setIntAttr ITEM_ATTRIBUTE_UNIQUEID (ucast n) i else i)))"

type_synonym read_state = "Attr_ReadValue \<times> u16 set \<times> item \<times> prop_stream"

definition read_value ::
  "('v \<times> prop_stream) option \<Rightarrow> ('v \<Rightarrow> item \<Rightarrow> item) \<Rightarrow> u16 set \<Rightarrow> item \<Rightarrow> prop_stream \<Rightarrow> read_state" where
  "read_value r f u i s =
     (case r of
        None \<Rightarrow> (ATTR_READ_ERROR, u, i, s)
      | Some (v, s') \<Rightarrow> (ATTR_READ_CONTINUE, u, f v i, s'))"

definition skip_value :: "nat \<Rightarrow> u16 set \<Rightarrow> item \<Rightarrow> prop_stream \<Rightarrow> read_state" where
  "skip_value n u i s =
     (case ps_skip n s of
        None \<Rightarrow> (ATTR_READ_ERROR, u, i, s)
      | Some s' \<Rightarrow> (ATTR_READ_CONTINUE, u, i, s'))"

definition readAttr :: "item_types \<Rightarrow> u8 \<Rightarrow> u16 set \<Rightarrow> item \<Rightarrow> prop_stream \<Rightarrow> read_state" where
  "readAttr items attr u i s =
     (if attr = ATTR_COUNT \<or> attr = ATTR_RUNE_CHARGES then
        read_value (ps_read s) (\<lambda>count :: u8. setSubType items (ucast count)) u i s
      else if attr = ATTR_ACTION_ID then read_value (ps_read s) setActionId u i s
      else if attr = ATTR_UNIQUE_ID then
        (case ps_read s of
           None \<Rightarrow> (ATTR_READ_ERROR, u, i, s)
         | Some (uniqueId, s') \<Rightarrow>
             (case setUniqueId uniqueId u i of (u', i') \<Rightarrow> (ATTR_READ_CONTINUE, u', i', s')))
      else if attr = ATTR_TEXT then read_value (ps_readString s) setText u i s
      else if attr = ATTR_WRITTENDATE then read_value (ps_read s) setDate u i s
      else if attr = ATTR_WRITTENBY then read_value (ps_readString s) setWriter u i s
      else if attr = ATTR_DESC then read_value (ps_readString s) setSpecialDescription u i s
      else if attr = ATTR_CHARGES then read_value (ps_read s) (setSubType items) u i s
      else if attr = ATTR_DURATION then
        read_value (ps_read s) (\<lambda>duration. setDuration (if duration <s 0 then 0 else duration)) u i s
      else if attr = ATTR_DECAYING_STATE then
        read_value (ps_read s) (\<lambda>state. if state \<noteq> DECAYING_FALSE then setDecaying DECAYING_PENDING else id) u i s
      else if attr = ATTR_NAME then read_value (ps_readString s) (setStrAttr ITEM_ATTRIBUTE_NAME) u i s
      else if attr = ATTR_ARTICLE then read_value (ps_readString s) (setStrAttr ITEM_ATTRIBUTE_ARTICLE) u i s
      else if attr = ATTR_PLURALNAME then
        read_value (ps_readString s) (setStrAttr ITEM_ATTRIBUTE_PLURALNAME) u i s
      else if attr = ATTR_WEIGHT then read_value (ps_read s) (setIntAttr ITEM_ATTRIBUTE_WEIGHT) u i s
      else if attr = ATTR_ATTACK then read_value (ps_read s) (setIntAttr ITEM_ATTRIBUTE_ATTACK) u i s
      else if attr = ATTR_DEFENSE then read_value (ps_read s) (setIntAttr ITEM_ATTRIBUTE_DEFENSE) u i s
      else if attr = ATTR_EXTRADEFENSE then
        read_value (ps_read s) (setIntAttr ITEM_ATTRIBUTE_EXTRADEFENSE) u i s
      else if attr = ATTR_ARMOR then read_value (ps_read s) (setIntAttr ITEM_ATTRIBUTE_ARMOR) u i s
      else if attr = ATTR_HITCHANCE then
        read_value (ps_read s) (\<lambda>hitChance :: u8. setIntAttr ITEM_ATTRIBUTE_HITCHANCE (scast hitChance)) u i s
      else if attr = ATTR_SHOOTRANGE then
        read_value (ps_read s) (\<lambda>shootRange :: u8. setIntAttr ITEM_ATTRIBUTE_SHOOTRANGE (ucast shootRange)) u i s
      else if attr = ATTR_DEPOT_ID then skip_value 2 u i s
      else if attr = ATTR_HOUSEDOORID then skip_value 1 u i s
      else if attr = ATTR_SLEEPERGUID then skip_value 4 u i s
      else if attr = ATTR_SLEEPSTART then skip_value 4 u i s
      else if attr = ATTR_TELE_DEST then skip_value 5 u i s
      else if attr = ATTR_CONTAINER_ITEMS then (ATTR_READ_ERROR, u, i, s)
      else (ATTR_READ_ERROR, u, i, s))"

lemma read_value_shorter:
  "read_value r f u i s = (ret, u', i', s') \<Longrightarrow> (\<And>v s1. r = Some (v, s1) \<Longrightarrow> length s1 \<le> length s) \<Longrightarrow>
     length s' \<le> length s"
  by (auto simp: read_value_def split: option.splits)

lemma readAttr_shorter:
  assumes "readAttr items attr u i s = (ret, u', i', s')"
  shows "length s' \<le> length s"
  using assms
  by (auto simp: readAttr_def skip_value_def split: if_splits option.splits prod.splits
      dest: ps_read_shorter ps_skip_shorter
      elim!: read_value_shorter intro: ps_read_shorter ps_readString_shorter)

function unserializeAttr :: "item_types \<Rightarrow> u16 set \<Rightarrow> item \<Rightarrow> prop_stream \<Rightarrow>
    bool \<times> u16 set \<times> item \<times> prop_stream" where
  "unserializeAttr items u i s =
     (case ps_read s :: (u8 \<times> prop_stream) option of
        None \<Rightarrow> (True, u, i, s)
      | Some (tag, s1) \<Rightarrow>
          if tag = 0 then (True, u, i, s1)
          else (case readAttr items tag u i s1 of
                  (ret, u', i', s') \<Rightarrow>
                    if ret = ATTR_READ_ERROR then (False, u', i', s')
                    else if ret = ATTR_READ_END then (True, u', i', s')
                    else unserializeAttr items u' i' s'))"
  by pat_completeness auto
termination
proof (relation "measure (\<lambda>(items, u, i, s). length s)", goal_cases)
  case (2 items u i s p tag s1 ret q u' r i' s')
  then have "ps_read s = Some (tag, s1)" and "readAttr items tag u i s1 = (ret, u', i', s')" by simp_all
  then have "length s1 < length s" and "length s' \<le> length s1"
    using ps_read_u8_shorter readAttr_shorter by blast+
  then show ?case by simp
qed simp

declare unserializeAttr.simps [simp del]

text \<open>\<open>serializeAttr\<close>: each attribute is its tag and its value.\<close>

definition put_attr_if :: "bool \<Rightarrow> u8 \<Rightarrow> (byte list \<Rightarrow> byte list) \<Rightarrow> byte list \<Rightarrow> byte list" where
  "put_attr_if c tag payload s = (if c then payload (ps_write tag s) else s)"

definition serializeAttr :: "item_types \<Rightarrow> item \<Rightarrow> byte list \<Rightarrow> byte list" where
  "serializeAttr items i s =
     (let it = items (item_id i);
          s = put_attr_if (it_stackable it \<or> it_fluidContainer it \<or> it_splash it) ATTR_COUNT
                (ps_write (ucast (getSubType items i) :: u8)) s;
          charges = getCharges i;
          s = put_attr_if (charges \<noteq> 0) ATTR_CHARGES (ps_write charges) s;
          actionId = getActionId i;
          s = put_attr_if (it_moveable it \<and> actionId \<noteq> 0) ATTR_ACTION_ID (ps_write actionId) s;
          text = getText i;
          s = put_attr_if (text \<noteq> []) ATTR_TEXT (ps_writeString text) s;
          writtenDate = getDate i;
          s = put_attr_if (writtenDate \<noteq> 0) ATTR_WRITTENDATE (ps_write (ucast writtenDate :: u32)) s;
          writer = getWriter i;
          s = put_attr_if (writer \<noteq> []) ATTR_WRITTENBY (ps_writeString writer) s;
          specialDesc = getSpecialDescription i;
          s = put_attr_if (specialDesc \<noteq> []) ATTR_DESC (ps_writeString specialDesc) s;
          s = put_attr_if (hasAttribute i ITEM_ATTRIBUTE_DURATION) ATTR_DURATION
                (ps_write (getIntAttr i ITEM_ATTRIBUTE_DURATION)) s;
          decayState = getDecaying i;
          s = put_attr_if (decayState = DECAYING_TRUE \<or> decayState = DECAYING_PENDING) ATTR_DECAYING_STATE
                (ps_write decayState) s;
          s = put_attr_if (hasAttribute i ITEM_ATTRIBUTE_NAME) ATTR_NAME
                (ps_writeString (getStrAttr i ITEM_ATTRIBUTE_NAME)) s;
          s = put_attr_if (hasAttribute i ITEM_ATTRIBUTE_ARTICLE) ATTR_ARTICLE
                (ps_writeString (getStrAttr i ITEM_ATTRIBUTE_ARTICLE)) s;
          s = put_attr_if (hasAttribute i ITEM_ATTRIBUTE_PLURALNAME) ATTR_PLURALNAME
                (ps_writeString (getStrAttr i ITEM_ATTRIBUTE_PLURALNAME)) s;
          s = put_attr_if (hasAttribute i ITEM_ATTRIBUTE_WEIGHT) ATTR_WEIGHT
                (ps_write (getIntAttr i ITEM_ATTRIBUTE_WEIGHT)) s;
          s = put_attr_if (hasAttribute i ITEM_ATTRIBUTE_ATTACK) ATTR_ATTACK
                (ps_write (getIntAttr i ITEM_ATTRIBUTE_ATTACK)) s;
          s = put_attr_if (hasAttribute i ITEM_ATTRIBUTE_DEFENSE) ATTR_DEFENSE
                (ps_write (getIntAttr i ITEM_ATTRIBUTE_DEFENSE)) s;
          s = put_attr_if (hasAttribute i ITEM_ATTRIBUTE_EXTRADEFENSE) ATTR_EXTRADEFENSE
                (ps_write (getIntAttr i ITEM_ATTRIBUTE_EXTRADEFENSE)) s;
          s = put_attr_if (hasAttribute i ITEM_ATTRIBUTE_ARMOR) ATTR_ARMOR
                (ps_write (getIntAttr i ITEM_ATTRIBUTE_ARMOR)) s;
          s = put_attr_if (hasAttribute i ITEM_ATTRIBUTE_HITCHANCE) ATTR_HITCHANCE
                (ps_write (ucast (getIntAttr i ITEM_ATTRIBUTE_HITCHANCE) :: u8)) s;
          s = put_attr_if (hasAttribute i ITEM_ATTRIBUTE_SHOOTRANGE) ATTR_SHOOTRANGE
                (ps_write (ucast (getIntAttr i ITEM_ATTRIBUTE_SHOOTRANGE) :: u8)) s
      in s)"

section \<open>Reading back what was written\<close>

definition chunk :: "bool \<Rightarrow> u8 \<Rightarrow> (byte list \<Rightarrow> byte list) \<Rightarrow> byte list" where
  "chunk c tag payload = put_attr_if c tag payload []"

lemma put_chunk:
  "put_attr_if c tag (ps_write (w8 :: u8)) s = s @ chunk c tag (ps_write w8)"
  "put_attr_if c tag (ps_write (w16 :: u16)) s = s @ chunk c tag (ps_write w16)"
  "put_attr_if c tag (ps_write (w32 :: u32)) s = s @ chunk c tag (ps_write w32)"
  "put_attr_if c tag (ps_writeString str) s = s @ chunk c tag (ps_writeString str)"
  by (simp_all add: chunk_def put_attr_if_def ps_write_def ps_writeString_def del: le_bytes.simps)

lemma chunk_append:
  "c \<Longrightarrow> chunk c tag (ps_write (w8 :: u8)) @ r = tag # ps_write w8 [] @ r"
  "c \<Longrightarrow> chunk c tag (ps_write (w16 :: u16)) @ r = tag # ps_write w16 [] @ r"
  "c \<Longrightarrow> chunk c tag (ps_write (w32 :: u32)) @ r = tag # ps_write w32 [] @ r"
  "c \<Longrightarrow> chunk c tag (ps_writeString str) @ r = tag # ps_writeString str [] @ r"
  by (simp_all add: chunk_def put_attr_if_def ps_write_def ps_writeString_def)

lemma chunk_none: "\<not> c \<Longrightarrow> chunk c tag payload @ r = r"
  by (simp add: chunk_def put_attr_if_def)

lemma unserializeAttr_tag:
  assumes "readAttr items tag u i s = (ATTR_READ_CONTINUE, u, j, r)" and "tag \<noteq> 0"
  shows "unserializeAttr items u i (tag # s) = unserializeAttr items u j r"
  by (subst unserializeAttr.simps) (simp add: ps_read_le_bytes assms)

lemmas codecs = stream_u8.rd_wr [OF TrueI] stream_u16.rd_wr [OF TrueI] stream_u32.rd_wr [OF TrueI]
  stream_string.rd_wr

text \<open>A chunk of a tag in front of the rest of the stream.\<close>

lemma unserializeAttr_chunk:
  "unserializeAttr items u i (chunk c ATTR_COUNT (ps_write (n8 :: u8)) @ r) =
     unserializeAttr items u (if c then setSubType items (ucast n8) i else i) r"
  "unserializeAttr items u i (chunk c ATTR_CHARGES (ps_write n16) @ r) =
     unserializeAttr items u (if c then setSubType items n16 i else i) r"
  "unserializeAttr items u i (chunk c ATTR_ACTION_ID (ps_write n16) @ r) =
     unserializeAttr items u (if c then setActionId n16 i else i) r"
  "unserializeAttr items u i (chunk c ATTR_WRITTENDATE (ps_write n32) @ r) =
     unserializeAttr items u (if c then setDate n32 i else i) r"
  "unserializeAttr items u i (chunk c ATTR_DURATION (ps_write n32) @ r) =
     unserializeAttr items u (if c then setDuration (if n32 <s 0 then 0 else n32) i else i) r"
  "unserializeAttr items u i (chunk c ATTR_DECAYING_STATE (ps_write n8) @ r) =
     unserializeAttr items u (if c \<and> n8 \<noteq> DECAYING_FALSE then setDecaying DECAYING_PENDING i else i) r"
  "unserializeAttr items u i (chunk c ATTR_WEIGHT (ps_write n32) @ r) =
     unserializeAttr items u (if c then setIntAttr ITEM_ATTRIBUTE_WEIGHT n32 i else i) r"
  "unserializeAttr items u i (chunk c ATTR_ATTACK (ps_write n32) @ r) =
     unserializeAttr items u (if c then setIntAttr ITEM_ATTRIBUTE_ATTACK n32 i else i) r"
  "unserializeAttr items u i (chunk c ATTR_DEFENSE (ps_write n32) @ r) =
     unserializeAttr items u (if c then setIntAttr ITEM_ATTRIBUTE_DEFENSE n32 i else i) r"
  "unserializeAttr items u i (chunk c ATTR_EXTRADEFENSE (ps_write n32) @ r) =
     unserializeAttr items u (if c then setIntAttr ITEM_ATTRIBUTE_EXTRADEFENSE n32 i else i) r"
  "unserializeAttr items u i (chunk c ATTR_ARMOR (ps_write n32) @ r) =
     unserializeAttr items u (if c then setIntAttr ITEM_ATTRIBUTE_ARMOR n32 i else i) r"
  "unserializeAttr items u i (chunk c ATTR_HITCHANCE (ps_write n8) @ r) =
     unserializeAttr items u (if c then setIntAttr ITEM_ATTRIBUTE_HITCHANCE (scast n8) i else i) r"
  "unserializeAttr items u i (chunk c ATTR_SHOOTRANGE (ps_write n8) @ r) =
     unserializeAttr items u (if c then setIntAttr ITEM_ATTRIBUTE_SHOOTRANGE (ucast n8) i else i) r"
  by (cases c; simp add: chunk_append chunk_none split del: if_split; subst unserializeAttr_tag;
      simp add: readAttr_def read_value_def codecs)+

lemma unserializeAttr_chunk_string:
  assumes "length str \<le> 65535"
  shows "unserializeAttr items u i (chunk c ATTR_TEXT (ps_writeString str) @ r) =
     unserializeAttr items u (if c then setText str i else i) r"
  and "unserializeAttr items u i (chunk c ATTR_WRITTENBY (ps_writeString str) @ r) =
     unserializeAttr items u (if c then setWriter str i else i) r"
  and "unserializeAttr items u i (chunk c ATTR_DESC (ps_writeString str) @ r) =
     unserializeAttr items u (if c then setSpecialDescription str i else i) r"
  and "unserializeAttr items u i (chunk c ATTR_NAME (ps_writeString str) @ r) =
     unserializeAttr items u (if c then setStrAttr ITEM_ATTRIBUTE_NAME str i else i) r"
  and "unserializeAttr items u i (chunk c ATTR_ARTICLE (ps_writeString str) @ r) =
     unserializeAttr items u (if c then setStrAttr ITEM_ATTRIBUTE_ARTICLE str i else i) r"
  and "unserializeAttr items u i (chunk c ATTR_PLURALNAME (ps_writeString str) @ r) =
     unserializeAttr items u (if c then setStrAttr ITEM_ATTRIBUTE_PLURALNAME str i else i) r"
  using assms
  by (cases c; simp add: chunk_append chunk_none split del: if_split; subst unserializeAttr_tag;
      simp add: readAttr_def read_value_def codecs)+

lemma unserializeAttr_end: "unserializeAttr items u i [] = (True, u, i, [])"
  by (subst unserializeAttr.simps) (simp add: ps_read_def)

text \<open>The effect of reading back what \<open>serializeAttr\<close> wrote: the steps in the order written.\<close>

fun apply_steps :: "(bool \<times> (item \<Rightarrow> item)) list \<Rightarrow> item \<Rightarrow> item" where
  "apply_steps [] j = j"
| "apply_steps ((c, f) # steps) j = apply_steps steps (if c then f j else j)"

definition reload_steps :: "item_types \<Rightarrow> item \<Rightarrow> (bool \<times> (item \<Rightarrow> item)) list" where
  "reload_steps items i =
     (let it = items (item_id i); str = getStrAttr i; int = getIntAttr i; has = hasAttribute i
      in [(it_stackable it \<or> it_fluidContainer it \<or> it_splash it,
             setSubType items (ucast (ucast (getSubType items i) :: u8))),
          (getCharges i \<noteq> 0, setSubType items (getCharges i)),
          (it_moveable it \<and> getActionId i \<noteq> 0, setActionId (getActionId i)),
          (getText i \<noteq> [], setText (getText i)),
          (getDate i \<noteq> 0, setDate (ucast (getDate i))),
          (getWriter i \<noteq> [], setWriter (getWriter i)),
          (getSpecialDescription i \<noteq> [], setSpecialDescription (getSpecialDescription i)),
          (has ITEM_ATTRIBUTE_DURATION,
             setDuration (if int ITEM_ATTRIBUTE_DURATION <s 0 then 0 else int ITEM_ATTRIBUTE_DURATION)),
          ((getDecaying i = DECAYING_TRUE \<or> getDecaying i = DECAYING_PENDING) \<and> getDecaying i \<noteq> DECAYING_FALSE,
             setDecaying DECAYING_PENDING),
          (has ITEM_ATTRIBUTE_NAME, setStrAttr ITEM_ATTRIBUTE_NAME (str ITEM_ATTRIBUTE_NAME)),
          (has ITEM_ATTRIBUTE_ARTICLE, setStrAttr ITEM_ATTRIBUTE_ARTICLE (str ITEM_ATTRIBUTE_ARTICLE)),
          (has ITEM_ATTRIBUTE_PLURALNAME, setStrAttr ITEM_ATTRIBUTE_PLURALNAME (str ITEM_ATTRIBUTE_PLURALNAME)),
          (has ITEM_ATTRIBUTE_WEIGHT, setIntAttr ITEM_ATTRIBUTE_WEIGHT (int ITEM_ATTRIBUTE_WEIGHT)),
          (has ITEM_ATTRIBUTE_ATTACK, setIntAttr ITEM_ATTRIBUTE_ATTACK (int ITEM_ATTRIBUTE_ATTACK)),
          (has ITEM_ATTRIBUTE_DEFENSE, setIntAttr ITEM_ATTRIBUTE_DEFENSE (int ITEM_ATTRIBUTE_DEFENSE)),
          (has ITEM_ATTRIBUTE_EXTRADEFENSE,
             setIntAttr ITEM_ATTRIBUTE_EXTRADEFENSE (int ITEM_ATTRIBUTE_EXTRADEFENSE)),
          (has ITEM_ATTRIBUTE_ARMOR, setIntAttr ITEM_ATTRIBUTE_ARMOR (int ITEM_ATTRIBUTE_ARMOR)),
          (has ITEM_ATTRIBUTE_HITCHANCE,
             setIntAttr ITEM_ATTRIBUTE_HITCHANCE (scast (ucast (int ITEM_ATTRIBUTE_HITCHANCE) :: u8))),
          (has ITEM_ATTRIBUTE_SHOOTRANGE,
             setIntAttr ITEM_ATTRIBUTE_SHOOTRANGE (ucast (ucast (int ITEM_ATTRIBUTE_SHOOTRANGE) :: u8)))])"

lemma unserialize_serialize:
  assumes "\<forall>t. length (getStrAttr i t) \<le> 65535"
  shows "unserializeAttr items u i0 (serializeAttr items i [] @ r) =
    unserializeAttr items u (apply_steps (reload_steps items i) i0) r"
proof -
  have strs: "length (getText i) \<le> 65535" "length (getWriter i) \<le> 65535"
    "length (getSpecialDescription i) \<le> 65535"
    using assms by (simp_all add: getText_def getWriter_def getSpecialDescription_def)
  note chunks = unserializeAttr_chunk
    unserializeAttr_chunk_string [OF strs(1)] unserializeAttr_chunk_string [OF strs(2)]
    unserializeAttr_chunk_string [OF strs(3)]
    unserializeAttr_chunk_string [OF assms [rule_format, of ITEM_ATTRIBUTE_NAME]]
    unserializeAttr_chunk_string [OF assms [rule_format, of ITEM_ATTRIBUTE_ARTICLE]]
    unserializeAttr_chunk_string [OF assms [rule_format, of ITEM_ATTRIBUTE_PLURALNAME]]
  show ?thesis
    by (simp only: serializeAttr_def Let_def put_chunk append_assoc append_Nil chunks reload_steps_def
        apply_steps.simps)
qed

section \<open>Look-ups after updates\<close>

lemma ucast_scast_64: "ucast (scast (n :: u32) :: u64) = (n :: u32)"
  by (rule bit_word_eqI) (auto simp: bit_simps)

lemma getIntAttr_updates [simp]:
  "getIntAttr (setIntAttr t n i) t' = (if t' = t \<and> isIntAttrType t then n else getIntAttr i t')"
  "getIntAttr (setStrAttr t s i) t' = getIntAttr i t'"
  "getIntAttr (setItemCount c i) t' = getIntAttr i t'"
  "getIntAttr (if b then i1 else i2) t' = (if b then getIntAttr i1 t' else getIntAttr i2 t')"
  by (auto simp: getIntAttr_def setIntAttr_def setStrAttr_def setItemCount_def getAttributes_def
      no_attrs_def Let_def ucast_scast_64 split: option.split)

lemma getStrAttr_updates [simp]:
  "getStrAttr (setStrAttr t s i) t' = (if t' = t \<and> isStrAttrType t \<and> s \<noteq> [] then s else getStrAttr i t')"
  "getStrAttr (setIntAttr t n i) t' = getStrAttr i t'"
  "getStrAttr (setItemCount c i) t' = getStrAttr i t'"
  "getStrAttr (if b then i1 else i2) t' = (if b then getStrAttr i1 t' else getStrAttr i2 t')"
  by (auto simp: getStrAttr_def setIntAttr_def setStrAttr_def setItemCount_def getAttributes_def
      no_attrs_def Let_def split: option.split)

lemma hasAttribute_updates [simp]:
  "hasAttribute (setStrAttr t s i) t' \<longleftrightarrow> (t' = t \<and> isStrAttrType t \<and> s \<noteq> []) \<or> hasAttribute i t'"
  "hasAttribute (setIntAttr t n i) t' \<longleftrightarrow> (t' = t \<and> isIntAttrType t) \<or> hasAttribute i t'"
  "hasAttribute (setItemCount c i) t' = hasAttribute i t'"
  "hasAttribute (if b then i1 else i2) t' = (if b then hasAttribute i1 t' else hasAttribute i2 t')"
  by (auto simp: hasAttribute_def setIntAttr_def setStrAttr_def setItemCount_def getAttributes_def
      no_attrs_def Let_def split: option.split)

lemma item_updates [simp]:
  "item_id (setStrAttr t s i) = item_id i" "item_id (setIntAttr t n i) = item_id i"
  "item_id (setItemCount c i) = item_id i"
  "item_id (if b then i1 else i2) = (if b then item_id i1 else item_id i2)"
  "item_count (setStrAttr t s i) = item_count i" "item_count (setIntAttr t n i) = item_count i"
  "item_count (setItemCount c i) = c"
  "item_count (if b then i1 else i2) = (if b then item_count i1 else item_count i2)"
  by (simp_all add: setStrAttr_def setIntAttr_def setItemCount_def Let_def)

lemma attr_type_kinds [simp]:
  "isStrAttrType ITEM_ATTRIBUTE_NAME" "isStrAttrType ITEM_ATTRIBUTE_ARTICLE"
  "isStrAttrType ITEM_ATTRIBUTE_PLURALNAME" "isStrAttrType ITEM_ATTRIBUTE_TEXT"
  "isStrAttrType ITEM_ATTRIBUTE_WRITER" "isStrAttrType ITEM_ATTRIBUTE_DESCRIPTION"
  "isIntAttrType ITEM_ATTRIBUTE_ACTIONID" "isIntAttrType ITEM_ATTRIBUTE_UNIQUEID"
  "isIntAttrType ITEM_ATTRIBUTE_DATE" "isIntAttrType ITEM_ATTRIBUTE_WEIGHT"
  "isIntAttrType ITEM_ATTRIBUTE_ATTACK" "isIntAttrType ITEM_ATTRIBUTE_DEFENSE"
  "isIntAttrType ITEM_ATTRIBUTE_EXTRADEFENSE" "isIntAttrType ITEM_ATTRIBUTE_ARMOR"
  "isIntAttrType ITEM_ATTRIBUTE_HITCHANCE" "isIntAttrType ITEM_ATTRIBUTE_SHOOTRANGE"
  "isIntAttrType ITEM_ATTRIBUTE_DURATION" "isIntAttrType ITEM_ATTRIBUTE_DECAYSTATE"
  "isIntAttrType ITEM_ATTRIBUTE_CORPSEOWNER" "isIntAttrType ITEM_ATTRIBUTE_CHARGES"
  "isIntAttrType ITEM_ATTRIBUTE_FLUIDTYPE"
  by (simp_all add: isStrAttrType_def isIntAttrType_def)

lemmas item_setters = setText_def setWriter_def setSpecialDescription_def setDate_def setActionId_def
  setCharges_def setFluidType_def setDuration_def setDecaying_def

lemmas item_getters = getText_def getWriter_def getSpecialDescription_def getDate_def getActionId_def
  getCharges_def getFluidType_def getDuration_def getDecaying_def

lemma setSubType_other [simp]:
  "t \<noteq> ITEM_ATTRIBUTE_FLUIDTYPE \<Longrightarrow> t \<noteq> ITEM_ATTRIBUTE_CHARGES \<Longrightarrow>
     getIntAttr (setSubType items n i) t = getIntAttr i t"
  "getStrAttr (setSubType items n i) t = getStrAttr i t"
  "t \<noteq> ITEM_ATTRIBUTE_FLUIDTYPE \<Longrightarrow> t \<noteq> ITEM_ATTRIBUTE_CHARGES \<Longrightarrow>
     hasAttribute (setSubType items n i) t = hasAttribute i t"
  "item_id (setSubType items n i) = item_id i"
  by (simp_all add: setSubType_def Let_def setFluidType_def setCharges_def)

lemma new_item_other [simp]:
  "t \<noteq> ITEM_ATTRIBUTE_FLUIDTYPE \<Longrightarrow> t \<noteq> ITEM_ATTRIBUTE_CHARGES \<Longrightarrow> t \<noteq> ITEM_ATTRIBUTE_DURATION \<Longrightarrow>
     getIntAttr (new_item items n c) t = 0"
  "getStrAttr (new_item items n c) t = []"
  "t \<noteq> ITEM_ATTRIBUTE_FLUIDTYPE \<Longrightarrow> t \<noteq> ITEM_ATTRIBUTE_CHARGES \<Longrightarrow> t \<noteq> ITEM_ATTRIBUTE_DURATION \<Longrightarrow>
     \<not> hasAttribute (new_item items n c) t"
  "item_id (new_item items n c) = n"
proof -
  let ?i = "\<lparr> item_id = n, item_count = 1, item_attrs = None \<rparr>"
  have i: "getIntAttr ?i t = 0" "getStrAttr ?i t = []" "\<not> hasAttribute ?i t" for t
    by (simp_all add: getIntAttr_def getStrAttr_def hasAttribute_def)
  show "t \<noteq> ITEM_ATTRIBUTE_FLUIDTYPE \<Longrightarrow> t \<noteq> ITEM_ATTRIBUTE_CHARGES \<Longrightarrow> t \<noteq> ITEM_ATTRIBUTE_DURATION \<Longrightarrow>
      getIntAttr (new_item items n c) t = 0"
    "getStrAttr (new_item items n c) t = []"
    "t \<noteq> ITEM_ATTRIBUTE_FLUIDTYPE \<Longrightarrow> t \<noteq> ITEM_ATTRIBUTE_CHARGES \<Longrightarrow> t \<noteq> ITEM_ATTRIBUTE_DURATION \<Longrightarrow>
      \<not> hasAttribute (new_item items n c) t"
    "item_id (new_item items n c) = n"
    by (simp_all add: new_item_def setDefaultDuration_def Let_def item_setters i)
qed

lemma hasAttribute_absent:
  "isIntAttrType t \<Longrightarrow> \<not> hasAttribute i t \<Longrightarrow> getIntAttr i t = 0"
  "\<not> hasAttribute i t \<Longrightarrow> getStrAttr i t = []"
  by (auto simp: hasAttribute_def getIntAttr_def getStrAttr_def split: option.splits)

text \<open>
  What storage can represent: strings of at most 65535 bytes and never empty once set; charges only
  on an item whose subtype they are; an action id as \<open>setActionId\<close> makes it; no negative duration;
  a fluid type, hit chance and range that fit the bytes they are stored in.
\<close>

definition storable :: "item_types \<Rightarrow> item \<Rightarrow> bool" where
  "storable items i \<longleftrightarrow>
     (\<forall>t. length (getStrAttr i t) \<le> 65535) \<and>
     (\<forall>t. isStrAttrType t \<longrightarrow> hasAttribute i t \<longrightarrow> getStrAttr i t \<noteq> []) \<and>
     (getCharges i \<noteq> 0 \<longrightarrow>
        (let it = items (item_id i)
         in \<not> it_fluidContainer it \<and> \<not> it_splash it \<and> \<not> it_stackable it \<and> it_charges it \<noteq> 0)) \<and>
     (getActionId i = 0 \<or> 100 \<le> getActionId i) \<and>
     \<not> getIntAttr i ITEM_ATTRIBUTE_DURATION <s 0 \<and>
     ucast (ucast (getFluidType i) :: u8) = getFluidType i \<and>
     scast (ucast (getIntAttr i ITEM_ATTRIBUTE_HITCHANCE) :: u8) = getIntAttr i ITEM_ATTRIBUTE_HITCHANCE \<and>
     ucast (ucast (getIntAttr i ITEM_ATTRIBUTE_SHOOTRANGE) :: u8) = getIntAttr i ITEM_ATTRIBUTE_SHOOTRANGE"

text \<open>The attributes that are stored under a tag of their own.\<close>

definition stored_ints :: "itemAttrTypes list" where
  "stored_ints = [ITEM_ATTRIBUTE_WEIGHT, ITEM_ATTRIBUTE_ATTACK, ITEM_ATTRIBUTE_DEFENSE,
     ITEM_ATTRIBUTE_EXTRADEFENSE, ITEM_ATTRIBUTE_ARMOR, ITEM_ATTRIBUTE_HITCHANCE,
     ITEM_ATTRIBUTE_SHOOTRANGE]"

definition stored_strs :: "itemAttrTypes list" where
  "stored_strs = [ITEM_ATTRIBUTE_NAME, ITEM_ATTRIBUTE_ARTICLE, ITEM_ATTRIBUTE_PLURALNAME]"

definition same_stored :: "item_types \<Rightarrow> item \<Rightarrow> item \<Rightarrow> bool" where
  "same_stored items i j \<longleftrightarrow>
     item_id j = item_id i \<and>
     list_all (\<lambda>t. hasAttribute j t = hasAttribute i t \<and> getIntAttr j t = getIntAttr i t) stored_ints \<and>
     list_all (\<lambda>t. hasAttribute j t = hasAttribute i t \<and> getStrAttr j t = getStrAttr i t) stored_strs \<and>
     getText j = getText i \<and> getWriter j = getWriter i \<and>
     getSpecialDescription j = getSpecialDescription i \<and> getDate j = getDate i"

definition same_state :: "item_types \<Rightarrow> item \<Rightarrow> item \<Rightarrow> bool" where
  "same_state items i j \<longleftrightarrow>
     (let it = items (item_id i) in
      (it_fluidContainer it \<or> it_splash it \<longrightarrow> getFluidType j = getFluidType i) \<and>
      (it_stackable it \<and> \<not> it_fluidContainer it \<and> \<not> it_splash it \<longrightarrow> item_count j = item_count i) \<and>
      (getCharges i \<noteq> 0 \<longrightarrow> getCharges j = getCharges i) \<and>
      (it_moveable it \<longrightarrow> getActionId j = getActionId i) \<and>
      (hasAttribute i ITEM_ATTRIBUTE_DURATION \<longrightarrow> getDuration j = getDuration i) \<and>
      getDecaying j = (if getDecaying i = DECAYING_TRUE \<or> getDecaying i = DECAYING_PENDING
                       then DECAYING_PENDING else DECAYING_FALSE))"

text \<open>A step at position k that sets what a getter sees, among steps that leave it alone.\<close>

definition keeps :: "u16 \<Rightarrow> (item \<Rightarrow> 'v) \<Rightarrow> (bool \<times> (item \<Rightarrow> item)) list \<Rightarrow> bool" where
  "keeps n g steps \<longleftrightarrow>
     list_all (\<lambda>(c, f). c \<longrightarrow> (\<forall>j. item_id j = n \<longrightarrow> item_id (f j) = n \<and> g (f j) = g j)) steps"

lemma keeps_simps [simp]:
  "keeps n g []"
  "keeps n g ((c, f) # steps) \<longleftrightarrow>
     (c \<longrightarrow> (\<forall>j. item_id j = n \<longrightarrow> item_id (f j) = n \<and> g (f j) = g j)) \<and> keeps n g steps"
  by (simp_all add: keeps_def)

lemma apply_keeps:
  "keeps n g steps \<Longrightarrow> item_id j = n \<Longrightarrow> item_id (apply_steps steps j) = n \<and> g (apply_steps steps j) = g j"
  by (induction steps j rule: apply_steps.induct) auto

lemma apply_steps_append: "apply_steps (xs @ ys) j = apply_steps ys (apply_steps xs j)"
  by (induction xs j rule: apply_steps.induct) auto

lemma apply_at:
  assumes "keeps n g (take k steps)" and "keeps n g (drop (Suc k) steps)" and "k < length steps"
    and "\<And>j. fst (steps ! k) \<Longrightarrow> item_id j = n \<Longrightarrow> item_id (snd (steps ! k) j) = n \<and> g (snd (steps ! k) j) = v"
    and j: "item_id j = n"
  shows "g (apply_steps steps j) = (if fst (steps ! k) then v else g j)"
proof -
  obtain c f where cf: "steps ! k = (c, f)" by (cases "steps ! k")
  have "steps = take k steps @ (c, f) # drop (Suc k) steps"
    using assms(3) cf by (metis id_take_nth_drop)
  then have "apply_steps steps j =
      apply_steps (drop (Suc k) steps) (if c then f (apply_steps (take k steps) j) else apply_steps (take k steps) j)"
    by (metis apply_steps.simps(2) apply_steps_append)
  with apply_keeps [OF assms(1) j] assms(4) [of "apply_steps (take k steps) j"] cf
    apply_keeps [OF assms(2), of "if c then f (apply_steps (take k steps) j) else apply_steps (take k steps) j"]
  show ?thesis by auto
qed

declare apply_steps.simps [simp del]

lemmas reload_eval = reload_steps_def Let_def item_setters item_getters

lemma reload_id: "item_id (apply_steps (reload_steps items i) (new_item items (item_id i) 0)) = item_id i"
proof -
  have "keeps (item_id i) item_id (reload_steps items i)"
    by (simp add: reload_eval)
  then show ?thesis using apply_keeps by fastforce
qed

abbreviation reloaded :: "item_types \<Rightarrow> item \<Rightarrow> item" where
  "reloaded items i \<equiv> apply_steps (reload_steps items i) (new_item items (item_id i) 0)"

lemma reload_at:
  assumes "keeps (item_id i) g (take k (reload_steps items i))"
    and "keeps (item_id i) g (drop (Suc k) (reload_steps items i))" and "k < length (reload_steps items i)"
    and "\<And>j. fst (reload_steps items i ! k) \<Longrightarrow> item_id j = item_id i \<Longrightarrow>
      item_id (snd (reload_steps items i ! k) j) = item_id i \<and> g (snd (reload_steps items i ! k) j) = g i"
    and "\<not> fst (reload_steps items i ! k) \<Longrightarrow> g (new_item items (item_id i) 0) = g i"
  shows "g (reloaded items i) = g i"
  using apply_at [of "item_id i" g k "reload_steps items i" "g i", OF assms(1-3) assms(4)] assms(5) by auto

lemma reloaded_texts:
  "getText (reloaded items i) = getText i"
  "getWriter (reloaded items i) = getWriter i"
  "getSpecialDescription (reloaded items i) = getSpecialDescription i"
  "getDate (reloaded items i) = getDate i"
proof -
  show "getText (reloaded items i) = getText i"
    by (rule reload_at [where k = 3]; simp add: reload_eval)
  show "getWriter (reloaded items i) = getWriter i"
    by (rule reload_at [where k = 5]; simp add: reload_eval)
  show "getSpecialDescription (reloaded items i) = getSpecialDescription i"
    by (rule reload_at [where k = 6]; simp add: reload_eval)
  show "getDate (reloaded items i) = getDate i"
    by (rule reload_at [where k = 4]; simp add: reload_eval ucast_scast_64)
qed

text \<open>Presence and value of an attribute, in one getter.\<close>

definition int_of :: "itemAttrTypes \<Rightarrow> item \<Rightarrow> bool \<times> u32" where
  "int_of t j = (hasAttribute j t, getIntAttr j t)"

definition str_of :: "itemAttrTypes \<Rightarrow> item \<Rightarrow> bool \<times> bstring" where
  "str_of t j = (hasAttribute j t, getStrAttr j t)"

lemma reloaded_ints:
  assumes "storable items i"
  shows "list_all (\<lambda>t. int_of t (reloaded items i) = int_of t i) stored_ints"
proof -
  have "int_of ITEM_ATTRIBUTE_WEIGHT (reloaded items i) = int_of ITEM_ATTRIBUTE_WEIGHT i"
    using assms
    by (intro reload_at [where k = 12]; simp add: reload_eval int_of_def storable_def hasAttribute_absent)
  moreover have "int_of ITEM_ATTRIBUTE_ATTACK (reloaded items i) = int_of ITEM_ATTRIBUTE_ATTACK i"
    using assms
    by (intro reload_at [where k = 13]; simp add: reload_eval int_of_def storable_def hasAttribute_absent)
  moreover have "int_of ITEM_ATTRIBUTE_DEFENSE (reloaded items i) = int_of ITEM_ATTRIBUTE_DEFENSE i"
    using assms
    by (intro reload_at [where k = 14]; simp add: reload_eval int_of_def storable_def hasAttribute_absent)
  moreover have "int_of ITEM_ATTRIBUTE_EXTRADEFENSE (reloaded items i) = int_of ITEM_ATTRIBUTE_EXTRADEFENSE i"
    using assms
    by (intro reload_at [where k = 15]; simp add: reload_eval int_of_def storable_def hasAttribute_absent)
  moreover have "int_of ITEM_ATTRIBUTE_ARMOR (reloaded items i) = int_of ITEM_ATTRIBUTE_ARMOR i"
    using assms
    by (intro reload_at [where k = 16]; simp add: reload_eval int_of_def storable_def hasAttribute_absent)
  moreover have "int_of ITEM_ATTRIBUTE_HITCHANCE (reloaded items i) = int_of ITEM_ATTRIBUTE_HITCHANCE i"
    using assms
    by (intro reload_at [where k = 17]; simp add: reload_eval int_of_def storable_def hasAttribute_absent)
  moreover have "int_of ITEM_ATTRIBUTE_SHOOTRANGE (reloaded items i) = int_of ITEM_ATTRIBUTE_SHOOTRANGE i"
    using assms
    by (intro reload_at [where k = 18]; simp add: reload_eval int_of_def storable_def hasAttribute_absent)
  ultimately show ?thesis by (simp add: stored_ints_def)
qed

lemma reloaded_strs:
  assumes "storable items i"
  shows "list_all (\<lambda>t. str_of t (reloaded items i) = str_of t i) stored_strs"
proof -
  have "str_of ITEM_ATTRIBUTE_NAME (reloaded items i) = str_of ITEM_ATTRIBUTE_NAME i"
    using assms
    by (intro reload_at [where k = 9]; simp add: reload_eval str_of_def storable_def hasAttribute_absent)
  moreover have "str_of ITEM_ATTRIBUTE_ARTICLE (reloaded items i) = str_of ITEM_ATTRIBUTE_ARTICLE i"
    using assms
    by (intro reload_at [where k = 10]; simp add: reload_eval str_of_def storable_def hasAttribute_absent)
  moreover have "str_of ITEM_ATTRIBUTE_PLURALNAME (reloaded items i) = str_of ITEM_ATTRIBUTE_PLURALNAME i"
    using assms
    by (intro reload_at [where k = 11]; simp add: reload_eval str_of_def storable_def hasAttribute_absent)
  ultimately show ?thesis by (simp add: stored_strs_def)
qed

lemma reload_same_stored:
  "storable items i \<Longrightarrow> same_stored items i (reloaded items i)"
  using reloaded_ints [of items i] reloaded_strs [of items i] reload_id [of items i] reloaded_texts [of items i]
  by (simp add: same_stored_def int_of_def str_of_def stored_ints_def stored_strs_def)

lemma ucast_up_down [simp]:
  "ucast (ucast (x8 :: u8) :: u16) = x8" "ucast (ucast (x16 :: u16) :: u32) = x16"
  by (simp_all add: ucast_up_ucast_id is_up)

lemma reload_same_state:
  assumes "storable items i"
  shows "same_state items i (reloaded items i)"
proof -
  let ?it = "items (item_id i)"
  note keep = reload_eval setSubType_def getSubType_def
  have "getFluidType (reloaded items i) = getFluidType i" if "it_fluidContainer ?it \<or> it_splash ?it"
    using assms that
    by (intro reload_at [where k = 0]; auto simp: keep storable_def)
  moreover have "item_count (reloaded items i) = item_count i"
    if "it_stackable ?it \<and> \<not> it_fluidContainer ?it \<and> \<not> it_splash ?it"
    using assms that
    by (intro reload_at [where k = 0]; auto simp: keep storable_def)
  moreover have "getCharges (reloaded items i) = getCharges i" if "getCharges i \<noteq> 0"
    using assms that
    by (intro reload_at [where k = 1]; auto simp: keep storable_def)
  moreover have "getActionId (reloaded items i) = getActionId i" if "it_moveable ?it"
    using assms that
    by (intro reload_at [where k = 2]; auto simp: reload_eval storable_def)
  moreover have "getDuration (reloaded items i) = getDuration i" if "hasAttribute i ITEM_ATTRIBUTE_DURATION"
    using assms that
    by (intro reload_at [where k = 7]; auto simp: reload_eval storable_def)
  moreover have "getDecaying (reloaded items i) =
      (if (getDecaying i = DECAYING_TRUE \<or> getDecaying i = DECAYING_PENDING) \<and> getDecaying i \<noteq> DECAYING_FALSE
       then DECAYING_PENDING else DECAYING_FALSE)"
  proof -
    have "getDecaying (reloaded items i) =
        (if fst (reload_steps items i ! 8) then DECAYING_PENDING else getDecaying (new_item items (item_id i) 0))"
      by (rule apply_at [where n = "item_id i"]; simp add: reload_eval DECAYING_PENDING_def)
    also have "getDecaying (new_item items (item_id i) 0) = DECAYING_FALSE"
      by (simp add: getDecaying_def DECAYING_FALSE_def)
    also have "fst (reload_steps items i ! 8) \<longleftrightarrow>
        (getDecaying i = DECAYING_TRUE \<or> getDecaying i = DECAYING_PENDING) \<and> getDecaying i \<noteq> DECAYING_FALSE"
      by (simp add: reload_steps_def Let_def)
    finally show ?thesis .
  qed
  ultimately show ?thesis
    by (auto simp: same_state_def Let_def DECAYING_FALSE_def DECAYING_TRUE_def DECAYING_PENDING_def)
qed

text \<open>
  C21: An item survives storage: reading what \<open>serializeAttr\<close> wrote into a new item of the same type
  consumes exactly what was written, succeeds, and gives an item with the same id, text, writer,
  date, description, names, weight and combat attributes, count or fluid type, charges, action id (if
  moveable) and duration, which is to decay again if it was decaying.
\<close>

theorem item_roundtrip:
  assumes "storable items i"
  shows "\<exists>j. unserializeAttr items u (new_item items (item_id i) 0) (serializeAttr items i []) = (True, u, j, []) \<and>
    same_stored items i j \<and> same_state items i j"
proof -
  have "\<forall>t. length (getStrAttr i t) \<le> 65535" using assms by (simp add: storable_def)
  from unserialize_serialize [OF this, of items u "new_item items (item_id i) 0" "[]"]
  have "unserializeAttr items u (new_item items (item_id i) 0) (serializeAttr items i []) =
      (True, u, reloaded items i, [])"
    by (simp add: unserializeAttr_end)
  with reload_same_stored [OF assms] reload_same_state [OF assms] show ?thesis by blast
qed

text \<open>A named rune of 3 charges, half decayed.\<close>

definition rune_types :: item_types where
  "rune_types n = \<lparr> it_fluidContainer = False, it_splash = False, it_stackable = False,
     it_moveable = True, it_pickupable = True, it_stopTime = False, it_charges = 5, it_weight = 120,
     it_decayTime = 60, it_decayTo = -1, it_maxItems = 0 \<rparr>"

definition named_rune :: item where
  "named_rune = setDecaying DECAYING_TRUE (setDuration 30000
     (setStrAttr ITEM_ATTRIBUTE_NAME [82] (new_item rune_types 2268 3)))"

lemma null_attributes:
  "item_attrs i = None \<Longrightarrow> getIntAttr i t = 0" "item_attrs i = None \<Longrightarrow> getStrAttr i t = []"
  "item_attrs i = None \<Longrightarrow> \<not> hasAttribute i t"
  by (simp_all add: getIntAttr_def getStrAttr_def hasAttribute_def)

lemmas rune_eval = named_rune_def new_item_def rune_types_def setDefaultDuration_def
  getDefaultDuration_def item_setters item_getters Let_def null_attributes

lemma rune_storable: "storable rune_types named_rune"
  by (auto simp: storable_def rune_eval isStrAttrType_def word_sless_alt)

theorem item_roundtrip_witness:
  "\<exists>j. unserializeAttr rune_types {} (new_item rune_types (item_id named_rune) 0)
      (serializeAttr rune_types named_rune []) = (True, {}, j, []) \<and>
    getCharges j = 3 \<and> getDuration j = 30000 \<and> getDecaying j = DECAYING_PENDING"
proof -
  obtain j where j: "unserializeAttr rune_types {} (new_item rune_types (item_id named_rune) 0)
      (serializeAttr rune_types named_rune []) = (True, {}, j, [])" "same_state rune_types named_rune j"
    using item_roundtrip [OF rune_storable, of "{}"] by blast
  have "getCharges named_rune = 3" "getDuration named_rune = 30000" "getDecaying named_rune = DECAYING_TRUE"
    "hasAttribute named_rune ITEM_ATTRIBUTE_DURATION"
    by (simp_all add: rune_eval DECAYING_TRUE_def)
  with j(2) have "getCharges j = 3 \<and> getDuration j = 30000 \<and> getDecaying j = DECAYING_PENDING"
    by (simp add: same_state_def Let_def)
  with j(1) show ?thesis by blast
qed

section \<open>Comparison\<close>

lemma equals_iff:
  "equals i (Some j) \<longleftrightarrow> item_id i = item_id j \<and> item_attrs i = item_attrs j"
proof -
  have "a = b \<longleftrightarrow> dom (ints a) = dom (ints b) \<and> dom (strs a) = dom (strs b) \<and>
      (\<forall>t\<in>dom (ints a). ints a t = ints b t) \<and> (\<forall>t\<in>dom (strs a). strs a t = strs b t)"
    for a b :: attr_maps
  proof
    assume h: "dom (ints a) = dom (ints b) \<and> dom (strs a) = dom (strs b) \<and>
      (\<forall>t\<in>dom (ints a). ints a t = ints b t) \<and> (\<forall>t\<in>dom (strs a). strs a t = strs b t)"
    then have "ints a = ints b" "strs a = strs b"
      by (metis map_le_antisym map_le_def)+
    then show "a = b" by simp
  qed simp
  then show ?thesis by (auto simp: equals_def split: option.splits)
qed

text \<open>
  Comparing two items for stacking (\<open>equals\<close>) is an equivalence that holds exactly when they have
  the same id and the same attributes, the count aside - where an item that had an attribute and lost
  it does not have the same attributes as one that never had any, so the two do not stack.
\<close>

lemma equals_same_attributes:
  "(equals i (Some j) \<longleftrightarrow> item_id i = item_id j \<and> item_attrs i = item_attrs j) \<and>
   equals i (Some i) \<and> (equals i (Some j) = equals j (Some i)) \<and>
   (item_attrs i = None \<longrightarrow>
      \<not> equals i (Some (removeAttribute ITEM_ATTRIBUTE_DURATION (setDuration 1 i))))"
  by (auto simp: equals_iff removeAttribute_def setDuration_def setIntAttr_def Let_def)

end
