(* ===== verification/Container.thy ===== *)
theory Container
  imports Item ReturnValues
begin

text \<open>
  Containers (\<open>container.h\<close>, \<open>container.cpp\<close>): the items inside an item, and the weights that every
  container keeps of its contents.

  Items are shared through pointers, so the model has a store from references to items. An item has
  the cylinder it lies in as its parent: a container of the store, or a tile, a player or the virtual
  cylinder, which the store does not hold. An operation that follows a null or dangling pointer is
  \<open>None\<close>, and so is a walk up the parents that does not end. What the client is told
  (\<open>onAddContainerItem\<close> and its siblings) is not modelled.
\<close>

section \<open>The store\<close>

datatype cylinder = ContainerCylinder nat | TileCylinder nat | PlayerCylinder nat | VirtualCylinder

record container =
  maxSize :: u32
  totalWeight :: u32
  itemlist :: "nat list"
  unlocked :: bool
  isInbox :: bool

record cell =
  cell_item :: item
  cell_parent :: "cylinder option"
  cell_container :: "container option"

record store =
  cells :: "nat \<Rightarrow> cell option"
  player_tile :: "nat \<Rightarrow> nat option"

definition getContainer :: "store \<Rightarrow> nat \<Rightarrow> container option" where
  "getContainer s i = Option.bind (cells s i) cell_container"

definition getParent :: "store \<Rightarrow> nat \<Rightarrow> cylinder option" where
  "getParent s i = Option.bind (cells s i) cell_parent"

definition getItem :: "store \<Rightarrow> nat \<Rightarrow> item option" where
  "getItem s i = map_option cell_item (cells s i)"

definition update_cell :: "nat \<Rightarrow> (cell \<Rightarrow> cell) \<Rightarrow> store \<Rightarrow> store" where
  "update_cell i f s = s\<lparr> cells := (cells s)(i := map_option f (cells s i)) \<rparr>"

definition setParent :: "nat \<Rightarrow> cylinder option \<Rightarrow> store \<Rightarrow> store" where
  "setParent i p = update_cell i (\<lambda>x. x\<lparr> cell_parent := p \<rparr>)"

definition setItem :: "nat \<Rightarrow> item \<Rightarrow> store \<Rightarrow> store" where
  "setItem i new = update_cell i (\<lambda>x. x\<lparr> cell_item := new \<rparr>)"

definition setContainer :: "nat \<Rightarrow> container \<Rightarrow> store \<Rightarrow> store" where
  "setContainer c new = update_cell c (\<lambda>x. x\<lparr> cell_container := Some new \<rparr>)"

text \<open>The parent of a cylinder: the parent of the item, the tile of the player, none.\<close>

fun cylinder_parent :: "store \<Rightarrow> cylinder \<Rightarrow> cylinder option" where
  "cylinder_parent s (ContainerCylinder c) = getParent s c"
| "cylinder_parent s (PlayerCylinder p) = map_option TileCylinder (player_tile s p)"
| "cylinder_parent s (TileCylinder t) = None"
| "cylinder_parent s VirtualCylinder = None"

fun as_container :: "cylinder \<Rightarrow> nat option" where
  "as_container (ContainerCylinder c) = Some c"
| "as_container _ = None"

definition getParentContainer :: "store \<Rightarrow> nat \<Rightarrow> nat option" where
  "getParentContainer s c =
     (case getParent s c of None \<Rightarrow> None | Some thing \<Rightarrow> as_container thing)"

text \<open>\<open>Item::getWeight\<close>, overridden by \<open>Container::getWeight\<close>.\<close>

definition weight_of :: "item_types \<Rightarrow> store \<Rightarrow> nat \<Rightarrow> u32" where
  "weight_of items s i =
     (case cells s i of
        None \<Rightarrow> 0
      | Some x \<Rightarrow> getWeight items (cell_item x) +
          (case cell_container x of None \<Rightarrow> 0 | Some c \<Rightarrow> totalWeight c))"

section \<open>Operations\<close>

partial_function (option) updateItemWeight :: "nat \<Rightarrow> u32 \<Rightarrow> store \<Rightarrow> store option" where
  "updateItemWeight c diff s =
     (case getContainer s c of
        None \<Rightarrow> None
      | Some con \<Rightarrow>
          let s' = setContainer c (con\<lparr> totalWeight := totalWeight con + diff \<rparr>) s
          in (case getParentContainer s' c of
                None \<Rightarrow> Some s'
              | Some parentContainer \<Rightarrow> updateItemWeight parentContainer diff s'))"

definition con_size :: "container \<Rightarrow> nat" where "con_size con = length (itemlist con)"
definition capacity :: "container \<Rightarrow> u32" where "capacity con = maxSize con"

definition getItemByIndex :: "container \<Rightarrow> int \<Rightarrow> nat option" where
  "getItemByIndex con index =
     (if index < 0 \<or> index \<ge> int (con_size con) then None else Some (itemlist con ! nat index))"

definition con_addItem :: "nat \<Rightarrow> nat \<Rightarrow> store \<Rightarrow> store option" where
  "con_addItem c i s =
     (case getContainer s c of
        None \<Rightarrow> None
      | Some con \<Rightarrow>
          Some (setParent i (Some (ContainerCylinder c))
                 (setContainer c (con\<lparr> itemlist := itemlist con @ [i] \<rparr>) s)))"

definition internalAddThing :: "item_types \<Rightarrow> nat \<Rightarrow> nat \<Rightarrow> store \<Rightarrow> store option" where
  "internalAddThing items c i s =
     (case getContainer s c of
        None \<Rightarrow> None
      | Some con \<Rightarrow>
          let s1 = setParent i (Some (ContainerCylinder c)) s;
              s2 = setContainer c (con\<lparr> itemlist := i # itemlist con \<rparr>) s1
          in updateItemWeight c (weight_of items s2 i) s2)"

definition addThing :: "item_types \<Rightarrow> nat \<Rightarrow> int \<Rightarrow> nat \<Rightarrow> store \<Rightarrow> store option" where
  "addThing items c index i s =
     (case getContainer s c of
        None \<Rightarrow> None
      | Some con \<Rightarrow>
          if index \<ge> sint (capacity con) then Some s
          else
            let s1 = setParent i (Some (ContainerCylinder c)) s;
                s2 = setContainer c (con\<lparr> itemlist := i # itemlist con \<rparr>) s1
            in updateItemWeight c (weight_of items s2 i) s2)"

definition addItemBack :: "item_types \<Rightarrow> nat \<Rightarrow> nat \<Rightarrow> store \<Rightarrow> store option" where
  "addItemBack items c i s =
     (case con_addItem c i s of
        None \<Rightarrow> None
      | Some s' \<Rightarrow> updateItemWeight c (weight_of items s' i) s')"

fun index_of :: "nat \<Rightarrow> nat list \<Rightarrow> int \<Rightarrow> int" where
  "index_of thing [] index = -1"
| "index_of thing (item # rest) index = (if item = thing then index else index_of thing rest (index + 1))"

definition getThingIndex :: "container \<Rightarrow> nat \<Rightarrow> int" where
  "getThingIndex con thing = index_of thing (itemlist con) 0"

definition updateThing :: "item_types \<Rightarrow> nat \<Rightarrow> nat \<Rightarrow> u16 \<Rightarrow> u32 \<Rightarrow> store \<Rightarrow> store option" where
  "updateThing items c i itemId count s =
     (case (getContainer s c, getItem s i) of
        (Some con, Some item) \<Rightarrow>
          if getThingIndex con i = -1 then Some s
          else
            let oldWeight = weight_of items s i;
                s' = setItem i (setSubType items (ucast count) (setID items itemId item)) s
            in updateItemWeight c (- oldWeight + weight_of items s' i) s'
      | _ \<Rightarrow> None)"

definition replaceThing :: "item_types \<Rightarrow> nat \<Rightarrow> u32 \<Rightarrow> nat \<Rightarrow> store \<Rightarrow> store option" where
  "replaceThing items c index i s =
     (case getContainer s c of
        None \<Rightarrow> None
      | Some con \<Rightarrow>
          (case getItemByIndex con (uint index) of
             None \<Rightarrow> Some s
           | Some replacedItem \<Rightarrow>
               let s1 = setContainer c (con\<lparr> itemlist := (itemlist con)[unat index := i] \<rparr>) s;
                   s2 = setParent i (Some (ContainerCylinder c)) s1
               in map_option (setParent replacedItem None)
                    (updateItemWeight c (- weight_of items s2 replacedItem + weight_of items s2 i) s2)))"

definition remove_at :: "nat \<Rightarrow> 'a list \<Rightarrow> 'a list" where
  "remove_at n xs = take n xs @ drop (Suc n) xs"

definition removeThing :: "item_types \<Rightarrow> nat \<Rightarrow> nat \<Rightarrow> u32 \<Rightarrow> store \<Rightarrow> store option" where
  "removeThing items c i count s =
     (case (getContainer s c, getItem s i) of
        (Some con, Some item) \<Rightarrow>
          let index = getThingIndex con i
          in if index = -1 then Some s
             else if isStackable items item \<and> count \<noteq> ucast (getItemCount item) then
               (let rest = ucast (getItemCount item) - count;
                    newCount = ucast (if rest <s 0 then 0 else rest) :: u8;
                    oldWeight = weight_of items s i;
                    s' = setItem i (setItemCount newCount item) s
                in updateItemWeight c (- oldWeight + weight_of items s' i) s')
             else
               (case updateItemWeight c (- weight_of items s i) s of
                  None \<Rightarrow> None
                | Some s1 \<Rightarrow>
                    (case getContainer s1 c of
                       None \<Rightarrow> None
                     | Some con1 \<Rightarrow>
                         Some (setContainer c (con1\<lparr> itemlist := remove_at (nat index) (itemlist con1) \<rparr>)
                                (setParent i None s1))))
      | _ \<Rightarrow> None)"

section \<open>Well-formed stores\<close>

definition kids :: "store \<Rightarrow> nat \<Rightarrow> nat list" where
  "kids s c = (case getContainer s c of None \<Rightarrow> [] | Some con \<Rightarrow> itemlist con)"

definition grounded :: "store \<Rightarrow> bool" where
  "grounded s \<longleftrightarrow>
     (\<exists>depth :: nat \<Rightarrow> nat. \<forall>i c. getParent s i = Some (ContainerCylinder c) \<longrightarrow> depth c < depth i)"

text \<open>Parents and lists agree, nothing lies in a container twice, and no container is inside itself.\<close>

definition wf_store :: "store \<Rightarrow> bool" where
  "wf_store s \<longleftrightarrow>
     (\<forall>c. distinct (kids s c)) \<and>
     (\<forall>c i. i \<in> set (kids s c) \<longleftrightarrow> getParent s i = Some (ContainerCylinder c)) \<and>
     grounded s"

text \<open>\<open>inside s j i\<close>: j is i or lies inside it, at any depth.\<close>

inductive inside :: "store \<Rightarrow> nat \<Rightarrow> nat \<Rightarrow> bool" for s :: store where
  self: "inside s i i"
| up: "getParent s j = Some (ContainerCylinder p) \<Longrightarrow> inside s p i \<Longrightarrow> inside s j i"

text \<open>
  While a replaced item still points to its container the two views differ on it: \<open>wf_loose s R\<close>
  asks for a list entry only of the items outside R.
\<close>

definition wf_loose :: "store \<Rightarrow> nat set \<Rightarrow> bool" where
  "wf_loose s R \<longleftrightarrow>
     (\<forall>c. distinct (kids s c)) \<and>
     (\<forall>c i. i \<in> set (kids s c) \<longrightarrow> getParent s i = Some (ContainerCylinder c)) \<and>
     (\<forall>c i. i \<notin> R \<longrightarrow> getParent s i = Some (ContainerCylinder c) \<longrightarrow> i \<in> set (kids s c)) \<and>
     grounded s"

lemma grounded_cong: "(\<And>i. getParent s' i = getParent s i) \<Longrightarrow> grounded s' = grounded s"
  by (simp add: grounded_def)

lemma grounded_irrefl: "grounded s \<Longrightarrow> getParent s c \<noteq> Some (ContainerCylinder c)"
  by (auto simp: grounded_def)

lemma wf_store_loose: "wf_store s \<longleftrightarrow> wf_loose s {}"
  unfolding wf_store_def wf_loose_def by blast

lemma loose_mem:
  "wf_loose s R \<Longrightarrow> i \<notin> R \<Longrightarrow> i \<in> set (kids s c) \<longleftrightarrow> getParent s i = Some (ContainerCylinder c)"
  unfolding wf_loose_def by blast

lemma store_mem:
  "wf_store s \<Longrightarrow> i \<in> set (kids s c) \<longleftrightarrow> getParent s i = Some (ContainerCylinder c)"
  unfolding wf_store_def by blast

lemma loose_distinct: "wf_loose s R \<Longrightarrow> distinct (kids s c)"
  unfolding wf_loose_def by blast

lemma loose_grounded: "wf_loose s R \<Longrightarrow> grounded s"
  unfolding wf_loose_def by blast

text \<open>How far the weight a container keeps is from the weight of its contents.\<close>

definition weight_error :: "item_types \<Rightarrow> store \<Rightarrow> nat \<Rightarrow> u32" where
  "weight_error items s c =
     (case getContainer s c of
        None \<Rightarrow> 0
      | Some con \<Rightarrow> totalWeight con - sum_list (map (weight_of items s) (itemlist con)))"

definition weights_right :: "item_types \<Rightarrow> store \<Rightarrow> bool" where
  "weights_right items s \<longleftrightarrow> (\<forall>c. weight_error items s c = 0)"

definition same_shape :: "store \<Rightarrow> store \<Rightarrow> bool" where
  "same_shape s s' \<longleftrightarrow>
     (\<forall>i. getParent s' i = getParent s i \<and> getItem s' i = getItem s i \<and>
        map_option (\<lambda>con. con\<lparr> totalWeight := 0 \<rparr>) (getContainer s' i) =
        map_option (\<lambda>con. con\<lparr> totalWeight := 0 \<rparr>) (getContainer s i))"

lemma same_shape_refl [simp]: "same_shape s s"
  by (simp add: same_shape_def)

lemma same_shape_trans: "same_shape s s1 \<Longrightarrow> same_shape s1 s2 \<Longrightarrow> same_shape s s2"
  by (simp add: same_shape_def)

lemma same_shape_kids: "same_shape s s' \<Longrightarrow> kids s' c = kids s c"
proof -
  assume "same_shape s s'"
  then have "map_option (\<lambda>con. con\<lparr> totalWeight := 0 \<rparr>) (getContainer s' c) =
      map_option (\<lambda>con. con\<lparr> totalWeight := 0 \<rparr>) (getContainer s c)"
    by (simp add: same_shape_def)
  then have "map_option itemlist (map_option (\<lambda>con. con\<lparr> totalWeight := 0 \<rparr>) (getContainer s' c)) =
      map_option itemlist (map_option (\<lambda>con. con\<lparr> totalWeight := 0 \<rparr>) (getContainer s c))"
    by simp
  then show ?thesis
    by (cases "getContainer s' c"; cases "getContainer s c") (simp_all add: kids_def)
qed

lemma same_shape_loose: "same_shape s s' \<Longrightarrow> wf_loose s' R = wf_loose s R"
  using grounded_cong [of s' s] by (simp add: wf_loose_def same_shape_kids) (simp add: same_shape_def)

lemma same_shape_wf: "same_shape s s' \<Longrightarrow> wf_store s' = wf_store s"
  by (simp add: wf_store_loose same_shape_loose)

lemma inside_cong:
  assumes "inside s j i" and "\<And>j. getParent s' j = getParent s j"
  shows "inside s' j i"
  using assms(1) by (induction rule: inside.induct) (auto intro: inside.intros simp: assms(2))

lemma same_shape_inside: "same_shape s s' \<Longrightarrow> inside s' j i = inside s j i"
proof
  assume "same_shape s s'"
  then have same: "getParent s' j = getParent s j" for j by (simp add: same_shape_def)
  show "inside s' j i" if "inside s j i" using inside_cong [OF that] same by simp
  show "inside s j i" if "inside s' j i" using inside_cong [OF that] same by simp
qed

lemma same_shape_container: "same_shape s s' \<Longrightarrow> getContainer s c = Some con \<Longrightarrow>
    \<exists>con'. getContainer s' c = Some con' \<and> itemlist con' = itemlist con"
  using same_shape_kids [of s s' c]
  by (cases "getContainer s' c") (auto simp: same_shape_def kids_def dest: spec [of _ c])

lemma cells_update [simp]:
  "cells (update_cell i f s) j = (if j = i then map_option f (cells s i) else cells s j)"
  "player_tile (update_cell i f s) = player_tile s"
  by (simp_all add: update_cell_def)

lemma set_look_ups [simp]:
  "getParent (setContainer c con s) i = getParent s i"
  "getItem (setContainer c con s) i = getItem s i"
  "getContainer (setContainer c con s) i = (if i = c \<and> cells s c \<noteq> None then Some con else getContainer s i)"
  "getParent (setParent j p s) i = (if i = j \<and> cells s j \<noteq> None then p else getParent s i)"
  "getItem (setParent j p s) i = getItem s i"
  "getContainer (setParent j p s) i = getContainer s i"
  "getParent (setItem j new s) i = getParent s i"
  "getItem (setItem j new s) i = (if i = j \<and> cells s j \<noteq> None then Some new else getItem s i)"
  "getContainer (setItem j new s) i = getContainer s i"
  by (cases "cells s c"; cases "cells s j";
      auto simp: getParent_def getItem_def getContainer_def setContainer_def setParent_def setItem_def)+

lemma getContainer_cell: "getContainer s c = Some con \<Longrightarrow> cells s c \<noteq> None"
  by (cases "cells s c") (auto simp: getContainer_def)

lemma weight_of_look_ups:
  "weight_of items s i =
     (case getItem s i of None \<Rightarrow> 0 | Some x \<Rightarrow> getWeight items x +
        (case getContainer s i of None \<Rightarrow> 0 | Some con \<Rightarrow> totalWeight con))"
  by (auto simp: weight_of_def getItem_def getContainer_def split: option.splits)

lemma weight_of_setContainer:
  assumes "getContainer s c = Some con"
  shows "weight_of items (setContainer c con' s) i =
    (if i = c then weight_of items s c - totalWeight con + totalWeight con' else weight_of items s i)"
proof -
  obtain x where "getItem s c = Some x"
    using getContainer_cell [OF assms] by (auto simp: getItem_def)
  with assms getContainer_cell [OF assms] show ?thesis
    by (simp add: weight_of_look_ups split: option.split)
qed

lemma sum_list_update_one:
  fixes f g :: "nat \<Rightarrow> u32"
  assumes "distinct xs" and "\<And>x. x \<noteq> a \<Longrightarrow> g x = f x"
  shows "sum_list (map g xs) = sum_list (map f xs) + (if a \<in> set xs then g a - f a else 0)"
  using assms(1)
proof (induction xs)
  case Nil
  then show ?case by simp
next
  case (Cons x xs)
  then show ?case using assms(2) [of x] by (cases "x = a") auto
qed

text \<open>One step of \<open>updateItemWeight\<close> moves the error up to the parent.\<close>

lemma weight_error_step:
  assumes wf: "wf_loose s R" and chain: "\<forall>r\<in>R. \<not> inside s c r" and con: "getContainer s c = Some con"
  shows "weight_error items (setContainer c (con\<lparr> totalWeight := totalWeight con + d \<rparr>) s) x =
    (if x = c then weight_error items s c + d
     else if getParent s c = Some (ContainerCylinder x) then weight_error items s x - d
     else weight_error items s x)"
proof -
  let ?s = "setContainer c (con\<lparr> totalWeight := totalWeight con + d \<rparr>) s"
  have w: "weight_of items ?s i = (if i = c then weight_of items s c + d else weight_of items s i)" for i
    by (simp add: weight_of_setContainer [OF con])
  have sum: "sum_list (map (weight_of items ?s) (kids s y)) =
      sum_list (map (weight_of items s) (kids s y)) + (if c \<in> set (kids s y) then d else 0)" for y
    using sum_list_update_one [of "kids s y" c "weight_of items ?s" "weight_of items s"] wf
    by (simp add: w loose_distinct)
  have "c \<notin> R" using chain inside.self by blast
  then have mem: "c \<in> set (kids s y) \<longleftrightarrow> getParent s c = Some (ContainerCylinder y)" for y
    using loose_mem [OF wf] by blast
  have self: "getParent s c \<noteq> Some (ContainerCylinder c)"
    using grounded_irrefl loose_grounded [OF wf] by blast
  show ?thesis
  proof (cases "x = c")
    case True
    with con getContainer_cell [OF con] sum [of c] mem [of c] self show ?thesis
      by (simp add: weight_error_def kids_def)
  next
    case False
    show ?thesis
    proof (cases "getContainer s x")
      case None
      with mem [of x] have "getParent s c \<noteq> Some (ContainerCylinder x)" by (simp add: kids_def)
      with None False con show ?thesis by (simp add: weight_error_def)
    next
      case (Some conx)
      with False have "weight_error items ?s x =
          totalWeight conx - sum_list (map (weight_of items ?s) (kids s x))"
        and "weight_error items s x = totalWeight conx - sum_list (map (weight_of items s) (kids s x))"
        by (simp_all add: weight_error_def kids_def)
      then have "weight_error items ?s x =
          weight_error items s x - (if c \<in> set (kids s x) then d else 0)"
        by (simp only: sum diff_diff_eq [symmetric])
      with mem [of x] False show ?thesis by simp
    qed
  qed
qed

lemma same_shape_total [simp]:
  "getContainer s c = Some con \<Longrightarrow> same_shape s (setContainer c (con\<lparr> totalWeight := w \<rparr>) s)"
  by (auto simp: same_shape_def)

lemma getParentContainer_Some: "getParentContainer s c = Some p \<longleftrightarrow> getParent s c = Some (ContainerCylinder p)"
  by (auto simp: getParentContainer_def split: option.splits elim: as_container.elims)

lemma updateItemWeight_error:
  "updateItemWeight c d s = Some s' \<Longrightarrow> wf_loose s R \<Longrightarrow> \<forall>r\<in>R. \<not> inside s c r \<Longrightarrow>
     same_shape s s' \<and>
     (\<forall>x. weight_error items s' x = (if x = c then weight_error items s c + d else weight_error items s x)) \<and>
     (\<forall>i. \<not> inside s c i \<longrightarrow> getContainer s' i = getContainer s i)"
proof (induction rule: updateItemWeight.raw_induct [rotated, consumes 1, case_names step])
  case (step f c d s s')
  note 1 = step
  from 1(2) obtain con where con: "getContainer s c = Some con" by (cases "getContainer s c") auto
  let ?s = "setContainer c (con\<lparr> totalWeight := totalWeight con + d \<rparr>) s"
  have shape: "same_shape s ?s" using con by simp
  then have wf: "wf_loose ?s R" using 1(3) same_shape_loose by blast
  note err = weight_error_step [OF 1(3,4) con, of items d]
  have frame: "\<not> inside s c i \<Longrightarrow> getContainer ?s i = getContainer s i" for i
    using inside.self [of s c] by auto
  show ?case
  proof (cases "getParentContainer ?s c")
    case None
    with 1(2) con have s': "s' = ?s" by (simp add: Let_def)
    have "getParent s c \<noteq> Some (ContainerCylinder x)" for x
      using None getParentContainer_Some [of ?s c x] by simp
    with shape s' err frame show ?thesis by auto
  next
    case (Some p)
    then have p: "getParent s c = Some (ContainerCylinder p)" by (simp add: getParentContainer_Some)
    have "p \<noteq> c" using p grounded_irrefl loose_grounded [OF 1(3)] by blast
    have up: "inside s p i \<Longrightarrow> inside s c i" for i using p by (rule inside.up)
    from 1(4) up have chain: "\<forall>r\<in>R. \<not> inside ?s p r"
      by (auto simp: same_shape_inside [OF shape])
    from 1(2) con Some have "f p d ?s = Some s'" by (simp add: Let_def)
    from 1(1) [OF this wf chain] have s': "same_shape ?s s'"
      "\<forall>x. weight_error items s' x = (if x = p then weight_error items ?s p + d else weight_error items ?s x)"
      "\<forall>i. \<not> inside ?s p i \<longrightarrow> getContainer s' i = getContainer ?s i"
      by blast+
    have "\<not> inside s c i \<longrightarrow> getContainer s' i = getContainer s i" for i
    proof
      assume out: "\<not> inside s c i"
      with up have "\<not> inside ?s p i" by (auto simp: same_shape_inside [OF shape])
      with s'(3) have "getContainer s' i = getContainer ?s i" by blast
      also have "\<dots> = getContainer s i" by (rule frame [OF out])
      finally show "getContainer s' i = getContainer s i" .
    qed
    moreover have "weight_error items s' x = (if x = c then weight_error items s c + d else weight_error items s x)" for x
      using s'(2) err p \<open>p \<noteq> c\<close> by simp
    ultimately show ?thesis using same_shape_trans [OF shape s'(1)] by blast
  qed
qed

lemma updateItemWeight_total:
  assumes "wf_loose s R" and "\<forall>r\<in>R. \<not> inside s c r" and "getContainer s c = Some con"
  shows "\<exists>s'. updateItemWeight c d s = Some s'"
proof -
  from assms(1) obtain depth :: "nat \<Rightarrow> nat"
    where depth: "\<And>i c. getParent s i = Some (ContainerCylinder c) \<Longrightarrow> depth c < depth i"
    using loose_grounded [OF assms(1)] by (auto simp: grounded_def)
  have "wf_loose t R \<Longrightarrow> \<forall>r\<in>R. \<not> inside t c r \<Longrightarrow> same_shape s t \<Longrightarrow> getContainer t c = Some con \<Longrightarrow>
      \<exists>s'. updateItemWeight c d t = Some s'" for t con
  proof (induction "depth c" arbitrary: c t con rule: less_induct)
    case less
    let ?t = "setContainer c (con\<lparr> totalWeight := totalWeight con + d \<rparr>) t"
    have shape: "same_shape t ?t" using less.prems(4) by simp
    show ?case
    proof (cases "getParentContainer ?t c")
      case None
      with less.prems(4) show ?thesis
        by (subst updateItemWeight.simps) (simp add: Let_def)
    next
      case (Some p)
      then have p: "getParent t c = Some (ContainerCylinder p)" by (simp add: getParentContainer_Some)
      with less.prems(3) have "getParent s c = Some (ContainerCylinder p)" by (simp add: same_shape_def)
      then have "depth p < depth c" by (rule depth)
      moreover have wf: "wf_loose ?t R" using less.prems(1) shape same_shape_loose by blast
      moreover have "same_shape s ?t" using less.prems(3) shape same_shape_trans by blast
      moreover have "\<forall>r\<in>R. \<not> inside ?t p r"
        using less.prems(2) inside.up [OF p] by (auto simp: same_shape_inside [OF shape])
      moreover obtain conp where "getContainer ?t p = Some conp"
      proof -
        have "c \<notin> R" using less.prems(2) inside.self by blast
        then have "c \<in> set (kids ?t p)" using p loose_mem [OF wf] by simp
        then show thesis using that by (cases "getContainer ?t p") (auto simp: kids_def)
      qed
      ultimately obtain s' where "updateItemWeight p d ?t = Some s'" using less.hyps by blast
      with less.prems(4) Some show ?thesis
        by (subst updateItemWeight.simps) (simp add: Let_def)
    qed
  qed
  from this [OF assms(1,2) same_shape_refl assms(3)] show ?thesis .
qed

section \<open>Linking and unlinking\<close>

text \<open>The item is in no container, and the container is not inside the item.\<close>

definition fits :: "store \<Rightarrow> nat \<Rightarrow> nat \<Rightarrow> bool" where
  "fits s c i \<longleftrightarrow> cells s i \<noteq> None \<and> (\<forall>x. getParent s i \<noteq> Some (ContainerCylinder x)) \<and> \<not> inside s c i"

lemma wf_cong:
  "(\<And>c. kids s' c = kids s c) \<Longrightarrow> (\<And>i. getParent s' i = getParent s i) \<Longrightarrow> wf_store s' = wf_store s"
  using grounded_cong [of s' s] by (simp add: wf_store_def)

lemma kids_setContainer:
  "getContainer s c = Some con \<Longrightarrow>
     kids (setContainer c con' s) x = (if x = c then itemlist con' else kids s x)"
  using getContainer_cell [of s c con] by (simp add: kids_def)

lemma kids_setParent [simp]: "kids (setParent i p s) x = kids s x"
  by (simp add: kids_def)

lemma kids_setItem [simp]: "kids (setItem i new s) x = kids s x"
  by (simp add: kids_def)

lemma weight_of_setParent [simp]: "weight_of items (setParent i p s) = weight_of items s"
  by (rule ext) (simp add: weight_of_look_ups split: option.split)

lemma weight_of_relist:
  "getContainer s c = Some con \<Longrightarrow> totalWeight con' = totalWeight con \<Longrightarrow>
     weight_of items (setContainer c con' s) = weight_of items s"
  by (rule ext) (simp add: weight_of_setContainer)

lemma weight_error_relist:
  assumes "getContainer s c = Some con" and "totalWeight con' = totalWeight con"
  shows "weight_error items (setContainer c con' s) x =
    (if x = c then totalWeight con - sum_list (map (weight_of items s) (itemlist con'))
     else weight_error items s x)"
  using assms getContainer_cell [OF assms(1)] weight_of_relist [OF assms]
  by (simp add: weight_error_def split: option.split)

lemma weight_error_setParent [simp]: "weight_error items (setParent i p s) x = weight_error items s x"
  by (simp add: weight_error_def split: option.split)

lemma wf_link:
  assumes wf: "wf_store s" and con: "getContainer s c = Some con" and fit: "fits s c i"
    and xs: "distinct xs" "set xs = insert i (set (itemlist con))"
  shows "wf_store (setContainer c (con\<lparr> itemlist := xs \<rparr>) (setParent i (Some (ContainerCylinder c)) s))"
    (is "wf_store ?s")
proof -
  from wf obtain depth :: "nat \<Rightarrow> nat"
    where depth: "\<And>j x. getParent s j = Some (ContainerCylinder x) \<Longrightarrow> depth x < depth j"
    by (auto simp: wf_store_def grounded_def)
  have con': "getContainer (setParent i (Some (ContainerCylinder c)) s) c = Some con" using con by simp
  have kids: "kids ?s x = (if x = c then xs else kids s x)" for x
    by (simp add: kids_setContainer [OF con'])
  have parent: "getParent ?s j = (if j = i then Some (ContainerCylinder c) else getParent s j)" for j
    using fit by (simp add: fits_def)
  have old: "kids s c = itemlist con" using con by (simp add: kids_def)
  have mem: "j \<in> set (kids s x) \<longleftrightarrow> getParent s j = Some (ContainerCylinder x)" for j x
    using wf by (simp add: wf_store_def)
  have free: "getParent s i \<noteq> Some (ContainerCylinder x)" for x using fit by (simp add: fits_def)
  let ?depth = "\<lambda>j. if inside s j i then depth j + depth c + 1 else depth j"
  have d: "?depth x < ?depth j" if "getParent ?s j = Some (ContainerCylinder x)" for j x
  proof (cases "j = i")
    case True
    with that have "x = c" unfolding parent by simp
    with fit True show ?thesis by (simp add: fits_def inside.self)
  next
    case False
    with that have p: "getParent s j = Some (ContainerCylinder x)" unfolding parent by simp
    with False have "inside s j i \<longleftrightarrow> inside s x i"
      by (auto intro: inside.up elim: inside.cases)
    with depth [OF p] show ?thesis by simp
  qed
  have "grounded ?s"
    unfolding grounded_def by (intro exI [of _ ?depth] allI impI) (rule d)
  moreover have "distinct (kids ?s x)" for x
    using wf xs(1) by (simp add: kids wf_store_def)
  moreover have "j \<in> set (kids ?s x) \<longleftrightarrow> getParent ?s j = Some (ContainerCylinder x)" for j x
  proof (cases "j = i")
    case True
    have "i \<notin> set (kids s x)" using mem [of i x] free [of x] by simp
    with True xs(2) show ?thesis unfolding kids parent by simp
  next
    case False
    show ?thesis
    proof (cases "x = c")
      case True
      then have "j \<in> set (kids ?s x) \<longleftrightarrow> j \<in> set (kids s x)"
        using xs(2) old False by (simp only: kids if_True) simp
      with mem [of j x] parent [of j] False show ?thesis by simp
    next
      case False
      then have "kids ?s x = kids s x" by (simp only: kids if_False)
      with mem [of j x] parent [of j] \<open>j \<noteq> i\<close> show ?thesis by simp
    qed
  qed
  ultimately show ?thesis unfolding wf_store_def by (intro conjI allI)
qed

lemma wf_unlink:
  assumes wf: "wf_store s" and con: "getContainer s c = Some con" and i: "cells s i \<noteq> None"
    and xs: "distinct xs" "set xs = set (itemlist con) - {i}" and mem_i: "i \<in> set (itemlist con)"
  shows "wf_store (setContainer c (con\<lparr> itemlist := xs \<rparr>) (setParent i None s))" (is "wf_store ?s")
proof -
  have con': "getContainer (setParent i None s) c = Some con" using con by simp
  have kids: "kids ?s x = (if x = c then xs else kids s x)" for x
    by (simp add: kids_setContainer [OF con'])
  have parent: "getParent ?s j = (if j = i then None else getParent s j)" for j
    using i by simp
  have old: "kids s c = itemlist con" using con by (simp add: kids_def)
  have mem: "j \<in> set (kids s x) \<longleftrightarrow> getParent s j = Some (ContainerCylinder x)" for j x
    using wf by (simp add: wf_store_def)
  have i_parent: "getParent s i = Some (ContainerCylinder c)" using mem_i old mem [of i c] by simp
  have "j \<in> set (kids ?s x) \<longleftrightarrow> getParent ?s j = Some (ContainerCylinder x)" for j x
  proof (cases "x = c")
    case True
    with mem [of j c] old xs(2) show ?thesis unfolding kids parent by simp
  next
    case False
    with mem [of j x] i_parent show ?thesis unfolding kids parent by auto
  qed
  moreover have "distinct (kids ?s x)" for x
    using wf xs(1) by (simp add: kids wf_store_def)
  moreover have "grounded ?s"
  proof -
    from wf obtain depth :: "nat \<Rightarrow> nat"
      where "\<forall>j x. getParent s j = Some (ContainerCylinder x) \<longrightarrow> depth x < depth j"
      by (auto simp: wf_store_def grounded_def)
    then show ?thesis unfolding grounded_def by (intro exI [of _ depth]) (simp add: parent)
  qed
  ultimately show ?thesis unfolding wf_store_def by (intro conjI allI)
qed

section \<open>Every operation keeps the weights\<close>

text \<open>Finishing an operation: the container of an intermediate store owes d, which is then added.\<close>

lemma updateItemWeight_settles:
  assumes "wf_loose s R" and "\<forall>r\<in>R. \<not> inside s c r" and "getContainer s c = Some con"
    and "\<And>x. weight_error items s x = (if x = c then - d else 0)"
  shows "\<exists>s'. updateItemWeight c d s = Some s' \<and> same_shape s s' \<and> wf_loose s' R \<and> weights_right items s'"
proof -
  obtain s' where s': "updateItemWeight c d s = Some s'"
    using updateItemWeight_total [OF assms(1-3)] by blast
  from updateItemWeight_error [OF s' assms(1,2), of items] assms(4)
  have "same_shape s s'" and "weights_right items s'" by (auto simp: weights_right_def)
  with s' assms(1) same_shape_loose show ?thesis by blast
qed

lemma add_link_ok:
  assumes wf: "wf_store s" and w: "weights_right items s" and con: "getContainer s c = Some con"
    and fit: "fits s c i" and xs: "xs = i # itemlist con \<or> xs = itemlist con @ [i]"
  shows "\<exists>s'. updateItemWeight c (weight_of items s i)
      (setContainer c (con\<lparr> itemlist := xs \<rparr>) (setParent i (Some (ContainerCylinder c)) s)) = Some s' \<and>
    wf_store s' \<and> weights_right items s'"
proof -
  let ?s1 = "setParent i (Some (ContainerCylinder c)) s"
  let ?s = "setContainer c (con\<lparr> itemlist := xs \<rparr>) ?s1"
  have con1: "getContainer ?s1 c = Some con" using con by simp
  have "i \<notin> set (kids s c)" using wf fit by (simp add: wf_store_def fits_def)
  then have fresh: "i \<notin> set (itemlist con)" using con by (simp add: kids_def)
  have "distinct (kids s c)" using wf by (simp add: wf_store_def)
  then have "distinct (itemlist con)" using con by (simp add: kids_def)
  with fresh xs have "distinct xs" "set xs = insert i (set (itemlist con))" by auto
  from wf_link [OF wf con fit this] have wf': "wf_store ?s" .
  have con': "getContainer ?s c = Some (con\<lparr> itemlist := xs \<rparr>)"
    using con1 getContainer_cell [OF con1] by simp
  have "totalWeight con = sum_list (map (weight_of items s) (itemlist con))"
    using w con by (auto simp: weights_right_def weight_error_def dest: spec [of _ c])
  then have "totalWeight con - sum_list (map (weight_of items s) xs) = - weight_of items s i"
    using xs by auto
  then have "weight_error items ?s x = (if x = c then - weight_of items s i else 0)" for x
    using w by (simp add: weight_error_relist [OF con1] weights_right_def cong: map_cong)
  from updateItemWeight_settles [OF wf' [unfolded wf_store_loose] _ con' this] show ?thesis
    unfolding wf_store_loose by blast
qed

lemma weight_of_link:
  "getContainer s c = Some con \<Longrightarrow>
     weight_of items (setContainer c (con\<lparr> itemlist := xs \<rparr>) (setParent i p s)) = weight_of items s"
  by (simp add: weight_of_relist [of "setParent i p s" c con])

lemma internalAddThing_ok:
  assumes "wf_store s" "weights_right items s" "getContainer s c = Some con" "fits s c i"
  shows "\<exists>s'. internalAddThing items c i s = Some s' \<and> wf_store s' \<and> weights_right items s'"
  using add_link_ok [OF assms, of "i # itemlist con"] assms(3)
  by (simp add: internalAddThing_def Let_def weight_of_link)

lemma addThing_ok:
  assumes "wf_store s" "weights_right items s" "getContainer s c = Some con" "fits s c i"
  shows "\<exists>s'. addThing items c index i s = Some s' \<and> wf_store s' \<and> weights_right items s'"
  using add_link_ok [OF assms, of "i # itemlist con"] assms
  by (simp add: addThing_def Let_def weight_of_link)

lemma update_cell_commute:
  "(\<And>x. f (g x) = g (f x)) \<Longrightarrow> update_cell i f (update_cell j g s) = update_cell j g (update_cell i f s)"
  by (cases "cells s i"; cases "cells s j") (auto simp: update_cell_def fun_eq_iff)

lemma setParent_setContainer:
  "setParent i p (setContainer c con s) = setContainer c con (setParent i p s)"
  unfolding setParent_def setContainer_def by (rule update_cell_commute) simp

lemma addItemBack_ok:
  assumes "wf_store s" "weights_right items s" "getContainer s c = Some con" "fits s c i"
  shows "\<exists>s'. addItemBack items c i s = Some s' \<and> wf_store s' \<and> weights_right items s'"
  using add_link_ok [OF assms, of "itemlist con @ [i]"] assms(3)
  by (simp add: addItemBack_def con_addItem_def setParent_setContainer weight_of_link)

lemma getItem_cell: "getItem s i = Some x \<Longrightarrow> cells s i \<noteq> None"
  by (cases "cells s i") (auto simp: getItem_def)

lemma total_weight_sum:
  assumes "weights_right items s" and "getContainer s c = Some con"
  shows "totalWeight con = sum_list (map (weight_of items s) (itemlist con))"
  using assms by (auto simp: weights_right_def weight_error_def dest: spec [of _ c])

lemma weight_of_setItem:
  "j \<noteq> i \<Longrightarrow> weight_of items (setItem i new s) j = weight_of items s j"
  by (simp add: weight_of_look_ups split: option.split)

lemma weight_error_setItem:
  assumes wf: "wf_store s" and con: "getContainer s c = Some con" and i: "i \<in> set (itemlist con)"
    and right: "weights_right items s"
  shows "weight_error items (setItem i new s) x =
    (if x = c then - (- weight_of items s i + weight_of items (setItem i new s) i) else 0)"
proof (cases "getContainer s x")
  case None
  with con show ?thesis by (auto simp: weight_error_def)
next
  case (Some conx)
  have "distinct (kids s x)" using wf by (simp add: wf_store_def)
  with Some have "distinct (itemlist conx)" by (simp add: kids_def)
  then have sum: "sum_list (map (weight_of items (setItem i new s)) (itemlist conx)) =
      sum_list (map (weight_of items s) (itemlist conx)) +
      (if i \<in> set (itemlist conx) then weight_of items (setItem i new s) i - weight_of items s i else 0)"
    by (rule sum_list_update_one) (rule weight_of_setItem)
  have "i \<in> set (itemlist conx) \<longleftrightarrow> x = c"
    using store_mem [OF wf, of i x] store_mem [OF wf, of i c] Some con i by (auto simp: kids_def)
  with sum Some total_weight_sum [OF right Some] show ?thesis
    by (simp add: weight_error_def)
qed

text \<open>A changed item: its container is told the difference.\<close>

lemma setItem_ok:
  assumes "wf_store s" "weights_right items s" and con: "getContainer s c = Some con"
    and "i \<in> set (itemlist con)"
  shows "\<exists>s'. updateItemWeight c (- weight_of items s i + weight_of items (setItem i new s) i)
      (setItem i new s) = Some s' \<and> wf_store s' \<and> weights_right items s'"
proof -
  have "wf_loose (setItem i new s) {}"
    using assms(1) wf_cong [of "setItem i new s" s] by (simp add: wf_store_loose [symmetric])
  moreover have "getContainer (setItem i new s) c = Some con" using con by simp
  ultimately show ?thesis
    using updateItemWeight_settles [OF _ _ _ weight_error_setItem [OF assms(1,3,4,2)], of new "{}" con]
    unfolding wf_store_loose by blast
qed

lemma index_of_ge: "0 \<le> k \<Longrightarrow> index_of x xs k = -1 \<or> k \<le> index_of x xs k"
proof (induction xs arbitrary: k)
  case Nil
  then show ?case by simp
next
  case (Cons y xs)
  have "index_of x xs (k + 1) = -1 \<or> k + 1 \<le> index_of x xs (k + 1)"
    using Cons by (intro Cons.IH) simp
  then show ?case by auto
qed

lemma index_of_none: "0 \<le> k \<Longrightarrow> index_of x xs k = -1 \<longleftrightarrow> x \<notin> set xs"
  by (induction xs arbitrary: k) auto

lemma index_of_some:
  "0 \<le> k \<Longrightarrow> x \<in> set xs \<Longrightarrow>
     nat (index_of x xs k - k) < length xs \<and> xs ! nat (index_of x xs k - k) = x"
proof (induction xs arbitrary: k)
  case Nil
  then show ?case by simp
next
  case (Cons y xs)
  show ?case
  proof (cases "y = x")
    case True
    then show ?thesis by simp
  next
    case False
    with Cons.prems have "x \<in> set xs" by simp
    then have "k + 1 \<le> index_of x xs (k + 1)"
      using index_of_ge [of "k + 1" x xs] index_of_none [of "k + 1" x xs] Cons.prems by simp
    then have "nat (index_of x xs (k + 1) - k) = Suc (nat (index_of x xs (k + 1) - (k + 1)))" by simp
    with Cons.IH [of "k + 1"] Cons.prems False \<open>x \<in> set xs\<close> show ?thesis by simp
  qed
qed

lemma getThingIndex_none: "getThingIndex con i = -1 \<longleftrightarrow> i \<notin> set (itemlist con)"
  by (simp add: getThingIndex_def index_of_none)

lemma getThingIndex_nth:
  "i \<in> set (itemlist con) \<Longrightarrow>
     nat (getThingIndex con i) < length (itemlist con) \<and> itemlist con ! nat (getThingIndex con i) = i"
  using index_of_some [of 0 i "itemlist con"] by (simp add: getThingIndex_def)

lemma updateThing_ok:
  assumes "wf_store s" "weights_right items s" "getContainer s c = Some con" "getItem s i = Some item"
  shows "\<exists>s'. updateThing items c i itemId count s = Some s' \<and> wf_store s' \<and> weights_right items s'"
  using setItem_ok [OF assms(1-3)] assms by (simp add: updateThing_def getThingIndex_none Let_def)

lemma split_at_nth: "k < length xs \<Longrightarrow> xs = take k xs @ xs ! k # drop (Suc k) xs"
  by (rule id_take_nth_drop)

lemma remove_at_facts:
  fixes f :: "'a \<Rightarrow> u32"
  assumes "k < length xs" and "distinct xs"
  shows "distinct (remove_at k xs)" and "set (remove_at k xs) = set xs - {xs ! k}"
    and "sum_list (map f (remove_at k xs)) = sum_list (map f xs) - f (xs ! k)"
proof -
  note xs = split_at_nth [OF assms(1)]
  have d: "distinct (take k xs @ xs ! k # drop (Suc k) xs)" using assms(2) xs by simp
  then show "distinct (remove_at k xs)" by (simp add: remove_at_def)
  have "set xs = set (take k xs @ xs ! k # drop (Suc k) xs)" using xs by simp
  with d show "set (remove_at k xs) = set xs - {xs ! k}" by (auto simp: remove_at_def)
  have "sum_list (map f xs) = sum_list (map f (take k xs @ xs ! k # drop (Suc k) xs))" using xs by simp
  then show "sum_list (map f (remove_at k xs)) = sum_list (map f xs) - f (xs ! k)"
    by (simp add: remove_at_def)
qed

lemma update_at_facts:
  fixes f :: "'a \<Rightarrow> u32"
  assumes "k < length xs" and "distinct xs" and "y \<notin> set xs"
  shows "distinct (xs[k := y])" and "set (xs[k := y]) = insert y (set xs - {xs ! k})"
    and "sum_list (map f (xs[k := y])) = sum_list (map f xs) - f (xs ! k) + f y"
proof -
  note xs = split_at_nth [OF assms(1)]
  have upd: "xs[k := y] = take k xs @ y # drop (Suc k) xs" using assms(1) by (rule upd_conv_take_nth_drop)
  have d: "distinct (take k xs @ xs ! k # drop (Suc k) xs)" using assms(2) xs by simp
  have s: "set xs = set (take k xs @ xs ! k # drop (Suc k) xs)" using xs by simp
  from d s assms(3) show "distinct (xs[k := y])" unfolding upd by auto
  from d s show "set (xs[k := y]) = insert y (set xs - {xs ! k})" unfolding upd by auto
  have "sum_list (map f xs) = sum_list (map f (take k xs @ xs ! k # drop (Suc k) xs))" using xs by simp
  then show "sum_list (map f (xs[k := y])) = sum_list (map f xs) - f (xs ! k) + f y"
    unfolding upd by simp
qed

lemma not_inside_own_item:
  assumes "grounded s" and "getParent s i = Some (ContainerCylinder c)"
  shows "\<not> inside s c i"
proof
  assume inside: "inside s c i"
  from assms(1) obtain depth :: "nat \<Rightarrow> nat"
    where depth: "\<And>j x. getParent s j = Some (ContainerCylinder x) \<Longrightarrow> depth x < depth j"
    by (auto simp: grounded_def)
  from inside have "depth i \<le> depth c"
    by (induction rule: inside.induct) (auto dest: depth)
  with depth [OF assms(2)] show False by simp
qed

lemma removeThing_ok:
  assumes wf: "wf_store s" and right: "weights_right items s"
    and con: "getContainer s c = Some con" and item: "getItem s i = Some item"
  shows "\<exists>s'. removeThing items c i count s = Some s' \<and> wf_store s' \<and> weights_right items s'"
proof (cases "i \<in> set (itemlist con)")
  case False
  with assms show ?thesis by (simp add: removeThing_def getThingIndex_none Let_def)
next
  case i: True
  show ?thesis
  proof (cases "isStackable items item \<and> count \<noteq> ucast (getItemCount item)")
    case True
    with setItem_ok [OF wf right con i] con item i show ?thesis
      by (simp add: removeThing_def getThingIndex_none Let_def)
  next
    case False
    let ?w = "weight_of items s i" and ?xs = "remove_at (nat (getThingIndex con i)) (itemlist con)"
    note loose = wf [unfolded wf_store_loose]
    obtain s1 where s1: "updateItemWeight c (- ?w) s = Some s1"
      using updateItemWeight_total [OF loose _ con] by blast
    have shape: "same_shape s s1"
      and err: "weight_error items s1 x = (if x = c then - ?w else 0)"
      and frame: "\<not> inside s c j \<Longrightarrow> getContainer s1 j = getContainer s j" for x j
      using updateItemWeight_error [OF s1 loose, of items] right by (auto simp: weights_right_def)
    have parent: "getParent s i = Some (ContainerCylinder c)"
      using store_mem [OF wf, of i c] con i by (simp add: kids_def)
    have "\<not> inside s c i" by (rule not_inside_own_item [OF loose_grounded [OF loose] parent])
    then have "getContainer s1 i = getContainer s i" by (rule frame)
    moreover have "getItem s1 i = getItem s i" using shape by (simp add: same_shape_def)
    ultimately have w: "weight_of items s1 i = ?w"
      by (simp add: weight_of_look_ups split: option.split)
    obtain con1 where con1: "getContainer s1 c = Some con1" and list1: "itemlist con1 = itemlist con"
      using same_shape_container [OF shape con] by blast
    let ?s = "setContainer c (con1\<lparr> itemlist := ?xs \<rparr>) (setParent i None s1)"
    have wf1: "wf_store s1" using shape wf same_shape_wf by blast
    then have "distinct (itemlist con)"
      using con1 list1 by (auto simp: wf_store_def kids_def dest: spec [of _ c])
    with getThingIndex_nth [OF i]
    have xs: "distinct ?xs" "set ?xs = set (itemlist con) - {i}"
      "sum_list (map (weight_of items s1) ?xs) = sum_list (map (weight_of items s1) (itemlist con)) - ?w"
      using remove_at_facts [of "nat (getThingIndex con i)" "itemlist con"] w by auto
    have "cells s1 i \<noteq> None"
      using shape item by (intro getItem_cell [of s1 i item]) (simp add: same_shape_def)
    from wf_unlink [OF wf1 con1 this xs(1)] xs(2) i list1 have "wf_store ?s" by simp
    moreover have "weights_right items ?s"
    proof -
      have "totalWeight con1 - sum_list (map (weight_of items s1) (itemlist con)) = - ?w"
        using err [of c] con1 list1 by (simp add: weight_error_def)
      then have "totalWeight con1 - sum_list (map (weight_of items s1) ?xs) = 0"
        unfolding xs(3) by (simp add: algebra_simps)
      moreover have "getContainer (setParent i None s1) c = Some con1" using con1 by simp
      ultimately show ?thesis
        unfolding weights_right_def by (simp add: weight_error_relist err)
    qed
    moreover have "removeThing items c i count s = Some ?s"
      using con item i False s1 con1 list1
      by (simp add: removeThing_def getThingIndex_none Let_def setParent_setContainer del: de_Morgan_conj)
    ultimately show ?thesis by blast
  qed
qed

lemma wf_drop_loose:
  assumes loose: "wf_loose s {r}" and r: "cells s r \<noteq> None" and gone: "\<And>c. r \<notin> set (kids s c)"
  shows "wf_store (setParent r None s)" (is "wf_store ?s")
proof -
  have parent: "getParent ?s j = (if j = r then None else getParent s j)" for j using r by simp
  from loose_grounded [OF loose] obtain depth :: "nat \<Rightarrow> nat"
    where "\<forall>j x. getParent s j = Some (ContainerCylinder x) \<longrightarrow> depth x < depth j"
    by (auto simp: grounded_def)
  then have "grounded ?s" unfolding grounded_def by (intro exI [of _ depth]) (simp add: parent)
  moreover have "distinct (kids ?s c)" for c using loose by (simp add: loose_distinct)
  moreover have "j \<in> set (kids ?s c) \<longleftrightarrow> getParent ?s j = Some (ContainerCylinder c)" for j c
    using gone [of c] loose_mem [OF loose, of j c] r by (cases "j = r") simp_all
  ultimately show ?thesis unfolding wf_store_def by (intro conjI allI)
qed

lemma getItemByIndex_Some:
  "getItemByIndex con index = Some r \<longleftrightarrow>
     0 \<le> index \<and> nat index < length (itemlist con) \<and> itemlist con ! nat index = r"
  by (auto simp: getItemByIndex_def con_size_def)

lemma replaceThing_ok:
  assumes wf: "wf_store s" and right: "weights_right items s"
    and con: "getContainer s c = Some con" and fit: "fits s c i"
  shows "\<exists>s'. replaceThing items c index i s = Some s' \<and> wf_store s' \<and> weights_right items s'"
proof (cases "getItemByIndex con (uint index)")
  case None
  with assms show ?thesis by (simp add: replaceThing_def)
next
  case (Some r)
  let ?xs = "(itemlist con)[unat index := i]"
  let ?link = "\<lambda>xs. setContainer c (con\<lparr> itemlist := xs \<rparr>) (setParent i (Some (ContainerCylinder c)) s)"
  let ?s = "?link ?xs"
  let ?d = "- weight_of items s r + weight_of items s i"
  have r: "unat index < length (itemlist con)" "itemlist con ! unat index = r"
    using Some by (simp_all add: getItemByIndex_Some)
  then have r_in: "r \<in> set (itemlist con)" by auto
  have "i \<notin> set (kids s c)" using store_mem [OF wf, of i c] fit by (simp add: fits_def)
  with con have fresh: "i \<notin> set (itemlist con)" by (simp add: kids_def)
  then have "r \<noteq> i" using r_in by blast
  have dist: "distinct (itemlist con)" using wf con by (auto simp: wf_store_def kids_def dest: spec [of _ c])
  note xs = update_at_facts [OF r(1) dist fresh, unfolded r(2)]
  have con1: "getContainer (setParent i (Some (ContainerCylinder c)) s) c = Some con" using con by simp
  have kids: "kids (?link ys) x = (if x = c then ys else kids s x)" for ys x
    by (simp add: kids_setContainer [OF con1])
  have whole: "wf_store (?link (i # itemlist con))"
    using fresh dist by (intro wf_link [OF wf con fit]) auto
  have grounded: "grounded ?s"
    using whole grounded_cong [of ?s "?link (i # itemlist con)"] by (simp add: wf_store_def)
  have same: "getParent ?s j = getParent (?link (i # itemlist con)) j" for j by simp
  have "getParent s r = Some (ContainerCylinder c)"
    using store_mem [OF wf, of r c] r_in con by (simp add: kids_def)
  with \<open>r \<noteq> i\<close> have r_parent: "getParent ?s r = Some (ContainerCylinder c)" by simp
  have kids_minus: "set (kids ?s x) = set (kids (?link (i # itemlist con)) x) - (if x = c then {r} else {})" for x
    unfolding kids using xs(2) \<open>r \<noteq> i\<close> by auto
  have mem: "j \<in> set (kids ?s x) \<longleftrightarrow> j \<noteq> r \<and> getParent ?s j = Some (ContainerCylinder x)" for j x
  proof (cases "x = c")
    case True
    then show ?thesis unfolding kids_minus same store_mem [OF whole, symmetric] by simp blast
  next
    case False
    with r_parent have "getParent ?s r \<noteq> Some (ContainerCylinder x)" by simp
    with False show ?thesis unfolding kids_minus same store_mem [OF whole, symmetric] by auto
  qed
  have "distinct (kids ?s x)" for x using wf xs(1) unfolding kids by (simp add: wf_store_def)
  moreover have "j \<in> set (kids ?s x) \<longrightarrow> getParent ?s j = Some (ContainerCylinder x)" for j x
    using mem [of j x] by blast
  moreover have "j \<notin> {r} \<longrightarrow> getParent ?s j = Some (ContainerCylinder x) \<longrightarrow> j \<in> set (kids ?s x)" for j x
    using mem [of j x] by blast
  ultimately have loose: "wf_loose ?s {r}"
    using grounded unfolding wf_loose_def by blast
  have out: "\<forall>x\<in>{r}. \<not> inside ?s c x"
    using not_inside_own_item [OF grounded r_parent] by blast
  have con2: "getContainer ?s c = Some (con\<lparr> itemlist := ?xs \<rparr>)"
    using con1 getContainer_cell [OF con1] by simp
  have "weight_error items ?s x = (if x = c then - ?d else 0)" for x
    using right total_weight_sum [OF right con]
    by (simp add: weight_error_relist [OF con1] weights_right_def xs(3))
  from updateItemWeight_settles [OF loose out con2 this]
  obtain s' where s': "updateItemWeight c ?d ?s = Some s'" "same_shape ?s s'" "wf_loose s' {r}"
    "weights_right items s'" by blast
  have "r \<notin> set (kids s' x)" for x
    using mem [of r x] r_parent by (simp add: same_shape_kids [OF s'(2)])
  moreover have "cells s' r \<noteq> None"
  proof -
    have "getParent s' r = getParent ?s r" using s'(2) by (simp only: same_shape_def)
    with r_parent have "getParent s' r \<noteq> None" by simp
    then show ?thesis by (cases "cells s' r") (simp_all add: getParent_def)
  qed
  ultimately have "wf_store (setParent r None s')" using wf_drop_loose [OF s'(3)] by blast
  moreover have "weights_right items (setParent r None s')" using s'(4) by (simp add: weights_right_def)
  moreover have "replaceThing items c index i s = Some (setParent r None s')"
    using con Some s'(1)
    by (simp add: replaceThing_def Let_def setParent_setContainer weight_of_link weight_of_relist [OF con])
  ultimately show ?thesis by blast
qed

section \<open>Sequences of operations\<close>

datatype con_op =
    AddThing nat int nat
  | InternalAddThing nat nat
  | AddItemBack nat nat
  | UpdateThing nat nat u16 u32
  | ReplaceThing nat u32 nat
  | RemoveThing nat nat u32

fun run_op :: "item_types \<Rightarrow> con_op \<Rightarrow> store \<Rightarrow> store option" where
  "run_op items (AddThing c index i) s = addThing items c index i s"
| "run_op items (InternalAddThing c i) s = internalAddThing items c i s"
| "run_op items (AddItemBack c i) s = addItemBack items c i s"
| "run_op items (UpdateThing c i itemId count) s = updateThing items c i itemId count s"
| "run_op items (ReplaceThing c index i) s = replaceThing items c index i s"
| "run_op items (RemoveThing c i count) s = removeThing items c i count s"

text \<open>What the callers see to: the container and the item exist, and a new item fits.\<close>

fun admissible :: "con_op \<Rightarrow> store \<Rightarrow> bool" where
  "admissible (AddThing c index i) s \<longleftrightarrow> getContainer s c \<noteq> None \<and> fits s c i"
| "admissible (InternalAddThing c i) s \<longleftrightarrow> getContainer s c \<noteq> None \<and> fits s c i"
| "admissible (AddItemBack c i) s \<longleftrightarrow> getContainer s c \<noteq> None \<and> fits s c i"
| "admissible (UpdateThing c i itemId count) s \<longleftrightarrow> getContainer s c \<noteq> None \<and> getItem s i \<noteq> None"
| "admissible (ReplaceThing c index i) s \<longleftrightarrow> getContainer s c \<noteq> None \<and> fits s c i"
| "admissible (RemoveThing c i count) s \<longleftrightarrow> getContainer s c \<noteq> None \<and> getItem s i \<noteq> None"

inductive con_reachable :: "item_types \<Rightarrow> store \<Rightarrow> store \<Rightarrow> bool" for items s where
  start: "con_reachable items s s"
| step: "con_reachable items s s1 \<Longrightarrow> admissible oper s1 \<Longrightarrow> run_op items oper s1 = Some s2 \<Longrightarrow>
    con_reachable items s s2"

lemma run_op_ok:
  assumes "wf_store s" and "weights_right items s" and "admissible oper s"
  shows "\<exists>s'. run_op items oper s = Some s' \<and> wf_store s' \<and> weights_right items s'"
  using assms
  by (cases oper)
    (auto intro!: addThing_ok internalAddThing_ok addItemBack_ok updateThing_ok replaceThing_ok removeThing_ok)

text \<open>
  C22:
  From a store in which the lists and the parents agree, no container is inside itself and every
  container knows the weight of its contents, any sequence of additions, replacements, changes and
  removals of items leads to such a store again, through all levels of nesting, and the next
  operation always completes.
\<close>

theorem container_weights_right:
  assumes "wf_store s0" and "weights_right items s0" and "con_reachable items s0 s"
  shows "wf_store s \<and> weights_right items s \<and>
    (admissible oper s \<longrightarrow> (\<exists>s'. run_op items oper s = Some s'))"
proof -
  from assms(3) have "wf_store s \<and> weights_right items s"
  proof (induction rule: con_reachable.induct)
    case start
    then show ?case using assms(1,2) by blast
  next
    case (step s1 oper s2)
    with run_op_ok [of s1 items oper] show ?case by auto
  qed
  with run_op_ok [of s items oper] show ?thesis by blast
qed

text \<open>A bag with one item in it and an empty bag beside it, for the witnesses.\<close>

definition demo_types :: item_types where
  "demo_types type = \<lparr> it_fluidContainer = False, it_splash = False, it_stackable = False, it_moveable = True,
     it_pickupable = True, it_stopTime = False, it_charges = 0, it_weight = 10, it_decayTime = 0,
     it_decayTo = -1, it_maxItems = 8 \<rparr>"

definition demo_item :: "u16 \<Rightarrow> item" where
  "demo_item type = \<lparr> item_id = type, item_count = 1, item_attrs = None \<rparr>"

definition demo_bag :: "u32 \<Rightarrow> nat list \<Rightarrow> container" where
  "demo_bag w is = \<lparr> maxSize = 8, totalWeight = w, itemlist = is, unlocked = True, isInbox = False \<rparr>"

definition demo_store :: store where
  "demo_store = \<lparr> cells =
     [0 \<mapsto> \<lparr> cell_item = demo_item 1, cell_parent = None, cell_container = Some (demo_bag 10 [1]) \<rparr>,
      1 \<mapsto> \<lparr> cell_item = demo_item 3, cell_parent = Some (ContainerCylinder 0), cell_container = None \<rparr>,
      2 \<mapsto> \<lparr> cell_item = demo_item 1, cell_parent = None, cell_container = Some (demo_bag 0 []) \<rparr>],
     player_tile = Map.empty \<rparr>"

lemma demo_cells:
  "getContainer demo_store i = (if i = 0 then Some (demo_bag 10 [1]) else if i = 2 then Some (demo_bag 0 []) else None)"
  "getParent demo_store i = (if i = 1 then Some (ContainerCylinder 0) else None)"
  "getItem demo_store i = (if i = 1 then Some (demo_item 3) else if i = 0 \<or> i = 2 then Some (demo_item 1) else None)"
  by (simp_all add: demo_store_def getContainer_def getParent_def getItem_def)

lemma demo_kids: "kids demo_store c = (if c = 0 then [1] else [])"
  by (simp add: kids_def demo_cells demo_bag_def)

lemma demo_wf: "wf_store demo_store"
  unfolding wf_store_def grounded_def
  by (intro conjI exI [of _ id]) (simp_all add: demo_kids demo_cells)

lemma demo_right: "weights_right demo_types demo_store"
  by (simp add: weights_right_def weight_error_def weight_of_look_ups demo_cells demo_bag_def getWeight_def
      getBaseWeight_def hasAttribute_def demo_item_def demo_types_def isStackable_def)

lemma demo_finite: "finite {i. cells demo_store i \<noteq> None}"
proof (rule finite_subset)
  show "{i. cells demo_store i \<noteq> None} \<subseteq> {0, 1, 2}"
    by (auto simp: demo_store_def split: if_splits)
qed simp

theorem container_weights_right_witness:
  "wf_store demo_store \<and> weights_right demo_types demo_store \<and>
    (\<exists>s'. run_op demo_types (RemoveThing 0 1 1) demo_store = Some s')"
  using container_weights_right [OF demo_wf demo_right con_reachable.start, of "RemoveThing 0 1 1"]
  by (simp add: demo_cells)

end
