(* ===== verification/ContainerQuery.thy ===== *)
theory ContainerQuery
  imports Container
begin

text \<open>
  The questions that the game puts to a container before it moves an item (\<open>container.cpp\<close>,
  \<open>inbox.cpp\<close>, and \<open>getTopParent\<close> of \<open>item.cpp\<close>): may the item be added, how much of it, may it be
  removed, and where does it go. The answer of a tile, a player or a special container at the top of
  the chain is the parameter \<open>outer\<close>.
\<close>

section \<open>Flags and item properties\<close>

definition FLAG_NOLIMIT :: u32 where "FLAG_NOLIMIT = 1"
definition FLAG_CHILDISOWNER :: u32 where "FLAG_CHILDISOWNER = 8"
definition FLAG_IGNORENOTMOVEABLE :: u32 where "FLAG_IGNORENOTMOVEABLE = 64"
definition FLAG_IGNOREAUTOSTACK :: u32 where "FLAG_IGNOREAUTOSTACK = 128"
definition INDEX_WHEREEVER :: int where "INDEX_WHEREEVER = -1"

definition hasBitSet :: "u32 \<Rightarrow> u32 \<Rightarrow> bool" where
  "hasBitSet flag flags = (and flags flag \<noteq> 0)"

definition isPickupable :: "item_types \<Rightarrow> item \<Rightarrow> bool" where
  "isPickupable items i = it_pickupable (items (item_id i))"

definition isMoveable :: "item_types \<Rightarrow> item \<Rightarrow> bool" where
  "isMoveable items i = it_moveable (items (item_id i))"

section \<open>The cylinders above an item\<close>

partial_function (option) top_walk :: "store \<Rightarrow> cylinder option \<Rightarrow> cylinder \<Rightarrow> (cylinder option \<times> cylinder) option" where
  "top_walk s prevaux aux =
     (case cylinder_parent s aux of
        None \<Rightarrow> Some (prevaux, aux)
      | Some p \<Rightarrow> top_walk s (Some aux) p)"

definition as_cylinder :: "store \<Rightarrow> nat \<Rightarrow> cylinder option" where
  "as_cylinder s i = (if getContainer s i = None then None else Some (ContainerCylinder i))"

definition getTopParent :: "store \<Rightarrow> nat \<Rightarrow> cylinder option option" where
  "getTopParent s i =
     (case getParent s i of
        None \<Rightarrow> Some (as_cylinder s i)
      | Some aux \<Rightarrow>
          (case top_walk s (as_cylinder s i) aux of
             None \<Rightarrow> None
           | Some (Some prevaux, aux') \<Rightarrow> Some (Some prevaux)
           | Some (None, aux') \<Rightarrow> Some (Some aux')))"

fun is_inbox :: "store \<Rightarrow> cylinder \<Rightarrow> bool" where
  "is_inbox s (ContainerCylinder c) = (case getContainer s c of None \<Rightarrow> False | Some con \<Rightarrow> isInbox con)"
| "is_inbox s _ = False"

text \<open>The loop of \<open>queryAdd\<close>: no cylinder above may be the item itself, nor, within the limits, an inbox.\<close>

partial_function (option) walk_parents :: "store \<Rightarrow> nat \<Rightarrow> bool \<Rightarrow> cylinder \<Rightarrow> ReturnValue option" where
  "walk_parents s i limit y =
     (if y = ContainerCylinder i then Some RETURNVALUE_THISISIMPOSSIBLE
      else if limit \<and> is_inbox s y then Some RETURNVALUE_CONTAINERNOTENOUGHROOM
      else
        (case cylinder_parent s y of
           None \<Rightarrow> Some RETURNVALUE_NOERROR
         | Some cylinder \<Rightarrow> walk_parents s i limit cylinder))"

definition check_parents :: "store \<Rightarrow> nat \<Rightarrow> bool \<Rightarrow> cylinder option \<Rightarrow> ReturnValue option" where
  "check_parents s i limit cyl =
     (case cyl of None \<Rightarrow> Some RETURNVALUE_NOERROR | Some cylinder \<Rightarrow> walk_parents s i limit cylinder)"

section \<open>Queries\<close>

type_synonym top_query = "cylinder \<Rightarrow> nat \<Rightarrow> u32 \<Rightarrow> u32 \<Rightarrow> ReturnValue"

definition inbox_queryAdd :: "item_types \<Rightarrow> store \<Rightarrow> nat \<Rightarrow> nat \<Rightarrow> u32 \<Rightarrow> ReturnValue" where
  "inbox_queryAdd items s c i flags =
     (if \<not> hasBitSet FLAG_NOLIMIT flags then RETURNVALUE_CONTAINERNOTENOUGHROOM
      else
        (case getItem s i of
           None \<Rightarrow> RETURNVALUE_NOTPOSSIBLE
         | Some item \<Rightarrow>
             if i = c then RETURNVALUE_THISISIMPOSSIBLE
             else if \<not> isPickupable items item then RETURNVALUE_CANNOTPICKUP
             else RETURNVALUE_NOERROR))"

definition plain_queryAdd :: "item_types \<Rightarrow> top_query \<Rightarrow> store \<Rightarrow> nat \<Rightarrow> container \<Rightarrow> int \<Rightarrow> nat \<Rightarrow> u32 \<Rightarrow> u32
    \<Rightarrow> ReturnValue option" where
  "plain_queryAdd items outer s c con index i count flags =
     (if hasBitSet FLAG_CHILDISOWNER flags then Some RETURNVALUE_NOERROR
      else if \<not> unlocked con then Some RETURNVALUE_NOTPOSSIBLE
      else
        (case getItem s i of
           None \<Rightarrow> Some RETURNVALUE_NOTPOSSIBLE
         | Some item \<Rightarrow>
             if \<not> isPickupable items item then Some RETURNVALUE_CANNOTPICKUP
             else if i = c then Some RETURNVALUE_THISISIMPOSSIBLE
             else
               (let limit = \<not> hasBitSet FLAG_NOLIMIT flags
                in case check_parents s i limit (getParent s c) of
                     None \<Rightarrow> None
                   | Some r \<Rightarrow>
                       if r \<noteq> RETURNVALUE_NOERROR then Some r
                       else if limit \<and> index = INDEX_WHEREEVER \<and> con_size con \<ge> unat (capacity con)
                         then Some RETURNVALUE_CONTAINERNOTENOUGHROOM
                       else
                         (case getTopParent s c of
                            None \<Rightarrow> None
                          | Some None \<Rightarrow> None
                          | Some (Some topParent) \<Rightarrow>
                              if topParent \<noteq> ContainerCylinder c
                                then Some (outer topParent i count (or flags FLAG_CHILDISOWNER))
                              else Some RETURNVALUE_NOERROR))))"

definition queryAdd :: "item_types \<Rightarrow> top_query \<Rightarrow> store \<Rightarrow> nat \<Rightarrow> int \<Rightarrow> nat \<Rightarrow> u32 \<Rightarrow> u32 \<Rightarrow> ReturnValue option" where
  "queryAdd items outer s c index i count flags =
     (case getContainer s c of
        None \<Rightarrow> None
      | Some con \<Rightarrow>
          if isInbox con then Some (inbox_queryAdd items s c i flags)
          else plain_queryAdd items outer s c con index i count flags)"

definition queryRemove :: "item_types \<Rightarrow> store \<Rightarrow> nat \<Rightarrow> nat \<Rightarrow> u32 \<Rightarrow> u32 \<Rightarrow> ReturnValue option" where
  "queryRemove items s c i count flags =
     (case getContainer s c of
        None \<Rightarrow> None
      | Some con \<Rightarrow> Some
          (if getThingIndex con i = -1 then RETURNVALUE_NOTPOSSIBLE
           else
             (case getItem s i of
                None \<Rightarrow> RETURNVALUE_NOTPOSSIBLE
              | Some item \<Rightarrow>
                  if count = 0 \<or> isStackable items item \<and> count > ucast (getItemCount item)
                    then RETURNVALUE_NOTPOSSIBLE
                  else if \<not> isMoveable items item \<and> \<not> hasBitSet FLAG_IGNORENOTMOVEABLE flags
                    then RETURNVALUE_NOTMOVEABLE
                  else RETURNVALUE_NOERROR)))"

text \<open>An item of the list that the moved item can be stacked on.\<close>

definition stacks_on :: "store \<Rightarrow> nat \<Rightarrow> item \<Rightarrow> nat \<Rightarrow> bool" where
  "stacks_on s i item j =
     (case getItem s j of
        None \<Rightarrow> False
      | Some listItem \<Rightarrow> j \<noteq> i \<and> equals listItem (Some item) \<and> getItemCount listItem < 100)"

fun find_stack :: "store \<Rightarrow> nat \<Rightarrow> item \<Rightarrow> nat list \<Rightarrow> int \<Rightarrow> (nat \<times> int) option" where
  "find_stack s i item [] n = None"
| "find_stack s i item (j # rest) n =
     (if stacks_on s i item j then Some (j, n) else find_stack s i item rest (n + 1))"

text \<open>The result: the cylinder (always a container here), the new index and the item to stack on.\<close>

definition queryDestination :: "item_types \<Rightarrow> store \<Rightarrow> nat \<Rightarrow> int \<Rightarrow> nat \<Rightarrow> nat option \<Rightarrow> u32
    \<Rightarrow> (nat \<times> int \<times> nat option) option" where
  "queryDestination items s c index0 i dest0 flags =
     (case getContainer s c of
        None \<Rightarrow> None
      | Some con \<Rightarrow> Some
          (if \<not> unlocked con then (c, index0, None)
           else if index0 = 254 then
             (case getParentContainer s c of
                Some parentContainer \<Rightarrow> (parentContainer, INDEX_WHEREEVER, None)
              | None \<Rightarrow> (c, INDEX_WHEREEVER, None))
           else
             (let (index, dest) =
                (if index0 = 255 \<or> index0 \<ge> sint (capacity con) then (INDEX_WHEREEVER, None)
                 else (index0, dest0))
              in case getItem s i of
                   None \<Rightarrow> (c, index, dest)
                 | Some item \<Rightarrow>
                     (case (if \<not> hasBitSet FLAG_IGNOREAUTOSTACK flags \<and> isStackable items item
                               \<and> getParent s i \<noteq> Some (ContainerCylinder c)
                            then find_stack s i item (itemlist con) 0 else None) of
                        Some (j, n) \<Rightarrow> (c, n, Some j)
                      | None \<Rightarrow>
                          if index = INDEX_WHEREEVER then (c, index, dest)
                          else
                            (let dest' = (case getItemByIndex con index of None \<Rightarrow> dest | Some j \<Rightarrow> Some j)
                             in case Option.bind dest' (as_cylinder s) of
                                  Some (ContainerCylinder sub) \<Rightarrow> (sub, INDEX_WHEREEVER, None)
                                | _ \<Rightarrow> (c, index, dest'))))))"

fun free_stacks :: "(int \<Rightarrow> u32 \<Rightarrow> ReturnValue option) \<Rightarrow> store \<Rightarrow> nat \<Rightarrow> item \<Rightarrow> nat list \<Rightarrow> int \<Rightarrow> u32 \<Rightarrow> u32 option" where
  "free_stacks add s i item [] slotIndex n = Some n"
| "free_stacks add s i item (j # rest) slotIndex n =
     (if stacks_on s i item j then
        (let remainder = 100 - ucast (getItemCount (the (getItem s j)))
         in case add slotIndex remainder of
              None \<Rightarrow> None
            | Some r \<Rightarrow> free_stacks add s i item rest (slotIndex + 1)
                (if r = RETURNVALUE_NOERROR then n + remainder else n))
      else free_stacks add s i item rest slotIndex n)"

definition queryMaxCount :: "item_types \<Rightarrow> top_query \<Rightarrow> store \<Rightarrow> nat \<Rightarrow> int \<Rightarrow> nat \<Rightarrow> u32 \<Rightarrow> u32
    \<Rightarrow> (ReturnValue \<times> u32) option" where
  "queryMaxCount items outer s c index i count flags =
     (case getContainer s c of
        None \<Rightarrow> None
      | Some con \<Rightarrow>
          (case getItem s i of
             None \<Rightarrow> Some (RETURNVALUE_NOTPOSSIBLE, 0)
           | Some item \<Rightarrow>
               if hasBitSet FLAG_NOLIMIT flags then Some (RETURNVALUE_NOERROR, max 1 count)
               else
                 (let free = capacity con - of_nat (con_size con);
                      freeSlots = (if free <s 0 then 0 else free)
                  in if isStackable items item then
                       map_option
                         (\<lambda>n. let m = freeSlots * 100 + n
                              in (if m < count then RETURNVALUE_CONTAINERNOTENOUGHROOM else RETURNVALUE_NOERROR, m))
                         (if index = INDEX_WHEREEVER then
                            free_stacks (\<lambda>slot n. queryAdd items outer s c slot i n flags)
                              s i item (itemlist con) 0 0
                          else
                            (case Option.bind (getItemByIndex con index) (getItem s) of
                               None \<Rightarrow> Some 0
                             | Some destItem \<Rightarrow>
                                 if equals item (Some destItem) \<and> getItemCount destItem < 100 then
                                   (let remainder = 100 - ucast (getItemCount destItem)
                                    in map_option (\<lambda>r. if r = RETURNVALUE_NOERROR then remainder else 0)
                                         (queryAdd items outer s c index i remainder flags))
                                 else Some 0))
                     else
                       Some (if freeSlots = 0 then RETURNVALUE_CONTAINERNOTENOUGHROOM else RETURNVALUE_NOERROR,
                             freeSlots))))"

section \<open>The walks end\<close>

lemma top_walk_total:
  assumes "grounded s"
  shows "\<exists>r. top_walk s prevaux y = Some r"
proof -
  have plain: "\<exists>r. top_walk s prevaux (TileCylinder t) = Some r" "\<exists>r. top_walk s prevaux VirtualCylinder = Some r"
    for t prevaux by (subst top_walk.simps; simp)+
  have player: "\<exists>r. top_walk s prevaux (PlayerCylinder p) = Some r" for p prevaux
    using plain by (subst top_walk.simps) (cases "player_tile s p"; simp)
  from assms obtain depth :: "nat \<Rightarrow> nat"
    where depth: "\<And>i c. getParent s i = Some (ContainerCylinder c) \<Longrightarrow> depth c < depth i"
    by (auto simp: grounded_def)
  have con: "\<exists>r. top_walk s prevaux (ContainerCylinder c) = Some r" for c prevaux
  proof (induction "depth c" arbitrary: c prevaux rule: less_induct)
    case less
    show ?case
    proof (cases "getParent s c")
      case None
      then show ?thesis by (subst top_walk.simps) simp
    next
      case (Some y)
      have "\<exists>r. top_walk s (Some (ContainerCylinder c)) y = Some r"
        using less [of _ "Some (ContainerCylinder c)"] depth plain player Some by (cases y) auto
      with Some show ?thesis by (subst top_walk.simps) simp
    qed
  qed
  show ?thesis using con plain player by (cases y) simp_all
qed

lemma getTopParent_total:
  assumes "grounded s" and "getContainer s c \<noteq> None"
  shows "\<exists>y. getTopParent s c = Some (Some y)"
proof (cases "getParent s c")
  case None
  with assms show ?thesis by (simp add: getTopParent_def as_cylinder_def)
next
  case (Some aux)
  obtain prevaux aux' where "top_walk s (as_cylinder s c) aux = Some (prevaux, aux')"
    using top_walk_total [OF assms(1), of "as_cylinder s c" aux] by auto
  with Some show ?thesis by (cases prevaux) (simp_all add: getTopParent_def)
qed

lemma walk_parents_total:
  assumes "grounded s"
  shows "\<exists>r. walk_parents s i limit y = Some r"
proof -
  have plain: "\<exists>r. walk_parents s i limit (TileCylinder t) = Some r"
    "\<exists>r. walk_parents s i limit VirtualCylinder = Some r"
    for t by (subst walk_parents.simps; simp)+
  have player: "\<exists>r. walk_parents s i limit (PlayerCylinder p) = Some r" for p
    using plain by (subst walk_parents.simps) (cases "player_tile s p"; simp)
  from assms obtain depth :: "nat \<Rightarrow> nat"
    where depth: "\<And>i c. getParent s i = Some (ContainerCylinder c) \<Longrightarrow> depth c < depth i"
    by (auto simp: grounded_def)
  have con: "\<exists>r. walk_parents s i limit (ContainerCylinder c) = Some r" for c
  proof (induction "depth c" arbitrary: c rule: less_induct)
    case less
    show ?case
    proof (cases "getParent s c")
      case None
      then show ?thesis by (subst walk_parents.simps) simp
    next
      case (Some y)
      have "\<exists>r. walk_parents s i limit y = Some r"
        using less depth plain player Some by (cases y) auto
      with Some show ?thesis by (subst walk_parents.simps) auto
    qed
  qed
  show ?thesis using con plain player by (cases y) simp_all
qed

lemma check_parents_total: "grounded s \<Longrightarrow> \<exists>r. check_parents s i limit cyl = Some r"
  using walk_parents_total by (auto simp: check_parents_def split: option.split)

text \<open>No error means that the container does not lie inside the item.\<close>

lemma walk_parents_no_error:
  assumes "inside s c i" and "walk_parents s i limit (ContainerCylinder c) = Some r"
  shows "r \<noteq> RETURNVALUE_NOERROR"
  using assms
proof (induction arbitrary: r rule: inside.induct)
  case self
  then show ?case by (subst (asm) walk_parents.simps) simp
next
  case (up j p i)
  then show ?case by (subst (asm) (2) walk_parents.simps) (auto split: if_splits)
qed

lemma check_parents_not_inside:
  assumes "check_parents s i limit (getParent s c) = Some RETURNVALUE_NOERROR" and "i \<noteq> c"
  shows "\<not> inside s c i"
proof
  assume "inside s c i"
  with assms(2) obtain p where "getParent s c = Some (ContainerCylinder p)" "inside s p i"
    by (auto elim: inside.cases)
  with assms(1) walk_parents_no_error [of s p i limit] show False by (simp add: check_parents_def)
qed

section \<open>Accepted moves\<close>

lemma plain_queryAdd_total:
  assumes "grounded s" and "getContainer s c = Some con"
  shows "\<exists>r. plain_queryAdd items outer s c con index i count flags = Some r"
proof -
  obtain r where "check_parents s i (\<not> hasBitSet FLAG_NOLIMIT flags) (getParent s c) = Some r"
    using check_parents_total [OF assms(1)] by blast
  moreover obtain y where "getTopParent s c = Some (Some y)"
    using getTopParent_total [OF assms(1), of c] assms(2) by auto
  ultimately show ?thesis by (simp add: plain_queryAdd_def Let_def split: option.split)
qed

lemma plain_queryAdd_no_error:
  assumes "plain_queryAdd items outer s c con index i count flags = Some RETURNVALUE_NOERROR"
    and "\<not> hasBitSet FLAG_CHILDISOWNER flags"
  shows "\<not> inside s c i \<and> unlocked con"
proof -
  have "i \<noteq> c" and "unlocked con"
    using assms by (auto simp: plain_queryAdd_def split: option.splits if_splits)
  moreover have "\<exists>limit. check_parents s i limit (getParent s c) = Some RETURNVALUE_NOERROR"
    using assms by (auto simp: plain_queryAdd_def Let_def split: option.splits if_splits)
  ultimately show ?thesis using check_parents_not_inside by blast
qed

lemma inside_shrinks:
  assumes "inside s' j i" and "\<And>j. getParent s' j = getParent s j \<or> getParent s' j = None"
  shows "inside s j i"
  using assms(1)
proof (induction rule: inside.induct)
  case self
  then show ?case by (rule inside.self)
next
  case (up j p i)
  have "getParent s j = Some (ContainerCylinder p)" using assms(2) [of j] up(1) by auto
  then show ?case using up.IH by (rule inside.up)
qed

lemma removeThing_whole:
  assumes wf: "wf_store s" and con: "getContainer s c = Some con" and item: "getItem s i = Some item"
    and mem: "i \<in> set (itemlist con)"
    and whole: "\<not> isStackable items item \<or> count = ucast (getItemCount item)"
    and rem: "removeThing items c i count s = Some s'"
  shows "getParent s' i = None" and "\<And>j. getParent s' j = getParent s j \<or> getParent s' j = None"
    and "cells s' i \<noteq> None" and "\<And>x. getContainer s x \<noteq> None \<Longrightarrow> getContainer s' x \<noteq> None"
proof -
  obtain s1 con1 where s1: "updateItemWeight c (- weight_of items s i) s = Some s1"
    "getContainer s1 c = Some con1"
    "s' = setContainer c (con1\<lparr> itemlist := remove_at (nat (getThingIndex con i)) (itemlist con1) \<rparr>)
        (setParent i None s1)"
    using rem con item mem whole
    by (auto simp: removeThing_def getThingIndex_none Let_def split: option.splits if_splits)
  have shape: "same_shape s s1"
    using updateItemWeight_error [OF s1(1) wf [unfolded wf_store_loose], of items] by simp
  then have "getItem s1 i = Some item" using item by (simp add: same_shape_def)
  then have cell: "cells s1 i \<noteq> None" by (rule getItem_cell)
  then show "getParent s' i = None" by (simp add: s1(3))
  show "getParent s' j = getParent s j \<or> getParent s' j = None" for j
    using shape by (simp add: s1(3) same_shape_def)
  show "cells s' i \<noteq> None"
    using cell getContainer_cell [OF s1(2)] by (auto simp: s1(3) setContainer_def setParent_def)
  show "getContainer s' x \<noteq> None" if "getContainer s x \<noteq> None" for x
  proof -
    have "getContainer s1 x \<noteq> None" using same_shape_container [OF shape] that by fastforce
    with s1(2) show ?thesis by (simp add: s1(3))
  qed
qed

lemma inbox_queryAdd_no_error:
  assumes "inbox_queryAdd items s c i flags = RETURNVALUE_NOERROR" and "\<nexists>p. getParent s c = Some (ContainerCylinder p)"
  shows "\<not> inside s c i"
  using assms by (auto simp: inbox_queryAdd_def elim: inside.cases split: if_splits option.splits)

text \<open>
  C23:
  When a container accepts an item in its own name (the flag of a query passed up by a child is not
  set), the answer is always given, and taking the item whole out of the container it lies in and
  adding it to the new one keeps the store well-formed: no container ends up inside itself, and all
  weights stay right, even when a container is moved between levels of the same nesting. An inbox, which
  does not look at the containers around it, is taken to lie in none; it belongs to its player.
\<close>

theorem accepted_move_keeps_store:
  assumes "wf_store s" and "weights_right items s"
    and "getContainer s from_c = Some con" and "i \<in> set (itemlist con)" and "getItem s i = Some item"
    and "\<not> isStackable items item \<or> count = ucast (getItemCount item)"
    and "getContainer s c = Some to_con" and "isInbox to_con \<Longrightarrow> \<nexists>p. getParent s c = Some (ContainerCylinder p)"
    and "\<not> hasBitSet FLAG_CHILDISOWNER flags"
  shows "\<exists>r. queryAdd items outer s c index i count flags = Some r \<and>
    (r = RETURNVALUE_NOERROR \<longrightarrow>
      (\<exists>s1 s2. removeThing items from_c i count s = Some s1 \<and> addThing items c index i s1 = Some s2 \<and>
         wf_store s2 \<and> weights_right items s2))"
proof -
  obtain r where r: "queryAdd items outer s c index i count flags = Some r"
    using plain_queryAdd_total [of s c to_con items outer index i count flags] assms(1,7)
    by (cases "isInbox to_con") (auto simp: queryAdd_def wf_store_def)
  obtain s1 where s1: "removeThing items from_c i count s = Some s1" "wf_store s1" "weights_right items s1"
    using removeThing_ok [OF assms(1,2,3,5)] by blast
  note whole = removeThing_whole [OF assms(1,3,5,4,6) s1(1)]
  have "\<exists>s2. addThing items c index i s1 = Some s2 \<and> wf_store s2 \<and> weights_right items s2"
    if "r = RETURNVALUE_NOERROR"
  proof -
    have "\<not> inside s c i"
      using r that assms(7-9) plain_queryAdd_no_error inbox_queryAdd_no_error
      by (cases "isInbox to_con") (auto simp: queryAdd_def)
    with inside_shrinks whole(2) have "\<not> inside s1 c i" by blast
    with whole(1,3) have "fits s1 c i" by (simp add: fits_def)
    moreover obtain con1 where "getContainer s1 c = Some con1" using whole(4) [of c] assms(7) by auto
    ultimately show ?thesis using addThing_ok [OF s1(2,3)] by blast
  qed
  with r s1(1) show ?thesis by blast
qed

theorem accepted_move_keeps_store_witness:
  "\<exists>s1 s2. queryAdd demo_types (\<lambda>_ _ _ _. RETURNVALUE_NOERROR) demo_store 2 0 1 1 0 = Some RETURNVALUE_NOERROR \<and>
    removeThing demo_types 0 1 1 demo_store = Some s1 \<and> addThing demo_types 2 0 1 s1 = Some s2 \<and>
    wf_store s2 \<and> weights_right demo_types s2"
proof -
  have "queryAdd demo_types (\<lambda>_ _ _ _. RETURNVALUE_NOERROR) demo_store 2 0 1 1 0 = Some RETURNVALUE_NOERROR"
    by (simp add: queryAdd_def plain_queryAdd_def demo_cells demo_bag_def hasBitSet_def isPickupable_def
        demo_types_def Let_def check_parents_def getTopParent_def as_cylinder_def INDEX_WHEREEVER_def)
  moreover have "getContainer demo_store 0 = Some (demo_bag 10 [1])" "(1::nat) \<in> set (itemlist (demo_bag 10 [1]))"
    "getItem demo_store 1 = Some (demo_item 3)"
    "\<not> isStackable demo_types (demo_item 3) \<or> (1 :: u32) = ucast (getItemCount (demo_item 3))"
    "getContainer demo_store 2 = Some (demo_bag 0 [])"
    "isInbox (demo_bag 0 []) \<Longrightarrow> \<nexists>p. getParent demo_store 2 = Some (ContainerCylinder p)"
    "\<not> hasBitSet FLAG_CHILDISOWNER 0"
    by (simp_all add: demo_cells demo_bag_def demo_types_def isStackable_def hasBitSet_def)
  note accepted_move_keeps_store [OF demo_wf demo_right this,
      of "\<lambda>_ _ _ _. RETURNVALUE_NOERROR" 0]
  ultimately show ?thesis by auto
qed

section \<open>Accepted removals\<close>

lemma small_word_not_negative:
  fixes w :: u32
  assumes "unat w < 256"
  shows "\<not> w <s 0"
proof -
  have "int (unat w) < int 256" using assms by (simp only: of_nat_less_iff)
  then have "uint w < 2 ^ 31" by simp
  then have "signed_take_bit 31 (uint w) = uint w"
    by (intro signed_take_bit_int_eq_self) (simp_all add: order_trans [of _ 0])
  then have "sint w = uint w" by (simp add: sint_uint)
  then have "0 \<le> sint w" by simp
  then show ?thesis by (simp add: word_sless_alt)
qed

lemma count_left:
  fixes n :: u8 and count :: u32
  assumes "count \<le> ucast n"
  shows "\<not> ucast n - count <s 0" and "unat (ucast (ucast n - count) :: u8) = unat n - unat count"
proof -
  have u: "unat (ucast n :: u32) = unat n" by (simp add: unat_ucast_up)
  then have n: "unat (ucast n - count) = unat n - unat count" using assms by (simp add: unat_sub)
  with unat_byte_le [of n] have small: "unat (ucast n - count) < 256" by simp
  then show "\<not> ucast n - count <s 0" by (rule small_word_not_negative)
  from small show "unat (ucast (ucast n - count) :: u8) = unat n - unat count"
    by (simp add: unsigned_ucast_eq take_bit_nat_eq_self n)
qed

lemma updateItemWeight_shape:
  assumes "wf_store s" and "getContainer s c \<noteq> None"
  shows "\<exists>s'. updateItemWeight c d s = Some s' \<and> same_shape s s'"
proof -
  note wf = assms(1) [unfolded wf_store_loose]
  obtain s' where s': "updateItemWeight c d s = Some s'"
    using updateItemWeight_total [OF wf, of c] assms(2) by auto
  with updateItemWeight_error [OF s' wf] show ?thesis by simp
qed

lemma kids_setItem_shape:
  assumes "wf_store s" and "same_shape (setItem i new s) s'" and "cells s i \<noteq> None"
  shows "getItem s' i = Some new" and "kids s' c = kids s c" and "getParent s' i = getParent s i"
  using assms(2,3) same_shape_kids [OF assms(2), of c] by (simp_all add: same_shape_def)

text \<open>
  A removal that \<open>queryRemove\<close> accepts takes away exactly the accepted count: of a stackable item that
  holds more, the count falls by that much and the item stays where it is; in all other cases the
  item leaves the list of the container and has no parent any more.
\<close>

lemma accepted_removal_is_exact:
  assumes wf: "wf_store s" and q: "queryRemove items s c i count flags = Some RETURNVALUE_NOERROR"
  shows "\<exists>item s'. getItem s i = Some item \<and> removeThing items c i count s = Some s' \<and>
    (if isStackable items item \<and> count < ucast (getItemCount item)
     then kids s' c = kids s c \<and> getParent s' i = getParent s i \<and>
       (\<exists>item'. getItem s' i = Some item' \<and>
          unat (item_count item') = unat (item_count item) - unat count)
     else getParent s' i = None \<and> set (kids s' c) = set (kids s c) - {i})"
proof -
  obtain con item where con: "getContainer s c = Some con" and item: "getItem s i = Some item"
    and mem: "i \<in> set (itemlist con)"
    and le: "isStackable items item \<Longrightarrow> count \<le> ucast (getItemCount item)"
    using q by (auto simp: queryRemove_def getThingIndex_none not_less split: option.splits if_splits)
  have cell: "cells s i \<noteq> None" using item by (rule getItem_cell)
  have two: "ucast (getItemCount item) = (ucast (item_count item) :: u32)"
    unfolding getItemCount_def
    by (rule word_unat_eq_iff [THEN iffD2]) (simp add: unat_ucast_up)
  show ?thesis
  proof (cases "isStackable items item \<and> count < ucast (getItemCount item)")
    case True
    let ?rest = "ucast (item_count item) - count"
    let ?new = "setItemCount (ucast ?rest) item"
    have le': "count \<le> ucast (item_count item)" using True le unfolding two by simp
    have "wf_store (setItem i ?new s)" using wf wf_cong [of "setItem i ?new s" s] by simp
    then obtain s' where s': "updateItemWeight c (- weight_of items s i + weight_of items (setItem i ?new s) i)
        (setItem i ?new s) = Some s'" "same_shape (setItem i ?new s) s'"
      using updateItemWeight_shape [of "setItem i ?new s" c] con by auto
    have "count \<noteq> ucast (item_count item)" using True unfolding two by auto
    then have "removeThing items c i count s = Some s'"
      using True con item mem s'(1) count_left(1) [OF le']
      by (simp add: removeThing_def getThingIndex_none Let_def two)
    moreover have "unat (item_count ?new) = unat (item_count item) - unat count"
      using count_left(2) [OF le'] by (simp add: setItemCount_def)
    ultimately show ?thesis
      using kids_setItem_shape [OF wf s'(2) cell] item True by auto
  next
    case False
    then have whole: "\<not> isStackable items item \<or> count = ucast (getItemCount item)" using le by auto
    obtain s1 where s1: "updateItemWeight c (- weight_of items s i) s = Some s1" "same_shape s s1"
      using updateItemWeight_shape [OF wf, of c] con by auto
    obtain con1 where con1: "getContainer s1 c = Some con1" "itemlist con1 = itemlist con"
      using same_shape_container [OF s1(2) con] by blast
    let ?s = "setContainer c (con1\<lparr> itemlist := remove_at (nat (getThingIndex con i)) (itemlist con1) \<rparr>)
        (setParent i None s1)"
    have rem: "removeThing items c i count s = Some ?s"
      using con item mem whole s1(1) con1(1) by (auto simp: removeThing_def getThingIndex_none Let_def)
    have "kids ?s c = remove_at (nat (getThingIndex con i)) (itemlist con)"
      using con1 by (simp add: kids_setContainer)
    moreover have "distinct (itemlist con)" using wf con by (auto simp: wf_store_def kids_def dest: spec [of _ c])
    ultimately have "set (kids ?s c) = set (kids s c) - {i}"
      using remove_at_facts(2) [of "nat (getThingIndex con i)" "itemlist con"] getThingIndex_nth [OF mem] con
      by (simp add: kids_def)
    with removeThing_whole(1) [OF wf con item mem whole rem] rem item False show ?thesis by auto
  qed
qed

section \<open>Destinations\<close>

lemma find_stack_nth:
  "find_stack s i item xs n = Some (j, m) \<Longrightarrow> 0 \<le> n \<Longrightarrow>
     n \<le> m \<and> nat (m - n) < length xs \<and> xs ! nat (m - n) = j \<and> stacks_on s i item j"
proof (induction xs arbitrary: n)
  case Nil
  then show ?case by simp
next
  case (Cons x xs)
  show ?case
  proof (cases "stacks_on s i item x")
    case True
    with Cons.prems show ?thesis by simp
  next
    case False
    with Cons have IH: "n + 1 \<le> m" "nat (m - (n + 1)) < length xs" "xs ! nat (m - (n + 1)) = j"
      "stacks_on s i item j" by simp_all
    then have "nat (m - n) = Suc (nat (m - (n + 1)))" by simp
    with IH show ?thesis by simp
  qed
qed

lemma find_stack_getItemByIndex:
  assumes "find_stack s i item (itemlist con) 0 = Some (j, m)"
  shows "getItemByIndex con m = Some j"
  using find_stack_nth [OF assms] by (simp add: getItemByIndex_Some)

lemma parent_is_container:
  assumes "wf_store s" and "getParentContainer s c = Some p"
  shows "getContainer s p \<noteq> None"
proof -
  have "c \<in> set (kids s p)" using assms store_mem by (simp add: getParentContainer_Some)
  then show ?thesis by (cases "getContainer s p") (simp_all add: kids_def)
qed

lemma as_cylinder_Some: "as_cylinder s i = Some y \<longleftrightarrow> getContainer s i \<noteq> None \<and> y = ContainerCylinder i"
  by (auto simp: as_cylinder_def)

text \<open>
  The destination always exists: it is a container of the store, and an item to stack on or to exchange
  with, when one is named, lies in the queried container at the returned index.
\<close>

lemma destination_exists:
  assumes wf: "wf_store s" and con: "getContainer s c = Some con"
  shows "\<exists>c' index' dest. queryDestination items s c index i None flags = Some (c', index', dest) \<and>
    getContainer s c' \<noteq> None \<and>
    (dest \<noteq> None \<longrightarrow> c' = c \<and> getItemByIndex con index' = dest)"
proof -
  obtain c' index' dest where q: "queryDestination items s c index i None flags = Some (c', index', dest)"
    by (cases "queryDestination items s c index i None flags")
      (use con in \<open>auto simp: queryDestination_def\<close>)
  have "getContainer s c' \<noteq> None"
    using q con parent_is_container [OF wf]
    by (auto simp: queryDestination_def Let_def as_cylinder_Some bind_eq_Some_conv
        split: if_splits option.splits cylinder.splits)
  moreover have "dest \<noteq> None \<longrightarrow> c' = c \<and> getItemByIndex con index' = dest"
    using q con
    by (auto simp: queryDestination_def Let_def find_stack_getItemByIndex
        split: if_splits option.splits cylinder.splits)
  ultimately show ?thesis using q by blast
qed

end
