(* ===== verification/ContainerIteration.thy ===== *)
theory ContainerIteration
  imports Container
begin

text \<open>
  The iterator over all items in a container, at any depth (\<open>ContainerIterator\<close> of \<open>container.h\<close> and
  \<open>container.cpp\<close>), and the operations that loop over it.
\<close>

section \<open>The iterator\<close>

record iter =
  over :: "nat list"
  cur :: nat

definition hasNext :: "iter \<Rightarrow> bool" where
  "hasNext it = (over it \<noteq> [])"

definition con_iterator :: "store \<Rightarrow> nat \<Rightarrow> iter" where
  "con_iterator s c = (if kids s c = [] then \<lparr> over = [], cur = 0 \<rparr> else \<lparr> over = [c], cur = 0 \<rparr>)"

definition iter_item :: "store \<Rightarrow> iter \<Rightarrow> nat" where
  "iter_item s it = kids s (hd (over it)) ! cur it"

definition advance :: "store \<Rightarrow> iter \<Rightarrow> iter" where
  "advance s it =
     (let i = iter_item s it;
          over1 = (if getContainer s i \<noteq> None \<and> kids s i \<noteq> [] then over it @ [i] else over it);
          cur1 = cur it + 1
      in if cur1 = length (kids s (hd over1)) then \<lparr> over = tl over1, cur = 0 \<rparr>
         else \<lparr> over = over1, cur = cur1 \<rparr>)"

text \<open>The items that a loop over the iterator visits, in order; \<open>None\<close> when the loop does not end.\<close>

partial_function (option) visit :: "store \<Rightarrow> iter \<Rightarrow> nat list option" where
  "visit s it =
     (if \<not> hasNext it then Some []
      else
        Option.bind (visit s (advance s it)) (\<lambda>is. Some (iter_item s it # is)))"

definition getItemHoldingCount :: "store \<Rightarrow> nat \<Rightarrow> nat option" where
  "getItemHoldingCount s c = map_option length (visit s (con_iterator s c))"

definition isHoldingItem :: "store \<Rightarrow> nat \<Rightarrow> nat \<Rightarrow> bool option" where
  "isHoldingItem s c i = map_option (\<lambda>is. i \<in> set is) (visit s (con_iterator s c))"

section \<open>What is still to be visited\<close>

definition pending :: "store \<Rightarrow> iter \<Rightarrow> nat list" where
  "pending s it =
     (case over it of [] \<Rightarrow> [] | c # rest \<Rightarrow> drop (cur it) (kids s c) @ concat (map (kids s) rest))"

definition good_iter :: "store \<Rightarrow> iter \<Rightarrow> bool" where
  "good_iter s it \<longleftrightarrow>
     (\<forall>c\<in>set (over it). kids s c \<noteq> []) \<and> (over it \<noteq> [] \<longrightarrow> cur it < length (kids s (hd (over it))))"

text \<open>No two of the items lie inside each other.\<close>

definition apart :: "store \<Rightarrow> nat list \<Rightarrow> bool" where
  "apart s is \<longleftrightarrow> distinct is \<and> (\<forall>i\<in>set is. \<forall>j\<in>set is. inside s i j \<longrightarrow> i = j)"

definition below :: "store \<Rightarrow> nat list \<Rightarrow> nat set" where
  "below s is = {j. \<exists>i\<in>set is. inside s j i}"

lemma pending_step:
  assumes good: "good_iter s it" and more: "hasNext it"
  shows "\<exists>rest. pending s it = iter_item s it # rest \<and>
    pending s (advance s it) = rest @ kids s (iter_item s it) \<and> good_iter s (advance s it)"
proof -
  obtain c cs where over: "over it = c # cs" using more by (cases "over it") (auto simp: hasNext_def)
  let ?i = "iter_item s it" and ?n = "cur it"
  have n: "?n < length (kids s c)" using good over by (simp add: good_iter_def)
  have ne: "\<forall>x\<in>set (c # cs). kids s x \<noteq> []" using good over by (simp add: good_iter_def)
  have i: "?i = kids s c ! ?n" by (simp add: iter_item_def over)
  have drop: "drop ?n (kids s c) = ?i # drop (Suc ?n) (kids s c)"
    unfolding i using n by (rule Cons_nth_drop_Suc [symmetric])
  define cs' where "cs' = (if kids s ?i \<noteq> [] then cs @ [?i] else cs)"
  have "kids s ?i \<noteq> [] \<Longrightarrow> getContainer s ?i \<noteq> None"
    by (cases "getContainer s ?i") (simp_all add: kids_def)
  then have adv: "advance s it =
      (if Suc ?n = length (kids s c) then \<lparr> over = cs', cur = 0 \<rparr> else \<lparr> over = c # cs', cur = Suc ?n \<rparr>)"
    by (auto simp: advance_def Let_def over cs'_def)
  have concat: "concat (map (kids s) cs') = concat (map (kids s) cs) @ kids s ?i" by (simp add: cs'_def)
  have ne': "\<forall>x\<in>set (c # cs'). kids s x \<noteq> []" using ne by (auto simp: cs'_def)
  let ?rest = "drop (Suc ?n) (kids s c) @ concat (map (kids s) cs)"
  have p1: "pending s it = ?i # ?rest" by (simp add: pending_def over drop)
  have "pending s (advance s it) = ?rest @ kids s ?i \<and> good_iter s (advance s it)"
  proof (cases "Suc ?n = length (kids s c)")
    case True
    have "pending s \<lparr> over = cs', cur = 0 \<rparr> = concat (map (kids s) cs')"
      by (cases cs') (simp_all add: pending_def)
    moreover have "good_iter s \<lparr> over = cs', cur = 0 \<rparr>"
      using ne' by (cases cs') (auto simp: good_iter_def)
    moreover have "drop (Suc ?n) (kids s c) = []" using True by simp
    ultimately show ?thesis unfolding adv by (simp add: True concat)
  next
    case False
    have "pending s \<lparr> over = c # cs', cur = Suc ?n \<rparr> =
        drop (Suc ?n) (kids s c) @ concat (map (kids s) cs')"
      by (simp add: pending_def)
    moreover have "good_iter s \<lparr> over = c # cs', cur = Suc ?n \<rparr>"
      using n ne' False by (simp add: good_iter_def)
    ultimately show ?thesis unfolding adv by (simp add: False concat)
  qed
  with p1 show ?thesis by blast
qed

section \<open>Nesting\<close>

lemma inside_trans: "inside s j p \<Longrightarrow> inside s p i \<Longrightarrow> inside s j i"
  by (induction rule: inside.induct) (auto intro: inside.up)

lemma inside_top:
  "inside s j i \<Longrightarrow> j = i \<or> (\<exists>y. getParent s y = Some (ContainerCylinder i) \<and> inside s j y)"
proof (induction rule: inside.induct)
  case self
  then show ?case by simp
next
  case (up j p i)
  then show ?case using inside.self inside.up [OF up(1)] by metis
qed

lemma inside_parent: "inside s j i \<Longrightarrow> j = i \<or> (\<exists>p. getParent s j = Some (ContainerCylinder p) \<and> inside s p i)"
  by (auto elim: inside.cases)

lemma inside_child: "getParent s y = Some (ContainerCylinder x) \<Longrightarrow> inside s y x"
  by (rule inside.up [OF _ inside.self])

lemma apart_step:
  assumes wf: "wf_store s" and apart: "apart s (x # rest)"
  shows "apart s (rest @ kids s x)" and "x \<notin> below s (rest @ kids s x)"
    and "below s (x # rest) = insert x (below s (rest @ kids s x))"
proof -
  have mem: "y \<in> set (kids s x) \<longleftrightarrow> getParent s y = Some (ContainerCylinder x)" for y
    using store_mem [OF wf] .
  have g: "grounded s" using wf by (simp add: wf_store_def)
  have down: "\<not> inside s x y" if "y \<in> set (kids s x)" for y
    using not_inside_own_item [OF g] that mem by blast
  have x_rest: "\<not> inside s x r" "\<not> inside s r x" if "r \<in> set rest" for r
    using apart that by (auto simp: apart_def)
  have kid_rest: "\<not> inside s y r" "\<not> inside s r y" if "y \<in> set (kids s x)" "r \<in> set rest" for y r
  proof -
    have p: "getParent s y = Some (ContainerCylinder x)" using that(1) mem by blast
    show "\<not> inside s y r"
    proof
      assume "inside s y r"
      with inside_parent p have "y = r \<or> inside s x r" by fastforce
      with x_rest [OF that(2)] inside_child [OF p] show False by blast
    qed
    show "\<not> inside s r y" using inside_trans inside_child [OF p] x_rest(2) [OF that(2)] by blast
  qed
  have kid_kid: "y = z" if "y \<in> set (kids s x)" "z \<in> set (kids s x)" "inside s y z" for y z
  proof -
    have "getParent s y = Some (ContainerCylinder x)" using that(1) mem by blast
    with inside_parent [OF that(3)] have "y = z \<or> inside s x z" by auto
    with down [OF that(2)] show ?thesis by blast
  qed
  have "distinct (kids s x)" using wf by (simp add: wf_store_def)
  moreover have "set rest \<inter> set (kids s x) = {}" using kid_rest inside.self by blast
  ultimately have "distinct (rest @ kids s x)" using apart by (simp add: apart_def)
  moreover have "i = j" if "i \<in> set (rest @ kids s x)" "j \<in> set (rest @ kids s x)" "inside s i j" for i j
    using that kid_rest kid_kid apart by (auto simp: apart_def)
  ultimately show "apart s (rest @ kids s x)" unfolding apart_def by blast
  show "x \<notin> below s (rest @ kids s x)" using x_rest(1) down by (auto simp: below_def)
  have "inside s j x \<longleftrightarrow> j = x \<or> (\<exists>y\<in>set (kids s x). inside s j y)" for j
    using inside_top [of s j x] inside_trans inside_child inside.self mem by metis
  then show "below s (x # rest) = insert x (below s (rest @ kids s x))"
    unfolding below_def by auto
qed

lemma finite_below:
  assumes "finite {i. cells s i \<noteq> None}"
  shows "finite (below s is)"
proof (rule finite_subset)
  have "cells s j \<noteq> None" if "inside s j i" "j \<noteq> i" for j i
    using inside_parent [OF that(1)] that(2) by (cases "cells s j") (auto simp: getParent_def)
  then show "below s is \<subseteq> set is \<union> {i. cells s i \<noteq> None}" by (fastforce simp: below_def)
qed (use assms in simp)

lemma visit_pending:
  assumes wf: "wf_store s" and fin: "finite {i. cells s i \<noteq> None}"
  shows "good_iter s it \<Longrightarrow> apart s (pending s it) \<Longrightarrow>
    \<exists>is. visit s it = Some is \<and> distinct is \<and> set is = below s (pending s it)"
proof (induction "card (below s (pending s it))" arbitrary: it rule: less_induct)
  case less
  show ?case
  proof (cases "hasNext it")
    case False
    then show ?thesis
      by (subst visit.simps) (simp add: hasNext_def pending_def below_def)
  next
    case True
    then obtain rest where step: "pending s it = iter_item s it # rest"
      "pending s (advance s it) = rest @ kids s (iter_item s it)" "good_iter s (advance s it)"
      using pending_step less.prems(1) by blast
    note ap = apart_step [OF wf less.prems(2) [unfolded step(1)], folded step(2), folded step(1)]
    have "card (below s (pending s (advance s it))) < card (below s (pending s it))"
      using ap(2,3) finite_below [OF fin] by simp
    then obtain "is" where "visit s (advance s it) = Some is" "distinct is"
      "set is = below s (pending s (advance s it))"
      using less.hyps step(3) ap(1) by blast
    with ap(2,3) True show ?thesis by (subst visit.simps) simp
  qed
qed

lemma visit_all:
  assumes "wf_store s" and "finite {i. cells s i \<noteq> None}"
  shows "\<exists>is. visit s (con_iterator s c) = Some is \<and> distinct is \<and> set is = {i. inside s i c \<and> i \<noteq> c}"
proof -
  have p: "pending s (con_iterator s c) = kids s c" by (simp add: pending_def con_iterator_def)
  have "apart s [c]" by (simp add: apart_def)
  note ap = apart_step [OF assms(1) this, simplified]
  have "below s [c] = {i. inside s i c}" by (simp add: below_def)
  then have below: "below s (kids s c) = {i. inside s i c \<and> i \<noteq> c}" using ap(2,3) by auto
  have "good_iter s (con_iterator s c)" by (simp add: good_iter_def con_iterator_def)
  with visit_pending [OF assms, of "con_iterator s c"] ap(1) show ?thesis by (simp only: p below)
qed

text \<open>
  C24:
  The loop over a container's iterator ends, in a store of finitely many items, and visits every item
  that lies inside the container at any depth exactly once and nothing else: the counted items are all
  of them, and \<open>isHoldingItem\<close> tells exactly whether an item is among them.
\<close>

theorem iterator_visits_contents:
  assumes "wf_store s" and "finite {i. cells s i \<noteq> None}"
  shows "getItemHoldingCount s c = Some (card {i. inside s i c \<and> i \<noteq> c}) \<and>
    isHoldingItem s c i = Some (inside s i c \<and> i \<noteq> c)"
proof -
  obtain "is" where "is": "visit s (con_iterator s c) = Some is" "distinct is"
    "set is = {i. inside s i c \<and> i \<noteq> c}"
    using visit_all [OF assms] by blast
  then have "isHoldingItem s c i = Some (inside s i c \<and> i \<noteq> c)" by (simp add: isHoldingItem_def)
  moreover from "is" have "getItemHoldingCount s c = Some (card {i. inside s i c \<and> i \<noteq> c})"
    by (simp add: getItemHoldingCount_def distinct_card [symmetric])
  ultimately show ?thesis by blast
qed

theorem iterator_visits_contents_witness:
  "getItemHoldingCount demo_store 0 = Some (card {i. inside demo_store i 0 \<and> i \<noteq> 0}) \<and>
    isHoldingItem demo_store 0 1 = Some (inside demo_store 1 0 \<and> (1::nat) \<noteq> 0)"
  by (rule iterator_visits_contents [OF demo_wf]) (rule demo_finite)

end
