(* ===== verification/Party.thy ===== *)
theory Party
  imports Position
begin

text \<open>
  Parties of players (\<open>party.h\<close>, \<open>party.cpp\<close>), the pointers that players keep to them (\<open>player.cpp\<close>)
  and the commands of the game on them (\<open>game.cpp\<close>). Players and parties are references; a party that
  has been deleted is \<open>None\<close>, and so is every operation that follows a pointer to it. The messages to
  the clients are not modelled. The vetoes of the event scripts and what the parties read of a player
  (level, place, vocation, flags) are the environment of a command.
\<close>

section \<open>Parties and players\<close>

record party =
  leader :: nat
  memberList :: "nat list"
  inviteList :: "nat list"
  ticksMap :: "nat \<Rightarrow> u64 option"
  extraExpRate :: nat
  sharedExpActive :: bool
  sharedExpEnabled :: bool

record world =
  online :: "nat set"
  getParty :: "nat \<Rightarrow> nat option"
  invitePartyList :: "nat \<Rightarrow> nat list"
  parties :: "nat \<Rightarrow> party option"

record party_env =
  eventPartyOnJoin :: "nat \<Rightarrow> nat \<Rightarrow> bool"
  eventPartyOnLeave :: "nat \<Rightarrow> nat \<Rightarrow> bool"
  eventPartyOnDisband :: "nat \<Rightarrow> bool"
  getLevel :: "nat \<Rightarrow> u32"
  getPosition :: "nat \<Rightarrow> position"
  notGainInFight :: "nat \<Rightarrow> bool"
  getFromVocation :: "nat \<Rightarrow> u32"
  inFight :: "nat \<Rightarrow> bool"
  OTSYS_TIME :: u64
  PZ_LOCKED :: u32

definition setParty :: "nat \<Rightarrow> nat option \<Rightarrow> world \<Rightarrow> world" where
  "setParty player p w = w\<lparr> getParty := (getParty w)(player := p) \<rparr>"

definition addPartyInvitation :: "nat \<Rightarrow> nat \<Rightarrow> world \<Rightarrow> world" where
  "addPartyInvitation player q w =
     (if q \<in> set (invitePartyList w player) then w
      else w\<lparr> invitePartyList := (invitePartyList w)(player := q # invitePartyList w player) \<rparr>)"

definition removePartyInvitation :: "nat \<Rightarrow> nat \<Rightarrow> world \<Rightarrow> world" where
  "removePartyInvitation player q w =
     w\<lparr> invitePartyList := (invitePartyList w)(player := removeAll q (invitePartyList w player)) \<rparr>"

definition put_party :: "nat \<Rightarrow> party \<Rightarrow> world \<Rightarrow> world" where
  "put_party q P w = w\<lparr> parties := (parties w)(q \<mapsto> P) \<rparr>"

definition delete_party :: "nat \<Rightarrow> world \<Rightarrow> world" where
  "delete_party q w = w\<lparr> parties := (parties w)(q := None) \<rparr>"

definition party_empty :: "party \<Rightarrow> bool" where
  "party_empty P \<longleftrightarrow> memberList P = [] \<and> inviteList P = []"

definition isPlayerInvited :: "party \<Rightarrow> nat \<Rightarrow> bool" where
  "isPlayerInvited P player \<longleftrightarrow> player \<in> set (inviteList P)"

section \<open>Shared experience\<close>

text \<open>
  The least level: two thirds of the highest, rounded up. The source computes it in \<open>float\<close>, which is
  exact for every level below \<open>2 ^ 22\<close>.
\<close>

definition minLevel :: "u32 \<Rightarrow> u32" where
  "minLevel highestLevel = of_nat ((2 * unat highestLevel + 2) div 3)"

definition highest_level :: "party_env \<Rightarrow> party \<Rightarrow> u32" where
  "highest_level env P =
     fold (\<lambda>member h. if getLevel env member > h then getLevel env member else h) (memberList P)
       (getLevel env (leader P))"

definition canUseSharedExperience :: "party_env \<Rightarrow> party \<Rightarrow> nat \<Rightarrow> bool" where
  "canUseSharedExperience env P player =
     (if memberList P = [] then False
      else if getLevel env player < minLevel (highest_level env P) then False
      else if \<not> areInRange3 30 30 1 (getPosition env (leader P)) (getPosition env player) then False
      else if \<not> notGainInFight env player then
        (case ticksMap P player of
           None \<Rightarrow> False
         | Some ticks \<Rightarrow> \<not> OTSYS_TIME env - ticks > scast (PZ_LOCKED env))
      else True)"

definition canEnableSharedExperience :: "party_env \<Rightarrow> party \<Rightarrow> bool" where
  "canEnableSharedExperience env P \<longleftrightarrow>
     canUseSharedExperience env P (leader P) \<and> list_all (canUseSharedExperience env P) (memberList P)"

definition updateSharedExperience :: "party_env \<Rightarrow> party \<Rightarrow> party" where
  "updateSharedExperience env P =
     (if sharedExpActive P then P\<lparr> sharedExpEnabled := canEnableSharedExperience env P \<rparr> else P)"

text \<open>The extra experience, in hundredths.\<close>

definition updateVocationsList :: "party_env \<Rightarrow> party \<Rightarrow> party" where
  "updateVocationsList env P =
     (let vocationIds = filter (\<lambda>v. v \<noteq> 0) (map (getFromVocation env) (leader P # memberList P));
          n = length (remdups vocationIds)
      in P\<lparr> extraExpRate := (if n > 1 then n * (10 + (n - 1) * 5) else 20) \<rparr>)"

definition setSharedExperience :: "party_env \<Rightarrow> nat \<Rightarrow> bool \<Rightarrow> party \<Rightarrow> bool \<times> party" where
  "setSharedExperience env player active P =
     (if leader P \<noteq> player then (False, P)
      else if sharedExpActive P = active then (True, P)
      else
        (let P1 = P\<lparr> sharedExpActive := active \<rparr>
         in (True, if active then P1\<lparr> sharedExpEnabled := canEnableSharedExperience env P1 \<rparr> else P1)))"

definition updatePlayerTicks :: "party_env \<Rightarrow> nat \<Rightarrow> u32 \<Rightarrow> party \<Rightarrow> party" where
  "updatePlayerTicks env player points P =
     (if points \<noteq> 0 \<and> \<not> notGainInFight env player
      then updateSharedExperience env (P\<lparr> ticksMap := (ticksMap P)(player \<mapsto> OTSYS_TIME env) \<rparr>)
      else P)"

definition clearPlayerPoints :: "party_env \<Rightarrow> nat \<Rightarrow> party \<Rightarrow> party" where
  "clearPlayerPoints env player P =
     (if ticksMap P player = None then P
      else updateSharedExperience env (P\<lparr> ticksMap := (ticksMap P)(player := None) \<rparr>))"

section \<open>Operations of a party\<close>

definition new_party :: "nat \<Rightarrow> party" where
  "new_party player = \<lparr> leader = player, memberList = [], inviteList = [], ticksMap = Map.empty,
     extraExpRate = 20, sharedExpActive = False, sharedExpEnabled = False \<rparr>"

definition disband :: "party_env \<Rightarrow> nat \<Rightarrow> world \<Rightarrow> world option" where
  "disband env q w =
     (case parties w q of
        None \<Rightarrow> None
      | Some P \<Rightarrow>
          if \<not> eventPartyOnDisband env q then Some w
          else
            (let w1 = setParty (leader P) None w;
                 w2 = fold (\<lambda>invitee. removePartyInvitation invitee q) (inviteList P) w1;
                 w3 = fold (\<lambda>member. setParty member None) (memberList P) w2
             in Some (delete_party q w3)))"

definition passPartyLeadership :: "party_env \<Rightarrow> nat \<Rightarrow> nat \<Rightarrow> world \<Rightarrow> (bool \<times> world) option" where
  "passPartyLeadership env q player w =
     (case parties w q of
        None \<Rightarrow> None
      | Some P \<Rightarrow>
          if leader P = player \<or> getParty w player \<noteq> Some q then Some (False, w)
          else
            (let P1 = P\<lparr> leader := player, memberList := leader P # remove1 player (memberList P) \<rparr>
             in Some (True, put_party q (updateSharedExperience env P1) w)))"

definition leaveParty :: "party_env \<Rightarrow> nat \<Rightarrow> nat \<Rightarrow> world \<Rightarrow> (bool \<times> world) option" where
  "leaveParty env q player w =
     (case parties w q of
        None \<Rightarrow> None
      | Some P \<Rightarrow>
          if getParty w player \<noteq> Some q \<and> leader P \<noteq> player then Some (False, w)
          else if \<not> eventPartyOnLeave env q player then Some (False, w)
          else
            (let missingLeader = (leader P = player \<and>
                   (memberList P = [] \<or> length (memberList P) = 1 \<and> inviteList P = []))
             in case (if leader P = player \<and> \<not> missingLeader
                      then map_option snd (passPartyLeadership env q (hd (memberList P)) w) else Some w) of
                  None \<Rightarrow> None
                | Some w1 \<Rightarrow>
                    (case parties w1 q of
                       None \<Rightarrow> None
                     | Some P1 \<Rightarrow>
                         (let P2 = P1\<lparr> memberList := remove1 player (memberList P1) \<rparr>;
                              P3 = clearPlayerPoints env player
                                     (updateVocationsList env (updateSharedExperience env P2));
                              w2 = put_party q P3 (setParty player None w1)
                          in if missingLeader \<or> party_empty P3
                             then map_option (Pair True) (disband env q w2)
                             else Some (True, w2)))))"

definition joinParty :: "party_env \<Rightarrow> nat \<Rightarrow> nat \<Rightarrow> world \<Rightarrow> (bool \<times> world) option" where
  "joinParty env q player w =
     (case parties w q of
        None \<Rightarrow> None
      | Some P \<Rightarrow>
          if \<not> eventPartyOnJoin env q player then Some (False, w)
          else if player \<notin> set (inviteList P) then Some (False, w)
          else
            (let P1 = P\<lparr> inviteList := remove1 player (inviteList P),
                         memberList := memberList P @ [player] \<rparr>;
                 P2 = updateVocationsList env (updateSharedExperience env P1)
             in Some (True, put_party q P2 (removePartyInvitation player q (setParty player (Some q) w)))))"

definition removeInvite :: "party_env \<Rightarrow> nat \<Rightarrow> nat \<Rightarrow> bool \<Rightarrow> world \<Rightarrow> (bool \<times> world) option" where
  "removeInvite env q player removeFromPlayer w =
     (case parties w q of
        None \<Rightarrow> None
      | Some P \<Rightarrow>
          if player \<notin> set (inviteList P) then Some (False, w)
          else
            (let P1 = P\<lparr> inviteList := remove1 player (inviteList P) \<rparr>;
                 w1 = put_party q P1 w;
                 w2 = (if removeFromPlayer then removePartyInvitation player q w1 else w1)
             in if party_empty P1 then map_option (Pair True) (disband env q w2) else Some (True, w2)))"

definition invitePlayer :: "nat \<Rightarrow> nat \<Rightarrow> world \<Rightarrow> (bool \<times> world) option" where
  "invitePlayer q player w =
     (case parties w q of
        None \<Rightarrow> None
      | Some P \<Rightarrow>
          if isPlayerInvited P player then Some (False, w)
          else Some (True, addPartyInvitation player q
                             (put_party q (P\<lparr> inviteList := inviteList P @ [player] \<rparr>) w)))"

section \<open>Players and the commands of the game\<close>

definition isInviting :: "nat \<Rightarrow> nat \<Rightarrow> world \<Rightarrow> bool option" where
  "isInviting p player w =
     (case getParty w p of
        None \<Rightarrow> Some False
      | Some q \<Rightarrow>
          (case parties w q of
             None \<Rightarrow> None
           | Some P \<Rightarrow> Some (leader P = p \<and> isPlayerInvited P player)))"

definition isPartner :: "nat \<Rightarrow> nat \<Rightarrow> world \<Rightarrow> bool" where
  "isPartner p player w \<longleftrightarrow> getParty w p \<noteq> None \<and> getParty w p = getParty w player"

fun remove_invitations :: "party_env \<Rightarrow> nat \<Rightarrow> nat list \<Rightarrow> world \<Rightarrow> world option" where
  "remove_invitations env player [] w = Some w"
| "remove_invitations env player (invitingParty # rest) w =
     Option.bind (removeInvite env invitingParty player False w)
       (\<lambda>(_, w1). remove_invitations env player rest w1)"

definition clearPartyInvitations :: "party_env \<Rightarrow> nat \<Rightarrow> world \<Rightarrow> world option" where
  "clearPartyInvitations env player w =
     map_option (\<lambda>w1. w1\<lparr> invitePartyList := (invitePartyList w1)(player := []) \<rparr>)
       (remove_invitations env player (invitePartyList w player) w)"

text \<open>A player logs out: the party's part of \<open>Player::onRemoveCreature\<close>.\<close>

definition player_logout :: "party_env \<Rightarrow> nat \<Rightarrow> world \<Rightarrow> world option" where
  "player_logout env player w =
     Option.bind (clearPartyInvitations env player w)
       (\<lambda>w1. map_option (\<lambda>w2. w2\<lparr> online := online w2 - {player} \<rparr>)
          (case getParty w1 player of
             None \<Rightarrow> Some w1
           | Some q \<Rightarrow> map_option snd (leaveParty env q player w1)))"

text \<open>\<open>q\<close> is the address of a new party, if the command makes one.\<close>

definition playerInviteToParty :: "nat \<Rightarrow> nat \<Rightarrow> nat \<Rightarrow> world \<Rightarrow> world option" where
  "playerInviteToParty q player invitedPlayer w =
     (if player \<notin> online w \<or> invitedPlayer \<notin> online w then Some w
      else
        Option.bind (isInviting invitedPlayer player w)
          (\<lambda>inviting.
             if inviting \<or> getParty w invitedPlayer \<noteq> None then Some w
             else
               (case getParty w player of
                  None \<Rightarrow>
                    map_option snd
                      (invitePlayer q invitedPlayer (put_party q (new_party player) (setParty player (Some q) w)))
                | Some q' \<Rightarrow>
                    (case parties w q' of
                       None \<Rightarrow> None
                     | Some P \<Rightarrow>
                         if leader P \<noteq> player then Some w
                         else map_option snd (invitePlayer q' invitedPlayer w)))))"

definition playerJoinParty :: "party_env \<Rightarrow> nat \<Rightarrow> nat \<Rightarrow> world \<Rightarrow> world option" where
  "playerJoinParty env player leader_p w =
     (if player \<notin> online w \<or> leader_p \<notin> online w then Some w
      else
        Option.bind (isInviting leader_p player w)
          (\<lambda>inviting.
             if \<not> inviting then Some w
             else
               (case getParty w leader_p of
                  None \<Rightarrow> Some w
                | Some q \<Rightarrow>
                    (case parties w q of
                       None \<Rightarrow> None
                     | Some P \<Rightarrow>
                         if leader P \<noteq> leader_p \<or> getParty w player \<noteq> None then Some w
                         else map_option snd (joinParty env q player w)))))"

definition playerRevokePartyInvitation :: "party_env \<Rightarrow> nat \<Rightarrow> nat \<Rightarrow> world \<Rightarrow> world option" where
  "playerRevokePartyInvitation env player invitedPlayer w =
     (if player \<notin> online w then Some w
      else
        (case getParty w player of
           None \<Rightarrow> Some w
         | Some q \<Rightarrow>
             (case parties w q of
                None \<Rightarrow> None
              | Some P \<Rightarrow>
                  if leader P \<noteq> player \<or> invitedPlayer \<notin> online w then Some w
                  else
                    Option.bind (isInviting player invitedPlayer w)
                      (\<lambda>inviting.
                         if \<not> inviting then Some w
                         else map_option snd (removeInvite env q invitedPlayer True w)))))"

definition playerPassPartyLeadership :: "party_env \<Rightarrow> nat \<Rightarrow> nat \<Rightarrow> world \<Rightarrow> world option" where
  "playerPassPartyLeadership env player newLeader w =
     (if player \<notin> online w then Some w
      else
        (case getParty w player of
           None \<Rightarrow> Some w
         | Some q \<Rightarrow>
             (case parties w q of
                None \<Rightarrow> None
              | Some P \<Rightarrow>
                  if leader P \<noteq> player \<or> newLeader \<notin> online w \<or> \<not> isPartner player newLeader w then Some w
                  else map_option snd (passPartyLeadership env q newLeader w))))"

definition playerLeaveParty :: "party_env \<Rightarrow> nat \<Rightarrow> world \<Rightarrow> world option" where
  "playerLeaveParty env player w =
     (if player \<notin> online w then Some w
      else
        (case getParty w player of
           None \<Rightarrow> Some w
         | Some q \<Rightarrow>
             if inFight env player then Some w else map_option snd (leaveParty env q player w)))"

definition playerEnableSharedPartyExperience :: "party_env \<Rightarrow> nat \<Rightarrow> bool \<Rightarrow> world \<Rightarrow> world option" where
  "playerEnableSharedPartyExperience env player active w =
     (if player \<notin> online w then Some w
      else
        (case getParty w player of
           None \<Rightarrow> Some w
         | Some q \<Rightarrow>
             if inFight env player then Some w
             else
               (case parties w q of
                  None \<Rightarrow> None
                | Some P \<Rightarrow> Some (put_party q (snd (setSharedExperience env player active P)) w))))"

definition playerUpdateTicks :: "party_env \<Rightarrow> nat \<Rightarrow> u32 \<Rightarrow> world \<Rightarrow> world option" where
  "playerUpdateTicks env player points w =
     (case getParty w player of
        None \<Rightarrow> Some w
      | Some q \<Rightarrow>
          (case parties w q of
             None \<Rightarrow> None
           | Some P \<Rightarrow> Some (put_party q (updatePlayerTicks env player points P) w)))"

definition playerUpdateSharedExperience :: "party_env \<Rightarrow> nat \<Rightarrow> world \<Rightarrow> world option" where
  "playerUpdateSharedExperience env player w =
     (case getParty w player of
        None \<Rightarrow> Some w
      | Some q \<Rightarrow>
          (case parties w q of
             None \<Rightarrow> None
           | Some P \<Rightarrow> Some (put_party q (updateSharedExperience env P) w)))"

end
