(* ===== verification/PartySafety.thy ===== *)
theory PartySafety
  imports Party
begin

text \<open>
  What holds of the parties between two commands: the pointers of players and parties agree, nobody who
  is offline is pointed to, no party is empty, and no command follows a dangling pointer.
\<close>

section \<open>The invariant\<close>

definition folk :: "party \<Rightarrow> nat list" where
  "folk P = leader P # memberList P"

definition folks :: "world \<Rightarrow> nat \<Rightarrow> nat set" where
  "folks w q = (case parties w q of None \<Rightarrow> {} | Some P \<Rightarrow> set (folk P))"

definition invited :: "world \<Rightarrow> nat \<Rightarrow> nat set" where
  "invited w q = (case parties w q of None \<Rightarrow> {} | Some P \<Rightarrow> set (inviteList P))"

text \<open>The parties of E may be empty: one that has just been made, or is about to be disbanded.\<close>

definition lists_ok :: "nat set \<Rightarrow> world \<Rightarrow> bool" where
  "lists_ok E w \<longleftrightarrow>
     (\<forall>p q. q \<in> set (invitePartyList w p) \<longleftrightarrow> p \<in> invited w q) \<and>
     (\<forall>p. distinct (invitePartyList w p)) \<and>
     (\<forall>q P. parties w q = Some P \<longrightarrow>
        distinct (folk P) \<and> distinct (inviteList P) \<and> set (folk P) \<union> set (inviteList P) \<subseteq> online w \<and>
        (q \<in> E \<or> \<not> party_empty P))"

definition wf_world :: "nat set \<Rightarrow> world \<Rightarrow> bool" where
  "wf_world E w \<longleftrightarrow> lists_ok E w \<and> (\<forall>p q. getParty w p = Some q \<longleftrightarrow> p \<in> folks w q)"

text \<open>Some of the players of q have left it already.\<close>

definition wf_leaving :: "nat \<Rightarrow> world \<Rightarrow> bool" where
  "wf_leaving q w \<longleftrightarrow> lists_ok {q} w \<and>
     (\<forall>p q'. q' \<noteq> q \<longrightarrow> (getParty w p = Some q' \<longleftrightarrow> p \<in> folks w q')) \<and>
     (\<forall>p. getParty w p = Some q \<longrightarrow> p \<in> folks w q) \<and>
     (\<forall>p. p \<in> folks w q \<longrightarrow> getParty w p = Some q \<or> getParty w p = None)"

lemma wf_member: "wf_world E w \<Longrightarrow> getParty w p = Some q \<longleftrightarrow> p \<in> folks w q"
  by (simp add: wf_world_def)

lemma wf_invited: "wf_world E w \<Longrightarrow> q \<in> set (invitePartyList w p) \<longleftrightarrow> p \<in> invited w q"
  by (simp add: wf_world_def lists_ok_def)

lemma wf_party:
  assumes "wf_world E w" and "parties w q = Some P"
  shows "distinct (folk P)" and "distinct (inviteList P)" and "set (folk P) \<subseteq> online w"
    and "set (inviteList P) \<subseteq> online w" and "q \<in> E \<or> \<not> party_empty P"
  using assms unfolding wf_world_def lists_ok_def by blast+

lemma party_of_player:
  "wf_world E w \<Longrightarrow> getParty w p = Some q \<Longrightarrow> \<exists>P. parties w q = Some P \<and> p \<in> set (folk P)"
  using wf_member [of E w p q] by (cases "parties w q") (auto simp: folks_def)

text \<open>The shared experience is apart from the lists.\<close>

definition core :: "party \<Rightarrow> nat \<times> nat list \<times> nat list" where
  "core P = (leader P, memberList P, inviteList P)"

lemma core_simps [simp]:
  "core (updateSharedExperience env P) = core P"
  "core (updateVocationsList env P) = core P"
  "core (updatePlayerTicks env player points P) = core P"
  "core (clearPlayerPoints env player P) = core P"
  "core (snd (setSharedExperience env player active P)) = core P"
  by (simp_all add: core_def updateSharedExperience_def updateVocationsList_def updatePlayerTicks_def
      clearPlayerPoints_def setSharedExperience_def Let_def)

lemma core_eq:
  assumes "core P = core P'"
  shows "leader P = leader P'" "memberList P = memberList P'" "inviteList P = inviteList P'"
    "folk P = folk P'" "party_empty P = party_empty P'"
  using assms by (simp_all add: core_def folk_def party_empty_def)

lemma parties_put [simp]:
  "parties (put_party q P w) q' = (if q' = q then Some P else parties w q')"
  "getParty (put_party q P w) = getParty w"
  "invitePartyList (put_party q P w) = invitePartyList w"
  "online (put_party q P w) = online w"
  by (simp_all add: put_party_def)

lemma parties_players [simp]:
  "parties (setParty p x w) = parties w"
  "getParty (setParty p x w) p' = (if p' = p then x else getParty w p')"
  "invitePartyList (setParty p x w) = invitePartyList w"
  "online (setParty p x w) = online w"
  "parties (removePartyInvitation p q w) = parties w"
  "getParty (removePartyInvitation p q w) = getParty w"
  "invitePartyList (removePartyInvitation p q w) p' =
     (if p' = p then removeAll q (invitePartyList w p) else invitePartyList w p')"
  "online (removePartyInvitation p q w) = online w"
  "parties (addPartyInvitation p q w) = parties w"
  "getParty (addPartyInvitation p q w) = getParty w"
  "online (addPartyInvitation p q w) = online w"
  by (simp_all add: setParty_def removePartyInvitation_def addPartyInvitation_def)

lemma folks_put [simp]:
  "folks (put_party q P w) q' = (if q' = q then set (folk P) else folks w q')"
  "invited (put_party q P w) q' = (if q' = q then set (inviteList P) else invited w q')"
  "folks (setParty p x w) = folks w" "invited (setParty p x w) = invited w"
  "folks (removePartyInvitation p q w) = folks w" "invited (removePartyInvitation p q w) = invited w"
  "folks (addPartyInvitation p q w) = folks w" "invited (addPartyInvitation p q w) = invited w"
  by (simp_all add: folks_def invited_def fun_eq_iff)

lemma folks_Some [simp]: "parties w q = Some P \<Longrightarrow> folks w q = set (folk P)"
  "parties w q = Some P \<Longrightarrow> invited w q = set (inviteList P)"
  by (simp_all add: folks_def invited_def)

lemma wf_same_core:
  assumes wf: "wf_world E w" and P: "parties w q = Some P" and "core P' = core P"
  shows "wf_world E (put_party q P' w)"
proof -
  note eq = core_eq [OF assms(3)]
  have f: "folks (put_party q P' w) = folks w" "invited (put_party q P' w) = invited w"
    using P by (auto simp: fun_eq_iff eq)
  have "lists_ok E (put_party q P' w)"
    using wf P by (auto simp: wf_world_def lists_ok_def f eq split: if_splits)
  with wf show ?thesis by (simp add: wf_world_def f)
qed

section \<open>Disbanding\<close>

lemma fold_leave:
  "parties (fold (\<lambda>m. setParty m None) ms w) = parties w"
  "getParty (fold (\<lambda>m. setParty m None) ms w) p = (if p \<in> set ms then None else getParty w p)"
  "invitePartyList (fold (\<lambda>m. setParty m None) ms w) = invitePartyList w"
  "online (fold (\<lambda>m. setParty m None) ms w) = online w"
  by (induction ms arbitrary: w) simp_all

lemma fold_uninvite:
  "parties (fold (\<lambda>i. removePartyInvitation i q) is w) = parties w"
  "getParty (fold (\<lambda>i. removePartyInvitation i q) is w) = getParty w"
  "invitePartyList (fold (\<lambda>i. removePartyInvitation i q) is w) p =
     (if p \<in> set is then removeAll q (invitePartyList w p) else invitePartyList w p)"
  "online (fold (\<lambda>i. removePartyInvitation i q) is w) = online w"
  by (induction "is" arbitrary: w) simp_all

lemma disband_Some:
  assumes "parties w q = Some P" and "eventPartyOnDisband env q"
  obtains w' where "disband env q w = Some w'"
    and "parties w' = (parties w)(q := None)"
    and "\<And>p. getParty w' p = (if p \<in> set (folk P) then None else getParty w p)"
    and "\<And>p. invitePartyList w' p =
      (if p \<in> set (inviteList P) then removeAll q (invitePartyList w p) else invitePartyList w p)"
    and "online w' = online w"
  using assms
  by (auto simp: disband_def Let_def delete_party_def fold_leave fold_uninvite folk_def)

lemma disband_ok:
  assumes wf: "wf_leaving q w" and P: "parties w q = Some P" and ev: "eventPartyOnDisband env q"
  shows "\<exists>w'. disband env q w = Some w' \<and> wf_world {} w' \<and> online w' = online w \<and>
    (\<forall>p. set (invitePartyList w' p) \<subseteq> set (invitePartyList w p)) \<and>
    (\<forall>p. getParty w p = None \<longrightarrow> getParty w' p = None)"
proof -
  obtain w' where w': "disband env q w = Some w'" "parties w' = (parties w)(q := None)"
    and get: "\<And>p. getParty w' p = (if p \<in> set (folk P) then None else getParty w p)"
    and inv: "\<And>p. invitePartyList w' p =
      (if p \<in> set (inviteList P) then removeAll q (invitePartyList w p) else invitePartyList w p)"
    and on: "online w' = online w"
    using disband_Some [OF P ev] by metis
  have f: "folks w' x = (if x = q then {} else folks w x)"
    "invited w' x = (if x = q then {} else invited w x)" for x
    by (simp_all add: folks_def invited_def w'(2))
  have ok: "lists_ok {q} w" using wf by (simp add: wf_leaving_def)
  then have mem: "x \<in> set (invitePartyList w p) \<longleftrightarrow> p \<in> invited w x" for p x
    by (simp add: lists_ok_def)
  have "x \<in> set (invitePartyList w' p) \<longleftrightarrow> p \<in> invited w' x" for p x
    using mem [of x p] mem [of q p] P unfolding inv f by auto
  moreover have "distinct (invitePartyList w' p)" for p
    using ok by (simp add: inv lists_ok_def distinct_removeAll)
  moreover have "distinct (folk P') \<and> distinct (inviteList P') \<and>
      set (folk P') \<union> set (inviteList P') \<subseteq> online w' \<and> (x \<in> {} \<or> \<not> party_empty P')"
    if "parties w' x = Some P'" for x P'
  proof -
    have "x \<noteq> q" and "parties w x = Some P'" using that by (auto simp: w'(2) split: if_splits)
    with ok on show ?thesis unfolding lists_ok_def by auto
  qed
  ultimately have "lists_ok {} w'" unfolding lists_ok_def by blast
  moreover have "getParty w' p = Some x \<longleftrightarrow> p \<in> folks w' x" for p x
  proof (cases "x = q")
    case True
    with wf P show ?thesis unfolding get f wf_leaving_def by auto
  next
    case False
    then have "getParty w p = Some x \<longleftrightarrow> p \<in> folks w x" using wf by (simp add: wf_leaving_def)
    moreover have "p \<in> set (folk P) \<Longrightarrow> getParty w p \<noteq> Some x"
      using wf P False unfolding wf_leaving_def by force
    ultimately show ?thesis using False unfolding get f by auto
  qed
  ultimately have "wf_world {} w'" unfolding wf_world_def by blast
  moreover have "set (invitePartyList w' p) \<subseteq> set (invitePartyList w p)" for p by (auto simp: inv)
  ultimately show ?thesis using w'(1) on get by auto
qed

section \<open>Leadership and leaving\<close>

text \<open>A party put back with the same people, in another order or with one less.\<close>

lemma lists_put:
  assumes ok: "lists_ok E w" and P: "parties w q = Some P" and "E \<subseteq> E'"
    and "distinct (folk P')" and "set (folk P') \<subseteq> set (folk P)" and "inviteList P' = inviteList P"
    and "q \<in> E' \<or> \<not> party_empty P'"
  shows "lists_ok E' (put_party q P' w)"
proof -
  have f: "invited (put_party q P' w) = invited w" using P assms(6) by (auto simp: fun_eq_iff)
  have "distinct (folk Q) \<and> distinct (inviteList Q) \<and>
      set (folk Q) \<union> set (inviteList Q) \<subseteq> online w \<and> (x \<in> E' \<or> \<not> party_empty Q)"
    if "parties (put_party q P' w) x = Some Q" for x Q
  proof (cases "x = q")
    case True
    with that have "Q = P'" by simp
    moreover have "distinct (inviteList P) \<and> set (folk P) \<union> set (inviteList P) \<subseteq> online w"
      using ok P unfolding lists_ok_def by blast
    ultimately show ?thesis using assms(4-7) True by auto
  next
    case False
    with that have "parties w x = Some Q" by simp
    with ok assms(3) show ?thesis unfolding lists_ok_def by blast
  qed
  then show ?thesis using ok unfolding lists_ok_def f by (simp only: parties_put) blast
qed

lemma pass_ok:
  assumes wf: "wf_world {} w" and P: "parties w q = Some P" and p: "player \<in> set (memberList P)"
  obtains w' P' where "passPartyLeadership env q player w = Some (True, w')" and "wf_world {} w'"
    and "online w' = online w" and "invitePartyList w' = invitePartyList w" and "getParty w' = getParty w"
    and "parties w' q = Some P'" and "leader P' = player" and "set (folk P') = set (folk P)"
proof -
  let ?P1 = "P\<lparr> leader := player, memberList := leader P # remove1 player (memberList P) \<rparr>"
  let ?P' = "updateSharedExperience env ?P1"
  note eq = core_eq [OF core_simps(1) [of env ?P1]]
  have dist: "distinct (folk P)" using wf_party [OF wf P] by simp
  then have "leader P \<noteq> player" using p by (auto simp: folk_def)
  have "getParty w player = Some q"
    using wf_member [OF wf] P p by (simp add: folk_def)
  with \<open>leader P \<noteq> player\<close> P
  have pass: "passPartyLeadership env q player w = Some (True, put_party q ?P' w)"
    by (simp add: passPartyLeadership_def)
  have d': "distinct (folk ?P')" and s': "set (folk ?P') = set (folk P)"
    using dist p \<open>leader P \<noteq> player\<close> by (auto simp: eq folk_def)
  have "lists_ok {} (put_party q ?P' w)"
    using wf P d' s' by (intro lists_put) (auto simp: wf_world_def eq party_empty_def)
  moreover have "folks (put_party q ?P' w) = folks w" using P s' by (auto simp: fun_eq_iff)
  ultimately have "wf_world {} (put_party q ?P' w)" using wf by (simp add: wf_world_def)
  then show thesis using that [OF pass] s' by (simp add: eq)
qed

text \<open>The end of \<open>leaveParty\<close>, for a player who no longer leads, or one who leads and dissolves the party.\<close>

definition leave_rest :: "party_env \<Rightarrow> nat \<Rightarrow> nat \<Rightarrow> bool \<Rightarrow> party \<Rightarrow> world \<Rightarrow> (bool \<times> world) option" where
  "leave_rest env q player missingLeader P1 w1 =
     (let P2 = P1\<lparr> memberList := remove1 player (memberList P1) \<rparr>;
          P3 = clearPlayerPoints env player (updateVocationsList env (updateSharedExperience env P2));
          w2 = put_party q P3 (setParty player None w1)
      in if missingLeader \<or> party_empty P3 then map_option (Pair True) (disband env q w2) else Some (True, w2))"

lemma leave_rest_ok:
  assumes wf: "wf_world {} w" and P: "parties w q = Some P" and p: "player \<in> set (folk P)"
    and ev: "eventPartyOnDisband env q" and m: "missingLeader \<or> player \<noteq> leader P"
  shows "\<exists>w'. leave_rest env q player missingLeader P w = Some (True, w') \<and> wf_world {} w' \<and>
    online w' = online w \<and> (\<forall>x. set (invitePartyList w' x) \<subseteq> set (invitePartyList w x)) \<and>
    getParty w' player = None"
proof -
  let ?P2 = "P\<lparr> memberList := remove1 player (memberList P) \<rparr>"
  define P3 where "P3 = clearPlayerPoints env player (updateVocationsList env (updateSharedExperience env ?P2))"
  define w2 where "w2 = put_party q P3 (setParty player None w)"
  have rest: "leave_rest env q player missingLeader P w =
      (if missingLeader \<or> party_empty P3 then map_option (Pair True) (disband env q w2) else Some (True, w2))"
    unfolding leave_rest_def P3_def w2_def Let_def by simp
  have "core P3 = core ?P2" by (simp add: P3_def)
  note eq = core_eq [OF this]
  have dist: "distinct (folk P)" using wf_party [OF wf P] by simp
  have d: "distinct (folk P3)" and s: "set (folk P3) \<subseteq> set (folk P)" "set (folk P) - {player} \<subseteq> set (folk P3)"
    using dist by (auto simp: eq folk_def)
  have lists: "lists_ok {} (setParty player None w)" using wf by (simp add: wf_world_def lists_ok_def)
  have P1: "parties (setParty player None w) q = Some P" using P by simp
  have on: "online w2 = online w" "invitePartyList w2 = invitePartyList w" by (simp_all add: w2_def)
  have get: "getParty w2 x = (if x = player then None else getParty w x)" for x by (simp add: w2_def)
  have fo: "folks w2 y = (if y = q then set (folk P3) else folks w y)" for y by (simp add: w2_def)
  have mem: "getParty w x = Some y \<longleftrightarrow> x \<in> folks w y" for x y using wf_member [OF wf] .
  have memq: "getParty w x = Some q \<longleftrightarrow> x \<in> set (folk P)" for x using mem [of x q] P by simp
  have pq: "getParty w player = Some q" using memq p by blast
  have other: "getParty w2 x = Some y \<longleftrightarrow> x \<in> folks w2 y" if "y \<noteq> q" for x y
    using mem [of x y] pq that unfolding get fo by auto
  show ?thesis
  proof (cases "missingLeader \<or> party_empty P3")
    case True
    have "lists_ok {q} w2"
      unfolding w2_def using lists_put [OF lists P1, of "{q}" P3] d s by (simp add: eq)
    moreover have "x \<in> folks w2 q" if "getParty w2 x = Some q" for x
    proof -
      have "x \<noteq> player" and "getParty w x = Some q" using that unfolding get by (auto split: if_splits)
      then show ?thesis using memq [of x] s(2) unfolding fo by auto
    qed
    moreover have "getParty w2 x = Some q \<or> getParty w2 x = None" if "x \<in> folks w2 q" for x
    proof -
      have "x \<in> set (folk P)" using that s(1) unfolding fo by auto
      then show ?thesis using memq [of x] unfolding get by auto
    qed
    ultimately have leaving: "wf_leaving q w2" using other unfolding wf_leaving_def by blast
    have "parties w2 q = Some P3" by (simp add: w2_def)
    from disband_ok [OF leaving this ev] obtain w' where w': "disband env q w2 = Some w'" "wf_world {} w'"
      "online w' = online w2" "\<forall>x. set (invitePartyList w' x) \<subseteq> set (invitePartyList w2 x)"
      "\<forall>x. getParty w2 x = None \<longrightarrow> getParty w' x = None"
      by blast
    from w'(5) have "getParty w' player = None" by (simp add: get)
    with True w' on rest show ?thesis by simp
  next
    case False
    have "player \<notin> set (folk P3)" using False m dist by (simp add: eq folk_def)
    with s p have folk': "set (folk P3) = set (folk P) - {player}" by blast
    have "lists_ok {} w2"
      unfolding w2_def using lists_put [OF lists P1, of "{}" P3] d s False by (simp add: eq(3))
    moreover have "getParty w2 x = Some q \<longleftrightarrow> x \<in> folks w2 q" for x
      using memq [of x] unfolding get fo by (simp add: folk')
    then have "getParty w2 x = Some y \<longleftrightarrow> x \<in> folks w2 y" for x y
      using other [of y x] by (cases "y = q") blast+
    ultimately have "wf_world {} w2" unfolding wf_world_def by blast
    with False rest on get show ?thesis by simp
  qed
qed

lemma leaveParty_ok:
  assumes wf: "wf_world {} w" and get: "getParty w player = Some q"
    and ev: "eventPartyOnDisband env q" "eventPartyOnLeave env q player"
  shows "\<exists>w'. leaveParty env q player w = Some (True, w') \<and> wf_world {} w' \<and>
    online w' = online w \<and> (\<forall>x. set (invitePartyList w' x) \<subseteq> set (invitePartyList w x)) \<and>
    getParty w' player = None"
proof -
  obtain P where P: "parties w q = Some P" and p: "player \<in> set (folk P)"
    using party_of_player [OF wf get] by blast
  let ?missing = "leader P = player \<and> (memberList P = [] \<or> length (memberList P) = 1 \<and> inviteList P = [])"
  show ?thesis
  proof (cases "leader P = player \<and> \<not> ?missing")
    case True
    then have hd_in: "hd (memberList P) \<in> set (memberList P)" by auto
    then obtain w1 P1 where w1: "passPartyLeadership env q (hd (memberList P)) w = Some (True, w1)"
      "wf_world {} w1" "online w1 = online w" "invitePartyList w1 = invitePartyList w"
      "parties w1 q = Some P1" "leader P1 = hd (memberList P)" "set (folk P1) = set (folk P)"
      using pass_ok [OF wf P] by metis
    have "player \<notin> set (memberList P)" using wf_party(1) [OF wf P] True by (auto simp: folk_def)
    with hd_in w1(6) have "leader P1 \<noteq> player" by metis
    moreover have "leaveParty env q player w = leave_rest env q player False P1 w1"
      using True P get ev w1(1,5) by (auto simp: leaveParty_def leave_rest_def Let_def)
    ultimately show ?thesis
      using leave_rest_ok [OF w1(2,5), of player env False] w1 p ev by simp
  next
    case False
    then have "leaveParty env q player w = leave_rest env q player ?missing P w"
      using P get ev by (auto simp: leaveParty_def leave_rest_def Let_def)
    with leave_rest_ok [OF wf P p, of env ?missing] False ev show ?thesis by auto
  qed
qed

section \<open>Invitations\<close>

lemma joinParty_ok:
  assumes wf: "wf_world {} w" and P: "parties w q = Some P" and none: "getParty w player = None"
  shows "\<exists>r w'. joinParty env q player w = Some (r, w') \<and> wf_world {} w'"
proof (cases "eventPartyOnJoin env q player \<and> player \<in> set (inviteList P)")
  case False
  with P wf show ?thesis by (auto simp: joinParty_def)
next
  case True
  let ?P1 = "P\<lparr> inviteList := remove1 player (inviteList P), memberList := memberList P @ [player] \<rparr>"
  define P2 where "P2 = updateVocationsList env (updateSharedExperience env ?P1)"
  define w' where "w' = put_party q P2 (removePartyInvitation player q (setParty player (Some q) w))"
  have join: "joinParty env q player w = Some (True, w')"
    using P True by (simp add: joinParty_def w'_def P2_def Let_def)
  have "core P2 = core ?P1" by (simp add: P2_def)
  note eq = core_eq [OF this]
  note ok = wf_party [OF wf P]
  have mem: "getParty w x = Some y \<longleftrightarrow> x \<in> folks w y" for x y using wf_member [OF wf] .
  have inv: "y \<in> set (invitePartyList w x) \<longleftrightarrow> x \<in> invited w y" for x y using wf_invited [OF wf] .
  have out: "player \<notin> set (folk P)" using mem [of player q] none P by simp
  have folk2: "set (folk P2) = insert player (set (folk P))" "distinct (folk P2)"
    using ok(1) out by (auto simp: eq folk_def)
  have inv2: "set (inviteList P2) = set (inviteList P) - {player}" "distinct (inviteList P2)"
    using ok(2) by (auto simp: eq)
  have "y \<in> set (invitePartyList w' x) \<longleftrightarrow> x \<in> invited w' y" for x y
    using inv [of y x] inv [of y player] P by (auto simp: w'_def inv2)
  moreover have "distinct (invitePartyList w' x)" for x
    using wf by (simp add: w'_def wf_world_def lists_ok_def distinct_removeAll)
  moreover have "distinct (folk Q) \<and> distinct (inviteList Q) \<and>
      set (folk Q) \<union> set (inviteList Q) \<subseteq> online w' \<and> (y \<in> {} \<or> \<not> party_empty Q)"
    if "parties w' y = Some Q" for y Q
  proof (cases "y = q")
    case True
    with that have "Q = P2" by (simp add: w'_def)
    with folk2 inv2 ok \<open>eventPartyOnJoin env q player \<and> _\<close> show ?thesis
      by (auto simp: w'_def eq party_empty_def)
  next
    case False
    with that have "parties w y = Some Q" by (simp add: w'_def)
    from wf_party [OF wf this] show ?thesis by (auto simp: w'_def)
  qed
  ultimately have "lists_ok {} w'" unfolding lists_ok_def by blast
  moreover have "getParty w' x = Some y \<longleftrightarrow> x \<in> folks w' y" for x y
    using mem [of x y] mem [of player y] none P by (auto simp: w'_def folk2)
  ultimately have "wf_world {} w'" unfolding wf_world_def by blast
  with join show ?thesis by blast
qed

lemma addPartyInvitation_set:
  "set (invitePartyList (addPartyInvitation p q w) x) =
     (if x = p then insert q (set (invitePartyList w x)) else set (invitePartyList w x))"
  "distinct (invitePartyList w x) \<Longrightarrow> distinct (invitePartyList (addPartyInvitation p q w) x)"
  by (auto simp: addPartyInvitation_def)

lemma invitePlayer_ok:
  assumes wf: "wf_world {q} w" and P: "parties w q = Some P" and on: "player \<in> online w"
    and new: "party_empty P \<Longrightarrow> \<not> isPlayerInvited P player"
  shows "\<exists>r w'. invitePlayer q player w = Some (r, w') \<and> wf_world {} w'"
proof (cases "isPlayerInvited P player")
  case True
  then have "\<not> party_empty P" using new by blast
  then have "wf_world {} w" using wf P unfolding wf_world_def lists_ok_def by (metis empty_iff insertE option.inject)
  moreover have "invitePlayer q player w = Some (False, w)" using True P by (simp add: invitePlayer_def)
  ultimately show ?thesis by blast
next
  case False
  define P1 where "P1 = P\<lparr> inviteList := inviteList P @ [player] \<rparr>"
  define w' where "w' = addPartyInvitation player q (put_party q P1 w)"
  have eq: "folk P1 = folk P" "inviteList P1 = inviteList P @ [player]" "\<not> party_empty P1"
    by (simp_all add: P1_def folk_def party_empty_def)
  note ok = wf_party [OF wf P]
  have mem: "getParty w x = Some y \<longleftrightarrow> x \<in> folks w y" for x y using wf_member [OF wf] .
  have inv: "y \<in> set (invitePartyList w x) \<longleftrightarrow> x \<in> invited w y" for x y using wf_invited [OF wf] .
  have "y \<in> set (invitePartyList w' x) \<longleftrightarrow> x \<in> invited w' y" for x y
    using inv [of y x] P by (auto simp: w'_def addPartyInvitation_set eq)
  moreover have "distinct (invitePartyList w' x)" for x
    using wf by (simp add: w'_def wf_world_def lists_ok_def addPartyInvitation_set)
  moreover have "distinct (folk Q) \<and> distinct (inviteList Q) \<and>
      set (folk Q) \<union> set (inviteList Q) \<subseteq> online w' \<and> (y \<in> {} \<or> \<not> party_empty Q)"
    if "parties w' y = Some Q" for y Q
  proof (cases "y = q")
    case True
    with that have "Q = P1" by (simp add: w'_def)
    with ok on False show ?thesis by (auto simp: w'_def eq isPlayerInvited_def)
  next
    case False
    with that have "parties w y = Some Q" by (simp add: w'_def)
    from wf_party [OF wf this] False show ?thesis by (auto simp: w'_def)
  qed
  ultimately have "lists_ok {} w'" unfolding lists_ok_def by blast
  moreover have "getParty w' x = Some y \<longleftrightarrow> x \<in> folks w' y" for x y
    using mem [of x y] P by (auto simp: w'_def eq)
  ultimately have "wf_world {} w'" unfolding wf_world_def by blast
  moreover have "invitePlayer q player w = Some (True, w')"
    using False P by (simp add: invitePlayer_def w'_def P1_def)
  ultimately show ?thesis by blast
qed

section \<open>Withdrawn invitations\<close>

lemma disband_empty:
  "parties w q = Some P \<Longrightarrow> party_empty P \<Longrightarrow> eventPartyOnDisband env q \<Longrightarrow>
     disband env q w = Some (delete_party q (setParty (leader P) None w))"
  by (simp add: disband_def party_empty_def Let_def)

definition uninvited :: "nat \<Rightarrow> nat \<Rightarrow> party \<Rightarrow> world \<Rightarrow> world" where
  "uninvited q player P w =
     (let P1 = P\<lparr> inviteList := remove1 player (inviteList P) \<rparr>; w1 = put_party q P1 w
      in if party_empty P1 then delete_party q (setParty (leader P1) None w1) else w1)"

lemma removeInvite_uninvited:
  assumes "parties w q = Some P" and "player \<in> set (inviteList P)" and "eventPartyOnDisband env q"
  shows "removeInvite env q player removeFromPlayer w =
    Some (True, uninvited q player P (if removeFromPlayer then removePartyInvitation player q w else w))"
proof -
  let ?P1 = "P\<lparr> inviteList := remove1 player (inviteList P) \<rparr>"
  let ?w = "if removeFromPlayer then removePartyInvitation player q w else w"
  have swap: "(if removeFromPlayer then removePartyInvitation player q (put_party q ?P1 w)
      else put_party q ?P1 w) = put_party q ?P1 ?w"
    by (simp add: put_party_def removePartyInvitation_def)
  have "parties (put_party q ?P1 ?w) q = Some ?P1" by simp
  from disband_empty [OF this _ assms(3)] assms(1,2) show ?thesis
    by (simp add: removeInvite_def Let_def uninvited_def swap)
qed

lemma uninvited_ok:
  assumes wf: "wf_world {} w" and P: "parties w q = Some P" and p: "player \<in> set (inviteList P)"
  shows "wf_world {} (uninvited q player P (removePartyInvitation player q w))"
proof -
  define P1 where "P1 = P\<lparr> inviteList := remove1 player (inviteList P) \<rparr>"
  define w1 where "w1 = put_party q P1 (removePartyInvitation player q w)"
  have eq: "folk P1 = folk P" "inviteList P1 = remove1 player (inviteList P)" "leader P1 = leader P"
    by (simp_all add: P1_def folk_def)
  note ok = wf_party [OF wf P]
  have mem: "getParty w x = Some y \<longleftrightarrow> x \<in> folks w y" for x y using wf_member [OF wf] .
  have inv: "y \<in> set (invitePartyList w x) \<longleftrightarrow> x \<in> invited w y" for x y using wf_invited [OF wf] .
  have "y \<in> set (invitePartyList w1 x) \<longleftrightarrow> x \<in> invited w1 y" for x y
    using inv [of y x] inv [of y player] P ok(2) by (auto simp: w1_def eq)
  moreover have "distinct (invitePartyList w1 x)" for x
    using wf by (simp add: w1_def wf_world_def lists_ok_def distinct_removeAll)
  moreover have "distinct (folk Q) \<and> distinct (inviteList Q) \<and>
      set (folk Q) \<union> set (inviteList Q) \<subseteq> online w1 \<and> (y \<in> (if party_empty P1 then {q} else {}) \<or> \<not> party_empty Q)"
    if "parties w1 y = Some Q" for y Q
  proof (cases "y = q")
    case True
    with that have "Q = P1" by (simp add: w1_def)
    with ok True set_remove1_subset [of player "inviteList P"] show ?thesis by (auto simp: w1_def eq)
  next
    case False
    with that have "parties w y = Some Q" by (simp add: w1_def)
    from wf_party [OF wf this] show ?thesis by (auto simp: w1_def)
  qed
  ultimately have lists: "lists_ok (if party_empty P1 then {q} else {}) w1" unfolding lists_ok_def by blast
  have mem1: "getParty w1 x = Some y \<longleftrightarrow> x \<in> folks w1 y" for x y
    using mem [of x y] P by (auto simp: w1_def eq)
  have P1': "parties w1 q = Some P1" by (simp add: w1_def)
  define e :: party_env where "e = undefined\<lparr> eventPartyOnDisband := (\<lambda>_. True) \<rparr>"
  have ev: "eventPartyOnDisband e q" by (simp add: e_def)
  show ?thesis
  proof (cases "party_empty P1")
    case True
    with lists mem1 have "wf_leaving q w1" unfolding wf_leaving_def by auto
    from disband_ok [OF this P1' ev] disband_empty [OF P1' True ev]
    have "wf_world {} (delete_party q (setParty (leader P1) None w1))" by auto
    with True show ?thesis by (simp add: uninvited_def P1_def [symmetric] w1_def)
  next
    case False
    with lists mem1 have "wf_world {} w1" by (simp add: wf_world_def)
    with False show ?thesis by (simp add: uninvited_def P1_def [symmetric] w1_def)
  qed
qed

lemma uninvited_online [simp]: "online (uninvited q player P w) = online w"
  by (simp add: uninvited_def Let_def delete_party_def)

lemma removeInvite_ok:
  assumes "wf_world {} w" and "parties w q = Some P" and "eventPartyOnDisband env q"
  shows "\<exists>r w'. removeInvite env q player True w = Some (r, w') \<and> wf_world {} w'"
proof (cases "player \<in> set (inviteList P)")
  case True
  with uninvited_ok removeInvite_uninvited assms show ?thesis by auto
next
  case False
  with assms have "removeInvite env q player True w = Some (False, w)" by (simp add: removeInvite_def)
  with assms show ?thesis by blast
qed

text \<open>While \<open>clearPartyInvitations\<close> runs, the player still lists the parties it has been removed from.\<close>

definition with_invites :: "nat \<Rightarrow> nat list \<Rightarrow> world \<Rightarrow> world" where
  "with_invites p qs w = w\<lparr> invitePartyList := (invitePartyList w)(p := qs) \<rparr>"

lemma with_invites_simps [simp]:
  "parties (with_invites p qs w) = parties w"
  "getParty (with_invites p qs w) = getParty w"
  "online (with_invites p qs w) = online w"
  "invitePartyList (with_invites p qs w) p' = (if p' = p then qs else invitePartyList w p')"
  by (simp_all add: with_invites_def)

lemma uninvited_with_invites:
  "uninvited q player P (with_invites p qs w) = with_invites p qs (uninvited q player P w)"
  by (simp add: uninvited_def Let_def with_invites_def delete_party_def put_party_def setParty_def)

lemma remove_invitations_ok:
  assumes ev: "\<And>q. eventPartyOnDisband env q"
  shows "wf_world {} (with_invites p qs w) \<Longrightarrow>
    \<exists>w'. remove_invitations env p qs w = Some w' \<and> wf_world {} (with_invites p [] w') \<and> online w' = online w"
proof (induction qs arbitrary: w)
  case Nil
  then show ?case by simp
next
  case (Cons q rest)
  let ?wI = "with_invites p (q # rest) w"
  have "p \<in> invited ?wI q" using wf_invited [OF Cons.prems, of q p] by simp
  then obtain P where P: "parties w q = Some P" and p: "p \<in> set (inviteList P)"
    by (cases "parties w q") (auto simp: invited_def)
  have "q \<notin> set rest" using Cons.prems by (auto simp: wf_world_def lists_ok_def dest: spec [of _ p])
  then have "removePartyInvitation p q ?wI = with_invites p rest w"
    by (simp add: removePartyInvitation_def with_invites_def)
  with uninvited_ok [OF Cons.prems, of q P p] P p
  have "wf_world {} (with_invites p rest (uninvited q p P w))" by (simp add: uninvited_with_invites)
  from Cons.IH [OF this] removeInvite_uninvited [OF P p ev, of False] show ?case by simp
qed

lemma clearPartyInvitations_ok:
  assumes "wf_world {} w" and "\<And>q. eventPartyOnDisband env q"
  shows "\<exists>w'. clearPartyInvitations env p w = Some w' \<and> wf_world {} w' \<and> online w' = online w \<and>
    invitePartyList w' p = []"
proof -
  have "with_invites p (invitePartyList w p) w = w" by (simp add: with_invites_def)
  with assms obtain w' where "remove_invitations env p (invitePartyList w p) w = Some w'"
    "wf_world {} (with_invites p [] w')" "online w' = online w"
    using remove_invitations_ok [of env p "invitePartyList w p" w] by auto
  then show ?thesis by (simp add: clearPartyInvitations_def with_invites_def)
qed

section \<open>Commands\<close>

datatype party_cmd =
    Login nat | Logout nat
  | InviteToParty nat nat nat | JoinParty nat nat | RevokeInvitation nat nat
  | PassLeadership nat nat | LeaveParty nat | EnableSharedExperience nat bool
  | UpdateTicks nat u32 | UpdateSharedExperience nat

fun run_party_cmd :: "party_env \<Rightarrow> party_cmd \<Rightarrow> world \<Rightarrow> world option" where
  "run_party_cmd env (Login p) w = Some (w\<lparr> online := insert p (online w) \<rparr>)"
| "run_party_cmd env (Logout p) w = player_logout env p w"
| "run_party_cmd env (InviteToParty q p i) w = playerInviteToParty q p i w"
| "run_party_cmd env (JoinParty p l) w = playerJoinParty env p l w"
| "run_party_cmd env (RevokeInvitation p i) w = playerRevokePartyInvitation env p i w"
| "run_party_cmd env (PassLeadership p n) w = playerPassPartyLeadership env p n w"
| "run_party_cmd env (LeaveParty p) w = playerLeaveParty env p w"
| "run_party_cmd env (EnableSharedExperience p b) w = playerEnableSharedPartyExperience env p b w"
| "run_party_cmd env (UpdateTicks p n) w = playerUpdateTicks env p n w"
| "run_party_cmd env (UpdateSharedExperience p) w = playerUpdateSharedExperience env p w"

text \<open>
  No script keeps a party from being disbanded, or a player who logs out from leaving it, and a new party
  has an address of its own. The scripts of the repository (\<open>party.lua\<close>) veto nothing; \<open>veto_dangles\<close> below
  shows what a veto does. A script may veto that a player joins, or leaves by command.
\<close>

definition allows :: "party_env \<Rightarrow> party_cmd \<Rightarrow> world \<Rightarrow> bool" where
  "allows env cmd w \<longleftrightarrow>
     (\<forall>q. eventPartyOnDisband env q) \<and>
     (case cmd of
        Logout p \<Rightarrow> \<forall>q. eventPartyOnLeave env q p
      | InviteToParty q p i \<Rightarrow> parties w q = None
      | _ \<Rightarrow> True)"

definition no_parties :: world where
  "no_parties = \<lparr> online = {}, getParty = Map.empty, invitePartyList = (\<lambda>_. []), parties = Map.empty \<rparr>"

inductive party_reachable :: "world \<Rightarrow> bool" where
  start: "party_reachable no_parties"
| cmd: "party_reachable w \<Longrightarrow> allows env c w \<Longrightarrow> run_party_cmd env c w = Some w' \<Longrightarrow> party_reachable w'"

lemma wf_online: "wf_world E w \<Longrightarrow> online w \<subseteq> A \<Longrightarrow> wf_world E (w\<lparr> online := A \<rparr>)"
  unfolding wf_world_def lists_ok_def by (auto simp: folks_def invited_def subset_iff)

lemma wf_offline:
  assumes wf: "wf_world E w" and "getParty w p = None" and "invitePartyList w p = []"
  shows "wf_world E (w\<lparr> online := online w - {p} \<rparr>)"
proof -
  have "p \<notin> set (folk P)" "p \<notin> set (inviteList P)" if "parties w q = Some P" for q P
    using wf_member [OF wf, of p q] wf_invited [OF wf, of q p] assms(2,3) that by simp_all
  with wf show ?thesis unfolding wf_world_def lists_ok_def by (auto simp: folks_def invited_def subset_iff)
qed

lemma player_logout_ok:
  assumes wf: "wf_world {} w" and ev: "\<And>q. eventPartyOnDisband env q" "\<And>q. eventPartyOnLeave env q p"
  shows "\<exists>w'. player_logout env p w = Some w' \<and> wf_world {} w'"
proof -
  obtain w1 where w1: "clearPartyInvitations env p w = Some w1" "wf_world {} w1" "invitePartyList w1 p = []"
    using clearPartyInvitations_ok [OF wf ev(1)] by metis
  show ?thesis
  proof (cases "getParty w1 p")
    case None
    with w1 show ?thesis by (simp add: player_logout_def wf_offline)
  next
    case (Some q)
    obtain w2 where w2: "leaveParty env q p w1 = Some (True, w2)" "wf_world {} w2" "getParty w2 p = None"
      "set (invitePartyList w2 p) \<subseteq> set (invitePartyList w1 p)"
      using leaveParty_ok [OF w1(2) Some ev(1) ev(2)] by blast
    with w1(3) have "invitePartyList w2 p = []" by simp
    with w1(1) w2 Some show ?thesis by (simp add: player_logout_def wf_offline)
  qed
qed

lemma isInviting_total: "wf_world {} w \<Longrightarrow> \<exists>b. isInviting p i w = Some b"
  using party_of_player [of "{}" w p] by (auto simp: isInviting_def split: option.split)

lemma new_party_ok:
  assumes wf: "wf_world {} w" and "parties w q = None" and "getParty w p = None" and "p \<in> online w"
  shows "wf_world {q} (put_party q (new_party p) (setParty p (Some q) w))"
proof -
  have empty: "folks w q = {}" "invited w q = {}" using assms(2) by (simp_all add: folks_def invited_def)
  have mem: "getParty w x = Some y \<longleftrightarrow> x \<in> folks w y" for x y using wf_member [OF wf] .
  have inv: "y \<in> set (invitePartyList w x) \<longleftrightarrow> x \<in> invited w y" for x y using wf_invited [OF wf] .
  have new: "folk (new_party p) = [p]" "inviteList (new_party p) = []" by (simp_all add: folk_def new_party_def)
  let ?w = "put_party q (new_party p) (setParty p (Some q) w)"
  have "y \<in> set (invitePartyList ?w x) \<longleftrightarrow> x \<in> invited ?w y" for x y
    using inv [of y x] inv [of q x] by (auto simp: new empty)
  moreover have "distinct (invitePartyList ?w x)" for x
    using wf by (simp add: wf_world_def lists_ok_def)
  moreover have "distinct (folk Q) \<and> distinct (inviteList Q) \<and>
      set (folk Q) \<union> set (inviteList Q) \<subseteq> online ?w \<and> (y \<in> {q} \<or> \<not> party_empty Q)"
    if "parties ?w y = Some Q" for y Q
    using that assms(4) wf_party [OF wf, of y Q] by (cases "y = q") (auto simp: new)
  ultimately have "lists_ok {q} ?w" unfolding lists_ok_def by blast
  moreover have "getParty ?w x = Some y \<longleftrightarrow> x \<in> folks ?w y" for x y
    using mem [of x y] mem [of x q] mem [of p y] assms(3) by (auto simp: new empty)
  ultimately show ?thesis unfolding wf_world_def by blast
qed

lemma map_snd_Some: "\<exists>r w'. x = Some (r, w') \<and> Q w' \<Longrightarrow> \<exists>w'. map_option snd x = Some w' \<and> Q w'"
  by auto

lemma playerInviteToParty_ok:
  assumes wf: "wf_world {} w" and fresh: "parties w q = None"
  shows "\<exists>w'. playerInviteToParty q p i w = Some w' \<and> wf_world {} w'"
proof -
  obtain b where b: "isInviting i p w = Some b" using isInviting_total [OF wf] by blast
  show ?thesis
  proof (cases "p \<in> online w \<and> i \<in> online w \<and> \<not> b \<and> getParty w i = None")
    case False
    with b wf show ?thesis by (auto simp: playerInviteToParty_def)
  next
    case True
    show ?thesis
    proof (cases "getParty w p")
      case None
      from new_party_ok [OF wf fresh None] True
      have "wf_world {q} (put_party q (new_party p) (setParty p (Some q) w))" by blast
      from invitePlayer_ok [OF this, of "new_party p" i] True
      have "\<exists>w'. map_option snd (invitePlayer q i (put_party q (new_party p) (setParty p (Some q) w))) = Some w'
          \<and> wf_world {} w'"
        by (intro map_snd_Some) (simp add: isPlayerInvited_def new_party_def)
      with True None b show ?thesis by (simp add: playerInviteToParty_def)
    next
      case (Some q')
      obtain P where P: "parties w q' = Some P" using party_of_player [OF wf Some] by blast
      have "wf_world {q'} w" and "\<not> party_empty P"
        using wf P unfolding wf_world_def lists_ok_def by (blast, blast)
      from invitePlayer_ok [OF this(1) P, of i] True this(2)
      have "\<exists>w'. map_option snd (invitePlayer q' i w) = Some w' \<and> wf_world {} w'"
        by (intro map_snd_Some) blast
      with True Some P b wf show ?thesis by (simp add: playerInviteToParty_def)
    qed
  qed
qed

lemma playerJoinParty_ok:
  assumes wf: "wf_world {} w"
  shows "\<exists>w'. playerJoinParty env p l w = Some w' \<and> wf_world {} w'"
proof -
  obtain b where b: "isInviting l p w = Some b" using isInviting_total [OF wf] by blast
  show ?thesis
  proof (cases "p \<in> online w \<and> l \<in> online w \<and> b \<and> getParty w p = None \<and> getParty w l \<noteq> None")
    case False
    with b wf party_of_player [OF wf, of l] show ?thesis
      by (auto simp: playerJoinParty_def split: option.split)
  next
    case True
    then obtain q where q: "getParty w l = Some q" by blast
    then obtain P where P: "parties w q = Some P" using party_of_player [OF wf] by blast
    have "\<exists>w'. map_option snd (joinParty env q p w) = Some w' \<and> wf_world {} w'"
      using joinParty_ok [OF wf P] True by (intro map_snd_Some) blast
    with True q P b wf show ?thesis by (simp add: playerJoinParty_def)
  qed
qed

lemma playerRevoke_ok:
  assumes wf: "wf_world {} w" and ev: "\<And>q. eventPartyOnDisband env q"
  shows "\<exists>w'. playerRevokePartyInvitation env p i w = Some w' \<and> wf_world {} w'"
proof (cases "getParty w p")
  case None
  with wf show ?thesis by (simp add: playerRevokePartyInvitation_def)
next
  case (Some q)
  obtain P where P: "parties w q = Some P" using party_of_player [OF wf Some] by blast
  obtain b where b: "isInviting p i w = Some b" using isInviting_total [OF wf] by blast
  have "\<exists>w'. map_option snd (removeInvite env q i True w) = Some w' \<and> wf_world {} w'"
    using removeInvite_ok [OF wf P ev] by (intro map_snd_Some) blast
  with Some P b wf show ?thesis by (simp add: playerRevokePartyInvitation_def)
qed

lemma playerPass_ok:
  assumes wf: "wf_world {} w"
  shows "\<exists>w'. playerPassPartyLeadership env p n w = Some w' \<and> wf_world {} w'"
proof (cases "getParty w p")
  case None
  with wf show ?thesis by (simp add: playerPassPartyLeadership_def)
next
  case (Some q)
  obtain P where P: "parties w q = Some P" using party_of_player [OF wf Some] by blast
  have "\<exists>w'. map_option snd (passPartyLeadership env q n w) = Some w' \<and> wf_world {} w'"
  proof (cases "leader P = n \<or> getParty w n \<noteq> Some q")
    case True
    with P wf show ?thesis by (auto simp: passPartyLeadership_def)
  next
    case False
    then have "n \<in> set (memberList P)" using wf_member [OF wf, of n q] P by (auto simp: folk_def)
    then show ?thesis using pass_ok [OF wf P] by (metis option.simps(9) snd_conv)
  qed
  with Some P wf show ?thesis by (simp add: playerPassPartyLeadership_def)
qed

lemma put_same_core_ok:
  "wf_world {} w \<Longrightarrow> getParty w p = Some q \<Longrightarrow>
     \<exists>P. parties w q = Some P \<and> (\<forall>P'. core P' = core P \<longrightarrow> wf_world {} (put_party q P' w))"
  using party_of_player [of "{}" w p q] wf_same_core [of "{}" w q] by blast

lemma run_party_cmd_ok:
  assumes wf: "wf_world {} w" and ok: "allows env c w"
  shows "\<exists>w'. run_party_cmd env c w = Some w' \<and> wf_world {} w'"
proof -
  have ev: "eventPartyOnDisband env q" for q using ok by (simp add: allows_def)
  show ?thesis
  proof (cases c)
    case (Login p)
    with wf_online [OF wf, of "insert p (online w)"] show ?thesis by auto
  next
    case (Logout p)
    with ok have "eventPartyOnLeave env q p" for q by (simp add: allows_def)
    with player_logout_ok [OF wf ev] Logout show ?thesis by simp
  next
    case (InviteToParty q p i)
    with playerInviteToParty_ok [OF wf] ok show ?thesis by (simp add: allows_def)
  next
    case (JoinParty p l)
    with playerJoinParty_ok [OF wf] show ?thesis by simp
  next
    case (RevokeInvitation p i)
    with playerRevoke_ok [OF wf ev] show ?thesis by simp
  next
    case (PassLeadership p n)
    with playerPass_ok [OF wf] show ?thesis by simp
  next
    case (LeaveParty p)
    show ?thesis
    proof (cases "getParty w p")
      case None
      with LeaveParty wf show ?thesis by (simp add: playerLeaveParty_def)
    next
      case (Some q)
      obtain P where P: "parties w q = Some P" using party_of_player [OF wf Some] by blast
      show ?thesis
      proof (cases "eventPartyOnLeave env q p")
        case True
        with leaveParty_ok [OF wf Some ev] LeaveParty Some wf show ?thesis by (fastforce simp: playerLeaveParty_def)
      next
        case False
        with P Some have "leaveParty env q p w = Some (False, w)" by (simp add: leaveParty_def)
        with LeaveParty Some wf show ?thesis by (simp add: playerLeaveParty_def)
      qed
    qed
  next
    case (EnableSharedExperience p b)
    with put_same_core_ok [OF wf, of p] wf show ?thesis
      by (cases "getParty w p") (fastforce simp: playerEnableSharedPartyExperience_def)+
  next
    case (UpdateTicks p n)
    with put_same_core_ok [OF wf, of p] wf show ?thesis
      by (cases "getParty w p") (fastforce simp: playerUpdateTicks_def)+
  next
    case (UpdateSharedExperience p)
    with put_same_core_ok [OF wf, of p] wf show ?thesis
      by (cases "getParty w p") (fastforce simp: playerUpdateSharedExperience_def)+
  qed
qed

text \<open>
  C25:
  After any sequence of logins, logouts and party commands in which no script keeps a party from being
  disbanded or a player who logs out from leaving it, the pointers agree: a player points to a
  party exactly when it is the leader or a member of it, and lists an invitation exactly when the party
  lists it. No party holds a player twice, or one who is offline, and no party is left empty. The next
  such command follows no dangling pointer.
\<close>

theorem party_pointers_safe:
  assumes "party_reachable w"
  shows "(\<forall>p q. getParty w p = Some q \<longleftrightarrow>
      (\<exists>P. parties w q = Some P \<and> p \<in> set (leader P # memberList P))) \<and>
    (\<forall>p q. q \<in> set (invitePartyList w p) \<longleftrightarrow> (\<exists>P. parties w q = Some P \<and> p \<in> set (inviteList P))) \<and>
    (\<forall>q P. parties w q = Some P \<longrightarrow>
      distinct (leader P # memberList P) \<and> distinct (inviteList P) \<and> \<not> party_empty P \<and>
      set (leader P # memberList P @ inviteList P) \<subseteq> online w) \<and>
    (allows env c w \<longrightarrow> (\<exists>w'. run_party_cmd env c w = Some w'))"
proof -
  have wf: "wf_world {} w"
    using assms
  proof (induction rule: party_reachable.induct)
    case start
    show ?case by (simp add: no_parties_def wf_world_def lists_ok_def folks_def invited_def)
  next
    case (cmd w env c w')
    with run_party_cmd_ok [of w env c] show ?case by auto
  qed
  have "getParty w p = Some q \<longleftrightarrow> (\<exists>P. parties w q = Some P \<and> p \<in> set (leader P # memberList P))" for p q
    using wf_member [OF wf, of p q] by (cases "parties w q") (simp_all add: folks_def folk_def)
  moreover have "q \<in> set (invitePartyList w p) \<longleftrightarrow> (\<exists>P. parties w q = Some P \<and> p \<in> set (inviteList P))" for p q
    using wf_invited [OF wf, of q p] by (cases "parties w q") (simp_all add: invited_def)
  moreover have "distinct (leader P # memberList P) \<and> distinct (inviteList P) \<and> \<not> party_empty P \<and>
      set (leader P # memberList P @ inviteList P) \<subseteq> online w" if "parties w q = Some P" for q P
    using wf_party [OF wf that] by (auto simp: folk_def)
  moreover have "allows env c w \<longrightarrow> (\<exists>w'. run_party_cmd env c w = Some w')"
    using run_party_cmd_ok [OF wf] by blast
  ultimately show ?thesis by blast
qed

definition calm :: party_env where
  "calm = \<lparr> eventPartyOnJoin = (\<lambda>_ _. True), eventPartyOnLeave = (\<lambda>_ _. True),
     eventPartyOnDisband = (\<lambda>_. True), getLevel = (\<lambda>_. 8), getPosition = (\<lambda>_. Position 0 0 7),
     notGainInFight = (\<lambda>_. False), getFromVocation = (\<lambda>_. 1), inFight = (\<lambda>_. False),
     OTSYS_TIME = 0, PZ_LOCKED = 60000 \<rparr>"

lemma party_with_invitation:
  "\<exists>w P. party_reachable w \<and> parties w 7 = Some P \<and> leader P = Suc 0 \<and> getParty w (Suc 0) = Some 7 \<and>
     invitePartyList w (Suc 0) = []"
proof -
  let ?P = "(new_party 1)\<lparr> inviteList := [2] \<rparr>"
  let ?w1 = "\<lparr> online = {1}, getParty = Map.empty, invitePartyList = (\<lambda>_. []), parties = Map.empty \<rparr>"
  let ?w2 = "\<lparr> online = {2, 1}, getParty = Map.empty, invitePartyList = (\<lambda>_. []), parties = Map.empty \<rparr>"
  let ?w3 = "\<lparr> online = {2, 1}, getParty = [1 \<mapsto> 7], invitePartyList = (\<lambda>_. [])(2 := [7]), parties = [7 \<mapsto> ?P] \<rparr>"
  have "party_reachable ?w1"
    by (rule party_reachable.cmd [OF party_reachable.start, of calm "Login 1"])
      (simp_all add: allows_def calm_def no_parties_def)
  then have "party_reachable ?w2"
    by (rule party_reachable.cmd [where env = calm and c = "Login 2"])
      (simp_all add: allows_def calm_def)
  then have "party_reachable ?w3"
    by (rule party_reachable.cmd [where env = calm and c = "InviteToParty 7 1 2"])
      (simp_all add: allows_def calm_def playerInviteToParty_def isInviting_def invitePlayer_def setParty_def
        put_party_def addPartyInvitation_def isPlayerInvited_def new_party_def)
  then show ?thesis by (intro exI [of _ ?w3]) (simp add: new_party_def)
qed

theorem party_pointers_safe_witness:
  "\<exists>w. party_reachable w \<and> parties w 7 \<noteq> None \<and> (\<exists>w'. run_party_cmd calm (LeaveParty 1) w = Some w')"
proof -
  obtain w P where w: "party_reachable w" "parties w 7 = Some P" using party_with_invitation by blast
  have "allows calm (LeaveParty 1) w" by (simp add: allows_def calm_def)
  then show ?thesis using party_pointers_safe [OF w(1), of calm "LeaveParty 1"] w by blast
qed

text \<open>
  A veto against leaving also holds for a player who logs out: the party keeps pointing to a player who is
  gone.
\<close>

lemma veto_dangles:
  "\<exists>w w'. party_reachable w \<and>
     run_party_cmd (calm\<lparr> eventPartyOnLeave := (\<lambda>_ _. False) \<rparr>) (Logout 1) w = Some w' \<and>
     (\<exists>P. parties w' 7 = Some P \<and> leader P = 1) \<and> 1 \<notin> online w'"
proof -
  obtain w P where w: "party_reachable w" "parties w 7 = Some P" "leader P = 1" "getParty w 1 = Some 7"
    "invitePartyList w 1 = []"
    using party_with_invitation by auto
  then have "run_party_cmd (calm\<lparr> eventPartyOnLeave := (\<lambda>_ _. False) \<rparr>) (Logout 1) w
      = Some (w\<lparr> invitePartyList := (invitePartyList w)(1 := []), online := online w - {1} \<rparr>)"
    by (simp add: player_logout_def clearPartyInvitations_def leaveParty_def)
  with w show ?thesis by (intro exI conjI) (assumption | simp)+
qed

end
