(* ===== verification/WaitList.thy ===== *)
theory WaitList
  imports Prelude
begin

text \<open>
  The waiting list of players who try to log in while the server is full (\<open>waitlist.cpp\<close>): those with a
  premium account first, then the others, each with the time until which the place is kept. Erasing an
  element of one \<open>std::list\<close> through another is undefined and is \<open>None\<close>.
\<close>

section \<open>Lists and slots\<close>

record wait_entry =
  timeout :: u64
  playerGUID :: u32

record wait_list =
  priorityWaitList :: "wait_entry list"
  waitList :: "wait_entry list"

record login_env =
  OTSYS_TIME :: u64
  maxPlayers :: u32
  playersOnline :: nat
  canAlwaysLogin :: bool
  accountType :: nat
  isPremium :: bool

text \<open>\<open>timeout\<close> is unsigned, so the difference with the time is compared as an unsigned number.\<close>

definition cleanupList :: "u64 \<Rightarrow> wait_entry list \<Rightarrow> wait_entry list" where
  "cleanupList time xs = filter (\<lambda>w. \<not> timeout w - time \<le> 0) xs"

definition getTime :: "nat \<Rightarrow> nat" where
  "getTime slot =
     (if slot < 5 then 5 else if slot < 10 then 10 else if slot < 20 then 20 else if slot < 50 then 60 else 120)"

definition getTimeout :: "nat \<Rightarrow> nat" where
  "getTimeout slot = getTime slot + 15"

definition new_timeout :: "login_env \<Rightarrow> nat \<Rightarrow> u64" where
  "new_timeout env slot = OTSYS_TIME env + of_nat (getTimeout slot * 1000)"

text \<open>An iterator is a position in one of the lists, or the end of the second.\<close>

datatype place = Priority nat | Regular nat | WaitEnd

fun find_guid :: "u32 \<Rightarrow> wait_entry list \<Rightarrow> nat \<Rightarrow> nat option" where
  "find_guid guid [] n = None"
| "find_guid guid (w # ws) n = (if playerGUID w = guid then Some n else find_guid guid ws (n + 1))"

definition findClient :: "u32 \<Rightarrow> wait_list \<Rightarrow> place \<times> nat" where
  "findClient guid s =
     (case find_guid guid (priorityWaitList s) 0 of
        Some k \<Rightarrow> (Priority k, k + 1)
      | None \<Rightarrow>
          (case find_guid guid (waitList s) 0 of
             Some k \<Rightarrow> (Regular k, length (priorityWaitList s) + k + 1)
           | None \<Rightarrow> (WaitEnd, length (priorityWaitList s) + length (waitList s) + 1)))"

definition erase_at :: "nat \<Rightarrow> 'a list \<Rightarrow> 'a list" where
  "erase_at k xs = take k xs @ drop (Suc k) xs"

definition set_timeout :: "nat \<Rightarrow> u64 \<Rightarrow> wait_entry list \<Rightarrow> wait_entry list" where
  "set_timeout k t xs = xs[k := (xs ! k)\<lparr> timeout := t \<rparr>]"

definition clientLogin :: "login_env \<Rightarrow> u32 \<Rightarrow> wait_list \<Rightarrow> (bool \<times> wait_list) option" where
  "clientLogin env guid s =
     (if canAlwaysLogin env \<or> accountType env \<ge> 4 then Some (True, s)
      else if maxPlayers env = 0 \<or> priorityWaitList s = [] \<and> waitList s = [] \<and> playersOnline env < unat (maxPlayers env)
        then Some (True, s)
      else
        (let s1 = s\<lparr> priorityWaitList := cleanupList (OTSYS_TIME env) (priorityWaitList s),
                     waitList := cleanupList (OTSYS_TIME env) (waitList s) \<rparr>;
             (it, slot) = findClient guid s1;
             now_able = (playersOnline env + slot \<le> unat (maxPlayers env))
         in case it of
              Priority k \<Rightarrow>
                if now_able then None
                else Some (False, s1\<lparr> priorityWaitList := set_timeout k (new_timeout env slot) (priorityWaitList s1) \<rparr>)
            | Regular k \<Rightarrow>
                if now_able then Some (True, s1\<lparr> waitList := erase_at k (waitList s1) \<rparr>)
                else Some (False, s1\<lparr> waitList := set_timeout k (new_timeout env slot) (waitList s1) \<rparr>)
            | WaitEnd \<Rightarrow>
                let n = length (priorityWaitList s1)
                in if isPremium env then
                     Some (False, s1\<lparr> priorityWaitList := priorityWaitList s1 @
                       [\<lparr> timeout = new_timeout env (n + 1), playerGUID = guid \<rparr>] \<rparr>)
                   else
                     Some (False, s1\<lparr> waitList := waitList s1 @
                       [\<lparr> timeout = new_timeout env (n + length (waitList s1) + 1), playerGUID = guid \<rparr>] \<rparr>)))"

definition getClientSlot :: "u32 \<Rightarrow> wait_list \<Rightarrow> nat" where
  "getClientSlot guid s =
     (case findClient guid s of (WaitEnd, slot) \<Rightarrow> 0 | (_, slot) \<Rightarrow> slot)"

section \<open>Entries of players who do not come back\<close>

definition waiting :: "wait_list \<Rightarrow> wait_entry set" where
  "waiting s = set (priorityWaitList s) \<union> set (waitList s)"

lemma cleanupList_exact: "set (cleanupList time xs) = {w \<in> set xs. timeout w \<noteq> time}"
  by (auto simp: cleanupList_def)

lemma find_guid_nth:
  "find_guid guid ws n = Some k \<Longrightarrow> n \<le> k \<and> k - n < length ws \<and> playerGUID (ws ! (k - n)) = guid"
proof (induction ws arbitrary: n)
  case Nil
  then show ?case by simp
next
  case (Cons w ws)
  show ?case
  proof (cases "playerGUID w = guid")
    case True
    with Cons.prems show ?thesis by simp
  next
    case False
    with Cons have IH: "n + 1 \<le> k" "k - (n + 1) < length ws" "playerGUID (ws ! (k - (n + 1))) = guid"
      by simp_all
    then have "k - n = Suc (k - (n + 1))" by simp
    with IH show ?thesis by simp
  qed
qed

lemma findClient_guid:
  "findClient guid s = (Priority k, slot) \<Longrightarrow>
     k < length (priorityWaitList s) \<and> playerGUID (priorityWaitList s ! k) = guid"
  "findClient guid s = (Regular k, slot) \<Longrightarrow>
     k < length (waitList s) \<and> playerGUID (waitList s ! k) = guid"
  using find_guid_nth [of guid _ 0 k] by (auto simp: findClient_def split: option.splits)

lemma kept_elsewhere:
  assumes "e \<in> set xs" and "k < length xs" and "xs ! k \<noteq> e"
  shows "e \<in> set (set_timeout k t xs)" and "e \<in> set (erase_at k xs)"
proof -
  have "xs = take k xs @ xs ! k # drop (Suc k) xs" using assms(2) by (rule id_take_nth_drop)
  then have e: "e \<in> set (take k xs) \<union> set (drop (Suc k) xs)"
    using assms(1,3) by (metis Un_iff set_append set_ConsD)
  then show "e \<in> set (erase_at k xs)" by (auto simp: erase_at_def)
  from e assms(2) show "e \<in> set (set_timeout k t xs)"
    by (auto simp: set_timeout_def upd_conv_take_nth_drop)
qed

lemma clientLogin_keeps:
  assumes "clientLogin env guid s = Some (b, s')" and e: "e \<in> waiting s"
    and "timeout e \<noteq> OTSYS_TIME env" and "playerGUID e \<noteq> guid"
  shows "e \<in> waiting s'"
proof -
  let ?s1 = "s\<lparr> priorityWaitList := cleanupList (OTSYS_TIME env) (priorityWaitList s),
                waitList := cleanupList (OTSYS_TIME env) (waitList s) \<rparr>"
  have e1: "e \<in> waiting ?s1" using e assms(3) by (auto simp: waiting_def cleanupList_exact)
  have other: "playerGUID w = guid \<Longrightarrow> w \<noteq> e" for w using assms(4) by auto
  show ?thesis
  proof (cases "findClient guid ?s1")
    case (Pair it slot)
    note found = findClient_guid [of guid ?s1 _ slot]
    show ?thesis
    proof (cases it)
      case (Priority k)
      with found(1) [of k] Pair kept_elsewhere [of e "priorityWaitList ?s1" k] other e1 e assms(1) show ?thesis
        by (auto simp: clientLogin_def Let_def waiting_def split: if_splits)
    next
      case (Regular k)
      with found(2) [of k] Pair kept_elsewhere [of e "waitList ?s1" k] other e1 e assms(1) show ?thesis
        by (auto simp: clientLogin_def Let_def waiting_def split: if_splits)
    next
      case WaitEnd
      with Pair e1 e assms(1) show ?thesis
        by (auto simp: clientLogin_def Let_def waiting_def split: if_splits)
    qed
  qed
qed

text \<open>A sequence of attempts to log in, each at its time.\<close>

fun logins :: "(login_env \<times> u32) list \<Rightarrow> wait_list \<Rightarrow> wait_list option" where
  "logins [] s = Some s"
| "logins ((env, guid) # rest) s =
     (case clientLogin env guid s of None \<Rightarrow> None | Some (_, s') \<Rightarrow> logins rest s')"

text \<open>
  C26:
  The place of a player who does not come back is never given up: whatever others try to log in, and
  however long after the time until which the place was kept, the entry stays in the list and counts
  in the slots of all behind it. Only an attempt in the very millisecond of the timeout removes it.
\<close>

theorem expired_entries_stay:
  assumes "logins xs s = Some s'" and "e \<in> waiting s"
    and "\<And>env guid. (env, guid) \<in> set xs \<Longrightarrow> guid \<noteq> playerGUID e \<and> OTSYS_TIME env \<noteq> timeout e"
  shows "e \<in> waiting s'"
  using assms
proof (induction xs s rule: logins.induct)
  case (1 s)
  then show ?case by simp
next
  case (2 env guid rest s)
  then obtain b s1 where s1: "clientLogin env guid s = Some (b, s1)" "logins rest s1 = Some s'"
    by (auto split: option.splits)
  have "guid \<noteq> playerGUID e \<and> OTSYS_TIME env \<noteq> timeout e" by (rule 2(4)) simp
  then have "e \<in> waiting s1" using clientLogin_keeps [OF s1(1) 2(3)] by auto
  with 2(1) [OF s1(1)] s1(2) 2(4) show ?case by auto
qed

definition full_server :: "u64 \<Rightarrow> login_env" where
  "full_server now = \<lparr> OTSYS_TIME = now, maxPlayers = 1, playersOnline = 1, canAlwaysLogin = False,
     accountType = 1, isPremium = False \<rparr>"

theorem expired_entries_stay_witness:
  "\<exists>s'. logins [(full_server 900000, 2), (full_server 1000000, 3)]
      \<lparr> priorityWaitList = [], waitList = [\<lparr> timeout = 20000, playerGUID = 1 \<rparr>] \<rparr> = Some s' \<and>
    \<lparr> timeout = 20000, playerGUID = 1 \<rparr> \<in> waiting s'"
proof -
  let ?e = "\<lparr> timeout = 20000, playerGUID = 1 \<rparr>"
  let ?xs = "[(full_server 900000, 2), (full_server 1000000, 3)]"
  let ?s = "\<lparr> priorityWaitList = [], waitList = [?e] \<rparr>"
  obtain s' where s': "logins ?xs ?s = Some s'"
    by (simp add: clientLogin_def full_server_def cleanupList_def findClient_def Let_def new_timeout_def
        getTimeout_def getTime_def)
  have "?e \<in> waiting s'"
    by (rule expired_entries_stay [OF s']) (auto simp: waiting_def full_server_def)
  with s' show ?thesis by blast
qed

text \<open>
  When it is the turn of a player of the priority list, the place is erased through the other list.
\<close>

lemma premium_turn_undefined:
  assumes "\<not> canAlwaysLogin env" "accountType env < 4" "maxPlayers env \<noteq> 0"
    and "w \<in> set (priorityWaitList s)" "playerGUID w = guid" "timeout w \<noteq> OTSYS_TIME env"
    and "playersOnline env + length (priorityWaitList s) \<le> unat (maxPlayers env)"
  shows "clientLogin env guid s = None"
proof -
  let ?p = "cleanupList (OTSYS_TIME env) (priorityWaitList s)"
  have w: "w \<in> set ?p" using assms(4,6) by (simp add: cleanupList_exact)
  have "find_guid guid xs n \<noteq> None" if "w \<in> set xs" for xs n
    using that assms(5) by (induction xs arbitrary: n) auto
  with w obtain k where k: "find_guid guid ?p 0 = Some k" by blast
  then have "k < length ?p" using find_guid_nth [of guid ?p 0 k] by simp
  moreover have "length ?p \<le> length (priorityWaitList s)" by (simp add: cleanupList_def)
  ultimately have "playersOnline env + Suc k \<le> unat (maxPlayers env)" using assms(7) by simp
  moreover have "priorityWaitList s \<noteq> []" using assms(4) by auto
  ultimately show ?thesis using assms(1-3) k by (simp add: clientLogin_def findClient_def)
qed

end
