(* ===== verification/Trade.thy ===== *)
theory Trade
  imports Position "HOL-Library.AList"
begin

text \<open>
  Trades between players (\<open>playerRequestTrade\<close>, \<open>internalStartTrade\<close>, \<open>playerAcceptTrade\<close>,
  \<open>internalCloseTrade\<close> of \<open>game.cpp\<close>, and where \<open>player.cpp\<close> closes a trade). What a command finds in the
  world, the answers of scripts and the results of moving the items are inputs. A pointer to a player who
  is gone, and a null item that is read, make an operation undefined.
\<close>

section \<open>State\<close>

datatype tradestate = TRADE_NONE | TRADE_INITIATED | TRADE_ACCEPT | TRADE_ACKNOWLEDGE | TRADE_TRANSFER

record trader =
  tradeState :: tradestate
  tradeItem :: "nat option"
  tradePartner :: "nat option"

record trade_state =
  traders :: "nat \<Rightarrow> trader option"
  tradeItems :: "(nat \<times> nat) list"
  letGo :: "nat list"
  holder :: "nat \<Rightarrow> nat"

definition no_trader :: trader where
  "no_trader = \<lparr> tradeState = TRADE_NONE, tradeItem = None, tradePartner = None \<rparr>"

text \<open>What \<open>playerRequestTrade\<close> finds.\<close>

record request_world =
  partnerInRange :: bool
  partnerReachable :: bool
  tradeThing :: "nat option"
  tradable :: bool
  sameFloor :: bool
  itemInRange :: bool
  isHoldingItem :: "nat \<Rightarrow> nat \<Rightarrow> bool"
  itemHoldingCount :: u32
  onTradeRequest :: bool

text \<open>
  What \<open>playerAcceptTrade\<close> finds: the script for the event, if there is one, the tests that the items can
  be added and removed, and the results of the two moves.
\<close>

record accept_world =
  reachable :: bool
  onTradeAccept :: "(nat \<Rightarrow> nat \<Rightarrow> bool) option"
  canAdd1 :: bool
  canAdd2 :: bool
  canRemove1 :: bool
  canRemove2 :: bool
  moved1 :: bool
  moved2 :: bool

section \<open>Operations\<close>

definition upd_trader :: "nat \<Rightarrow> (trader \<Rightarrow> trader) \<Rightarrow> trade_state \<Rightarrow> trade_state" where
  "upd_trader p f s = s\<lparr> traders := (traders s)(p := map_option f (traders s p)) \<rparr>"

definition forget_item :: "nat option \<Rightarrow> trade_state \<Rightarrow> trade_state" where
  "forget_item item s =
     (case item of
        None \<Rightarrow> s
      | Some i \<Rightarrow>
          if map_of (tradeItems s) i = None then s
          else s\<lparr> letGo := letGo s @ [i], tradeItems := AList.delete i (tradeItems s) \<rparr>)"

definition end_trade :: "nat \<Rightarrow> trade_state \<Rightarrow> trade_state" where
  "end_trade p s = upd_trader p (\<lambda>x. no_trader) s"

definition internalStartTrade :: "nat \<Rightarrow> nat \<Rightarrow> nat \<Rightarrow> trade_state \<Rightarrow> (bool \<times> trade_state) option" where
  "internalStartTrade player partner item s =
     Option.bind (traders s player) (\<lambda>x. Option.bind (traders s partner) (\<lambda>y.
       if tradeState x \<noteq> TRADE_NONE \<and> \<not> (tradeState x = TRADE_ACKNOWLEDGE \<and> tradePartner x = Some partner) then Some (False, s)
       else if tradeState y \<noteq> TRADE_NONE \<and> tradePartner y \<noteq> Some player then Some (False, s)
       else
         (let s1 = upd_trader player (\<lambda>x. \<lparr> tradeState = TRADE_INITIATED, tradeItem = Some item, tradePartner = Some partner \<rparr>) s;
              s2 = s1\<lparr> tradeItems := AList.update item player (tradeItems s1) \<rparr>
          in if tradeState y = TRADE_NONE then
               Some (True, upd_trader partner (\<lambda>y. y\<lparr> tradeState := TRADE_ACKNOWLEDGE, tradePartner := Some player \<rparr>) s2)
             else map_option (\<lambda>counterOffer. (True, s2)) (tradeItem y))))"

definition being_traded :: "request_world \<Rightarrow> nat \<Rightarrow> trade_state \<Rightarrow> bool" where
  "being_traded w item s =
     list_ex (\<lambda>(i, owner). item = i \<or> isHoldingItem w item i \<or> isHoldingItem w i item) (tradeItems s)"

definition playerRequestTrade :: "nat \<Rightarrow> nat \<Rightarrow> request_world \<Rightarrow> trade_state \<Rightarrow> trade_state option" where
  "playerRequestTrade player partner w s =
     (if traders s player = None then Some s
      else if traders s partner = None \<or> partner = player then Some s
      else if \<not> partnerInRange w \<or> \<not> partnerReachable w then Some s
      else
        (case tradeThing w of
           None \<Rightarrow> Some s
         | Some item \<Rightarrow>
             if \<not> tradable w \<or> \<not> sameFloor w \<or> \<not> itemInRange w then Some s
             else if being_traded w item s then Some s
             else if itemHoldingCount w + 1 > 100 then Some s
             else if \<not> onTradeRequest w then Some s
             else map_option snd (internalStartTrade player partner item s)))"

definition internalCloseTrade :: "nat \<Rightarrow> trade_state \<Rightarrow> trade_state option" where
  "internalCloseTrade player s =
     Option.bind (traders s player) (\<lambda>x.
       case tradePartner x of
         None \<Rightarrow>
           if tradeState x = TRADE_TRANSFER then Some s
           else Some (end_trade player (forget_item (tradeItem x) s))
       | Some partner \<Rightarrow>
           Option.bind (traders s partner) (\<lambda>y.
             if tradeState y = TRADE_TRANSFER \<or> tradeState x = TRADE_TRANSFER then Some s
             else Some (end_trade partner (forget_item (tradeItem y) (end_trade player (forget_item (tradeItem x) s))))))"

definition playerCloseTrade :: "nat \<Rightarrow> trade_state \<Rightarrow> trade_state option" where
  "playerCloseTrade player s = (if traders s player = None then Some s else internalCloseTrade player s)"

declare playerCloseTrade_def [simp]

text \<open>The environment of a script can be had, and the script reads the types of both items.\<close>

definition eventPlayerOnTradeAccept :: "accept_world \<Rightarrow> nat option \<Rightarrow> nat option \<Rightarrow> bool option" where
  "eventPlayerOnTradeAccept w item1 item2 =
     (case onTradeAccept w of
        None \<Rightarrow> Some True
      | Some script \<Rightarrow> Option.bind item1 (\<lambda>i. Option.bind item2 (\<lambda>j. Some (script i j))))"

text \<open>The exchange; adding a null item fails.\<close>

definition exchange :: "accept_world \<Rightarrow> nat \<Rightarrow> nat \<Rightarrow> nat option \<Rightarrow> nat option \<Rightarrow> trade_state \<Rightarrow> trade_state" where
  "exchange w player partner item1 item2 s =
     (case (item1, item2) of
        (Some i, Some j) \<Rightarrow>
          if canAdd1 w \<and> canAdd2 w then
            (if canRemove1 w \<and> canRemove2 w then
               (if moved1 w then
                  (let s1 = s\<lparr> holder := (holder s)(i := partner) \<rparr>
                   in if moved2 w then s1\<lparr> holder := (holder s1)(j := player) \<rparr> else s1)
                else s)
             else s)
          else s
      | _ \<Rightarrow> s)"

definition playerAcceptTrade :: "nat \<Rightarrow> accept_world \<Rightarrow> trade_state \<Rightarrow> trade_state option" where
  "playerAcceptTrade player w s =
     (case traders s player of
        None \<Rightarrow> Some s
      | Some x \<Rightarrow>
          if tradeState x \<noteq> TRADE_ACKNOWLEDGE \<and> tradeState x \<noteq> TRADE_INITIATED then Some s
          else
            (case tradePartner x of
               None \<Rightarrow> Some s
             | Some partner \<Rightarrow>
                 Option.bind (traders s partner) (\<lambda>y.
                   if \<not> reachable w then Some s
                   else
                     (let s1 = upd_trader player (\<lambda>x. x\<lparr> tradeState := TRADE_ACCEPT \<rparr>) s
                      in if tradeState y \<noteq> TRADE_ACCEPT then Some s1
                         else Option.bind (eventPlayerOnTradeAccept w (tradeItem x) (tradeItem y)) (\<lambda>allowed.
                           if \<not> allowed then internalCloseTrade player s1
                           else
                             (let s2 = upd_trader player (\<lambda>x. x\<lparr> tradeState := TRADE_TRANSFER \<rparr>) s1;
                                  s3 = upd_trader partner (\<lambda>y. y\<lparr> tradeState := TRADE_TRANSFER \<rparr>) s2;
                                  s4 = forget_item (tradeItem y) (forget_item (tradeItem x) s3);
                                  s5 = exchange w player partner (tradeItem x) (tradeItem y) s4
                              in Some (end_trade partner (end_trade player s5))))))))"

text \<open>
  Where a player closes the trade: an item moves or changes that is on offer, lies in the offer or holds
  it (\<open>affects\<close>), the player walks away, the player leaves the game.
\<close>

definition item_touched :: "nat \<Rightarrow> (nat \<Rightarrow> bool) \<Rightarrow> trade_state \<Rightarrow> trade_state option" where
  "item_touched player affects s =
     Option.bind (traders s player) (\<lambda>x.
       if tradeState x = TRADE_TRANSFER then Some s
       else
         (case tradeItem x of
            None \<Rightarrow> Some s
          | Some i \<Rightarrow> if affects i then internalCloseTrade player s else Some s))"

definition player_moved :: "nat \<Rightarrow> bool \<Rightarrow> bool \<Rightarrow> trade_state \<Rightarrow> trade_state option" where
  "player_moved player item_in_range partner_in_range s =
     Option.bind (traders s player) (\<lambda>x.
       if tradeState x = TRADE_TRANSFER then Some s
       else Option.bind (if tradeItem x \<noteq> None \<and> \<not> item_in_range then internalCloseTrade player s else Some s) (\<lambda>s1.
         Option.bind (traders s1 player) (\<lambda>x1.
           if tradePartner x1 \<noteq> None \<and> \<not> partner_in_range then internalCloseTrade player s1 else Some s1)))"

definition player_leaves :: "nat \<Rightarrow> trade_state \<Rightarrow> trade_state option" where
  "player_leaves player s =
     Option.bind (traders s player) (\<lambda>x.
       map_option (\<lambda>s1. s1\<lparr> traders := (traders s1)(player := None) \<rparr>)
         (if tradePartner x \<noteq> None then internalCloseTrade player s else Some s))"

definition player_enters :: "nat \<Rightarrow> trade_state \<Rightarrow> trade_state" where
  "player_enters player s = (if traders s player = None then s\<lparr> traders := (traders s)(player := Some no_trader) \<rparr> else s)"

section \<open>Consistent trades\<close>

text \<open>
  Partners point at each other, at least one of them offers an item, only the one who was asked offers
  none yet, and the items on offer are the entries of \<open>tradeItems\<close>.
\<close>

definition entry_ok :: "trade_state \<Rightarrow> nat \<Rightarrow> trader \<Rightarrow> bool" where
  "entry_ok s p x \<longleftrightarrow> tradeState x \<noteq> TRADE_TRANSFER \<and> (tradeState x = TRADE_NONE \<longleftrightarrow> tradePartner x = None) \<and>
     (tradePartner x = None \<longrightarrow> tradeItem x = None) \<and> (tradeState x = TRADE_ACKNOWLEDGE \<longrightarrow> tradeItem x = None) \<and>
     (tradeState x = TRADE_INITIATED \<longrightarrow> tradeItem x \<noteq> None) \<and>
     (\<forall>q. tradePartner x = Some q \<longrightarrow> q \<noteq> p \<and>
        (\<exists>y. traders s q = Some y \<and> tradePartner y = Some p \<and> (tradeItem x \<noteq> None \<or> tradeItem y \<noteq> None)))"

definition trade_ok :: "trade_state \<Rightarrow> bool" where
  "trade_ok s \<longleftrightarrow> (\<forall>p x. traders s p = Some x \<longrightarrow> entry_ok s p x) \<and>
     (\<forall>i p. map_of (tradeItems s) i = Some p \<longleftrightarrow> (\<exists>x. traders s p = Some x \<and> tradeItem x = Some i))"

lemma entry_ok_cong:
  "entry_ok s r z \<Longrightarrow> (\<And>q. tradePartner z = Some q \<Longrightarrow> traders s' q = traders s q) \<Longrightarrow> entry_ok s' r z"
  by (simp add: entry_ok_def)

lemma trade_entry: "trade_ok s \<Longrightarrow> traders s p = Some x \<Longrightarrow> entry_ok s p x"
  by (simp add: trade_ok_def)

lemma trade_okD:
  assumes "trade_ok s" and "traders s p = Some x"
  shows "tradeState x \<noteq> TRADE_TRANSFER" "tradeState x = TRADE_NONE \<longleftrightarrow> tradePartner x = None"
    "tradePartner x = None \<Longrightarrow> x = no_trader" "tradeState x = TRADE_ACKNOWLEDGE \<Longrightarrow> tradeItem x = None"
    "tradeState x = TRADE_INITIATED \<Longrightarrow> tradeItem x \<noteq> None" "tradeItem x = Some i \<Longrightarrow> map_of (tradeItems s) i = Some p"
  using assms by (auto simp: trade_ok_def entry_ok_def no_trader_def)

lemma trade_partner:
  assumes "trade_ok s" and "traders s p = Some x" and "tradePartner x = Some q"
  obtains y where "traders s q = Some y" "tradePartner y = Some p" "tradeItem x \<noteq> None \<or> tradeItem y \<noteq> None" "q \<noteq> p"
  using assms unfolding trade_ok_def entry_ok_def by blast

lemma offered_once: "trade_ok s \<Longrightarrow> traders s p = Some x \<Longrightarrow> traders s q = Some y \<Longrightarrow> tradeItem x = Some i \<Longrightarrow>
    tradeItem y = Some i \<Longrightarrow> p = q"
  using trade_okD(6) by (metis option.inject)

lemma upd_trader_simps [simp]:
  "traders (upd_trader p f s) = (traders s)(p := map_option f (traders s p))" "tradeItems (upd_trader p f s) = tradeItems s"
  "holder (upd_trader p f s) = holder s" "letGo (upd_trader p f s) = letGo s"
  by (simp_all add: upd_trader_def)

lemma forget_item_simps [simp]:
  "traders (forget_item it s) = traders s" "holder (forget_item it s) = holder s"
  "map_of (tradeItems (forget_item it s)) = (\<lambda>i. if it = Some i then None else map_of (tradeItems s) i)"
  by (auto simp: forget_item_def delete_conv' split: option.splits)

lemma end_trade_simps [simp]:
  "traders (end_trade p s) = (traders s)(p := map_option (\<lambda>x. no_trader) (traders s p))"
  "tradeItems (end_trade p s) = tradeItems s" "holder (end_trade p s) = holder s"
  by (simp_all add: end_trade_def)

lemma no_trader_simps [simp]: "tradeState no_trader = TRADE_NONE" "tradeItem no_trader = None" "tradePartner no_trader = None"
  by (simp_all add: no_trader_def)

lemma ended_ok:
  assumes ok: "trade_ok s" and x: "traders s p = Some x" "tradePartner x = Some q" and y: "traders s q = Some y"
    and s': "traders s' = (traders s)(p := Some no_trader, q := Some no_trader)"
      "map_of (tradeItems s') = (\<lambda>i. if tradeItem x = Some i \<or> tradeItem y = Some i then None else map_of (tradeItems s) i)"
  shows "trade_ok s'"
proof -
  have yp: "tradePartner y = Some p" using trade_partner [OF ok x] y by (metis option.inject)
  have "entry_ok s' r z" if z: "traders s' r = Some z" for r z
  proof (cases "r = p \<or> r = q")
    case True
    then have "z = no_trader" using z by (auto simp: s'(1) split: if_splits)
    then show ?thesis by (simp add: entry_ok_def)
  next
    case False
    then have old: "traders s r = Some z" using z by (simp add: s'(1))
    have "u \<noteq> p \<and> u \<noteq> q" if "tradePartner z = Some u" for u
      using trade_partner [OF ok old that] x y yp False by (metis option.inject)
    then show ?thesis by (intro entry_ok_cong [OF trade_entry [OF ok old]]) (simp add: s'(1))
  qed
  moreover have "map_of (tradeItems s') i = Some r \<longleftrightarrow> (\<exists>z. traders s' r = Some z \<and> tradeItem z = Some i)" for i r
  proof (cases "r = p \<or> r = q")
    case True
    have "map_of (tradeItems s) i = Some r \<Longrightarrow> tradeItem x = Some i \<or> tradeItem y = Some i"
      using ok True x(1) y by (auto simp: trade_ok_def)
    then show ?thesis using True by (auto simp: s')
  next
    case False
    have "map_of (tradeItems s) i = Some r \<longleftrightarrow> (\<exists>z. traders s r = Some z \<and> tradeItem z = Some i)"
      using ok by (simp add: trade_ok_def)
    then show ?thesis using False trade_okD(6) [OF ok x(1)] trade_okD(6) [OF ok y] by (auto simp: s')
  qed
  ultimately show ?thesis by (simp add: trade_ok_def)
qed

lemma close_ok:
  assumes ok: "trade_ok s" and x: "traders s p = Some x"
  shows "\<exists>s'. internalCloseTrade p s = Some s' \<and> trade_ok s' \<and> traders s' p = Some no_trader \<and> holder s' = holder s \<and>
    (\<forall>r. traders s' r = None \<longleftrightarrow> traders s r = None) \<and>
    (\<forall>q. tradePartner x = Some q \<longrightarrow> traders s' q = Some no_trader)"
proof (cases "tradePartner x")
  case None
  then have "x = no_trader" using trade_okD(3) [OF ok x] by simp
  moreover from this x have "(traders s)(p := Some no_trader) = traders s" by auto
  ultimately show ?thesis
    using ok x by (auto simp: internalCloseTrade_def forget_item_def trade_ok_def entry_ok_def)
next
  case (Some q)
  obtain y where y: "traders s q = Some y" "tradePartner y = Some p" "q \<noteq> p" by (rule trade_partner [OF ok x Some])
  let ?s = "end_trade q (forget_item (tradeItem y) (end_trade p (forget_item (tradeItem x) s)))"
  have "internalCloseTrade p s = Some ?s"
    using trade_okD(1) [OF ok x] trade_okD(1) [OF ok y(1)] by (simp add: internalCloseTrade_def x y Some)
  moreover have "trade_ok ?s" by (rule ended_ok [OF ok x Some y(1)]) (use x y in \<open>auto simp: fun_upd_def\<close>)
  ultimately show ?thesis using x y Some by auto
qed

lemma accepting_ok:
  assumes ok: "trade_ok s" and x: "traders s p = Some x" "tradePartner x \<noteq> None"
  shows "trade_ok (upd_trader p (\<lambda>x. x\<lparr> tradeState := TRADE_ACCEPT \<rparr>) s)"
proof -
  let ?s = "upd_trader p (\<lambda>x. x\<lparr> tradeState := TRADE_ACCEPT \<rparr>) s"
  have same: "\<exists>z'. traders ?s r = Some z' \<and> tradePartner z' = tradePartner z \<and> tradeItem z' = tradeItem z"
    if "traders s r = Some z" for r z using that x(1) by auto
  have "entry_ok ?s r z" if z: "traders ?s r = Some z" for r z
  proof -
    obtain z0 where z0: "traders s r = Some z0" "tradePartner z = tradePartner z0" "tradeItem z = tradeItem z0"
      "tradeState z = (if r = p then TRADE_ACCEPT else tradeState z0)" using z x(1) by (auto split: if_splits)
    have "entry_ok s r z0" using ok z0(1) by (simp add: trade_ok_def)
    moreover have "\<exists>y. traders ?s q = Some y \<and> tradePartner y = Some r \<and> (tradeItem z \<noteq> None \<or> tradeItem y \<noteq> None)"
      if "tradePartner z0 = Some q" for q
      using trade_partner [OF ok z0(1) that] same z0(3) by metis
    ultimately show ?thesis using z0 x by (auto simp: entry_ok_def)
  qed
  moreover have "map_of (tradeItems ?s) i = Some r \<longleftrightarrow> (\<exists>z. traders ?s r = Some z \<and> tradeItem z = Some i)" for i r
    using ok x(1) by (auto simp: trade_ok_def)
  ultimately show ?thesis by (simp add: trade_ok_def)
qed

text \<open>Any change of one pair in which the entries point at each other again.\<close>

lemma pair_ok:
  assumes ok: "trade_ok s" and x: "traders s p = Some x" "tradePartner x = None \<or> tradePartner x = Some q" "tradeItem x = None"
    and y: "traders s q = Some y" "tradePartner y = None \<or> tradePartner y = Some p" and "p \<noteq> q"
    and s': "traders s' = (traders s)(p := Some x', q := Some y')" "map_of (tradeItems s') = (map_of (tradeItems s))(i := Some p)"
    and new: "map_of (tradeItems s) i = None"
    and x': "tradeState x' = TRADE_INITIATED" "tradeItem x' = Some i" "tradePartner x' = Some q"
    and y': "tradeState y' \<noteq> TRADE_NONE" "tradeState y' \<noteq> TRADE_TRANSFER" "tradeItem y' = tradeItem y" "tradePartner y' = Some p"
      "tradeState y' = TRADE_ACKNOWLEDGE \<Longrightarrow> tradeItem y = None" "tradeState y' = TRADE_INITIATED \<Longrightarrow> tradeItem y \<noteq> None"
  shows "trade_ok s'"
proof -
  have "entry_ok s' r z" if z: "traders s' r = Some z" for r z
  proof -
    consider (p) "r = p" | (q) "r = q" "r \<noteq> p" | (other) "r \<noteq> p" "r \<noteq> q" by blast
    then show ?thesis
    proof cases
      case p
      then show ?thesis using z \<open>p \<noteq> q\<close> x' y' by (auto simp: entry_ok_def s'(1))
    next
      case q
      then show ?thesis using z \<open>p \<noteq> q\<close> x' y' by (auto simp: entry_ok_def s'(1))
    next
      case other
      then have old: "traders s r = Some z" using z by (simp add: s'(1))
      have "u \<noteq> p \<and> u \<noteq> q" if "tradePartner z = Some u" for u
        using trade_partner [OF ok old that] x(1,2) y(1,2) other by (metis option.distinct(1) option.inject)
      then show ?thesis by (intro entry_ok_cong [OF trade_entry [OF ok old]]) (simp add: s'(1))
    qed
  qed
  moreover have "map_of (tradeItems s') j = Some r \<longleftrightarrow> (\<exists>z. traders s' r = Some z \<and> tradeItem z = Some j)" for j r
  proof -
    have old: "map_of (tradeItems s) j = Some r \<longleftrightarrow> (\<exists>z. traders s r = Some z \<and> tradeItem z = Some j)" for j r
      using ok by (simp add: trade_ok_def)
    show ?thesis
    proof (cases "r = p")
      case True
      then have "map_of (tradeItems s) j \<noteq> Some p" using old [of j p] x(1,3) by auto
      then show ?thesis using True \<open>p \<noteq> q\<close> x'(2) by (auto simp: s')
    next
      case False
      then show ?thesis using old [of j r] old [of i r] new y(1) y'(3) by (auto simp: s')
    qed
  qed
  ultimately show ?thesis by (simp add: trade_ok_def)
qed

lemma start_ok:
  assumes ok: "trade_ok s" and x: "traders s p = Some x" and y: "traders s q = Some y" and pq: "p \<noteq> q"
    and new: "map_of (tradeItems s) i = None"
  shows "\<exists>b s'. internalStartTrade p q i s = Some (b, s') \<and> trade_ok s' \<and> holder s' = holder s"
proof -
  let ?x = "\<lparr> tradeState = TRADE_INITIATED, tradeItem = Some i, tradePartner = Some q \<rparr>"
  note fx = trade_okD [OF ok x] and fy = trade_okD [OF ok y]
  consider (refused) "tradeState x \<noteq> TRADE_NONE \<and> \<not> (tradeState x = TRADE_ACKNOWLEDGE \<and> tradePartner x = Some q) \<or>
      tradeState y \<noteq> TRADE_NONE \<and> tradePartner y \<noteq> Some p"
    | (first) "tradeState y = TRADE_NONE" "tradeState x = TRADE_NONE \<or> tradeState x = TRADE_ACKNOWLEDGE \<and> tradePartner x = Some q"
    | (counter) "tradeState y \<noteq> TRADE_NONE" "tradePartner y = Some p"
      "tradeState x = TRADE_NONE \<or> tradeState x = TRADE_ACKNOWLEDGE \<and> tradePartner x = Some q" by blast
  then show ?thesis
  proof cases
    case refused
    then have "internalStartTrade p q i s = Some (False, s)" by (auto simp: internalStartTrade_def x y)
    with ok show ?thesis by blast
  next
    case first
    have none: "tradePartner y = None" using first(1) fy(2) by simp
    have "tradePartner x \<noteq> Some q" using trade_partner [OF ok x, of q] y none by (metis option.distinct(1) option.inject)
    then have "tradeState x = TRADE_NONE" using first(2) by simp
    then have x0: "x = no_trader" using fx(2,3) by simp
    let ?s = "(upd_trader p (\<lambda>x. ?x) s)\<lparr> tradeItems := AList.update i p (tradeItems s) \<rparr>"
    let ?s' = "upd_trader q (\<lambda>y. y\<lparr> tradeState := TRADE_ACKNOWLEDGE, tradePartner := Some p \<rparr>) ?s"
    have "internalStartTrade p q i s = Some (True, ?s')"
      using first by (simp add: internalStartTrade_def x y x0 Let_def)
    moreover have "trade_ok ?s'"
      by (rule pair_ok [OF ok x _ _ y _ pq, where i = i and x' = ?x and
            y' = "y\<lparr> tradeState := TRADE_ACKNOWLEDGE, tradePartner := Some p \<rparr>"])
        (use x0 none new pq x y fy(3) in \<open>simp_all add: update_conv'\<close>)
    ultimately show ?thesis by auto
  next
    case counter
    obtain x1 where "traders s p = Some x1" "tradePartner x1 = Some q" "tradeItem y \<noteq> None \<or> tradeItem x1 \<noteq> None"
      by (rule trade_partner [OF ok y counter(2)])
    then have xq: "tradePartner x = Some q" "tradeItem y \<noteq> None \<or> tradeItem x \<noteq> None" using x by simp_all
    then have ack: "tradeState x = TRADE_ACKNOWLEDGE" using counter(3) fx(2) by auto
    then have "tradeItem x = None" using fx(4) by simp
    then obtain j where j: "tradeItem y = Some j" using xq(2) by auto
    let ?s = "(upd_trader p (\<lambda>x. ?x) s)\<lparr> tradeItems := AList.update i p (tradeItems s) \<rparr>"
    have "internalStartTrade p q i s = Some (True, ?s)"
      using counter(1,2) ack xq(1) j by (simp add: internalStartTrade_def x y Let_def)
    moreover have "trade_ok ?s"
      by (rule pair_ok [OF ok x _ _ y _ pq, where i = i and x' = ?x and y' = y])
        (use xq \<open>tradeItem x = None\<close> new pq x y counter(1,2) fy(1,4,5) in \<open>auto simp: update_conv'\<close>)
    ultimately show ?thesis by auto
  qed
qed

section \<open>Everything that happens to trades\<close>

datatype trade_event = RequestTrade nat nat request_world | AcceptTrade nat accept_world | CloseTrade nat
  | ItemTouched nat "nat \<Rightarrow> bool" | PlayerMoved nat bool bool | PlayerLeaves nat | PlayerEnters nat

text \<open>The events of players who are not there do not happen.\<close>

definition trade_step :: "trade_event \<Rightarrow> trade_state \<Rightarrow> trade_state option" where
  "trade_step e s =
     (case e of
        RequestTrade p q w \<Rightarrow> playerRequestTrade p q w s
      | AcceptTrade p w \<Rightarrow> playerAcceptTrade p w s
      | CloseTrade p \<Rightarrow> playerCloseTrade p s
      | ItemTouched p affects \<Rightarrow> if traders s p = None then Some s else item_touched p affects s
      | PlayerMoved p i q \<Rightarrow> if traders s p = None then Some s else player_moved p i q s
      | PlayerLeaves p \<Rightarrow> if traders s p = None then Some s else player_leaves p s
      | PlayerEnters p \<Rightarrow> Some (player_enters p s))"

fun trade_steps :: "trade_event list \<Rightarrow> trade_state \<Rightarrow> trade_state option" where
  "trade_steps [] s = Some s"
| "trade_steps (e # es) s = Option.bind (trade_step e s) (trade_steps es)"

definition no_trades :: "(nat \<Rightarrow> nat) \<Rightarrow> trade_state" where
  "no_trades h = \<lparr> traders = Map.empty, tradeItems = [], letGo = [], holder = h \<rparr>"

text \<open>No script reads the items, or both are there.\<close>

definition script_safe :: "trade_event \<Rightarrow> trade_state \<Rightarrow> bool" where
  "script_safe e s \<longleftrightarrow> (case e of
      AcceptTrade p w \<Rightarrow> onTradeAccept w = None \<or>
        (case traders s p of None \<Rightarrow> True
         | Some x \<Rightarrow> tradeItem x \<noteq> None \<and>
             (case tradePartner x of None \<Rightarrow> True | Some q \<Rightarrow> (case traders s q of None \<Rightarrow> True | Some y \<Rightarrow> tradeItem y \<noteq> None)))
    | _ \<Rightarrow> True)"

lemma leaving_ok:
  assumes "trade_ok s" and "traders s p = Some no_trader"
  shows "trade_ok (s\<lparr> traders := (traders s)(p := None) \<rparr>)"
proof -
  have "entry_ok (s\<lparr> traders := (traders s)(p := None) \<rparr>) r z" if r: "r \<noteq> p" "traders s r = Some z" for r z
  proof -
    have "q \<noteq> p" if "tradePartner z = Some q" for q
      using trade_partner [OF assms(1) r(2) that] assms(2) by (metis no_trader_simps(3) option.distinct(1) option.inject)
    then show ?thesis by (intro entry_ok_cong [OF trade_entry [OF assms(1) r(2)]]) simp
  qed
  moreover have "map_of (tradeItems s) i = Some r \<longleftrightarrow> (\<exists>z. ((traders s)(p := None)) r = Some z \<and> tradeItem z = Some i)" for i r
    using assms by (auto simp: trade_ok_def)
  ultimately show ?thesis by (auto simp: trade_ok_def)
qed

lemma entering_ok: "trade_ok s \<Longrightarrow> trade_ok (player_enters p s)"
proof -
  assume ok: "trade_ok s"
  have "trade_ok (s\<lparr> traders := (traders s)(p := Some no_trader) \<rparr>)" if "traders s p = None"
  proof -
    have "entry_ok (s\<lparr> traders := (traders s)(p := Some no_trader) \<rparr>) r z" if r: "r \<noteq> p" "traders s r = Some z" for r z
    proof -
      have "q \<noteq> p" if q: "tradePartner z = Some q" for q
      proof -
        obtain y where "traders s q = Some y" by (rule trade_partner [OF ok r(2) q])
        with \<open>traders s p = None\<close> show ?thesis by auto
      qed
      then show ?thesis by (intro entry_ok_cong [OF trade_entry [OF ok r(2)]]) simp
    qed
    moreover have "entry_ok t p no_trader" for t by (simp add: entry_ok_def)
    moreover have "map_of (tradeItems s) i = Some r \<longleftrightarrow> (\<exists>z. ((traders s)(p := Some no_trader)) r = Some z \<and> tradeItem z = Some i)" for i r
      using ok that by (auto simp: trade_ok_def)
    ultimately show ?thesis by (auto simp: trade_ok_def)
  qed
  with ok show ?thesis by (simp add: player_enters_def)
qed

lemma request_ok:
  assumes ok: "trade_ok s"
  shows "\<exists>s'. playerRequestTrade p q w s = Some s' \<and> trade_ok s' \<and> holder s' = holder s"
proof -
  have "\<exists>s'. map_option snd (internalStartTrade p q i s) = Some s' \<and> trade_ok s' \<and> holder s' = holder s"
    if "traders s p \<noteq> None" "traders s q \<noteq> None" "q \<noteq> p" "\<not> being_traded w i s" for i
  proof -
    obtain x y where "traders s p = Some x" "traders s q = Some y" using \<open>traders s p \<noteq> None\<close> \<open>traders s q \<noteq> None\<close> by auto
    moreover have "map_of (tradeItems s) i = None"
      using \<open>\<not> being_traded w i s\<close> by (auto simp: being_traded_def list_ex_iff map_of_eq_None_iff)
    ultimately obtain b s' where "internalStartTrade p q i s = Some (b, s')" "trade_ok s'" "holder s' = holder s"
      using start_ok [OF ok, of p x q y i] \<open>q \<noteq> p\<close> by auto
    then show ?thesis by simp
  qed
  then show ?thesis using ok unfolding playerRequestTrade_def by (simp split: option.split)
qed

text \<open>An accepted trade: nothing yet, a refusal by a script, or the exchange.\<close>

lemma accept_ok:
  assumes ok: "trade_ok s" and x: "traders s p = Some x" and q: "tradePartner x = Some q" and y: "traders s q = Some y"
    and ready: "tradeState x = TRADE_ACKNOWLEDGE \<or> tradeState x = TRADE_INITIATED" and reach: "reachable w"
    and event: "eventPlayerOnTradeAccept w (tradeItem x) (tradeItem y) \<noteq> None"
  shows "\<exists>s'. playerAcceptTrade p w s = Some s' \<and> trade_ok s' \<and>
    (holder s' = holder s \<or> tradeState y = TRADE_ACCEPT \<and> traders s' p = Some no_trader \<and> traders s' q = Some no_trader \<and>
       (\<exists>i j. tradeItem x = Some i \<and> tradeItem y = Some j \<and> moved1 w \<and>
         holder s' = (if moved2 w then (holder s)(i := q, j := p) else (holder s)(i := q))))"
proof -
  let ?s1 = "upd_trader p (\<lambda>x. x\<lparr> tradeState := TRADE_ACCEPT \<rparr>) s"
  have pq: "q \<noteq> p" by (rule trade_partner [OF ok x q])
  have ok1: "trade_ok ?s1" using q by (intro accepting_ok [OF ok x]) simp
  obtain allowed where allowed: "eventPlayerOnTradeAccept w (tradeItem x) (tradeItem y) = Some allowed" using event by blast
  let ?s3 = "upd_trader q (\<lambda>y. y\<lparr> tradeState := TRADE_TRANSFER \<rparr>) (upd_trader p (\<lambda>x. x\<lparr> tradeState := TRADE_TRANSFER \<rparr>) ?s1)"
  let ?s4 = "forget_item (tradeItem y) (forget_item (tradeItem x) ?s3)"
  let ?s5 = "exchange w p q (tradeItem x) (tradeItem y) ?s4"
  let ?s6 = "end_trade q (end_trade p ?s5)"
  have r: "playerAcceptTrade p w s = (if tradeState y \<noteq> TRADE_ACCEPT then Some ?s1
      else if \<not> allowed then internalCloseTrade p ?s1 else Some ?s6)"
    using x q y ready reach allowed by (auto simp: playerAcceptTrade_def Let_def)
  have ex: "traders ?s5 = traders ?s4" "tradeItems ?s5 = tradeItems ?s4"
    by (auto simp: exchange_def Let_def split: option.split)
  have h: "holder ?s5 = holder s \<or> (\<exists>i j. tradeItem x = Some i \<and> tradeItem y = Some j \<and> moved1 w \<and>
      holder ?s5 = (if moved2 w then (holder s)(i := q, j := p) else (holder s)(i := q)))"
    by (auto simp: exchange_def Let_def split: option.split)
  show ?thesis
  proof (cases "tradeState y = TRADE_ACCEPT")
    case False
    then show ?thesis using r ok1 by simp
  next
    case True
    show ?thesis
    proof (cases allowed)
      case False
      have "traders ?s1 p = Some (x\<lparr> tradeState := TRADE_ACCEPT \<rparr>)" using x by simp
      from close_ok [OF ok1 this] True False r show ?thesis by auto
    next
      case allowed: True
      have "trade_ok ?s6"
        by (rule ended_ok [OF ok x q y]) (use x y pq in \<open>auto simp: ex fun_upd_def\<close>)
      moreover have "traders ?s6 p = Some no_trader" "traders ?s6 q = Some no_trader" using x y pq by (simp_all add: ex)
      moreover have "holder ?s6 = holder ?s5" by simp
      ultimately show ?thesis using True allowed r h by auto
    qed
  qed
qed

text \<open>The other events.\<close>

lemma accept_defined:
  assumes ok: "trade_ok s" and safe: "script_safe (AcceptTrade p w) s"
  shows "playerAcceptTrade p w s \<noteq> None"
proof (cases "traders s p")
  case None
  then show ?thesis by (simp add: playerAcceptTrade_def)
next
  case (Some x)
  show ?thesis
  proof (cases "tradePartner x")
    case None
    with Some show ?thesis by (simp add: playerAcceptTrade_def)
  next
    case (Some q)
    obtain y where y: "traders s q = Some y" by (rule trade_partner [OF ok \<open>traders s p = Some x\<close> Some])
    have "eventPlayerOnTradeAccept w (tradeItem x) (tradeItem y) \<noteq> None"
      using safe \<open>traders s p = Some x\<close> Some y
      by (auto simp: script_safe_def eventPlayerOnTradeAccept_def split: option.splits)
    from accept_ok [OF ok \<open>traders s p = Some x\<close> Some y _ _ this]
    show ?thesis using \<open>traders s p = Some x\<close> Some y
      by (cases "tradeState x = TRADE_ACKNOWLEDGE \<or> tradeState x = TRADE_INITIATED"; cases "reachable w")
        (auto simp: playerAcceptTrade_def)
  qed
qed

lemma accept_kept:
  assumes ok: "trade_ok s" and r: "playerAcceptTrade p w s = Some s'"
  shows "trade_ok s' \<and> (holder s' = holder s \<or> (\<exists>x q y i j. traders s p = Some x \<and> tradePartner x = Some q \<and> traders s q = Some y \<and>
      tradePartner y = Some p \<and> tradeState y = TRADE_ACCEPT \<and> traders s' p = Some no_trader \<and> traders s' q = Some no_trader \<and>
      tradeItem x = Some i \<and> tradeItem y = Some j \<and> i \<noteq> j \<and> moved1 w \<and>
      holder s' = (if moved2 w then (holder s)(i := q, j := p) else (holder s)(i := q))))"
proof (cases "\<exists>x q. traders s p = Some x \<and> tradePartner x = Some q \<and> reachable w \<and>
    (tradeState x = TRADE_ACKNOWLEDGE \<or> tradeState x = TRADE_INITIATED)")
  case False
  have "s' = s"
  proof (cases "traders s p")
    case None
    then show ?thesis using r by (simp add: playerAcceptTrade_def)
  next
    case (Some x)
    then show ?thesis using r False
      by (cases "tradePartner x") (auto simp: playerAcceptTrade_def split: if_splits bind_splits)
  qed
  then show ?thesis using ok by simp
next
  case True
  then obtain x q where x: "traders s p = Some x" "tradePartner x = Some q" "reachable w"
    "tradeState x = TRADE_ACKNOWLEDGE \<or> tradeState x = TRADE_INITIATED" by blast
  obtain y where y: "traders s q = Some y" "tradePartner y = Some p" "q \<noteq> p" by (rule trade_partner [OF ok x(1,2)])
  show ?thesis
  proof (cases "eventPlayerOnTradeAccept w (tradeItem x) (tradeItem y) = None")
    case True
    then have "tradeState y \<noteq> TRADE_ACCEPT" using r x y(1) by (auto simp: playerAcceptTrade_def)
    then have "s' = upd_trader p (\<lambda>x. x\<lparr> tradeState := TRADE_ACCEPT \<rparr>) s" using r x y(1) by (auto simp: playerAcceptTrade_def)
    then show ?thesis using accepting_ok [OF ok x(1)] x(2) by simp
  next
    case False
    from accept_ok [OF ok x(1,2) y(1) x(4,3) False] r
    consider "trade_ok s'" "holder s' = holder s" | i j where "trade_ok s'" "tradeState y = TRADE_ACCEPT" "traders s' p = Some no_trader"
      "traders s' q = Some no_trader" "tradeItem x = Some i" "tradeItem y = Some j" "moved1 w"
      "holder s' = (if moved2 w then (holder s)(i := q, j := p) else (holder s)(i := q))" by auto
    then show ?thesis
    proof cases
      case 1
      then show ?thesis by simp
    next
      case (2 i j)
      have "i \<noteq> j" using offered_once [OF ok x(1) y(1), of i] 2 y(3) by auto
      with 2 x y show ?thesis by blast
    qed
  qed
qed

lemma touched_ok:
  assumes ok: "trade_ok s" and "traders s p \<noteq> None"
  shows "\<exists>s'. item_touched p affects s = Some s' \<and> trade_ok s' \<and> holder s' = holder s"
    and "\<exists>s'. player_moved p a b s = Some s' \<and> trade_ok s' \<and> holder s' = holder s"
    and "\<exists>s'. player_leaves p s = Some s' \<and> trade_ok s' \<and> holder s' = holder s"
proof -
  obtain x where x: "traders s p = Some x" using assms(2) by blast
  obtain s1 where s1: "internalCloseTrade p s = Some s1" "trade_ok s1" "traders s1 p = Some no_trader" "holder s1 = holder s"
    using close_ok [OF ok x] by blast
  show "\<exists>s'. item_touched p affects s = Some s' \<and> trade_ok s' \<and> holder s' = holder s"
    using ok s1 by (auto simp: item_touched_def x split: option.split)
  show "\<exists>s'. player_moved p a b s = Some s' \<and> trade_ok s' \<and> holder s' = holder s"
    using ok s1 by (auto simp: player_moved_def x)
  show "\<exists>s'. player_leaves p s = Some s' \<and> trade_ok s' \<and> holder s' = holder s"
  proof (cases "tradePartner x")
    case None
    then have "traders s p = Some no_trader" using trade_okD(3) [OF ok x] x by simp
    with leaving_ok [OF ok] x None show ?thesis by (simp add: player_leaves_def)
  next
    case (Some q)
    then show ?thesis using leaving_ok [OF s1(2,3)] s1 x by (simp add: player_leaves_def)
  qed
qed

lemma step_ok:
  assumes ok: "trade_ok s" and r: "trade_step e s = Some s'"
  shows "trade_ok s'"
proof (cases e)
  case (RequestTrade p q w)
  then show ?thesis using r request_ok [OF ok, of p q w] by (auto simp: trade_step_def)
next
  case (AcceptTrade p w)
  then show ?thesis using r accept_kept [OF ok, of p w s'] by (simp add: trade_step_def)
next
  case (CloseTrade p)
  show ?thesis
  proof (cases "traders s p")
    case None
    then show ?thesis using r ok CloseTrade by (simp add: trade_step_def)
  next
    case (Some x)
    then show ?thesis using r close_ok [OF ok Some] CloseTrade by (auto simp: trade_step_def)
  qed
next
  case (ItemTouched p f)
  then show ?thesis using r ok touched_ok(1) [OF ok, of p f] by (auto simp: trade_step_def split: if_splits)
next
  case (PlayerMoved p a b)
  then show ?thesis using r ok touched_ok(2) [OF ok, of p a b] by (auto simp: trade_step_def split: if_splits)
next
  case (PlayerLeaves p)
  then show ?thesis using r ok touched_ok(3) [OF ok, of p] by (auto simp: trade_step_def split: if_splits)
next
  case (PlayerEnters p)
  then show ?thesis using r entering_ok [OF ok, of p] by (auto simp: trade_step_def)
qed

lemma step_defined:
  assumes ok: "trade_ok s" and safe: "script_safe e s"
  shows "trade_step e s \<noteq> None"
proof (cases e)
  case (RequestTrade p q w)
  then show ?thesis using request_ok [OF ok, of p q w] by (auto simp: trade_step_def)
next
  case (AcceptTrade p w)
  then show ?thesis using accept_defined [OF ok, of p w] safe by (simp add: trade_step_def)
next
  case (CloseTrade p)
  then show ?thesis using close_ok [OF ok, of p] by (cases "traders s p") (auto simp: trade_step_def)
next
  case (ItemTouched p f)
  then show ?thesis using touched_ok(1) [OF ok, of p f] by (auto simp: trade_step_def)
next
  case (PlayerMoved p a b)
  then show ?thesis using touched_ok(2) [OF ok, of p a b] by (auto simp: trade_step_def)
next
  case (PlayerLeaves p)
  then show ?thesis using touched_ok(3) [OF ok, of p] by (auto simp: trade_step_def)
next
  case (PlayerEnters p)
  then show ?thesis by (simp add: trade_step_def)
qed

lemma steps_ok: "trade_ok s \<Longrightarrow> trade_steps es s = Some s' \<Longrightarrow> trade_ok s'"
  by (induction es arbitrary: s) (auto simp: bind_eq_Some_conv intro: step_ok)

lemma no_trades_ok: "trade_ok (no_trades h)"
  by (simp add: trade_ok_def no_trades_def)

section \<open>Trades are safe\<close>

text \<open>Two players; the first has item 10, the second item 20.\<close>

definition all_well :: "nat \<Rightarrow> request_world" where
  "all_well i = \<lparr> partnerInRange = True, partnerReachable = True, tradeThing = Some i, tradable = True, sameFloor = True,
     itemInRange = True, isHoldingItem = (\<lambda>a b. False), itemHoldingCount = 0, onTradeRequest = True \<rparr>"

definition all_agreed :: "(nat \<Rightarrow> nat \<Rightarrow> bool) option \<Rightarrow> accept_world" where
  "all_agreed script = \<lparr> reachable = True, onTradeAccept = script, canAdd1 = True, canAdd2 = True, canRemove1 = True,
     canRemove2 = True, moved1 = True, moved2 = True \<rparr>"

definition two_players :: trade_state where
  "two_players = no_trades (\<lambda>i. if i = 10 then 5 else 6)"

text \<open>
  C39:
  After any events, partners point at each other and are both in the game, at least one of the two offers
  an item and no item is offered twice; and no further event reads a null item or a player who is gone,
  unless a script for accepted trades reads the item of a player who offers none.
\<close>

theorem trades_consistent:
  assumes "trade_steps es (no_trades h) = Some s"
  shows "(\<forall>p x. traders s p = Some x \<longrightarrow> tradeState x \<noteq> TRADE_TRANSFER \<and>
      (\<forall>q. tradePartner x = Some q \<longrightarrow> q \<noteq> p \<and>
        (\<exists>y. traders s q = Some y \<and> tradePartner y = Some p \<and> (tradeItem x \<noteq> None \<or> tradeItem y \<noteq> None)))) \<and>
    (\<forall>p q x y i. traders s p = Some x \<and> traders s q = Some y \<and> tradeItem x = Some i \<and> tradeItem y = Some i \<longrightarrow> p = q) \<and>
    (\<forall>e. script_safe e s \<longrightarrow> trade_step e s \<noteq> None)"
proof -
  have ok: "trade_ok s" using steps_ok [OF no_trades_ok assms] .
  then show ?thesis using step_defined [OF ok] offered_once [OF ok] unfolding trade_ok_def entry_ok_def by blast
qed

lemma two_players_steps:
  "\<exists>s. trade_steps [PlayerEnters 5, PlayerEnters 6, RequestTrade 5 6 (all_well 10), RequestTrade 6 5 (all_well 20),
      AcceptTrade 5 (all_agreed None)] two_players = Some s \<and>
    traders s 5 = Some \<lparr> tradeState = TRADE_ACCEPT, tradeItem = Some 10, tradePartner = Some 6 \<rparr> \<and>
    traders s 6 = Some \<lparr> tradeState = TRADE_INITIATED, tradeItem = Some 20, tradePartner = Some 5 \<rparr> \<and> holder s 10 = 5 \<and> holder s 20 = 6"
  by (simp add: two_players_def no_trades_def trade_step_def player_enters_def playerRequestTrade_def all_well_def
      being_traded_def internalStartTrade_def Let_def no_trader_def upd_trader_def playerAcceptTrade_def all_agreed_def)

theorem trades_consistent_witness:
  "\<exists>s. trade_steps [PlayerEnters 5, PlayerEnters 6, RequestTrade 5 6 (all_well 10), RequestTrade 6 5 (all_well 20),
      AcceptTrade 5 (all_agreed None)] two_players = Some s \<and> trade_step (AcceptTrade 6 (all_agreed None)) s \<noteq> None"
proof -
  obtain s where s: "trade_steps [PlayerEnters 5, PlayerEnters 6, RequestTrade 5 6 (all_well 10), RequestTrade 6 5 (all_well 20),
      AcceptTrade 5 (all_agreed None)] two_players = Some s" using two_players_steps by blast
  have "script_safe (AcceptTrade 6 (all_agreed None)) s" by (simp add: script_safe_def all_agreed_def)
  with trades_consistent [OF s [unfolded two_players_def]] s show ?thesis by blast
qed

text \<open>
  C40:
  Items change hands only when a player accepts and the partner has accepted before, and then, if the
  second move does not fail after the first, both items are exchanged, each for the one that the other
  player offered, and the trade is over for both.
\<close>

theorem trade_swaps_or_nothing:
  assumes "trade_steps es (no_trades h) = Some s" and "trade_step e s = Some s'" and "holder s' \<noteq> holder s"
    and "\<And>p w. e = AcceptTrade p w \<Longrightarrow> moved1 w \<Longrightarrow> moved2 w"
  shows "\<exists>p w x q y i j. e = AcceptTrade p w \<and> traders s p = Some x \<and> tradePartner x = Some q \<and> tradeItem x = Some i \<and>
    traders s q = Some y \<and> tradePartner y = Some p \<and> tradeItem y = Some j \<and> tradeState y = TRADE_ACCEPT \<and> i \<noteq> j \<and>
    holder s' = (holder s)(i := q, j := p) \<and> traders s' p = Some no_trader \<and> traders s' q = Some no_trader"
proof (cases e)
  case (AcceptTrade p w)
  have ok: "trade_ok s" using steps_ok [OF no_trades_ok assms(1)] .
  have "playerAcceptTrade p w s = Some s'" using assms(2) AcceptTrade by (simp add: trade_step_def)
  from accept_kept [OF ok this] assms(3) obtain x q y i j where t: "traders s p = Some x" "tradePartner x = Some q"
    "traders s q = Some y" "tradePartner y = Some p" "tradeState y = TRADE_ACCEPT" "traders s' p = Some no_trader"
    "traders s' q = Some no_trader" "tradeItem x = Some i" "tradeItem y = Some j" "i \<noteq> j" "moved1 w"
    "holder s' = (if moved2 w then (holder s)(i := q, j := p) else (holder s)(i := q))" by blast
  have "moved2 w" by (rule assms(4) [OF AcceptTrade t(11)])
  then have "holder s' = (holder s)(i := q, j := p)" using t(12) by simp
  with t AcceptTrade show ?thesis by blast
next
  case (RequestTrade p q w)
  then show ?thesis using assms(2,3) request_ok [OF steps_ok [OF no_trades_ok assms(1)], of p q w] by (auto simp: trade_step_def)
next
  case (CloseTrade p)
  then show ?thesis using assms(2,3) close_ok [OF steps_ok [OF no_trades_ok assms(1)], of p]
    by (cases "traders s p") (auto simp: trade_step_def)
next
  case (ItemTouched p f)
  then show ?thesis using assms(2,3) touched_ok(1) [OF steps_ok [OF no_trades_ok assms(1)], of p f]
    by (auto simp: trade_step_def split: if_splits)
next
  case (PlayerMoved p a b)
  then show ?thesis using assms(2,3) touched_ok(2) [OF steps_ok [OF no_trades_ok assms(1)], of p a b]
    by (auto simp: trade_step_def split: if_splits)
next
  case (PlayerLeaves p)
  then show ?thesis using assms(2,3) touched_ok(3) [OF steps_ok [OF no_trades_ok assms(1)], of p]
    by (auto simp: trade_step_def split: if_splits)
next
  case (PlayerEnters p)
  then show ?thesis using assms(2,3) by (auto simp: trade_step_def player_enters_def split: if_splits)
qed

theorem trade_swaps_or_nothing_witness:
  "\<exists>s s'. trade_steps [PlayerEnters 5, PlayerEnters 6, RequestTrade 5 6 (all_well 10), RequestTrade 6 5 (all_well 20),
      AcceptTrade 5 (all_agreed None)] two_players = Some s \<and> trade_step (AcceptTrade 6 (all_agreed None)) s = Some s' \<and>
    holder s' = (holder s)(20 := 5, 10 := 6)"
proof -
  obtain s where s: "trade_steps [PlayerEnters 5, PlayerEnters 6, RequestTrade 5 6 (all_well 10), RequestTrade 6 5 (all_well 20),
      AcceptTrade 5 (all_agreed None)] two_players = Some s"
    "traders s 5 = Some \<lparr> tradeState = TRADE_ACCEPT, tradeItem = Some 10, tradePartner = Some 6 \<rparr>"
    "traders s 6 = Some \<lparr> tradeState = TRADE_INITIATED, tradeItem = Some 20, tradePartner = Some 5 \<rparr>"
    "holder s 10 = 5" "holder s 20 = 6" using two_players_steps by blast
  obtain s' where s': "trade_step (AcceptTrade 6 (all_agreed None)) s = Some s'" "holder s' 10 = 6"
    by (simp add: trade_step_def playerAcceptTrade_def s all_agreed_def eventPlayerOnTradeAccept_def Let_def exchange_def)
  then have "holder s' \<noteq> holder s" using s(4) by auto
  from trade_swaps_or_nothing [OF s(1) [unfolded two_players_def] s'(1) this] s s'(1) show ?thesis
    by (auto simp: all_agreed_def)
qed

text \<open>
  A player who was asked may accept without an offer. When the other then accepts, the event handler for
  accepted trades is given a null item, whose type it reads.
\<close>

lemma accept_without_offer:
  "trade_steps [PlayerEnters 5, PlayerEnters 6, RequestTrade 5 6 (all_well 10),
     AcceptTrade 6 (all_agreed (Some (\<lambda>i j. True))), AcceptTrade 5 (all_agreed (Some (\<lambda>i j. True)))] two_players = None"
  by (simp add: two_players_def no_trades_def trade_step_def player_enters_def playerRequestTrade_def all_well_def
      being_traded_def internalStartTrade_def Let_def no_trader_def upd_trader_def playerAcceptTrade_def all_agreed_def
      eventPlayerOnTradeAccept_def)

end
