(* ===== verification/SightLine.thy ===== *)
theory SightLine
  imports Position
begin

text \<open>
  Lines of sight (\<open>canThrowObjectTo\<close>, \<open>checkSightLine\<close> and \<open>isSightClear\<close> of \<open>map.cpp\<close>). The tiles are
  two predicates on positions: whether one blocks projectiles and whether it holds anything. The
  arithmetic of the line is on \<open>int32_t\<close>; where it overflows the result is undefined, \<open>None\<close>, and so is
  a loop that does not end.
\<close>

section \<open>The distance from the line\<close>

definition i32 :: "int \<Rightarrow> int option" where
  "i32 v = (if - (2 ^ 31) \<le> v \<and> v < 2 ^ 31 then Some v else None)"

definition line_dist :: "int \<Rightarrow> int \<Rightarrow> int \<Rightarrow> int \<Rightarrow> int \<Rightarrow> int option" where
  "line_dist A B C x y =
     do { a \<leftarrow> i32 (A * x); b \<leftarrow> i32 (B * y); ab \<leftarrow> i32 (a + b); e \<leftarrow> i32 (ab + C); i32 \<bar>e\<bar> }"

definition line_const :: "int \<Rightarrow> int \<Rightarrow> int \<Rightarrow> int \<Rightarrow> int option" where
  "line_const A B x y =
     do { a \<leftarrow> i32 (A * x); b \<leftarrow> i32 (B * y); ab \<leftarrow> i32 (a + b); i32 (- ab) }"

definition direction_of :: "u16 \<Rightarrow> u16 \<Rightarrow> int" where
  "direction_of s d = (if s < d then 1 else if s = d then 0 else - 1)"

section \<open>The walk along the line\<close>

text \<open>One round: y moves first, and the test for x sees the new y.\<close>

definition sight_step :: "int \<Rightarrow> int \<Rightarrow> int \<Rightarrow> int \<Rightarrow> int \<Rightarrow> u16 \<Rightarrow> u16 \<Rightarrow> u16 \<Rightarrow> u16 \<Rightarrow> (u16 \<times> u16) option" where
  "sight_step A B C mx my dx dy x y =
     do {
       move_hor \<leftarrow> line_dist A B C (uint x + mx) (uint y);
       move_ver \<leftarrow> line_dist A B C (uint x) (uint y + my);
       move_cross \<leftarrow> line_dist A B C (uint x + mx) (uint y + my);
       let y' = (if y \<noteq> dy \<and> (x = dx \<or> move_hor > move_ver \<or> move_hor > move_cross)
                 then y + word_of_int my else y);
           x' = (if x \<noteq> dx \<and> (y' = dy \<or> move_ver > move_hor \<or> move_ver > move_cross)
                 then x + word_of_int mx else x)
       in Some (x', y')
     }"

partial_function (option) sight_loop ::
  "(position \<Rightarrow> bool) \<Rightarrow> int \<Rightarrow> int \<Rightarrow> int \<Rightarrow> int \<Rightarrow> int \<Rightarrow> position \<Rightarrow> u16 \<Rightarrow> u16 \<Rightarrow> u8 \<Rightarrow> bool option" where
  "sight_loop blocked A B C mx my dest x y z =
     (if x = pos_x dest \<and> y = pos_y dest then Some True
      else
        Option.bind (sight_step A B C mx my (pos_x dest) (pos_y dest) x y)
          (\<lambda>p. if blocked (Position (fst p) (snd p) z) then Some False
               else sight_loop blocked A B C mx my dest (fst p) (snd p) z))"

text \<open>The jump between the floors.\<close>

partial_function (option) floor_loop :: "(position \<Rightarrow> bool) \<Rightarrow> u16 \<Rightarrow> u16 \<Rightarrow> u8 \<Rightarrow> u8 \<Rightarrow> bool option" where
  "floor_loop occupied x y dz z =
     (if z = dz then Some True
      else if occupied (Position x y z) then Some False
      else floor_loop occupied x y dz (z + 1))"

definition checkSightLine :: "(position \<Rightarrow> bool) \<Rightarrow> (position \<Rightarrow> bool) \<Rightarrow> position \<Rightarrow> position \<Rightarrow> bool option" where
  "checkSightLine blocked occupied fromPos toPos =
     (if fromPos = toPos then Some True
      else
        (let start = (if pos_z fromPos > pos_z toPos then toPos else fromPos);
             destination = (if pos_z fromPos > pos_z toPos then fromPos else toPos);
             mx = direction_of (pos_x start) (pos_x destination);
             my = direction_of (pos_y start) (pos_y destination);
             A = getOffsetY destination start;
             B = getOffsetX start destination
         in do {
              C \<leftarrow> line_const A B (getX destination) (getY destination);
              clear \<leftarrow> sight_loop blocked A B C mx my destination (pos_x start) (pos_y start) (pos_z start);
              if \<not> clear then Some False
              else floor_loop occupied (pos_x destination) (pos_y destination) (pos_z destination) (pos_z start)
            }))"

definition isSightClear :: "(position \<Rightarrow> bool) \<Rightarrow> (position \<Rightarrow> bool) \<Rightarrow> position \<Rightarrow> position \<Rightarrow> bool \<Rightarrow> bool option" where
  "isSightClear blocked occupied fromPos toPos floorCheck =
     (if floorCheck \<and> pos_z fromPos \<noteq> pos_z toPos then Some False
      else
        do {
          forth \<leftarrow> checkSightLine blocked occupied fromPos toPos;
          if forth then Some True else checkSightLine blocked occupied toPos fromPos
        })"

definition canThrowObjectTo :: "(position \<Rightarrow> bool) \<Rightarrow> (position \<Rightarrow> bool) \<Rightarrow> position \<Rightarrow> position \<Rightarrow> bool \<Rightarrow> int \<Rightarrow> int
    \<Rightarrow> bool option" where
  "canThrowObjectTo blocked occupied fromPos toPos checkLineOfSight rangex rangey =
     (if pos_z fromPos \<ge> 8 \<and> pos_z toPos < 8 \<or> pos_z toPos \<ge> 8 \<and> pos_z fromPos < 8 then Some False
      else
        (let deltaz = getDistanceZ fromPos toPos
         in if deltaz > 2 then Some False
            else if getDistanceX fromPos toPos - deltaz > rangex then Some False
            else if getDistanceY fromPos toPos - deltaz > rangey then Some False
            else if \<not> checkLineOfSight then Some True
            else isSightClear blocked occupied fromPos toPos False))"

section \<open>Progress\<close>

text \<open>
  The three distances: e is how far the square is off the line, a and b are the slopes. Two moves that
  are equally good are both worse than the diagonal one.
\<close>

lemma one_move_better:
  fixes a b e :: int
  assumes "a * b < 0"
  shows "\<bar>e + a\<bar> > \<bar>e + b\<bar> \<or> \<bar>e + a\<bar> > \<bar>e + a + b\<bar> \<or> \<bar>e + b\<bar> > \<bar>e + a\<bar>"
proof -
  have "a > 0 \<and> b < 0 \<or> a < 0 \<and> b > 0" using assms by (simp add: mult_less_0_iff)
  then show ?thesis by arith
qed

definition toward :: "int \<Rightarrow> u16 \<Rightarrow> u16 \<Rightarrow> bool" where
  "toward m d s \<longleftrightarrow> s = d \<or> s < d \<and> m = 1 \<or> s > d \<and> m = - 1"

lemma toward_direction: "toward (direction_of s d) d s"
  by (auto simp: toward_def direction_of_def)

lemma toward_step:
  assumes "toward m d s" and "s \<noteq> d"
  shows "toward m d (s + word_of_int m)" and "uint (s + word_of_int m) = uint s + m"
    and "\<bar>uint d - uint (s + word_of_int m)\<bar> < \<bar>uint d - uint s\<bar>"
proof -
  have bounds: "0 \<le> uint d" "uint d < 65536" "0 \<le> uint s" "uint s < 65536"
    using uint_bounded [of d] uint_bounded [of s] by simp_all
  from assms have cases: "uint s < uint d \<and> m = 1 \<or> uint s > uint d \<and> m = - 1"
    by (auto simp: toward_def word_less_def)
  then show eq: "uint (s + word_of_int m) = uint s + m"
    using bounds uint16_add1 [of s] uint16_sub1 [of s] by auto
  from cases show "\<bar>uint d - uint (s + word_of_int m)\<bar> < \<bar>uint d - uint s\<bar>" unfolding eq by auto
  have "uint (s + word_of_int m) = uint d \<longleftrightarrow> s + word_of_int m = d" by (metis word_uint_eq_iff)
  with cases show "toward m d (s + word_of_int m)"
    unfolding toward_def word_less_def eq by auto
qed

text \<open>Within 16383 squares nothing overflows.\<close>

lemma product_bound:
  fixes a x :: int
  assumes "\<bar>a\<bar> \<le> 16383" and "\<bar>x\<bar> \<le> c"
  shows "\<bar>a * x\<bar> \<le> 16383 * c"
  unfolding abs_mult using assms by (intro mult_mono) auto

lemma i32_Some: "\<bar>v\<bar> \<le> 2147352576 \<Longrightarrow> i32 v = Some v"
  by (cases "v \<ge> 0") (simp_all add: i32_def)

lemma line_dist_Some:
  assumes A: "\<bar>A\<bar> \<le> 16383" and B: "\<bar>B\<bar> \<le> 16383" and "\<bar>x\<bar> \<le> 65536" and "\<bar>y\<bar> \<le> 65536"
    and "\<bar>x - dx\<bar> \<le> 16384" and "\<bar>y - dy\<bar> \<le> 16384" and C: "C = - (A * dx + B * dy)"
  shows "line_dist A B C x y = Some \<bar>A * (x - dx) + B * (y - dy)\<bar>"
proof -
  have p: "\<bar>A * x\<bar> \<le> 1073676288" "\<bar>B * y\<bar> \<le> 1073676288"
    "\<bar>A * (x - dx)\<bar> \<le> 268419072" "\<bar>B * (y - dy)\<bar> \<le> 268419072"
    using product_bound [OF A assms(3)] product_bound [OF B assms(4)]
      product_bound [OF A assms(5)] product_bound [OF B assms(6)] by simp_all
  have "A * x + B * y + C = A * (x - dx) + B * (y - dy)" by (simp add: C algebra_simps)
  with p show ?thesis by (simp add: line_dist_def i32_Some)
qed

lemma line_const_Some:
  assumes A: "\<bar>A\<bar> \<le> 16383" and B: "\<bar>B\<bar> \<le> 16383" and "\<bar>x\<bar> \<le> 65536" and "\<bar>y\<bar> \<le> 65536"
  shows "line_const A B x y = Some (- (A * x + B * y))"
proof -
  have p: "\<bar>A * x\<bar> \<le> 1073676288" "\<bar>B * y\<bar> \<le> 1073676288"
    using product_bound [OF A assms(3)] product_bound [OF B assms(4)] by simp_all
  then show ?thesis by (simp add: line_const_def i32_Some)
qed

section \<open>The walk ends\<close>

text \<open>Squares that do not block, each next to the last one and nearer to the end.\<close>

inductive clear_way :: "(position \<Rightarrow> bool) \<Rightarrow> int \<Rightarrow> int \<Rightarrow> u8 \<Rightarrow> u16 \<times> u16 \<Rightarrow> u16 \<times> u16 \<Rightarrow> bool" where
  arrived: "clear_way blocked mx my z d d"
| move: "x' = x \<or> x' = x + word_of_int mx \<Longrightarrow> y' = y \<or> y' = y + word_of_int my \<Longrightarrow> (x', y') \<noteq> (x, y) \<Longrightarrow>
    \<not> blocked (Position x' y' z) \<Longrightarrow> clear_way blocked mx my z (x', y') d \<Longrightarrow>
    clear_way blocked mx my z (x, y) d"

definition sight_dist :: "u16 \<Rightarrow> u16 \<Rightarrow> u16 \<Rightarrow> u16 \<Rightarrow> nat" where
  "sight_dist dx dy x y = nat (\<bar>uint dx - uint x\<bar> + \<bar>uint dy - uint y\<bar>)"

text \<open>What a walk knows: its direction, its slopes and that it is near enough.\<close>

definition on_course :: "int \<Rightarrow> int \<Rightarrow> int \<Rightarrow> int \<Rightarrow> int \<Rightarrow> u16 \<Rightarrow> u16 \<Rightarrow> u16 \<Rightarrow> u16 \<Rightarrow> bool" where
  "on_course A B C mx my dx dy x y \<longleftrightarrow>
     toward mx dx x \<and> toward my dy y \<and> \<bar>mx\<bar> \<le> 1 \<and> \<bar>my\<bar> \<le> 1 \<and>
     \<bar>A\<bar> \<le> 16383 \<and> \<bar>B\<bar> \<le> 16383 \<and> C = - (A * uint dx + B * uint dy) \<and>
     (mx \<noteq> 0 \<and> my \<noteq> 0 \<longrightarrow> (A * mx) * (B * my) < 0) \<and>
     \<bar>uint x - uint dx\<bar> \<le> 16383 \<and> \<bar>uint y - uint dy\<bar> \<le> 16383"

lemma uint_u16: "0 \<le> uint (x :: u16)" "uint (x :: u16) < 65536"
  using uint_bounded [of x] by simp_all

lemma sight_step_progress:
  assumes c: "on_course A B C mx my dx dy x y" and "x \<noteq> dx \<or> y \<noteq> dy"
  obtains x' y' where "sight_step A B C mx my dx dy x y = Some (x', y')"
    and "x' = x \<or> x \<noteq> dx \<and> x' = x + word_of_int mx" and "y' = y \<or> y \<noteq> dy \<and> y' = y + word_of_int my"
    and "(x', y') \<noteq> (x, y)"
proof -
  let ?e = "A * (uint x - uint dx) + B * (uint y - uint dy)"
  let ?a = "A * mx" and ?b = "B * my"
  note c' = c [unfolded on_course_def]
  have near: "line_dist A B C (uint x + i) (uint y + j) =
      Some \<bar>A * (uint x + i - uint dx) + B * (uint y + j - uint dy)\<bar>" if "\<bar>i\<bar> \<le> 1" "\<bar>j\<bar> \<le> 1" for i j
  proof (rule line_dist_Some)
    show "\<bar>A\<bar> \<le> 16383" "\<bar>B\<bar> \<le> 16383" "C = - (A * uint dx + B * uint dy)" using c' by blast+
    have "\<bar>uint x - uint dx\<bar> \<le> 16383" "\<bar>uint y - uint dy\<bar> \<le> 16383" using c' by blast+
    with that uint_u16 [of x] uint_u16 [of y]
    show "\<bar>uint x + i\<bar> \<le> 65536" "\<bar>uint y + j\<bar> \<le> 65536"
      "\<bar>uint x + i - uint dx\<bar> \<le> 16384" "\<bar>uint y + j - uint dy\<bar> \<le> 16384" by arith+
  qed
  have dist: "line_dist A B C (uint x + mx) (uint y) = Some \<bar>?e + ?a\<bar>"
    "line_dist A B C (uint x) (uint y + my) = Some \<bar>?e + ?b\<bar>"
    "line_dist A B C (uint x + mx) (uint y + my) = Some \<bar>?e + ?a + ?b\<bar>"
  proof -
    have m: "\<bar>mx\<bar> \<le> 1" "\<bar>my\<bar> \<le> 1" "\<bar>0 :: int\<bar> \<le> 1" using c' by auto
    have e: "A * (uint x + mx - uint dx) + B * (uint y + 0 - uint dy) = ?e + ?a"
      "A * (uint x + 0 - uint dx) + B * (uint y + my - uint dy) = ?e + ?b"
      "A * (uint x + mx - uint dx) + B * (uint y + my - uint dy) = ?e + ?a + ?b"
      by (simp_all add: algebra_simps)
    show "line_dist A B C (uint x + mx) (uint y) = Some \<bar>?e + ?a\<bar>"
      using near [OF m(1,3)] unfolding e by simp
    show "line_dist A B C (uint x) (uint y + my) = Some \<bar>?e + ?b\<bar>"
      using near [OF m(3,2)] unfolding e by simp
    show "line_dist A B C (uint x + mx) (uint y + my) = Some \<bar>?e + ?a + ?b\<bar>"
      using near [OF m(1,2)] unfolding e by simp
  qed
  define h v c where "h = \<bar>?e + ?a\<bar>" and "v = \<bar>?e + ?b\<bar>" and "c = \<bar>?e + ?a + ?b\<bar>"
  note hvc = dist [folded h_def v_def c_def]
  define y' where "y' = (if y \<noteq> dy \<and> (x = dx \<or> h > v \<or> h > c) then y + word_of_int my else y)"
  define x' where "x' = (if x \<noteq> dx \<and> (y' = dy \<or> v > h \<or> v > c) then x + word_of_int mx else x)"
  have step: "sight_step A B C mx my dx dy x y = Some (x', y')"
    unfolding sight_step_def hvc x'_def y'_def by (simp add: Let_def)
  have x_moves: "x \<noteq> dx \<Longrightarrow> x + word_of_int mx \<noteq> x"
    and y_moves: "y \<noteq> dy \<Longrightarrow> y + word_of_int my \<noteq> y"
  proof -
    have t: "toward mx dx x" "toward my dy y" using c' by blast+
    show "x \<noteq> dx \<Longrightarrow> x + word_of_int mx \<noteq> x" using toward_step(3) [OF t(1)] by force
    show "y \<noteq> dy \<Longrightarrow> y + word_of_int my \<noteq> y" using toward_step(3) [OF t(2)] by force
  qed
  have "(x', y') \<noteq> (x, y)"
  proof (cases "x = dx \<or> y = dy")
    case True
    with assms(2) x_moves y_moves show ?thesis by (auto simp: x'_def y'_def)
  next
    case False
    moreover have "toward mx dx x" "toward my dy y" using c' by blast+
    ultimately have "mx \<noteq> 0" "my \<noteq> 0" by (auto simp: toward_def)
    then have "?a * ?b < 0" using c' by blast
    then have "h > v \<or> h > c \<or> v > h"
      unfolding h_def v_def c_def by (rule one_move_better)
    with False have "y' = y + word_of_int my \<or> x' = x + word_of_int mx"
      by (auto simp: x'_def y'_def)
    with False x_moves y_moves show ?thesis by auto
  qed
  then show thesis using that [OF step] by (simp add: x'_def y'_def)
qed

lemma on_course_step:
  assumes "on_course A B C mx my dx dy x y"
  shows "x \<noteq> dx \<Longrightarrow> on_course A B C mx my dx dy (x + word_of_int mx) y"
    and "y \<noteq> dy \<Longrightarrow> on_course A B C mx my dx dy x (y + word_of_int my)"
proof -
  note c = assms [unfolded on_course_def]
  show "on_course A B C mx my dx dy (x + word_of_int mx) y" if "x \<noteq> dx"
  proof -
    have "toward mx dx x" using c by blast
    note t = toward_step [OF this that]
    have "\<bar>uint x - uint dx\<bar> \<le> 16383" using c by blast
    with t(3) have "\<bar>uint (x + word_of_int mx) - uint dx\<bar> \<le> 16383" by linarith
    with c t(1) show ?thesis unfolding on_course_def by blast
  qed
  show "on_course A B C mx my dx dy x (y + word_of_int my)" if "y \<noteq> dy"
  proof -
    have "toward my dy y" using c by blast
    note t = toward_step [OF this that]
    have "\<bar>uint y - uint dy\<bar> \<le> 16383" using c by blast
    with t(3) have "\<bar>uint (y + word_of_int my) - uint dy\<bar> \<le> 16383" by linarith
    with c t(1) show ?thesis unfolding on_course_def by blast
  qed
qed

lemma on_course_moves:
  assumes c: "on_course A B C mx my dx dy x y"
    and x': "x' = x \<or> x \<noteq> dx \<and> x' = x + word_of_int mx" and y': "y' = y \<or> y \<noteq> dy \<and> y' = y + word_of_int my"
    and "(x', y') \<noteq> (x, y)"
  shows "on_course A B C mx my dx dy x' y'" and "sight_dist dx dy x' y' < sight_dist dx dy x y"
proof -
  have cx: "on_course A B C mx my dx dy x' y" using on_course_step(1) [OF c] x' c by auto
  then show "on_course A B C mx my dx dy x' y'" using on_course_step(2) [OF cx] y' by auto
  have "\<bar>uint dx - uint x'\<bar> < \<bar>uint dx - uint x\<bar> \<or> x' = x"
    and "\<bar>uint dy - uint y'\<bar> < \<bar>uint dy - uint y\<bar> \<or> y' = y"
  proof -
    have t: "toward mx dx x" "toward my dy y" using c unfolding on_course_def by blast+
    show "\<bar>uint dx - uint x'\<bar> < \<bar>uint dx - uint x\<bar> \<or> x' = x" using x' toward_step(3) [OF t(1)] by auto
    show "\<bar>uint dy - uint y'\<bar> < \<bar>uint dy - uint y\<bar> \<or> y' = y" using y' toward_step(3) [OF t(2)] by auto
  qed
  with assms(4) show "sight_dist dx dy x' y' < sight_dist dx dy x y"
    unfolding sight_dist_def by (auto simp: nat_less_iff)
qed

lemma sight_loop_total:
  "on_course A B C mx my (pos_x dest) (pos_y dest) x y \<Longrightarrow>
     \<exists>r. sight_loop blocked A B C mx my dest x y z = Some r \<and>
       (r \<longrightarrow> clear_way blocked mx my z (x, y) (pos_x dest, pos_y dest))"
proof (induction "sight_dist (pos_x dest) (pos_y dest) x y" arbitrary: x y rule: less_induct)
  case less
  show ?case
  proof (cases "x = pos_x dest \<and> y = pos_y dest")
    case True
    then have "sight_loop blocked A B C mx my dest x y z = Some True"
      by (subst sight_loop.simps) simp
    with True show ?thesis by (auto intro: clear_way.arrived)
  next
    case False
    then have "x \<noteq> pos_x dest \<or> y \<noteq> pos_y dest" by blast
    from sight_step_progress [OF less.prems this]
    obtain x' y' where step: "sight_step A B C mx my (pos_x dest) (pos_y dest) x y = Some (x', y')"
      and x': "x' = x \<or> x \<noteq> pos_x dest \<and> x' = x + word_of_int mx"
      and y': "y' = y \<or> y \<noteq> pos_y dest \<and> y' = y + word_of_int my" and ne: "(x', y') \<noteq> (x, y)"
      by blast
    note moved = on_course_moves [OF less.prems x' y' ne]
    show ?thesis
    proof (cases "blocked (Position x' y' z)")
      case True
      with False step show ?thesis by (subst sight_loop.simps) auto
    next
      case free: False
      obtain r where r: "sight_loop blocked A B C mx my dest x' y' z = Some r"
        "r \<longrightarrow> clear_way blocked mx my z (x', y') (pos_x dest, pos_y dest)"
        using less.hyps [OF moved(2,1)] by blast
      have "sight_loop blocked A B C mx my dest x y z = Some r"
        using False step free r(1) by (subst sight_loop.simps) auto
      moreover have "r \<longrightarrow> clear_way blocked mx my z (x, y) (pos_x dest, pos_y dest)"
        using r(2) x' y' ne free clear_way.move [of x' x mx y' y my blocked z] by blast
      ultimately show ?thesis by blast
    qed
  qed
qed

lemma uint8_add1: "z < dz \<Longrightarrow> uint (z + 1 :: u8) = uint z + 1"
proof -
  assume "z < dz"
  then have "uint z < uint dz" by (simp add: word_less_def)
  moreover have "uint dz < 256" using uint_bounded [of dz] by simp
  moreover have "uint (z + 1) = (uint z + 1) mod 256" by (simp add: uint_word_ariths)
  moreover have "0 \<le> uint z" by simp
  ultimately show ?thesis by simp
qed

lemma floor_loop_total:
  "z \<le> dz \<Longrightarrow> \<exists>r. floor_loop occupied x y dz z = Some r \<and>
     (r \<longleftrightarrow> (\<forall>f. z \<le> f \<and> f < dz \<longrightarrow> \<not> occupied (Position x y f)))"
proof (induction "nat (uint dz - uint z)" arbitrary: z rule: less_induct)
  case less
  show ?case
  proof (cases "z = dz")
    case True
    then show ?thesis by (subst floor_loop.simps) auto
  next
    case False
    with less.prems have lt: "z < dz" by simp
    note up = uint8_add1 [OF lt]
    have le: "z + 1 \<le> dz" using lt up by (simp add: word_le_def word_less_def)
    have "nat (uint dz - uint (z + 1)) < nat (uint dz - uint z)"
      using up lt by (simp add: word_less_def)
    from less.hyps [OF this le] obtain r where r: "floor_loop occupied x y dz (z + 1) = Some r"
      "r \<longleftrightarrow> (\<forall>f. z + 1 \<le> f \<and> f < dz \<longrightarrow> \<not> occupied (Position x y f))" by blast
    have split: "z \<le> f \<longleftrightarrow> f = z \<or> z + 1 \<le> f" for f
      using up by (auto simp: word_le_def word_uint_eq_iff)
    show ?thesis
    proof (cases "occupied (Position x y z)")
      case True
      with False lt show ?thesis by (subst floor_loop.simps) auto
    next
      case free: False
      have "floor_loop occupied x y dz z = Some r" using False free r(1) by (subst floor_loop.simps) simp
      moreover have "r \<longleftrightarrow> (\<forall>f. z \<le> f \<and> f < dz \<longrightarrow> \<not> occupied (Position x y f))"
        unfolding r(2) split using free by blast
      ultimately show ?thesis by blast
    qed
  qed
qed

lemma direction_of_sign:
  "direction_of s d \<noteq> 0 \<Longrightarrow> (uint d - uint s) * direction_of s d > 0"
  by (auto simp: direction_of_def word_less_def word_uint_eq_iff not_less split: if_splits)

lemma on_course_start:
  assumes "getDistanceX s d \<le> 16383" and "getDistanceY s d \<le> 16383"
    and C: "C = - (getOffsetY d s * getX d + getOffsetX s d * getY d)"
  shows "on_course (getOffsetY d s) (getOffsetX s d) C (direction_of (pos_x s) (pos_x d))
    (direction_of (pos_y s) (pos_y d)) (pos_x d) (pos_y d) (pos_x s) (pos_y s)"
proof -
  let ?mx = "direction_of (pos_x s) (pos_x d)" and ?my = "direction_of (pos_y s) (pos_y d)"
  have near: "\<bar>uint (pos_x s) - uint (pos_x d)\<bar> \<le> 16383" "\<bar>uint (pos_y s) - uint (pos_y d)\<bar> \<le> 16383"
    using assms(1,2) by (simp_all add: distance_defs)
  then have slopes: "\<bar>getOffsetY d s\<bar> \<le> 16383" "\<bar>getOffsetX s d\<bar> \<le> 16383"
    by (simp_all add: distance_defs abs_minus_commute)
  have small: "\<bar>?mx\<bar> \<le> 1" "\<bar>?my\<bar> \<le> 1" by (simp_all add: direction_of_def)
  have "(getOffsetY d s * ?mx) * (getOffsetX s d * ?my) < 0" if "?mx \<noteq> 0" "?my \<noteq> 0"
  proof -
    have "getOffsetY d s * ?my > 0" and "getOffsetX s d * ?mx < 0"
      using direction_of_sign [OF that(1)] direction_of_sign [OF that(2)]
      by (simp_all add: distance_defs left_diff_distrib)
    then have "(getOffsetY d s * ?my) * (getOffsetX s d * ?mx) < 0" by (rule mult_pos_neg)
    then show ?thesis by (simp only: mult.assoc mult.commute mult.left_commute)
  qed
  then show ?thesis
    unfolding on_course_def
    using near slopes small toward_direction C by (intro conjI impI) (simp_all add: getX_def getY_def)
qed

lemma distance_commute:
  "getDistanceX a b = getDistanceX b a" "getDistanceY a b = getDistanceY b a"
  by (simp_all add: distance_defs abs_minus_commute)

text \<open>A line from a start to a destination that is not above it.\<close>

definition clear_line :: "(position \<Rightarrow> bool) \<Rightarrow> (position \<Rightarrow> bool) \<Rightarrow> position \<Rightarrow> position \<Rightarrow> bool" where
  "clear_line blocked occupied s d \<longleftrightarrow>
     clear_way blocked (direction_of (pos_x s) (pos_x d)) (direction_of (pos_y s) (pos_y d)) (pos_z s)
       (pos_x s, pos_y s) (pos_x d, pos_y d) \<and>
     (\<forall>f. pos_z s \<le> f \<and> f < pos_z d \<longrightarrow> \<not> occupied (Position (pos_x d) (pos_y d) f))"

lemma checkSightLine_ends:
  assumes "getDistanceX a b \<le> 16383" and "getDistanceY a b \<le> 16383"
  shows "\<exists>r. checkSightLine blocked occupied a b = Some r \<and>
    (r \<longrightarrow> a = b \<or> clear_line blocked occupied (if pos_z a > pos_z b then b else a) (if pos_z a > pos_z b then a else b))"
proof (cases "a = b")
  case True
  then have "checkSightLine blocked occupied a b = Some True" by (simp add: checkSightLine_def)
  with True show ?thesis by blast
next
  case False
  define s d where "s = (if pos_z a > pos_z b then b else a)" and "d = (if pos_z a > pos_z b then a else b)"
  let ?A = "getOffsetY d s" and ?B = "getOffsetX s d"
  let ?C = "- (?A * getX d + ?B * getY d)"
  let ?mx = "direction_of (pos_x s) (pos_x d)" and ?my = "direction_of (pos_y s) (pos_y d)"
  have near: "getDistanceX s d \<le> 16383" "getDistanceY s d \<le> 16383"
    using assms distance_commute [of a b] by (auto simp: s_def d_def)
  have course: "on_course ?A ?B ?C ?mx ?my (pos_x d) (pos_y d) (pos_x s) (pos_y s)"
    by (rule on_course_start [OF near refl])
  have le: "pos_z s \<le> pos_z d" by (auto simp: s_def d_def)
  have slopes: "\<bar>?A\<bar> \<le> 16383" "\<bar>?B\<bar> \<le> 16383" using course unfolding on_course_def by blast+
  have "\<bar>getX d\<bar> \<le> 65536" "\<bar>getY d\<bar> \<le> 65536"
    using uint_u16 [of "pos_x d"] uint_u16 [of "pos_y d"] by (simp_all add: getX_def getY_def)
  note const = line_const_Some [OF slopes this]
  obtain r where r: "sight_loop blocked ?A ?B ?C ?mx ?my d (pos_x s) (pos_y s) (pos_z s) = Some r"
    "r \<longrightarrow> clear_way blocked ?mx ?my (pos_z s) (pos_x s, pos_y s) (pos_x d, pos_y d)"
    using sight_loop_total [OF course] by blast
  obtain r' where r': "floor_loop occupied (pos_x d) (pos_y d) (pos_z d) (pos_z s) = Some r'"
    "r' \<longleftrightarrow> (\<forall>f. pos_z s \<le> f \<and> f < pos_z d \<longrightarrow> \<not> occupied (Position (pos_x d) (pos_y d) f))"
    using floor_loop_total [OF le] by blast
  have "checkSightLine blocked occupied a b = Some (r \<and> r')"
    using False r(1) r'(1) const
    unfolding checkSightLine_def s_def [symmetric] d_def [symmetric] by (simp add: Let_def)
  moreover have "r \<and> r' \<longrightarrow> clear_line blocked occupied s d"
    using r(2) r'(2) unfolding clear_line_def by blast
  ultimately show ?thesis unfolding s_def d_def by blast
qed

text \<open>
  C27:
  Between positions at most 16383 squares apart the search for a line of sight ends and overflows
  nowhere, and a line that it finds is clear: from the upper position squares that do not block
  projectiles lead, each next to the last and nearer to the goal, to the column of the lower position,
  and that column is empty down to it.
\<close>

theorem sight_line_ends:
  assumes "getDistanceX a b \<le> 16383" and "getDistanceY a b \<le> 16383"
  shows "\<exists>r. isSightClear blocked occupied a b floorCheck = Some r \<and>
    (r \<longrightarrow> a = b \<or> clear_line blocked occupied a b \<or> clear_line blocked occupied b a)"
proof -
  obtain r where r: "checkSightLine blocked occupied a b = Some r"
    "r \<longrightarrow> a = b \<or> clear_line blocked occupied a b \<or> clear_line blocked occupied b a"
    using checkSightLine_ends [OF assms, of blocked occupied] by (auto split: if_splits)
  have "getDistanceX b a \<le> 16383" "getDistanceY b a \<le> 16383" using assms distance_commute [of a b] by simp_all
  then obtain r' where r': "checkSightLine blocked occupied b a = Some r'"
    "r' \<longrightarrow> a = b \<or> clear_line blocked occupied a b \<or> clear_line blocked occupied b a"
    using checkSightLine_ends [of b a blocked occupied] by (auto split: if_splits)
  have "isSightClear blocked occupied a b floorCheck =
      Some (\<not> (floorCheck \<and> pos_z a \<noteq> pos_z b) \<and> (r \<or> r'))"
    using r(1) r'(1) by (simp add: isSightClear_def)
  then show ?thesis using r(2) r'(2) by blast
qed

theorem sight_line_ends_witness:
  "\<exists>r. isSightClear (\<lambda>p. pos_x p = 105) (\<lambda>_. False) (Position 100 100 7) (Position 107 103 7) True = Some r"
  using sight_line_ends [of "Position 100 100 7" "Position 107 103 7" "\<lambda>p. pos_x p = 105" "\<lambda>_. False" True]
  by (auto simp: distance_defs)

end
