(* ===== verification/Pathfinding.thy ===== *)
theory Pathfinding
  imports SightLine
begin

text \<open>
  The search for a path (\<open>AStarNodes\<close> and \<open>Map::getPathMatching\<close> of \<open>map.h\<close> and \<open>map.cpp\<close>, and
  \<open>FrozenPathingConditionCall\<close> of \<open>creature.cpp\<close>). Nodes are indices into a list that holds the nodes
  made so far. The map and the creature are a record of predicates on positions: where the creature can
  walk to, where another creature stands, where a field would hurt it.
\<close>

section \<open>The conditions on a path\<close>

record path_params =
  fullPathSearch :: bool
  clearSight :: bool
  allowDiagonal :: bool
  keepDistance :: bool
  maxSearchDist :: int
  minTargetDist :: int
  maxTargetDist :: int

record path_world =
  canWalkTo :: "position \<Rightarrow> bool"
  creature_on :: "position \<Rightarrow> bool"
  harmful_field :: "position \<Rightarrow> bool"
  blocks_projectile :: "position \<Rightarrow> bool"
  holds_things :: "position \<Rightarrow> bool"

definition isInRange :: "path_params \<Rightarrow> position \<Rightarrow> position \<Rightarrow> position \<Rightarrow> bool" where
  "isInRange fpp targetPos startPos testPos =
     (if fullPathSearch fpp then
        (if getX testPos > getX targetPos + maxTargetDist fpp then False
         else if getX testPos < getX targetPos - maxTargetDist fpp then False
         else if getY testPos > getY targetPos + maxTargetDist fpp then False
         else if getY testPos < getY targetPos - maxTargetDist fpp then False
         else True)
      else
        (let dx = getOffsetX startPos targetPos;
             dxMax = (if dx \<ge> 0 then maxTargetDist fpp else 0);
             dxMin = (if dx \<le> 0 then maxTargetDist fpp else 0);
             dy = getOffsetY startPos targetPos;
             dyMax = (if dy \<ge> 0 then maxTargetDist fpp else 0);
             dyMin = (if dy \<le> 0 then maxTargetDist fpp else 0)
         in if getX testPos > getX targetPos + dxMax then False
            else if getX testPos < getX targetPos - dxMin then False
            else if getY testPos > getY targetPos + dyMax then False
            else if getY testPos < getY targetPos - dyMin then False
            else True))"

text \<open>Whether a position will do, and the new best distance.\<close>

definition pathCondition :: "path_world \<Rightarrow> path_params \<Rightarrow> position \<Rightarrow> position \<Rightarrow> position \<Rightarrow> int
    \<Rightarrow> (bool \<times> int) option" where
  "pathCondition w fpp targetPos startPos testPos bestMatchDist =
     (if \<not> isInRange fpp targetPos startPos testPos then Some (False, bestMatchDist)
      else
        do {
          clear \<leftarrow> (if clearSight fpp
                   then isSightClear (blocks_projectile w) (holds_things w) testPos targetPos True else Some True);
          let testDist = max (getDistanceX targetPos testPos) (getDistanceY targetPos testPos)
          in Some
            (if \<not> clear then (False, bestMatchDist)
             else if maxTargetDist fpp = 1 then
               (if testDist < minTargetDist fpp \<or> testDist > maxTargetDist fpp then (False, bestMatchDist)
                else (True, bestMatchDist))
             else if testDist \<le> maxTargetDist fpp then
               (if testDist < minTargetDist fpp then (False, bestMatchDist)
                else if testDist = maxTargetDist fpp then (True, 0)
                else if testDist > bestMatchDist then (True, testDist)
                else (False, bestMatchDist))
             else (False, bestMatchDist))
        })"

section \<open>The nodes\<close>

record node =
  node_parent :: "nat option"
  node_f :: int
  node_x :: u16
  node_y :: u16

record astar =
  nodes :: "node list"
  openNodes :: "bool list"
  nodeTable :: "u32 \<Rightarrow> nat option"
  closedNodes :: int

definition MAX_NODES :: nat where "MAX_NODES = 512"
definition MAP_NORMALWALKCOST :: int where "MAP_NORMALWALKCOST = 10"
definition MAP_DIAGONALWALKCOST :: int where "MAP_DIAGONALWALKCOST = 25"

definition node_key :: "u16 \<Rightarrow> u16 \<Rightarrow> u32" where
  "node_key x y = or (push_bit 16 (ucast x)) (ucast y)"

definition new_astar :: "u16 \<Rightarrow> u16 \<Rightarrow> astar" where
  "new_astar x y = \<lparr> nodes = [\<lparr> node_parent = None, node_f = 0, node_x = x, node_y = y \<rparr>],
     openNodes = [True], nodeTable = [node_key x y \<mapsto> 0], closedNodes = 0 \<rparr>"

definition createOpenNode :: "nat \<Rightarrow> u16 \<Rightarrow> u16 \<Rightarrow> int \<Rightarrow> astar \<Rightarrow> astar option" where
  "createOpenNode p x y f s =
     (if length (nodes s) \<ge> MAX_NODES then None
      else Some (s\<lparr> nodes := nodes s @ [\<lparr> node_parent = Some p, node_f = f, node_x = x, node_y = y \<rparr>],
                    openNodes := openNodes s @ [True],
                    nodeTable := (nodeTable s)(node_key x y \<mapsto> length (nodes s)) \<rparr>))"

fun best_node :: "node list \<Rightarrow> bool list \<Rightarrow> nat \<Rightarrow> int \<Rightarrow> nat option \<Rightarrow> nat option" where
  "best_node (n # ns) (opened # os) i best_node_f best =
     (if opened \<and> node_f n < best_node_f then best_node ns os (i + 1) (node_f n) (Some i)
      else best_node ns os (i + 1) best_node_f best)"
| "best_node _ _ i best_node_f best = best"

definition getBestNode :: "astar \<Rightarrow> nat option" where
  "getBestNode s = best_node (nodes s) (openNodes s) 0 (2 ^ 31 - 1) None"

definition closeNode :: "nat \<Rightarrow> astar \<Rightarrow> astar" where
  "closeNode i s = s\<lparr> openNodes := (openNodes s)[i := False], closedNodes := closedNodes s + 1 \<rparr>"

definition openNode :: "nat \<Rightarrow> astar \<Rightarrow> astar" where
  "openNode i s =
     (if openNodes s ! i then s
      else s\<lparr> openNodes := (openNodes s)[i := True], closedNodes := closedNodes s - 1 \<rparr>)"

definition getNodeByPosition :: "u16 \<Rightarrow> u16 \<Rightarrow> astar \<Rightarrow> nat option" where
  "getNodeByPosition x y s = nodeTable s (node_key x y)"

definition getMapWalkCost :: "u16 \<Rightarrow> u16 \<Rightarrow> position \<Rightarrow> int" where
  "getMapWalkCost x y neighborPos =
     (if \<bar>uint x - getX neighborPos\<bar> = \<bar>uint y - getY neighborPos\<bar> then MAP_DIAGONALWALKCOST
      else MAP_NORMALWALKCOST)"

definition getTileWalkCost :: "path_world \<Rightarrow> position \<Rightarrow> int" where
  "getTileWalkCost w pos =
     (if creature_on w pos then MAP_NORMALWALKCOST * 3 else 0) +
     (if harmful_field w pos then MAP_NORMALWALKCOST * 18 else 0)"

section \<open>The search\<close>

fun dirNeighbors :: "Direction \<Rightarrow> (int \<times> int) list" where
  "dirNeighbors DIRECTION_NORTH = [(-1, 0), (0, 1), (1, 0), (1, 1), (-1, 1)]"
| "dirNeighbors DIRECTION_EAST = [(-1, 0), (0, 1), (0, -1), (-1, -1), (-1, 1)]"
| "dirNeighbors DIRECTION_SOUTH = [(-1, 0), (1, 0), (0, -1), (-1, -1), (1, -1)]"
| "dirNeighbors DIRECTION_WEST = [(0, 1), (1, 0), (0, -1), (1, -1), (1, 1)]"
| "dirNeighbors DIRECTION_SOUTHWEST = [(1, 0), (0, -1), (-1, -1), (1, -1), (1, 1)]"
| "dirNeighbors DIRECTION_SOUTHEAST = [(-1, 0), (0, -1), (-1, -1), (1, -1), (-1, 1)]"
| "dirNeighbors DIRECTION_NORTHWEST = [(0, 1), (1, 0), (1, -1), (1, 1), (-1, 1)]"
| "dirNeighbors DIRECTION_NORTHEAST = [(-1, 0), (0, 1), (-1, -1), (1, 1), (-1, 1)]"
| "dirNeighbors DIRECTION_NONE = []"

definition allNeighbors :: "(int \<times> int) list" where
  "allNeighbors = [(-1, 0), (0, 1), (1, 0), (0, -1), (-1, -1), (1, -1), (1, 1), (-1, 1)]"

definition came_from :: "path_params \<Rightarrow> int \<Rightarrow> int \<Rightarrow> Direction" where
  "came_from fpp offset_x offset_y =
     (if offset_y = 0 then (if offset_x = -1 then DIRECTION_WEST else DIRECTION_EAST)
      else if \<not> allowDiagonal fpp \<or> offset_x = 0 then
        (if offset_y = -1 then DIRECTION_NORTH else DIRECTION_SOUTH)
      else if offset_y = -1 then (if offset_x = -1 then DIRECTION_NORTHWEST else DIRECTION_NORTHEAST)
      else if offset_x = -1 then DIRECTION_SOUTHWEST
      else DIRECTION_SOUTHEAST)"

definition neighbors :: "path_params \<Rightarrow> astar \<Rightarrow> node \<Rightarrow> (int \<times> int) list" where
  "neighbors fpp s n =
     (case node_parent n of
        None \<Rightarrow> allNeighbors
      | Some p \<Rightarrow>
          take (if allowDiagonal fpp then 5 else 3)
            (dirNeighbors (came_from fpp (uint (node_x (nodes s ! p)) - uint (node_x n))
                             (uint (node_y (nodes s ! p)) - uint (node_y n)))))"

text \<open>The loop over the neighbours of node n; False when there is no room for another node.\<close>

fun expand :: "path_world \<Rightarrow> path_params \<Rightarrow> position \<Rightarrow> position \<Rightarrow> nat \<Rightarrow> node \<Rightarrow> (int \<times> int) list \<Rightarrow> astar
    \<Rightarrow> bool \<times> astar" where
  "expand w fpp targetPos startPos n nd [] s = (True, s)"
| "expand w fpp targetPos startPos n nd ((ox, oy) # rest) s =
     (let px = node_x nd + word_of_int ox;
          py = node_y nd + word_of_int oy;
          pos = Position px py (pos_z startPos);
          newf = node_f nd + getMapWalkCost (node_x nd) (node_y nd) pos + getTileWalkCost w pos
      in if maxSearchDist fpp \<noteq> 0 \<and>
            (getDistanceX startPos pos > maxSearchDist fpp \<or> getDistanceY startPos pos > maxSearchDist fpp)
         then expand w fpp targetPos startPos n nd rest s
         else if keepDistance fpp \<and> \<not> isInRange fpp targetPos startPos pos
         then expand w fpp targetPos startPos n nd rest s
         else
           (case getNodeByPosition px py s of
              Some j \<Rightarrow>
                if node_f (nodes s ! j) \<le> newf then expand w fpp targetPos startPos n nd rest s
                else expand w fpp targetPos startPos n nd rest
                  (openNode j (s\<lparr> nodes := (nodes s)[j := (nodes s ! j)\<lparr> node_parent := Some n, node_f := newf \<rparr>] \<rparr>))
            | None \<Rightarrow>
                if \<not> canWalkTo w pos then expand w fpp targetPos startPos n nd rest s
                else
                  (case createOpenNode n px py newf s of
                     None \<Rightarrow> (False, s)
                   | Some s' \<Rightarrow> expand w fpp targetPos startPos n nd rest s')))"

record search =
  grid :: astar
  found :: "nat option"
  endPos :: position
  bestMatch :: int

text \<open>One round on the best open node; the flag says that the search stops.\<close>

definition visit_node :: "path_world \<Rightarrow> path_params \<Rightarrow> position \<Rightarrow> position \<Rightarrow> nat \<Rightarrow> search
    \<Rightarrow> (bool \<times> search) option" where
  "visit_node w fpp targetPos startPos n st =
     (let nd = nodes (grid st) ! n;
          pos = Position (node_x nd) (node_y nd) (pos_z startPos)
      in do {
           (hit, bestMatch') \<leftarrow> pathCondition w fpp targetPos startPos pos (bestMatch st);
           let st1 = (if hit then st\<lparr> found := Some n, endPos := pos, bestMatch := bestMatch' \<rparr>
                      else st\<lparr> bestMatch := bestMatch' \<rparr>)
           in if hit \<and> bestMatch' = 0 then Some (True, st1)
              else
                (case expand w fpp targetPos startPos n nd (neighbors fpp (grid st1) nd) (grid st1) of
                   (room, g) \<Rightarrow>
                     if \<not> room \<and> found st1 = None then Some (True, st1\<lparr> grid := g \<rparr>)
                     else Some (False, st1\<lparr> grid := closeNode n g \<rparr>))
         })"

partial_function (option) search_loop ::
  "path_world \<Rightarrow> path_params \<Rightarrow> position \<Rightarrow> position \<Rightarrow> search \<Rightarrow> search option" where
  "search_loop w fpp targetPos startPos st =
     (if \<not> (maxSearchDist fpp \<noteq> 0 \<or> closedNodes (grid st) < 100) then Some st
      else
        (case getBestNode (grid st) of
           None \<Rightarrow> Some st
         | Some n \<Rightarrow>
             Option.bind (visit_node w fpp targetPos startPos n st)
               (\<lambda>r. if fst r then Some (snd r) else search_loop w fpp targetPos startPos (snd r))))"

text \<open>The walk back from the node found; dx and dy lead from a node to its parent.\<close>

definition step_direction :: "int \<Rightarrow> int \<Rightarrow> Direction option" where
  "step_direction dx dy =
     (if dx = 1 \<and> dy = 1 then Some DIRECTION_NORTHWEST
      else if dx = -1 \<and> dy = 1 then Some DIRECTION_NORTHEAST
      else if dx = 1 \<and> dy = -1 then Some DIRECTION_SOUTHWEST
      else if dx = -1 \<and> dy = -1 then Some DIRECTION_SOUTHEAST
      else if dx = 1 then Some DIRECTION_WEST
      else if dx = -1 then Some DIRECTION_EAST
      else if dy = 1 then Some DIRECTION_NORTH
      else if dy = -1 then Some DIRECTION_SOUTH
      else None)"

partial_function (option) walk_back :: "node list \<Rightarrow> nat \<Rightarrow> u16 \<Rightarrow> u16 \<Rightarrow> Direction list \<Rightarrow> Direction list option" where
  "walk_back ns m prevx prevy dirList =
     (let n = ns ! m;
          dirs = (case step_direction (uint (node_x n) - uint prevx) (uint (node_y n) - uint prevy) of
                    None \<Rightarrow> dirList
                  | Some d \<Rightarrow> d # dirList)
      in case node_parent n of
           None \<Rightarrow> Some dirs
         | Some p \<Rightarrow> walk_back ns p (node_x n) (node_y n) dirs)"

definition getPathMatching :: "path_world \<Rightarrow> path_params \<Rightarrow> position \<Rightarrow> position \<Rightarrow> Direction list
    \<Rightarrow> (bool \<times> Direction list) option" where
  "getPathMatching w fpp targetPos startPos dirList =
     Option.bind
       (search_loop w fpp targetPos startPos
          \<lparr> grid = new_astar (pos_x startPos) (pos_y startPos), found = None, endPos = Position 0 0 0,
            bestMatch = 0 \<rparr>)
       (\<lambda>st.
          case found st of
            None \<Rightarrow> Some (False, dirList)
          | Some n \<Rightarrow>
              (case node_parent (nodes (grid st) ! n) of
                 None \<Rightarrow> Some (True, dirList)
               | Some p \<Rightarrow>
                   map_option (Pair True)
                     (walk_back (nodes (grid st)) p (pos_x (endPos st)) (pos_y (endPos st)) dirList)))"

end
