(* ===== verification/PathSearch.thy ===== *)
theory PathSearch
  imports Pathfinding
begin

text \<open>
  Correctness of the path search: the nodes form a tree of steps on squares where the creature can walk,
  their costs grow away from the start, the search ends, and the directions it returns lead along such
  squares to a position that meets the condition.
\<close>

section \<open>Keys and squares\<close>

lemma node_key_inj: "node_key x y = node_key x' y' \<longleftrightarrow> x = x' \<and> y = y'"
proof
  assume eq: "node_key x y = node_key x' y'"
  have high: "\<not> bit v (i + 16)" for v :: u16 and i
    using bit_imp_le_length [of v "i + 16"] by auto
  have "bit x i = bit x' i" if "i < 16" for i
    using arg_cong [OF eq, of "\<lambda>k. bit k (i + 16)"] that
    by (simp add: node_key_def bit_or_iff bit_push_bit_iff bit_simps high)
  moreover have "bit y i = bit y' i" if "i < 16" for i
    using arg_cong [OF eq, of "\<lambda>k. bit k i"] that
    by (simp add: node_key_def bit_or_iff bit_push_bit_iff bit_simps)
  ultimately show "x = x' \<and> y = y'"
    by (auto intro!: bit_word_eqI)
qed simp

definition step_of :: "int \<times> int \<Rightarrow> bool" where
  "step_of d \<longleftrightarrow> fst d \<in> {-1, 0, 1} \<and> snd d \<in> {-1, 0, 1} \<and> d \<noteq> (0, 0)"

lemma dirNeighbors_steps: "d \<in> set (dirNeighbors dir) \<Longrightarrow> step_of d"
  by (cases dir) (auto simp: step_of_def)

lemma neighbors_steps: "d \<in> set (neighbors fpp s n) \<Longrightarrow> step_of d"
proof (cases "node_parent n")
  case None
  assume "d \<in> set (neighbors fpp s n)"
  with None show ?thesis by (auto simp: neighbors_def allNeighbors_def step_of_def)
next
  case (Some p)
  assume "d \<in> set (neighbors fpp s n)"
  with Some show ?thesis by (auto simp: neighbors_def dest!: in_set_takeD intro: dirNeighbors_steps)
qed

definition adjacent :: "u16 \<Rightarrow> u16 \<Rightarrow> u16 \<Rightarrow> u16 \<Rightarrow> bool" where
  "adjacent x y x' y' \<longleftrightarrow> (\<exists>d. step_of d \<and> x' = x + word_of_int (fst d) \<and> y' = y + word_of_int (snd d))"

lemma step_moves:
  assumes "step_of (ox, oy)"
  shows "x + word_of_int ox \<noteq> x \<or> y + word_of_int oy \<noteq> (y :: u16)"
  using assms by (auto simp: step_of_def)

text \<open>Away from the edge of the map a step back is the direction that the search returns.\<close>

lemma step_direction_adjacent:
  assumes "adjacent x y x' y'" and "x \<noteq> 0" "y \<noteq> 0" "x' \<noteq> 0" "y' \<noteq> 0"
  shows "\<exists>d. step_direction (uint x - uint x') (uint y - uint y') = Some d \<and>
    getNextPosition d (Position x y z) = Position x' y' z"
proof -
  have nz: "uint v = 0 \<longleftrightarrow> v = 0" for v :: u16 by (metis word_uint_eq_iff uint_0_eq)
  have up: "uint (v + 1) = uint v + 1" if "v + 1 \<noteq> 0" for v :: u16
    using uint16_add1 [of v] that nz [of "v + 1"] by (auto split: if_splits)
  have down: "uint (v - 1) = uint v - 1" if "v \<noteq> 0" for v :: u16
    using uint16_sub1 [of v] that nz [of v] by (auto split: if_splits)
  from assms(1) obtain ox oy where d: "step_of (ox, oy)"
    and x': "x' = x + word_of_int ox" and y': "y' = y + word_of_int oy"
    by (auto simp: adjacent_def)
  have ox: "ox = -1 \<or> ox = 0 \<or> ox = 1" and oy: "oy = -1 \<or> oy = 0 \<or> oy = 1" and ne: "ox \<noteq> 0 \<or> oy \<noteq> 0"
    using d by (auto simp: step_of_def)
  have ux: "uint x' = uint x + ox"
    using ox x' up [of x] down [OF assms(2)] assms(4) by (elim disjE) simp_all
  have uy: "uint y' = uint y + oy"
    using oy y' up [of y] down [OF assms(3)] assms(5) by (elim disjE) simp_all
  have dx: "uint x - uint x' = - ox" and dy: "uint y - uint y' = - oy" by (simp_all add: ux uy)
  show ?thesis
    unfolding dx dy unfolding x' y'
    using ox oy ne by (elim disjE) (simp_all add: step_direction_def getNextPosition_def)
qed

section \<open>The invariant\<close>

definition node_pos :: "u8 \<Rightarrow> node \<Rightarrow> position" where
  "node_pos z n = Position (node_x n) (node_y n) z"

text \<open>Every node but the first has a parent next to it that is cheaper.\<close>

definition tree_ok :: "path_world \<Rightarrow> position \<Rightarrow> node list \<Rightarrow> bool" where
  "tree_ok w startPos ns \<longleftrightarrow>
     0 < length ns \<and> length ns \<le> MAX_NODES \<and>
     ns ! 0 = \<lparr> node_parent = None, node_f = 0, node_x = pos_x startPos, node_y = pos_y startPos \<rparr> \<and>
     (\<forall>i<length ns. 0 \<le> node_f (ns ! i) \<and> node_f (ns ! i) \<le> 235 * int i) \<and>
     (\<forall>i<length ns. i \<noteq> 0 \<longrightarrow>
        (\<exists>p. node_parent (ns ! i) = Some p \<and> p < length ns \<and> node_f (ns ! p) < node_f (ns ! i) \<and>
           adjacent (node_x (ns ! p)) (node_y (ns ! p)) (node_x (ns ! i)) (node_y (ns ! i)) \<and>
           canWalkTo w (node_pos (pos_z startPos) (ns ! i))))"

definition table_ok :: "astar \<Rightarrow> bool" where
  "table_ok s \<longleftrightarrow>
     length (openNodes s) = length (nodes s) \<and>
     (\<forall>i<length (nodes s). nodeTable s (node_key (node_x (nodes s ! i)) (node_y (nodes s ! i))) = Some i) \<and>
     (\<forall>k i. nodeTable s k = Some i \<longrightarrow>
        i < length (nodes s) \<and> k = node_key (node_x (nodes s ! i)) (node_y (nodes s ! i)))"

definition astar_ok :: "path_world \<Rightarrow> position \<Rightarrow> astar \<Rightarrow> bool" where
  "astar_ok w startPos s \<longleftrightarrow> tree_ok w startPos (nodes s) \<and> table_ok s"

lemma tree_okD:
  assumes "tree_ok w startPos ns"
  shows "0 < length ns" and "length ns \<le> MAX_NODES" and "node_parent (ns ! 0) = None" and "node_f (ns ! 0) = 0"
    and "node_x (ns ! 0) = pos_x startPos" and "node_y (ns ! 0) = pos_y startPos"
    and "\<And>i. i < length ns \<Longrightarrow> 0 \<le> node_f (ns ! i) \<and> node_f (ns ! i) \<le> 235 * int i"
  using assms by (auto simp: tree_ok_def)

lemma tree_ok_parent:
  assumes "tree_ok w startPos ns" and "i < length ns" and "i \<noteq> 0"
  obtains p where "node_parent (ns ! i) = Some p" and "p < length ns" and "node_f (ns ! p) < node_f (ns ! i)"
    and "adjacent (node_x (ns ! p)) (node_y (ns ! p)) (node_x (ns ! i)) (node_y (ns ! i))"
    and "canWalkTo w (node_pos (pos_z startPos) (ns ! i))"
  using assms unfolding tree_ok_def by blast

lemma new_astar_ok: "astar_ok w startPos (new_astar (pos_x startPos) (pos_y startPos))"
  by (auto simp: astar_ok_def tree_ok_def table_ok_def new_astar_def MAX_NODES_def split: if_splits)

lemma look_up_table:
  assumes "table_ok s"
  shows "getNodeByPosition x y s = Some j \<longleftrightarrow>
    j < length (nodes s) \<and> node_x (nodes s ! j) = x \<and> node_y (nodes s ! j) = y"
  using assms unfolding table_ok_def getNodeByPosition_def by (metis node_key_inj)

section \<open>Costs\<close>

lemma costs: "10 \<le> getMapWalkCost x y pos" "getMapWalkCost x y pos \<le> 25"
  "0 \<le> getTileWalkCost w pos" "getTileWalkCost w pos \<le> 210"
  by (auto simp: getMapWalkCost_def getTileWalkCost_def MAP_DIAGONALWALKCOST_def MAP_NORMALWALKCOST_def)

section \<open>A round keeps the tree\<close>

text \<open>What the nodes keep when the search goes on: their squares, and costs that only fall.\<close>

definition grows :: "node list \<Rightarrow> node list \<Rightarrow> bool" where
  "grows ns ns' \<longleftrightarrow> length ns \<le> length ns' \<and>
     (\<forall>i<length ns. node_x (ns' ! i) = node_x (ns ! i) \<and> node_y (ns' ! i) = node_y (ns ! i))"

lemma grows_refl [simp]: "grows ns ns" by (simp add: grows_def)

lemma grows_trans: "grows ns ns1 \<Longrightarrow> grows ns1 ns2 \<Longrightarrow> grows ns ns2"
  by (auto simp: grows_def)

lemma update_tree:
  assumes ok: "tree_ok w startPos ns" and j: "j < length ns" and n: "n < length ns" and "n \<noteq> j"
    and less: "f < node_f (ns ! j)" and up: "node_f (ns ! n) < f"
    and adj: "adjacent (node_x (ns ! n)) (node_y (ns ! n)) (node_x (ns ! j)) (node_y (ns ! j))"
  shows "tree_ok w startPos (ns[j := (ns ! j)\<lparr> node_parent := Some n, node_f := f \<rparr>])" (is "tree_ok w startPos ?ns")
proof -
  have "0 \<le> node_f (ns ! n)" using tree_okD(7) [OF ok n] by blast
  then have "0 < f" using up by simp
  then have "j \<noteq> 0" using less tree_okD(4) [OF ok] by (cases j) simp_all
  have nth: "?ns ! i = (if i = j then (ns ! j)\<lparr> node_parent := Some n, node_f := f \<rparr> else ns ! i)" if "i < length ns" for i
    using that j by simp
  have fall: "node_f (?ns ! i) \<le> node_f (ns ! i)" if "i < length ns" for i
    using nth [OF that] less by simp
  have "\<exists>p. node_parent (?ns ! i) = Some p \<and> p < length ?ns \<and> node_f (?ns ! p) < node_f (?ns ! i) \<and>
      adjacent (node_x (?ns ! p)) (node_y (?ns ! p)) (node_x (?ns ! i)) (node_y (?ns ! i)) \<and>
      canWalkTo w (node_pos (pos_z startPos) (?ns ! i))" if i: "i < length ?ns" "i \<noteq> 0" for i
  proof -
    have i': "i < length ns" using i by simp
    obtain p where p: "node_parent (ns ! i) = Some p" "p < length ns" "node_f (ns ! p) < node_f (ns ! i)"
      "adjacent (node_x (ns ! p)) (node_y (ns ! p)) (node_x (ns ! i)) (node_y (ns ! i))"
      "canWalkTo w (node_pos (pos_z startPos) (ns ! i))"
      using tree_ok_parent [OF ok i' i(2)] by blast
    show ?thesis
    proof (cases "i = j")
      case True
      have "node_f (?ns ! n) < f" using nth [OF n] up \<open>n \<noteq> j\<close> by simp
      with True adj n p(5) nth [OF n] \<open>n \<noteq> j\<close> j show ?thesis by (simp add: node_pos_def)
    next
      case False
      have "node_f (?ns ! p) < node_f (?ns ! i)" using fall [OF p(2)] p(3) nth [OF i'] False by simp
      moreover have "node_x (?ns ! p) = node_x (ns ! p)" "node_y (?ns ! p) = node_y (ns ! p)"
        using nth [OF p(2)] by simp_all
      ultimately show ?thesis using p nth [OF i'] False by simp
    qed
  qed
  moreover have "0 \<le> node_f (?ns ! i) \<and> node_f (?ns ! i) \<le> 235 * int i" if "i < length ?ns" for i
  proof -
    have i: "i < length ns" using that by simp
    have "0 \<le> node_f (?ns ! i)" using \<open>0 < f\<close> tree_okD(7) [OF ok i] unfolding nth [OF i] by simp
    then show ?thesis using fall [OF i] tree_okD(7) [OF ok i] by linarith
  qed
  moreover have "?ns ! 0 = ns ! 0" using \<open>j \<noteq> 0\<close> by simp
  ultimately show ?thesis using ok unfolding tree_ok_def by simp
qed

lemma append_tree:
  assumes ok: "tree_ok w startPos ns" and n: "n < length ns" and room: "length ns < MAX_NODES"
    and up: "node_f (ns ! n) < f" "f \<le> node_f (ns ! n) + 235"
    and adj: "adjacent (node_x (ns ! n)) (node_y (ns ! n)) x y" and walk: "canWalkTo w (Position x y (pos_z startPos))"
  shows "tree_ok w startPos (ns @ [\<lparr> node_parent = Some n, node_f = f, node_x = x, node_y = y \<rparr>])"
    (is "tree_ok w startPos (ns @ [?new])")
proof -
  let ?ns = "ns @ [?new]"
  have old: "?ns ! i = ns ! i" if "i < length ns" for i using that by (simp add: nth_append)
  have last: "?ns ! length ns = ?new" by simp
  have f: "0 \<le> f \<and> f \<le> 235 * int (length ns)"
    using tree_okD(7) [OF ok n] up n by linarith
  have "\<exists>p. node_parent (?ns ! i) = Some p \<and> p < length ?ns \<and> node_f (?ns ! p) < node_f (?ns ! i) \<and>
      adjacent (node_x (?ns ! p)) (node_y (?ns ! p)) (node_x (?ns ! i)) (node_y (?ns ! i)) \<and>
      canWalkTo w (node_pos (pos_z startPos) (?ns ! i))" if i: "i < length ?ns" "i \<noteq> 0" for i
  proof (cases "i < length ns")
    case True
    obtain p where p: "node_parent (ns ! i) = Some p" "p < length ns" "node_f (ns ! p) < node_f (ns ! i)"
      "adjacent (node_x (ns ! p)) (node_y (ns ! p)) (node_x (ns ! i)) (node_y (ns ! i))"
      "canWalkTo w (node_pos (pos_z startPos) (ns ! i))"
      using tree_ok_parent [OF ok True i(2)] by blast
    then show ?thesis using old [OF True] old [OF p(2)] by (intro exI [of _ p]) simp
  next
    case False
    with i(1) have "?ns ! i = ?new" by (simp add: nth_append)
    then show ?thesis using n up(1) adj walk old [OF n] by (intro exI [of _ n]) (simp add: node_pos_def)
  qed
  moreover have "0 \<le> node_f (?ns ! i) \<and> node_f (?ns ! i) \<le> 235 * int i" if "i < length ?ns" for i
  proof (cases "i < length ns")
    case True
    then show ?thesis using old [OF True] tree_okD(7) [OF ok True] by simp
  next
    case False
    with that have "i = length ns" by simp
    with f show ?thesis by simp
  qed
  moreover have "?ns ! 0 = ns ! 0" using tree_okD(1) [OF ok] by (simp add: nth_append)
  ultimately show ?thesis using ok room unfolding tree_ok_def by simp
qed

section \<open>Progress\<close>

text \<open>A round adds nodes, makes nodes cheaper or leaves the nodes as they are.\<close>

definition cost_sum :: "node list \<Rightarrow> nat" where
  "cost_sum ns = sum_list (map (nat \<circ> node_f) ns)"

definition room_left :: "astar \<Rightarrow> nat" where
  "room_left s = MAX_NODES - length (nodes s)"

definition progress :: "astar \<Rightarrow> astar \<Rightarrow> bool" where
  "progress s s' \<longleftrightarrow> s' = s \<or> room_left s' < room_left s \<or>
     room_left s' = room_left s \<and> cost_sum (nodes s') < cost_sum (nodes s)"

lemma progress_refl [simp]: "progress s s" by (simp add: progress_def)

lemma progress_trans: "progress s s1 \<Longrightarrow> progress s1 s2 \<Longrightarrow> progress s s2"
  unfolding progress_def by auto

lemma cost_sum_update:
  assumes "j < length ns" and "nat (node_f n) < nat (node_f (ns ! j))"
  shows "cost_sum (ns[j := n]) < cost_sum ns"
  using assms
proof (induction ns arbitrary: j)
  case (Cons m ns)
  then show ?case by (cases j) (auto simp: cost_sum_def)
qed simp

text \<open>What a step of the inner loop on node n keeps.\<close>

definition keeps :: "path_world \<Rightarrow> position \<Rightarrow> nat \<Rightarrow> astar \<Rightarrow> astar \<Rightarrow> bool" where
  "keeps w startPos n s s' \<longleftrightarrow> astar_ok w startPos s' \<and> grows (nodes s) (nodes s') \<and>
     node_f (nodes s' ! n) = node_f (nodes s ! n) \<and> progress s s'"

lemma keeps_refl: "astar_ok w startPos s \<Longrightarrow> keeps w startPos n s s" by (simp add: keeps_def)

lemma keeps_trans: "keeps w startPos n s s1 \<Longrightarrow> keeps w startPos n s1 s2 \<Longrightarrow> keeps w startPos n s s2"
  unfolding keeps_def by (metis grows_trans progress_trans)

lemma openNode_simps [simp]: "nodes (openNode j s) = nodes s" "nodeTable (openNode j s) = nodeTable s"
  "length (openNodes (openNode j s)) = length (openNodes s)"
  by (simp_all add: openNode_def)

lemma closeNode_simps [simp]: "nodes (closeNode j s) = nodes s" "nodeTable (closeNode j s) = nodeTable s"
  "openNodes (closeNode j s) = (openNodes s)[j := False]"
  by (simp_all add: closeNode_def)

lemma table_update:
  assumes "table_ok s" and "j < length (nodes s)" and "node_x m = node_x (nodes s ! j)" "node_y m = node_y (nodes s ! j)"
  shows "table_ok (openNode j (s\<lparr> nodes := (nodes s)[j := m] \<rparr>))"
proof -
  have same: "node_x ((nodes s)[j := m] ! i) = node_x (nodes s ! i)"
    "node_y ((nodes s)[j := m] ! i) = node_y (nodes s ! i)" if "i < length (nodes s)" for i
    using that assms(3,4) by (cases "i = j"; simp)+
  show ?thesis using assms(1) same unfolding table_ok_def by auto
qed

lemma table_append:
  assumes ok: "table_ok s" and new: "getNodeByPosition x y s = None" and s': "createOpenNode n x y f s = Some s'"
  shows "table_ok s'"
proof -
  let ?new = "\<lparr> node_parent = Some n, node_f = f, node_x = x, node_y = y \<rparr>"
  have s'_eq: "nodes s' = nodes s @ [?new]" "openNodes s' = openNodes s @ [True]"
    "nodeTable s' = (nodeTable s)(node_key x y \<mapsto> length (nodes s))"
    using s' by (auto simp: createOpenNode_def split: if_splits)
  have free: "nodeTable s (node_key x y) = None" using new by (simp add: getNodeByPosition_def)
  have dom: "nodeTable s k = Some i \<Longrightarrow> i < length (nodes s)" for k i using ok unfolding table_ok_def by blast
  have key: "nodeTable s (node_key (node_x (nodes s ! i)) (node_y (nodes s ! i))) = Some i" if "i < length (nodes s)" for i
    using ok that unfolding table_ok_def by blast
  have entry: "k = node_key (node_x (nodes s ! i)) (node_y (nodes s ! i))" if "nodeTable s k = Some i" for k i
    using ok that unfolding table_ok_def by blast
  let ?k = "\<lambda>i. node_key (node_x (nodes s' ! i)) (node_y (nodes s' ! i))"
  have old: "?k i = node_key (node_x (nodes s ! i)) (node_y (nodes s ! i))" if "i < length (nodes s)" for i
    using that by (simp add: s'_eq(1) nth_append)
  have last: "?k (length (nodes s)) = node_key x y" by (simp add: s'_eq(1))
  have "nodeTable s' (?k i) = Some i" if "i < length (nodes s')" for i
  proof (cases "i = length (nodes s)")
    case True
    with last show ?thesis by (simp add: s'_eq(3))
  next
    case False
    with that have i: "i < length (nodes s)" by (simp add: s'_eq(1))
    have "?k i \<noteq> node_key x y" using key [OF i] free unfolding old [OF i] by auto
    with key [OF i] show ?thesis unfolding old [OF i] by (simp add: s'_eq(3))
  qed
  moreover have "i < length (nodes s') \<and> k = ?k i" if "nodeTable s' k = Some i" for k i
  proof (cases "k = node_key x y")
    case True
    with that have "i = length (nodes s)" by (simp add: s'_eq(3))
    with True last show ?thesis by (simp add: s'_eq(1))
  next
    case False
    with that have k: "nodeTable s k = Some i" by (simp add: s'_eq(3))
    with dom [OF k] entry [OF k] old show ?thesis by (simp add: s'_eq(1))
  qed
  moreover have "length (openNodes s') = length (nodes s')"
    using ok by (simp add: table_ok_def s'_eq(1,2))
  ultimately show ?thesis unfolding table_ok_def by blast
qed

lemma reopen_keeps:
  assumes ok: "astar_ok w startPos s" and n: "n < length (nodes s)" and j: "j < length (nodes s)" and "n \<noteq> j"
    and less: "f < node_f (nodes s ! j)" and up: "node_f (nodes s ! n) < f"
    and adj: "adjacent (node_x (nodes s ! n)) (node_y (nodes s ! n)) (node_x (nodes s ! j)) (node_y (nodes s ! j))"
  shows "keeps w startPos n s
    (openNode j (s\<lparr> nodes := (nodes s)[j := (nodes s ! j)\<lparr> node_parent := Some n, node_f := f \<rparr>] \<rparr>))"
    (is "keeps w startPos n s ?s'")
proof -
  have tree: "tree_ok w startPos (nodes s)" and table: "table_ok s" using ok by (simp_all add: astar_ok_def)
  have "astar_ok w startPos ?s'"
    unfolding astar_ok_def using update_tree [OF tree j n \<open>n \<noteq> j\<close> less up adj] table_update [OF table j] by simp
  moreover have "0 \<le> node_f (nodes s ! n)" using tree_okD(7) [OF tree n] by simp
  then have "cost_sum (nodes ?s') < cost_sum (nodes s)"
    using j less up by (simp add: cost_sum_update)
  then have "progress s ?s'" by (simp add: progress_def room_left_def)
  ultimately show ?thesis using j \<open>n \<noteq> j\<close>
    by (auto simp: keeps_def grows_def nth_list_update)
qed

lemma create_keeps:
  assumes ok: "astar_ok w startPos s" and n: "n < length (nodes s)"
    and new: "getNodeByPosition x y s = None" and s': "createOpenNode n x y f s = Some s'"
    and up: "node_f (nodes s ! n) < f" "f \<le> node_f (nodes s ! n) + 235"
    and adj: "adjacent (node_x (nodes s ! n)) (node_y (nodes s ! n)) x y"
    and walk: "canWalkTo w (Position x y (pos_z startPos))"
  shows "keeps w startPos n s s'"
proof -
  have tree: "tree_ok w startPos (nodes s)" and table: "table_ok s" using ok by (simp_all add: astar_ok_def)
  have s'_eq: "nodes s' = nodes s @ [\<lparr> node_parent = Some n, node_f = f, node_x = x, node_y = y \<rparr>]"
    and room: "length (nodes s) < MAX_NODES"
    using s' by (auto simp: createOpenNode_def split: if_splits)
  have "astar_ok w startPos s'"
    unfolding astar_ok_def s'_eq using append_tree [OF tree n room up adj walk] table_append [OF table new s'] by simp
  moreover have "room_left s' < room_left s" using room unfolding room_left_def s'_eq by simp
  then have "progress s s'" by (simp add: progress_def)
  ultimately show ?thesis using n by (simp add: keeps_def grows_def s'_eq nth_append)
qed

lemma expand_keeps:
  assumes "astar_ok w startPos s" and "n < length (nodes s)" and "\<forall>d\<in>set ds. step_of d"
    and "node_x (nodes s ! n) = node_x nd" and "node_y (nodes s ! n) = node_y nd" and "node_f (nodes s ! n) = node_f nd"
  shows "keeps w startPos n s (snd (expand w fpp targetPos startPos n nd ds s))"
  using assms
proof (induction ds arbitrary: s)
  case Nil
  then show ?case by (simp add: keeps_refl)
next
  case (Cons d rest)
  obtain ox oy where d: "d = (ox, oy)" by (cases d)
  define px py where "px = node_x nd + word_of_int ox" and "py = node_y nd + word_of_int oy"
  define pos where "pos = Position px py (pos_z startPos)"
  define newf where "newf = node_f nd + getMapWalkCost (node_x nd) (node_y nd) pos + getTileWalkCost w pos"
  let ?ex = "expand w fpp targetPos startPos n nd rest"
  define far where "far \<longleftrightarrow> maxSearchDist fpp \<noteq> 0 \<and>
    (getDistanceX startPos pos > maxSearchDist fpp \<or> getDistanceY startPos pos > maxSearchDist fpp)"
  define off where "off \<longleftrightarrow> keepDistance fpp \<and> \<not> isInRange fpp targetPos startPos pos"
  note folds = px_def [symmetric] py_def [symmetric] pos_def [symmetric] newf_def [symmetric]
    far_def [symmetric] off_def [symmetric]
  have eq: "expand w fpp targetPos startPos n nd (d # rest) s =
    (if far then ?ex s else if off then ?ex s
     else (case getNodeByPosition px py s of
             Some j \<Rightarrow> if node_f (nodes s ! j) \<le> newf then ?ex s
               else ?ex (openNode j (s\<lparr> nodes := (nodes s)[j := (nodes s ! j)\<lparr> node_parent := Some n, node_f := newf \<rparr>] \<rparr>))
           | None \<Rightarrow> if \<not> canWalkTo w pos then ?ex s
               else (case createOpenNode n px py newf s of None \<Rightarrow> (False, s) | Some s' \<Rightarrow> ?ex s')))"
    unfolding d by (simp only: expand.simps Let_def folds)
  note ok = Cons.prems(1) and n = Cons.prems(2) and at = Cons.prems(4,5,6)
  have d_step: "step_of (ox, oy)" and rest: "\<forall>d\<in>set rest. step_of d" using Cons.prems(3) d by auto
  have adj: "adjacent (node_x (nodes s ! n)) (node_y (nodes s ! n)) px py"
    unfolding adjacent_def at px_def py_def using d_step by (intro exI [of _ "(ox, oy)"]) simp
  have up: "node_f (nodes s ! n) < newf" "newf \<le> node_f (nodes s ! n) + 235"
    using costs(1,2) [where pos = pos and x = "node_x nd" and y = "node_y nd"] costs(3,4) [of w pos]
    unfolding newf_def at by linarith+
  have on: "keeps w startPos n s (snd (?ex s'))" if s': "keeps w startPos n s s'" for s'
  proof -
    have "astar_ok w startPos s'" "n < length (nodes s')" "node_x (nodes s' ! n) = node_x nd"
      "node_y (nodes s' ! n) = node_y nd" "node_f (nodes s' ! n) = node_f nd"
      using s' n at by (auto simp: keeps_def grows_def)
    from Cons.IH [OF this(1,2) rest this(3-5)] show ?thesis using s' keeps_trans by blast
  qed
  have here: "keeps w startPos n s (snd (?ex s))" by (rule on [OF keeps_refl [OF ok]])
  show ?case
  proof (cases "far \<or> off")
    case True
    with here show ?thesis unfolding eq by (cases far; simp)
  next
    case False
    show ?thesis
    proof (cases "getNodeByPosition px py s")
      case (Some j)
      then have j: "j < length (nodes s)" "node_x (nodes s ! j) = px" "node_y (nodes s ! j) = py"
        using look_up_table [of s px py j] ok by (simp_all add: astar_ok_def)
      have "n \<noteq> j"
      proof
        assume "n = j"
        with j(2,3) at have "px = node_x nd" "py = node_y nd" by simp_all
        then show False using step_moves [OF d_step] unfolding px_def py_def by blast
      qed
      show ?thesis
      proof (cases "node_f (nodes s ! j) \<le> newf")
        case True
        with False Some here show ?thesis unfolding eq by simp
      next
        case cheaper: False
        then have "newf < node_f (nodes s ! j)" by simp
        from reopen_keeps [OF ok n j(1) \<open>n \<noteq> j\<close> this up(1)] adj j(2,3)
        have "keeps w startPos n s
          (openNode j (s\<lparr> nodes := (nodes s)[j := (nodes s ! j)\<lparr> node_parent := Some n, node_f := newf \<rparr>] \<rparr>))" by simp
        from on [OF this] False Some cheaper show ?thesis unfolding eq by simp
      qed
    next
      case None
      show ?thesis
      proof (cases "canWalkTo w pos")
        case walk: True
        show ?thesis
        proof (cases "createOpenNode n px py newf s")
          case full: None
          with False \<open>getNodeByPosition px py s = None\<close> walk keeps_refl [OF ok] show ?thesis unfolding eq by simp
        next
          case (Some s')
          from on [OF create_keeps [OF ok n None Some up adj walk [unfolded pos_def]]] False None walk Some
          show ?thesis unfolding eq by simp
        qed
      next
        case blocked: False
        with False None here show ?thesis unfolding eq by simp
      qed
    qed
  qed
qed

section \<open>The search ends\<close>

lemma in_range_near:
  assumes "isInRange fpp targetPos startPos p" and "maxTargetDist fpp \<le> 16383"
  shows "getDistanceX p targetPos \<le> 16383" and "getDistanceY p targetPos \<le> 16383"
  using assms by (auto simp: isInRange_def distance_defs getX_def getY_def Let_def split: if_splits)

lemma pathCondition_total:
  assumes "maxTargetDist fpp \<le> 16383"
  obtains hit b' where "pathCondition w fpp targetPos startPos p b = Some (hit, b')"
proof (cases "isInRange fpp targetPos startPos p")
  case True
  note near = in_range_near [OF True assms]
  have near': "getDistanceX targetPos p \<le> 16383" "getDistanceY targetPos p \<le> 16383"
    using near distance_commute [of p targetPos] by simp_all
  obtain r where r: "checkSightLine (blocks_projectile w) (holds_things w) p targetPos = Some r"
    using checkSightLine_ends [OF near] by blast
  obtain r' where r': "checkSightLine (blocks_projectile w) (holds_things w) targetPos p = Some r'"
    using checkSightLine_ends [OF near'] by blast
  have "isSightClear (blocks_projectile w) (holds_things w) p targetPos True =
      Some (pos_z p = pos_z targetPos \<and> (r \<or> r'))"
    by (simp add: isSightClear_def r r')
  with True have "\<exists>v. pathCondition w fpp targetPos startPos p b = Some v"
    unfolding pathCondition_def by (simp add: Let_def)
  then show thesis using that by auto
qed (use that in \<open>simp add: pathCondition_def\<close>)

lemma best_node_range:
  "best_node ns os i b best = Some n \<Longrightarrow> best = Some n \<or> i \<le> n \<and> n < i + length ns \<and> os ! (n - i)"
proof (induction ns os i b best rule: best_node.induct)
  case (1 m ns opened os i b best)
  show ?case
  proof (cases "opened \<and> node_f m < b")
    case True
    with 1 have "Some i = Some n \<or> i + 1 \<le> n \<and> n < i + 1 + length ns \<and> os ! (n - (i + 1))" by simp
    with True show ?thesis by (auto simp: nth_Cons')
  next
    case False
    with 1 have "best = Some n \<or> i + 1 \<le> n \<and> n < i + 1 + length ns \<and> os ! (n - (i + 1))" by simp
    then show ?thesis by (auto simp: nth_Cons')
  qed
qed simp_all

lemma getBestNode_open:
  assumes "getBestNode s = Some n"
  shows "n < length (nodes s)" and "openNodes s ! n"
  using best_node_range [OF assms [unfolded getBestNode_def]] by simp_all

definition search_ok :: "path_world \<Rightarrow> path_params \<Rightarrow> position \<Rightarrow> position \<Rightarrow> search \<Rightarrow> bool" where
  "search_ok w fpp targetPos startPos st \<longleftrightarrow> astar_ok w startPos (grid st) \<and>
     (\<forall>k. found st = Some k \<longrightarrow> k < length (nodes (grid st)) \<and>
        node_pos (pos_z startPos) (nodes (grid st) ! k) = endPos st \<and>
        (\<exists>b b'. pathCondition w fpp targetPos startPos (endPos st) b = Some (True, b')))"

definition open_count :: "astar \<Rightarrow> nat" where
  "open_count s = length (filter id (openNodes s))"

abbreviation search_order :: "(search \<times> search) set" where
  "search_order \<equiv> measures [\<lambda>st. room_left (grid st), \<lambda>st. cost_sum (nodes (grid st)), \<lambda>st. open_count (grid st)]"

lemma close_count: "i < length os \<Longrightarrow> os ! i \<Longrightarrow> length (filter id (os[i := False])) < length (filter id os)"
proof (induction os arbitrary: i)
  case (Cons o' os)
  then show ?case by (cases i) auto
qed simp

lemma closeNode_ok: "astar_ok w startPos s \<Longrightarrow> astar_ok w startPos (closeNode n s)"
  by (simp add: astar_ok_def table_ok_def)

lemma visit_progress:
  assumes ok: "search_ok w fpp targetPos startPos st" and far: "maxTargetDist fpp \<le> 16383"
    and best: "getBestNode (grid st) = Some n"
  obtains stop st' where "visit_node w fpp targetPos startPos n st = Some (stop, st')"
    and "search_ok w fpp targetPos startPos st'" and "\<not> stop \<Longrightarrow> (st', st) \<in> search_order"
proof -
  let ?s = "grid st"
  let ?nd = "nodes ?s ! n"
  let ?pos = "Position (node_x ?nd) (node_y ?nd) (pos_z startPos)"
  have s_ok: "astar_ok w startPos ?s" using ok by (simp add: search_ok_def)
  then have lens: "length (openNodes ?s) = length (nodes ?s)" by (simp add: astar_ok_def table_ok_def)
  note n = getBestNode_open [OF best]
  obtain hit b' where cond: "pathCondition w fpp targetPos startPos ?pos (bestMatch st) = Some (hit, b')"
    using pathCondition_total [OF far] by blast
  define st1 where "st1 = (if hit then st\<lparr> found := Some n, endPos := ?pos, bestMatch := b' \<rparr>
    else st\<lparr> bestMatch := b' \<rparr>)"
  have grid1: "grid st1 = ?s" by (simp add: st1_def)
  have ok1: "search_ok w fpp targetPos startPos st1"
  proof (cases hit)
    case True
    have "\<exists>b b'. pathCondition w fpp targetPos startPos ?pos b = Some (True, b')"
      using cond unfolding eqTrueI [OF True] by blast
    with True s_ok n show ?thesis unfolding search_ok_def st1_def by (simp add: node_pos_def)
  next
    case False
    with ok show ?thesis unfolding search_ok_def st1_def by simp
  qed
  obtain room g where ex: "expand w fpp targetPos startPos n ?nd (neighbors fpp ?s ?nd) ?s = (room, g)"
    by (cases "expand w fpp targetPos startPos n ?nd (neighbors fpp ?s ?nd) ?s")
  have keeps: "keeps w startPos n ?s g"
    using expand_keeps [OF s_ok n(1), of "neighbors fpp ?s ?nd" ?nd fpp targetPos] neighbors_steps ex by auto
  have ok2: "search_ok w fpp targetPos startPos (st1\<lparr> grid := g' \<rparr>)"
    if "astar_ok w startPos g'" "nodes g' = nodes g" for g'
    using ok1 keeps that unfolding search_ok_def keeps_def grows_def grid1 by (auto simp: node_pos_def)
  have order: "(st1\<lparr> grid := closeNode n g \<rparr>, st) \<in> search_order"
  proof (cases "g = ?s")
    case True
    then show ?thesis using close_count [of n "openNodes ?s"] n lens
      by (simp add: open_count_def room_left_def)
  next
    case False
    then show ?thesis using keeps by (auto simp: keeps_def progress_def room_left_def)
  qed
  have visit: "visit_node w fpp targetPos startPos n st =
      (if hit \<and> b' = 0 then Some (True, st1)
       else if \<not> room \<and> found st1 = None then Some (True, st1\<lparr> grid := g \<rparr>)
       else Some (False, st1\<lparr> grid := closeNode n g \<rparr>))"
    unfolding visit_node_def Let_def cond st1_def [symmetric] grid1 by (simp add: ex grid1 st1_def)
  have g_ok: "astar_ok w startPos g" using keeps by (simp add: keeps_def)
  consider (hit) "hit \<and> b' = 0" | (full) "\<not> (hit \<and> b' = 0)" "\<not> room \<and> found st1 = None"
    | (go) "\<not> (hit \<and> b' = 0)" "\<not> (\<not> room \<and> found st1 = None)" by blast
  then show thesis
  proof cases
    case hit
    with visit have "visit_node w fpp targetPos startPos n st = Some (True, st1)" by simp
    from that [OF this ok1] show thesis by simp
  next
    case full
    with visit have "visit_node w fpp targetPos startPos n st = Some (True, st1\<lparr> grid := g \<rparr>)" by simp
    from that [OF this ok2 [OF g_ok refl]] show thesis by simp
  next
    case go
    with visit have "visit_node w fpp targetPos startPos n st = Some (False, st1\<lparr> grid := closeNode n g \<rparr>)" by auto
    from that [OF this ok2 [OF closeNode_ok [OF g_ok]]] order show thesis by simp
  qed
qed

lemma search_ends:
  assumes "maxTargetDist fpp \<le> 16383" and "search_ok w fpp targetPos startPos st"
  shows "\<exists>st'. search_loop w fpp targetPos startPos st = Some st' \<and> search_ok w fpp targetPos startPos st'"
  using assms(2)
proof (induction st rule: wf_induct_rule [OF wf_measures, consumes 0])
  fix st
  assume IH: "\<And>st'. (st', st) \<in> search_order \<Longrightarrow> search_ok w fpp targetPos startPos st' \<Longrightarrow>
      \<exists>st''. search_loop w fpp targetPos startPos st' = Some st'' \<and> search_ok w fpp targetPos startPos st''"
    and ok: "search_ok w fpp targetPos startPos st"
  show "\<exists>st'. search_loop w fpp targetPos startPos st = Some st' \<and> search_ok w fpp targetPos startPos st'"
  proof (cases "maxSearchDist fpp \<noteq> 0 \<or> closedNodes (grid st) < 100")
    case False
    with ok show ?thesis by (subst search_loop.simps) simp
  next
    case more: True
    show ?thesis
    proof (cases "getBestNode (grid st)")
      case None
      with ok more show ?thesis by (subst search_loop.simps) simp
    next
      case (Some n)
      obtain stop st' where v: "visit_node w fpp targetPos startPos n st = Some (stop, st')"
        "search_ok w fpp targetPos startPos st'" "\<not> stop \<Longrightarrow> (st', st) \<in> search_order"
        using visit_progress [OF ok assms(1) Some] by blast
      then show ?thesis
        using more Some IH [of st'] by (subst search_loop.simps) (cases stop; simp)
    qed
  qed
qed

section \<open>The way back\<close>

text \<open>Directions that lead over squares where the creature can walk.\<close>

fun walkable_path :: "path_world \<Rightarrow> position \<Rightarrow> Direction list \<Rightarrow> position \<Rightarrow> bool" where
  "walkable_path w p [] q \<longleftrightarrow> p = q"
| "walkable_path w p (d # ds) q \<longleftrightarrow>
     canWalkTo w (getNextPosition d p) \<and> walkable_path w (getNextPosition d p) ds q"

text \<open>No square of the first column or the first row can be walked on.\<close>

definition inside_border :: "path_world \<Rightarrow> position \<Rightarrow> bool" where
  "inside_border w startPos \<longleftrightarrow> pos_x startPos \<noteq> 0 \<and> pos_y startPos \<noteq> 0 \<and>
     (\<forall>x y z. canWalkTo w (Position x y z) \<longrightarrow> x \<noteq> 0 \<and> y \<noteq> 0)"

lemma node_inside:
  assumes "tree_ok w startPos ns" and "inside_border w startPos" and "m < length ns"
  shows "node_x (ns ! m) \<noteq> 0" and "node_y (ns ! m) \<noteq> 0"
proof -
  have "node_x (ns ! m) \<noteq> 0 \<and> node_y (ns ! m) \<noteq> 0"
  proof (cases "m = 0")
    case True
    with tree_okD(5,6) [OF assms(1)] assms(2) show ?thesis by (simp add: inside_border_def)
  next
    case False
    then obtain p where "canWalkTo w (node_pos (pos_z startPos) (ns ! m))"
      using tree_ok_parent [OF assms(1,3)] by blast
    with assms(2) show ?thesis unfolding inside_border_def node_pos_def by blast
  qed
  then show "node_x (ns ! m) \<noteq> 0" "node_y (ns ! m) \<noteq> 0" by blast+
qed

lemma walk_back_ends:
  assumes tree: "tree_ok w startPos ns" and border: "inside_border w startPos"
    and "m < length ns" and "adjacent (node_x (ns ! m)) (node_y (ns ! m)) x y"
    and "canWalkTo w (Position x y (pos_z startPos))" and "walkable_path w (Position x y (pos_z startPos)) ds q"
  shows "\<exists>dirs. walk_back ns m x y ds = Some dirs \<and> walkable_path w startPos dirs q"
  using assms(3-6)
proof (induction "nat (node_f (ns ! m))" arbitrary: m x y ds rule: less_induct)
  case less
  let ?n = "ns ! m" and ?z = "pos_z startPos"
  note m = less.prems(1) and adj = less.prems(2) and walk = less.prems(3) and path = less.prems(4)
  note in_m = node_inside [OF tree border m]
  have "x \<noteq> 0" "y \<noteq> 0" using walk border unfolding inside_border_def by blast+
  then obtain d where d: "step_direction (uint (node_x ?n) - uint x) (uint (node_y ?n) - uint y) = Some d"
    "getNextPosition d (Position (node_x ?n) (node_y ?n) ?z) = Position x y ?z"
    using step_direction_adjacent [OF adj in_m] by blast
  have longer: "walkable_path w (Position (node_x ?n) (node_y ?n) ?z) (d # ds) q"
    using d(2) walk path by simp
  show ?case
  proof (cases "m = 0")
    case True
    with tree_okD(3,5,6) [OF tree] have root: "node_parent ?n = None" "Position (node_x ?n) (node_y ?n) ?z = startPos"
      by (simp_all add: position.expand)
    have "walk_back ns m x y ds = Some (d # ds)"
      using d(1) root(1) by (subst walk_back.simps) (simp add: Let_def)
    with longer root(2) show ?thesis by auto
  next
    case False
    then obtain p where p: "node_parent ?n = Some p" "p < length ns" "node_f (ns ! p) < node_f ?n"
      "adjacent (node_x (ns ! p)) (node_y (ns ! p)) (node_x ?n) (node_y ?n)"
      "canWalkTo w (node_pos ?z ?n)"
      using tree_ok_parent [OF tree m] by blast
    have "nat (node_f (ns ! p)) < nat (node_f ?n)" using p(3) tree_okD(7) [OF tree p(2)] by simp
    from less.hyps [OF this p(2) p(4) p(5) [unfolded node_pos_def] longer]
    show ?thesis using d(1) p(1) by (subst walk_back.simps) (simp add: Let_def)
  qed
qed

text \<open>
  C28:
  The search for a path ends: no node is opened again for ever, because it only gets cheaper and there
  are at most 512 nodes. Where it reports a path, its directions lead from the start, over squares where the creature can
  walk, to a position that met the condition.
\<close>

theorem path_search_correct:
  assumes "maxTargetDist fpp \<le> 16383" and border: "inside_border w startPos"
  shows "\<exists>ok dirs. getPathMatching w fpp targetPos startPos [] = Some (ok, dirs) \<and>
    (ok \<longrightarrow> (\<exists>q b b'. walkable_path w startPos dirs q \<and>
       pathCondition w fpp targetPos startPos q b = Some (True, b')))"
proof -
  let ?st = "\<lparr> grid = new_astar (pos_x startPos) (pos_y startPos), found = None, endPos = Position 0 0 0, bestMatch = 0 \<rparr>"
  have "search_ok w fpp targetPos startPos ?st" by (simp add: search_ok_def new_astar_ok)
  then obtain st where st: "search_loop w fpp targetPos startPos ?st = Some st"
    and ok: "search_ok w fpp targetPos startPos st"
    using search_ends [OF assms(1)] by blast
  let ?ns = "nodes (grid st)"
  have tree: "tree_ok w startPos ?ns" using ok by (simp add: search_ok_def astar_ok_def)
  note run = getPathMatching_def [of w fpp targetPos startPos "[]", unfolded st]
  show ?thesis
  proof (cases "found st")
    case None
    then have "getPathMatching w fpp targetPos startPos [] = Some (False, [])" by (simp add: run)
    then show ?thesis by blast
  next
    case (Some k)
    with ok have k: "k < length ?ns" and at: "node_pos (pos_z startPos) (?ns ! k) = endPos st"
      and met: "\<exists>b b'. pathCondition w fpp targetPos startPos (endPos st) b = Some (True, b')"
      by (simp_all add: search_ok_def)
    have xy: "pos_x (endPos st) = node_x (?ns ! k)" "pos_y (endPos st) = node_y (?ns ! k)"
      unfolding at [symmetric] by (simp_all add: node_pos_def)
    show ?thesis
    proof (cases "k = 0")
      case True
      with tree_okD(3,5,6) [OF tree] at have "node_parent (?ns ! k) = None" "endPos st = startPos"
        by (auto simp: node_pos_def position.expand)
      with Some met show ?thesis by (auto simp: run)
    next
      case False
      then obtain p where p: "node_parent (?ns ! k) = Some p" "p < length ?ns"
        "adjacent (node_x (?ns ! p)) (node_y (?ns ! p)) (node_x (?ns ! k)) (node_y (?ns ! k))"
        "canWalkTo w (node_pos (pos_z startPos) (?ns ! k))"
        using tree_ok_parent [OF tree k] by blast
      obtain dirs where dirs: "walk_back ?ns p (node_x (?ns ! k)) (node_y (?ns ! k)) [] = Some dirs"
        "walkable_path w startPos dirs (endPos st)"
        using walk_back_ends [OF tree border p(2,3) p(4) [unfolded node_pos_def], of "[]" "endPos st"] at
        by (auto simp: node_pos_def)
      have "getPathMatching w fpp targetPos startPos [] = Some (True, dirs)"
        using Some p(1) dirs(1) by (simp add: run xy)
      with dirs(2) met show ?thesis by blast
    qed
  qed
qed

text \<open>A plain field, and a goal two squares to the east that has to be reached within one square.\<close>

definition demo_world :: path_world where
  "demo_world = \<lparr> canWalkTo = (\<lambda>p. pos_x p \<noteq> 0 \<and> pos_y p \<noteq> 0), creature_on = (\<lambda>p. False),
     harmful_field = (\<lambda>p. False), blocks_projectile = (\<lambda>p. False), holds_things = (\<lambda>p. False) \<rparr>"

definition demo_params :: path_params where
  "demo_params = \<lparr> fullPathSearch = True, clearSight = True, allowDiagonal = True, keepDistance = False,
     maxSearchDist = 0, minTargetDist = 0, maxTargetDist = 1 \<rparr>"

declare search_loop.simps [code] and walk_back.simps [code] and sight_loop.simps [code] and floor_loop.simps [code]

lemma demo_path: "getPathMatching demo_world demo_params (Position 102 100 7) (Position 100 100 7) [] =
    Some (True, [DIRECTION_EAST])"
  by code_simp

theorem path_search_correct_witness:
  "\<exists>q b b'. walkable_path demo_world (Position 100 100 7) [DIRECTION_EAST] q \<and>
     pathCondition demo_world demo_params (Position 102 100 7) (Position 100 100 7) q b = Some (True, b')"
proof -
  have border: "inside_border demo_world (Position 100 100 7)" by (simp add: inside_border_def demo_world_def)
  have near: "maxTargetDist demo_params \<le> 16383" by (simp add: demo_params_def)
  obtain ok dirs where r: "getPathMatching demo_world demo_params (Position 102 100 7) (Position 100 100 7) [] = Some (ok, dirs)"
    "ok \<longrightarrow> (\<exists>q b b'. walkable_path demo_world (Position 100 100 7) dirs q \<and>
       pathCondition demo_world demo_params (Position 102 100 7) (Position 100 100 7) q b = Some (True, b'))"
    using path_search_correct [OF near border, of "Position 102 100 7"] by blast
  have "ok" "dirs = [DIRECTION_EAST]" using r(1) unfolding demo_path by simp_all
  with r(2) show ?thesis by blast
qed

end
