(* ===== verification/QuadTree.thy ===== *)
theory QuadTree
  imports Position
begin

text \<open>
  The tiles of the map (\<open>QTreeNode\<close>, \<open>QTreeLeafNode\<close>, \<open>Floor\<close>, \<open>Map::getTile\<close> and \<open>Map::setTile\<close> of
  \<open>map.h\<close> and \<open>map.cpp\<close>): a tree over the bits of the coordinates, whose leaves hold the tiles of eight
  by eight squares and point to the leaves south and east of them. Leaves are shared objects: the tree
  holds their indices in a list. Tiles and things are known by numbers; what a tile does with a thing
  it is given is the tile's own, so \<open>setTile\<close> says which calls it makes.
\<close>

section \<open>The tree\<close>

datatype qtree = QNull | QNode qtree qtree qtree qtree | QLeaf nat

definition FLOOR_BITS :: nat where "FLOOR_BITS = 3"
definition FLOOR_SIZE :: int where "FLOOR_SIZE = 8"
definition FLOOR_MASK :: u16 where "FLOOR_MASK = 7"
definition MAP_MAX_LAYERS :: u8 where "MAP_MAX_LAYERS = 16"

definition child_index :: "u32 \<Rightarrow> u32 \<Rightarrow> u32" where
  "child_index x y = or (drop_bit 15 (and x 0x8000)) (drop_bit 14 (and y 0x8000))"

fun child_of :: "u32 \<Rightarrow> qtree \<Rightarrow> qtree" where
  "child_of i (QNode c0 c1 c2 c3) = (if i = 0 then c0 else if i = 1 then c1 else if i = 2 then c2 else c3)"
| "child_of i t = QNull"

fun set_child_of :: "u32 \<Rightarrow> qtree \<Rightarrow> qtree \<Rightarrow> qtree" where
  "set_child_of i c (QNode c0 c1 c2 c3) =
     (if i = 0 then QNode c c1 c2 c3 else if i = 1 then QNode c0 c c2 c3
      else if i = 2 then QNode c0 c1 c c3 else QNode c0 c1 c2 c)"
| "set_child_of i c t = t"

lemma child_of_size [termination_simp]:
  "child_of i t = QNode a b c d \<Longrightarrow> Suc (size a + size b + size c + size d) < size t"
  by (cases t) (auto split: if_splits)

fun getLeafStatic :: "qtree \<Rightarrow> u32 \<Rightarrow> u32 \<Rightarrow> nat option" where
  "getLeafStatic node x y =
     (case child_of (child_index x y) node of
        QNull \<Rightarrow> None
      | QLeaf a \<Rightarrow> Some a
      | QNode c0 c1 c2 c3 \<Rightarrow> getLeafStatic (QNode c0 c1 c2 c3) (push_bit 1 x) (push_bit 1 y))"

declare getLeafStatic.simps [simp del]

fun getLeaf :: "qtree \<Rightarrow> u32 \<Rightarrow> u32 \<Rightarrow> nat option" where
  "getLeaf (QLeaf a) x y = Some a"
| "getLeaf QNull x y = None"
| "getLeaf (QNode c0 c1 c2 c3) x y =
     (let c = child_of (child_index x y) (QNode c0 c1 c2 c3)
      in if c = QNull then None else getLeaf c (push_bit 1 x) (push_bit 1 y))"

text \<open>A new leaf gets index a; the flag is \<open>newLeaf\<close>. The level would wrap at 0.\<close>

fun createLeaf :: "nat \<Rightarrow> u32 \<Rightarrow> u32 \<Rightarrow> nat \<Rightarrow> qtree \<Rightarrow> (qtree \<times> nat \<times> bool) option" where
  "createLeaf a x y level (QLeaf b) = Some (QLeaf b, b, False)"
| "createLeaf a x y (Suc l) (QNode c0 c1 c2 c3) =
     (let i = child_index x y;
          old = child_of i (QNode c0 c1 c2 c3);
          c = (if old = QNull then
                 (if Suc l \<noteq> FLOOR_BITS then QNode QNull QNull QNull QNull else QLeaf a)
               else old);
          fresh = (old = QNull \<and> Suc l = FLOOR_BITS)
      in do {
           (c', leaf, new) \<leftarrow> createLeaf a (x * 2) (y * 2) l c;
           Some (set_child_of i c' (QNode c0 c1 c2 c3), leaf, fresh \<or> new)
         })"
| "createLeaf a x y level t = None"

section \<open>Leaves and floors\<close>

record map_leaf =
  leafS :: "nat option"
  leafE :: "nat option"
  floors :: "u8 \<Rightarrow> (u16 \<Rightarrow> u16 \<Rightarrow> nat option) option"
  creature_list :: "nat list"
  player_list :: "nat list"

definition new_leaf :: map_leaf where
  "new_leaf = \<lparr> leafS = None, leafE = None, floors = Map.empty, creature_list = [], player_list = [] \<rparr>"

record tile_map =
  root :: qtree
  leaves :: "map_leaf list"

definition empty_map :: tile_map where
  "empty_map = \<lparr> root = QNode QNull QNull QNull QNull, leaves = [] \<rparr>"

definition upd_leaf :: "nat \<Rightarrow> (map_leaf \<Rightarrow> map_leaf) \<Rightarrow> 'a tile_map_scheme \<Rightarrow> 'a tile_map_scheme" where
  "upd_leaf a f m = m\<lparr> leaves := (leaves m)[a := f (leaves m ! a)] \<rparr>"

definition createFloor :: "u8 \<Rightarrow> map_leaf \<Rightarrow> map_leaf" where
  "createFloor z l = (if floors l z = None then l\<lparr> floors := (floors l)(z \<mapsto> (\<lambda>_ _. None)) \<rparr> else l)"

definition getFloor :: "u8 \<Rightarrow> map_leaf \<Rightarrow> (u16 \<Rightarrow> u16 \<Rightarrow> nat option) option" where
  "getFloor z l = floors l z"

definition getQTNode :: "u16 \<Rightarrow> u16 \<Rightarrow> 'a tile_map_scheme \<Rightarrow> nat option" where
  "getQTNode x y m = getLeafStatic (root m) (ucast x) (ucast y)"

section \<open>Tiles\<close>

definition getTile :: "u16 \<Rightarrow> u16 \<Rightarrow> u8 \<Rightarrow> 'a tile_map_scheme \<Rightarrow> nat option" where
  "getTile x y z m =
     (if z \<ge> MAP_MAX_LAYERS then None
      else
        do {
          leaf \<leftarrow> getLeafStatic (root m) (ucast x) (ucast y);
          floor \<leftarrow> getFloor z (leaves m ! leaf);
          floor (and x FLOOR_MASK) (and y FLOOR_MASK)
        })"

text \<open>A leaf that is new is linked with its neighbours.\<close>

definition link :: "u16 \<Rightarrow> u16 \<Rightarrow> nat \<Rightarrow> 'a tile_map_scheme \<Rightarrow> 'a tile_map_scheme" where
  "link x y leaf m =
     (let m1 = (case getLeaf (root m) (ucast x) (word_of_int (uint y - FLOOR_SIZE)) of
                  None \<Rightarrow> m | Some n \<Rightarrow> upd_leaf n (\<lambda>l. l\<lparr> leafS := Some leaf \<rparr>) m);
          m2 = (case getLeaf (root m1) (word_of_int (uint x - FLOOR_SIZE)) (ucast y) of
                  None \<Rightarrow> m1 | Some w \<Rightarrow> upd_leaf w (\<lambda>l. l\<lparr> leafE := Some leaf \<rparr>) m1);
          m3 = (case getLeaf (root m2) (ucast x) (word_of_int (uint y + FLOOR_SIZE)) of
                  None \<Rightarrow> m2 | Some s \<Rightarrow> upd_leaf leaf (\<lambda>l. l\<lparr> leafS := Some s \<rparr>) m2)
      in (case getLeaf (root m3) (word_of_int (uint x + FLOOR_SIZE)) (ucast y) of
            None \<Rightarrow> m3 | Some e \<Rightarrow> upd_leaf leaf (\<lambda>l. l\<lparr> leafE := Some e \<rparr>) m3))"

text \<open>
  The calls of \<open>addThing\<close> that \<open>setTile\<close> makes on a tile that is there already, in their order: the items
  of the new tile from the last to the first, then its ground. None when the tree is malformed.
\<close>

definition setTile :: "u16 \<Rightarrow> u16 \<Rightarrow> u8 \<Rightarrow> nat \<Rightarrow> nat list option \<Rightarrow> nat option \<Rightarrow> 'a tile_map_scheme
    \<Rightarrow> ((nat \<times> nat) list \<times> 'a tile_map_scheme) option" where
  "setTile x y z newTile items ground m =
     (if z \<ge> MAP_MAX_LAYERS then Some ([], m)
      else
        do {
          (tree, leaf, newLeaf) \<leftarrow> createLeaf (length (leaves m)) (ucast x) (ucast y) 15 (root m);
          let m1 = m\<lparr> root := tree, leaves := leaves m @ (if newLeaf then [new_leaf] else []) \<rparr>;
              m2 = (if newLeaf then link x y leaf m1 else m1);
              m3 = upd_leaf leaf (createFloor z) m2;
              offsetX = and x FLOOR_MASK;
              offsetY = and y FLOOR_MASK
          in do {
               floor \<leftarrow> getFloor z (leaves m3 ! leaf);
               case floor offsetX offsetY of
                 Some tile \<Rightarrow>
                   Some (map (Pair tile) (rev (case items of None \<Rightarrow> [] | Some xs \<Rightarrow> xs)) @
                         (case ground of None \<Rightarrow> [] | Some g \<Rightarrow> [(tile, g)]), m3)
               | None \<Rightarrow>
                   Some ([], upd_leaf leaf (\<lambda>l. l\<lparr> floors := (floors l)
                     (z \<mapsto> floor(offsetX := (floor offsetX)(offsetY := Some newTile))) \<rparr>) m3)
             }
        })"

section \<open>The tree as a map from squares to leaves\<close>

lemma getLeafStatic_eq: "getLeafStatic (QNode c0 c1 c2 c3) x y = getLeaf (QNode c0 c1 c2 c3) x y"
proof (induction "QNode c0 c1 c2 c3" x y arbitrary: c0 c1 c2 c3 rule: getLeafStatic.induct)
  case (1 x y)
  then show ?case
    by (subst getLeafStatic.simps) (auto simp: Let_def simp del: child_of.simps split: qtree.split)
qed

text \<open>A tree of a given depth: the nodes above, the leaves at the bottom.\<close>

fun deep :: "nat \<Rightarrow> qtree \<Rightarrow> bool" where
  "deep n QNull \<longleftrightarrow> True"
| "deep n (QLeaf a) \<longleftrightarrow> n = 0"
| "deep n (QNode c0 c1 c2 c3) \<longleftrightarrow> 0 < n \<and> deep (n - 1) c0 \<and> deep (n - 1) c1 \<and> deep (n - 1) c2 \<and> deep (n - 1) c3"

text \<open>Coordinates that take the same way through n levels.\<close>

definition same_way :: "nat \<Rightarrow> u32 \<Rightarrow> u32 \<Rightarrow> bool" where
  "same_way n x x' \<longleftrightarrow> (\<forall>i<n. bit x (15 - i) = bit x' (15 - i))"

lemma child_index_bits: "child_index x y = of_bool (bit x 15) + 2 * of_bool (bit y 15)"
proof -
  have x: "drop_bit 15 (and x 0x8000) = of_bool (bit x 15)"
    by (rule bit_word_eqI) (auto simp: bit_simps bit_and_iff bit_drop_bit_eq)
  have y: "drop_bit 14 (and y 0x8000) = 2 * of_bool (bit y 15)"
    by (rule bit_word_eqI) (auto simp: bit_simps bit_and_iff bit_drop_bit_eq le_Suc_eq)
  show ?thesis unfolding child_index_def x y by (simp add: of_bool_def)
qed

lemma child_index_eq_iff: "child_index x y = child_index x' y' \<longleftrightarrow> bit x 15 = bit x' 15 \<and> bit y 15 = bit y' 15"
  by (simp add: child_index_bits)

lemma child_index_range: "child_index x y \<in> {0, 1, 2, 3}"
  by (simp add: child_index_bits)

lemma same_way_Suc:
  assumes "n \<le> 15"
  shows "same_way (Suc n) x x' \<longleftrightarrow> bit x 15 = bit x' 15 \<and> same_way n (push_bit 1 x) (push_bit 1 x')"
proof -
  have "bit (push_bit 1 v) (15 - i) = bit v (15 - Suc i)" if "i < n" for i and v :: u32
  proof -
    have i: "1 \<le> 15 - i" "15 - i - 1 = 15 - Suc i" "possible_bit TYPE(u32) (15 - i)"
      using that assms by simp_all
    then show ?thesis unfolding bit_push_bit_iff i(2) using i(1,3) by blast
  qed
  then show ?thesis by (auto simp: same_way_def All_less_Suc2)
qed

definition is_node :: "qtree \<Rightarrow> bool" where
  "is_node t \<longleftrightarrow> (\<exists>c0 c1 c2 c3. t = QNode c0 c1 c2 c3)"

lemma getLeaf_node: "is_node t \<Longrightarrow> getLeaf t x y = getLeaf (child_of (child_index x y) t) (push_bit 1 x) (push_bit 1 y)"
  by (auto simp: is_node_def Let_def simp del: child_of.simps)

lemma deep_node: "is_node t \<Longrightarrow> deep n t \<longleftrightarrow> 0 < n \<and> (\<forall>i. deep (n - 1) (child_of i t))"
proof -
  assume "is_node t"
  then obtain c0 c1 c2 c3 where t: "t = QNode c0 c1 c2 c3" by (auto simp: is_node_def)
  have "child_of 0 t = c0" "child_of 1 t = c1" "child_of 2 t = c2" "child_of 3 t = c3" by (simp_all add: t)
  then have "(\<forall>i. deep (n - 1) (child_of i t)) \<longleftrightarrow>
      deep (n - 1) c0 \<and> deep (n - 1) c1 \<and> deep (n - 1) c2 \<and> deep (n - 1) c3"
    by (metis t child_of.simps(1))
  then show ?thesis by (simp add: t)
qed

lemma set_child_node:
  assumes "is_node t" and "i \<in> {0, 1, 2, 3}"
  shows "is_node (set_child_of i c t)"
    and "j \<in> {0, 1, 2, 3} \<Longrightarrow> child_of j (set_child_of i c t) = (if j = i then c else child_of j t)"
    and "deep n t \<Longrightarrow> deep (n - 1) c \<Longrightarrow> deep n (set_child_of i c t)"
  using assms by (auto simp: is_node_def)

lemma getLeaf_same_way:
  assumes "deep n t" and "n \<le> 13" and "same_way n x x'" and "same_way n y y'"
  shows "getLeaf t x y = getLeaf t x' y'"
  using assms
proof (induction n arbitrary: t x y x' y')
  case 0
  then show ?case by (cases t) simp_all
next
  case (Suc n)
  show ?case
  proof (cases "is_node t")
    case True
    have "child_index x y = child_index x' y'"
      using Suc.prems same_way_Suc by (simp add: child_index_eq_iff)
    moreover have "deep n (child_of i t)" for i using Suc.prems(1) deep_node [OF True] by simp
    ultimately show ?thesis
      using Suc.IH [of _ "push_bit 1 x" "push_bit 1 x'" "push_bit 1 y" "push_bit 1 y'"] Suc.prems same_way_Suc
      by (simp add: getLeaf_node [OF True])
  next
    case False
    then show ?thesis by (cases t) (auto simp: is_node_def)
  qed
qed

lemma bind_as_map:
  "Option.bind r (\<lambda>r. case r of (p, q, n) \<Rightarrow> Some (f p, q, g n)) = map_option (\<lambda>(p, q, n). (f p, q, g n)) r"
  by (cases r) auto

lemma createLeaf_node:
  assumes "is_node t"
  shows "createLeaf a x y (Suc l) t =
    (let i = child_index x y; old = child_of i t;
         c = (if old = QNull then (if Suc l \<noteq> FLOOR_BITS then QNode QNull QNull QNull QNull else QLeaf a) else old)
     in map_option (\<lambda>(c', leaf, new). (set_child_of i c' t, leaf, (old = QNull \<and> Suc l = FLOOR_BITS) \<or> new))
          (createLeaf a (push_bit 1 x) (push_bit 1 y) l c))"
proof -
  obtain c0 c1 c2 c3 where t: "t = QNode c0 c1 c2 c3" using assms by (auto simp: is_node_def)
  have push: "push_bit 1 v = v * 2" for v :: u32 by (simp add: push_bit_eq_mult)
  show ?thesis unfolding t push createLeaf.simps Let_def by (rule bind_as_map)
qed

lemma createLeaf_spec:
  assumes "deep n t" and "t \<noteq> QNull" and "n \<le> 13"
  shows "\<exists>t' leaf new. createLeaf a x y (n + 2) t = Some (t', leaf, new) \<and> deep n t' \<and>
    (is_node t \<longrightarrow> is_node t') \<and>
    (new \<longleftrightarrow> getLeaf t x y = None) \<and> leaf = (case getLeaf t x y of None \<Rightarrow> a | Some b \<Rightarrow> b) \<and>
    (\<forall>x' y'. getLeaf t' x' y' = (if same_way n x x' \<and> same_way n y y' then Some leaf else getLeaf t x' y'))"
  using assms
proof (induction n arbitrary: t x y)
  case 0
  then obtain b where "t = QLeaf b" by (cases t) auto
  then show ?case
    by (intro exI [of _ t] exI [of _ b] exI [of _ False]) (simp add: same_way_def is_node_def)
next
  case (Suc m)
  have node: "is_node t" using Suc.prems by (cases t) (auto simp: is_node_def)
  let ?i = "child_index x y" and ?x = "push_bit 1 x" and ?y = "push_bit 1 y"
  define old where "old = child_of ?i t"
  define c where "c = (if old = QNull then (if Suc (m + 2) \<noteq> FLOOR_BITS then QNode QNull QNull QNull QNull else QLeaf a) else old)"
  have old_deep: "deep m old" using Suc.prems(1) deep_node [OF node] by (simp add: old_def)
  have c: "deep m c" "c \<noteq> QNull" using old_deep by (auto simp: c_def FLOOR_BITS_def)
  obtain c' leaf new where step: "createLeaf a ?x ?y (m + 2) c = Some (c', leaf, new)" "deep m c'"
    "new \<longleftrightarrow> getLeaf c ?x ?y = None" "leaf = (case getLeaf c ?x ?y of None \<Rightarrow> a | Some b \<Rightarrow> b)"
    "\<And>x' y'. getLeaf c' x' y' = (if same_way m ?x x' \<and> same_way m ?y y' then Some leaf else getLeaf c x' y')"
    using Suc.IH [OF c] Suc.prems(3) by force
  have bottom: "m = 0 \<longleftrightarrow> Suc (m + 2) = FLOOR_BITS" by (simp add: FLOOR_BITS_def)
  let ?new = "(old = QNull \<and> Suc (m + 2) = FLOOR_BITS) \<or> new"
  let ?t = "set_child_of ?i c' t"
  have res: "createLeaf a x y (Suc m + 2) t = Some (?t, leaf, ?new)"
    unfolding add_Suc createLeaf_node [OF node] Let_def old_def [symmetric] c_def [symmetric] step(1) by simp
  have at: "getLeaf t x y = getLeaf old ?x ?y" by (simp add: getLeaf_node [OF node] old_def)
  have c_look: "getLeaf c x' y' = (if old = QNull \<and> m = 0 then Some a else getLeaf old x' y')" for x' y'
    by (simp add: c_def bottom Let_def)
  have new: "?new \<longleftrightarrow> getLeaf t x y = None"
    using step(3) unfolding at c_look by (auto simp: bottom)
  have leaf: "leaf = (case getLeaf t x y of None \<Rightarrow> a | Some b \<Rightarrow> b)"
    using step(4) unfolding at c_look by (auto split: if_splits)
  have look: "getLeaf ?t x' y' =
      (if same_way (Suc m) x x' \<and> same_way (Suc m) y y' then Some leaf else getLeaf t x' y')" for x' y'
  proof (cases "child_index x' y' = ?i")
    case True
    have "getLeaf ?t x' y' = getLeaf c' (push_bit 1 x') (push_bit 1 y')"
      using set_child_node [OF node child_index_range] child_index_range True
      by (simp add: getLeaf_node)
    also have "\<dots> = (if same_way m ?x (push_bit 1 x') \<and> same_way m ?y (push_bit 1 y') then Some leaf
        else getLeaf c (push_bit 1 x') (push_bit 1 y'))" by (rule step(5))
    also have "\<dots> = (if same_way m ?x (push_bit 1 x') \<and> same_way m ?y (push_bit 1 y') then Some leaf
        else getLeaf old (push_bit 1 x') (push_bit 1 y'))"
      unfolding c_look by (auto simp: same_way_def)
    finally have here: "getLeaf ?t x' y' = (if same_way m ?x (push_bit 1 x') \<and> same_way m ?y (push_bit 1 y')
        then Some leaf else getLeaf old (push_bit 1 x') (push_bit 1 y'))" .
    have "getLeaf old (push_bit 1 x') (push_bit 1 y') = getLeaf t x' y'"
      using True by (simp add: getLeaf_node [OF node] old_def)
    moreover have "same_way (Suc m) x x' = same_way m ?x (push_bit 1 x')"
      "same_way (Suc m) y y' = same_way m ?y (push_bit 1 y')"
      using True Suc.prems(3) same_way_Suc [of m] by (simp_all add: child_index_eq_iff)
    ultimately show ?thesis using here by simp
  next
    case False
    have "getLeaf ?t x' y' = getLeaf t x' y'"
      using set_child_node [OF node child_index_range] child_index_range False
      by (simp add: getLeaf_node [OF node] getLeaf_node)
    moreover have "\<not> (same_way (Suc m) x x' \<and> same_way (Suc m) y y')"
      using False Suc.prems(3) same_way_Suc [of m] by (auto simp: child_index_eq_iff)
    ultimately show ?thesis by auto
  qed
  have "deep (Suc m) ?t" using set_child_node(3) [OF node child_index_range Suc.prems(1)] step(2) by simp
  moreover have "is_node ?t" by (rule set_child_node(1) [OF node child_index_range])
  moreover have "\<forall>x' y'. getLeaf ?t x' y' =
      (if same_way (Suc m) x x' \<and> same_way (Suc m) y y' then Some leaf else getLeaf t x' y')"
    using look by blast
  ultimately show ?case using res new leaf by (intro exI [of _ ?t] exI [of _ leaf] exI [of _ ?new] conjI impI)
qed

section \<open>Cells\<close>

text \<open>The leaf of a square depends on its coordinates divided by eight.\<close>

definition cell :: "u16 \<Rightarrow> int" where
  "cell x = uint x div 8"

lemma cell_range: "0 \<le> cell x" "cell x < 8192"
proof -
  have "0 \<le> uint x" "uint x < 65536" using uint_bounded [of x] by simp_all
  then show "0 \<le> cell x" "cell x < 8192" unfolding cell_def by linarith+
qed

lemma cell_step:
  "cell (x + 8) = (if cell x = 8191 then 0 else cell x + 1)"
  "cell (x - 8) = (if cell x = 0 then 8191 else cell x - 1)"
proof -
  define q r where "q = uint x div 8" and "r = uint x mod 8"
  have x: "uint x = 8 * q + r" by (simp add: q_def r_def)
  have r: "0 \<le> r" "r < 8" by (simp_all add: r_def)
  have q: "0 \<le> q" "q < 8192" using cell_range [of x] by (simp_all add: cell_def q_def)
  have div8: "(8 * n + r) div 8 = n" for n using r by simp
  have "uint (x + 8) = (uint x + 8) mod 65536" by (simp add: uint_word_ariths)
  also have "\<dots> = (8 * (q + 1) + r) mod 65536" by (simp add: x algebra_simps)
  also have "\<dots> = 8 * (if q = 8191 then 0 else q + 1) + r" using q r by auto
  finally show "cell (x + 8) = (if cell x = 8191 then 0 else cell x + 1)"
    unfolding cell_def x by (simp only: div8)
  have "uint (x - 8) = (uint x - 8) mod 65536" by (simp add: uint_word_ariths)
  also have "\<dots> = (8 * (q - 1) + r) mod 65536" by (simp add: x algebra_simps)
  also have "\<dots> = 8 * (if q = 0 then 8191 else q - 1) + r"
  proof (cases "q = 0")
    case True
    have "(r - 8 + 1 * 65536) mod 65536 = (r - 8) mod 65536" by (rule mod_mult_self1)
    moreover have "r - 8 + 1 * 65536 = r + 65528" by simp
    moreover have "(r + 65528) mod 65536 = r + 65528" using r by (intro mod_pos_pos_trivial) simp_all
    ultimately show ?thesis using True by simp
  next
    case False
    with q r show ?thesis by simp
  qed
  finally show "cell (x - 8) = (if cell x = 0 then 8191 else cell x - 1)"
    unfolding cell_def x by (simp only: div8)
qed

lemma cell_next_iff: "cell (x' + 8) = cell x \<longleftrightarrow> cell x' = cell (x - 8)"
  unfolding cell_step using cell_range [of x] cell_range [of x'] by auto

lemma cell_prev_iff: "cell (x' - 8) = cell x \<longleftrightarrow> cell x' = cell (x + 8)"
  unfolding cell_step using cell_range [of x] cell_range [of x'] by auto

lemma cell_moves: "cell (x + 8) \<noteq> cell x" "cell (x - 8) \<noteq> cell x"
  unfolding cell_step using cell_range [of x] by auto

lemma cell_cong: "cell x = cell x' \<Longrightarrow> cell (x + 8) = cell (x' + 8)"
  by (simp add: cell_step)

lemma cell_bits: "cell x = cell x' \<longleftrightarrow> (\<forall>i<13. bit x (15 - i) = bit x' (15 - i))"
proof -
  have "cell x = cell x' \<longleftrightarrow> drop_bit 3 x = drop_bit 3 x'"
    by (simp add: cell_def word_uint_eq_iff uint_div drop_bit_eq_div)
  also have "\<dots> \<longleftrightarrow> (\<forall>i<13. bit x (15 - i) = bit x' (15 - i))"
  proof
    assume eq: "drop_bit 3 x = drop_bit 3 x'"
    show "\<forall>i<13. bit x (15 - i) = bit x' (15 - i)"
    proof (intro allI impI)
      fix i :: nat assume "i < 13"
      then have i: "15 - i = 3 + (12 - i)" by simp
      have "bit (drop_bit 3 x) (12 - i) = bit (drop_bit 3 x') (12 - i)" unfolding eq ..
      then show "bit x (15 - i) = bit x' (15 - i)" unfolding bit_drop_bit_eq o_def i .
    qed
  next
    assume all: "\<forall>i<13. bit x (15 - i) = bit x' (15 - i)"
    show "drop_bit 3 x = drop_bit 3 x'"
    proof (rule bit_word_eqI)
      fix j assume "j < LENGTH(16)"
      have "bit x (3 + j) = bit x' (3 + j)"
      proof (cases "j < 13")
        case True
        then have "15 - (12 - j) = 3 + j" by simp
        with all [rule_format, of "12 - j"] show ?thesis by simp
      next
        case False
        then have "\<not> bit x (3 + j)" "\<not> bit x' (3 + j)"
          using bit_imp_le_length [of x "3 + j"] bit_imp_le_length [of x' "3 + j"] by auto
        then show ?thesis by simp
      qed
      then show "bit (drop_bit 3 x) j = bit (drop_bit 3 x') j" by (simp add: bit_drop_bit_eq)
    qed
  qed
  finally show ?thesis .
qed

definition low16 :: "u32 \<Rightarrow> u16" where
  "low16 v = ucast v"

lemma same_way_cell: "same_way 13 v v' \<longleftrightarrow> cell (low16 v) = cell (low16 v')"
proof -
  have "bit (low16 v) (15 - i) = bit v (15 - i)" for i and v :: u32
  proof -
    have "15 - i < (16 :: nat)" by arith
    then show ?thesis by (simp add: low16_def bit_ucast_iff)
  qed
  then show ?thesis by (simp add: same_way_def cell_bits)
qed

lemma low16_simps [simp]: "low16 (ucast x) = x" "low16 (word_of_int n) = word_of_int n"
proof -
  show "low16 (ucast x) = x" by (rule bit_word_eqI) (auto simp: low16_def bit_simps)
  show "low16 (word_of_int n) = word_of_int n" by (rule bit_word_eqI) (auto simp: low16_def bit_simps)
qed

text \<open>The leaf of a square.\<close>

definition leaf_at :: "qtree \<Rightarrow> u16 \<Rightarrow> u16 \<Rightarrow> nat option" where
  "leaf_at t x y = getLeaf t (ucast x) (ucast y)"

lemma getLeaf_low16: "deep 13 t \<Longrightarrow> getLeaf t v u = leaf_at t (low16 v) (low16 u)"
  unfolding leaf_at_def by (rule getLeaf_same_way [where n = 13]) (simp_all add: same_way_cell)

lemma leaf_at_cell: "deep 13 t \<Longrightarrow> cell x = cell x' \<Longrightarrow> cell y = cell y' \<Longrightarrow> leaf_at t x y = leaf_at t x' y'"
  unfolding leaf_at_def by (rule getLeaf_same_way [where n = 13]) (simp_all add: same_way_cell)

lemma createLeaf_at:
  assumes "deep 13 t" and "is_node t"
  obtains t' leaf new where "createLeaf a (ucast x) (ucast y) 15 t = Some (t', leaf, new)"
    and "deep 13 t'" and "is_node t'" and "new \<longleftrightarrow> leaf_at t x y = None"
    and "leaf = (case leaf_at t x y of None \<Rightarrow> a | Some b \<Rightarrow> b)"
    and "\<And>x' y'. leaf_at t' x' y' = (if cell x' = cell x \<and> cell y' = cell y then Some leaf else leaf_at t x' y')"
proof -
  have "t \<noteq> QNull" using assms(2) by (auto simp: is_node_def)
  from createLeaf_spec [OF assms(1) this, of a "ucast x" "ucast y"] assms(2)
  obtain t' leaf new where c: "createLeaf a (ucast x) (ucast y) 15 t = Some (t', leaf, new)" "deep 13 t'" "is_node t'"
    "new \<longleftrightarrow> getLeaf t (ucast x) (ucast y) = None"
    "leaf = (case getLeaf t (ucast x) (ucast y) of None \<Rightarrow> a | Some b \<Rightarrow> b)"
    "\<forall>v u. getLeaf t' v u = (if same_way 13 (ucast x) v \<and> same_way 13 (ucast y) u then Some leaf else getLeaf t v u)"
    by auto
  have "leaf_at t' x' y' = (if cell x' = cell x \<and> cell y' = cell y then Some leaf else leaf_at t x' y')" for x' y'
    unfolding leaf_at_def c(6) [rule_format] by (auto simp: same_way_cell)
  moreover have "new \<longleftrightarrow> leaf_at t x y = None" "leaf = (case leaf_at t x y of None \<Rightarrow> a | Some b \<Rightarrow> b)"
    using c(4,5) by (simp_all only: leaf_at_def)
  ultimately show thesis by (intro that [OF c(1-3)])
qed

section \<open>Linked leaves\<close>

definition linked :: "'a tile_map_scheme \<Rightarrow> bool" where
  "linked m \<longleftrightarrow> deep 13 (root m) \<and> is_node (root m) \<and>
     (\<forall>x y a. leaf_at (root m) x y = Some a \<longrightarrow> a < length (leaves m) \<and>
        leafE (leaves m ! a) = leaf_at (root m) (x + 8) y \<and> leafS (leaves m ! a) = leaf_at (root m) x (y + 8)) \<and>
     (\<forall>x y x' y' a. leaf_at (root m) x y = Some a \<longrightarrow> leaf_at (root m) x' y' = Some a \<longrightarrow>
        cell x = cell x' \<and> cell y = cell y') \<and>
     (\<forall>a<length (leaves m). \<exists>x y. leaf_at (root m) x y = Some a)"

lemma linkedD:
  assumes "linked m"
  shows "deep 13 (root m)" and "is_node (root m)"
    and "leaf_at (root m) x y = Some a \<Longrightarrow> a < length (leaves m)"
    and "leaf_at (root m) x y = Some a \<Longrightarrow> leafE (leaves m ! a) = leaf_at (root m) (x + 8) y"
    and "leaf_at (root m) x y = Some a \<Longrightarrow> leafS (leaves m ! a) = leaf_at (root m) x (y + 8)"
    and "leaf_at (root m) x y = Some a \<Longrightarrow> leaf_at (root m) x' y' = Some a \<Longrightarrow> cell x = cell x' \<and> cell y = cell y'"
    and "a < length (leaves m) \<Longrightarrow> \<exists>x y. leaf_at (root m) x y = Some a"
  using assms unfolding linked_def by blast+

lemma linkedI:
  assumes "deep 13 (root m)" and "is_node (root m)"
    and "\<And>x y a. leaf_at (root m) x y = Some a \<Longrightarrow> a < length (leaves m)"
    and "\<And>x y a. leaf_at (root m) x y = Some a \<Longrightarrow> leafE (leaves m ! a) = leaf_at (root m) (x + 8) y"
    and "\<And>x y a. leaf_at (root m) x y = Some a \<Longrightarrow> leafS (leaves m ! a) = leaf_at (root m) x (y + 8)"
    and "\<And>x y x' y' a. leaf_at (root m) x y = Some a \<Longrightarrow> leaf_at (root m) x' y' = Some a \<Longrightarrow>
      cell x = cell x' \<and> cell y = cell y'"
    and "\<And>a. a < length (leaves m) \<Longrightarrow> \<exists>x y. leaf_at (root m) x y = Some a"
  shows "linked m"
  unfolding linked_def using assms by blast

lemma linked_cong:
  assumes m: "linked m" and "deep 13 (root m')" and "is_node (root m')"
    and same: "\<And>x y. leaf_at (root m') x y = leaf_at (root m) x y" and len: "length (leaves m') = length (leaves m)"
    and links: "\<And>a. a < length (leaves m) \<Longrightarrow> leafE (leaves m' ! a) = leafE (leaves m ! a) \<and> leafS (leaves m' ! a) = leafS (leaves m ! a)"
  shows "linked m'"
proof (rule linkedI [OF assms(2,3)])
  fix x y x' y' a
  assume a: "leaf_at (root m') x y = Some a"
  note a' = a [unfolded same]
  show "a < length (leaves m')" using linkedD(3) [OF m a'] len by simp
  show "leafE (leaves m' ! a) = leaf_at (root m') (x + 8) y" "leafS (leaves m' ! a) = leaf_at (root m') x (y + 8)"
    using links [OF linkedD(3) [OF m a']] linkedD(4,5) [OF m a'] unfolding same by metis+
  show "cell x = cell x' \<and> cell y = cell y'" if "leaf_at (root m') x' y' = Some a"
    using linkedD(6) [OF m a'] that unfolding same by blast
next
  fix a assume "a < length (leaves m')"
  then show "\<exists>x y. leaf_at (root m') x y = Some a" using linkedD(7) [OF m] len same by simp
qed

lemma getLeafStatic_low16: "deep 13 t \<Longrightarrow> is_node t \<Longrightarrow> getLeafStatic t v u = leaf_at t (low16 v) (low16 u)"
  by (auto simp: is_node_def getLeafStatic_eq simp flip: getLeaf_low16)

lemma getTile_at:
  assumes "linked m"
  shows "getTile x y z m = (if z \<ge> MAP_MAX_LAYERS then None
    else do { leaf \<leftarrow> leaf_at (root m) x y; floor \<leftarrow> floors (leaves m ! leaf) z;
              floor (and x FLOOR_MASK) (and y FLOOR_MASK) })"
  by (simp add: getTile_def getLeafStatic_low16 linkedD(1,2) [OF assms] getFloor_def)

lemma same_square:
  assumes "cell x = cell x'" and "and x FLOOR_MASK = and x' FLOOR_MASK"
  shows "x = x'"
proof (rule bit_word_eqI)
  fix i assume i: "i < LENGTH(16)"
  show "bit x i = bit x' i"
  proof (cases "i < 3")
    case True
    then have "bit FLOOR_MASK i" by (auto simp: FLOOR_MASK_def bit_simps less_Suc_eq numeral_3_eq_3)
    then show ?thesis using arg_cong [OF assms(2), of "\<lambda>v. bit v i"] by (simp add: bit_and_iff)
  next
    case False
    then have "15 - (15 - i) = i" "15 - i < 13" using i by simp_all
    then show ?thesis using assms(1) unfolding cell_bits by metis
  qed
qed

lemma upd_leaf_simps [simp]: "root (upd_leaf a f m) = root m" "length (leaves (upd_leaf a f m)) = length (leaves m)"
  "tile_map.more (upd_leaf a f m) = tile_map.more m"
  "b < length (leaves m) \<Longrightarrow> leaves (upd_leaf a f m) ! b = (if b = a then f (leaves m ! a) else leaves m ! b)"
  by (auto simp: upd_leaf_def)

lemma around_low16: "low16 (word_of_int (uint x - FLOOR_SIZE)) = x - 8" "low16 (word_of_int (uint x + FLOOR_SIZE)) = x + 8"
  unfolding low16_simps by (simp_all add: FLOOR_SIZE_def)

lemma link_simps [simp]: "root (link x y leaf m) = root m" "length (leaves (link x y leaf m)) = length (leaves m)"
  "tile_map.more (link x y leaf m) = tile_map.more m"
  by (simp_all add: link_def Let_def split: option.split)

lemma link_leaves:
  assumes "deep 13 (root m)" and "b < length (leaves m)"
    and "leaf_at (root m) x (y - 8) \<noteq> Some leaf" and "leaf_at (root m) (x - 8) y \<noteq> Some leaf"
  shows "leaves (link x y leaf m) ! b = (leaves m ! b)
    \<lparr> leafS := (if leaf_at (root m) x (y - 8) = Some b then Some leaf
                else if b = leaf \<and> leaf_at (root m) x (y + 8) \<noteq> None then leaf_at (root m) x (y + 8)
                else leafS (leaves m ! b)),
      leafE := (if leaf_at (root m) (x - 8) y = Some b then Some leaf
                else if b = leaf \<and> leaf_at (root m) (x + 8) y \<noteq> None then leaf_at (root m) (x + 8) y
                else leafE (leaves m ! b)) \<rparr>"
proof -
  let ?n = "leaf_at (root m) x (y - 8)" and ?w = "leaf_at (root m) (x - 8) y"
    and ?s = "leaf_at (root m) x (y + 8)" and ?e = "leaf_at (root m) (x + 8) y"
  have around: "getLeaf (root m) (ucast x) (word_of_int (uint y - FLOOR_SIZE)) = ?n"
    "getLeaf (root m) (word_of_int (uint x - FLOOR_SIZE)) (ucast y) = ?w"
    "getLeaf (root m) (ucast x) (word_of_int (uint y + FLOOR_SIZE)) = ?s"
    "getLeaf (root m) (word_of_int (uint x + FLOOR_SIZE)) (ucast y) = ?e"
    by (simp_all only: getLeaf_low16 [OF assms(1)] around_low16 low16_simps(1))
  define m1 where "m1 = (case ?n of None \<Rightarrow> m | Some n \<Rightarrow> upd_leaf n (\<lambda>l. l\<lparr> leafS := Some leaf \<rparr>) m)"
  define m2 where "m2 = (case ?w of None \<Rightarrow> m1 | Some n \<Rightarrow> upd_leaf n (\<lambda>l. l\<lparr> leafE := Some leaf \<rparr>) m1)"
  define m3 where "m3 = (case ?s of None \<Rightarrow> m2 | Some n \<Rightarrow> upd_leaf leaf (\<lambda>l. l\<lparr> leafS := Some n \<rparr>) m2)"
  have roots: "root m1 = root m" "root m2 = root m" "root m3 = root m"
    and len: "b < length (leaves m1)" "b < length (leaves m2)" "b < length (leaves m3)"
    using assms(2) by (simp_all add: m1_def m2_def m3_def split: option.split)
  have eq: "link x y leaf m = (case ?e of None \<Rightarrow> m3 | Some e \<Rightarrow> upd_leaf leaf (\<lambda>l. l\<lparr> leafE := Some e \<rparr>) m3)"
    unfolding link_def Let_def around m1_def [symmetric] roots m2_def [symmetric] m3_def [symmetric] ..
  have l1: "leaves m1 ! b = (leaves m ! b)\<lparr> leafS := if ?n = Some b then Some leaf else leafS (leaves m ! b) \<rparr>"
    using assms(2) by (auto simp: m1_def split: option.split)
  have l2: "leaves m2 ! b = (leaves m1 ! b)\<lparr> leafE := if ?w = Some b then Some leaf else leafE (leaves m1 ! b) \<rparr>"
    using len by (auto simp: m2_def split: option.split)
  have l3: "leaves m3 ! b = (leaves m2 ! b)\<lparr> leafS := if b = leaf \<and> ?s \<noteq> None then ?s else leafS (leaves m2 ! b) \<rparr>"
    using len by (auto simp: m3_def split: option.split)
  have l4: "leaves (link x y leaf m) ! b =
      (leaves m3 ! b)\<lparr> leafE := if b = leaf \<and> ?e \<noteq> None then ?e else leafE (leaves m3 ! b) \<rparr>"
    unfolding eq using len by (auto split: option.split)
  show ?thesis
  proof (cases "b = leaf")
    case True
    then show ?thesis using assms(3,4) unfolding l4 l3 l2 l1 by simp
  next
    case False
    then show ?thesis unfolding l4 l3 l2 l1 by simp
  qed
qed

lemma linked_upd:
  assumes "linked m" and "\<And>l. leafS (f l) = leafS l" and "\<And>l. leafE (f l) = leafE l"
  shows "linked (upd_leaf a f m)"
  by (rule linked_cong [OF assms(1)]) (simp_all add: linkedD(1,2) [OF assms(1)] assms(2,3))

text \<open>The leaf of a square, made and linked when it is missing.\<close>

lemma make_leaf:
  assumes m: "linked m"
  obtains t leaf new where "createLeaf (length (leaves m)) (ucast x) (ucast y) 15 (root m) = Some (t, leaf, new)"
    and "leaf = (case leaf_at (root m) x y of None \<Rightarrow> length (leaves m) | Some b \<Rightarrow> b)"
    and "\<And>m1 m2. m1 = m\<lparr> root := t, leaves := leaves m @ (if new then [new_leaf] else []) \<rparr> \<Longrightarrow>
      m2 = (if new then link x y leaf m1 else m1) \<Longrightarrow>
      linked m2 \<and> tile_map.more m2 = tile_map.more m \<and> leaf < length (leaves m2) \<and>
      (\<forall>x' y'. leaf_at (root m2) x' y' =
        (if cell x' = cell x \<and> cell y' = cell y then Some leaf else leaf_at (root m) x' y')) \<and>
      (\<forall>a<length (leaves m2). if a < length (leaves m)
        then floors (leaves m2 ! a) = floors (leaves m ! a) \<and>
          creature_list (leaves m2 ! a) = creature_list (leaves m ! a) \<and>
          player_list (leaves m2 ! a) = player_list (leaves m ! a)
        else floors (leaves m2 ! a) = Map.empty \<and> creature_list (leaves m2 ! a) = [] \<and>
          player_list (leaves m2 ! a) = []) \<and> length (leaves m) \<le> length (leaves m2)"
proof -
  note lm = linkedD [OF m]
  let ?k = "length (leaves m)"
  obtain t leaf new where c: "createLeaf ?k (ucast x) (ucast y) 15 (root m) = Some (t, leaf, new)"
    and t: "deep 13 t" "is_node t" and new: "new \<longleftrightarrow> leaf_at (root m) x y = None"
    and leaf: "leaf = (case leaf_at (root m) x y of None \<Rightarrow> ?k | Some b \<Rightarrow> b)"
    and at: "\<And>x' y'. leaf_at t x' y' = (if cell x' = cell x \<and> cell y' = cell y then Some leaf else leaf_at (root m) x' y')"
    using createLeaf_at [OF lm(1,2), where a = ?k and x = x and y = y] by blast
  show thesis
  proof (rule that [OF c leaf])
    fix m1 m2
    assume m1: "m1 = m\<lparr> root := t, leaves := leaves m @ (if new then [new_leaf] else []) \<rparr>"
      and m2: "m2 = (if new then link x y leaf m1 else m1)"
    show "linked m2 \<and> tile_map.more m2 = tile_map.more m \<and> leaf < length (leaves m2) \<and>
      (\<forall>x' y'. leaf_at (root m2) x' y' =
        (if cell x' = cell x \<and> cell y' = cell y then Some leaf else leaf_at (root m) x' y')) \<and>
      (\<forall>a<length (leaves m2). if a < ?k
        then floors (leaves m2 ! a) = floors (leaves m ! a) \<and>
          creature_list (leaves m2 ! a) = creature_list (leaves m ! a) \<and>
          player_list (leaves m2 ! a) = player_list (leaves m ! a)
        else floors (leaves m2 ! a) = Map.empty \<and> creature_list (leaves m2 ! a) = [] \<and>
          player_list (leaves m2 ! a) = []) \<and> ?k \<le> length (leaves m2)"
    proof (cases "leaf_at (root m) x y")
      case (Some b)
      have same: "leaf_at t x' y' = leaf_at (root m) x' y'" for x' y'
        using at Some leaf leaf_at_cell [OF lm(1), of x' x y' y] by auto
      have m2': "m2 = m\<lparr> root := t \<rparr>" using new Some m1 m2 by simp
      have "linked m2" by (rule linked_cong [OF m]) (simp_all add: m2' t same)
      moreover have "leaf < length (leaves m2)" using lm(3) [OF Some] leaf Some by (simp add: m2')
      ultimately show ?thesis using at by (simp add: m2')
    next
      case None
      then have m2': "m2 = link x y ?k m1" "leaf = ?k" and m1': "root m1 = t" "leaves m1 = leaves m @ [new_leaf]"
        "tile_map.more m1 = tile_map.more m"
        using new m1 m2 leaf by simp_all
      have old: "leaf_at (root m) x' y' \<noteq> Some ?k" for x' y' using lm(3) by blast
      have apart: "leaf_at t x (y - 8) \<noteq> Some ?k" "leaf_at t (x - 8) y \<noteq> Some ?k"
        unfolding at using old cell_moves by auto
      have k: "length (leaves m1) = Suc ?k" using m1' by simp
      have around: "leaf_at t (x + 8) y = leaf_at (root m) (x + 8) y" "leaf_at t x (y + 8) = leaf_at (root m) x (y + 8)"
        unfolding at using cell_moves by auto
      have here: "leaf_at t x' y' = Some ?k \<longleftrightarrow> cell x' = cell x \<and> cell y' = cell y" for x' y'
        unfolding at m2'(2) using old by auto
      have leaves: "leaves m2 ! a = (leaves m1 ! a)
        \<lparr> leafS := (if leaf_at t x (y - 8) = Some a then Some ?k
                    else if a = ?k \<and> leaf_at t x (y + 8) \<noteq> None then leaf_at t x (y + 8) else leafS (leaves m1 ! a)),
          leafE := (if leaf_at t (x - 8) y = Some a then Some ?k
                    else if a = ?k \<and> leaf_at t (x + 8) y \<noteq> None then leaf_at t (x + 8) y else leafE (leaves m1 ! a)) \<rparr>"
        if "a < Suc ?k" for a
        using link_leaves [of m1 a x y ?k] that t(1) apart unfolding m2'(1) m1'(1) k by blast
      note k_moves = cell_moves [of x] cell_moves [of y]
      have l2: "root m2 = t" "length (leaves m2) = Suc ?k" using m2'(1) m1'(1) k by simp_all
      have old_leaf: "leaves m1 ! a = leaves m ! a" if "a < ?k" for a using that m1'(2) by (simp add: nth_append)
      have new_leaf: "leaves m1 ! ?k = new_leaf" using m1'(2) by simp
      have "linked m2"
      proof (rule linkedI)
        show "deep 13 (root m2)" "is_node (root m2)" using t l2 by simp_all
      next
        fix x1 y1 a assume a: "leaf_at (root m2) x1 y1 = Some a"
        show a_k: "a < length (leaves m2)"
          using a lm(3) [of x1 y1 a] unfolding l2 at m2'(2) by (auto split: if_splits)
        show "leafE (leaves m2 ! a) = leaf_at (root m2) (x1 + 8) y1"
        proof (cases "a = ?k")
          case True
          then have "cell x1 = cell x" "cell y1 = cell y" using a here unfolding l2 by auto
          then have "leaf_at t (x1 + 8) y1 = leaf_at t (x + 8) y" using leaf_at_cell [OF t(1)] cell_cong [of x1 x] by blast
          moreover have "leafE (leaves m2 ! ?k) = leaf_at t (x + 8) y"
            using leaves [of ?k] apart new_leaf by (simp add: new_leaf_def)
          ultimately show ?thesis using True l2 by simp
        next
          case False
          then have a_m: "leaf_at (root m) x1 y1 = Some a" using a unfolding l2 at m2'(2) by (auto split: if_splits)
          have far: "leaf_at t (x - 8) y = leaf_at (root m) (x - 8) y" unfolding at using cell_moves by auto
          have met: "leaf_at (root m) (x - 8) y = Some a \<longleftrightarrow> cell (x1 + 8) = cell x \<and> cell y1 = cell y"
            using lm(6) [OF a_m, of "x - 8" y] leaf_at_cell [OF lm(1), of x1 "x - 8" y1 y] a_m cell_next_iff [of x1 x] by auto
          have "leafE (leaves m2 ! a) = (if leaf_at t (x - 8) y = Some a then Some ?k else leafE (leaves m ! a))"
            using leaves [of a] lm(3) [OF a_m] old_leaf [of a] False by simp
          then show ?thesis using met far lm(4) [OF a_m] unfolding l2 at m2'(2) by auto
        qed
        show "leafS (leaves m2 ! a) = leaf_at (root m2) x1 (y1 + 8)"
        proof (cases "a = ?k")
          case True
          then have "cell x1 = cell x" "cell y1 = cell y" using a here unfolding l2 by auto
          then have "leaf_at t x1 (y1 + 8) = leaf_at t x (y + 8)" using leaf_at_cell [OF t(1)] cell_cong [of y1 y] by blast
          moreover have "leafS (leaves m2 ! ?k) = leaf_at t x (y + 8)"
            using leaves [of ?k] apart new_leaf by (simp add: new_leaf_def)
          ultimately show ?thesis using True l2 by simp
        next
          case False
          then have a_m: "leaf_at (root m) x1 y1 = Some a" using a unfolding l2 at m2'(2) by (auto split: if_splits)
          have far: "leaf_at t x (y - 8) = leaf_at (root m) x (y - 8)" unfolding at using cell_moves by auto
          have met: "leaf_at (root m) x (y - 8) = Some a \<longleftrightarrow> cell x1 = cell x \<and> cell (y1 + 8) = cell y"
            using lm(6) [OF a_m, of x "y - 8"] leaf_at_cell [OF lm(1), of x1 x y1 "y - 8"] a_m cell_next_iff [of y1 y] by auto
          have "leafS (leaves m2 ! a) = (if leaf_at t x (y - 8) = Some a then Some ?k else leafS (leaves m ! a))"
            using leaves [of a] lm(3) [OF a_m] old_leaf [of a] False by simp
          then show ?thesis using met far lm(5) [OF a_m] unfolding l2 at m2'(2) by auto
        qed
      next
        fix x1 y1 x2 y2 a assume "leaf_at (root m2) x1 y1 = Some a" "leaf_at (root m2) x2 y2 = Some a"
        then show "cell x1 = cell x2 \<and> cell y1 = cell y2"
          using lm(6) [of x1 y1 a x2 y2] lm(3) [of _ _ a] unfolding l2 at m2'(2) by (auto split: if_splits)
      next
        fix a assume "a < length (leaves m2)"
        show "\<exists>x y. leaf_at (root m2) x y = Some a"
        proof (cases "a = ?k")
          case True
          with here [of x y] l2 show ?thesis by blast
        next
          case False
          with l2 \<open>a < length (leaves m2)\<close> obtain x1 y1 where a_m: "leaf_at (root m) x1 y1 = Some a"
            using lm(7) [of a] by auto
          then have "\<not> (cell x1 = cell x \<and> cell y1 = cell y)" using leaf_at_cell [OF lm(1), of x1 x y1 y] None by auto
          with a_m at have "leaf_at t x1 y1 = Some a" by auto
          with l2 show ?thesis by blast
        qed
      qed
      moreover have "tile_map.more m2 = tile_map.more m" using m2'(1) m1'(3) by simp
      moreover have "\<forall>a<length (leaves m2). if a < ?k
        then floors (leaves m2 ! a) = floors (leaves m ! a) \<and>
          creature_list (leaves m2 ! a) = creature_list (leaves m ! a) \<and>
          player_list (leaves m2 ! a) = player_list (leaves m ! a)
        else floors (leaves m2 ! a) = Map.empty \<and> creature_list (leaves m2 ! a) = [] \<and>
          player_list (leaves m2 ! a) = []"
      proof (intro allI impI)
        fix a assume "a < length (leaves m2)"
        then have "a < Suc ?k" using l2 by simp
        then show "if a < ?k
          then floors (leaves m2 ! a) = floors (leaves m ! a) \<and>
            creature_list (leaves m2 ! a) = creature_list (leaves m ! a) \<and>
            player_list (leaves m2 ! a) = player_list (leaves m ! a)
          else floors (leaves m2 ! a) = Map.empty \<and> creature_list (leaves m2 ! a) = [] \<and>
            player_list (leaves m2 ! a) = []"
          using leaves [of a] old_leaf [of a] new_leaf by (cases "a < ?k") (auto simp: new_leaf_def less_Suc_eq)
      qed
      ultimately show ?thesis using at l2 m2'(2) by simp
    qed
  qed
qed

section \<open>Setting tiles\<close>

text \<open>What happens to a thing that is set where a tile is.\<close>

definition handed_over :: "nat option \<Rightarrow> nat list option \<Rightarrow> nat option \<Rightarrow> (nat \<times> nat) list" where
  "handed_over old items ground =
     (case old of
        None \<Rightarrow> []
      | Some tile \<Rightarrow> map (Pair tile) (rev (case items of None \<Rightarrow> [] | Some xs \<Rightarrow> xs)) @
          (case ground of None \<Rightarrow> [] | Some g \<Rightarrow> [(tile, g)]))"

text \<open>The lists of creatures that a change of the tiles keeps.\<close>

definition keeps_lists :: "'a tile_map_scheme \<Rightarrow> 'a tile_map_scheme \<Rightarrow> bool" where
  "keeps_lists m m' \<longleftrightarrow> tile_map.more m' = tile_map.more m \<and>
     (\<forall>x y a. leaf_at (root m) x y = Some a \<longrightarrow> leaf_at (root m') x y = Some a) \<and>
     (\<forall>a<length (leaves m'). if a < length (leaves m)
        then creature_list (leaves m' ! a) = creature_list (leaves m ! a) \<and>
          player_list (leaves m' ! a) = player_list (leaves m ! a)
        else creature_list (leaves m' ! a) = [] \<and> player_list (leaves m' ! a) = []) \<and>
     length (leaves m) \<le> length (leaves m')"

lemma setTile_spec:
  assumes m: "linked m" and z: "z < MAP_MAX_LAYERS"
  obtains m' where "setTile x y z newTile items ground m = Some (handed_over (getTile x y z m) items ground, m')"
    and "linked m'" and "keeps_lists m m'"
    and "\<And>x' y' z'. getTile x' y' z' m' =
      (if (x', y', z') = (x, y, z) \<and> getTile x y z m = None then Some newTile else getTile x' y' z' m)"
proof -
  note lm = linkedD [OF m]
  obtain t leaf new where c: "createLeaf (length (leaves m)) (ucast x) (ucast y) 15 (root m) = Some (t, leaf, new)"
    and leaf_eq: "leaf = (case leaf_at (root m) x y of None \<Rightarrow> length (leaves m) | Some b \<Rightarrow> b)"
    and made: "\<And>m1 m2. m1 = m\<lparr> root := t, leaves := leaves m @ (if new then [new_leaf] else []) \<rparr> \<Longrightarrow>
      m2 = (if new then link x y leaf m1 else m1) \<Longrightarrow>
      linked m2 \<and> tile_map.more m2 = tile_map.more m \<and> leaf < length (leaves m2) \<and>
      (\<forall>x' y'. leaf_at (root m2) x' y' =
        (if cell x' = cell x \<and> cell y' = cell y then Some leaf else leaf_at (root m) x' y')) \<and>
      (\<forall>a<length (leaves m2). if a < length (leaves m)
        then floors (leaves m2 ! a) = floors (leaves m ! a) \<and>
          creature_list (leaves m2 ! a) = creature_list (leaves m ! a) \<and>
          player_list (leaves m2 ! a) = player_list (leaves m ! a)
        else floors (leaves m2 ! a) = Map.empty \<and> creature_list (leaves m2 ! a) = [] \<and>
          player_list (leaves m2 ! a) = []) \<and> length (leaves m) \<le> length (leaves m2)"
    using make_leaf [OF m, of x y] by blast
  define m1 where "m1 = m\<lparr> root := t, leaves := leaves m @ (if new then [new_leaf] else []) \<rparr>"
  define m2 where "m2 = (if new then link x y leaf m1 else m1)"
  define m3 where "m3 = upd_leaf leaf (createFloor z) m2"
  have m2: "linked m2" and more: "tile_map.more m2 = tile_map.more m" and leaf: "leaf < length (leaves m2)"
    and at: "\<And>x' y'. leaf_at (root m2) x' y' =
      (if cell x' = cell x \<and> cell y' = cell y then Some leaf else leaf_at (root m) x' y')"
    and old: "\<And>a. a < length (leaves m) \<Longrightarrow> floors (leaves m2 ! a) = floors (leaves m ! a) \<and>
      creature_list (leaves m2 ! a) = creature_list (leaves m ! a) \<and> player_list (leaves m2 ! a) = player_list (leaves m ! a)"
    and fresh: "\<And>a. length (leaves m) \<le> a \<Longrightarrow> a < length (leaves m2) \<Longrightarrow> floors (leaves m2 ! a) = Map.empty \<and>
      creature_list (leaves m2 ! a) = [] \<and> player_list (leaves m2 ! a) = []"
    and len: "length (leaves m) \<le> length (leaves m2)"
    using made [OF m1_def m2_def] by (auto simp: Suc_le_eq dest: less_le_trans)
  have same: "leaf_at (root m2) x' y' = Some a" if "leaf_at (root m) x' y' = Some a" for x' y' a
  proof (cases "cell x' = cell x \<and> cell y' = cell y")
    case True
    then have "leaf_at (root m) x y = Some a" using that leaf_at_cell [OF lm(1), of x' x y' y] by simp
    with True show ?thesis unfolding at leaf_eq by simp
  next
    case False
    with that show ?thesis unfolding at by auto
  qed
  have tiles2: "getTile x' y' z' m2 = getTile x' y' z' m" for x' y' z'
  proof (cases "leaf_at (root m) x' y'")
    case None
    then have "leaf_at (root m2) x' y' = None \<or> leaf_at (root m2) x' y' = Some (length (leaves m))"
      using leaf_at_cell [OF lm(1), of x' x y' y] unfolding at leaf_eq by auto
    then show ?thesis
      using None fresh [of "length (leaves m)"] linkedD(3) [OF m2]
      by (auto simp: getTile_at [OF m] getTile_at [OF m2])
  next
    case (Some a)
    then show ?thesis
      using same [OF Some] old [OF lm(3) [OF Some]] by (simp add: getTile_at [OF m] getTile_at [OF m2])
  qed
  have here: "leaf_at (root m2) x y = Some leaf" unfolding at by simp
  define f0 where "f0 = (case floors (leaves m2 ! leaf) z of None \<Rightarrow> (\<lambda>_ _. None) | Some f \<Rightarrow> f)"
  have m3: "linked m3" unfolding m3_def by (rule linked_upd [OF m2]) (simp_all add: createFloor_def)
  have floors3: "floors (leaves m3 ! leaf) = (floors (leaves m2 ! leaf))(z \<mapsto> f0)"
    using leaf by (auto simp: m3_def createFloor_def f0_def)
  have root3: "root m3 = root m2" "length (leaves m3) = length (leaves m2)" by (simp_all add: m3_def)
  have tiles3: "getTile x' y' z' m3 = getTile x' y' z' m" for x' y' z'
  proof -
    have "getTile x' y' z' m3 = getTile x' y' z' m2"
    proof (cases "leaf_at (root m2) x' y' = Some leaf \<and> z' = z")
      case True
      then show ?thesis
        using floors3 root3 by (auto simp: getTile_at [OF m3] getTile_at [OF m2] f0_def split: option.split)
    next
      case False
      show ?thesis
      proof (cases "leaf_at (root m2) x' y'")
        case None
        then show ?thesis using root3 by (simp add: getTile_at [OF m3] getTile_at [OF m2])
      next
        case (Some a)
        have "floors (leaves m3 ! a) z' = floors (leaves m2 ! a) z'"
          using False Some floors3 linkedD(3) [OF m2 Some] by (cases "a = leaf") (auto simp: m3_def)
        then show ?thesis using Some root3 by (simp add: getTile_at [OF m3] getTile_at [OF m2])
      qed
    qed
    then show ?thesis by (simp add: tiles2)
  qed
  let ?ox = "and x FLOOR_MASK" and ?oy = "and y FLOOR_MASK"
  have tile: "f0 ?ox ?oy = getTile x y z m"
    using here floors3 z unfolding tiles3 [symmetric] getTile_at [OF m3] root3 by auto
  have floor: "getFloor z (leaves m3 ! leaf) = Some f0" by (simp add: getFloor_def floors3)
  have keeps3: "keeps_lists m m3"
  proof -
    have "creature_list (leaves m3 ! a) = creature_list (leaves m2 ! a) \<and>
        player_list (leaves m3 ! a) = player_list (leaves m2 ! a)" if "a < length (leaves m2)" for a
      using that by (simp add: m3_def createFloor_def)
    moreover have "tile_map.more m3 = tile_map.more m" using more by (simp add: m3_def)
    ultimately show ?thesis
      unfolding keeps_lists_def root3 using same old fresh len by (auto simp: not_less)
  qed
  define m4 where "m4 = upd_leaf leaf (\<lambda>l. l\<lparr> floors := (floors l)
    (z \<mapsto> f0(?ox := (f0 ?ox)(?oy := Some newTile))) \<rparr>) m3"
  have set: "setTile x y z newTile items ground m =
      (case f0 ?ox ?oy of
         Some tile \<Rightarrow> Some (handed_over (Some tile) items ground, m3)
       | None \<Rightarrow> Some ([], m4))"
    using floor z unfolding not_le [symmetric] setTile_def c m4_def m3_def m2_def m1_def
    by (simp add: Let_def handed_over_def split: option.split)
  show thesis
  proof (cases "getTile x y z m")
    case (Some tile)
    with set tile have "setTile x y z newTile items ground m = Some (handed_over (getTile x y z m) items ground, m3)"
      by simp
    from that [OF this m3 keeps3] show thesis using tiles3 Some by simp
  next
    case None
    have m4: "linked m4" unfolding m4_def by (rule linked_upd [OF m3]) simp_all
    have "keeps_lists m m4"
      using keeps3 unfolding keeps_lists_def m4_def by auto
    moreover have root4: "root m4 = root m2" by (simp add: m4_def root3)
    have others: "leaves m4 ! a = leaves m3 ! a" if "a < length (leaves m2)" "a \<noteq> leaf" for a
      using that by (simp add: m4_def root3)
    have "getTile x' y' z' m4 = (if (x', y', z') = (x, y, z) then Some newTile else getTile x' y' z' m)" for x' y' z'
    proof (cases "leaf_at (root m2) x' y' = Some leaf")
      case True
      have cells: "cell x' = cell x" "cell y' = cell y" using linkedD(6) [OF m2 True here] by simp_all
      have f4: "floors (leaves m4 ! leaf) = (floors (leaves m3 ! leaf))(z \<mapsto> f0(?ox := (f0 ?ox)(?oy := Some newTile)))"
        using leaf root3 by (simp add: m4_def)
      show ?thesis
      proof (cases "z' = z")
        case False
        then have "getTile x' y' z' m4 = getTile x' y' z' m3"
          using True f4 by (simp add: getTile_at [OF m4] getTile_at [OF m3] root4 root3)
        with False tiles3 show ?thesis by simp
      next
        case here_z: True
        have at3: "getTile x' y' z m3 = f0 (and x' FLOOR_MASK) (and y' FLOOR_MASK)"
          using True floors3 z by (auto simp: getTile_at [OF m3] root3)
        have at4: "getTile x' y' z m4 = (f0(?ox := (f0 ?ox)(?oy := Some newTile))) (and x' FLOOR_MASK) (and y' FLOOR_MASK)"
          using True f4 z by (auto simp: getTile_at [OF m4] root4)
        have "and x' FLOOR_MASK = ?ox \<and> and y' FLOOR_MASK = ?oy \<longleftrightarrow> x' = x \<and> y' = y"
          using same_square cells by blast
        then show ?thesis using here_z at3 at4 tiles3 [of x' y' z] by auto
      qed
    next
      case False
      then have "getTile x' y' z' m4 = getTile x' y' z' m3"
        using linkedD(3) [OF m2, of x' y'] others
        by (cases "leaf_at (root m2) x' y'") (auto simp: getTile_at [OF m4] getTile_at [OF m3] root4 root3)
      moreover have "(x', y') \<noteq> (x, y)" using False here by auto
      ultimately show ?thesis using tiles3 by auto
    qed
    moreover have "setTile x y z newTile items ground m = Some (handed_over (getTile x y z m) items ground, m4)"
      using set tile None by (simp add: handed_over_def)
    ultimately show thesis using that [of m4] m4 None by simp
  qed
qed

lemma leaf_at_empty [simp]: "leaf_at (root empty_map) x y = None"
  by (simp add: leaf_at_def empty_map_def)

lemma linked_empty: "linked empty_map"
  by (rule linkedI) (simp_all, simp_all add: empty_map_def is_node_def)

lemma getTile_empty: "getTile x y z empty_map = None"
  by (simp add: getTile_at [OF linked_empty])

text \<open>Any number of calls of \<open>setTile\<close>.\<close>

fun set_tiles :: "(position \<times> nat \<times> nat list option \<times> nat option) list \<Rightarrow> tile_map \<Rightarrow> tile_map option" where
  "set_tiles [] m = Some m"
| "set_tiles ((pos, newTile, items, ground) # sets) m =
     Option.bind (setTile (pos_x pos) (pos_y pos) (pos_z pos) newTile items ground m) (\<lambda>r. set_tiles sets (snd r))"

lemma set_tiles_spec:
  assumes "linked m"
  shows "\<exists>m'. set_tiles sets m = Some m' \<and> linked m' \<and>
    (\<forall>x y z. getTile x y z m' =
      (if getTile x y z m = None \<and> z < MAP_MAX_LAYERS
       then map_of (map (\<lambda>(pos, newTile, _). (pos, newTile)) sets) (Position x y z) else getTile x y z m))"
  using assms
proof (induction sets arbitrary: m)
  case Nil
  then show ?case by auto
next
  case (Cons s sets)
  obtain x y z newTile items ground where s: "s = (Position x y z, newTile, items, ground)"
    by (cases s) (metis position.exhaust)
  let ?of = "\<lambda>sets. map_of (map (\<lambda>(pos, newTile, _). (pos, newTile)) sets)"
  have "\<exists>r. setTile x y z newTile items ground m = Some r \<and> linked (snd r) \<and>
      (\<forall>x' y' z'. getTile x' y' z' (snd r) =
        (if (x', y', z') = (x, y, z) \<and> getTile x y z m = None \<and> z < MAP_MAX_LAYERS then Some newTile
         else getTile x' y' z' m))"
  proof (cases "z < MAP_MAX_LAYERS")
    case True
    obtain m' where m': "setTile x y z newTile items ground m = Some (handed_over (getTile x y z m) items ground, m')"
      "linked m'" "\<And>x' y' z'. getTile x' y' z' m' =
        (if (x', y', z') = (x, y, z) \<and> getTile x y z m = None then Some newTile else getTile x' y' z' m)"
      by (rule setTile_spec [OF Cons.prems True, of x y newTile items ground]) (rule that)
    show ?thesis
    proof (intro exI conjI allI)
      show "setTile x y z newTile items ground m = Some (handed_over (getTile x y z m) items ground, m')"
        by (rule m'(1))
      show "linked (snd (handed_over (getTile x y z m) items ground, m'))" unfolding snd_conv by (rule m'(2))
      show "getTile x' y' z' (snd (handed_over (getTile x y z m) items ground, m')) =
          (if (x', y', z') = (x, y, z) \<and> getTile x y z m = None \<and> z < MAP_MAX_LAYERS then Some newTile
           else getTile x' y' z' m)" for x' y' z'
        unfolding snd_conv m'(3) using True by presburger
    qed
  next
    case False
    with Cons.prems show ?thesis by (simp add: setTile_def not_less)
  qed
  then obtain r where r: "setTile x y z newTile items ground m = Some r" "linked (snd r)"
    "\<And>x' y' z'. getTile x' y' z' (snd r) =
      (if (x', y', z') = (x, y, z) \<and> getTile x y z m = None \<and> z < MAP_MAX_LAYERS then Some newTile
       else getTile x' y' z' m)" by blast
  obtain m' where m': "set_tiles sets (snd r) = Some m'" "linked m'"
    "\<And>x y z. getTile x y z m' =
      (if getTile x y z (snd r) = None \<and> z < MAP_MAX_LAYERS then ?of sets (Position x y z) else getTile x y z (snd r))"
    using Cons.IH [OF r(2)] by blast
  have "set_tiles (s # sets) m = Some m'" using r(1) m'(1) by (simp add: s)
  moreover have "getTile x' y' z' m' = (if getTile x' y' z' m = None \<and> z' < MAP_MAX_LAYERS
      then ?of (s # sets) (Position x' y' z') else getTile x' y' z' m)" for x' y' z'
  proof (cases "(x', y', z') = (x, y, z)")
    case True
    have "?of (s # sets) (Position x y z) = Some newTile" by (simp add: s)
    then show ?thesis
      using True unfolding m'(3) r(3) by (cases "getTile x y z m"; cases "z < MAP_MAX_LAYERS"; simp)
  next
    case False
    then have of: "?of (s # sets) (Position x' y' z') = ?of sets (Position x' y' z')" by (auto simp: s)
    have "getTile x' y' z' (snd r) = getTile x' y' z' m" unfolding r(3) using False by presburger
    then show ?thesis unfolding m'(3) of by (rule arg_cong)
  qed
  ultimately show ?case using m'(2) by blast
qed

text \<open>
  C29:
  The tree of the map implements a map from positions to tiles: after any calls of \<open>setTile\<close> on the
  empty map \<open>getTile\<close> gives at each position the first tile that was set there, and none on the layers
  that do not exist.
\<close>

theorem quad_tree_is_map:
  "\<exists>m. set_tiles sets empty_map = Some m \<and>
     (\<forall>x y z. getTile x y z m =
       (if z \<ge> MAP_MAX_LAYERS then None
        else map_of (map (\<lambda>(pos, newTile, _). (pos, newTile)) sets) (Position x y z)))"
proof -
  obtain m where m: "set_tiles sets empty_map = Some m"
    "\<And>x y z. getTile x y z m = (if z < MAP_MAX_LAYERS
      then map_of (map (\<lambda>(pos, newTile, _). (pos, newTile)) sets) (Position x y z) else None)"
    using set_tiles_spec [OF linked_empty, of sets] by (auto simp: getTile_empty)
  then show ?thesis by (intro exI [of _ m]) (simp add: not_le)
qed

end
