(* ===== verification/Spectators.thy ===== *)
theory Spectators
  imports QuadTree
begin

text \<open>
  The creatures on the map (\<open>QTreeLeafNode::addCreature\<close> and \<open>removeCreature\<close>, the parts of
  \<open>Map::placeCreature\<close>, \<open>Map::moveCreature\<close> and \<open>Tile::removeCreature\<close> that keep the lists of the
  leaves, and \<open>Map::getSpectators\<close> with its caches). Creatures are known by numbers. The ranges of a
  search are integers as wide as they need to be.
\<close>

section \<open>Creatures in the leaves\<close>

record creature_map = tile_map +
  creature_pos :: "nat \<Rightarrow> position"
  is_player :: "nat \<Rightarrow> bool"
  spectatorCache :: "position \<Rightarrow> nat set option"
  playersSpectatorCache :: "position \<Rightarrow> nat set option"

definition clearSpectatorCache :: "creature_map \<Rightarrow> creature_map" where
  "clearSpectatorCache m = m\<lparr> spectatorCache := Map.empty, playersSpectatorCache := Map.empty \<rparr>"

definition addCreature :: "nat \<Rightarrow> nat \<Rightarrow> creature_map \<Rightarrow> creature_map" where
  "addCreature c leaf m = upd_leaf leaf
     (\<lambda>l. l\<lparr> creature_list := creature_list l @ [c],
             player_list := (if is_player m c then player_list l @ [c] else player_list l) \<rparr>) m"

fun find_creature :: "nat \<Rightarrow> nat list \<Rightarrow> nat option" where
  "find_creature c [] = None"
| "find_creature c (x # xs) = (if x = c then Some 0 else map_option Suc (find_creature c xs))"

text \<open>The last creature takes the place of the one removed; a missing one trips the assertion.\<close>

definition swap_remove :: "nat \<Rightarrow> nat list \<Rightarrow> nat list option" where
  "swap_remove c xs = map_option (\<lambda>i. butlast (xs[i := last xs])) (find_creature c xs)"

definition removeCreature :: "nat \<Rightarrow> nat \<Rightarrow> creature_map \<Rightarrow> creature_map option" where
  "removeCreature c leaf m =
     do {
       creatures \<leftarrow> swap_remove c (creature_list (leaves m ! leaf));
       players \<leftarrow> (if is_player m c then swap_remove c (player_list (leaves m ! leaf))
                  else Some (player_list (leaves m ! leaf)));
       Some (upd_leaf leaf (\<lambda>l. l\<lparr> creature_list := creatures, player_list := players \<rparr>) m)
     }"

section \<open>The search for spectators\<close>

record view =
  minRangeX :: int
  maxRangeX :: int
  minRangeY :: int
  maxRangeY :: int
  minRangeZ :: int
  maxRangeZ :: int

definition is_spectator :: "position \<Rightarrow> view \<Rightarrow> position \<Rightarrow> bool" where
  "is_spectator centerPos v cpos =
     (let min_y = getY centerPos + minRangeY v;
          min_x = getX centerPos + minRangeX v;
          max_y = getY centerPos + maxRangeY v;
          max_x = getX centerPos + maxRangeX v;
          offsetZ = getOffsetZ centerPos cpos
      in if minRangeZ v > getZ cpos \<or> maxRangeZ v < getZ cpos then False
         else if min_y + offsetZ > getY cpos \<or> max_y + offsetZ < getY cpos \<or>
                 min_x + offsetZ > getX cpos \<or> max_x + offsetZ < getX cpos then False
         else True)"

definition visit_leaf :: "(nat \<Rightarrow> bool) \<Rightarrow> nat list \<Rightarrow> nat set \<Rightarrow> nat set" where
  "visit_leaf wanted node_list spectators = fold (\<lambda>c s. if wanted c then insert c s else s) node_list spectators"

definition node_list :: "bool \<Rightarrow> map_leaf \<Rightarrow> nat list" where
  "node_list onlyPlayers l = (if onlyPlayers then player_list l else creature_list l)"

text \<open>One row of leaves, and all rows.\<close>

function scan_row :: "creature_map \<Rightarrow> bool \<Rightarrow> (nat \<Rightarrow> bool) \<Rightarrow> int \<Rightarrow> int \<Rightarrow> int \<Rightarrow> nat option \<Rightarrow> nat set \<Rightarrow> nat set" where
  "scan_row m onlyPlayers wanted endx2 ny nx e spectators =
     (if nx \<le> endx2 then
        (case e of
           Some a \<Rightarrow> scan_row m onlyPlayers wanted endx2 ny (nx + FLOOR_SIZE) (leafE (leaves m ! a))
             (visit_leaf wanted (node_list onlyPlayers (leaves m ! a)) spectators)
         | None \<Rightarrow> scan_row m onlyPlayers wanted endx2 ny (nx + FLOOR_SIZE)
             (getLeafStatic (root m) (word_of_int (nx + FLOOR_SIZE)) (word_of_int ny)) spectators)
      else spectators)"
  by pat_completeness auto
termination
  by (relation "measure (\<lambda>(m, onlyPlayers, wanted, endx2, ny, nx, e, spectators). nat (endx2 + 1 - nx))")
    (auto simp: FLOOR_SIZE_def)

function scan_rows :: "creature_map \<Rightarrow> bool \<Rightarrow> (nat \<Rightarrow> bool) \<Rightarrow> int \<Rightarrow> int \<Rightarrow> int \<Rightarrow> int \<Rightarrow> nat option \<Rightarrow> nat set \<Rightarrow> nat set" where
  "scan_rows m onlyPlayers wanted startx1 endx2 endy2 ny s spectators =
     (if ny \<le> endy2 then
        scan_rows m onlyPlayers wanted startx1 endx2 endy2 (ny + FLOOR_SIZE)
          (case s of
             Some a \<Rightarrow> leafS (leaves m ! a)
           | None \<Rightarrow> getLeafStatic (root m) (word_of_int startx1) (word_of_int (ny + FLOOR_SIZE)))
          (scan_row m onlyPlayers wanted endx2 ny startx1 s spectators)
      else spectators)"
  by pat_completeness auto
termination
  by (relation "measure (\<lambda>(m, onlyPlayers, wanted, startx1, endx2, endy2, ny, s, spectators). nat (endy2 + 1 - ny))")
    (auto simp: FLOOR_SIZE_def)

declare scan_row.simps [simp del] scan_rows.simps [simp del]

text \<open>A coordinate cut off at the edges of the map.\<close>

definition cut_off :: "int \<Rightarrow> u16" where
  "cut_off v = word_of_int (min 0xFFFF (max 0 v))"

definition getSpectatorsInternal :: "nat set \<Rightarrow> position \<Rightarrow> view \<Rightarrow> bool \<Rightarrow> creature_map \<Rightarrow> nat set" where
  "getSpectatorsInternal spectators centerPos v onlyPlayers m =
     (let min_y = getY centerPos + minRangeY v;
          min_x = getX centerPos + minRangeX v;
          max_y = getY centerPos + maxRangeY v;
          max_x = getX centerPos + maxRangeX v;
          minoffset = getZ centerPos - maxRangeZ v;
          x1 = cut_off (min_x + minoffset);
          y1 = cut_off (min_y + minoffset);
          maxoffset = getZ centerPos - minRangeZ v;
          x2 = cut_off (max_x + maxoffset);
          y2 = cut_off (max_y + maxoffset);
          startx1 = uint x1 - uint x1 mod FLOOR_SIZE;
          starty1 = uint y1 - uint y1 mod FLOOR_SIZE;
          endx2 = uint x2 - uint x2 mod FLOOR_SIZE;
          endy2 = uint y2 - uint y2 mod FLOOR_SIZE;
          startLeaf = getLeafStatic (root m) (word_of_int startx1) (word_of_int starty1)
      in scan_rows m onlyPlayers (\<lambda>c. is_spectator centerPos v (creature_pos m c)) startx1 endx2 endy2 starty1
           startLeaf spectators)"

definition maxViewportX :: int where "maxViewportX = 11"
definition maxViewportY :: int where "maxViewportY = 11"

definition range_z :: "u8 \<Rightarrow> bool \<Rightarrow> int \<times> int" where
  "range_z z multifloor =
     (if multifloor then
        (if z > 7 then (max (uint z - 2) 0, min (uint z + 2) (uint MAP_MAX_LAYERS - 1))
         else if z = 6 then (0, 8)
         else if z = 7 then (0, 9)
         else (0, 7))
      else (uint z, uint z))"

definition view_of :: "position \<Rightarrow> bool \<Rightarrow> int \<Rightarrow> int \<Rightarrow> int \<Rightarrow> int \<Rightarrow> view" where
  "view_of centerPos multifloor minX maxX minY maxY =
     \<lparr> minRangeX = (if minX = 0 then - maxViewportX else - minX),
       maxRangeX = (if maxX = 0 then maxViewportX else maxX),
       minRangeY = (if minY = 0 then - maxViewportY else - minY),
       maxRangeY = (if maxY = 0 then maxViewportY else maxY),
       minRangeZ = fst (range_z (pos_z centerPos) multifloor),
       maxRangeZ = snd (range_z (pos_z centerPos) multifloor) \<rparr>"

text \<open>Only searches over the whole viewport and all floors use the caches.\<close>

definition getSpectators :: "nat set \<Rightarrow> position \<Rightarrow> bool \<Rightarrow> bool \<Rightarrow> int \<Rightarrow> int \<Rightarrow> int \<Rightarrow> int \<Rightarrow> creature_map
    \<Rightarrow> nat set \<times> creature_map" where
  "getSpectators spectators centerPos multifloor onlyPlayers minX maxX minY maxY m =
     (if pos_z centerPos \<ge> MAP_MAX_LAYERS then (spectators, m)
      else
        (let v = view_of centerPos multifloor minX maxX minY maxY;
             cached = (minRangeX v = - maxViewportX \<and> maxRangeX v = maxViewportX \<and>
                       minRangeY v = - maxViewportY \<and> maxRangeY v = maxViewportY \<and> multifloor);
             hit = (if \<not> cached then None
                    else if onlyPlayers \<and> playersSpectatorCache m centerPos \<noteq> None
                    then playersSpectatorCache m centerPos
                    else map_option (\<lambda>s. if onlyPlayers then {c \<in> s. is_player m c} else s)
                           (spectatorCache m centerPos))
         in case hit of
              Some s \<Rightarrow> (spectators \<union> s, m)
            | None \<Rightarrow>
                (let s = getSpectatorsInternal spectators centerPos v onlyPlayers m
                 in (s, if \<not> cached then m
                        else if onlyPlayers
                        then m\<lparr> playersSpectatorCache := (playersSpectatorCache m)(centerPos \<mapsto> s) \<rparr>
                        else m\<lparr> spectatorCache := (spectatorCache m)(centerPos \<mapsto> s) \<rparr>))))"

section \<open>Changes of the creatures\<close>

text \<open>The end of \<open>placeCreature\<close>: the tile takes the creature and the leaf lists it.\<close>

definition place_creature :: "nat \<Rightarrow> position \<Rightarrow> creature_map \<Rightarrow> creature_map option" where
  "place_creature c dest m =
     (let m1 = (clearSpectatorCache m)\<lparr> creature_pos := (creature_pos m)(c := dest) \<rparr>
      in map_option (\<lambda>leaf. addCreature c leaf m1) (getQTNode (pos_x dest) (pos_y dest) m1))"

text \<open>\<open>moveCreature\<close>: the spectators of both places, and the new lists.\<close>

definition moveCreature :: "nat \<Rightarrow> position \<Rightarrow> creature_map \<Rightarrow> (nat set \<times> creature_map) option" where
  "moveCreature c newPos m =
     (let oldPos = creature_pos m c;
          (s1, m1) = getSpectators {} oldPos True False 0 0 0 0 m;
          (spectators, m2) = getSpectators s1 newPos True False 0 0 0 0 m1;
          m3 = clearSpectatorCache m2
      in do {
           m4 \<leftarrow> (let leaf = getQTNode (pos_x oldPos) (pos_y oldPos) m3;
                      newLeaf = getQTNode (pos_x newPos) (pos_y newPos) m3
                  in if leaf \<noteq> newLeaf then
                       (case (leaf, newLeaf) of
                          (Some old, Some new) \<Rightarrow> map_option (addCreature c new) (removeCreature c old m3)
                        | _ \<Rightarrow> None)
                     else Some m3);
           Some (spectators, (clearSpectatorCache m4)\<lparr> creature_pos := (creature_pos m4)(c := newPos) \<rparr>)
         })"

text \<open>\<open>Tile::removeCreature\<close>.\<close>

definition remove_creature :: "nat \<Rightarrow> creature_map \<Rightarrow> creature_map option" where
  "remove_creature c m =
     do {
       leaf \<leftarrow> getQTNode (pos_x (creature_pos m c)) (pos_y (creature_pos m c)) m;
       m1 \<leftarrow> removeCreature c leaf m;
       Some (clearSpectatorCache m1)
     }"

section \<open>The invariant\<close>

definition on_map :: "creature_map \<Rightarrow> nat \<Rightarrow> bool" where
  "on_map m c \<longleftrightarrow> (\<exists>a<length (leaves m). c \<in> set (creature_list (leaves m ! a)))"

text \<open>Every creature is listed once, in the leaf of its position; the players also among the players.\<close>

definition listed :: "creature_map \<Rightarrow> bool" where
  "listed m \<longleftrightarrow> linked m \<and>
     (\<forall>a<length (leaves m). distinct (creature_list (leaves m ! a)) \<and> distinct (player_list (leaves m ! a)) \<and>
        set (player_list (leaves m ! a)) = {c \<in> set (creature_list (leaves m ! a)). is_player m c} \<and>
        (\<forall>c\<in>set (creature_list (leaves m ! a)).
           leaf_at (root m) (pos_x (creature_pos m c)) (pos_y (creature_pos m c)) = Some a))"

lemma listedD:
  assumes "listed m"
  shows "linked m"
    and "a < length (leaves m) \<Longrightarrow> distinct (creature_list (leaves m ! a))"
    and "a < length (leaves m) \<Longrightarrow> distinct (player_list (leaves m ! a))"
    and "a < length (leaves m) \<Longrightarrow> set (player_list (leaves m ! a)) = {c \<in> set (creature_list (leaves m ! a)). is_player m c}"
    and "a < length (leaves m) \<Longrightarrow> c \<in> set (creature_list (leaves m ! a)) \<Longrightarrow>
      leaf_at (root m) (pos_x (creature_pos m c)) (pos_y (creature_pos m c)) = Some a"
  using assms unfolding listed_def by blast+

section \<open>The scan\<close>

lemma visit_leaf_eq: "visit_leaf wanted cs S = S \<union> {c \<in> set cs. wanted c}"
  unfolding visit_leaf_def by (induction cs arbitrary: S) auto

definition grid :: "int \<Rightarrow> int \<Rightarrow> int set" where
  "grid from to = {x. from \<le> x \<and> x \<le> to \<and> 8 dvd (x - from)}"

lemma grid_step: "grid from to = (if from \<le> to then insert from (grid (from + 8) to) else {})"
proof -
  have "8 dvd (x - (from + 8)) \<longleftrightarrow> 8 dvd (x - from)" for x
  proof -
    have "x - from = (x - (from + 8)) + 8" by simp
    then show ?thesis by (metis dvd_add_triv_right_iff)
  qed
  moreover have "from + 8 \<le> x" if "8 dvd (x - from)" "from \<le> x" "x \<noteq> from" for x
    using zdvd_imp_le [OF that(1)] that(2,3) by linarith
  ultimately show ?thesis by (auto simp: grid_def)
qed

definition leaf_creatures :: "creature_map \<Rightarrow> bool \<Rightarrow> int \<Rightarrow> int \<Rightarrow> nat set" where
  "leaf_creatures m onlyPlayers x y =
     (case leaf_at (root m) (word_of_int x) (word_of_int y) of
        None \<Rightarrow> {} | Some a \<Rightarrow> set (node_list onlyPlayers (leaves m ! a)))"

lemma step_word: "(word_of_int x :: u16) + 8 = word_of_int (x + FLOOR_SIZE)"
  by (simp add: FLOOR_SIZE_def)

lemma scan_row_eq:
  assumes m: "linked m" and "e = leaf_at (root m) (word_of_int nx) (word_of_int ny)"
  shows "scan_row m onlyPlayers wanted endx2 ny nx e S =
    S \<union> {c. \<exists>x\<in>grid nx endx2. c \<in> leaf_creatures m onlyPlayers x ny \<and> wanted c}"
  using assms(2)
proof (induction "nat (endx2 + 1 - nx)" arbitrary: nx e S rule: less_induct)
  case less
  show ?case
  proof (cases "nx \<le> endx2")
    case False
    then show ?thesis by (subst scan_row.simps) (simp add: grid_step [of nx])
  next
    case True
    let ?S = "S \<union> {c \<in> leaf_creatures m onlyPlayers nx ny. wanted c}"
    let ?e = "leaf_at (root m) (word_of_int (nx + FLOOR_SIZE)) (word_of_int ny)"
    have next_leaf: "getLeafStatic (root m) (word_of_int (nx + FLOOR_SIZE)) (word_of_int ny) = ?e"
      by (simp only: getLeafStatic_low16 [OF linkedD(1,2) [OF m]] low16_simps)
    have east: "leafE (leaves m ! a) = ?e" if "e = Some a" for a
      using linkedD(4) [OF m, of "word_of_int nx" "word_of_int ny" a] that less.prems unfolding step_word by simp
    have "scan_row m onlyPlayers wanted endx2 ny nx e S =
        scan_row m onlyPlayers wanted endx2 ny (nx + FLOOR_SIZE) ?e ?S"
    proof (cases e)
      case None
      then have "?S = S" using less.prems by (simp add: leaf_creatures_def)
      then show ?thesis using True None by (subst scan_row.simps) (simp add: next_leaf del: of_int_add)
    next
      case (Some a)
      then have "?S = visit_leaf wanted (node_list onlyPlayers (leaves m ! a)) S"
        using less.prems by (simp add: leaf_creatures_def visit_leaf_eq del: word_of_int_eq_iff)
      then show ?thesis using True Some by (subst scan_row.simps) (simp add: east)
    qed
    also have "\<dots> = ?S \<union> {c. \<exists>x\<in>grid (nx + 8) endx2. c \<in> leaf_creatures m onlyPlayers x ny \<and> wanted c}"
      using less.hyps [of "nx + FLOOR_SIZE" ?e ?S] True by (simp add: FLOOR_SIZE_def)
    also have "\<dots> = S \<union> {c. \<exists>x\<in>grid nx endx2. c \<in> leaf_creatures m onlyPlayers x ny \<and> wanted c}"
      using True by (subst (2) grid_step) auto
    finally show ?thesis .
  qed
qed

lemma scan_rows_eq:
  assumes m: "linked m" and "s = leaf_at (root m) (word_of_int startx1) (word_of_int ny)"
  shows "scan_rows m onlyPlayers wanted startx1 endx2 endy2 ny s S =
    S \<union> {c. \<exists>y\<in>grid ny endy2. \<exists>x\<in>grid startx1 endx2. c \<in> leaf_creatures m onlyPlayers x y \<and> wanted c}"
  using assms(2)
proof (induction "nat (endy2 + 1 - ny)" arbitrary: ny s S rule: less_induct)
  case less
  show ?case
  proof (cases "ny \<le> endy2")
    case False
    then show ?thesis by (subst scan_rows.simps) (simp add: grid_step [of ny])
  next
    case True
    let ?row = "\<lambda>y. {c. \<exists>x\<in>grid startx1 endx2. c \<in> leaf_creatures m onlyPlayers x y \<and> wanted c}"
    let ?s = "leaf_at (root m) (word_of_int startx1) (word_of_int (ny + FLOOR_SIZE))"
    have next_leaf: "getLeafStatic (root m) (word_of_int startx1) (word_of_int (ny + FLOOR_SIZE)) = ?s"
      by (simp only: getLeafStatic_low16 [OF linkedD(1,2) [OF m]] low16_simps)
    have "(case s of Some a \<Rightarrow> leafS (leaves m ! a)
        | None \<Rightarrow> getLeafStatic (root m) (word_of_int startx1) (word_of_int (ny + FLOOR_SIZE))) = ?s"
      using linkedD(5) [OF m, of "word_of_int startx1" "word_of_int ny"] less.prems
      unfolding step_word next_leaf by (simp split: option.split)
    then have "scan_rows m onlyPlayers wanted startx1 endx2 endy2 ny s S =
        scan_rows m onlyPlayers wanted startx1 endx2 endy2 (ny + FLOOR_SIZE) ?s (S \<union> ?row ny)"
      using True by (subst scan_rows.simps) (simp add: scan_row_eq [OF m less.prems])
    also have "\<dots> = (S \<union> ?row ny) \<union> {c. \<exists>y\<in>grid (ny + 8) endy2. c \<in> ?row y}"
      using less.hyps [of "ny + FLOOR_SIZE" ?s] True by (simp add: FLOOR_SIZE_def)
    also have "\<dots> = S \<union> {c. \<exists>y\<in>grid ny endy2. c \<in> ?row y}"
      using True by (subst (2) grid_step) auto
    finally show ?thesis by simp
  qed
qed

section \<open>All spectators are found\<close>

lemma cut_off_uint: "uint (cut_off v) = min 65535 (max 0 v)"
proof -
  have "0 \<le> min 65535 (max 0 v)" "min 65535 (max 0 v) < 65536" by auto
  then show ?thesis unfolding cut_off_def by (simp add: uint_word_of_int)
qed

lemma grid_covers:
  assumes "lo \<le> v" "v \<le> hi" "0 \<le> lo"
  shows "v - v mod 8 \<in> grid (lo - lo mod 8) (hi - hi mod 8)"
proof -
  have "lo - lo mod 8 \<le> v - v mod 8 \<and> v - v mod 8 \<le> hi - hi mod 8"
    unfolding minus_mod_eq_mult_div using zdiv_mono1 [OF assms(1), of 8] zdiv_mono1 [OF assms(2), of 8] by simp
  moreover have "8 dvd ((v - v mod 8) - (lo - lo mod 8))"
    unfolding minus_mod_eq_mult_div by (rule dvd_diff) (rule dvd_triv_left)+
  ultimately show ?thesis by (simp add: grid_def)
qed

lemma cell_rounded: "cell (word_of_int (uint x - uint x mod 8)) = cell x"
proof -
  have down: "uint (word_of_int n :: u16) = n" if "0 \<le> n" "n < 65536" for n
    using that by (simp add: uint_word_of_int)
  have eq: "uint x - uint x mod 8 = 8 * (uint x div 8)" by (simp add: minus_mod_eq_mult_div)
  have "0 \<le> uint x" "uint x < 65536" using uint_bounded [of x] by simp_all
  moreover have "0 \<le> uint x mod 8" "uint x mod 8 \<le> uint x" by (simp_all add: zmod_le_nonneg_dividend)
  ultimately have "0 \<le> 8 * (uint x div 8)" "8 * (uint x div 8) < 65536" unfolding eq [symmetric] by simp_all
  from down [OF this] show ?thesis unfolding cell_def eq by simp
qed

text \<open>The creatures that a search is meant to find.\<close>

definition spectators_in :: "position \<Rightarrow> view \<Rightarrow> bool \<Rightarrow> creature_map \<Rightarrow> nat set" where
  "spectators_in centerPos v onlyPlayers m =
     {c. on_map m c \<and> (onlyPlayers \<longrightarrow> is_player m c) \<and> is_spectator centerPos v (creature_pos m c)}"

lemma spectator_bounds:
  assumes "is_spectator p v q"
  shows "getX p + minRangeX v + (getZ p - maxRangeZ v) \<le> uint (pos_x q)"
    and "uint (pos_x q) \<le> getX p + maxRangeX v + (getZ p - minRangeZ v)"
    and "getY p + minRangeY v + (getZ p - maxRangeZ v) \<le> uint (pos_y q)"
    and "uint (pos_y q) \<le> getY p + maxRangeY v + (getZ p - minRangeZ v)"
  using assms by (simp_all add: is_spectator_def Let_def getOffsetZ_def getX_def getY_def split: if_splits)

lemma getSpectatorsInternal_exact:
  assumes "listed m"
  shows "getSpectatorsInternal S p v onlyPlayers m = S \<union> spectators_in p v onlyPlayers m"
proof -
  note lm = listedD [OF assms]
  let ?x1 = "uint (cut_off (getX p + minRangeX v + (getZ p - maxRangeZ v)))"
    and ?x2 = "uint (cut_off (getX p + maxRangeX v + (getZ p - minRangeZ v)))"
    and ?y1 = "uint (cut_off (getY p + minRangeY v + (getZ p - maxRangeZ v)))"
    and ?y2 = "uint (cut_off (getY p + maxRangeY v + (getZ p - minRangeZ v)))"
  let ?wanted = "\<lambda>c. is_spectator p v (creature_pos m c)"
  let ?X = "grid (?x1 - ?x1 mod 8) (?x2 - ?x2 mod 8)" and ?Y = "grid (?y1 - ?y1 mod 8) (?y2 - ?y2 mod 8)"
  have scan: "getSpectatorsInternal S p v onlyPlayers m =
      S \<union> {c. \<exists>y\<in>?Y. \<exists>x\<in>?X. c \<in> leaf_creatures m onlyPlayers x y \<and> ?wanted c}"
    unfolding getSpectatorsInternal_def Let_def FLOOR_SIZE_def
    by (rule scan_rows_eq [OF lm(1)])
      (simp only: getLeafStatic_low16 [OF linkedD(1,2) [OF lm(1)]] low16_simps)
  have in_list: "c \<in> set (node_list onlyPlayers (leaves m ! a)) \<longleftrightarrow>
      c \<in> set (creature_list (leaves m ! a)) \<and> (onlyPlayers \<longrightarrow> is_player m c)" if "a < length (leaves m)" for a c
    using lm(4) [OF that] by (auto simp: node_list_def)
  have "(\<exists>y\<in>?Y. \<exists>x\<in>?X. c \<in> leaf_creatures m onlyPlayers x y) \<longleftrightarrow>
      on_map m c \<and> (onlyPlayers \<longrightarrow> is_player m c)" if wanted: "?wanted c" for c
  proof
    assume "\<exists>y\<in>?Y. \<exists>x\<in>?X. c \<in> leaf_creatures m onlyPlayers x y"
    then obtain x y a where a: "leaf_at (root m) (word_of_int x) (word_of_int y) = Some a"
      "c \<in> set (node_list onlyPlayers (leaves m ! a))"
      by (auto simp: leaf_creatures_def split: option.splits)
    with in_list [OF linkedD(3) [OF lm(1) a(1)]] linkedD(3) [OF lm(1) a(1)]
    show "on_map m c \<and> (onlyPlayers \<longrightarrow> is_player m c)" by (auto simp: on_map_def)
  next
    assume c: "on_map m c \<and> (onlyPlayers \<longrightarrow> is_player m c)"
    then obtain a where a: "a < length (leaves m)" "c \<in> set (creature_list (leaves m ! a))" by (auto simp: on_map_def)
    let ?q = "creature_pos m c"
    let ?x = "uint (pos_x ?q) - uint (pos_x ?q) mod 8" and ?y = "uint (pos_y ?q) - uint (pos_y ?q) mod 8"
    have u: "0 \<le> uint v" "uint v < 65536" for v :: u16 using uint_bounded [of v] by simp_all
    note b = spectator_bounds [OF wanted]
    have "?x \<in> ?X" "?y \<in> ?Y"
      using b u [of "pos_x ?q"] u [of "pos_y ?q"] by (intro grid_covers; simp add: cut_off_uint)+
    moreover have "leaf_at (root m) (word_of_int ?x) (word_of_int ?y) = Some a"
      using leaf_at_cell [OF linkedD(1) [OF lm(1)] cell_rounded cell_rounded] lm(5) [OF a] by simp
    then have "c \<in> leaf_creatures m onlyPlayers ?x ?y"
      using in_list [OF a(1)] a(2) c by (simp add: leaf_creatures_def)
    ultimately show "\<exists>y\<in>?Y. \<exists>x\<in>?X. c \<in> leaf_creatures m onlyPlayers x y" by blast
  qed
  then show ?thesis unfolding scan spectators_in_def by blast
qed

section \<open>The lists follow the creatures\<close>

lemma linked_same: "root m' = root m \<Longrightarrow> leaves m' = leaves m \<Longrightarrow> linked m \<Longrightarrow> linked m'"
  by (rule linked_cong [of m]) (simp_all add: linkedD(1,2))

lemma listed_same:
  assumes "listed m" and "root m' = root m" "leaves m' = leaves m" "is_player m' = is_player m"
    and "\<And>c a. a < length (leaves m) \<Longrightarrow> c \<in> set (creature_list (leaves m ! a)) \<Longrightarrow>
      leaf_at (root m) (pos_x (creature_pos m' c)) (pos_y (creature_pos m' c)) = Some a"
  shows "listed m'"
  unfolding listed_def
proof (intro conjI allI impI ballI)
  note lm = listedD [OF assms(1)]
  show "linked m'" using linked_same assms(2,3) lm(1) by blast
  fix a assume "a < length (leaves m')"
  then have a: "a < length (leaves m)" by (simp add: assms(3))
  show "distinct (creature_list (leaves m' ! a))" "distinct (player_list (leaves m' ! a))"
    "set (player_list (leaves m' ! a)) = {c \<in> set (creature_list (leaves m' ! a)). is_player m' c}"
    unfolding assms(3,4) using lm(2,3,4) [OF a] by blast+
  fix c assume "c \<in> set (creature_list (leaves m' ! a))"
  then show "leaf_at (root m') (pos_x (creature_pos m' c)) (pos_y (creature_pos m' c)) = Some a"
    unfolding assms(2,3) using assms(5) [OF a] by blast
qed

lemma clear_simps [simp]: "root (clearSpectatorCache m) = root m" "leaves (clearSpectatorCache m) = leaves m"
  "is_player (clearSpectatorCache m) = is_player m" "creature_pos (clearSpectatorCache m) = creature_pos m"
  "spectatorCache (clearSpectatorCache m) = Map.empty" "playersSpectatorCache (clearSpectatorCache m) = Map.empty"
  by (simp_all add: clearSpectatorCache_def)

lemma getQTNode_at: "linked m \<Longrightarrow> getQTNode x y m = leaf_at (root m) x y"
  by (simp add: getQTNode_def getLeafStatic_low16 linkedD(1,2))

lemma upd_more [simp]: "creature_pos (upd_leaf a f m) = creature_pos m" "is_player (upd_leaf a f m) = is_player m"
  "spectatorCache (upd_leaf a f m) = spectatorCache m" "playersSpectatorCache (upd_leaf a f m) = playersSpectatorCache m"
  by (simp_all add: upd_leaf_def)

lemma listed_upd:
  assumes "listed m" and a: "a < length (leaves m)" and links: "\<And>l. leafS (f l) = leafS l" "\<And>l. leafE (f l) = leafE l"
    and "distinct (creature_list (f (leaves m ! a)))" "distinct (player_list (f (leaves m ! a)))"
    and "set (player_list (f (leaves m ! a))) = {c \<in> set (creature_list (f (leaves m ! a))). is_player m c}"
    and "\<And>c. c \<in> set (creature_list (f (leaves m ! a))) \<Longrightarrow>
      leaf_at (root m) (pos_x (creature_pos m c)) (pos_y (creature_pos m c)) = Some a"
  shows "listed (upd_leaf a f m)"
  unfolding listed_def
proof (intro conjI allI impI ballI)
  note lm = listedD [OF assms(1)]
  show "linked (upd_leaf a f m)" by (rule linked_upd [OF lm(1) links])
  fix b assume "b < length (leaves (upd_leaf a f m))"
  then have b: "b < length (leaves m)" by simp
  show "distinct (creature_list (leaves (upd_leaf a f m) ! b))" "distinct (player_list (leaves (upd_leaf a f m) ! b))"
    "set (player_list (leaves (upd_leaf a f m) ! b)) =
      {c \<in> set (creature_list (leaves (upd_leaf a f m) ! b)). is_player (upd_leaf a f m) c}"
    using assms(5-7) lm(2-4) [OF b] b by (cases "b = a"; simp)+
  fix c assume "c \<in> set (creature_list (leaves (upd_leaf a f m) ! b))"
  then show "leaf_at (root (upd_leaf a f m)) (pos_x (creature_pos (upd_leaf a f m) c))
      (pos_y (creature_pos (upd_leaf a f m) c)) = Some b"
    using assms(8) lm(5) [OF b] b by (cases "b = a") simp_all
qed

lemma on_map_upd:
  assumes "a < length (leaves m)"
  shows "on_map (upd_leaf a f m) c \<longleftrightarrow> c \<in> set (creature_list (f (leaves m ! a))) \<or>
    (\<exists>b<length (leaves m). b \<noteq> a \<and> c \<in> set (creature_list (leaves m ! b)))"
  using assms by (auto simp: on_map_def split: if_splits)

lemma listed_add:
  assumes m: "listed m" and c: "\<not> on_map m c"
    and a: "leaf_at (root m) (pos_x (creature_pos m c)) (pos_y (creature_pos m c)) = Some a"
  shows "listed (addCreature c a m)" and "on_map (addCreature c a m) c' \<longleftrightarrow> c' = c \<or> on_map m c'"
proof -
  note lm = listedD [OF m]
  have a': "a < length (leaves m)" using linkedD(3) [OF lm(1) a] .
  have fresh: "c \<notin> set (creature_list (leaves m ! a))" "c \<notin> set (player_list (leaves m ! a))"
    using c a' lm(4) [OF a'] by (auto simp: on_map_def)
  show "listed (addCreature c a m)" unfolding addCreature_def
    using lm(2-5) [OF a'] fresh a by (intro listed_upd [OF m a']) auto
  show "on_map (addCreature c a m) c' \<longleftrightarrow> c' = c \<or> on_map m c'"
    unfolding addCreature_def on_map_upd [OF a'] using a' by (auto simp: on_map_def)
qed

lemma find_creature_Some:
  "c \<in> set xs \<Longrightarrow> \<exists>i. find_creature c xs = Some i \<and> i < length xs \<and> xs ! i = c"
  by (induction xs) auto

lemma swap_remove_ok:
  assumes "c \<in> set xs" and "distinct xs"
  obtains ys where "swap_remove c xs = Some ys" and "distinct ys" and "set ys = set xs - {c}"
proof -
  obtain i where i: "find_creature c xs = Some i" "i < length xs" "xs ! i = c" using find_creature_Some [OF assms(1)] by blast
  obtain zs l where xs: "xs = zs @ [l]" using i(2) by (cases xs rule: rev_cases) auto
  have zs: "distinct zs" "l \<notin> set zs" using assms(2) xs by simp_all
  have "butlast (xs[i := last xs]) = (if i < length zs then zs[i := l] else zs)"
    using i(2) xs by (auto simp: list_update_append less_Suc_eq)
  then have s: "swap_remove c xs = Some (if i < length zs then zs[i := l] else zs)" by (simp add: swap_remove_def i(1))
  show thesis
  proof (cases "i < length zs")
    case True
    then have "zs ! i = c" using i(3) xs by (simp add: nth_append)
    with True zs xs show thesis
      by (intro that [OF s]) (auto simp: set_update_distinct intro!: distinct_list_update)
  next
    case False
    then have "c = l" using i xs by (simp add: nth_append less_Suc_eq)
    with False zs xs show thesis by (intro that [OF s]) auto
  qed
qed

lemma listed_remove:
  assumes m: "listed m" and a: "a < length (leaves m)" and c: "c \<in> set (creature_list (leaves m ! a))"
  obtains m' where "removeCreature c a m = Some m'" and "listed m'" and "root m' = root m"
    and "creature_pos m' = creature_pos m" and "is_player m' = is_player m" and "length (leaves m') = length (leaves m)"
    and "\<And>c'. on_map m' c' \<longleftrightarrow> on_map m c' \<and> c' \<noteq> c"
proof -
  note lm = listedD [OF m]
  obtain ys where ys: "swap_remove c (creature_list (leaves m ! a)) = Some ys" "distinct ys"
    "set ys = set (creature_list (leaves m ! a)) - {c}"
    using swap_remove_ok [OF c lm(2) [OF a]] by blast
  obtain zs where zs: "(if is_player m c then swap_remove c (player_list (leaves m ! a))
      else Some (player_list (leaves m ! a))) = Some zs" "distinct zs" "set zs = set (player_list (leaves m ! a)) - {c}"
  proof (cases "is_player m c")
    case True
    then have "c \<in> set (player_list (leaves m ! a))" using c lm(4) [OF a] by simp
    from swap_remove_ok [OF this lm(3) [OF a]] that True show thesis by auto
  next
    case False
    then have "c \<notin> set (player_list (leaves m ! a))" using lm(4) [OF a] by simp
    with that False lm(3) [OF a] show thesis by simp
  qed
  let ?f = "\<lambda>l. l\<lparr> creature_list := ys, player_list := zs \<rparr>"
  have r: "removeCreature c a m = Some (upd_leaf a ?f m)" using ys(1) zs(1) by (simp add: removeCreature_def)
  have once: "c' = c \<Longrightarrow> b < length (leaves m) \<Longrightarrow> c' \<in> set (creature_list (leaves m ! b)) \<Longrightarrow> b = a" for c' b
    using lm(5) [OF a c] lm(5) [of b c'] by auto
  have "listed (upd_leaf a ?f m)"
    using lm(4,5) [OF a] ys zs by (intro listed_upd [OF m a]) auto
  moreover have "on_map (upd_leaf a ?f m) c' \<longleftrightarrow> on_map m c' \<and> c' \<noteq> c" for c'
    unfolding on_map_upd [OF a] using ys(3) once a by (auto simp: on_map_def)
  ultimately show thesis using that [OF r] by simp
qed

section \<open>The caches\<close>

abbreviation full_view :: "position \<Rightarrow> view" where
  "full_view p \<equiv> view_of p True 0 0 0 0"

text \<open>
  A search that starts from spectators found elsewhere leaves them in the cache of its centre. The centres
  \<open>D\<close> of such searches since the caches were cleared last hold the spectators and maybe others; all
  other entries are exact.
\<close>

definition cached_ok :: "position set \<Rightarrow> creature_map \<Rightarrow> bool" where
  "cached_ok D m \<longleftrightarrow>
     (\<forall>p s. spectatorCache m p = Some s \<longrightarrow>
        spectators_in p (full_view p) False m \<subseteq> s \<and> (p \<notin> D \<longrightarrow> s = spectators_in p (full_view p) False m)) \<and>
     (\<forall>p s. playersSpectatorCache m p = Some s \<longrightarrow>
        spectators_in p (full_view p) True m \<subseteq> s \<and> (p \<notin> D \<longrightarrow> s = spectators_in p (full_view p) True m))"

text \<open>Maps that differ in nothing but the caches.\<close>

definition same_creatures :: "creature_map \<Rightarrow> creature_map \<Rightarrow> bool" where
  "same_creatures m m' \<longleftrightarrow> root m' = root m \<and> leaves m' = leaves m \<and> creature_pos m' = creature_pos m \<and>
     is_player m' = is_player m"

lemma same_creatures_listed:
  assumes same: "same_creatures m m'" and m: "listed m"
  shows "listed m'"
proof (rule listed_same [OF m])
  show "root m' = root m" "leaves m' = leaves m" "is_player m' = is_player m"
    using same by (simp_all add: same_creatures_def)
  have "creature_pos m' = creature_pos m" using same by (simp add: same_creatures_def)
  then show "leaf_at (root m) (pos_x (creature_pos m' c)) (pos_y (creature_pos m' c)) = Some a"
    if "a < length (leaves m)" "c \<in> set (creature_list (leaves m ! a))" for c a
    using listedD(5) [OF m that] by simp
qed

lemma same_creatures_in: "same_creatures m m' \<Longrightarrow> on_map m' = on_map m"
  "same_creatures m m' \<Longrightarrow> spectators_in p v onlyPlayers m' = spectators_in p v onlyPlayers m"
  by (auto simp: same_creatures_def spectators_in_def on_map_def)

lemma cleared_ok: "spectatorCache m = Map.empty \<Longrightarrow> playersSpectatorCache m = Map.empty \<Longrightarrow> cached_ok D m"
  by (simp add: cached_ok_def)

lemma getSpectators_exact:
  assumes m: "listed m" and cached: "cached_ok D m" and z: "pos_z p < MAP_MAX_LAYERS"
  obtains r m' where "getSpectators S p multifloor onlyPlayers minX maxX minY maxY m = (r, m')"
    and "S \<union> spectators_in p (view_of p multifloor minX maxX minY maxY) onlyPlayers m \<subseteq> r"
    and "p \<notin> D \<Longrightarrow> r = S \<union> spectators_in p (view_of p multifloor minX maxX minY maxY) onlyPlayers m"
    and "same_creatures m m'" and "cached_ok (if S = {} then D else insert p D) m'"
proof -
  define v where "v = view_of p multifloor minX maxX minY maxY"
  define cache where "cache \<longleftrightarrow> minRangeX v = - maxViewportX \<and> maxRangeX v = maxViewportX \<and>
    minRangeY v = - maxViewportY \<and> maxRangeY v = maxViewportY \<and> multifloor"
  define hit where "hit = (if \<not> cache then None
    else if onlyPlayers \<and> playersSpectatorCache m p \<noteq> None then playersSpectatorCache m p
    else map_option (\<lambda>s. if onlyPlayers then {c \<in> s. is_player m c} else s) (spectatorCache m p))"
  let ?x = "spectators_in p v onlyPlayers m" and ?s = "S \<union> spectators_in p v onlyPlayers m"
  have full: "v = full_view p" if cache
    using that by (auto simp: cache_def v_def view_of_def maxViewportX_def maxViewportY_def)
  have eq: "getSpectators S p multifloor onlyPlayers minX maxX minY maxY m =
      (case hit of Some s \<Rightarrow> (S \<union> s, m)
       | None \<Rightarrow> (?s, if \<not> cache then m
           else if onlyPlayers then m\<lparr> playersSpectatorCache := (playersSpectatorCache m)(p \<mapsto> ?s) \<rparr>
           else m\<lparr> spectatorCache := (spectatorCache m)(p \<mapsto> ?s) \<rparr>))"
    unfolding getSpectators_def v_def [symmetric] Let_def cache_def [symmetric] hit_def [symmetric]
      getSpectatorsInternal_exact [OF m] using z by (simp only: not_le [symmetric] if_False simp_thms)
  have more: "cached_ok (if S = {} then D else insert p D) m" using cached by (auto simp: cached_ok_def)
  show thesis
  proof (cases hit)
    case (Some s)
    then have cache by (simp add: hit_def split: if_splits)
    note c = cached [unfolded cached_ok_def] full [OF this]
    have "?x \<subseteq> s \<and> (p \<notin> D \<longrightarrow> s = ?x)"
    proof (cases "onlyPlayers \<and> playersSpectatorCache m p \<noteq> None")
      case True
      with Some \<open>cache\<close> have "playersSpectatorCache m p = Some s" by (simp add: hit_def)
      with c True show ?thesis by simp
    next
      case False
      with Some \<open>cache\<close> obtain s0 where "spectatorCache m p = Some s0"
        and s: "s = (if onlyPlayers then {c \<in> s0. is_player m c} else s0)"
        by (auto simp: hit_def)
      with c have "spectators_in p v False m \<subseteq> s0 \<and> (p \<notin> D \<longrightarrow> s0 = spectators_in p v False m)" by simp
      then show ?thesis unfolding s by (auto simp: spectators_in_def)
    qed
    with Some eq more show thesis by (intro that [of "S \<union> s" m]) (auto simp: v_def same_creatures_def)
  next
    case None
    let ?m = "if \<not> cache then m
      else if onlyPlayers then m\<lparr> playersSpectatorCache := (playersSpectatorCache m)(p \<mapsto> ?s) \<rparr>
      else m\<lparr> spectatorCache := (spectatorCache m)(p \<mapsto> ?s) \<rparr>"
    have same: "same_creatures m ?m" by (simp add: same_creatures_def)
    have "cached_ok (if S = {} then D else insert p D) ?m"
    proof (cases cache)
      case False
      with more show ?thesis by simp
    next
      case True
      have "?x = spectators_in p (full_view p) onlyPlayers m" using full [OF True] by simp
      with more True show ?thesis unfolding cached_ok_def same_creatures_in(2) [OF same] by auto
    qed
    with None eq same show thesis by (intro that [of ?s ?m]) (simp_all add: v_def)
  qed
qed

section \<open>The creatures of the map\<close>

lemma place_creature_ok:
  assumes m: "listed m" and c: "\<not> on_map m c" and leaf: "leaf_at (root m) (pos_x dest) (pos_y dest) \<noteq> None"
  obtains m' where "place_creature c dest m = Some m'" and "listed m'" and "\<And>D. cached_ok D m'"
    and "root m' = root m" and "creature_pos m' = (creature_pos m)(c := dest)" and "is_player m' = is_player m"
    and "\<And>c'. on_map m' c' \<longleftrightarrow> c' = c \<or> on_map m c'"
proof -
  obtain a where a: "leaf_at (root m) (pos_x dest) (pos_y dest) = Some a" using leaf by blast
  define m1 where "m1 = (clearSpectatorCache m)\<lparr> creature_pos := (creature_pos m)(c := dest) \<rparr>"
  have m1: "listed m1" using c listedD(5) [OF m]
    by (intro listed_same [OF m]) (auto simp: m1_def on_map_def)
  have on: "on_map m1 = on_map m" by (auto simp: on_map_def m1_def)
  have at: "leaf_at (root m1) (pos_x (creature_pos m1 c)) (pos_y (creature_pos m1 c)) = Some a"
    using a by (simp add: m1_def)
  have r: "place_creature c dest m = Some (addCreature c a m1)"
    using a getQTNode_at [OF listedD(1) [OF m1], of "pos_x dest" "pos_y dest"]
    by (simp add: place_creature_def Let_def m1_def [symmetric]) (simp add: m1_def)
  note add = listed_add [OF m1, of c, unfolded on, OF c at]
  show thesis
    by (rule that [OF r add(1)]) (use add(2) in \<open>auto simp: addCreature_def m1_def intro: cleared_ok\<close>)
qed

lemma remove_creature_ok:
  assumes m: "listed m" and c: "on_map m c"
  obtains m' where "remove_creature c m = Some m'" and "listed m'" and "\<And>D. cached_ok D m'" and "root m' = root m"
    and "creature_pos m' = creature_pos m" and "is_player m' = is_player m"
    and "\<And>c'. on_map m' c' \<longleftrightarrow> on_map m c' \<and> c' \<noteq> c"
proof -
  note lm = listedD [OF m]
  obtain a where a: "a < length (leaves m)" "c \<in> set (creature_list (leaves m ! a))" using c by (auto simp: on_map_def)
  obtain m1 where m1: "removeCreature c a m = Some m1" "listed m1" "root m1 = root m"
    "creature_pos m1 = creature_pos m" "is_player m1 = is_player m"
    "\<And>c'. on_map m1 c' \<longleftrightarrow> on_map m c' \<and> c' \<noteq> c"
    using listed_remove [OF m a] by blast
  have r: "remove_creature c m = Some (clearSpectatorCache m1)"
    using m1(1) lm(5) [OF a] by (simp add: remove_creature_def getQTNode_at [OF lm(1)])
  have same: "same_creatures m1 (clearSpectatorCache m1)" by (simp add: same_creatures_def)
  have "cached_ok D (clearSpectatorCache m1)" for D by (rule cleared_ok) simp_all
  from that [OF r same_creatures_listed [OF same m1(2)] this] m1(3-6) same_creatures_in(1) [OF same]
  show thesis by simp
qed

lemma getSpectators_same: "same_creatures m (snd (getSpectators S p multifloor onlyPlayers minX maxX minY maxY m))"
  by (auto simp: getSpectators_def same_creatures_def Let_def split: option.split)

lemma getTile_upd:
  assumes "\<And>l. floors (f l) = floors l"
  shows "getTile x y z (upd_leaf a f m) = getTile x y z m"
proof -
  have "floors (leaves (upd_leaf a f m) ! b) = floors (leaves m ! b)" for b
  proof (cases "a < length (leaves m)")
    case True
    then show ?thesis using assms by (cases "b = a") (simp_all add: upd_leaf_def)
  next
    case False
    then show ?thesis by (simp add: upd_leaf_def list_update_beyond)
  qed
  then show ?thesis by (simp add: getTile_def getFloor_def)
qed

lemma getTile_same: "root m' = root m \<Longrightarrow> leaves m' = leaves m \<Longrightarrow> getTile x y z m' = getTile x y z m"
  by (simp add: getTile_def)

lemma getTile_clear: "getTile x y z (clearSpectatorCache m) = getTile x y z m"
  by (rule getTile_same) simp_all

lemma getTile_addCreature: "getTile x y z (addCreature c a m) = getTile x y z m"
  unfolding addCreature_def by (rule getTile_upd) simp

lemma getTile_removeCreature: "removeCreature c a m = Some m' \<Longrightarrow> getTile x y z m' = getTile x y z m"
  by (auto simp: removeCreature_def getTile_upd simp del: upd_leaf_simps split: bind_splits)

lemma getTile_leaf:
  assumes "linked m" and "getTile x y z m \<noteq> None"
  shows "leaf_at (root m) x y \<noteq> None" and "z < MAP_MAX_LAYERS"
  using assms(2) by (cases "leaf_at (root m) x y"; auto simp: getTile_at [OF assms(1)] split: if_splits)+

lemma move_commutes:
  "(addCreature c a m)\<lparr> creature_pos := p \<rparr> = addCreature c a (m\<lparr> creature_pos := p \<rparr>)"
  by (simp add: addCreature_def upd_leaf_def)

lemma moveCreature_ok:
  assumes m: "listed m" and c: "on_map m c" and tile: "getTile (pos_x newPos) (pos_y newPos) (pos_z newPos) m \<noteq> None"
  obtains s m' where "moveCreature c newPos m = Some (s, m')" and "listed m'" and "\<And>D. cached_ok D m'"
    and "creature_pos m' = (creature_pos m)(c := newPos)" and "on_map m' = on_map m"
    and "\<And>x y z. getTile x y z m' = getTile x y z m"
    and "s = fst (getSpectators (fst (getSpectators {} (creature_pos m c) True False 0 0 0 0 m)) newPos True False
      0 0 0 0 (snd (getSpectators {} (creature_pos m c) True False 0 0 0 0 m)))"
proof -
  let ?p = "creature_pos m c"
  define s1 m1 where "s1 = fst (getSpectators {} ?p True False 0 0 0 0 m)"
    and "m1 = snd (getSpectators {} ?p True False 0 0 0 0 m)"
  define s m2 where "s = fst (getSpectators s1 newPos True False 0 0 0 0 m1)"
    and "m2 = snd (getSpectators s1 newPos True False 0 0 0 0 m1)"
  define m3 where "m3 = clearSpectatorCache m2"
  have same: "same_creatures m m3"
    using getSpectators_same [of m "{}" ?p True False 0 0 0 0] getSpectators_same [of m1 s1 newPos True False 0 0 0 0]
    by (simp add: same_creatures_def m1_def m2_def m3_def)
  then have m3: "listed m3" and on3: "on_map m3 = on_map m"
    and eq3: "root m3 = root m" "leaves m3 = leaves m" "creature_pos m3 = creature_pos m" "is_player m3 = is_player m"
    using same_creatures_listed [OF same m] same_creatures_in(1) [OF same] by (simp_all add: same_creatures_def)
  note lm = listedD [OF m3]
  obtain a where a: "a < length (leaves m3)" "c \<in> set (creature_list (leaves m3 ! a))"
    using c unfolding on3 [symmetric] by (auto simp: on_map_def)
  have old: "leaf_at (root m3) (pos_x ?p) (pos_y ?p) = Some a" using lm(5) [OF a] by (simp add: eq3)
  obtain b where b: "leaf_at (root m3) (pos_x newPos) (pos_y newPos) = Some b"
    using getTile_leaf(1) [OF listedD(1) [OF m] tile] by (auto simp: eq3)
  have move: "moveCreature c newPos m = map_option
      (\<lambda>m4. (s, (clearSpectatorCache m4)\<lparr> creature_pos := (creature_pos m4)(c := newPos) \<rparr>))
      (if a \<noteq> b then map_option (addCreature c b) (removeCreature c a m3) else Some m3)"
    unfolding moveCreature_def Let_def split_beta s1_def [symmetric] m1_def [symmetric] s_def [symmetric]
      m2_def [symmetric] m3_def [symmetric] getQTNode_at [OF lm(1)] old b
    by (simp add: map_option_case split: option.split)
  show thesis
  proof (cases "a = b")
    case True
    let ?m = "(clearSpectatorCache m3)\<lparr> creature_pos := (creature_pos m3)(c := newPos) \<rparr>"
    have "listed ?m"
    proof (rule listed_same [OF m3])
      fix c' a' assume a': "a' < length (leaves m3)" "c' \<in> set (creature_list (leaves m3 ! a'))"
      have "a' = a" if "c' = c" using lm(5) [OF a'] old that by (simp add: eq3)
      then show "leaf_at (root m3) (pos_x (creature_pos ?m c')) (pos_y (creature_pos ?m c')) = Some a'"
        using lm(5) [OF a'] b True by simp
    qed simp_all
    moreover have "cached_ok D ?m" for D by (rule cleared_ok) simp_all
    moreover have "on_map ?m = on_map m" unfolding on3 [symmetric] by (auto simp: on_map_def)
    moreover have "getTile x y z ?m = getTile x y z m" for x y z by (rule getTile_same) (simp_all add: eq3)
    moreover have "moveCreature c newPos m = Some (s, ?m)" using move True by simp
    ultimately show thesis using that eq3 unfolding s_def m1_def s1_def by simp
  next
    case False
    obtain m4 where m4: "removeCreature c a m3 = Some m4" "listed m4" "root m4 = root m3"
      "creature_pos m4 = creature_pos m3" "is_player m4 = is_player m3"
      "\<And>c'. on_map m4 c' \<longleftrightarrow> on_map m3 c' \<and> c' \<noteq> c"
      using listed_remove [OF m3 a] by blast
    define m5 where "m5 = (clearSpectatorCache m4)\<lparr> creature_pos := (creature_pos m4)(c := newPos) \<rparr>"
    have m5: "listed m5"
      using listedD(5) [OF m4(2)] m4(6) [of c] by (intro listed_same [OF m4(2)]) (auto simp: m5_def on_map_def)
    have on5: "on_map m5 = on_map m4" by (auto simp: on_map_def m5_def)
    have at: "leaf_at (root m5) (pos_x (creature_pos m5 c)) (pos_y (creature_pos m5 c)) = Some b"
      using b m4(3) by (simp add: m5_def)
    have "moveCreature c newPos m = Some (s, addCreature c b m5)"
      using move False m4(1) by (simp add: m5_def addCreature_def upd_leaf_def clearSpectatorCache_def)
    moreover note add = listed_add [OF m5, of c, unfolded on5 m4(6), OF _ at]
    moreover have "cached_ok D (addCreature c b m5)" for D by (rule cleared_ok) (simp_all add: addCreature_def m5_def)
    moreover have "on_map (addCreature c b m5) = on_map m" using add(2) c on3 by auto
    moreover have "getTile x y z (addCreature c b m5) = getTile x y z m" for x y z
      using getTile_removeCreature [OF m4(1)] getTile_same [of m5 m4] getTile_same [of m3 m] eq3
      by (simp add: getTile_addCreature m5_def)
    ultimately show thesis using that m4(4) eq3 unfolding s_def m1_def s1_def
      by (simp add: addCreature_def m5_def)
  qed
qed

section \<open>What can happen to the map\<close>

definition no_creatures :: "(nat \<Rightarrow> bool) \<Rightarrow> creature_map" where
  "no_creatures players = tile_map.extend empty_map \<lparr> creature_pos = (\<lambda>_. Position 0 0 0), is_player = players,
     spectatorCache = Map.empty, playersSpectatorCache = Map.empty \<rparr>"

definition has_tile :: "position \<Rightarrow> creature_map \<Rightarrow> bool" where
  "has_tile p m \<longleftrightarrow> getTile (pos_x p) (pos_y p) (pos_z p) m \<noteq> None"

text \<open>
  A map and the centres of searches that started from spectators found elsewhere (\<open>Monster::convinceCreature\<close>
  makes such a search), since a creature was placed, moved or removed last.
\<close>

inductive map_run :: "(nat \<Rightarrow> bool) \<Rightarrow> position set \<Rightarrow> creature_map \<Rightarrow> bool" for players where
  start: "map_run players {} (no_creatures players)"
| set_tile: "map_run players D m \<Longrightarrow> setTile x y z newTile items ground m = Some (calls, m') \<Longrightarrow> map_run players D m'"
| place: "map_run players D m \<Longrightarrow> \<not> on_map m c \<Longrightarrow> has_tile dest m \<Longrightarrow> place_creature c dest m = Some m' \<Longrightarrow>
    map_run players {} m'"
| move: "map_run players D m \<Longrightarrow> on_map m c \<Longrightarrow> has_tile newPos m \<Longrightarrow> moveCreature c newPos m = Some (s, m') \<Longrightarrow>
    map_run players {} m'"
| remove: "map_run players D m \<Longrightarrow> on_map m c \<Longrightarrow> remove_creature c m = Some m' \<Longrightarrow> map_run players {} m'"
| look: "map_run players D m \<Longrightarrow> getSpectators S p multifloor onlyPlayers minX maxX minY maxY m = (s, m') \<Longrightarrow>
    map_run players (if S = {} then D else insert p D) m'"

text \<open>Every creature stands on a tile.\<close>

definition map_ok :: "position set \<Rightarrow> creature_map \<Rightarrow> bool" where
  "map_ok D m \<longleftrightarrow> listed m \<and> cached_ok D m \<and> (\<forall>c. on_map m c \<longrightarrow> has_tile (creature_pos m c) m)"

lemma map_ok_start: "map_ok D (no_creatures players)"
proof -
  let ?m = "no_creatures players"
  have r: "root ?m = root empty_map" "leaves ?m = []" by (simp_all add: no_creatures_def tile_map.extend_def empty_map_def)
  have "linked ?m"
    by (rule linkedI) (simp_all add: r linkedD(1,2) [OF linked_empty])
  then have "listed ?m" by (simp add: listed_def r)
  moreover have "cached_ok D ?m" by (rule cleared_ok) (simp_all add: no_creatures_def tile_map.extend_def)
  ultimately show ?thesis by (simp add: map_ok_def on_map_def r)
qed

lemma has_tile_leaf: "linked m \<Longrightarrow> has_tile p m \<Longrightarrow> leaf_at (root m) (pos_x p) (pos_y p) \<noteq> None"
  unfolding has_tile_def by (rule getTile_leaf(1))

lemma setTile_total:
  assumes "linked m"
  obtains calls m' where "setTile x y z newTile items ground m = Some (calls, m')" and "linked m'" and "keeps_lists m m'"
    and "\<And>x' y' z'. getTile x' y' z' m \<noteq> None \<Longrightarrow> getTile x' y' z' m' \<noteq> None"
proof (cases "z < MAP_MAX_LAYERS")
  case True
  obtain m' where m': "setTile x y z newTile items ground m = Some (handed_over (getTile x y z m) items ground, m')"
    "linked m'" "keeps_lists m m'"
    "\<And>x' y' z'. getTile x' y' z' m' =
      (if (x', y', z') = (x, y, z) \<and> getTile x y z m = None then Some newTile else getTile x' y' z' m)"
    by (rule setTile_spec [OF assms True, of x y newTile items ground]) (rule that)
  have "getTile x' y' z' m' \<noteq> None" if "getTile x' y' z' m \<noteq> None" for x' y' z'
    unfolding m'(4) using that by simp
  with that m'(1-3) show thesis by blast
next
  case False
  then have "setTile x y z newTile items ground m = Some ([], m)" by (simp add: setTile_def not_less)
  moreover have "keeps_lists m m" by (simp add: keeps_lists_def)
  ultimately show thesis using that assms by blast
qed

lemma tile_map_more: "tile_map.more m' = tile_map.more m \<Longrightarrow> creature_pos m' = creature_pos m \<and> is_player m' = is_player m \<and>
    spectatorCache m' = spectatorCache m \<and> playersSpectatorCache m' = playersSpectatorCache m"
  for m m' :: creature_map
  by (cases m; cases m') simp

lemma keeps_lists_ok:
  assumes m: "map_ok D m" and m': "linked m'" "keeps_lists m m'"
    and tiles: "\<And>x y z. getTile x y z m \<noteq> None \<Longrightarrow> getTile x y z m' \<noteq> None"
  shows "map_ok D m'"
proof -
  have lm: "listed m" and cm: "cached_ok D m" and sm: "\<And>c. on_map m c \<Longrightarrow> has_tile (creature_pos m c) m"
    using m by (auto simp: map_ok_def)
  note more = tile_map_more [of m' m]
  have same: "creature_pos m' = creature_pos m" "is_player m' = is_player m" "spectatorCache m' = spectatorCache m"
    "playersSpectatorCache m' = playersSpectatorCache m"
    using more m'(2) by (simp_all add: keeps_lists_def)
  have on: "on_map m' = on_map m"
  proof
    fix c show "on_map m' c = on_map m c"
      using m'(2) unfolding on_map_def keeps_lists_def by (metis less_le_trans list.set(1) empty_iff)
  qed
  have "listed m'"
    unfolding listed_def
  proof (intro conjI allI impI ballI)
    show "linked m'" by (rule m'(1))
    fix a assume a: "a < length (leaves m')"
    have old: "if a < length (leaves m)
        then creature_list (leaves m' ! a) = creature_list (leaves m ! a) \<and> player_list (leaves m' ! a) = player_list (leaves m ! a)
        else creature_list (leaves m' ! a) = [] \<and> player_list (leaves m' ! a) = []"
      using m'(2) a unfolding keeps_lists_def by blast
    show "distinct (creature_list (leaves m' ! a))" "distinct (player_list (leaves m' ! a))"
      "set (player_list (leaves m' ! a)) = {c \<in> set (creature_list (leaves m' ! a)). is_player m' c}"
      using old listedD(2-4) [OF lm, of a] by (auto simp: same split: if_splits)
    fix c assume c: "c \<in> set (creature_list (leaves m' ! a))"
    then have "a < length (leaves m)" "c \<in> set (creature_list (leaves m ! a))" using old by (auto split: if_splits)
    from listedD(5) [OF lm this] m'(2)
    show "leaf_at (root m') (pos_x (creature_pos m' c)) (pos_y (creature_pos m' c)) = Some a"
      unfolding keeps_lists_def same by blast
  qed
  moreover have "spectators_in p v onlyPlayers m' = spectators_in p v onlyPlayers m" for p v onlyPlayers
    by (simp add: spectators_in_def on same)
  then have "cached_ok D m'" using cm by (simp add: cached_ok_def same)
  moreover have "has_tile (creature_pos m' c) m'" if "on_map m' c" for c
    using sm [of c] that tiles by (auto simp: on same has_tile_def)
  ultimately show ?thesis by (simp add: map_ok_def)
qed

lemma map_run_ok:
  assumes "map_run players D m"
  shows "map_ok D m"
  using assms
proof induction
  case start
  show ?case by (rule map_ok_start)
next
  case (set_tile D m x y z newTile items ground calls m')
  have m: "listed m" using set_tile.IH by (simp add: map_ok_def)
  obtain calls' m1 where m1: "setTile x y z newTile items ground m = Some (calls', m1)" "linked m1" "keeps_lists m m1"
    "\<And>x' y' z'. getTile x' y' z' m \<noteq> None \<Longrightarrow> getTile x' y' z' m1 \<noteq> None"
    by (rule setTile_total [OF listedD(1) [OF m], of x y z newTile items ground]) (rule that)
  with set_tile.hyps(2) have "m1 = m'" by simp
  with keeps_lists_ok [OF set_tile.IH m1(2-4)] show ?case by simp
next
  case (place D m c dest m')
  have m: "listed m" and stand: "\<And>c. on_map m c \<Longrightarrow> has_tile (creature_pos m c) m"
    using place.IH by (auto simp: map_ok_def)
  obtain m1 where m1: "place_creature c dest m = Some m1" "listed m1" "cached_ok {} m1"
    "creature_pos m1 = (creature_pos m)(c := dest)" "\<And>c'. on_map m1 c' \<longleftrightarrow> c' = c \<or> on_map m c'"
    using place_creature_ok [OF m place.hyps(2) has_tile_leaf [OF listedD(1) [OF m] place.hyps(3)]] by metis
  have "getTile x y z m1 = getTile x y z m" for x y z
    using m1(1) getTile_same [of "(clearSpectatorCache m)\<lparr> creature_pos := (creature_pos m)(c := dest) \<rparr>" m]
    by (auto simp: place_creature_def Let_def getTile_addCreature)
  then have "has_tile p m1 = has_tile p m" for p by (simp add: has_tile_def)
  with m1 place.hyps stand show ?case by (auto simp: map_ok_def)
next
  case (move D m c newPos s m')
  have m: "listed m" and stand: "\<And>c. on_map m c \<Longrightarrow> has_tile (creature_pos m c) m"
    using move.IH by (auto simp: map_ok_def)
  obtain s1 m1 where m1: "moveCreature c newPos m = Some (s1, m1)" "listed m1" "cached_ok {} m1"
    "creature_pos m1 = (creature_pos m)(c := newPos)" "on_map m1 = on_map m"
    "\<And>x y z. getTile x y z m1 = getTile x y z m"
    using moveCreature_ok [OF m move.hyps(2) move.hyps(3) [unfolded has_tile_def]] by metis
  then have "has_tile p m1 = has_tile p m" for p by (simp add: has_tile_def)
  with m1 move.hyps stand show ?case by (auto simp: map_ok_def)
next
  case (remove D m c m')
  have m: "listed m" and stand: "\<And>c. on_map m c \<Longrightarrow> has_tile (creature_pos m c) m"
    using remove.IH by (auto simp: map_ok_def)
  obtain m1 where m1: "remove_creature c m = Some m1" "listed m1" "cached_ok {} m1"
    "creature_pos m1 = creature_pos m" "\<And>c'. on_map m1 c' \<longleftrightarrow> on_map m c' \<and> c' \<noteq> c"
    using remove_creature_ok [OF m remove.hyps(2)] by metis
  have "getTile x y z m1 = getTile x y z m" for x y z
    using m1(1) getTile_removeCreature
    by (auto simp: remove_creature_def getTile_clear split: bind_splits)
  then have "has_tile p m1 = has_tile p m" for p by (simp add: has_tile_def)
  with m1 remove.hyps stand show ?case by (auto simp: map_ok_def)
next
  case (look D m S p multifloor onlyPlayers minX maxX minY maxY s m')
  have m: "listed m" and cached: "cached_ok D m" and stand: "\<And>c. on_map m c \<Longrightarrow> has_tile (creature_pos m c) m"
    using look.IH by (auto simp: map_ok_def)
  show ?case
  proof (cases "pos_z p < MAP_MAX_LAYERS")
    case True
    have m1: "same_creatures m m'" "cached_ok (if S = {} then D else insert p D) m'"
      using getSpectators_exact [OF m cached True, of S multifloor onlyPlayers minX maxX minY maxY] look.hyps(2)
      by (metis prod.inject)+
    have "has_tile q m' = has_tile q m" for q
      using getTile_same [of m' m] m1(1) by (simp add: same_creatures_def has_tile_def)
    moreover have "creature_pos m' = creature_pos m" using m1(1) by (simp add: same_creatures_def)
    ultimately show ?thesis using m1(2) same_creatures_listed [OF m1(1) m] same_creatures_in(1) [OF m1(1)] stand
      by (simp add: map_ok_def)
  next
    case False
    with look.hyps(2) have "m' = m" by (auto simp: getSpectators_def not_less split: if_splits)
    with look.IH show ?thesis by (auto simp: map_ok_def cached_ok_def)
  qed
qed

section \<open>Properties\<close>

text \<open>
  C30:
  Whatever has happened to the map, a search for spectators finds all creatures on the map that are in
  the view, beside those that the caller had already, and no others: no creature is missed at the border of
  a leaf or of the map, and no answer from the caches is out of date. Only where a search has started from
  spectators found elsewhere since a creature was placed, moved or removed last, others may be found too.
\<close>

theorem spectators_exact:
  assumes "map_run players D m" and "pos_z p < MAP_MAX_LAYERS"
  shows "S \<union> {c. on_map m c \<and> (onlyPlayers \<longrightarrow> is_player m c) \<and>
             is_spectator p (view_of p multifloor minX maxX minY maxY) (creature_pos m c)}
      \<subseteq> fst (getSpectators S p multifloor onlyPlayers minX maxX minY maxY m) \<and>
    (p \<notin> D \<longrightarrow> fst (getSpectators S p multifloor onlyPlayers minX maxX minY maxY m) =
      S \<union> {c. on_map m c \<and> (onlyPlayers \<longrightarrow> is_player m c) \<and>
             is_spectator p (view_of p multifloor minX maxX minY maxY) (creature_pos m c)})"
proof -
  have "listed m" "cached_ok D m" using map_run_ok [OF assms(1)] by (simp_all add: map_ok_def)
  then obtain r m' where r: "getSpectators S p multifloor onlyPlayers minX maxX minY maxY m = (r, m')"
    "S \<union> spectators_in p (view_of p multifloor minX maxX minY maxY) onlyPlayers m \<subseteq> r"
    "p \<notin> D \<Longrightarrow> r = S \<union> spectators_in p (view_of p multifloor minX maxX minY maxY) onlyPlayers m"
    by (rule getSpectators_exact [OF _ _ assms(2), of m D S multifloor onlyPlayers minX maxX minY maxY]) (rule that)
  show ?thesis unfolding r(1) fst_conv spectators_in_def [symmetric] using r(2,3) by blast
qed

text \<open>A map with two squares and one creature.\<close>

lemma demo_map:
  obtains m where "map_run (\<lambda>c. c = 5) {} m" and "on_map m 5"
    and "creature_pos m 5 = Position 100 100 7" and "has_tile (Position 104 100 7) m" and "is_player m 5"
proof -
  let ?m0 = "no_creatures (\<lambda>c. c = 5)"
  have l0: "linked ?m0" using map_ok_start [of "{}" "\<lambda>c. c = 5"] listedD(1) by (auto simp: map_ok_def)
  have z: "(7 :: u8) < MAP_MAX_LAYERS" by (simp add: MAP_MAX_LAYERS_def)
  obtain m1 where m1: "setTile 100 100 7 1 None None ?m0 = Some (handed_over (getTile 100 100 7 ?m0) None None, m1)"
    "linked m1" "keeps_lists ?m0 m1"
    "\<And>x' y' z'. getTile x' y' z' m1 =
      (if (x', y', z') = (100, 100, 7) \<and> getTile 100 100 7 ?m0 = None then Some 1 else getTile x' y' z' ?m0)"
    by (rule setTile_spec [OF l0 z, of 100 100 1 None None]) (rule that)
  have t1: "getTile 100 100 7 m1 \<noteq> None" unfolding m1(4) by simp
  obtain m2 where m2: "setTile 104 100 7 2 None None m1 = Some (handed_over (getTile 104 100 7 m1) None None, m2)"
    "linked m2" "keeps_lists m1 m2"
    "\<And>x' y' z'. getTile x' y' z' m2 =
      (if (x', y', z') = (104, 100, 7) \<and> getTile 104 100 7 m1 = None then Some 2 else getTile x' y' z' m1)"
    by (rule setTile_spec [OF m1(2) z, of 104 100 2 None None]) (rule that)
  have t2: "getTile 104 100 7 m2 \<noteq> None" "getTile 100 100 7 m2 \<noteq> None" unfolding m2(4) using t1 by simp_all
  have run: "map_run (\<lambda>c. c = 5) {} m2"
    by (rule map_run.set_tile [OF map_run.set_tile [OF map_run.start m1(1)] m2(1)])
  have ok: "listed m2" using map_run_ok [OF run] by (simp add: map_ok_def)
  have "\<not> on_map m2 5"
    using m1(3) m2(3) by (auto simp: on_map_def keeps_lists_def no_creatures_def tile_map.extend_def empty_map_def split: if_splits)
  moreover have "has_tile (Position 100 100 7) m2" using t2 by (simp add: has_tile_def)
  moreover obtain m3 where m3: "place_creature 5 (Position 100 100 7) m2 = Some m3"
    "creature_pos m3 = (creature_pos m2)(5 := Position 100 100 7)" "\<And>c'. on_map m3 c' \<longleftrightarrow> c' = 5 \<or> on_map m2 c'"
    "is_player m3 = is_player m2"
    using place_creature_ok [OF ok calculation(1) has_tile_leaf [OF m2(2) calculation(2)]] by metis
  ultimately have "map_run (\<lambda>c. c = 5) {} m3" using run map_run.place by metis
  moreover have "has_tile (Position 104 100 7) m3"
    using m3(1) t2 getTile_same [of "(clearSpectatorCache m2)\<lparr> creature_pos := (creature_pos m2)(5 := Position 100 100 7) \<rparr>" m2]
    by (auto simp: has_tile_def place_creature_def Let_def getTile_addCreature)
  moreover have "is_player m3 5"
    using m3(4) m1(3) m2(3) tile_map_more [of m2 m1] tile_map_more [of m1 ?m0]
    by (simp add: keeps_lists_def no_creatures_def tile_map.extend_def)
  ultimately show thesis using that m3(2,3) by simp
qed

theorem spectators_exact_witness:
  "\<exists>m. on_map m 5 \<and> 5 \<in> fst (getSpectators {} (Position 104 100 7) True True 0 0 0 0 m)"
proof -
  obtain m where m: "map_run (\<lambda>c. c = 5) {} m" "on_map m 5" "creature_pos m 5 = Position 100 100 7"
    "is_player m 5"
    by (rule demo_map) (rule that)
  then show ?thesis
    using spectators_exact [OF m(1), of "Position 104 100 7" "{}" True True 0 0 0 0]
    by (auto simp: MAP_MAX_LAYERS_def is_spectator_def view_of_def range_z_def Let_def distance_defs maxViewportX_def maxViewportY_def)
qed

text \<open>
  C31:
  Whatever has happened to the map, a creature on it can be moved to any square and removed, and one
  that is not can be placed on any square: no leaf is missing and no creature is missing from its leaf.
  A move keeps the other creatures where they are, and the spectators of a move are those of the two places
  (and maybe others, only where a search has started from spectators found elsewhere, as in C30).
\<close>

theorem creature_moves_defined:
  assumes "map_run players D m" and "has_tile newPos m"
  shows "if on_map m c
    then (\<exists>s m'. moveCreature c newPos m = Some (s, m') \<and>
          spectators_in (creature_pos m c) (full_view (creature_pos m c)) False m \<union>
            spectators_in newPos (full_view newPos) False m \<subseteq> s \<and>
          (creature_pos m c \<notin> D \<and> newPos \<notin> D \<longrightarrow>
            s = spectators_in (creature_pos m c) (full_view (creature_pos m c)) False m \<union>
                spectators_in newPos (full_view newPos) False m) \<and>
          creature_pos m' = (creature_pos m)(c := newPos) \<and> on_map m' = on_map m) \<and>
         (\<exists>m'. remove_creature c m = Some m' \<and> creature_pos m' = creature_pos m \<and> on_map m' = (on_map m)(c := False))
    else (\<exists>m'. place_creature c newPos m = Some m' \<and>
          creature_pos m' = (creature_pos m)(c := newPos) \<and> on_map m' = (on_map m)(c := True))"
proof -
  have ok: "map_ok D m" by (rule map_run_ok [OF assms(1)])
  then have m: "listed m" and cached: "cached_ok D m" by (simp_all add: map_ok_def)
  have tile: "getTile (pos_x newPos) (pos_y newPos) (pos_z newPos) m \<noteq> None" using assms(2) by (simp add: has_tile_def)
  note z = getTile_leaf(2) [OF listedD(1) [OF m] tile]
  show ?thesis
  proof (cases "on_map m c")
    case True
    let ?p = "creature_pos m c"
    have "has_tile ?p m" using ok True by (simp add: map_ok_def)
    then have z': "pos_z ?p < MAP_MAX_LAYERS" unfolding has_tile_def by (rule getTile_leaf(2) [OF listedD(1) [OF m]])
    let ?old = "spectators_in ?p (full_view ?p) False m" and ?new = "spectators_in newPos (full_view newPos) False m"
    obtain r1 m1 where m1: "getSpectators {} ?p True False 0 0 0 0 m = (r1, m1)" "?old \<subseteq> r1" "?p \<notin> D \<Longrightarrow> r1 = ?old"
      "same_creatures m m1" "cached_ok D m1"
      using getSpectators_exact [OF m cached z', of "{}" True False 0 0 0 0] by auto
    obtain r2 m2 where m2: "getSpectators r1 newPos True False 0 0 0 0 m1 = (r2, m2)" "r1 \<union> ?new \<subseteq> r2"
      "newPos \<notin> D \<Longrightarrow> r2 = r1 \<union> ?new"
      using getSpectators_exact [OF same_creatures_listed [OF m1(4) m] m1(5) z, of r1 True False 0 0 0 0]
      unfolding same_creatures_in(2) [OF m1(4)] by metis
    obtain s m' where m': "moveCreature c newPos m = Some (s, m')" "creature_pos m' = (creature_pos m)(c := newPos)"
      "on_map m' = on_map m"
      and s: "s = fst (getSpectators (fst (getSpectators {} ?p True False 0 0 0 0 m)) newPos True False
        0 0 0 0 (snd (getSpectators {} ?p True False 0 0 0 0 m)))"
      by (rule moveCreature_ok [OF m True tile]) (rule that)
    have "s = r2" unfolding s m1(1) by (simp add: m2(1))
    then have "?old \<union> ?new \<subseteq> s" "?p \<notin> D \<and> newPos \<notin> D \<longrightarrow> s = ?old \<union> ?new" using m1(2,3) m2(2,3) by auto
    moreover obtain m'' where "remove_creature c m = Some m''" "creature_pos m'' = creature_pos m"
      "\<And>c'. on_map m'' c' \<longleftrightarrow> on_map m c' \<and> c' \<noteq> c"
      by (rule remove_creature_ok [OF m True]) (rule that)
    moreover from this(3) have "on_map m'' = (on_map m)(c := False)" by (intro ext) simp
    ultimately show ?thesis using True m' by auto
  next
    case False
    obtain m' where "place_creature c newPos m = Some m'" "creature_pos m' = (creature_pos m)(c := newPos)"
      "\<And>c'. on_map m' c' \<longleftrightarrow> c' = c \<or> on_map m c'"
      by (rule place_creature_ok [OF m False has_tile_leaf [OF listedD(1) [OF m] assms(2)]]) (rule that)
    moreover from this(3) have "on_map m' = (on_map m)(c := True)" by (intro ext) simp
    ultimately show ?thesis using False by auto
  qed
qed

theorem creature_moves_defined_witness:
  "\<exists>m m' s. on_map m 5 \<and> moveCreature 5 (Position 104 100 7) m = Some (s, m') \<and> creature_pos m' 5 = Position 104 100 7"
proof -
  obtain m where m: "map_run (\<lambda>c. c = 5) {} m" "on_map m 5" "has_tile (Position 104 100 7) m"
    by (rule demo_map) (rule that)
  show ?thesis using creature_moves_defined [OF m(1,3), of 5] m(2) by auto
qed

text \<open>
  A search that starts from creatures found elsewhere stores them in the cache with those it finds: the
  next search at that place, from nothing, gives them all, wherever they are.
\<close>

lemma joined_spectators_cached:
  assumes "map_run players D m" and "pos_z p < MAP_MAX_LAYERS"
    and "spectatorCache m p = None"
  shows "fst (getSpectators {} p True False 0 0 0 0 (snd (getSpectators S p True False 0 0 0 0 m))) =
    S \<union> spectators_in p (full_view p) False m"
proof -
  have m: "listed m" using map_run_ok [OF assms(1)] by (simp add: map_ok_def)
  have nz: "\<not> pos_z p \<ge> MAP_MAX_LAYERS" using assms(2) by simp
  have v: "minRangeX (full_view p) = - maxViewportX" "maxRangeX (full_view p) = maxViewportX"
    "minRangeY (full_view p) = - maxViewportY" "maxRangeY (full_view p) = maxViewportY"
    by (simp_all add: view_of_def)
  let ?s = "S \<union> spectators_in p (full_view p) False m"
  have "getSpectators S p True False 0 0 0 0 m = (?s, m\<lparr> spectatorCache := (spectatorCache m)(p \<mapsto> ?s) \<rparr>)"
    unfolding getSpectators_def Let_def using nz by (simp add: v assms(3) getSpectatorsInternal_exact [OF m])
  then show ?thesis unfolding getSpectators_def Let_def using nz by (simp add: v)
qed

end
