(* ===== verification/Levels.thy ===== *)
theory Levels
  imports Position
begin

text \<open>
  Experience and levels of a player (\<open>addExperience\<close>, \<open>removeExperience\<close>, the loss of levels in \<open>death\<close>
  and \<open>getPercentLevel\<close> of \<open>player.cpp\<close>, \<open>getExpForLevel\<close> of \<open>player.h\<close>). A script may change an amount
  before it counts, so the amounts go through a function. What a death takes is computed in floating
  point and is an input.
\<close>

section \<open>State\<close>

record vocation_gains =
  gainHP :: u32
  gainMana :: u32
  gainCap :: u32

record level_state =
  experience :: u64
  level :: u32
  levelPercent :: u8
  healthMax :: u32
  health :: u32
  manaMax :: u32
  mana :: u32
  capacity :: u32

definition getExpForLevel :: "u32 \<Rightarrow> u64" where
  "getExpForLevel lv =
     (let l = scast (lv - 1) :: u64 in ((50 * l * l * l) - (150 * l * l) + (400 * l)) div 3)"

definition getPercentLevel :: "u64 \<Rightarrow> u64 \<Rightarrow> u8" where
  "getPercentLevel count nextLevelCount =
     (if nextLevelCount = 0 then 0
      else
        (let result = ucast ((count * 100) div nextLevelCount) :: u8
         in if result > 100 then 0 else result))"

text \<open>The maximum of 0 and a difference read as a signed number.\<close>

definition at_least_0 :: "u32 \<Rightarrow> u32" where
  "at_least_0 v = (if sint v < 0 then 0 else v)"

section \<open>Gaining\<close>

definition gain_level :: "vocation_gains \<Rightarrow> level_state \<Rightarrow> level_state" where
  "gain_level g p = p\<lparr> level := level p + 1,
     healthMax := healthMax p + gainHP g, health := health p + gainHP g,
     manaMax := manaMax p + gainMana g, mana := mana p + gainMana g,
     capacity := capacity p + gainCap g \<rparr>"

lemma unat_lt2p64: "unat (n :: u64) < 18446744073709551616"
  using unsigned_less [of n] by simp

lemma higher_word: "\<not> n' \<le> n \<Longrightarrow> 18446744073709551616 - unat n' < 18446744073709551616 - unat n" for n n' :: u64
  using unat_lt2p64 [of n'] by (simp add: word_le_nat_alt)

function level_up :: "vocation_gains \<Rightarrow> level_state \<Rightarrow> u64 \<Rightarrow> u64 \<Rightarrow> level_state \<times> u64 \<times> u64" where
  "level_up g p currLevelExp nextLevelExp =
     (if experience p \<ge> nextLevelExp then
        (let p' = gain_level g p;
             nextLevelExp' = getExpForLevel (level p' + 1)
         in if nextLevelExp \<ge> nextLevelExp' then (p', nextLevelExp, nextLevelExp')
            else level_up g p' nextLevelExp nextLevelExp')
      else (p, currLevelExp, nextLevelExp))"
  by pat_completeness auto
termination
  by (relation "measure (\<lambda>(g, p, c, n). 2 ^ 64 - unat n)") (simp, auto simp: higher_word)

declare level_up.simps [simp del]

definition set_percent :: "u64 \<Rightarrow> u64 \<Rightarrow> level_state \<Rightarrow> level_state" where
  "set_percent currLevelExp nextLevelExp p =
     p\<lparr> levelPercent := (if nextLevelExp > currLevelExp
                        then getPercentLevel (experience p - currLevelExp) (nextLevelExp - currLevelExp) else 0) \<rparr>"

definition refill :: "u32 \<Rightarrow> level_state \<Rightarrow> level_state" where
  "refill oldLevel p = (if oldLevel \<noteq> level p then p\<lparr> health := healthMax p, mana := manaMax p \<rparr> else p)"

definition addExperience :: "(u64 \<Rightarrow> u64) \<Rightarrow> vocation_gains \<Rightarrow> u64 \<Rightarrow> level_state \<Rightarrow> level_state" where
  "addExperience onGain g exp p =
     (let currLevelExp = getExpForLevel (level p);
          nextLevelExp = getExpForLevel (level p + 1)
      in if currLevelExp \<ge> nextLevelExp then p\<lparr> levelPercent := 0 \<rparr>
         else if onGain exp = 0 then p
         else
           (let p1 = p\<lparr> experience := experience p + onGain exp \<rparr>;
                (p2, curr, next) = level_up g p1 currLevelExp nextLevelExp
            in set_percent curr next (refill (level p) p2)))"

section \<open>Losing\<close>

definition lose_level :: "vocation_gains \<Rightarrow> level_state \<Rightarrow> level_state" where
  "lose_level g p = p\<lparr> level := level p - 1, healthMax := at_least_0 (healthMax p - gainHP g),
     manaMax := at_least_0 (manaMax p - gainMana g), capacity := at_least_0 (capacity p - gainCap g) \<rparr>"

function level_down :: "vocation_gains \<Rightarrow> level_state \<Rightarrow> level_state" where
  "level_down g p =
     (if level p > 1 \<and> experience p < getExpForLevel (level p) then level_down g (lose_level g p) else p)"
  by pat_completeness auto
termination
proof (relation "measure (\<lambda>(g, p). unat (level p))")
  fix g :: vocation_gains and p :: level_state
  assume "1 < level p \<and> experience p < getExpForLevel (level p)"
  then have "level p \<noteq> 0" by auto
  then show "((g, lose_level g p), (g, p)) \<in> measure (\<lambda>(g, p). unat (level p))"
    using unat_gt_0 [of "level p"] by (simp add: lose_level_def unat_minus_one)
qed simp

declare level_down.simps [simp del]

text \<open>The difference is read as a signed number.\<close>

definition removeExperience :: "(u64 \<Rightarrow> u64) \<Rightarrow> vocation_gains \<Rightarrow> u64 \<Rightarrow> level_state \<Rightarrow> level_state" where
  "removeExperience onLose g exp p =
     (if experience p = 0 \<or> exp = 0 then p
      else if onLose exp = 0 then p
      else
        (let left = experience p - onLose exp;
             p1 = p\<lparr> experience := (if sint left < 0 then 0 else left) \<rparr>;
             p2 = refill (level p) (level_down g p1)
         in set_percent (getExpForLevel (level p2)) (getExpForLevel (level p2 + 1)) p2))"

text \<open>The level loss of a death: the amount a script has left, and whether the vocation is \<open>VOCATION_NONE\<close>.\<close>

definition death_level_loss :: "vocation_gains \<Rightarrow> bool \<Rightarrow> u64 \<Rightarrow> level_state \<Rightarrow> level_state" where
  "death_level_loss g no_vocation expLoss p =
     (if expLoss \<noteq> 0 then
        (let p1 = (if no_vocation \<or> level p > 7 then p\<lparr> experience := experience p - expLoss \<rparr> else p);
             p2 = level_down g p1
         in set_percent (getExpForLevel (level p2)) (getExpForLevel (level p2 + 1)) p2)
      else p)"

section \<open>Levels in numbers\<close>

text \<open>The experience of a level, without a bound; the words agree up to the level below.\<close>

definition exp_for :: "int \<Rightarrow> int" where
  "exp_for lv = (let m = lv - 1 in 50 * (m ^ 3 - 3 * m\<^sup>2 + 8 * m) div 3)"

definition top_level :: int where "top_level = 700000"

lemma exp_for_times3: "3 * exp_for lv = 50 * ((lv - 1) ^ 3 - 3 * (lv - 1)\<^sup>2 + 8 * (lv - 1))"
proof -
  let ?m = "lv - 1"
  have "3 dvd ?m * (?m - 1) * (?m + 1)"
  proof -
    have "?m mod 3 = 0 \<or> ?m mod 3 = 1 \<or> ?m mod 3 = 2" by presburger
    then have "3 dvd ?m \<or> 3 dvd (?m - 1) \<or> 3 dvd (?m + 1)" by presburger
    then show ?thesis by (auto intro: dvd_mult dvd_mult2)
  qed
  moreover have "?m ^ 3 - 3 * ?m\<^sup>2 + 8 * ?m = ?m * (?m - 1) * (?m + 1) + 3 * (3 * ?m - ?m\<^sup>2)"
    by (simp add: power2_eq_square power3_eq_cube algebra_simps)
  ultimately have "3 dvd (?m ^ 3 - 3 * ?m\<^sup>2 + 8 * ?m)" by (metis dvd_add dvd_triv_left)
  then have "3 dvd 50 * (?m ^ 3 - 3 * ?m\<^sup>2 + 8 * ?m)" by (rule dvd_mult)
  then show ?thesis unfolding exp_for_def Let_def by (rule dvd_mult_div_cancel)
qed

lemma exp_for_step: "exp_for (lv + 1) = exp_for lv + 50 * ((lv - 1)\<^sup>2 - (lv - 1) + 2)"
  using exp_for_times3 [of "lv + 1"] exp_for_times3 [of lv]
  by (simp add: power2_eq_square power3_eq_cube algebra_simps)

lemma exp_for_less: "exp_for lv < exp_for (lv + 1)"
proof -
  let ?m = "lv - 1"
  define q r where "q = ?m\<^sup>2" and "r = (?m - 1)\<^sup>2"
  have "2 * (q - ?m + 2) = r + q + 3" by (simp add: q_def r_def power2_eq_square algebra_simps)
  moreover have "0 < r + q + 3" by (simp add: q_def r_def add_nonneg_pos)
  ultimately have "0 < 2 * (q - ?m + 2)" by simp
  then have "0 < q - ?m + 2" by simp
  then show ?thesis unfolding exp_for_step q_def by simp
qed

lemma exp_for_mono: "a < b \<Longrightarrow> exp_for a < exp_for b"
proof -
  assume "a < b"
  have "exp_for a < exp_for (a + 1 + int n)" for n
  proof (induction n)
    case 0
    then show ?case using exp_for_less by simp
  next
    case (Suc n)
    then show ?case using exp_for_less [of "a + 1 + int n"] by (simp add: algebra_simps)
  qed
  from this [of "nat (b - a - 1)"] \<open>a < b\<close> show ?thesis by simp
qed

lemma exp_for_1: "exp_for 1 = 0" by (simp add: exp_for_def)

lemma exp_for_top: "exp_for top_level = 5716617666864999800"
  by (simp add: exp_for_def top_level_def)

lemma getExpForLevel_exact:
  assumes "1 \<le> uint lv" and "uint lv \<le> top_level"
  shows "uint (getExpForLevel lv) = exp_for (uint lv)"
proof -
  define m where "m = uint lv - 1"
  have m: "0 \<le> m" "m \<le> 699999" using assms by (simp_all add: m_def top_level_def)
  have "uint (lv - 1) = m"
    using assms(1) uint_sub_if' [of lv 1] by (simp add: m_def)
  moreover have "sint (lv - 1) = uint (lv - 1)"
    using m calculation by (simp add: sint_uint signed_take_bit_int_eq_self)
  ultimately have "sint (lv - 1) = m" by simp
  moreover define l where "l = (scast (lv - 1) :: u64)"
  ultimately have l: "l = word_of_int m" by (simp add: scast_eq)
  have "(50 * l * l * l) - (150 * l * l) + (400 * l) = word_of_int (50 * m * m * m - 150 * m * m + 400 * m)"
    unfolding l by simp
  moreover have "50 * m * m * m - 150 * m * m + 400 * m = 3 * exp_for (uint lv)"
    unfolding exp_for_times3 m_def [symmetric] by (simp add: power2_eq_square power3_eq_cube algebra_simps)
  ultimately have w: "getExpForLevel lv = word_of_int (3 * exp_for (uint lv)) div 3"
    unfolding getExpForLevel_def Let_def l_def [symmetric] by simp
  have "exp_for 1 \<le> exp_for (uint lv)" "exp_for (uint lv) \<le> exp_for top_level"
    using assms exp_for_mono [of 1 "uint lv"] exp_for_mono [of "uint lv" top_level] by (auto simp: le_less)
  then have "0 \<le> exp_for (uint lv)" "exp_for (uint lv) \<le> 5716617666864999800"
    by (simp_all add: exp_for_1 exp_for_top)
  then have "uint (word_of_int (3 * exp_for (uint lv)) :: u64) = 3 * exp_for (uint lv)"
    unfolding uint_word_of_int by (intro mod_pos_pos_trivial) simp_all
  then show ?thesis unfolding w uint_div by simp
qed

section \<open>The level fits the experience\<close>

definition level_fits :: "level_state \<Rightarrow> bool" where
  "level_fits p \<longleftrightarrow> 1 \<le> uint (level p) \<and> uint (level p) < top_level \<and>
     exp_for (uint (level p)) \<le> uint (experience p) \<and> uint (experience p) < exp_for (uint (level p) + 1)"

definition percent_fits :: "level_state \<Rightarrow> bool" where
  "percent_fits p \<longleftrightarrow> uint (levelPercent p) =
     100 * (uint (experience p) - exp_for (uint (level p))) div
     (exp_for (uint (level p) + 1) - exp_for (uint (level p)))"

lemma level_below: "exp_for a \<le> e \<Longrightarrow> e < exp_for b \<Longrightarrow> a < b"
  using exp_for_mono [of b a] by (cases a b rule: linorder_cases) simp_all

lemma next_level: "uint lv < top_level \<Longrightarrow> uint (lv + 1) = uint lv + 1" for lv :: u32
  using uint_add_lem [of lv 1] by (simp add: top_level_def)

lemma level_up_fits:
  assumes "1 \<le> uint (level p)" "uint (level p) < top_level" "exp_for (uint (level p)) \<le> uint (experience p)"
    and "uint (experience p) < exp_for top_level"
    and "c = getExpForLevel (level p)" "n = getExpForLevel (level p + 1)"
  shows "\<exists>p'. level_up g p c n = (p', getExpForLevel (level p'), getExpForLevel (level p' + 1)) \<and> level_fits p' \<and>
    experience p' = experience p"
  using assms
proof (induction "nat (top_level - uint (level p))" arbitrary: p c n rule: less_induct)
  case less
  note up = next_level [OF less.prems(2)]
  have n: "uint n = exp_for (uint (level p) + 1)"
    using getExpForLevel_exact [of "level p + 1"] less.prems(1,2) unfolding less.prems(6) up by simp
  show ?case
  proof (cases "experience p \<ge> n")
    case False
    then have "uint (experience p) < exp_for (uint (level p) + 1)" by (simp add: word_le_def n)
    then have "level_fits p" using less.prems(1-3) by (simp add: level_fits_def)
    moreover have "level_up g p c n = (p, c, n)" using False by (simp add: level_up.simps)
    ultimately show ?thesis using less.prems(5,6) by blast
  next
    case True
    let ?p = "gain_level g p"
    have p': "level ?p = level p + 1" "experience ?p = experience p" by (simp_all add: gain_level_def)
    have reach: "exp_for (uint (level p) + 1) \<le> uint (experience p)" using True by (simp add: word_le_def n)
    then have below: "uint (level p) + 1 < top_level" using level_below less.prems(4) by blast
    have l': "uint (level ?p) = uint (level p) + 1" by (simp add: p' up)
    have "uint (level ?p + 1) = uint (level p) + 1 + 1" using next_level [of "level ?p"] below l' by simp
    then have n': "uint (getExpForLevel (level ?p + 1)) = exp_for (uint (level p) + 1 + 1)"
      using getExpForLevel_exact [of "level ?p + 1"] less.prems(1) below by simp
    have "\<not> n \<ge> getExpForLevel (level ?p + 1)"
      using exp_for_less [of "uint (level p) + 1"] unfolding word_le_def n n' by (simp only: not_le)
    then have "level_up g p c n = level_up g ?p n (getExpForLevel (level ?p + 1))"
      using True by (subst level_up.simps) (simp add: Let_def)
    moreover have "\<exists>p'. level_up g ?p n (getExpForLevel (level ?p + 1)) =
        (p', getExpForLevel (level p'), getExpForLevel (level p' + 1)) \<and> level_fits p' \<and> experience p' = experience ?p"
      using less.prems below reach l' p' by (intro less.hyps) auto
    ultimately show ?thesis by (simp add: p')
  qed
qed

lemma level_down_fits:
  assumes "1 \<le> uint (level p)" "uint (level p) < top_level" "uint (experience p) < exp_for (uint (level p) + 1)"
  shows "level_fits (level_down g p) \<and> experience (level_down g p) = experience p"
  using assms
proof (induction g p rule: level_down.induct)
  case (1 g p)
  have exact: "uint (getExpForLevel (level p)) = exp_for (uint (level p))"
    using getExpForLevel_exact 1(2,3) by simp
  show ?case
  proof (cases "level p > 1 \<and> experience p < getExpForLevel (level p)")
    case True
    then have gt: "1 < uint (level p)" by (simp add: word_less_def)
    have less: "uint (experience p) < exp_for (uint (level p))" using True exact by (simp add: word_less_def)
    have l': "uint (level (lose_level g p)) = uint (level p) - 1" "experience (lose_level g p) = experience p"
      using gt uint_sub_lem [of 1 "level p"] by (simp_all add: lose_level_def)
    have "level_down g p = level_down g (lose_level g p)" using True by (subst level_down.simps) simp
    with 1(1) [OF True] gt 1(3) less l' show ?thesis by simp
  next
    case False
    then have "level_down g p = p" by (subst level_down.simps) (rule if_not_P)
    moreover have "exp_for (uint (level p)) \<le> uint (experience p)"
    proof (cases "level p > 1")
      case True
      with False exact show ?thesis by (simp add: word_less_def not_less)
    next
      case False
      then have "uint (level p) = 1" using 1(2) by (simp add: word_less_def)
      then show ?thesis by (simp add: exp_for_1)
    qed
    ultimately show ?thesis using 1(2-4) by (simp add: level_fits_def)
  qed
qed

lemma refill_simps [simp]: "level (refill l p) = level p" "experience (refill l p) = experience p"
  by (simp_all add: refill_def)

lemma set_percent_fits:
  assumes fits: "level_fits p"
  shows "level_fits (set_percent (getExpForLevel (level p)) (getExpForLevel (level p + 1)) p)"
    and "percent_fits (set_percent (getExpForLevel (level p)) (getExpForLevel (level p + 1)) p)"
proof -
  let ?c = "getExpForLevel (level p)" and ?n = "getExpForLevel (level p + 1)" and ?l = "uint (level p)"
  have l: "1 \<le> ?l" "?l < top_level" and e: "exp_for ?l \<le> uint (experience p)" "uint (experience p) < exp_for (?l + 1)"
    using fits by (simp_all add: level_fits_def)
  show "level_fits (set_percent ?c ?n p)" using fits by (simp add: level_fits_def set_percent_def)
  have c: "uint ?c = exp_for ?l" using getExpForLevel_exact l by simp
  have n: "uint ?n = exp_for (?l + 1)" using getExpForLevel_exact [of "level p + 1"] l next_level [OF l(2)] by simp
  define d k where "d = exp_for (?l + 1) - exp_for ?l" and "k = uint (experience p) - exp_for ?l"
  have k: "0 \<le> k" "k < d" using e by (simp_all add: d_def k_def)
  have "(?l - 1) * (?l - 1) \<le> 699998 * 699998" using l by (intro mult_mono) (simp_all add: top_level_def)
  then have d: "d \<le> 24499860000300" using l(1) by (simp add: d_def exp_for_step power2_eq_square)
  have words: "uint (experience p - ?c) = k" "uint (?n - ?c) = d"
    using uint_sub_lem [of ?c "experience p"] uint_sub_lem [of ?c ?n] e exp_for_less [of ?l]
    by (simp_all add: c n k_def d_def)
  have q: "0 \<le> k * 100 div d" "k * 100 div d < 100"
  proof -
    show "0 \<le> k * 100 div d" using k by (simp add: pos_imp_zdiv_nonneg_iff)
    have "k * 100 div d * d \<le> k * 100" using k by (simp add: div_mod_decomp_int minus_mod_eq_div_mult [symmetric])
    also have "\<dots> < 100 * d" using k by simp
    finally show "k * 100 div d < 100" using k by simp
  qed
  have "uint ((experience p - ?c) * 100) = k * 100"
    using uint_mult_lem [of "experience p - ?c" 100] k d by (simp add: words)
  then have quot: "uint ((experience p - ?c) * 100 div (?n - ?c)) = k * 100 div d" by (simp add: uint_div words)
  then have cast: "uint (ucast ((experience p - ?c) * 100 div (?n - ?c)) :: u8) = k * 100 div d"
    using q by (simp add: unsigned_ucast_eq take_bit_int_eq_self)
  have "?n - ?c \<noteq> 0" using words(2) k by auto
  moreover have "\<not> (ucast ((experience p - ?c) * 100 div (?n - ?c)) :: u8) > 100"
    using cast q by (simp add: word_less_def)
  moreover have "?n > ?c" using exp_for_less [of ?l] by (simp add: word_less_def c n)
  ultimately have "levelPercent (set_percent ?c ?n p) = ucast ((experience p - ?c) * 100 div (?n - ?c))"
    by (simp add: set_percent_def getPercentLevel_def Let_def)
  then have "uint (levelPercent (set_percent ?c ?n p)) = k * 100 div d" by (simp only: cast)
  moreover have "level (set_percent ?c ?n p) = level p" "experience (set_percent ?c ?n p) = experience p"
    by (simp_all add: set_percent_def)
  ultimately show "percent_fits (set_percent ?c ?n p)"
    unfolding percent_fits_def k_def d_def by (simp only: mult.commute)
qed

section \<open>Whatever happens to a player\<close>

definition new_levels :: "u32 \<Rightarrow> u32 \<Rightarrow> u32 \<Rightarrow> level_state" where
  "new_levels hp mp cap = \<lparr> experience = 0, level = 1, levelPercent = 0, healthMax = hp, health = hp,
     manaMax = mp, mana = mp, capacity = cap \<rparr>"

text \<open>
  Gains that stay below the experience of level 700000, losses of any amount that is not negative as a
  signed number, and deaths that take no more than there is.
\<close>

inductive level_run :: "(u64 \<Rightarrow> u64) \<Rightarrow> (u64 \<Rightarrow> u64) \<Rightarrow> vocation_gains \<Rightarrow> level_state \<Rightarrow> bool" for onGain onLose g where
  start: "level_run onGain onLose g (new_levels hp mp cap)"
| gain: "level_run onGain onLose g p \<Longrightarrow> uint (experience p) + uint (onGain exp) < exp_for top_level \<Longrightarrow>
    level_run onGain onLose g (addExperience onGain g exp p)"
| lose: "level_run onGain onLose g p \<Longrightarrow> uint (onLose exp) < 2 ^ 63 \<Longrightarrow>
    level_run onGain onLose g (removeExperience onLose g exp p)"
| die: "level_run onGain onLose g p \<Longrightarrow> expLoss \<le> experience p \<Longrightarrow>
    level_run onGain onLose g (death_level_loss g no_vocation expLoss p)"

lemma level_fits_top: "level_fits p \<Longrightarrow> uint (experience p) < exp_for top_level"
proof -
  assume p: "level_fits p"
  then have "exp_for (uint (level p) + 1) \<le> exp_for top_level"
    using exp_for_mono [of "uint (level p) + 1" top_level] by (cases "uint (level p) + 1 = top_level") (auto simp: level_fits_def)
  with p show ?thesis by (simp add: level_fits_def)
qed

lemma settled:
  assumes "level_fits p"
  shows "level_fits (set_percent (getExpForLevel (level p)) (getExpForLevel (level p + 1)) p) \<and>
    percent_fits (set_percent (getExpForLevel (level p)) (getExpForLevel (level p + 1)) p)"
  using set_percent_fits [OF assms] by blast

lemma refill_fits: "level_fits (refill l p) = level_fits p"
  by (simp add: level_fits_def)

lemma addExperience_fits:
  assumes p: "level_fits p" "percent_fits p" and less: "uint (experience p) + uint (onGain exp) < exp_for top_level"
  shows "level_fits (addExperience onGain g exp p) \<and> percent_fits (addExperience onGain g exp p)"
proof -
  have l: "1 \<le> uint (level p)" "uint (level p) < top_level" using p(1) by (simp_all add: level_fits_def)
  have "uint (getExpForLevel (level p)) < uint (getExpForLevel (level p + 1))"
    using getExpForLevel_exact [of "level p"] getExpForLevel_exact [of "level p + 1"] l next_level [OF l(2)] exp_for_less
    by simp
  then have going: "\<not> getExpForLevel (level p) \<ge> getExpForLevel (level p + 1)" by (simp add: word_le_def)
  show ?thesis
  proof (cases "onGain exp = 0")
    case True
    with p going show ?thesis by (simp add: addExperience_def Let_def)
  next
    case False
    let ?p = "p\<lparr> experience := experience p + onGain exp \<rparr>"
    have e: "uint (experience ?p) = uint (experience p) + uint (onGain exp)"
      using uint_add_lem [of "experience p" "onGain exp"] less by (simp add: exp_for_top)
    have "0 \<le> uint (onGain exp)" by simp
    from add_increasing2 [OF this, of "exp_for (uint (level p))" "uint (experience p)"]
    have "exp_for (uint (level p)) \<le> uint (experience ?p)" unfolding e using p(1) by (simp only: level_fits_def)
    moreover have "uint (experience ?p) < exp_for top_level" using e less by simp
    ultimately obtain p' where p': "level_up g ?p (getExpForLevel (level p)) (getExpForLevel (level p + 1)) =
        (p', getExpForLevel (level p'), getExpForLevel (level p' + 1))" "level_fits p'"
      using level_up_fits [of ?p "getExpForLevel (level p)" "getExpForLevel (level p + 1)" g] l by auto
    have "addExperience onGain g exp p =
        set_percent (getExpForLevel (level p')) (getExpForLevel (level p' + 1)) (refill (level p) p')"
      using False going p'(1) by (simp add: addExperience_def Let_def)
    then show ?thesis using settled [of "refill (level p) p'"] p'(2) by (simp add: refill_fits)
  qed
qed

lemma lower_fits:
  assumes p: "level_fits p" and less: "uint e \<le> uint (experience p)"
  shows "level_fits (level_down g (p\<lparr> experience := e \<rparr>))"
  by (rule conjunct1 [OF level_down_fits]) (use assms in \<open>simp_all add: level_fits_def\<close>)

lemma signed_difference:
  assumes "uint e < 2 ^ 63" and "uint v < 2 ^ 63"
  shows "uint (if sint (e - v) < 0 then 0 else e - v) \<le> uint (e :: u64)"
proof (cases "v \<le> e")
  case True
  then have "uint (e - v) = uint e - uint v" using uint_sub_lem [of v e] by (simp add: word_le_def)
  then show ?thesis using uint_bounded [of v] uint_bounded [of e] by simp
next
  case False
  then have "uint (e - v) = uint e - uint v + 18446744073709551616"
    using uint_sub_if' [of e v] by (simp add: word_le_def)
  moreover have "0 \<le> uint e" "uint v < 9223372036854775808" using assms(2) by simp_all
  ultimately have big: "9223372036854775808 \<le> uint (e - v)" by linarith
  have "sint (e - v) < 0"
  proof (rule ccontr)
    assume "\<not> sint (e - v) < 0"
    then have "uint (e - v) = sint (e - v)"
      using sint_lt [of "e - v"] by (simp add: uint_sint take_bit_int_eq_self)
    with big show False using sint_lt [of "e - v"] by simp
  qed
  then show ?thesis by simp
qed

text \<open>
  C32:
  Whatever a player gains and loses, his level is the one that his experience belongs to and the
  percentage is the whole part of his way to the next: the loops over the levels end, gain no level too
  many and lose none too many.
\<close>

theorem level_matches_experience:
  assumes "level_run onGain onLose g p"
  shows "exp_for (uint (level p)) \<le> uint (experience p) \<and> uint (experience p) < exp_for (uint (level p) + 1) \<and>
    1 \<le> uint (level p) \<and>
    uint (levelPercent p) = 100 * (uint (experience p) - exp_for (uint (level p))) div
      (exp_for (uint (level p) + 1) - exp_for (uint (level p)))"
proof -
  have "level_fits p \<and> percent_fits p"
    using assms
  proof (induction rule: level_run.induct)
    case (start hp mp cap)
    show ?case
      by (simp add: level_fits_def percent_fits_def new_levels_def exp_for_1 top_level_def)
        (simp add: exp_for_def)
  next
    case (gain p exp)
    then show ?case using addExperience_fits by blast
  next
    case (lose p exp)
    then have p: "level_fits p" "percent_fits p" by blast+
    let ?left = "experience p - onLose exp"
    let ?e = "if sint ?left < 0 then 0 else ?left"
    have "uint (experience p) < 2 ^ 63" using level_fits_top [OF p(1)] by (simp add: exp_for_top)
    then have "uint ?e \<le> uint (experience p)" using signed_difference lose.hyps(2) by blast
    from lower_fits [OF p(1) this, of g] p show ?case
      using settled [of "refill (level p) (level_down g (p\<lparr> experience := ?e \<rparr>))"]
      by (simp add: removeExperience_def Let_def refill_fits)
  next
    case (die p expLoss no_vocation)
    then have p: "level_fits p" "percent_fits p" by blast+
    let ?p = "if no_vocation \<or> level p > 7 then p\<lparr> experience := experience p - expLoss \<rparr> else p"
    have "uint (experience p - expLoss) \<le> uint (experience p)"
      using die.hyps(2) uint_sub_lem [of expLoss "experience p"] by (simp add: word_le_def)
    then have "level_fits (level_down g ?p)"
      using lower_fits [OF p(1), of _ g] lower_fits [OF p(1), of "experience p" g] by simp
    from settled [OF this] p show ?case by (simp add: death_level_loss_def Let_def)
  qed
  then show ?thesis by (simp add: level_fits_def percent_fits_def)
qed

theorem level_matches_experience_witness:
  "let p = addExperience id \<lparr> gainHP = 5, gainMana = 30, gainCap = 10 \<rparr> 500 (new_levels 150 0 400)
   in exp_for (uint (level p)) \<le> uint (experience p) \<and> uint (experience p) < exp_for (uint (level p) + 1) \<and>
     level p = 4 \<and> healthMax p = 165"
proof -
  let ?g = "\<lparr> gainHP = 5, gainMana = 30, gainCap = 10 \<rparr>"
  let ?p = "addExperience id ?g 500 (new_levels 150 0 400)"
  have "level_run id id ?g ?p"
    by (rule level_run.gain [OF level_run.start]) (simp add: new_levels_def exp_for_top)
  from level_matches_experience [OF this]
  have "exp_for (uint (level ?p)) \<le> uint (experience ?p) \<and> uint (experience ?p) < exp_for (uint (level ?p) + 1)"
    by blast
  moreover have "level ?p = 4 \<and> healthMax ?p = 165" by code_simp
  ultimately show ?thesis unfolding Let_def by blast
qed

end
