(* ===== verification/Skills.thy ===== *)
theory Skills
  imports Levels
begin

text \<open>
  Skills, the magic level and what a death takes (\<open>addSkillAdvance\<close>, \<open>addManaSpent\<close> and \<open>death\<close> of
  \<open>player.cpp\<close>). The tries and the mana that the levels need are computed in floating point by the
  vocation, and the share that a death takes is a product in floating point: both are parameters. The
  two loops that gain levels share a contract, the locale \<open>tries_loop\<close>.
\<close>

section \<open>Skills\<close>

record skill =
  tries :: u64
  skill_level :: u16
  percent :: u8

text \<open>The loop of \<open>addSkillAdvance\<close>, with the count and the tries that the levels need.\<close>

function advance_skill :: "(u16 \<Rightarrow> u64) \<Rightarrow> skill \<Rightarrow> u64 \<Rightarrow> u64 \<Rightarrow> u64 \<Rightarrow> skill \<times> u64 \<times> u64 \<times> u64" where
  "advance_skill req s count currReqTries nextReqTries =
     (if tries s + count \<ge> nextReqTries then
        (let count' = count - (nextReqTries - tries s);
             s' = s\<lparr> skill_level := skill_level s + 1, tries := 0, percent := 0 \<rparr>;
             nextReqTries' = req (skill_level s' + 1)
         in if nextReqTries \<ge> nextReqTries' then (s', 0, nextReqTries, nextReqTries')
            else advance_skill req s' count' nextReqTries nextReqTries')
      else (s, count, currReqTries, nextReqTries))"
  by pat_completeness auto
termination
  by (relation "measure (\<lambda>(req, s, k, c, n). 2 ^ 64 - unat n)") (simp, auto simp: higher_word)

declare advance_skill.simps [simp del]

definition addSkillAdvance :: "(u64 \<Rightarrow> u64) \<Rightarrow> (u16 \<Rightarrow> u64) \<Rightarrow> u64 \<Rightarrow> skill \<Rightarrow> skill" where
  "addSkillAdvance onGain req count s =
     (let currReqTries = req (skill_level s);
          nextReqTries = req (skill_level s + 1)
      in if currReqTries \<ge> nextReqTries then s
         else if onGain count = 0 then s
         else
           (let (s1, count', curr, next) = advance_skill req s (onGain count) currReqTries nextReqTries;
                s2 = s1\<lparr> tries := tries s1 + count' \<rparr>
            in s2\<lparr> percent := (if next > curr then getPercentLevel (tries s2) next else 0) \<rparr>))"

section \<open>Magic level\<close>

record magic_state =
  manaSpent :: u64
  magLevel :: u32
  magLevelPercent :: u8

text \<open>The loop of \<open>addManaSpent\<close>; without amounts the function has returned from inside it.\<close>

function advance_magic :: "(u32 \<Rightarrow> u64) \<Rightarrow> magic_state \<Rightarrow> u64 \<Rightarrow> u64 \<Rightarrow> u64 \<Rightarrow> magic_state \<times> (u64 \<times> u64 \<times> u64) option" where
  "advance_magic req p amount currReqMana nextReqMana =
     (if manaSpent p + amount \<ge> nextReqMana then
        (let amount' = amount - (nextReqMana - manaSpent p);
             p' = p\<lparr> magLevel := magLevel p + 1, manaSpent := 0 \<rparr>;
             nextReqMana' = req (magLevel p' + 1)
         in if nextReqMana \<ge> nextReqMana' then (p', None)
            else advance_magic req p' amount' nextReqMana nextReqMana')
      else (p, Some (amount, currReqMana, nextReqMana)))"
  by pat_completeness auto
termination
  by (relation "measure (\<lambda>(req, p, k, c, n). 2 ^ 64 - unat n)") (simp, auto simp: higher_word)

declare advance_magic.simps [simp del]

definition addManaSpent :: "(u64 \<Rightarrow> u64) \<Rightarrow> bool \<Rightarrow> (u32 \<Rightarrow> u64) \<Rightarrow> u64 \<Rightarrow> magic_state \<Rightarrow> magic_state" where
  "addManaSpent onGain notGainMana req amount p =
     (if notGainMana then p
      else if req (magLevel p) \<ge> req (magLevel p + 1) then p
      else if onGain amount = 0 then p
      else
        (case advance_magic req p (onGain amount) (req (magLevel p)) (req (magLevel p + 1)) of
           (p1, None) \<Rightarrow> p1
         | (p1, Some (amount', cur, nxt)) \<Rightarrow>
             (let p2 = p1\<lparr> manaSpent := manaSpent p1 + amount' \<rparr>
              in p2\<lparr> magLevelPercent := (if nxt > cur then getPercentLevel (manaSpent p2) nxt else 0) \<rparr>)))"

section \<open>What a death takes\<close>












section \<open>The tries that levels take\<close>

text \<open>The tries that the levels after the first up to the second have taken.\<close>

definition tries_of :: "('w::len word \<Rightarrow> u64) \<Rightarrow> 'w word \<Rightarrow> 'w word \<Rightarrow> int" where
  "tries_of req a b = (\<Sum>k\<in>{unat a<..unat b}. uint (req (of_nat k)))"

lemma tries_of_refl [simp]: "tries_of req a a = 0" by (simp add: tries_of_def)


lemma unat_next: "x \<noteq> - 1 \<Longrightarrow> unat (x + 1) = unat x + 1" for x :: "'w::len word"
  by (metis Suc_eq_plus1 add.commute add.right_inverse add_left_cancel unatSuc)

lemma uint_next: "x \<noteq> - 1 \<Longrightarrow> uint (x + 1) = uint x + 1" for x :: "'w::len word"
  using unat_next [of x] by (metis int_ops(4) of_nat_1 of_nat_add uint_nat)

lemma closer: "a < b \<Longrightarrow> nat (b - (a + 1)) < nat (b - a)" for a b :: int
  by simp


lemma sub_exact: "uint b \<le> uint a \<Longrightarrow> uint (a - b) = uint a - uint b" for a b :: "'w::len word"
  by (rule uint_sub_lem [THEN iffD1])





section \<open>No try is lost when levels are gained\<close>

text \<open>
  The levels from \<open>l\<close> on need more and more tries, \<open>m\<close> times, and what these \<open>m\<close> levels take. Nothing
  is assumed of the tries that a level needs: the vocation cuts a power down to an integer, so that they may
  stay the same from one level to the next, and past 64 bits they no longer grow.
\<close>

definition rising :: "('w::len word \<Rightarrow> u64) \<Rightarrow> 'w word \<Rightarrow> nat \<Rightarrow> bool" where
  "rising req l m \<longleftrightarrow> (\<forall>k<m. req (l + of_nat k) < req (l + of_nat k + 1))"

definition taken :: "('w::len word \<Rightarrow> u64) \<Rightarrow> 'w word \<Rightarrow> nat \<Rightarrow> int" where
  "taken req l m = (\<Sum>k<m. uint (req (l + of_nat k + 1)))"

lemma rising_0 [simp]: "rising req l 0" by (simp add: rising_def)

lemma taken_0 [simp]: "taken req l 0 = 0" by (simp add: taken_def)

lemma rising_Suc: "req l < req (l + 1) \<Longrightarrow> rising req (l + 1) m \<Longrightarrow> rising req l (Suc m)"
  unfolding rising_def by (auto simp: less_Suc_eq_0_disj ac_simps)

lemma taken_Suc: "taken req l (Suc m) = uint (req (l + 1)) + taken req (l + 1) m"
  unfolding taken_def by (subst sum.lessThan_Suc_shift) (simp add: ac_simps)

text \<open>
  What the loops that gain levels promise: they stop when the tries do not reach the next level, go on
  at the next level with the tries that are left, and end at a level whose successor needs no more tries.
\<close>

locale tries_loop =
  fixes lev :: "'s \<Rightarrow> 'w::len word" and tri :: "'s \<Rightarrow> u64" and up :: "'s \<Rightarrow> 's"
    and loop :: "('w word \<Rightarrow> u64) \<Rightarrow> 's \<Rightarrow> u64 \<Rightarrow> u64 \<Rightarrow> u64 \<Rightarrow> 's \<times> (u64 \<times> u64 \<times> u64) option"
  assumes lev_up: "lev (up s) = lev s + 1"
    and tri_up: "tri (up s) = 0"
    and loop_stop: "\<not> tri s + count \<ge> n \<Longrightarrow> c < n \<Longrightarrow> loop req s count c n = (s, Some (count, c, n))"
    and loop_go: "tri s + count \<ge> n \<Longrightarrow> \<not> n \<ge> req (lev s + 1 + 1) \<Longrightarrow>
      loop req s count c n = loop req (up s) (count - (n - tri s)) n (req (lev s + 1 + 1))"
    and loop_cap: "tri s + count \<ge> n \<Longrightarrow> n \<ge> req (lev s + 1 + 1) \<Longrightarrow> loop req s count c n = (up s, None)"
begin

text \<open>The levels gained, and what became of the tries: some are left, or the last level has been reached.\<close>

definition counts :: "('w word \<Rightarrow> u64) \<Rightarrow> 's \<Rightarrow> int \<Rightarrow> nat \<Rightarrow> 's \<Rightarrow> (u64 \<times> u64 \<times> u64) option \<Rightarrow> bool" where
  "counts req s tot m s' r \<longleftrightarrow> lev s' = lev s + of_nat m \<and> rising req (lev s) m \<and>
     (case r of
        None \<Rightarrow> 0 < m \<and> tri s' = 0 \<and> req (lev s') \<ge> req (lev s' + 1) \<and> taken req (lev s) m \<le> tot
      | Some (count', c', n') \<Rightarrow> c' = req (lev s') \<and> n' = req (lev s' + 1) \<and> c' < n' \<and> tri s' + count' < n' \<and>
          taken req (lev s) m + uint (tri s' + count') = tot)"

lemma loop_counts:
  assumes "c = req (lev s)" and "n = req (lev s + 1)" and "c < n" and "uint (tri s) + uint count < 2 ^ 64"
  shows "\<exists>m s' r. loop req s count c n = (s', r) \<and> counts req s (uint (tri s) + uint count) m s' r"
  using assms
proof (induction "nat (2 ^ 64 - uint n)" arbitrary: s count c n rule: less_induct)
  case less
  have no_wrap: "uint (tri s + count) = uint (tri s) + uint count"
    using uint_add_lem [of "tri s" count] less.prems(4) by simp
  have up: "req (lev s) < req (lev s + 1)" using less.prems(1-3) by simp
  show ?case
  proof (cases "tri s + count \<ge> n")
    case False
    then have "counts req s (uint (tri s) + uint count) 0 s (Some (count, c, n))"
      using less.prems no_wrap by (simp add: counts_def)
    with loop_stop [OF False less.prems(3)] show ?thesis by blast
  next
    case True
    define left where "left = count - (n - tri s)"
    have reach: "uint n \<le> uint (tri s + count)" using True by (simp add: word_le_def)
    have "left = (tri s + count) - n" by (simp add: left_def)
    then have rest: "uint left = uint (tri s) + uint count - uint n" using sub_exact [OF reach] no_wrap by simp
    show ?thesis
    proof (cases "n \<ge> req (lev s + 1 + 1)")
      case cap: True
      have "taken req (lev s) 1 = uint n" using taken_Suc [of req "lev s" 0] less.prems(2) by simp
      then have "counts req s (uint (tri s) + uint count) 1 (up s) None"
        using up cap reach no_wrap less.prems(2) rising_Suc [of req "lev s" 0] by (simp add: counts_def lev_up tri_up)
      moreover have "loop req s count c n = (up s, None)" by (rule loop_cap) (fact True, fact cap)
      ultimately show ?thesis by blast
    next
      case go: False
      then have n': "n < req (lev s + 1 + 1)" by simp
      then have "nat (2 ^ 64 - uint (req (lev s + 1 + 1))) < nat (2 ^ 64 - uint n)"
        using uint_lt2p [of n] by (simp add: word_less_def nat_mono_iff)
      moreover have "uint left < 2 ^ 64" using uint_lt2p [of left] by simp
      ultimately obtain m s' r where r: "loop req (up s) left n (req (lev s + 1 + 1)) = (s', r)"
        "counts req (up s) (uint left) m s' r"
        using less.hyps [of "req (lev s + 1 + 1)" n "up s" left] less.prems(2) n' by (auto simp: lev_up tri_up)
      have "counts req s (uint (tri s) + uint count) (Suc m) s' r"
        using r(2) rest up less.prems(2) rising_Suc [OF up, of m]
        by (auto simp: counts_def lev_up taken_Suc split: option.splits)
      moreover have "loop req s count c n = loop req (up s) left n (req (lev s + 1 + 1))"
        unfolding left_def by (rule loop_go) (fact True, fact go)
      then have "loop req s count c n = (s', r)" using r(1) by simp
      ultimately show ?thesis by blast
    qed
  qed
qed

end

definition skill_up :: "skill \<Rightarrow> skill" where
  "skill_up s = s\<lparr> skill_level := skill_level s + 1, tries := 0, percent := 0 \<rparr>"

definition magic_up :: "magic_state \<Rightarrow> magic_state" where
  "magic_up p = p\<lparr> magLevel := magLevel p + 1, manaSpent := 0 \<rparr>"

text \<open>The loop over skills does not tell how it ended, but the tries needed do.\<close>

definition skill_loop :: "(u16 \<Rightarrow> u64) \<Rightarrow> skill \<Rightarrow> u64 \<Rightarrow> u64 \<Rightarrow> u64 \<Rightarrow> skill \<times> (u64 \<times> u64 \<times> u64) option" where
  "skill_loop req s count c n =
     (case advance_skill req s count c n of (s', count', c', n') \<Rightarrow>
        (s', if c' < n' then Some (count', c', n') else None))"

interpretation skill_tries: tries_loop skill_level tries skill_up skill_loop
  by unfold_locales (simp_all add: skill_up_def skill_loop_def, simp_all add: advance_skill.simps Let_def)

interpretation magic_tries: tries_loop magLevel manaSpent magic_up advance_magic
  by unfold_locales (simp_all add: magic_up_def, simp_all add: advance_magic.simps Let_def)

text \<open>At the last level nothing is left to be added.\<close>

lemma advance_skill_capped:
  "c < n \<Longrightarrow> advance_skill req s count c n = (s', count', c', n') \<Longrightarrow> \<not> c' < n' \<Longrightarrow> count' = 0"
proof (induction req s count c n rule: advance_skill.induct)
  case (1 req s count c n)
  show ?case
  proof (cases "tries s + count \<ge> n")
    case False
    with "1.prems" show ?thesis by (subst (asm) advance_skill.simps) simp
  next
    case True
    note IH = "1.IH" [OF True refl refl refl]
    show ?thesis
      using "1.prems"(2,3) True IH by (subst (asm) advance_skill.simps) (auto simp: Let_def not_le split: if_splits)
  qed
qed

text \<open>
  C33:
  Whatever the tries are that the levels need, \<open>addSkillAdvance\<close> counts every try once: what the levels
  gained have taken and the tries left over add up to the tries before and those added, and those left over
  do not reach the next level. Tries are dropped only at a level whose successor needs no more: at once if
  the skill is there already, and those left over when it is reached. The tries before and those added are
  taken to add up to less than \<open>2 ^ 64\<close>.
\<close>

theorem skill_tries_conserved:
  assumes "uint (tries s) + uint (onGain count) < 2 ^ 64"
  shows "let s' = addSkillAdvance onGain req count s; l = skill_level s; tot = uint (tries s) + uint (onGain count)
    in if req l \<ge> req (l + 1) then s' = s
       else (\<exists>m. skill_level s' = l + of_nat m \<and> rising req l m \<and>
         (if req (skill_level s') < req (skill_level s' + 1)
          then taken req l m + uint (tries s') = tot \<and> (onGain count = 0 \<or> tries s' < req (skill_level s' + 1))
          else 0 < m \<and> tries s' = 0 \<and> taken req l m \<le> tot))"
proof (cases "req (skill_level s) \<ge> req (skill_level s + 1)")
  case True
  then show ?thesis by (simp add: addSkillAdvance_def Let_def)
next
  case go: False
  show ?thesis
  proof (cases "onGain count = 0")
    case True
    with go show ?thesis by (simp add: addSkillAdvance_def Let_def exI [of _ 0])
  next
    case some: False
    obtain s1 count' c' n' where a: "advance_skill req s (onGain count) (req (skill_level s)) (req (skill_level s + 1)) =
        (s1, count', c', n')" by (cases rule: prod_cases4)
    obtain m where m: "skill_tries.counts req s (uint (tries s) + uint (onGain count)) m s1
        (if c' < n' then Some (count', c', n') else None)"
      using skill_tries.loop_counts [OF refl refl _ assms, of req] go by (auto simp: skill_loop_def a not_le)
    have s': "skill_level (addSkillAdvance onGain req count s) = skill_level s1"
      "tries (addSkillAdvance onGain req count s) = tries s1 + count'"
      using go some by (simp_all add: addSkillAdvance_def a Let_def)
    have zero: "\<not> c' < n' \<Longrightarrow> count' = 0" using advance_skill_capped [OF _ a] go by simp
    show ?thesis unfolding Let_def s'
      using go m zero by (cases "c' < n'") (auto simp: skill_tries.counts_def intro!: exI [of _ m])
  qed
qed

text \<open>The first levels of a knight in axe fighting; the tries needed are made to stop growing at level 14.\<close>

definition axe_tries :: "u16 \<Rightarrow> u64" where
  "axe_tries l = (if l \<le> 10 then 25 else if l = 11 then 50 else if l = 12 then 100 else if l = 13 then 200 else 400)"

theorem skill_tries_conserved_witness:
  "\<exists>m. skill_level (addSkillAdvance id axe_tries 160 \<lparr> tries = 3, skill_level = 10, percent = 0 \<rparr>) = 10 + of_nat m \<and>
     rising axe_tries 10 m"
  using skill_tries_conserved [of "\<lparr> tries = 3, skill_level = 10, percent = 0 \<rparr>" id 160 axe_tries]
  by (auto simp: Let_def axe_tries_def [of 10] axe_tries_def [of 11])

text \<open>The mana spent likewise.\<close>

lemma mana_conserved:
  assumes "uint (manaSpent p) + uint (onGain amount) < 2 ^ 64"
  shows "let p' = addManaSpent onGain False req amount p; l = magLevel p; tot = uint (manaSpent p) + uint (onGain amount)
    in if req l \<ge> req (l + 1) then p' = p
       else (\<exists>m. magLevel p' = l + of_nat m \<and> rising req l m \<and>
         (if req (magLevel p') < req (magLevel p' + 1)
          then taken req l m + uint (manaSpent p') = tot \<and> (onGain amount = 0 \<or> manaSpent p' < req (magLevel p' + 1))
          else 0 < m \<and> manaSpent p' = 0 \<and> taken req l m \<le> tot))"
proof (cases "req (magLevel p) \<ge> req (magLevel p + 1) \<or> onGain amount = 0")
  case True
  then show ?thesis by (auto simp: addManaSpent_def Let_def intro!: exI [of _ 0])
next
  case False
  obtain p1 r m where r: "advance_magic req p (onGain amount) (req (magLevel p)) (req (magLevel p + 1)) = (p1, r)"
    "magic_tries.counts req p (uint (manaSpent p) + uint (onGain amount)) m p1 r"
    using magic_tries.loop_counts [OF refl refl _ assms, of req] False by (auto simp: not_le)
  show ?thesis
  proof (cases r)
    case None
    with False r show ?thesis
      by (auto simp: addManaSpent_def Let_def magic_tries.counts_def not_le intro!: exI [of _ m])
  next
    case (Some t)
    with False r show ?thesis
      by (cases t) (auto simp: addManaSpent_def Let_def magic_tries.counts_def not_le intro!: exI [of _ m])
  qed
qed

section \<open>A death takes its share\<close>












lemma level_down_experience [simp]: "experience (level_down g p) = experience p"
proof (induction g p rule: level_down.induct)
  case (1 g p)
  then show ?case by (subst level_down.simps) (simp add: lose_level_def)
qed




end
