(* ===== verification/Decay.thy ===== *)
theory Decay
  imports Position
begin

text \<open>
  Items that decay (\<open>startDecay\<close>, \<open>internalDecayItem\<close>, \<open>checkDecay\<close> and \<open>cleanup\<close> of \<open>game.cpp\<close>,
  \<open>canDecay\<close> of \<open>item.cpp\<close>). Items are known by numbers and hold what decay reads of them. An item whose
  time has come is transformed or removed; here it is written down in \<open>decayed\<close>, and what becomes of it,
  with the new items that start to decay, is a later event: the loop over a bucket does not read
  \<open>toDecayItems\<close> and has taken the item out of its bucket before.
\<close>

section \<open>State\<close>

datatype ItemDecayState = DECAYING_FALSE | DECAYING_TRUE | DECAYING_PENDING

record decay_item =
  removed :: bool
  decayTo :: int
  decayTime :: u32
  has_unique :: bool
  duration :: u32
  decaying :: ItemDecayState

record decay_state =
  decay_items :: "nat \<Rightarrow> decay_item"
  decayItems :: "nat list list"
  lastBucket :: nat
  toDecayItems :: "nat list"
  toReleaseItems :: "nat list"
  decayed :: "nat list"

definition EVENT_DECAYINTERVAL :: int where "EVENT_DECAYINTERVAL = 250"
definition EVENT_DECAY_BUCKETS :: nat where "EVENT_DECAY_BUCKETS = 4"

definition no_decay :: "(nat \<Rightarrow> decay_item) \<Rightarrow> decay_state" where
  "no_decay items = \<lparr> decay_items = items, decayItems = replicate EVENT_DECAY_BUCKETS [], lastBucket = 0,
     toDecayItems = [], toReleaseItems = [], decayed = [] \<rparr>"

definition canDecay :: "decay_item \<Rightarrow> bool" where
  "canDecay it =
     (if removed it then False
      else if decayTo it < 0 \<or> decayTime it = 0 then False
      else if has_unique it then False
      else True)"

section \<open>Operations\<close>

definition set_item :: "nat \<Rightarrow> decay_item \<Rightarrow> decay_state \<Rightarrow> decay_state" where
  "set_item i it d = d\<lparr> decay_items := (decay_items d)(i := it) \<rparr>"

definition internalDecayItem :: "nat \<Rightarrow> decay_state \<Rightarrow> decay_state" where
  "internalDecayItem i d = d\<lparr> decayed := decayed d @ [i] \<rparr>"

definition ReleaseItem :: "nat \<Rightarrow> decay_state \<Rightarrow> decay_state" where
  "ReleaseItem i d = d\<lparr> toReleaseItems := toReleaseItems d @ [i] \<rparr>"

definition startDecay :: "nat \<Rightarrow> decay_state \<Rightarrow> decay_state" where
  "startDecay i d =
     (let it = decay_items d i
      in if \<not> canDecay it then d
         else if decaying it = DECAYING_TRUE then d
         else if duration it > 0 then
           (set_item i (it\<lparr> decaying := DECAYING_TRUE \<rparr>) d)\<lparr> toDecayItems := i # toDecayItems d \<rparr>
         else internalDecayItem i d)"

definition push_bucket :: "nat \<Rightarrow> nat \<Rightarrow> decay_state \<Rightarrow> decay_state" where
  "push_bucket b i d = d\<lparr> decayItems := (decayItems d)[b := decayItems d ! b @ [i]] \<rparr>"

text \<open>The loop over a bucket; the flag says that the item stays in it.\<close>

definition decay_visit :: "nat \<Rightarrow> nat \<Rightarrow> decay_state \<Rightarrow> bool \<times> decay_state" where
  "decay_visit bucket i d =
     (let it = decay_items d i
      in if \<not> canDecay it then (False, ReleaseItem i (set_item i (it\<lparr> decaying := DECAYING_FALSE \<rparr>) d))
         else
           (let decreaseTime = min (EVENT_DECAYINTERVAL * int EVENT_DECAY_BUCKETS) (sint (duration it));
                left = sint (duration it) - decreaseTime;
                d1 = set_item i (it\<lparr> duration := duration it - word_of_int decreaseTime \<rparr>) d
            in if left \<le> 0 then (False, ReleaseItem i (internalDecayItem i d1))
               else if left < EVENT_DECAYINTERVAL * int EVENT_DECAY_BUCKETS then
                 (let newBucket = (bucket + nat ((left + EVENT_DECAYINTERVAL div 2) div 1000)) mod EVENT_DECAY_BUCKETS
                  in if newBucket = bucket then (False, ReleaseItem i (internalDecayItem i d1))
                     else (False, push_bucket newBucket i d1))
               else (True, d1)))"

fun decay_loop :: "nat \<Rightarrow> nat list \<Rightarrow> decay_state \<Rightarrow> nat list \<times> decay_state" where
  "decay_loop bucket [] d = ([], d)"
| "decay_loop bucket (i # rest) d =
     (let (stays, d1) = decay_visit bucket i d;
          (kept, d2) = decay_loop bucket rest d1
      in (if stays then i # kept else kept, d2))"

text \<open>What \<open>cleanup\<close> does for decay: the items that started are put into the buckets.\<close>

definition fill :: "nat list \<Rightarrow> decay_state \<Rightarrow> decay_state" where
  "fill xs d = fold
     (\<lambda>i d.
        (let dur = duration (decay_items d i)
         in if dur \<ge> word_of_int (EVENT_DECAYINTERVAL * int EVENT_DECAY_BUCKETS) then push_bucket (lastBucket d) i d
            else push_bucket ((lastBucket d + 1 + unat dur div 1000) mod EVENT_DECAY_BUCKETS) i d)) xs d"

definition cleanup :: "decay_state \<Rightarrow> decay_state" where
  "cleanup d = (fill (toDecayItems d) d)\<lparr> toDecayItems := [], toReleaseItems := [] \<rparr>"

definition checkDecay :: "decay_state \<Rightarrow> decay_state" where
  "checkDecay d =
     (let bucket = (lastBucket d + 1) mod EVENT_DECAY_BUCKETS;
          (kept, d1) = decay_loop bucket (decayItems d ! bucket) d
      in cleanup (d1\<lparr> decayItems := (decayItems d1)[bucket := kept], lastBucket := bucket \<rparr>))"

section \<open>Events\<close>

datatype decay_event = CheckDecay | Cleanup | StartDecay nat | ChangeItem nat decay_item

fun decay_step :: "decay_event \<Rightarrow> decay_state \<Rightarrow> decay_state" where
  "decay_step CheckDecay d = checkDecay d"
| "decay_step Cleanup d = cleanup d"
| "decay_step (StartDecay i) d = startDecay i d"
| "decay_step (ChangeItem i it) d = set_item i it d"

definition decay_run :: "decay_event list \<Rightarrow> decay_state \<Rightarrow> decay_state" where
  "decay_run es d = fold decay_step es d"

section \<open>What concerns one item\<close>

definition decay_wf :: "decay_state \<Rightarrow> bool" where
  "decay_wf d \<longleftrightarrow> length (decayItems d) = 4 \<and> lastBucket d < 4"

definition same_for :: "nat \<Rightarrow> decay_state \<Rightarrow> decay_state \<Rightarrow> bool" where
  "same_for i d d' \<longleftrightarrow> decay_items d' i = decay_items d i \<and> length (decayItems d') = length (decayItems d) \<and>
     (\<forall>c<length (decayItems d). count_list (decayItems d' ! c) i = count_list (decayItems d ! c) i) \<and>
     count_list (toDecayItems d') i = count_list (toDecayItems d) i \<and> lastBucket d' = lastBucket d \<and>
     count_list (decayed d') i = count_list (decayed d) i"

lemma same_for_refl [simp]: "same_for i d d" by (simp add: same_for_def)

lemma same_for_idle: "same_for i d d' \<Longrightarrow> i \<in> set (toDecayItems d') \<longleftrightarrow> i \<in> set (toDecayItems d)"
  by (metis count_list_0_iff same_for_def)

lemma same_for_trans: "same_for i d d1 \<Longrightarrow> same_for i d1 d2 \<Longrightarrow> same_for i d d2"
  by (simp add: same_for_def)

lemma same_for_release: "same_for i d (ReleaseItem j d)"
  by (simp add: same_for_def ReleaseItem_def)

lemma same_for_ops:
  assumes "j \<noteq> i"
  shows "same_for i d (set_item j it d)" and "same_for i d (internalDecayItem j d)" and "same_for i d (push_bucket b j d)"
proof -
  show "same_for i d (set_item j it d)" "same_for i d (internalDecayItem j d)"
    using assms by (simp_all add: same_for_def set_item_def internalDecayItem_def)
  have "count_list ((decayItems d)[b := decayItems d ! b @ [j]] ! c) i = count_list (decayItems d ! c) i"
    if "c < length (decayItems d)" for c
    using that assms by (cases "c = b") simp_all
  then show "same_for i d (push_bucket b j d)" by (simp add: same_for_def push_bucket_def)
qed

lemma startDecay_other: "j \<noteq> i \<Longrightarrow> same_for i d (startDecay j d)"
  by (auto simp: startDecay_def Let_def same_for_def set_item_def internalDecayItem_def)

lemma decay_loop_append:
  "decay_loop b (xs @ ys) d =
     (let (k, d1) = decay_loop b xs d; (k', d2) = decay_loop b ys d1 in (k @ k', d2))"
  by (induction xs arbitrary: d) (simp_all add: split_beta Let_def)

lemma decay_visit_other:
  assumes "j \<noteq> i"
  shows "same_for i d (snd (decay_visit b j d))"
proof -
  note ops = same_for_ops [OF assms] same_for_release
  have "same_for i d (ReleaseItem j (set_item j it d))"
    "same_for i d (ReleaseItem j (internalDecayItem j (set_item j it d)))"
    "same_for i d (push_bucket c j (set_item j it d))" "same_for i d (set_item j it d)" for it c
    by (rule same_for_trans [OF ops(1) ops(4)], rule same_for_trans [OF same_for_trans [OF ops(1) ops(2)] ops(4)],
        rule same_for_trans [OF ops(1) ops(3)], rule ops(1))
  then show ?thesis by (simp add: decay_visit_def Let_def)
qed

lemma decay_loop_other:
  "i \<notin> set xs \<Longrightarrow> same_for i d (snd (decay_loop b xs d)) \<and> i \<notin> set (fst (decay_loop b xs d))"
proof (induction xs arbitrary: d)
  case (Cons j xs)
  then have "j \<noteq> i" by auto
  obtain stays d1 where v: "decay_visit b j d = (stays, d1)" by fastforce
  obtain kept d2 where r: "decay_loop b xs d1 = (kept, d2)" by fastforce
  have "same_for i d d1" using decay_visit_other [OF \<open>j \<noteq> i\<close>, of d b] v by simp
  moreover have "same_for i d1 d2" "i \<notin> set kept" using Cons.IH [of d1] Cons.prems r by simp_all
  ultimately have "same_for i d d2" "i \<notin> set kept" by (blast intro: same_for_trans)+
  with \<open>j \<noteq> i\<close> show ?case by (simp add: v r)
qed simp

text \<open>The bucket of an item; nowhere an item that does not decay.\<close>

definition in_bucket :: "nat \<Rightarrow> nat \<Rightarrow> decay_state \<Rightarrow> bool" where
  "in_bucket i b d \<longleftrightarrow> b < 4 \<and> (\<forall>c<4. count_list (decayItems d ! c) i = (if c = b then 1 else 0)) \<and> i \<notin> set (toDecayItems d)"

definition nowhere :: "nat \<Rightarrow> decay_state \<Rightarrow> bool" where
  "nowhere i d \<longleftrightarrow> (\<forall>c<4. i \<notin> set (decayItems d ! c)) \<and> i \<notin> set (toDecayItems d)"

lemma same_for_in_bucket: "same_for i d d' \<Longrightarrow> decay_wf d \<Longrightarrow> in_bucket i b d \<Longrightarrow> decay_wf d' \<and> in_bucket i b d'"
  by (simp add: same_for_def decay_wf_def in_bucket_def count_list_0_iff)

lemma same_for_nowhere: "same_for i d d' \<Longrightarrow> decay_wf d \<Longrightarrow> nowhere i d \<Longrightarrow> decay_wf d' \<and> nowhere i d'"
  by (auto simp: same_for_def decay_wf_def nowhere_def count_list_0_iff [symmetric])

lemma fill_other: "i \<notin> set xs \<Longrightarrow> same_for i d (fill xs d)"
proof (induction xs arbitrary: d)
  case (Cons j xs)
  then have "j \<noteq> i" by auto
  have "fill (j # xs) d = fill xs (push_bucket (if duration (decay_items d j) \<ge> word_of_int (EVENT_DECAYINTERVAL * int EVENT_DECAY_BUCKETS)
      then lastBucket d else (lastBucket d + 1 + unat (duration (decay_items d j)) div 1000) mod EVENT_DECAY_BUCKETS) j d)"
    (is "_ = fill xs ?d")
    by (simp add: fill_def Let_def)
  moreover have "same_for i d ?d" by (rule same_for_ops(3) [OF \<open>j \<noteq> i\<close>])
  moreover have "same_for i ?d (fill xs ?d)" using Cons by simp
  ultimately show ?case using same_for_trans by metis
qed (simp add: fill_def)

lemma cleanup_other: "i \<notin> set (toDecayItems d) \<Longrightarrow> same_for i d (cleanup d)"
  using fill_other [of i "toDecayItems d" d] by (simp add: cleanup_def same_for_def count_list_0_iff)

section \<open>One tick of the buckets\<close>

definition tick_of :: "nat \<Rightarrow> decay_state \<Rightarrow> decay_state" where
  "tick_of b d = (let (kept, d1) = decay_loop b (decayItems d ! b) d
     in d1\<lparr> decayItems := (decayItems d1)[b := kept], lastBucket := b \<rparr>)"

lemma checkDecay_tick: "checkDecay d = cleanup (tick_of ((lastBucket d + 1) mod 4) d)"
  by (simp add: checkDecay_def tick_of_def EVENT_DECAY_BUCKETS_def Let_def split_beta)

text \<open>What a tick leaves alone when the item is not in its bucket.\<close>

lemma tick_other:
  assumes "decay_wf d" and "b < 4" and "i \<notin> set (decayItems d ! b)"
  shows "same_for i (d\<lparr> lastBucket := b \<rparr>) (tick_of b d)"
proof -
  obtain kept d1 where r: "decay_loop b (decayItems d ! b) d = (kept, d1)" by fastforce
  have s: "same_for i d d1" "i \<notin> set kept" using decay_loop_other [OF assms(3), of d b] by (simp_all add: r)
  have "count_list ((decayItems d1)[b := kept] ! c) i = count_list (decayItems d ! c) i" if "c < 4" for c
    using s that assms by (cases "c = b") (simp_all add: same_for_def decay_wf_def count_list_0_iff)
  with s(1) assms(1) show ?thesis by (simp add: tick_of_def r same_for_def decay_wf_def)
qed

lemma split_once: "count_list xs i = 1 \<Longrightarrow> \<exists>ys zs. xs = ys @ i # zs \<and> i \<notin> set ys \<and> i \<notin> set zs"
proof -
  assume c: "count_list xs i = 1"
  then have "i \<in> set xs" by (metis count_list_0_iff zero_neq_one)
  then obtain ys zs where xs: "xs = ys @ i # zs" "i \<notin> set ys" by (meson split_list_first)
  with c have "i \<notin> set zs" by (simp add: count_list_0_iff)
  with xs show ?thesis by blast
qed

lemma decay_visit_frame: "length (decayItems (snd (decay_visit b j d))) = length (decayItems d)"
  by (simp add: decay_visit_def Let_def set_item_def ReleaseItem_def internalDecayItem_def push_bucket_def)

lemma decay_loop_frame: "length (decayItems (snd (decay_loop b xs d))) = length (decayItems d)"
  by (induction xs arbitrary: d) (simp_all add: Let_def split_beta decay_visit_frame)

text \<open>When it is, the loop treats it alone.\<close>

lemma tick_here:
  assumes wf: "decay_wf d" and at: "in_bucket i b d"
  obtains d1 stays d2 d3 where "same_for i d d1" and "decay_visit b i d1 = (stays, d2)" and "same_for i d2 d3"
    and "tick_of b d = d3\<lparr> decayItems := (decayItems d3)[b := decayItems (tick_of b d) ! b], lastBucket := b \<rparr>"
    and "count_list (decayItems (tick_of b d) ! b) i = (if stays then 1 else 0)"
    and "length (decayItems d3) = 4"
proof -
  have b: "b < 4" and once: "count_list (decayItems d ! b) i = 1" using at by (simp_all add: in_bucket_def)
  obtain ys zs where xs: "decayItems d ! b = ys @ i # zs" "i \<notin> set ys" "i \<notin> set zs" using split_once [OF once] by blast
  obtain k1 d1 where r1: "decay_loop b ys d = (k1, d1)" by fastforce
  obtain stays d2 where r2: "decay_visit b i d1 = (stays, d2)" by fastforce
  obtain k3 d3 where r3: "decay_loop b zs d2 = (k3, d3)" by fastforce
  have s1: "same_for i d d1" "i \<notin> set k1" using decay_loop_other [OF xs(2), of d b] by (simp_all add: r1)
  have s3: "same_for i d2 d3" "i \<notin> set k3" using decay_loop_other [OF xs(3), of d2 b] by (simp_all add: r3)
  have t: "tick_of b d = d3\<lparr> decayItems := (decayItems d3)[b := k1 @ (if stays then [i] else []) @ k3], lastBucket := b \<rparr>"
    unfolding tick_of_def xs(1) decay_loop_append by (simp add: r1 r2 r3 Let_def)
  have len: "length (decayItems d3) = 4"
    using decay_loop_frame [of b ys d] decay_visit_frame [of b i d1] decay_loop_frame [of b zs d2] wf r1 r2 r3
    by (simp add: decay_wf_def)
  with t b have "decayItems (tick_of b d) ! b = k1 @ (if stays then [i] else []) @ k3" by simp
  with s1 s3 r2 len t show thesis by (intro that [of d1 stays d2 d3]) (simp_all add: count_list_0_iff)
qed

text \<open>An item that has decayed still counts as decaying until it is changed.\<close>

definition gone :: "nat \<Rightarrow> decay_state \<Rightarrow> bool" where
  "gone i d \<longleftrightarrow> decay_wf d \<and> nowhere i d \<and> decaying (decay_items d i) = DECAYING_TRUE"

lemma visit_one:
  assumes "canDecay (decay_items d i)" and D: "sint (duration (decay_items d i)) = D" and b: "b < 4"
  shows "decay_visit b i d =
    (let d1 = set_item i ((decay_items d i)\<lparr> duration := duration (decay_items d i) - word_of_int (min 1000 D) \<rparr>) d
     in if D < 1875 then (False, ReleaseItem i (internalDecayItem i d1))
        else if D < 2000 then (False, push_bucket ((b + 1) mod 4) i d1)
        else (True, d1))"
proof -
  have q: "nat ((D - 1000 + 125) div 1000) = (if D < 1875 then 0 else 1)" if "1000 < D" "D < 2000"
  proof (cases "D < 1875")
    case True
    then have "(D - 875) div 1000 = 0" using that by (intro div_pos_pos_trivial) simp_all
    with True show ?thesis by simp
  next
    case False
    then have "(D - 875) div 1000 = 1" using that by (intro int_div_pos_eq [of _ _ _ "D - 1875"]) simp_all
    with False show ?thesis by simp
  qed
  have "(b + 1) mod 4 \<noteq> b" using b by presburger
  then show ?thesis
    using assms q by (simp add: decay_visit_def Let_def EVENT_DECAYINTERVAL_def EVENT_DECAY_BUCKETS_def min_def)
qed

text \<open>The ticks that an item still needs from the first visit on, and those until that visit.\<close>

fun more_ticks :: "nat \<Rightarrow> nat" where
  "more_ticks D = (if D < 1875 then 0 else if D < 2000 then 1 else 4 + more_ticks (D - 1000))"

declare more_ticks.simps [simp del]

definition ticks_to :: "nat \<Rightarrow> nat \<Rightarrow> nat" where
  "ticks_to b l = (b + 3 - l) mod 4 + 1"

text \<open>An item with D milliseconds left that is visited in n ticks for the first time.\<close>

definition due_in :: "nat \<Rightarrow> nat \<Rightarrow> nat \<Rightarrow> decay_state \<Rightarrow> bool" where
  "due_in i n D d \<longleftrightarrow> decay_wf d \<and> canDecay (decay_items d i) \<and> decaying (decay_items d i) = DECAYING_TRUE \<and>
     sint (duration (decay_items d i)) = int D \<and> 0 < D \<and>
     (\<exists>b. in_bucket i b d \<and> n = ticks_to b (lastBucket d) + more_ticks D)"

lemma more_ticks_cases:
  "D < 1875 \<Longrightarrow> more_ticks D = 0" "1875 \<le> D \<Longrightarrow> D < 2000 \<Longrightarrow> more_ticks D = 1"
  "2000 \<le> D \<Longrightarrow> more_ticks D = 4 + more_ticks (D - 1000)"
  by (simp_all add: more_ticks.simps [of D])

lemma buckets4: "b < 4 \<Longrightarrow> b = 0 \<or> b = 1 \<or> b = 2 \<or> b = (3 :: nat)" by auto

lemma ticks_to_next: "b < 4 \<Longrightarrow> l < 4 \<Longrightarrow> b \<noteq> (l + 1) mod 4 \<Longrightarrow> ticks_to b l = ticks_to b ((l + 1) mod 4) + 1"
  by (auto simp: ticks_to_def dest!: buckets4)

lemma ticks_to_here: "l < 4 \<Longrightarrow> ticks_to ((l + 1) mod 4) l = 1" "b < 4 \<Longrightarrow> ticks_to b b = 4"
  "b < 4 \<Longrightarrow> ticks_to ((b + 1) mod 4) b = 1"
  by (auto simp: ticks_to_def dest!: buckets4)

lemma due_same:
  assumes "same_for i d d'" and "decay_wf d" and "in_bucket i b d" and "canDecay (decay_items d i)"
    and "decaying (decay_items d i) = DECAYING_TRUE" and "sint (duration (decay_items d i)) = int D" and "0 < D"
  shows "due_in i (ticks_to b (lastBucket d) + more_ticks D) D d'"
proof -
  have "decay_items d' i = decay_items d i" "lastBucket d' = lastBucket d" using assms(1) by (simp_all add: same_for_def)
  with same_for_in_bucket [OF assms(1-3)] assms(4-7) show ?thesis unfolding due_in_def by auto
qed

lemma tick_away:
  assumes due: "due_in i n D d" and at: "in_bucket i b d" and away: "b \<noteq> (lastBucket d + 1) mod 4"
    and n: "n = ticks_to b (lastBucket d) + more_ticks D"
  shows "1 < n \<and> due_in i (n - 1) D (checkDecay d) \<and> count_list (decayed (checkDecay d)) i = count_list (decayed d) i"
proof -
  define t where "t = (lastBucket d + 1) mod 4"
  have wf: "decay_wf d" "canDecay (decay_items d i)" "sint (duration (decay_items d i)) = int D" "0 < D"
    and true: "decaying (decay_items d i) = DECAYING_TRUE"
    using due by (simp_all add: due_in_def)
  then have l: "lastBucket d < 4" "t < 4" "b < 4" using at by (simp_all add: decay_wf_def t_def in_bucket_def)
  have free: "i \<notin> set (decayItems d ! t)" and idle: "i \<notin> set (toDecayItems d)"
    using at away [folded t_def] l by (simp_all add: in_bucket_def count_list_0_iff [symmetric])
  let ?d = "d\<lparr> lastBucket := t \<rparr>"
  have "same_for i ?d (tick_of t d)" by (rule tick_other [OF wf(1) l(2) free])
  moreover from this have "i \<notin> set (toDecayItems (tick_of t d))" using idle by (simp add: same_for_idle)
  ultimately have same: "same_for i ?d (checkDecay d)"
    unfolding checkDecay_tick t_def [symmetric] by (blast intro: same_for_trans cleanup_other)
  have "due_in i (ticks_to b (lastBucket ?d) + more_ticks D) D (checkDecay d)"
    using wf true l at by (intro due_same [OF same]) (simp_all add: decay_wf_def in_bucket_def)
  moreover have "ticks_to b (lastBucket d) = ticks_to b t + 1"
    unfolding t_def by (rule ticks_to_next [OF l(3,1) away])
  moreover have "0 < ticks_to b t" by (simp add: ticks_to_def)
  ultimately show ?thesis using n same by (simp add: same_for_def)
qed

text \<open>After a tick of its own bucket the item is where the visit has put it.\<close>

definition visited :: "nat \<Rightarrow> nat \<Rightarrow> bool \<Rightarrow> decay_state \<Rightarrow> decay_state \<Rightarrow> bool" where
  "visited i b stays d2 d' \<longleftrightarrow> decay_wf d' \<and> lastBucket d' = b \<and> decay_items d' i = decay_items d2 i \<and>
     count_list (decayItems d' ! b) i = (if stays then 1 else 0) \<and>
     (\<forall>c<4. c \<noteq> b \<longrightarrow> count_list (decayItems d' ! c) i = count_list (decayItems d2 ! c) i) \<and>
     i \<notin> set (toDecayItems d') \<and> count_list (decayed d') i = count_list (decayed d2) i"

lemma tick_visited:
  assumes wf: "decay_wf d" and at: "in_bucket i b d" and b: "b = (lastBucket d + 1) mod 4"
  obtains d1 stays d2 where "same_for i d d1" and "decay_visit b i d1 = (stays, d2)" and "visited i b stays d2 (checkDecay d)"
proof -
  obtain d1 stays d2 d3 where s1: "same_for i d d1" and v: "decay_visit b i d1 = (stays, d2)" and s3: "same_for i d2 d3"
    and t: "tick_of b d = d3\<lparr> decayItems := (decayItems d3)[b := decayItems (tick_of b d) ! b], lastBucket := b \<rparr>"
    and here: "count_list (decayItems (tick_of b d) ! b) i = (if stays then 1 else 0)" and len: "length (decayItems d3) = 4"
    by (rule tick_here [OF wf at])
  have idle: "i \<notin> set (toDecayItems d2)"
    using same_for_idle [OF s1] at v by (auto simp: in_bucket_def decay_visit_def Let_def set_item_def ReleaseItem_def
        internalDecayItem_def push_bucket_def split: if_splits)
  define T where "T = tick_of b d"
  have f: "decay_items T = decay_items d3" "toDecayItems T = toDecayItems d3" "decayed T = decayed d3" "lastBucket T = b"
    "decayItems T = (decayItems d3)[b := decayItems T ! b]"
    by (subst t [folded T_def], simp)+
  have b4: "b < 4" using b by simp
  have "decayItems T ! c = decayItems d3 ! c" if "c \<noteq> b" for c using that by (subst f(5)) simp
  moreover have "length (decayItems T) = 4" using len by (subst f(5)) simp
  moreover have len2: "length (decayItems d2) = 4" using s3 len by (simp add: same_for_def)
  ultimately have T: "visited i b stays d2 T"
    using same_for_idle [OF s3] s3 f(1-4) here idle b4 unfolding visited_def T_def [symmetric] by (simp add: decay_wf_def same_for_def)
  have "same_for i T (checkDecay d)"
    unfolding checkDecay_tick b [symmetric] T_def [symmetric] using T by (intro cleanup_other) (simp add: visited_def)
  with T have "visited i b stays d2 (checkDecay d)"
    by (simp add: visited_def same_for_def decay_wf_def count_list_0_iff)
  with s1 v show thesis by (rule that)
qed

lemma shorter:
  fixes w :: u32
  assumes "sint w = int D" and "1000 \<le> D"
  shows "sint (w - word_of_int 1000) = int (D - 1000)"
proof -
  have "w = word_of_int (int D)" by (simp flip: assms(1))
  then have "w - word_of_int 1000 = word_of_int (int (D - 1000))" using assms(2) by (simp add: of_nat_diff)
  moreover have "int D < 2 ^ 31" using sint_lt [of w] assms(1) by simp
  moreover have "sint (word_of_int (int (D - 1000)) :: u32) = signed_take_bit 31 (int (D - 1000))" by (subst sint_sbintrunc') simp
  ultimately show ?thesis using signed_take_bit_int_eq_self [of 31 "int (D - 1000)"] by simp
qed

lemma due_after_visit:
  assumes r: "visited i b stays d2 d'" and it: "decay_items d2 i = it\<lparr> duration := duration it - word_of_int (min 1000 (int D)) \<rparr>"
    and can: "canDecay it" and true: "decaying it = DECAYING_TRUE" and D: "sint (duration it) = int D" "1000 < D" and c: "c < 4"
    and at: "\<And>k. k < 4 \<Longrightarrow> count_list (decayItems d' ! k) i = (if k = c then 1 else 0)"
  shows "due_in i (ticks_to c b + more_ticks (D - 1000)) (D - 1000) d'"
proof -
  have "decay_items d' i = it\<lparr> duration := duration it - word_of_int 1000 \<rparr>"
    using r it D(2) by (simp add: visited_def min_def)
  then have "canDecay (decay_items d' i)" "sint (duration (decay_items d' i)) = int (D - 1000)"
    "decaying (decay_items d' i) = DECAYING_TRUE"
    using can true shorter [OF D(1)] D(2) by (simp_all add: canDecay_def split: if_splits)
  moreover have "in_bucket i c d'" "decay_wf d'" "lastBucket d' = b"
    using c at r by (simp_all add: in_bucket_def visited_def)
  ultimately show ?thesis using D(2) unfolding due_in_def by auto
qed

lemma tick_due:
  assumes due: "due_in i n D d" and at: "in_bucket i b d" and b: "b = (lastBucket d + 1) mod 4"
    and n: "n = ticks_to b (lastBucket d) + more_ticks D"
  shows "n = 1 \<and> gone i (checkDecay d) \<and>
      count_list (decayed (checkDecay d)) i = count_list (decayed d) i + 1 \<or>
    (\<exists>D'. 1 < n \<and> due_in i (n - 1) D' (checkDecay d)) \<and> count_list (decayed (checkDecay d)) i = count_list (decayed d) i"
proof -
  have wf: "decay_wf d" "canDecay (decay_items d i)" "sint (duration (decay_items d i)) = int D" "0 < D"
    and true: "decaying (decay_items d i) = DECAYING_TRUE"
    using due by (simp_all add: due_in_def)
  then have l: "lastBucket d < 4" "b < 4" using b by (simp_all add: decay_wf_def)
  have n1: "n = 1 + more_ticks D" using n ticks_to_here(1) [OF l(1)] b by simp
  obtain d1 stays d2 where s: "same_for i d d1" and v: "decay_visit b i d1 = (stays, d2)" and r: "visited i b stays d2 (checkDecay d)"
    by (rule tick_visited [OF wf(1) at b])
  have it: "decay_items d1 i = decay_items d i" "count_list (decayed d1) i = count_list (decayed d) i"
    "length (decayItems d1) = 4" using s wf(1) by (simp_all add: same_for_def decay_wf_def)
  have at1: "count_list (decayItems d1 ! c) i = (if c = b then 1 else 0)" if "c < 4" for c
    using s at wf(1) that by (simp add: same_for_def in_bucket_def decay_wf_def)
  let ?less = "(decay_items d i)\<lparr> duration := duration (decay_items d i) - word_of_int (min 1000 (int D)) \<rparr>"
  note visit = visit_one [OF wf(2,3) [folded it(1)] l(2), unfolded v it(1) Let_def]
  consider (now) "D < 1875" | (soon) "1875 \<le> D" "D < 2000" | (later) "2000 \<le> D" by linarith
  then show ?thesis
  proof cases
    case now
    then have "stays = False" "d2 = ReleaseItem i (internalDecayItem i (set_item i ?less d1))" using visit by simp_all
    then have "gone i (checkDecay d)" "count_list (decayed (checkDecay d)) i = count_list (decayed d) i + 1"
      using r at1 it l(2) true by (auto simp: visited_def gone_def nowhere_def count_list_0_iff [symmetric] ReleaseItem_def
          internalDecayItem_def set_item_def split: if_splits)
    with now n1 more_ticks_cases(1) show ?thesis by simp
  next
    case soon
    then have d2: "stays = False" "d2 = push_bucket ((b + 1) mod 4) i (set_item i ?less d1)" using visit by simp_all
    have c: "(b + 1) mod 4 < 4" "(b + 1) mod 4 \<noteq> b" using l(2) by (auto dest!: buckets4)
    have "count_list (decayItems (checkDecay d) ! k) i = (if k = (b + 1) mod 4 then 1 else 0)" if "k < 4" for k
      using r d2 at1 it(3) c that by (cases "k = b"; cases "k = (b + 1) mod 4")
        (simp_all add: visited_def push_bucket_def set_item_def)
    from due_after_visit [OF r _ wf(2) true wf(3) _ c(1) this] d2 soon
    have "due_in i (ticks_to ((b + 1) mod 4) b + more_ticks (D - 1000)) (D - 1000) (checkDecay d)"
      by (simp add: push_bucket_def set_item_def)
    moreover have "ticks_to ((b + 1) mod 4) b + more_ticks (D - 1000) = n - 1" "1 < n"
      using n1 soon ticks_to_here(3) [OF l(2)] by (simp_all add: more_ticks_cases)
    moreover have "count_list (decayed (checkDecay d)) i = count_list (decayed d) i"
      using r d2 it(2) by (simp add: visited_def push_bucket_def set_item_def)
    ultimately show ?thesis by auto
  next
    case later
    then have d2: "stays = True" "d2 = set_item i ?less d1" using visit by simp_all
    have "count_list (decayItems (checkDecay d) ! k) i = (if k = b then 1 else 0)" if "k < 4" for k
      using r d2 at1 that by (cases "k = b") (simp_all add: visited_def set_item_def)
    from due_after_visit [OF r _ wf(2) true wf(3) _ l(2) this] d2 later
    have "due_in i (ticks_to b b + more_ticks (D - 1000)) (D - 1000) (checkDecay d)"
      by (simp add: set_item_def)
    moreover have "ticks_to b b + more_ticks (D - 1000) = n - 1" "1 < n"
      using n1 later ticks_to_here(2) [OF l(2)] by (simp_all add: more_ticks_cases(3))
    moreover have "count_list (decayed (checkDecay d)) i = count_list (decayed d) i"
      using r d2 it(2) by (simp add: visited_def set_item_def)
    ultimately show ?thesis by auto
  qed
qed

lemma tick_cases:
  assumes "due_in i n D d"
  shows "n = 1 \<and> gone i (checkDecay d) \<and>
      count_list (decayed (checkDecay d)) i = count_list (decayed d) i + 1 \<or>
    (\<exists>D'. 1 < n \<and> due_in i (n - 1) D' (checkDecay d)) \<and> count_list (decayed (checkDecay d)) i = count_list (decayed d) i"
proof -
  obtain b where b: "in_bucket i b d" "n = ticks_to b (lastBucket d) + more_ticks D" using assms by (auto simp: due_in_def)
  show ?thesis
  proof (cases "b = (lastBucket d + 1) mod 4")
    case True
    then show ?thesis by (rule tick_due [OF assms b(1) _ b(2)])
  next
    case False
    then show ?thesis using tick_away [OF assms b(1) _ b(2)] by blast
  qed
qed

section \<open>Runs\<close>

text \<open>An event that does not change an item; starting it again is none.\<close>

fun leaves :: "nat \<Rightarrow> decay_event \<Rightarrow> bool" where
  "leaves i (ChangeItem j it) \<longleftrightarrow> j \<noteq> i"
| "leaves i e \<longleftrightarrow> True"

definition ticks_in :: "decay_event list \<Rightarrow> nat" where
  "ticks_in es = count_list es CheckDecay"

lemma ticks_in_Cons: "ticks_in (e # es) = (if e = CheckDecay then Suc (ticks_in es) else ticks_in es)"
  by (simp add: ticks_in_def)

lemma decay_run_Cons: "decay_run (e # es) d = decay_run es (decay_step e d)"
  by (simp add: decay_run_def)

lemma restart: "decaying (decay_items d i) = DECAYING_TRUE \<Longrightarrow> startDecay i d = d"
  by (simp add: startDecay_def Let_def)

lemma other_step:
  assumes "leaves i e" and "e \<noteq> CheckDecay" and "decaying (decay_items d i) = DECAYING_TRUE"
    and "e = Cleanup \<Longrightarrow> i \<notin> set (toDecayItems d)"
  shows "same_for i d (decay_step e d)"
proof (cases e)
  case (StartDecay j)
  with assms(3) show ?thesis by (cases "j = i") (simp_all add: restart startDecay_other)
qed (use assms in \<open>auto intro: cleanup_other same_for_ops(1)\<close>)

lemma gone_tick:
  assumes "gone i d"
  shows "gone i (checkDecay d) \<and> count_list (decayed (checkDecay d)) i = count_list (decayed d) i"
proof -
  have wf: "decay_wf d" "nowhere i d" "decaying (decay_items d i) = DECAYING_TRUE" using assms by (simp_all add: gone_def)
  define t where "t = (lastBucket d + 1) mod 4"
  have t: "t < 4" by (simp add: t_def)
  let ?d = "d\<lparr> lastBucket := t \<rparr>"
  have "same_for i ?d (tick_of t d)" using wf t by (intro tick_other) (simp_all add: nowhere_def)
  moreover from this have "i \<notin> set (toDecayItems (tick_of t d))" using wf(2) by (simp add: same_for_idle nowhere_def)
  ultimately have same: "same_for i ?d (checkDecay d)"
    unfolding checkDecay_tick t_def [symmetric] by (blast intro: same_for_trans cleanup_other)
  have "decay_wf ?d" "nowhere i ?d" using wf t by (simp_all add: decay_wf_def nowhere_def)
  from same_for_nowhere [OF same this] same wf(3) show ?thesis by (simp add: same_for_def gone_def)
qed

lemma gone_run:
  assumes "list_all (leaves i) es" and "gone i d"
  shows "count_list (decayed (decay_run es d)) i = count_list (decayed d) i"
  using assms
proof (induction es arbitrary: d)
  case (Cons e es)
  have "gone i (decay_step e d) \<and> count_list (decayed (decay_step e d)) i = count_list (decayed d) i"
  proof (cases "e = CheckDecay")
    case True
    with gone_tick [OF Cons.prems(2)] show ?thesis by simp
  next
    case False
    have "same_for i d (decay_step e d)"
      using Cons.prems False by (intro other_step) (simp_all add: gone_def nowhere_def)
    from same_for_nowhere [OF this] this Cons.prems(2) show ?thesis by (simp add: same_for_def gone_def)
  qed
  with Cons.IH [of "decay_step e d"] Cons.prems(1) show ?case by (simp add: decay_run_Cons)
qed (simp add: decay_run_def)

lemma due_run:
  assumes "list_all (leaves i) es" and "due_in i n D d"
  shows "count_list (decayed (decay_run es d)) i = count_list (decayed d) i + (if n \<le> ticks_in es then 1 else 0)"
  using assms
proof (induction es arbitrary: n D d)
  case Nil
  then have "0 < n" by (auto simp: due_in_def ticks_to_def)
  then show ?case by (simp add: decay_run_def ticks_in_def)
next
  case (Cons e es)
  show ?case
  proof (cases "e = CheckDecay")
    case True
    from tick_cases [OF Cons.prems(2)] show ?thesis
    proof
      assume "n = 1 \<and> gone i (checkDecay d) \<and> count_list (decayed (checkDecay d)) i = count_list (decayed d) i + 1"
      with gone_run [of i es "checkDecay d"] Cons.prems(1) True show ?thesis by (simp add: decay_run_Cons ticks_in_Cons)
    next
      assume "(\<exists>D'. 1 < n \<and> due_in i (n - 1) D' (checkDecay d)) \<and> count_list (decayed (checkDecay d)) i = count_list (decayed d) i"
      then obtain D' where "1 < n" "due_in i (n - 1) D' (checkDecay d)"
        "count_list (decayed (checkDecay d)) i = count_list (decayed d) i" by blast
      with Cons.IH [of "n - 1" D' "checkDecay d"] Cons.prems(1) True show ?thesis
        by (auto simp: decay_run_Cons ticks_in_Cons)
    qed
  next
    case False
    obtain b where b: "in_bucket i b d" "n = ticks_to b (lastBucket d) + more_ticks D" using Cons.prems(2) by (auto simp: due_in_def)
    then have same: "same_for i d (decay_step e d)"
      using Cons.prems False by (intro other_step) (simp_all add: in_bucket_def due_in_def)
    have "due_in i n D (decay_step e d)"
      using Cons.prems(2) unfolding b(2) by (intro due_same [OF same _ b(1)]) (simp_all add: due_in_def)
    from Cons.IH [OF _ this] Cons.prems(1) same False show ?thesis
      by (simp add: same_for_def decay_run_Cons ticks_in_Cons)
  qed
qed

section \<open>From the start to the bucket\<close>

text \<open>An item that has started waits in \<open>toDecayItems\<close> until the next \<open>cleanup\<close>.\<close>

definition pending :: "nat \<Rightarrow> nat \<Rightarrow> decay_state \<Rightarrow> bool" where
  "pending i D d \<longleftrightarrow> decay_wf d \<and> canDecay (decay_items d i) \<and> decaying (decay_items d i) = DECAYING_TRUE \<and>
     sint (duration (decay_items d i)) = int D \<and> 0 < D \<and>
     (\<forall>c<4. i \<notin> set (decayItems d ! c)) \<and> count_list (toDecayItems d) i = 1"

definition ticks_from_bucket :: "nat \<Rightarrow> nat" where
  "ticks_from_bucket D = (if D < 1000 then 1 else 4 + more_ticks D)"

lemma pending_same: "same_for i d d' \<Longrightarrow> pending i D d \<Longrightarrow> pending i D d'"
  by (auto simp: pending_def same_for_def decay_wf_def count_list_0_iff [symmetric])

lemma started:
  assumes "decay_wf d" "nowhere i d" "canDecay (decay_items d i)" "decaying (decay_items d i) \<noteq> DECAYING_TRUE"
    and D: "sint (duration (decay_items d i)) = int D" "0 < D"
  shows "pending i D (startDecay i d)" and "decayed (startDecay i d) = decayed d"
proof -
  have "duration (decay_items d i) > 0" using D by (auto simp: word_gt_0)
  then have start: "startDecay i d =
      set_item i ((decay_items d i)\<lparr> decaying := DECAYING_TRUE \<rparr>) d\<lparr> toDecayItems := i # toDecayItems d \<rparr>"
    using assms(3,4) by (simp add: startDecay_def Let_def)
  then show "decayed (startDecay i d) = decayed d" by (simp add: set_item_def)
  show "pending i D (startDecay i d)"
    using assms by (auto simp: start pending_def set_item_def nowhere_def decay_wf_def canDecay_def count_list_0_iff split: if_splits)
qed

lemma fill_append: "fill (xs @ ys) d = fill ys (fill xs d)"
  by (simp add: fill_def)

lemma fill_one: "fill [i] d = push_bucket
    (if duration (decay_items d i) \<ge> 1000 then lastBucket d
     else (lastBucket d + 1 + unat (duration (decay_items d i)) div 1000) mod 4) i d"
  by (simp add: fill_def Let_def EVENT_DECAYINTERVAL_def EVENT_DECAY_BUCKETS_def)

lemma pending_cleanup:
  assumes p: "pending i D d"
  shows "due_in i (ticks_from_bucket D) D (cleanup d)" and "count_list (decayed (cleanup d)) i = count_list (decayed d) i"
proof -
  have it: "decay_wf d" "canDecay (decay_items d i)" "decaying (decay_items d i) = DECAYING_TRUE"
    "sint (duration (decay_items d i)) = int D" "0 < D" "\<forall>c<4. i \<notin> set (decayItems d ! c)" "count_list (toDecayItems d) i = 1"
    using p by (simp_all add: pending_def)
  define b where "b = (if D < 1000 then (lastBucket d + 1) mod 4 else lastBucket d)"
  have b4: "b < 4" using it(1) by (simp add: b_def decay_wf_def)
  have pos: "uint (duration (decay_items d i)) = int D"
    using it(4) sint_lt [of "duration (decay_items d i)"] by (simp add: uint_sint take_bit_int_eq_self)
  then have pos': "unat (duration (decay_items d i)) = D" by (metis nat_int unat_eq_nat_uint)
  obtain ys zs where xs: "toDecayItems d = ys @ i # zs" "i \<notin> set ys" "i \<notin> set zs" using split_once [OF it(7)] by blast
  define d1 where "d1 = fill ys d"
  define d2 where "d2 = push_bucket b i d1"
  have s1: "same_for i d d1" unfolding d1_def by (rule fill_other [OF xs(2)])
  then have s: "decay_items d1 i = decay_items d i" "lastBucket d1 = lastBucket d" "length (decayItems d1) = 4"
    "count_list (decayed d1) i = count_list (decayed d) i"
    using it(1) by (simp_all add: same_for_def decay_wf_def)
  have "fill [i] d1 = d2" using pos pos' by (simp add: fill_one s d2_def b_def word_le_def)
  then have f: "fill (toDecayItems d) d = fill zs d2"
    using fill_append [of ys "i # zs" d] fill_append [of "[i]" zs d1] by (simp add: xs(1) d1_def)
  have s2: "same_for i d2 (fill zs d2)" by (rule fill_other [OF xs(3)])
  have "count_list (decayItems d2 ! c) i = (if c = b then 1 else 0)" if "c < 4" for c
    using that b4 s(3) s1 it(1,6)
    by (cases "c = b") (simp_all add: d2_def push_bucket_def same_for_def decay_wf_def count_list_0_iff)
  then have r: "in_bucket i b (cleanup d)" "decay_wf (cleanup d)" "decay_items (cleanup d) i = decay_items d i"
    "lastBucket (cleanup d) = lastBucket d" "count_list (decayed (cleanup d)) i = count_list (decayed d) i"
    using s s2 b4 it(1) by (simp_all add: cleanup_def f in_bucket_def same_for_def decay_wf_def d2_def push_bucket_def)
  show "count_list (decayed (cleanup d)) i = count_list (decayed d) i" by (rule r(5))
  have "ticks_to b (lastBucket d) + more_ticks D = ticks_from_bucket D"
    using it(1) ticks_to_here by (simp add: b_def decay_wf_def more_ticks_cases(1) ticks_from_bucket_def)
  moreover have "due_in i (ticks_to b (lastBucket (cleanup d)) + more_ticks D) D (cleanup d)"
    by (rule due_same [OF same_for_refl r(2,1)]) (simp_all add: r(3) it)
  ultimately show "due_in i (ticks_from_bucket D) D (cleanup d)" by (simp add: r(4))
qed

lemma pending_tick:
  assumes p: "pending i D d"
  shows "due_in i (ticks_from_bucket D) D (checkDecay d)" and "count_list (decayed (checkDecay d)) i = count_list (decayed d) i"
proof -
  define t where "t = (lastBucket d + 1) mod 4"
  have t: "t < 4" by (simp add: t_def)
  have "same_for i (d\<lparr> lastBucket := t \<rparr>) (tick_of t d)"
    using p t by (intro tick_other) (simp_all add: pending_def)
  moreover have "pending i D (d\<lparr> lastBucket := t \<rparr>)" using p t by (simp add: pending_def decay_wf_def)
  ultimately have "pending i D (tick_of t d) \<and> count_list (decayed (tick_of t d)) i = count_list (decayed d) i"
    using pending_same [of i "d\<lparr> lastBucket := t \<rparr>"] by (simp add: same_for_def)
  with pending_cleanup [of i D "tick_of t d"]
  show "due_in i (ticks_from_bucket D) D (checkDecay d)" "count_list (decayed (checkDecay d)) i = count_list (decayed d) i"
    unfolding checkDecay_tick t_def [symmetric] by simp_all
qed

text \<open>When a tick comes before a clean-up, it is one tick later.\<close>

lemma pending_run:
  assumes "list_all (leaves i) es" and "pending i D d"
  shows "\<exists>n\<in>{ticks_from_bucket D, Suc (ticks_from_bucket D)}.
    count_list (decayed (decay_run es d)) i = count_list (decayed d) i + (if n \<le> ticks_in es then 1 else 0)"
  using assms
proof (induction es arbitrary: d)
  case Nil
  have "0 < ticks_from_bucket D" by (simp add: ticks_from_bucket_def)
  then show ?case by (simp add: decay_run_def ticks_in_def)
next
  case (Cons e es)
  have es: "list_all (leaves i) es" using Cons.prems(1) by simp
  consider "e = CheckDecay" | "e = Cleanup" | "e \<noteq> CheckDecay" "e \<noteq> Cleanup" by blast
  then show ?case
  proof cases
    case 1
    with due_run [OF es pending_tick(1) [OF Cons.prems(2)]] pending_tick(2) [OF Cons.prems(2)]
    show ?thesis by (intro bexI [of _ "Suc (ticks_from_bucket D)"]) (simp_all add: decay_run_Cons ticks_in_Cons)
  next
    case 2
    with due_run [OF es pending_cleanup(1) [OF Cons.prems(2)]] pending_cleanup(2) [OF Cons.prems(2)]
    show ?thesis by (intro bexI [of _ "ticks_from_bucket D"]) (simp_all add: decay_run_Cons ticks_in_Cons)
  next
    case 3
    then have same: "same_for i d (decay_step e d)"
      using Cons.prems by (intro other_step) (simp_all add: pending_def)
    from Cons.IH [OF es pending_same [OF this Cons.prems(2)]] same 3 show ?thesis
      by (simp add: decay_run_Cons ticks_in_Cons same_for_def)
  qed
qed

section \<open>Decay in time\<close>

text \<open>
  Events with the times, in milliseconds, at which they happen: a tick asks for the next one 250
  milliseconds later and comes at most \<open>late\<close> milliseconds after it is due.
\<close>

fun on_clock :: "nat \<Rightarrow> nat \<Rightarrow> nat \<Rightarrow> (nat \<times> decay_event) list \<Rightarrow> bool" where
  "on_clock late due now [] \<longleftrightarrow> True"
| "on_clock late due now ((t, e) # es) \<longleftrightarrow> now \<le> t \<and> t \<le> due + late \<and>
     (if e = CheckDecay then due \<le> t \<and> on_clock late (t + 250) t es else on_clock late due t es)"

lemma ticks_not_early:
  "on_clock late due now es \<Longrightarrow> 0 < ticks_in (map snd es) \<Longrightarrow>
    \<exists>(t, e)\<in>set es. due + 250 * ticks_in (map snd es) \<le> t + 250 \<and> now + 250 * ticks_in (map snd es) \<le> t + 250"
proof (induction es arbitrary: due now)
  case (Cons x es)
  obtain t e where x: "x = (t, e)" by (cases x)
  show ?case
  proof (cases "e = CheckDecay \<and> ticks_in (map snd es) = 0")
    case True
    then show ?thesis using Cons.prems by (auto simp: x ticks_in_Cons)
  next
    case False
    define due' where "due' = (if e = CheckDecay then t + 250 else due)"
    have "on_clock late due' t es" "0 < ticks_in (map snd es)"
      using Cons.prems False by (auto simp: x due'_def ticks_in_Cons split: if_splits)
    from Cons.IH [OF this] obtain u f where u: "(u, f) \<in> set es"
      "due' + 250 * ticks_in (map snd es) \<le> u + 250" "t + 250 * ticks_in (map snd es) \<le> u + 250" by auto
    have "due + 250 * ticks_in (map snd (x # es)) \<le> u + 250 \<and> now + 250 * ticks_in (map snd (x # es)) \<le> u + 250"
      using Cons.prems(1) u(2,3) by (auto simp: x due'_def ticks_in_Cons split: if_splits)
    with u(1) show ?thesis by (intro bexI [of _ "(u, f)"]) simp_all
  qed
qed (simp add: ticks_in_def)

lemma ticks_not_late:
  "on_clock late due now es \<Longrightarrow> (t, e) \<in> set es \<Longrightarrow> t \<le> due + late + ticks_in (map snd es) * (250 + late)"
proof (induction es arbitrary: due now)
  case (Cons x es)
  obtain u f where x: "x = (u, f)" by (cases x)
  show ?case
  proof (cases "(t, e) = x")
    case True
    with Cons.prems(1) show ?thesis by (auto simp: x)
  next
    case False
    then have t: "(t, e) \<in> set es" using Cons.prems(2) by simp
    show ?thesis
    proof (cases "f = CheckDecay")
      case True
      then have u: "u \<le> due + late" and "on_clock late (u + 250) u es" using Cons.prems(1) by (simp_all add: x)
      from Cons.IH [OF this(2) t] u show ?thesis using True by (simp add: x ticks_in_Cons)
    next
      case other: False
      then have "on_clock late due u es" using Cons.prems(1) by (simp add: x)
      from Cons.IH [OF this t] show ?thesis using other by (simp add: x ticks_in_Cons)
    qed
  qed
qed simp

lemma more_ticks_bounds: "1000 \<le> D \<Longrightarrow> D < 250 * (4 + more_ticks D) + 875 \<and> 250 * (4 + more_ticks D) \<le> D + 249"
proof (induction D rule: more_ticks.induct)
  case (1 D)
  consider "D < 1875" | "1875 \<le> D" "D < 2000" | "2000 \<le> D" by linarith
  then show ?case
  proof cases
    case 3
    then obtain k where k: "D = k + 1000" "1000 \<le> k" by (intro that [of "D - 1000"]) simp_all
    then have "k < 250 * (4 + more_ticks k) + 875" "250 * (4 + more_ticks k) \<le> k + 249" using 1 3 by simp_all
    with k 3 show ?thesis by (simp add: more_ticks_cases(3))
  qed (use 1 in \<open>simp_all add: more_ticks_cases\<close>)
qed

lemma ticks_from_bucket_bounds:
  assumes "0 < D"
  shows "D < 250 * ticks_from_bucket D + 875" and "250 * ticks_from_bucket D < D + 250"
  using more_ticks_bounds [of D] assms by (auto simp: ticks_from_bucket_def)

lemma ticks_by:
  assumes "on_clock late due now es" and "due \<le> now + 250" and "(t, e) \<in> set es"
    and "now + D + 500 + late * (D div 250 + 2) \<le> t" and "250 * n < D + 250"
  shows "Suc n \<le> ticks_in (map snd es)"
proof (rule ccontr)
  define k where "k = ticks_in (map snd es)"
  assume "\<not> Suc n \<le> ticks_in (map snd es)"
  then have "k \<le> n" by (simp add: k_def)
  then have "Suc k \<le> D div 250 + 2" and "250 * k < D + 250" using assms(5) by linarith+
  then have l: "late * Suc k \<le> late * (D div 250 + 2)" by (intro mult_le_mono2)
  have "t \<le> due + late + k * (250 + late)" unfolding k_def by (rule ticks_not_late [OF assms(1,3)])
  also have "\<dots> = due + 250 * k + late * Suc k" by (simp add: algebra_simps)
  also have "\<dots> < now + D + 500 + late * (D div 250 + 2)" using l assms(2) \<open>250 * k < D + 250\<close> by linarith
  finally show False using assms(4) by simp
qed

text \<open>
  C35:
  An item that starts to decay at some moment, between two ticks, with D milliseconds left (less than two
  to the 31) decays at most once as long as nothing changes it: not before D - 1125 milliseconds have
  passed, and, when no tick is more than \<open>late\<close> milliseconds late, before D + 500 milliseconds have, with
  \<open>late\<close> more for each tick. Clean-ups may come at any time or be left to the next tick, other items may
  start, change and decay, and starting it again changes nothing. What its own decay turns it into is a
  change.
\<close>

theorem decays_once_in_time:
  assumes "decay_wf d" "nowhere i d" "canDecay (decay_items d i)" "decaying (decay_items d i) \<noteq> DECAYING_TRUE"
    and D: "sint (duration (decay_items d i)) = int D" "0 < D"
    and es: "list_all (leaves i) (map snd es)" "due \<le> now + 250" "on_clock late due now es"
  shows "\<exists>k\<le>1. count_list (decayed (decay_run (map snd es) (startDecay i d))) i = count_list (decayed d) i + k \<and>
    ((\<forall>(t, e)\<in>set es. t + 1125 \<le> now + D) \<longrightarrow> k = 0) \<and>
    ((\<exists>(t, e)\<in>set es. now + D + 500 + late * (D div 250 + 2) \<le> t) \<longrightarrow> k = 1)"
proof -
  define m where "m = ticks_in (map snd es)"
  obtain n where n: "n = ticks_from_bucket D \<or> n = Suc (ticks_from_bucket D)"
    "count_list (decayed (decay_run (map snd es) (startDecay i d))) i = count_list (decayed d) i + (if n \<le> m then 1 else 0)"
    using pending_run [OF es(1) started(1) [OF assms(1-6)]] started(2) [OF assms(1-6)] by (auto simp: m_def)
  have early: "\<not> n \<le> m" if t: "\<forall>(t, e)\<in>set es. t + 1125 \<le> now + D"
  proof
    assume "n \<le> m"
    then have "ticks_from_bucket D \<le> m" using n(1) by auto
    moreover from this have "0 < m" by (simp add: ticks_from_bucket_def split: if_splits)
    with ticks_not_early [OF es(3)] obtain t e where "(t, e) \<in> set es" "now + 250 * m \<le> t + 250"
      by (auto simp: m_def)
    ultimately show False using t ticks_from_bucket_bounds(1) [OF D(2)] by fastforce
  qed
  have late: "n \<le> m" if "(t, e) \<in> set es" "now + D + 500 + late * (D div 250 + 2) \<le> t" for t e
    using ticks_by [OF es(3,2) that ticks_from_bucket_bounds(2) [OF D(2)]] n(1) by (auto simp: m_def)
  show ?thesis
  proof (intro exI [of _ "if n \<le> m then 1 else 0"] conjI impI)
    show "(if n \<le> m then 1 else 0) = (0 :: nat)" if "\<forall>(t, e)\<in>set es. t + 1125 \<le> now + D"
      using early [OF that] by simp
    show "(if n \<le> m then 1 else 0) = (1 :: nat)" if "\<exists>(t, e)\<in>set es. now + D + 500 + late * (D div 250 + 2) \<le> t"
      using late that by auto
  qed (simp_all add: n(2))
qed

text \<open>
  A torch with 1874 milliseconds left starts 240 milliseconds after a tick: it is gone 760 milliseconds
  later when a clean-up comes before the next tick, and after 1010 otherwise.
\<close>

definition sample_torch :: decay_state where
  "sample_torch = no_decay (\<lambda>i. \<lparr> removed = False, decayTo = 0, decayTime = 2, has_unique = False, duration = 1874,
     decaying = DECAYING_FALSE \<rparr>)"

definition sample_ticks :: "nat \<Rightarrow> (nat \<times> decay_event) list" where
  "sample_ticks n = map (\<lambda>k. (250 * (k + 1), CheckDecay)) [0..<n]"

theorem decays_once_in_time_witness:
  "decayed (decay_run (map snd (sample_ticks 4)) (startDecay 7 sample_torch)) = [] \<and>
   decayed (decay_run (map snd (sample_ticks 5)) (startDecay 7 sample_torch)) = [7] \<and>
   decayed (decay_run (map snd ((240, Cleanup) # sample_ticks 4)) (startDecay 7 sample_torch)) = [7] \<and>
   count_list (decayed (decay_run (map snd (sample_ticks 12)) (startDecay 7 sample_torch))) 7 = 1"
proof -
  have "decay_wf sample_torch" "nowhere 7 sample_torch" "decayed sample_torch = []"
    "canDecay (decay_items sample_torch 7)" "decaying (decay_items sample_torch 7) \<noteq> DECAYING_TRUE"
    "sint (duration (decay_items sample_torch 7)) = int 1874"
    by (simp_all add: sample_torch_def no_decay_def decay_wf_def nowhere_def EVENT_DECAY_BUCKETS_def canDecay_def)
  moreover have "list_all (leaves 7) (map snd (sample_ticks 12))" "on_clock 0 250 240 (sample_ticks 12)"
    "(3000, CheckDecay) \<in> set (sample_ticks 12)" by code_simp+
  ultimately have "count_list (decayed (decay_run (map snd (sample_ticks 12)) (startDecay 7 sample_torch))) 7 = 1"
    using decays_once_in_time [of sample_torch 7 1874 "sample_ticks 12" 250 240 0] by force
  moreover have "decayed (decay_run (map snd (sample_ticks 4)) (startDecay 7 sample_torch)) = []"
    "decayed (decay_run (map snd (sample_ticks 5)) (startDecay 7 sample_torch)) = [7]"
    "decayed (decay_run (map snd ((240, Cleanup) # sample_ticks 4)) (startDecay 7 sample_torch)) = [7]" by code_simp+
  ultimately show ?thesis by blast
qed

end
