(* ===== verification/Tile.thy ===== *)
theory Tile
  imports Position
begin

text \<open>
  The things on a tile (\<open>tile.cpp\<close>, \<open>tile.h\<close>): the ground, the items in one vector whose first
  \<open>downItemCount\<close> entries lie below and whose others are always on top, the creatures, and the flags that
  follow the properties of the items. Items and creatures are known by numbers; what a tile reads of an
  item is in its record and in the table of types, which is a parameter. The parents are the things whose
  parent is this tile. Notices to clients, creatures and scripts are not modelled.
\<close>

unbundle bit_operations_syntax

section \<open>State\<close>

record tile_type =
  isGroundTile :: bool
  alwaysOnTop :: bool
  alwaysOnTopOrder :: u8
  isSplash :: bool
  isMagicField :: bool
  stackable :: bool
  blockSolid :: bool
  moveable :: bool
  hasHeight :: bool
  blockPathFind :: bool
  blockProjectile :: bool
  isVertical :: bool
  isHorizontal :: bool
  replaceable :: bool
  lookThrough :: bool
  forceUse :: bool
  isContainer :: bool
  floorChange :: u8

record tile_item =
  itemType :: u16
  itemCount :: u8
  uniqueId :: bool
  getTeleport :: bool
  getMagicField :: bool
  getMailbox :: bool
  getTrashHolder :: bool
  getBed :: bool
  getDepotLocker :: bool

datatype tile_thing = TileCreature nat | TileItem nat

record tile =
  ground :: "nat option"
  itemVector :: "nat list option"
  downItemCount :: u16
  creatures :: "nat list option"
  tileFlags :: u32
  things :: "nat \<Rightarrow> tile_item"
  parented :: "tile_thing set"
  released :: "nat list"

type_synonym tile_types = "u16 \<Rightarrow> tile_type"

definition items_of :: "tile \<Rightarrow> nat list" where
  "items_of t = (case itemVector t of None \<Rightarrow> [] | Some xs \<Rightarrow> xs)"

definition creatures_of :: "tile \<Rightarrow> nat list" where
  "creatures_of t = (case creatures t of None \<Rightarrow> [] | Some cs \<Rightarrow> cs)"

definition down_items :: "tile \<Rightarrow> nat list" where
  "down_items t = take (unat (downItemCount t)) (items_of t)"

definition top_items :: "tile \<Rightarrow> nat list" where
  "top_items t = drop (unat (downItemCount t)) (items_of t)"

definition getTopItemCount :: "tile \<Rightarrow> nat" where
  "getTopItemCount t = length (items_of t) - unat (downItemCount t)"

definition getThingCount :: "tile \<Rightarrow> nat" where
  "getThingCount t = length (creatures_of t) + length (items_of t) + (if ground t \<noteq> None then 1 else 0)"

definition type_of_item :: "tile_types \<Rightarrow> tile \<Rightarrow> nat \<Rightarrow> tile_type" where
  "type_of_item T t i = T (itemType (things t i))"

definition isAlwaysOnTop :: "tile_types \<Rightarrow> tile \<Rightarrow> nat \<Rightarrow> bool" where
  "isAlwaysOnTop T t i = alwaysOnTop (type_of_item T t i)"

section \<open>Properties and flags\<close>

datatype ITEMPROPERTY = CONST_PROP_BLOCKSOLID | CONST_PROP_HASHEIGHT | CONST_PROP_BLOCKPROJECTILE
  | CONST_PROP_BLOCKPATH | CONST_PROP_ISVERTICAL | CONST_PROP_ISHORIZONTAL | CONST_PROP_MOVEABLE
  | CONST_PROP_IMMOVABLEBLOCKSOLID | CONST_PROP_IMMOVABLEBLOCKPATH | CONST_PROP_IMMOVABLENOFIELDBLOCKPATH
  | CONST_PROP_NOFIELDBLOCKPATH | CONST_PROP_SUPPORTHANGABLE

definition item_hasProperty :: "tile_types \<Rightarrow> tile_item \<Rightarrow> ITEMPROPERTY \<Rightarrow> bool" where
  "item_hasProperty T x prop =
     (let it = T (itemType x) in
      case prop of
        CONST_PROP_BLOCKSOLID \<Rightarrow> blockSolid it
      | CONST_PROP_MOVEABLE \<Rightarrow> moveable it \<and> \<not> uniqueId x
      | CONST_PROP_HASHEIGHT \<Rightarrow> hasHeight it
      | CONST_PROP_BLOCKPROJECTILE \<Rightarrow> blockProjectile it
      | CONST_PROP_BLOCKPATH \<Rightarrow> blockPathFind it
      | CONST_PROP_ISVERTICAL \<Rightarrow> isVertical it
      | CONST_PROP_ISHORIZONTAL \<Rightarrow> isHorizontal it
      | CONST_PROP_IMMOVABLEBLOCKSOLID \<Rightarrow> blockSolid it \<and> (\<not> moveable it \<or> uniqueId x)
      | CONST_PROP_IMMOVABLEBLOCKPATH \<Rightarrow> blockPathFind it \<and> (\<not> moveable it \<or> uniqueId x)
      | CONST_PROP_IMMOVABLENOFIELDBLOCKPATH \<Rightarrow> \<not> isMagicField it \<and> blockPathFind it \<and> (\<not> moveable it \<or> uniqueId x)
      | CONST_PROP_NOFIELDBLOCKPATH \<Rightarrow> \<not> isMagicField it \<and> blockPathFind it
      | CONST_PROP_SUPPORTHANGABLE \<Rightarrow> isHorizontal it \<or> isVertical it)"

definition tile_hasProperty :: "tile_types \<Rightarrow> tile \<Rightarrow> ITEMPROPERTY \<Rightarrow> bool" where
  "tile_hasProperty T t prop =
     ((case ground t of None \<Rightarrow> False | Some g \<Rightarrow> item_hasProperty T (things t g) prop) \<or>
      list_ex (\<lambda>i. item_hasProperty T (things t i) prop) (items_of t))"

text \<open>The same without one item.\<close>

definition hasProperty_but :: "tile_types \<Rightarrow> tile \<Rightarrow> nat \<Rightarrow> ITEMPROPERTY \<Rightarrow> bool" where
  "hasProperty_but T t exclude prop =
     ((case ground t of None \<Rightarrow> False | Some g \<Rightarrow> exclude \<noteq> g \<and> item_hasProperty T (things t g) prop) \<or>
      list_ex (\<lambda>i. i \<noteq> exclude \<and> item_hasProperty T (things t i) prop) (items_of t))"

definition TILESTATE_FLOORCHANGE :: u32 where "TILESTATE_FLOORCHANGE = 0x7F"
definition TILESTATE_TELEPORT :: u32 where "TILESTATE_TELEPORT = push_bit 11 1"
definition TILESTATE_MAGICFIELD :: u32 where "TILESTATE_MAGICFIELD = push_bit 12 1"
definition TILESTATE_MAILBOX :: u32 where "TILESTATE_MAILBOX = push_bit 13 1"
definition TILESTATE_TRASHHOLDER :: u32 where "TILESTATE_TRASHHOLDER = push_bit 14 1"
definition TILESTATE_BED :: u32 where "TILESTATE_BED = push_bit 15 1"
definition TILESTATE_DEPOT :: u32 where "TILESTATE_DEPOT = push_bit 16 1"
definition TILESTATE_BLOCKSOLID :: u32 where "TILESTATE_BLOCKSOLID = push_bit 17 1"
definition TILESTATE_BLOCKPATH :: u32 where "TILESTATE_BLOCKPATH = push_bit 18 1"
definition TILESTATE_IMMOVABLEBLOCKSOLID :: u32 where "TILESTATE_IMMOVABLEBLOCKSOLID = push_bit 19 1"
definition TILESTATE_IMMOVABLEBLOCKPATH :: u32 where "TILESTATE_IMMOVABLEBLOCKPATH = push_bit 20 1"
definition TILESTATE_IMMOVABLENOFIELDBLOCKPATH :: u32 where "TILESTATE_IMMOVABLENOFIELDBLOCKPATH = push_bit 21 1"
definition TILESTATE_NOFIELDBLOCKPATH :: u32 where "TILESTATE_NOFIELDBLOCKPATH = push_bit 22 1"
definition TILESTATE_SUPPORTS_HANGABLE :: u32 where "TILESTATE_SUPPORTS_HANGABLE = push_bit 23 1"

definition hasFlag :: "u32 \<Rightarrow> tile \<Rightarrow> bool" where
  "hasFlag flag t = (tileFlags t AND flag \<noteq> 0)"

definition setFlag :: "u32 \<Rightarrow> tile \<Rightarrow> tile" where
  "setFlag flag t = t\<lparr> tileFlags := tileFlags t OR flag \<rparr>"

definition resetFlag :: "u32 \<Rightarrow> tile \<Rightarrow> tile" where
  "resetFlag flag t = t\<lparr> tileFlags := tileFlags t AND NOT flag \<rparr>"

text \<open>An \<open>if\<close> without an \<open>else\<close> on the way.\<close>

definition if_then :: "bool \<Rightarrow> (tile \<Rightarrow> tile) \<Rightarrow> tile \<Rightarrow> tile" where
  "if_then b f t = (if b then f t else t)"

text \<open>Which flags an item sets, in the order of the code.\<close>

definition flags_to_set :: "tile_types \<Rightarrow> nat \<Rightarrow> tile \<Rightarrow> (bool \<times> u32) list" where
  "flags_to_set T i t =
     (let x = things t i; it = T (itemType x) in
        [(\<not> hasFlag TILESTATE_FLOORCHANGE t \<and> floorChange it \<noteq> 0, ucast (floorChange it)),
         (item_hasProperty T x CONST_PROP_IMMOVABLEBLOCKSOLID, TILESTATE_IMMOVABLEBLOCKSOLID),
         (item_hasProperty T x CONST_PROP_BLOCKPATH, TILESTATE_BLOCKPATH),
         (item_hasProperty T x CONST_PROP_NOFIELDBLOCKPATH, TILESTATE_NOFIELDBLOCKPATH),
         (item_hasProperty T x CONST_PROP_IMMOVABLENOFIELDBLOCKPATH, TILESTATE_IMMOVABLENOFIELDBLOCKPATH),
         (getTeleport x, TILESTATE_TELEPORT),
         (getMagicField x, TILESTATE_MAGICFIELD),
         (getMailbox x, TILESTATE_MAILBOX),
         (getTrashHolder x, TILESTATE_TRASHHOLDER),
         (item_hasProperty T x CONST_PROP_BLOCKSOLID, TILESTATE_BLOCKSOLID),
         (getBed x, TILESTATE_BED),
         (getDepotLocker x, TILESTATE_DEPOT),
         (item_hasProperty T x CONST_PROP_SUPPORTHANGABLE, TILESTATE_SUPPORTS_HANGABLE)])"

definition setTileFlags :: "tile_types \<Rightarrow> nat \<Rightarrow> tile \<Rightarrow> tile" where
  "setTileFlags T i t = fold (\<lambda>(b, flag). if_then b (setFlag flag)) (flags_to_set T i t) t"

text \<open>Some flags are reset only when no other item has the property; no condition reads the flags.\<close>

definition without_other :: "tile_types \<Rightarrow> nat \<Rightarrow> tile \<Rightarrow> ITEMPROPERTY \<Rightarrow> bool" where
  "without_other T i t prop \<longleftrightarrow> item_hasProperty T (things t i) prop \<and> \<not> hasProperty_but T t i prop"

definition flags_to_reset :: "tile_types \<Rightarrow> nat \<Rightarrow> tile \<Rightarrow> (bool \<times> u32) list" where
  "flags_to_reset T i t =
     (let x = things t i; it = T (itemType x) in
        [(floorChange it \<noteq> 0, TILESTATE_FLOORCHANGE),
         (without_other T i t CONST_PROP_BLOCKSOLID, TILESTATE_BLOCKSOLID),
         (without_other T i t CONST_PROP_IMMOVABLEBLOCKSOLID, TILESTATE_IMMOVABLEBLOCKSOLID),
         (without_other T i t CONST_PROP_BLOCKPATH, TILESTATE_BLOCKPATH),
         (without_other T i t CONST_PROP_NOFIELDBLOCKPATH, TILESTATE_NOFIELDBLOCKPATH),
         (without_other T i t CONST_PROP_IMMOVABLEBLOCKPATH, TILESTATE_IMMOVABLEBLOCKPATH),
         (without_other T i t CONST_PROP_IMMOVABLENOFIELDBLOCKPATH, TILESTATE_IMMOVABLENOFIELDBLOCKPATH),
         (getTeleport x, TILESTATE_TELEPORT),
         (getMagicField x, TILESTATE_MAGICFIELD),
         (getMailbox x, TILESTATE_MAILBOX),
         (getTrashHolder x, TILESTATE_TRASHHOLDER),
         (getBed x, TILESTATE_BED),
         (getDepotLocker x, TILESTATE_DEPOT),
         (item_hasProperty T x CONST_PROP_SUPPORTHANGABLE, TILESTATE_SUPPORTS_HANGABLE)])"

definition resetTileFlags :: "tile_types \<Rightarrow> nat \<Rightarrow> tile \<Rightarrow> tile" where
  "resetTileFlags T i t = fold (\<lambda>(b, flag). if_then b (resetFlag flag)) (flags_to_reset T i t) t"

section \<open>Positions of things\<close>

fun find_pos :: "'a \<Rightarrow> 'a list \<Rightarrow> nat option" where
  "find_pos x [] = None"
| "find_pos x (y # ys) = (if y = x then Some 0 else map_option Suc (find_pos x ys))"

text \<open>A loop that counts up to a thing: its number, or the count after all.\<close>

definition count_to :: "'a \<Rightarrow> 'a list \<Rightarrow> int \<Rightarrow> int + int" where
  "count_to x xs n = (case find_pos x xs of Some k \<Rightarrow> Inl (n + 1 + int k) | None \<Rightarrow> Inr (n + int (length xs)))"

definition tile_getThingIndex :: "tile_types \<Rightarrow> tile_thing \<Rightarrow> tile \<Rightarrow> int" where
  "tile_getThingIndex T thing t =
     (if map_option TileItem (ground t) = Some thing then 0
      else
        (case (case thing of
             TileItem i \<Rightarrow> if isAlwaysOnTop T t i then count_to i (top_items t) (if ground t \<noteq> None then 0 else -1)
                          else Inr ((if ground t \<noteq> None then 0 else -1) + int (getTopItemCount t))
           | TileCreature c \<Rightarrow> Inr ((if ground t \<noteq> None then 0 else -1) + int (getTopItemCount t))) of
           Inl n \<Rightarrow> n
         | Inr n \<Rightarrow>
           (case (case thing of TileCreature c \<Rightarrow> count_to c (creatures_of t) n
                | TileItem i \<Rightarrow> Inr (n + int (length (creatures_of t)))) of
              Inl n \<Rightarrow> n
            | Inr n \<Rightarrow>
              (case thing of
                 TileItem i \<Rightarrow> if \<not> isAlwaysOnTop T t i
                   then (case count_to i (down_items t) n of Inl n \<Rightarrow> n | Inr n \<Rightarrow> -1) else -1
               | TileCreature c \<Rightarrow> -1))))"

text \<open>The look-up by index; after the ground the index counts from the first thing above.\<close>

definition thing_above :: "nat \<Rightarrow> tile \<Rightarrow> tile_thing option" where
  "thing_above index t =
     (if index < getTopItemCount t then Some (TileItem (items_of t ! (unat (downItemCount t) + index)))
      else
        (let index = index - getTopItemCount t in
         if index < length (creatures_of t) then Some (TileCreature (creatures_of t ! index))
         else
           (let index = index - length (creatures_of t) in
            if index < unat (downItemCount t) then Some (TileItem (items_of t ! index)) else None)))"

definition tile_getThing :: "nat \<Rightarrow> tile \<Rightarrow> tile_thing option" where
  "tile_getThing index t =
     (case ground t of
        Some g \<Rightarrow> if index = 0 then Some (TileItem g) else thing_above (index - 1) t
      | None \<Rightarrow> thing_above index t)"

section \<open>Look-ups\<close>

definition getTeleportItem :: "tile \<Rightarrow> nat option" where
  "getTeleportItem t =
     (if \<not> hasFlag TILESTATE_TELEPORT t then None else find (\<lambda>i. getTeleport (things t i)) (rev (items_of t)))"

definition getFieldItem :: "tile \<Rightarrow> nat option" where
  "getFieldItem t =
     (if \<not> hasFlag TILESTATE_MAGICFIELD t then None
      else if (case ground t of None \<Rightarrow> False | Some g \<Rightarrow> getMagicField (things t g)) then ground t
      else find (\<lambda>i. getMagicField (things t i)) (rev (items_of t)))"

definition getTopDownItem :: "tile \<Rightarrow> nat option" where
  "getTopDownItem t = (if downItemCount t = 0 then None else Some (hd (items_of t)))"

definition getTopTopItem :: "tile \<Rightarrow> nat option" where
  "getTopTopItem t = (if getTopItemCount t = 0 then None else Some (last (items_of t)))"

definition getItemByTopOrder :: "tile_types \<Rightarrow> u8 \<Rightarrow> tile \<Rightarrow> nat option" where
  "getItemByTopOrder T topOrder t = find (\<lambda>i. alwaysOnTopOrder (type_of_item T t i) = topOrder) (rev (top_items t))"

definition getUseItem :: "tile_types \<Rightarrow> tile \<Rightarrow> nat option" where
  "getUseItem T t =
     (if items_of t = [] then ground t
      else
        (case find (\<lambda>i. forceUse (type_of_item T t i) \<and> \<not> isContainer (type_of_item T t i)) (rev (items_of t)) of
           Some i \<Rightarrow> Some i
         | None \<Rightarrow> (case getTopDownItem t of Some i \<Rightarrow> Some i | None \<Rightarrow> getTopTopItem t)))"

text \<open>What a player sees first; the visible creature is looked up by the caller's eyes.\<close>

definition getTopVisibleThing :: "tile_types \<Rightarrow> (nat \<Rightarrow> bool) \<Rightarrow> tile \<Rightarrow> tile_thing option" where
  "getTopVisibleThing T visible t =
     (case find visible (creatures_of t) of
        Some c \<Rightarrow> Some (TileCreature c)
      | None \<Rightarrow>
          (case find (\<lambda>i. \<not> lookThrough (type_of_item T t i)) (down_items t @ rev (top_items t)) of
             Some i \<Rightarrow> Some (TileItem i)
           | None \<Rightarrow> map_option TileItem (ground t)))"

fun height_reached :: "tile_types \<Rightarrow> tile \<Rightarrow> u32 \<Rightarrow> nat list \<Rightarrow> u32 \<Rightarrow> bool" where
  "height_reached T t n [] height = False"
| "height_reached T t n (i # rest) height =
     (let height = (if item_hasProperty T (things t i) CONST_PROP_HASHEIGHT then height + 1 else height)
      in if n = height then True else height_reached T t n rest height)"

definition hasHeight_tile :: "tile_types \<Rightarrow> tile \<Rightarrow> u32 \<Rightarrow> bool" where
  "hasHeight_tile T t n =
     height_reached T t n ((case ground t of None \<Rightarrow> [] | Some g \<Rightarrow> [g]) @ items_of t) 0"

section \<open>What a client sees\<close>

text \<open>Only ten things of a tile are sent to a client. The loops give up where the number would be 10.\<close>

fun stackpos_creature :: "(nat \<Rightarrow> bool) \<Rightarrow> nat \<Rightarrow> nat list \<Rightarrow> int \<Rightarrow> int" where
  "stackpos_creature canSee c [] n = -1"
| "stackpos_creature canSee c (d # cs) n =
     (if d = c then n
      else if canSee d then (if n + 1 \<ge> 10 then -1 else stackpos_creature canSee c cs (n + 1))
      else stackpos_creature canSee c cs n)"

definition getStackposOfCreature :: "(nat \<Rightarrow> bool) \<Rightarrow> nat \<Rightarrow> tile \<Rightarrow> int" where
  "getStackposOfCreature canSee c t =
     (let n = (if ground t \<noteq> None then 1 else 0) + int (getTopItemCount t)
      in if itemVector t \<noteq> None \<and> n \<ge> 10 then -1 else stackpos_creature canSee c (rev (creatures_of t)) n)"

fun client_index :: "(nat \<Rightarrow> bool) \<Rightarrow> nat \<Rightarrow> nat list \<Rightarrow> int \<Rightarrow> int" where
  "client_index canSee c [] n = -1"
| "client_index canSee c (d # cs) n =
     (if d = c then n else client_index canSee c cs (if canSee d then n + 1 else n))"

definition getClientIndexOfCreature :: "(nat \<Rightarrow> bool) \<Rightarrow> nat \<Rightarrow> tile \<Rightarrow> int" where
  "getClientIndexOfCreature canSee c t =
     client_index canSee c (rev (creatures_of t)) ((if ground t \<noteq> None then 1 else 0) + int (getTopItemCount t))"

text \<open>The loops of \<open>getStackposOfItem\<close>: the number of the item, or the count to go on with, or the end.\<close>

fun stackpos_item :: "nat \<Rightarrow> nat list \<Rightarrow> int \<Rightarrow> int + int" where
  "stackpos_item i [] n = Inr n"
| "stackpos_item i (j # js) n =
     (if j = i then Inl n else if n + 1 \<ge> 10 then Inl (-1) else stackpos_item i js (n + 1))"

fun count_seen :: "(nat \<Rightarrow> bool) \<Rightarrow> nat list \<Rightarrow> int \<Rightarrow> int + int" where
  "count_seen canSee [] n = Inr n"
| "count_seen canSee (c # cs) n =
     (if canSee c then (if n + 1 \<ge> 10 then Inl (-1) else count_seen canSee cs (n + 1)) else count_seen canSee cs n)"

definition getStackposOfItem :: "tile_types \<Rightarrow> (nat \<Rightarrow> bool) \<Rightarrow> nat \<Rightarrow> tile \<Rightarrow> int" where
  "getStackposOfItem T canSee i t =
     (if ground t = Some i then 0
      else
        (case (if itemVector t = None then Inr (if ground t \<noteq> None then 1 else 0)
               else if isAlwaysOnTop T t i then stackpos_item i (top_items t) (if ground t \<noteq> None then 1 else 0)
               else
                 (let n = (if ground t \<noteq> None then 1 else 0) + int (getTopItemCount t)
                  in if n \<ge> 10 then Inl (-1) else Inr n)) of
           Inl n \<Rightarrow> n
         | Inr n \<Rightarrow>
           (case count_seen canSee (creatures_of t) n of
              Inl n \<Rightarrow> n
            | Inr n \<Rightarrow>
              if itemVector t \<noteq> None \<and> \<not> isAlwaysOnTop T t i
              then (case stackpos_item i (down_items t) n of Inl n \<Rightarrow> n | Inr n \<Rightarrow> -1)
              else -1)))"

section \<open>Changes\<close>

definition own_thing :: "tile_thing \<Rightarrow> tile \<Rightarrow> tile" where
  "own_thing thing t = t\<lparr> parented := insert thing (parented t) \<rparr>"

definition disown_thing :: "tile_thing \<Rightarrow> tile \<Rightarrow> tile" where
  "disown_thing thing t = t\<lparr> parented := parented t - {thing} \<rparr>"

definition releaseItem :: "nat \<Rightarrow> tile \<Rightarrow> tile" where
  "releaseItem i t = t\<lparr> released := released t @ [i] \<rparr>"

definition addCreatureThing :: "nat \<Rightarrow> tile \<Rightarrow> tile" where
  "addCreatureThing c t = (own_thing (TileCreature c) t)\<lparr> creatures := Some (c # creatures_of t) \<rparr>"

definition insert_top :: "(nat \<Rightarrow> bool) \<Rightarrow> nat \<Rightarrow> nat list \<Rightarrow> nat list" where
  "insert_top before i js = takeWhile (\<lambda>j. \<not> before j) js @ i # dropWhile (\<lambda>j. \<not> before j) js"

definition add_top :: "(nat \<Rightarrow> bool) \<Rightarrow> nat \<Rightarrow> tile \<Rightarrow> tile" where
  "add_top before i t = t\<lparr> itemVector := Some (down_items t @ insert_top before i (top_items t)) \<rparr>"

definition add_down :: "nat \<Rightarrow> tile \<Rightarrow> tile" where
  "add_down i t = t\<lparr> itemVector := Some (i # items_of t), downItemCount := downItemCount t + 1 \<rparr>"

definition remove_top :: "nat \<Rightarrow> tile \<Rightarrow> tile" where
  "remove_top i t = t\<lparr> itemVector := Some (down_items t @ remove1 i (top_items t)) \<rparr>"

definition remove_down :: "nat \<Rightarrow> tile \<Rightarrow> tile" where
  "remove_down i t = t\<lparr> itemVector := Some (remove1 i (down_items t) @ top_items t), downItemCount := downItemCount t - 1 \<rparr>"

definition set_count :: "nat \<Rightarrow> u8 \<Rightarrow> tile \<Rightarrow> tile" where
  "set_count i n t = t\<lparr> things := (things t)(i := (things t i)\<lparr> itemCount := n \<rparr>) \<rparr>"

definition tile_removeThing :: "tile_types \<Rightarrow> tile_thing \<Rightarrow> u32 \<Rightarrow> tile \<Rightarrow> tile" where
  "tile_removeThing T thing count t =
     (case thing of
        TileCreature c \<Rightarrow>
          (case creatures t of
             None \<Rightarrow> t
           | Some cs \<Rightarrow> if c \<in> set cs then t\<lparr> creatures := Some (remove1 c cs) \<rparr> else t)
      | TileItem i \<Rightarrow>
          if tile_getThingIndex T thing t = -1 then t
          else if ground t = Some i then resetTileFlags T i ((disown_thing thing t)\<lparr> ground := None \<rparr>)
          else if itemVector t = None then t
          else if isAlwaysOnTop T t i then
            (if i \<notin> set (top_items t) then t
             else resetTileFlags T i (remove_top i (disown_thing thing t)))
          else if i \<notin> set (down_items t) then t
          else if stackable (type_of_item T t i) \<and> count \<noteq> ucast (itemCount (things t i)) then
            (let left = ucast (itemCount (things t i)) - count
             in set_count i (if sint left < 0 then 0 else ucast left) t)
          else resetTileFlags T i (remove_down i (disown_thing thing t)))"

text \<open>What is replaced when a thing is added, an old splash or an old field, is removed and let go.\<close>

definition drop_item :: "tile_types \<Rightarrow> nat \<Rightarrow> tile \<Rightarrow> tile" where
  "drop_item T i t = releaseItem i (disown_thing (TileItem i) (tile_removeThing T (TileItem i) 1 t))"

definition drop_splash :: "tile_types \<Rightarrow> tile \<Rightarrow> tile" where
  "drop_splash T t =
     (case find (\<lambda>j. isSplash (type_of_item T t j)) (top_items t) of None \<Rightarrow> t | Some j \<Rightarrow> drop_item T j t)"

definition tile_addThing :: "tile_types \<Rightarrow> tile_thing \<Rightarrow> tile \<Rightarrow> tile" where
  "tile_addThing T thing t =
     (case thing of
        TileCreature c \<Rightarrow> addCreatureThing c t
      | TileItem i \<Rightarrow>
          if itemVector t \<noteq> None \<and> int (length (items_of t)) \<ge> 0xFFFF then t
          else
            (let t1 = own_thing thing t; it = type_of_item T t i in
             if isGroundTile it then
               (case ground t of
                  None \<Rightarrow> setTileFlags T i (t1\<lparr> ground := Some i \<rparr>)
                | Some g \<Rightarrow>
                    setTileFlags T i (resetTileFlags T g ((releaseItem g (disown_thing (TileItem g) t1))\<lparr> ground := Some i \<rparr>)))
             else if alwaysOnTop it then
               (let t2 = if_then (isSplash it \<and> itemVector t \<noteq> None) (drop_splash T) t1
                in setTileFlags T i (add_top (\<lambda>j. alwaysOnTopOrder it \<le> alwaysOnTopOrder (type_of_item T t2 j)) i t2))
             else
               (case (if isMagicField it then find (\<lambda>j. getMagicField (things t1 j)) (down_items t1) else None) of
                  Some j \<Rightarrow>
                    if replaceable (type_of_item T t1 j) then setTileFlags T i (add_down i (drop_item T j t1))
                    else releaseItem i (disown_thing thing t1)
                | None \<Rightarrow> setTileFlags T i (add_down i t1))))"

definition tile_internalAddThing :: "tile_types \<Rightarrow> tile_thing \<Rightarrow> tile \<Rightarrow> tile" where
  "tile_internalAddThing T thing t =
     (case thing of
        TileCreature c \<Rightarrow> addCreatureThing c t
      | TileItem i \<Rightarrow>
          (let t1 = own_thing thing t; it = type_of_item T t i in
           if isGroundTile it then
             (if ground t = None then setTileFlags T i (t1\<lparr> ground := Some i \<rparr>) else t1)
           else
             (let t2 = t1\<lparr> itemVector := Some (items_of t1) \<rparr> in
              if int (length (items_of t2)) \<ge> 0xFFFF then t2
              else if alwaysOnTop it then
                setTileFlags T i (add_top (\<lambda>j. alwaysOnTopOrder (type_of_item T t2 j) > alwaysOnTopOrder it) i t2)
              else setTileFlags T i (add_down i t2))))"

text \<open>A change of an item on the tile; what \<open>setSubType\<close> does to an item is a parameter.\<close>

definition tile_updateThing :: "tile_types \<Rightarrow> (u32 \<Rightarrow> tile_item \<Rightarrow> tile_item) \<Rightarrow> tile_thing \<Rightarrow> u16 \<Rightarrow> u32 \<Rightarrow> tile \<Rightarrow> tile" where
  "tile_updateThing T setSubType thing itemId count t =
     (if tile_getThingIndex T thing t = -1 then t
      else
        (case thing of
           TileCreature c \<Rightarrow> t
         | TileItem i \<Rightarrow>
             (let t1 = resetTileFlags T i t;
                  t2 = t1\<lparr> things := (things t1)(i := setSubType count ((things t1 i)\<lparr> itemType := itemId \<rparr>)) \<rparr>
              in setTileFlags T i t2)))"

text \<open>Replacing by index: the item that was there, and the tile with the new one in its place.\<close>

definition put_at :: "nat \<Rightarrow> nat \<Rightarrow> tile \<Rightarrow> tile" where
  "put_at k i t = t\<lparr> itemVector := Some ((items_of t)[k := i]) \<rparr>"

definition replace_above :: "nat \<Rightarrow> nat \<Rightarrow> tile \<Rightarrow> (nat \<times> tile) option" where
  "replace_above pos i t =
     (if pos < getTopItemCount t then
        Some (items_of t ! (unat (downItemCount t) + pos), put_at (unat (downItemCount t) + pos) i t)
      else
        (let pos = pos - getTopItemCount t in
         if pos < length (creatures_of t) then None
         else
           (let pos = pos - length (creatures_of t) in
            if pos < unat (downItemCount t) then Some (items_of t ! pos, put_at pos i t) else None)))"

definition tile_replaceThing :: "tile_types \<Rightarrow> nat \<Rightarrow> tile_thing \<Rightarrow> tile \<Rightarrow> tile" where
  "tile_replaceThing T index thing t =
     (case thing of
        TileCreature c \<Rightarrow> t
      | TileItem i \<Rightarrow>
          (case (case ground t of
               Some g \<Rightarrow> if index = 0 then Some (g, t\<lparr> ground := Some i \<rparr>) else replace_above (index - 1) i t
             | None \<Rightarrow> replace_above index i t) of
             None \<Rightarrow> t
           | Some (old, t1) \<Rightarrow>
               disown_thing (TileItem old) (setTileFlags T i (resetTileFlags T old (own_thing thing t1)))))"

section \<open>The flags follow the items\<close>

text \<open>The items of a tile, the ground first.\<close>

definition on_tile :: "tile \<Rightarrow> nat list" where
  "on_tile t = (case ground t of None \<Rightarrow> [] | Some g \<Rightarrow> [g]) @ items_of t"

lemma tile_hasProperty_on: "tile_hasProperty T t prop \<longleftrightarrow> (\<exists>i\<in>set (on_tile t). item_hasProperty T (things t i) prop)"
  by (auto simp: tile_hasProperty_def on_tile_def list_ex_iff split: option.splits)

lemma hasProperty_but_on:
  "hasProperty_but T t x prop \<longleftrightarrow> (\<exists>i\<in>set (on_tile t). i \<noteq> x \<and> item_hasProperty T (things t i) prop)"
  by (auto simp: hasProperty_but_def on_tile_def list_ex_iff split: option.splits)

lemma power_bit: "bit (2 ^ m :: u32) n \<longleftrightarrow> n = m \<and> m < 32"
  by (auto simp: bit_exp_iff)

lemma flag_bits [simp]:
  "bit TILESTATE_TELEPORT n \<longleftrightarrow> n = 11" "bit TILESTATE_MAGICFIELD n \<longleftrightarrow> n = 12" "bit TILESTATE_MAILBOX n \<longleftrightarrow> n = 13"
  "bit TILESTATE_TRASHHOLDER n \<longleftrightarrow> n = 14" "bit TILESTATE_BED n \<longleftrightarrow> n = 15" "bit TILESTATE_DEPOT n \<longleftrightarrow> n = 16"
  "bit TILESTATE_BLOCKSOLID n \<longleftrightarrow> n = 17" "bit TILESTATE_BLOCKPATH n \<longleftrightarrow> n = 18"
  "bit TILESTATE_IMMOVABLEBLOCKSOLID n \<longleftrightarrow> n = 19" "bit TILESTATE_IMMOVABLEBLOCKPATH n \<longleftrightarrow> n = 20"
  "bit TILESTATE_IMMOVABLENOFIELDBLOCKPATH n \<longleftrightarrow> n = 21" "bit TILESTATE_NOFIELDBLOCKPATH n \<longleftrightarrow> n = 22"
  "bit TILESTATE_SUPPORTS_HANGABLE n \<longleftrightarrow> n = 23"
  unfolding TILESTATE_TELEPORT_def TILESTATE_MAGICFIELD_def TILESTATE_MAILBOX_def
    TILESTATE_TRASHHOLDER_def TILESTATE_BED_def TILESTATE_DEPOT_def TILESTATE_BLOCKSOLID_def TILESTATE_BLOCKPATH_def
    TILESTATE_IMMOVABLEBLOCKSOLID_def TILESTATE_IMMOVABLEBLOCKPATH_def TILESTATE_IMMOVABLENOFIELDBLOCKPATH_def
    TILESTATE_NOFIELDBLOCKPATH_def TILESTATE_SUPPORTS_HANGABLE_def push_bit_of_1 power_bit
  by simp_all

lemma low_bits:
  assumes "8 \<le> n"
  shows "\<not> bit (ucast (fc :: u8) :: u32) n" and "\<not> bit TILESTATE_FLOORCHANGE n"
proof -
  show "\<not> bit (ucast fc :: u32) n" using assms bit_imp_le_length [of fc n] by (auto simp: bit_ucast_iff)
  have "TILESTATE_FLOORCHANGE = mask 7" unfolding TILESTATE_FLOORCHANGE_def by (simp add: mask_eq_exp_minus_1)
  show "\<not> bit TILESTATE_FLOORCHANGE n" unfolding \<open>TILESTATE_FLOORCHANGE = mask 7\<close> bit_mask_iff using assms by simp
qed

lemma fold_set:
  "fold (\<lambda>(b, flag). if_then b (setFlag flag)) fs t =
     t\<lparr> tileFlags := fold (\<lambda>(b, flag) w. if b then w OR flag else w) fs (tileFlags t) \<rparr>"
  by (induction fs arbitrary: t) (auto simp: if_then_def setFlag_def)

lemma fold_reset:
  "fold (\<lambda>(b, flag). if_then b (resetFlag flag)) fs t =
     t\<lparr> tileFlags := fold (\<lambda>(b, flag) w. if b then w AND NOT flag else w) fs (tileFlags t) \<rparr>"
  by (induction fs arbitrary: t) (auto simp: if_then_def resetFlag_def)

lemma bit_fold_or:
  "bit (fold (\<lambda>(b, flag) w. if b then w OR flag else w) fs w :: u32) n \<longleftrightarrow>
     bit w n \<or> list_ex (\<lambda>(b, flag). b \<and> bit flag n) fs"
proof (induction fs arbitrary: w)
  case (Cons c fs)
  obtain b flag where c: "c = (b, flag)" by fastforce
  have "bit (if b then w OR flag else w) n \<longleftrightarrow> bit w n \<or> b \<and> bit flag n" by (simp add: bit_or_iff)
  with Cons.IH [of "if b then w OR flag else w"] show ?case
    unfolding c fold.simps o_apply prod.case list_ex_Cons_iff by blast
qed simp

lemma bit_fold_and_not:
  "n < 32 \<Longrightarrow> bit (fold (\<lambda>(b, flag) w. if b then w AND NOT flag else w) fs w :: u32) n \<longleftrightarrow>
     bit w n \<and> \<not> list_ex (\<lambda>(b, flag). b \<and> bit flag n) fs"
proof (induction fs arbitrary: w)
  case (Cons c fs)
  obtain b flag where c: "c = (b, flag)" by fastforce
  have "bit (if b then w AND NOT flag else w) n \<longleftrightarrow> bit w n \<and> \<not> (b \<and> bit flag n)"
    using Cons.prems by (simp add: bit_and_iff bit_not_iff)
  with Cons.IH [OF Cons.prems, of "if b then w AND NOT flag else w"] show ?case
    unfolding c fold.simps o_apply prod.case list_ex_Cons_iff by blast
qed simp

lemma setTileFlags_only: "setTileFlags T i t = t\<lparr> tileFlags := tileFlags (setTileFlags T i t) \<rparr>"
  by (simp add: setTileFlags_def fold_set)

lemma resetTileFlags_only: "resetTileFlags T i t = t\<lparr> tileFlags := tileFlags (resetTileFlags T i t) \<rparr>"
  by (simp add: resetTileFlags_def fold_reset)

lemma flags_keep [simp]:
  "ground (setTileFlags T i t) = ground t" "itemVector (setTileFlags T i t) = itemVector t"
  "downItemCount (setTileFlags T i t) = downItemCount t" "creatures (setTileFlags T i t) = creatures t"
  "things (setTileFlags T i t) = things t" "parented (setTileFlags T i t) = parented t"
  "released (setTileFlags T i t) = released t"
  "ground (resetTileFlags T i t) = ground t" "itemVector (resetTileFlags T i t) = itemVector t"
  "downItemCount (resetTileFlags T i t) = downItemCount t" "creatures (resetTileFlags T i t) = creatures t"
  "things (resetTileFlags T i t) = things t" "parented (resetTileFlags T i t) = parented t"
  "released (resetTileFlags T i t) = released t"
  by (subst setTileFlags_only resetTileFlags_only, simp)+

text \<open>The flags that stand for a property which some item on the tile has.\<close>

definition followed :: "(ITEMPROPERTY \<times> nat) list" where
  "followed = [(CONST_PROP_BLOCKSOLID, 17), (CONST_PROP_BLOCKPATH, 18), (CONST_PROP_IMMOVABLEBLOCKSOLID, 19),
     (CONST_PROP_IMMOVABLENOFIELDBLOCKPATH, 21), (CONST_PROP_NOFIELDBLOCKPATH, 22)]"

definition flags_follow :: "tile_types \<Rightarrow> tile \<Rightarrow> bool" where
  "flags_follow T t \<longleftrightarrow> (\<forall>(prop, n)\<in>set followed. bit (tileFlags t) n \<longleftrightarrow> tile_hasProperty T t prop)"

lemma set_followed:
  "(prop, n) \<in> set followed \<Longrightarrow>
     bit (tileFlags (setTileFlags T i t)) n \<longleftrightarrow> bit (tileFlags t) n \<or> item_hasProperty T (things t i) prop"
  by (simp add: setTileFlags_def fold_set bit_fold_or)
    (auto simp: followed_def flags_to_set_def Let_def low_bits)

lemma reset_followed:
  "(prop, n) \<in> set followed \<Longrightarrow> bit (tileFlags (resetTileFlags T i t)) n \<longleftrightarrow> bit (tileFlags t) n \<and> \<not> without_other T i t prop"
  by (subgoal_tac "n < 32", simp add: resetTileFlags_def fold_reset bit_fold_and_not)
    (auto simp: followed_def flags_to_reset_def Let_def low_bits)

end
