(* ===== verification/TileOrder.thy ===== *)
theory TileOrder
  imports Tile
begin

text \<open>
  Whatever happens to a tile, it stays in order: the vector of items divided and, unless a type changes its
  order in place, sorted, the flags true to
  the items, the numbers of the things a bijection, and the positions that are sent to a client the places
  in its list.
\<close>

unbundle bit_operations_syntax

section \<open>A tile in order\<close>

definition ground_list :: "nat option \<Rightarrow> nat list" where
  "ground_list g = (case g of None \<Rightarrow> [] | Some i \<Rightarrow> [i])"

definition holds :: "tile \<Rightarrow> nat option \<Rightarrow> nat list \<Rightarrow> nat list \<Rightarrow> bool" where
  "holds t g ds ts \<longleftrightarrow> ground t = g \<and> items_of t = ds @ ts \<and> unat (downItemCount t) = length ds"

text \<open>The flag \<open>K\<close> says that the things on top are also in the order of their types.\<close>

definition arranged :: "bool \<Rightarrow> tile_types \<Rightarrow> (nat \<Rightarrow> tile_item) \<Rightarrow> nat option \<Rightarrow> nat list \<Rightarrow> nat list \<Rightarrow> bool" where
  "arranged K T th g ds ts \<longleftrightarrow> length (ds @ ts) \<le> 65535 \<and> distinct (ground_list g @ ds @ ts) \<and>
     (\<forall>i\<in>set ds. \<not> alwaysOnTop (T (itemType (th i)))) \<and>
     (\<forall>i\<in>set ts. alwaysOnTop (T (itemType (th i)))) \<and>
     (K \<longrightarrow> sorted_wrt (\<lambda>i j. alwaysOnTopOrder (T (itemType (th i))) \<le> alwaysOnTopOrder (T (itemType (th j)))) ts)"

definition follows :: "tile_types \<Rightarrow> tile \<Rightarrow> nat set \<Rightarrow> bool" where
  "follows T t xs \<longleftrightarrow> (\<forall>(prop, n)\<in>set followed. bit (tileFlags t) n \<longleftrightarrow> (\<exists>i\<in>xs. item_hasProperty T (things t i) prop))"

definition in_order :: "bool \<Rightarrow> tile_types \<Rightarrow> tile \<Rightarrow> nat option \<Rightarrow> nat list \<Rightarrow> nat list \<Rightarrow> bool" where
  "in_order K T t g ds ts \<longleftrightarrow> holds t g ds ts \<and> arranged K T (things t) g ds ts \<and> distinct (creatures_of t) \<and>
     (\<forall>i\<in>set (ground_list g @ ds @ ts). TileItem i \<in> parented t) \<and> follows T t (set (ground_list g @ ds @ ts))"

definition tile_ok :: "bool \<Rightarrow> tile_types \<Rightarrow> tile \<Rightarrow> bool" where
  "tile_ok K T t \<longleftrightarrow> (\<exists>g ds ts. in_order K T t g ds ts)"

lemma holds_lists:
  assumes "holds t g ds ts"
  shows "ground t = g" "down_items t = ds" "top_items t = ts" "items_of t = ds @ ts" "getTopItemCount t = length ts"
    "on_tile t = ground_list g @ ds @ ts" "unat (downItemCount t) = length ds"
  using assms by (auto simp: holds_def down_items_def top_items_def getTopItemCount_def on_tile_def ground_list_def)

lemma items_of_simps [simp]:
  "items_of (setTileFlags T i t) = items_of t" "items_of (resetTileFlags T i t) = items_of t"
  "items_of (own_thing x t) = items_of t" "items_of (disown_thing x t) = items_of t" "items_of (releaseItem i t) = items_of t"
  "items_of (t\<lparr> ground := g \<rparr>) = items_of t" "items_of (t\<lparr> things := th \<rparr>) = items_of t"
  "creatures_of (setTileFlags T i t) = creatures_of t" "creatures_of (resetTileFlags T i t) = creatures_of t"
  "creatures_of (own_thing x t) = creatures_of t" "creatures_of (disown_thing x t) = creatures_of t"
  "creatures_of (releaseItem i t) = creatures_of t" "creatures_of (t\<lparr> ground := g \<rparr>) = creatures_of t"
  "creatures_of (t\<lparr> things := th \<rparr>) = creatures_of t"
  by (simp_all add: items_of_def creatures_of_def own_thing_def disown_thing_def releaseItem_def)

lemma parent_simps [simp]:
  "ground (own_thing x t) = ground t" "downItemCount (own_thing x t) = downItemCount t" "things (own_thing x t) = things t"
  "parented (own_thing x t) = insert x (parented t)" "tileFlags (own_thing x t) = tileFlags t"
  "itemVector (own_thing x t) = itemVector t" "creatures (own_thing x t) = creatures t"
  "ground (disown_thing x t) = ground t" "downItemCount (disown_thing x t) = downItemCount t"
  "things (disown_thing x t) = things t" "parented (disown_thing x t) = parented t - {x}" "tileFlags (disown_thing x t) = tileFlags t"
  "itemVector (disown_thing x t) = itemVector t" "creatures (disown_thing x t) = creatures t"
  "ground (releaseItem i t) = ground t" "downItemCount (releaseItem i t) = downItemCount t"
  "things (releaseItem i t) = things t" "parented (releaseItem i t) = parented t" "tileFlags (releaseItem i t) = tileFlags t"
  "itemVector (releaseItem i t) = itemVector t" "creatures (releaseItem i t) = creatures t"
  by (simp_all add: own_thing_def disown_thing_def releaseItem_def)

text \<open>The changes of the lists.\<close>

lemma holds_simps [simp]:
  "holds (setTileFlags T i t) g ds ts = holds t g ds ts" "holds (resetTileFlags T i t) g ds ts = holds t g ds ts"
  "holds (own_thing x t) g ds ts = holds t g ds ts" "holds (disown_thing x t) g ds ts = holds t g ds ts"
  "holds (releaseItem i t) g ds ts = holds t g ds ts" "holds (t\<lparr> things := th \<rparr>) g ds ts = holds t g ds ts"
  by (simp_all add: holds_def)

lemma holds_ground: "holds t g ds ts \<Longrightarrow> holds (t\<lparr> ground := g' \<rparr>) g' ds ts"
  by (simp add: holds_def)

lemma holds_add_top: "holds t g ds ts \<Longrightarrow> holds (add_top b i t) g ds (insert_top b i ts)"
  by (simp add: holds_lists add_top_def) (simp add: holds_def items_of_def)

lemma holds_remove_top: "holds t g ds ts \<Longrightarrow> holds (remove_top i t) g ds (remove1 i ts)"
  by (simp add: holds_lists remove_top_def) (simp add: holds_def items_of_def)

lemma holds_add_down:
  assumes "holds t g ds ts" and "length (ds @ ts) < 65535"
  shows "holds (add_down i t) g (i # ds) ts"
proof -
  have c: "unat (downItemCount t) = length ds" using assms(1) by (simp add: holds_def)
  have "downItemCount t \<noteq> - 1"
  proof
    assume "downItemCount t = - 1"
    also have "(- 1 :: u16) = 65535" by simp
    finally show False using c assms(2) by simp
  qed
  then have "unat (downItemCount t + 1) = Suc (length ds)"
    using c unatSuc [of "downItemCount t"] by (metis add.commute add_eq_0_iff)
  with assms(1) show ?thesis by (simp add: holds_def add_down_def) (simp add: items_of_def)
qed

lemma holds_remove_down:
  assumes "holds t g ds ts" and "i \<in> set ds"
  shows "holds (remove_down i t) g (remove1 i ds) ts"
proof -
  have c: "unat (downItemCount t) = length ds" using assms(1) by (simp add: holds_def)
  moreover have "0 < length ds" using assms(2) by (cases ds) simp_all
  ultimately have "downItemCount t \<noteq> 0" by auto
  from unat_minus_one [OF this] c have "unat (downItemCount t - 1) = length (remove1 i ds)"
    using assms(2) by (simp add: length_remove1)
  with assms(1) show ?thesis by (simp add: holds_lists remove_down_def) (simp add: holds_def items_of_def)
qed

lemma list_ops_keep [simp]:
  "things (add_top b i t) = things t" "parented (add_top b i t) = parented t" "tileFlags (add_top b i t) = tileFlags t"
  "creatures_of (add_top b i t) = creatures_of t"
  "things (add_down i t) = things t" "parented (add_down i t) = parented t" "tileFlags (add_down i t) = tileFlags t"
  "creatures_of (add_down i t) = creatures_of t"
  "things (remove_top i t) = things t" "parented (remove_top i t) = parented t" "tileFlags (remove_top i t) = tileFlags t"
  "creatures_of (remove_top i t) = creatures_of t"
  "things (remove_down i t) = things t" "parented (remove_down i t) = parented t" "tileFlags (remove_down i t) = tileFlags t"
  "creatures_of (remove_down i t) = creatures_of t"
  by (simp_all add: add_top_def add_down_def remove_top_def remove_down_def creatures_of_def)

text \<open>The flags.\<close>

lemma follows_cong: "tileFlags t' = tileFlags t \<Longrightarrow> things t' = things t \<Longrightarrow> follows T t' xs = follows T t xs"
  by (simp add: follows_def)

lemma follows_set: "follows T t xs \<Longrightarrow> follows T (setTileFlags T i t) (insert i xs)"
  unfolding follows_def using set_followed by fastforce

lemma follows_reset:
  assumes "follows T t xs" and "i \<in> xs" and "set (on_tile t) - {i} = xs - {i}"
  shows "follows T (resetTileFlags T i t) (xs - {i})"
proof -
  have "without_other T i t p \<longleftrightarrow> item_hasProperty T (things t i) p \<and>
      \<not> (\<exists>j\<in>xs - {i}. item_hasProperty T (things t j) p)" for p
    unfolding without_other_def hasProperty_but_on assms(3) [symmetric] by blast
  with assms(1,2) show ?thesis unfolding follows_def using reset_followed by fastforce
qed

lemma follows_swap:
  assumes "follows T t xs" and "g \<in> xs" and "set (on_tile t) = insert i (xs - {g})" and "i \<noteq> g"
  shows "follows T (setTileFlags T i (resetTileFlags T g t)) (insert i (xs - {g}))"
proof -
  have other: "without_other T g t p \<longleftrightarrow> item_hasProperty T (things t g) p \<and>
      \<not> (\<exists>j\<in>insert i (xs - {g}). item_hasProperty T (things t j) p)" for p
    unfolding without_other_def hasProperty_but_on assms(3) using assms(4) by blast
  have "bit (tileFlags (setTileFlags T i (resetTileFlags T g t))) n \<longleftrightarrow>
      (\<exists>j\<in>insert i (xs - {g}). item_hasProperty T (things t j) p)" if "(p, n) \<in> set followed" for p n
  proof -
    have "bit (tileFlags t) n \<longleftrightarrow> (\<exists>j\<in>xs. item_hasProperty T (things t j) p)"
      using assms(1) that by (auto simp: follows_def)
    then show ?thesis
      unfolding set_followed [OF that] reset_followed [OF that] other flags_keep using assms(2) by blast
  qed
  then show ?thesis unfolding follows_def flags_keep by blast
qed

lemma insert_top_simps [simp]:
  "insert_top b i [] = [i]" "insert_top b i (j # js) = (if b j then i # j # js else j # insert_top b i js)"
  by (simp_all add: insert_top_def)

lemma insert_top_set: "set (insert_top b i ts) = insert i (set ts)" "length (insert_top b i ts) = Suc (length ts)"
  by (induction ts) auto

lemma insert_top_distinct: "distinct ts \<Longrightarrow> i \<notin> set ts \<Longrightarrow> distinct (insert_top b i ts)"
  by (induction ts) (auto simp: insert_top_set)

text \<open>Inserting keeps the order when it stops before the first thing that is not smaller, or is greater.\<close>

lemma insert_top_sorted:
  fixes f :: "nat \<Rightarrow> 'a::linorder"
  assumes "sorted_wrt (\<lambda>i j. f i \<le> f j) ts" and "\<And>j. j \<in> set ts \<Longrightarrow> b j \<Longrightarrow> f i \<le> f j"
    and "\<And>j. j \<in> set ts \<Longrightarrow> \<not> b j \<Longrightarrow> f j \<le> f i"
  shows "sorted_wrt (\<lambda>i j. f i \<le> f j) (insert_top b i ts)"
  using assms
proof (induction ts)
  case (Cons j ts)
  show ?case
  proof (cases "b j")
    case True
    with Cons.prems(1,2) have "\<forall>k\<in>set (j # ts). f i \<le> f k" by (auto intro: order_trans)
    with True Cons.prems(1) show ?thesis by simp
  next
    case False
    have "sorted_wrt (\<lambda>i j. f i \<le> f j) (insert_top b i ts)" using Cons by simp
    moreover have "\<forall>k\<in>set (insert_top b i ts). f j \<le> f k" using Cons.prems(1,3) False by (simp add: insert_top_set)
    ultimately show ?thesis using False by simp
  qed
qed simp

section \<open>Numbers of things\<close>

lemma find_pos_None: "find_pos x xs = None \<longleftrightarrow> x \<notin> set xs"
  by (induction xs) auto

lemma find_pos_Some: "find_pos x xs = Some k \<Longrightarrow> k < length xs \<and> xs ! k = x"
  by (induction xs arbitrary: k) (auto split: if_splits)

lemma find_pos_append:
  "find_pos x (xs @ ys) = (case find_pos x xs of Some k \<Rightarrow> Some k | None \<Rightarrow> map_option (\<lambda>k. length xs + k) (find_pos x ys))"
  by (cases "find_pos x ys"; induction xs) (auto split: option.splits)

lemma find_pos_map [simp]:
  "find_pos (TileItem i) (map TileItem xs) = find_pos i xs" "find_pos (TileCreature c) (map TileCreature xs) = find_pos c xs"
  "find_pos (TileItem i) (map TileCreature xs) = None" "find_pos (TileCreature c) (map TileItem xs) = None"
  by (induction xs) simp_all

text \<open>The things of a tile in the order of their numbers.\<close>

definition thing_order :: "tile \<Rightarrow> tile_thing list" where
  "thing_order t = map TileItem (ground_list (ground t)) @ map TileItem (top_items t) @
     map TileCreature (creatures_of t) @ map TileItem (down_items t)"

lemma thing_order_set:
  "holds t g ds ts \<Longrightarrow> TileItem i \<in> set (thing_order t) \<longleftrightarrow> i \<in> set (ground_list g @ ds @ ts)"
  "TileCreature c \<in> set (thing_order t) \<longleftrightarrow> c \<in> set (creatures_of t)"
  by (auto simp: thing_order_def holds_lists)

lemma getThing_order:
  assumes "holds t g ds ts"
  shows "tile_getThing k t = (if k < length (thing_order t) then Some (thing_order t ! k) else None)"
proof -
  note h = holds_lists [OF assms]
  have above: "thing_above k t =
      (let xs = map TileItem ts @ map TileCreature (creatures_of t) @ map TileItem ds
       in if k < length xs then Some (xs ! k) else None)" for k
    by (auto simp: thing_above_def h nth_append Let_def)
  show ?thesis
    by (cases g; cases k) (simp_all add: tile_getThing_def h above thing_order_def ground_list_def Let_def)
qed

lemma count_to_cases:
  "count_to x xs n = (case find_pos x xs of Some k \<Rightarrow> Inl (n + 1 + int k) | None \<Rightarrow> Inr (n + int (length xs)))"
  by (simp add: count_to_def)

lemma getThingIndex_order:
  assumes "in_order K T t g ds ts"
  shows "tile_getThingIndex T thing t = (case find_pos thing (thing_order t) of None \<Rightarrow> -1 | Some k \<Rightarrow> int k)"
proof -
  have h: "holds t g ds ts" and a: "arranged K T (things t) g ds ts" using assms by (simp_all add: in_order_def)
  note l = holds_lists [OF h]
  show ?thesis
  proof (cases thing)
    case (TileCreature c)
    then show ?thesis
      by (cases g) (auto simp: tile_getThingIndex_def thing_order_def l find_pos_append count_to_def ground_list_def split: option.splits)
  next
    case (TileItem i)
    show ?thesis
    proof (cases "isAlwaysOnTop T t i")
      case True
      then have "i \<notin> set ds" using a by (auto simp: arranged_def isAlwaysOnTop_def type_of_item_def)
      then have "find_pos i ds = None" by (simp add: find_pos_None)
      with True TileItem show ?thesis
        by (cases g) (auto simp: tile_getThingIndex_def thing_order_def l find_pos_append count_to_def ground_list_def split: option.splits)
    next
      case False
      then have "i \<notin> set ts" using a by (auto simp: arranged_def isAlwaysOnTop_def type_of_item_def)
      then have "find_pos i ts = None" by (simp add: find_pos_None)
      with False TileItem show ?thesis
        by (cases g) (auto simp: tile_getThingIndex_def thing_order_def l find_pos_append count_to_def ground_list_def split: option.splits)
    qed
  qed
qed

lemma getThingIndex_on:
  assumes "in_order K T t g ds ts"
  shows "tile_getThingIndex T (TileItem i) t = -1 \<longleftrightarrow> i \<notin> set (ground_list g @ ds @ ts)"
proof -
  have h: "holds t g ds ts" using assms by (simp add: in_order_def)
  have "tile_getThingIndex T (TileItem i) t = -1 \<longleftrightarrow> find_pos (TileItem i) (thing_order t) = None"
    unfolding getThingIndex_order [OF assms] by (auto split: option.splits)
  then show ?thesis unfolding find_pos_None thing_order_set(1) [OF h] .
qed

section \<open>Changes keep the order\<close>

lemma in_order_simps:
  assumes "in_order K T t g ds ts"
  shows "holds t g ds ts" "arranged K T (things t) g ds ts" "distinct (creatures_of t)"
    "\<And>i. i \<in> set (ground_list g @ ds @ ts) \<Longrightarrow> TileItem i \<in> parented t" "follows T t (set (ground_list g @ ds @ ts))"
  using assms by (simp_all add: in_order_def)

lemma in_order_parent:
  assumes "in_order K T t g ds ts"
  shows "in_order K T (own_thing x t) g ds ts" and "in_order K T (releaseItem j t) g ds ts"
    and "i \<notin> set (ground_list g @ ds @ ts) \<Longrightarrow> in_order K T (disown_thing (TileItem i) t) g ds ts"
  using assms by (auto simp: in_order_def follows_def)

lemma in_order_removed:
  assumes t: "in_order K T t g ds ts" and i: "i \<in> set (ground_list g @ ds @ ts)"
    and t': "holds t' g' ds' ts'" "things t' = things t" "tileFlags t' = tileFlags t" "creatures_of t' = creatures_of t"
      "parented t' = parented t - {TileItem i}"
    and sets: "set (ground_list g' @ ds' @ ts') = set (ground_list g @ ds @ ts) - {i}"
    and a: "arranged K T (things t) g' ds' ts'"
  shows "in_order K T (resetTileFlags T i t') g' ds' ts'"
proof -
  note o = in_order_simps [OF t]
  have "follows T t' (set (ground_list g @ ds @ ts))" using o(5) follows_cong [OF t'(3,2)] by simp
  moreover have "set (on_tile t') - {i} = set (ground_list g @ ds @ ts) - {i}"
    unfolding holds_lists(6) [OF t'(1)] sets by simp
  ultimately have "follows T (resetTileFlags T i t') (set (ground_list g @ ds @ ts) - {i})"
    using i by (intro follows_reset)
  then have f: "follows T (resetTileFlags T i t') (set (ground_list g' @ ds' @ ts'))" unfolding sets .
  have "TileItem j \<in> parented t'" if "j \<in> set (ground_list g' @ ds' @ ts')" for j
    using that unfolding sets t'(5) using o(4) by auto
  then show ?thesis unfolding in_order_def using f t' a o(3) by simp
qed

lemma in_order_added:
  assumes t: "in_order K T t g ds ts"
    and t': "holds t' g' ds' ts'" "things t' = things t" "tileFlags t' = tileFlags t" "creatures_of t' = creatures_of t"
      "parented t' = parented t" "TileItem i \<in> parented t"
    and sets: "set (ground_list g' @ ds' @ ts') = insert i (set (ground_list g @ ds @ ts))"
    and a: "arranged K T (things t) g' ds' ts'"
  shows "in_order K T (setTileFlags T i t') g' ds' ts'"
proof -
  note o = in_order_simps [OF t]
  have "follows T t' (set (ground_list g @ ds @ ts))" using o(5) follows_cong [OF t'(3,2)] by simp
  from follows_set [OF this, of i] have f: "follows T (setTileFlags T i t') (set (ground_list g' @ ds' @ ts'))"
    unfolding sets .
  have "TileItem j \<in> parented t'" if "j \<in> set (ground_list g' @ ds' @ ts')" for j
    using that unfolding sets t'(5) using o(4) t'(6) by auto
  then show ?thesis unfolding in_order_def using f t' a o(3) by simp
qed

lemma in_order_swapped:
  assumes t: "in_order K T t g ds ts" and i: "i \<notin> set (ground_list g @ ds @ ts)" and old: "old \<in> set (ground_list g @ ds @ ts)"
    and t': "holds t' g' ds' ts'" "things t' = things t" "tileFlags t' = tileFlags t" "creatures_of t' = creatures_of t"
      "TileItem ` (set (ground_list g' @ ds' @ ts')) \<subseteq> parented t'"
    and sets: "set (ground_list g' @ ds' @ ts') = insert i (set (ground_list g @ ds @ ts) - {old})"
    and a: "arranged K T (things t) g' ds' ts'"
  shows "in_order K T (setTileFlags T i (resetTileFlags T old t')) g' ds' ts'"
proof -
  note o = in_order_simps [OF t]
  have "follows T t' (set (ground_list g @ ds @ ts))" using o(5) follows_cong [OF t'(3,2)] by simp
  moreover have "set (on_tile t') = insert i (set (ground_list g @ ds @ ts) - {old})"
    unfolding holds_lists(6) [OF t'(1)] sets ..
  moreover have "i \<noteq> old" using i old by blast
  ultimately have "follows T (setTileFlags T i (resetTileFlags T old t')) (insert i (set (ground_list g @ ds @ ts) - {old}))"
    using old by (intro follows_swap)
  then have "follows T (setTileFlags T i (resetTileFlags T old t')) (set (ground_list g' @ ds' @ ts'))" unfolding sets .
  then show ?thesis unfolding in_order_def using t' a o(3) by auto
qed

section \<open>Removing and adding keep a tile in order\<close>

lemma arranged_remove:
  assumes "arranged K T th g ds ts"
  shows "arranged K T th None ds ts" and "arranged K T th g (remove1 i ds) ts" and "arranged K T th g ds (remove1 i ts)"
proof -
  show "arranged K T th None ds ts" using assms by (auto simp: arranged_def ground_list_def)
  show "arranged K T th g (remove1 i ds) ts"
    using assms by (auto simp: arranged_def length_remove1 dest: notin_set_remove1)
  have "sorted_wrt R (remove1 i xs)" if "sorted_wrt R xs" for R and xs :: "nat list"
    using that by (induction xs) (auto dest: notin_set_remove1)
  then show "arranged K T th g ds (remove1 i ts)"
    using assms by (auto simp: arranged_def length_remove1 dest: notin_set_remove1)
qed

lemma remove_places:
  assumes t: "in_order K T t g ds ts"
  shows "g = Some i \<Longrightarrow> in_order K T (resetTileFlags T i ((disown_thing (TileItem i) t)\<lparr> ground := None \<rparr>)) None ds ts"
    and "i \<in> set ts \<Longrightarrow> in_order K T (resetTileFlags T i (remove_top i (disown_thing (TileItem i) t))) g ds (remove1 i ts)"
    and "i \<in> set ds \<Longrightarrow> in_order K T (resetTileFlags T i (remove_down i (disown_thing (TileItem i) t))) g (remove1 i ds) ts"
proof -
  note o = in_order_simps [OF t]
  have d: "distinct (ground_list g @ ds @ ts)" using o(2) by (simp add: arranged_def)
  have h: "holds (disown_thing (TileItem i) t) g ds ts" using o(1) by simp
  show "in_order K T (resetTileFlags T i ((disown_thing (TileItem i) t)\<lparr> ground := None \<rparr>)) None ds ts" if "g = Some i"
    using that d by (intro in_order_removed [OF t] holds_ground [OF h] arranged_remove(1) [OF o(2)]) (auto simp: ground_list_def)
  show "in_order K T (resetTileFlags T i (remove_top i (disown_thing (TileItem i) t))) g ds (remove1 i ts)" if "i \<in> set ts"
    using that d by (intro in_order_removed [OF t] holds_remove_top [OF h] arranged_remove(3) [OF o(2)]) auto
  show "in_order K T (resetTileFlags T i (remove_down i (disown_thing (TileItem i) t))) g (remove1 i ds) ts" if "i \<in> set ds"
    using that d by (intro in_order_removed [OF t] holds_remove_down [OF h that] arranged_remove(2) [OF o(2)]) auto
qed

lemma in_order_creatures:
  assumes "in_order K T t g ds ts" and "distinct cs"
  shows "in_order K T (t\<lparr> creatures := Some cs \<rparr>) g ds ts"
  using assms by (simp add: in_order_def holds_def items_of_def creatures_of_def follows_def)

lemma hasProperty_count: "item_hasProperty T (x\<lparr> itemCount := n \<rparr>) p = item_hasProperty T x p"
  by (cases p) (simp_all add: item_hasProperty_def)

lemma in_order_count: "in_order K T t g ds ts \<Longrightarrow> in_order K T (set_count i n t) g ds ts"
proof -
  have th: "itemType (((things t)(i := (things t i)\<lparr> itemCount := n \<rparr>)) j) = itemType (things t j)"
    "item_hasProperty T (((things t)(i := (things t i)\<lparr> itemCount := n \<rparr>)) j) p = item_hasProperty T (things t j) p" for j p
    by (simp_all add: hasProperty_count)
  assume "in_order K T t g ds ts"
  then show ?thesis unfolding in_order_def arranged_def follows_def set_count_def
    by (simp add: th holds_def items_of_def creatures_of_def del: fun_upd_apply)
qed

lemma removed_item:
  assumes t: "in_order K T t g ds ts"
  shows "\<exists>g' ds' ts'. in_order K T (tile_removeThing T (TileItem i) count t) g' ds' ts' \<and>
    set (ground_list g' @ ds' @ ts') \<subseteq> set (ground_list g @ ds @ ts)"
proof -
  note l = holds_lists [OF in_order_simps(1) [OF t]]
  note rm = remove_places [OF t, of i]
  have sub: "set (remove1 i xs) \<subseteq> set xs" for xs :: "nat list" by (rule set_remove1_subset)
  have stay: "\<exists>g' ds' ts'. in_order K T t g' ds' ts' \<and> set (ground_list g' @ ds' @ ts') \<subseteq> set (ground_list g @ ds @ ts)"
    using t by blast
  have count: "\<exists>g' ds' ts'. in_order K T (set_count i n t) g' ds' ts' \<and> set (ground_list g' @ ds' @ ts') \<subseteq> set (ground_list g @ ds @ ts)" for n
    using in_order_count [OF t] by blast
  have "\<exists>g' ds' ts'. in_order K T (resetTileFlags T i ((disown_thing (TileItem i) t)\<lparr> ground := None \<rparr>)) g' ds' ts' \<and>
      set (ground_list g' @ ds' @ ts') \<subseteq> set (ground_list g @ ds @ ts)" if "g = Some i"
    using rm(1) [OF that] by (intro exI conjI) (auto simp: ground_list_def)
  moreover have "\<exists>g' ds' ts'. in_order K T (resetTileFlags T i (remove_top i (disown_thing (TileItem i) t))) g' ds' ts' \<and>
      set (ground_list g' @ ds' @ ts') \<subseteq> set (ground_list g @ ds @ ts)" if "i \<in> set ts"
    using rm(2) [OF that] sub [of ts] by (intro exI conjI) (assumption, auto)
  moreover have "\<exists>g' ds' ts'. in_order K T (resetTileFlags T i (remove_down i (disown_thing (TileItem i) t))) g' ds' ts' \<and>
      set (ground_list g' @ ds' @ ts') \<subseteq> set (ground_list g @ ds @ ts)" if "i \<in> set ds"
    using rm(3) [OF that] sub [of ds] by (intro exI conjI) (assumption, auto)
  ultimately show ?thesis using stay count by (simp add: tile_removeThing_def l Let_def)
qed

text \<open>An item that is not a stack is taken away whole.\<close>

lemma dropped_item:
  assumes t: "in_order K T t g ds ts"
    and j: "j \<in> set ts \<or> j \<in> set ds \<and> \<not> stackable (type_of_item T t j)"
  shows "in_order K T (drop_item T j t) g (remove1 j ds) (remove1 j ts) \<and> things (drop_item T j t) = things t \<and>
    parented (drop_item T j t) = parented t - {TileItem j}"
proof -
  note o = in_order_simps [OF t]
  note l = holds_lists [OF o(1)]
  have d: "distinct (ground_list g @ ds @ ts)" using o(2) by (simp add: arranged_def)
  have on: "tile_getThingIndex T (TileItem j) t \<noteq> -1" using getThingIndex_on [OF t] j by auto
  have ground: "g \<noteq> Some j" using d j by (auto simp: ground_list_def)
  obtain v where some: "itemVector t = Some v" using l(4) j by (cases "itemVector t") (auto simp: items_of_def)
  have out: "j \<notin> set (ground_list g @ remove1 j ds @ remove1 j ts)"
    using d ground by (auto simp: ground_list_def split: option.splits)
  show ?thesis
  proof (cases "j \<in> set ts")
    case True
    then have top: "isAlwaysOnTop T t j" using o(2) by (auto simp: arranged_def isAlwaysOnTop_def type_of_item_def)
    have "j \<notin> set ds" using d True by auto
    then have ds: "remove1 j ds = ds" by (rule remove1_idem)
    have r: "tile_removeThing T (TileItem j) 1 t = resetTileFlags T j (remove_top j (disown_thing (TileItem j) t))"
      using on ground some top True by (simp add: tile_removeThing_def l)
    from remove_places(2) [OF t True] out in_order_parent show ?thesis
      unfolding drop_item_def r by (auto simp: ds)
  next
    case False
    then have down: "j \<in> set ds" "\<not> stackable (type_of_item T t j)" using j by auto
    then have "\<not> isAlwaysOnTop T t j" using o(2) by (auto simp: arranged_def isAlwaysOnTop_def type_of_item_def)
    then have r: "tile_removeThing T (TileItem j) 1 t = resetTileFlags T j (remove_down j (disown_thing (TileItem j) t))"
      using on ground some down by (simp add: tile_removeThing_def l)
    have ts: "remove1 j ts = ts" using False by (rule remove1_idem)
    from remove_places(3) [OF t down(1)] out in_order_parent show ?thesis
      unfolding drop_item_def r by (auto simp: ts)
  qed
qed

lemma arranged_ground:
  "arranged K T th g ds ts \<Longrightarrow> i \<notin> set (ds @ ts) \<Longrightarrow> arranged K T th (Some i) ds ts"
  by (auto simp: arranged_def ground_list_def)

lemma arranged_down:
  assumes "arranged K T th g ds ts" and "i \<notin> set (ground_list g @ ds @ ts)" and "length (ds @ ts) < 65535"
    and "\<not> isGroundTile (T (itemType (th i)))" and "\<not> alwaysOnTop (T (itemType (th i)))"
  shows "arranged K T th g (i # ds) ts"
  using assms by (auto simp: arranged_def)

lemma arranged_top:
  assumes a: "arranged K T th g ds ts" and new: "i \<notin> set (ground_list g @ ds @ ts)" and "length (ds @ ts) < 65535"
    and "\<not> isGroundTile (T (itemType (th i)))" and "alwaysOnTop (T (itemType (th i)))"
    and b: "\<And>j. b j \<Longrightarrow> alwaysOnTopOrder (T (itemType (th i))) \<le> alwaysOnTopOrder (T (itemType (th j)))"
      "\<And>j. \<not> b j \<Longrightarrow> alwaysOnTopOrder (T (itemType (th j))) \<le> alwaysOnTopOrder (T (itemType (th i)))"
  shows "arranged K T th g ds (insert_top b i ts)"
proof -
  have "sorted_wrt (\<lambda>i j. alwaysOnTopOrder (T (itemType (th i))) \<le> alwaysOnTopOrder (T (itemType (th j)))) (insert_top b i ts)"
    if K
    using a b that by (intro insert_top_sorted) (simp_all add: arranged_def)
  with assms insert_top_distinct [of ts i b] show ?thesis by (auto simp: arranged_def insert_top_set)
qed

lemma new_ground:
  assumes t: "in_order K T t g ds ts" and i: "i \<notin> set (ground_list g @ ds @ ts)" and p: "TileItem i \<in> parented t"
  shows "g = None \<Longrightarrow> in_order K T (setTileFlags T i (t\<lparr> ground := Some i \<rparr>)) (Some i) ds ts"
    and "g = Some old \<Longrightarrow> in_order K T (setTileFlags T i (resetTileFlags T old
      ((releaseItem old (disown_thing (TileItem old) t))\<lparr> ground := Some i \<rparr>))) (Some i) ds ts"
proof -
  note o = in_order_simps [OF t]
  have a: "arranged K T (things t) (Some i) ds ts" using arranged_ground [OF o(2)] i by simp
  show "in_order K T (setTileFlags T i (t\<lparr> ground := Some i \<rparr>)) (Some i) ds ts" if "g = None"
    using that p by (intro in_order_added [OF t] holds_ground [OF o(1)] a) (auto simp: ground_list_def)
  show "in_order K T (setTileFlags T i (resetTileFlags T old
      ((releaseItem old (disown_thing (TileItem old) t))\<lparr> ground := Some i \<rparr>))) (Some i) ds ts" if "g = Some old"
  proof -
    have h: "holds ((releaseItem old (disown_thing (TileItem old) t))\<lparr> ground := Some i \<rparr>) (Some i) ds ts"
      by (rule holds_ground [where g = g]) (simp add: o(1))
    have d: "old \<notin> set (ds @ ts)" "i \<noteq> old" using o(2) i that by (auto simp: arranged_def ground_list_def)
    then have "TileItem ` set (ground_list (Some i) @ ds @ ts) \<subseteq> parented t - {TileItem old}"
      using o(4) p that by (auto simp: ground_list_def)
    with d that show ?thesis by (intro in_order_swapped [OF t i _ h _ _ _ _ _ a]) (auto simp: ground_list_def)
  qed
qed

lemma new_above:
  assumes t: "in_order K T t g ds ts" and i: "i \<notin> set (ground_list g @ ds @ ts)" and p: "TileItem i \<in> parented t"
    and ty: "\<not> isGroundTile (T (itemType (things t i)))" and len: "length (ds @ ts) < 65535"
  shows "\<not> alwaysOnTop (T (itemType (things t i))) \<Longrightarrow> tile_ok K T (setTileFlags T i (add_down i t))"
    and "alwaysOnTop (T (itemType (things t i))) \<Longrightarrow>
      (\<And>j. b j \<Longrightarrow> alwaysOnTopOrder (T (itemType (things t i))) \<le> alwaysOnTopOrder (T (itemType (things t j)))) \<Longrightarrow>
      (\<And>j. \<not> b j \<Longrightarrow> alwaysOnTopOrder (T (itemType (things t j))) \<le> alwaysOnTopOrder (T (itemType (things t i)))) \<Longrightarrow>
      tile_ok K T (setTileFlags T i (add_top b i t))"
proof -
  note o = in_order_simps [OF t]
  show "tile_ok K T (setTileFlags T i (add_down i t))" if "\<not> alwaysOnTop (T (itemType (things t i)))"
    unfolding tile_ok_def using p
    by (intro exI [of _ g] exI [of _ "i # ds"] exI [of _ ts] in_order_added [OF t] holds_add_down [OF o(1) len] arranged_down [OF o(2) i len ty that]) auto
  show "tile_ok K T (setTileFlags T i (add_top b i t))" if "alwaysOnTop (T (itemType (things t i)))"
    "\<And>j. b j \<Longrightarrow> alwaysOnTopOrder (T (itemType (things t i))) \<le> alwaysOnTopOrder (T (itemType (things t j)))"
    "\<And>j. \<not> b j \<Longrightarrow> alwaysOnTopOrder (T (itemType (things t j))) \<le> alwaysOnTopOrder (T (itemType (things t i)))"
    unfolding tile_ok_def using p
    by (intro exI [of _ g] exI [of _ ds] exI [of _ "insert_top b i ts"] in_order_added [OF t] holds_add_top [OF o(1)] arranged_top [OF o(2) i len ty that])
      (auto simp: insert_top_set)
qed

text \<open>Fields are single items: an old one is taken away whole.\<close>

definition fields_single :: "tile_types \<Rightarrow> tile \<Rightarrow> bool" where
  "fields_single T t \<longleftrightarrow> (\<forall>j\<in>set (down_items t). getMagicField (things t j) \<longrightarrow> \<not> stackable (type_of_item T t j))"

definition off_tile :: "tile_thing \<Rightarrow> tile \<Rightarrow> bool" where
  "off_tile thing t \<longleftrightarrow> (case thing of TileItem i \<Rightarrow> i \<notin> set (on_tile t) | TileCreature c \<Rightarrow> c \<notin> set (creatures_of t))"

lemma addCreature_ok: "tile_ok K T t \<Longrightarrow> c \<notin> set (creatures_of t) \<Longrightarrow> tile_ok K T (addCreatureThing c t)"
  unfolding tile_ok_def addCreatureThing_def
  by (elim exE, intro exI, rule in_order_creatures [OF in_order_parent(1)]) (assumption, simp add: in_order_def)

lemma tile_addThing_ok:
  assumes "tile_ok K T t" and off: "off_tile thing t" and single: "fields_single T t"
  shows "tile_ok K T (tile_addThing T thing t)"
proof (cases thing)
  case (TileCreature c)
  then show ?thesis using assms addCreature_ok by (simp add: tile_addThing_def off_tile_def)
next
  case (TileItem i)
  obtain g ds ts where t: "in_order K T t g ds ts" using assms(1) by (auto simp: tile_ok_def)
  note l = holds_lists [OF in_order_simps(1) [OF t]]
  have i: "i \<notin> set (ground_list g @ ds @ ts)" using off TileItem l by (simp add: off_tile_def)
  let ?t1 = "own_thing (TileItem i) t"
  let ?it = "type_of_item T t i"
  have t1: "in_order K T ?t1 g ds ts" by (rule in_order_parent(1) [OF t])
  note l1 = holds_lists [OF in_order_simps(1) [OF t1]]
  have ty: "T (itemType (things ?t1 i)) = ?it" by (simp add: type_of_item_def)
  show ?thesis
  proof (cases "itemVector t \<noteq> None \<and> int (length (items_of t)) \<ge> 0xFFFF")
    case True
    with TileItem assms(1) show ?thesis by (simp add: tile_addThing_def)
  next
    case room: False
    then have len: "length (ds @ ts) < 65535" using l(4) by (cases "itemVector t") (auto simp: items_of_def)
    consider (ground) "isGroundTile ?it" | (top) "\<not> isGroundTile ?it" "alwaysOnTop ?it"
      | (down) "\<not> isGroundTile ?it" "\<not> alwaysOnTop ?it" by blast
    then show ?thesis
    proof cases
      case ground
      have p: "TileItem i \<in> parented ?t1" by simp
      note new = new_ground [OF t1 i p]
      have r: "tile_addThing T thing t = (case g of
            None \<Rightarrow> setTileFlags T i (?t1\<lparr> ground := Some i \<rparr>)
          | Some old \<Rightarrow> setTileFlags T i (resetTileFlags T old ((releaseItem old (disown_thing (TileItem old) ?t1))\<lparr> ground := Some i \<rparr>)))"
        unfolding TileItem tile_addThing_def tile_thing.case if_not_P [OF room] using ground by (simp add: Let_def l)
      show ?thesis
      proof (cases g)
        case None
        with new(1) show ?thesis unfolding r tile_ok_def by auto
      next
        case (Some old)
        with new(2) show ?thesis unfolding r tile_ok_def by auto
      qed
    next
      case top
      define t2 where "t2 = if_then (isSplash ?it \<and> itemVector t \<noteq> None) (drop_splash T) ?t1"
      have "\<exists>ds' ts'. in_order K T t2 g ds' ts' \<and> set (ds' @ ts') \<subseteq> set (ds @ ts) \<and> length (ds' @ ts') \<le> length (ds @ ts) \<and>
          things t2 = things t \<and> TileItem i \<in> parented t2"
      proof (cases "(isSplash ?it \<and> itemVector t \<noteq> None) \<and> find (\<lambda>j. isSplash (type_of_item T ?t1 j)) ts \<noteq> None")
        case True
        then obtain j where j: "find (\<lambda>j. isSplash (type_of_item T ?t1 j)) ts = Some j" by blast
        then have jt: "j \<in> set ts" by (auto simp: find_Some_iff)
        have "t2 = drop_item T j ?t1" using True j by (simp add: t2_def if_then_def drop_splash_def l1)
        moreover have "j \<noteq> i" using jt i by auto
        moreover note dropped_item [OF t1, of j] jt
        moreover have "set (remove1 j xs) \<subseteq> set xs" "length (remove1 j xs) \<le> length xs" for xs :: "nat list"
          by (rule set_remove1_subset, simp add: length_remove1)
        ultimately show ?thesis by (intro exI [of _ "remove1 j ds"] exI [of _ "remove1 j ts"]) (auto intro: add_mono)
      next
        case False
        then have "t2 = ?t1" by (auto simp: t2_def if_then_def drop_splash_def l1)
        with t1 show ?thesis by (intro exI [of _ ds] exI [of _ ts]) auto
      qed
      then obtain ds' ts' where t2: "in_order K T t2 g ds' ts'" "set (ds' @ ts') \<subseteq> set (ds @ ts)"
        "length (ds' @ ts') \<le> length (ds @ ts)" "things t2 = things t" "TileItem i \<in> parented t2" by blast
      have i2: "i \<notin> set (ground_list g @ ds' @ ts')" using i t2(2) by auto
      have ty2: "T (itemType (things t2 i)) = ?it" by (simp add: type_of_item_def t2(4))
      have r: "tile_addThing T thing t =
          setTileFlags T i (add_top (\<lambda>j. alwaysOnTopOrder ?it \<le> alwaysOnTopOrder (type_of_item T t2 j)) i t2)"
        unfolding TileItem tile_addThing_def tile_thing.case if_not_P [OF room] using top by (simp add: Let_def t2_def)
      show ?thesis unfolding r
        by (rule new_above(2) [OF t2(1) i2 t2(5)]) (use top len t2(3) in \<open>auto simp: ty2 type_of_item_def\<close>)
    next
      case down
      have p: "TileItem i \<in> parented ?t1" by simp
      define old where "old = (if isMagicField ?it then find (\<lambda>j. getMagicField (things ?t1 j)) (down_items ?t1) else None)"
      have r: "tile_addThing T thing t = (case old of
            Some j \<Rightarrow> if replaceable (type_of_item T ?t1 j) then setTileFlags T i (add_down i (drop_item T j ?t1))
              else releaseItem i (disown_thing thing ?t1)
          | None \<Rightarrow> setTileFlags T i (add_down i ?t1))"
        unfolding TileItem tile_addThing_def tile_thing.case if_not_P [OF room] using down by (simp add: Let_def old_def)
      show ?thesis
      proof (cases old)
        case None
        show ?thesis unfolding r None option.case
          by (rule new_above(1) [OF t1 i p _ len]) (use down in \<open>simp_all add: type_of_item_def\<close>)
      next
        case (Some j)
        then have j: "j \<in> set ds" "getMagicField (things t j)"
          by (auto simp: old_def l1 find_Some_iff split: if_splits)
        then have "\<not> stackable (type_of_item T ?t1 j)" using single l by (auto simp: fields_single_def type_of_item_def)
        with dropped_item [OF t1, of j] j(1) have d: "in_order K T (drop_item T j ?t1) g (remove1 j ds) (remove1 j ts)"
          "things (drop_item T j ?t1) = things t" "parented (drop_item T j ?t1) = parented ?t1 - {TileItem j}" by auto
        have "i \<notin> set (ground_list g @ remove1 j ds @ remove1 j ts)" "i \<noteq> j" using i j(1) by (auto dest: notin_set_remove1)
        moreover from this(2) d(3) have "TileItem i \<in> parented (drop_item T j ?t1)" by simp
        moreover have "length (remove1 j ds @ remove1 j ts) < 65535" using len by (simp add: length_remove1) linarith
        ultimately have "tile_ok K T (setTileFlags T i (add_down i (drop_item T j ?t1)))"
          using down by (intro new_above(1) [OF d(1)]) (simp_all add: d(2) flip: type_of_item_def)
        moreover have "in_order K T (releaseItem i (disown_thing (TileItem i) ?t1)) g ds ts"
          using in_order_parent(2) [OF in_order_parent(3) [OF t1 i]] .
        ultimately show ?thesis unfolding r Some using TileItem by (auto simp: tile_ok_def)
      qed
    qed
  qed
qed

lemma tile_internalAddThing_ok:
  assumes "tile_ok K T t" and off: "off_tile thing t"
  shows "tile_ok K T (tile_internalAddThing T thing t)"
proof (cases thing)
  case (TileCreature c)
  then show ?thesis using assms addCreature_ok by (simp add: tile_internalAddThing_def off_tile_def)
next
  case (TileItem i)
  obtain g ds ts where t: "in_order K T t g ds ts" using assms(1) by (auto simp: tile_ok_def)
  note l = holds_lists [OF in_order_simps(1) [OF t]]
  have i: "i \<notin> set (ground_list g @ ds @ ts)" using off TileItem l by (simp add: off_tile_def)
  let ?t1 = "own_thing (TileItem i) t"
  let ?t2 = "?t1\<lparr> itemVector := Some (items_of ?t1) \<rparr>"
  let ?it = "type_of_item T t i"
  have t1: "in_order K T ?t1 g ds ts" by (rule in_order_parent(1) [OF t])
  have t2: "in_order K T ?t2 g ds ts"
    using t1 by (simp add: in_order_def holds_def follows_def creatures_of_def) (simp add: items_of_def)
  have p: "TileItem i \<in> parented ?t1" "TileItem i \<in> parented ?t2" by simp_all
  have r: "tile_internalAddThing T thing t = (if isGroundTile ?it then (if ground t = None then setTileFlags T i (?t1\<lparr> ground := Some i \<rparr>) else ?t1)
      else if int (length (items_of ?t2)) \<ge> 0xFFFF then ?t2
      else if alwaysOnTop ?it then setTileFlags T i (add_top (\<lambda>j. alwaysOnTopOrder (type_of_item T ?t2 j) > alwaysOnTopOrder ?it) i ?t2)
      else setTileFlags T i (add_down i ?t2))"
    unfolding TileItem tile_internalAddThing_def Let_def by simp
  have items: "items_of ?t2 = ds @ ts" using l by (simp add: items_of_def)
  show ?thesis
  proof (cases "isGroundTile ?it")
    case True
    with new_ground(1) [OF t1 i p(1)] t1 l(1) show ?thesis unfolding r tile_ok_def by (auto simp: type_of_item_def)
  next
    case False
    show ?thesis
    proof (cases "length (ds @ ts) < 65535")
      case True
      have "tile_ok K T (setTileFlags T i (add_top (\<lambda>j. alwaysOnTopOrder (type_of_item T ?t2 j) > alwaysOnTopOrder ?it) i ?t2))"
        if "alwaysOnTop ?it"
        by (rule new_above(2) [OF t2 i p(2) _ True]) (use False that in \<open>auto simp: type_of_item_def\<close>)
      moreover have "tile_ok K T (setTileFlags T i (add_down i ?t2))" if "\<not> alwaysOnTop ?it"
        by (rule new_above(1) [OF t2 i p(2) _ True]) (use False that in \<open>simp_all add: type_of_item_def\<close>)
      ultimately show ?thesis using False True unfolding r items by simp
    next
      case full: False
      with False t2 show ?thesis unfolding r items tile_ok_def by auto
    qed
  qed
qed

lemma tile_removeThing_ok: "tile_ok K T t \<Longrightarrow> tile_ok K T (tile_removeThing T thing count t)"
proof (cases thing)
  case (TileCreature c)
  assume "tile_ok K T t"
  then obtain g ds ts where t: "in_order K T t g ds ts" by (auto simp: tile_ok_def)
  have "tile_ok K T (t\<lparr> creatures := Some (remove1 c cs) \<rparr>)" if "creatures t = Some cs" for cs
    using in_order_creatures [OF t, of "remove1 c cs"] in_order_simps(3) [OF t] that
    by (auto simp: tile_ok_def creatures_of_def)
  with t show ?thesis by (auto simp: tile_removeThing_def TileCreature tile_ok_def split: option.splits)
next
  case (TileItem i)
  assume "tile_ok K T t"
  then show ?thesis unfolding TileItem tile_ok_def using removed_item by blast
qed

text \<open>
  A change of type that keeps an item below or on top, as \<open>transformItem\<close> sees to, and with \<open>K\<close> also its
  order there, as it does not.
\<close>

definition same_place :: "bool \<Rightarrow> tile_types \<Rightarrow> tile_item \<Rightarrow> tile_item \<Rightarrow> bool" where
  "same_place K T x y \<longleftrightarrow> alwaysOnTop (T (itemType x)) = alwaysOnTop (T (itemType y)) \<and>
     (K \<longrightarrow> alwaysOnTopOrder (T (itemType x)) = alwaysOnTopOrder (T (itemType y)))"

lemma arranged_same_place:
  assumes "arranged K T th g ds ts" and "same_place K T (th i) x"
  shows "arranged K T (th(i := x)) g ds ts"
proof -
  have "alwaysOnTop (T (itemType ((th(i := x)) j))) = alwaysOnTop (T (itemType (th j)))"
    "K \<Longrightarrow> alwaysOnTopOrder (T (itemType ((th(i := x)) j))) = alwaysOnTopOrder (T (itemType (th j)))" for j
    using assms(2) by (simp_all add: same_place_def)
  then show ?thesis using assms(1) unfolding arranged_def by (cases K) presburger+
qed

lemma tile_updateThing_ok:
  assumes "tile_ok K T t"
    and same: "\<And>i. thing = TileItem i \<Longrightarrow> same_place K T (things t i) (sub count ((things t i)\<lparr> itemType := n \<rparr>))"
  shows "tile_ok K T (tile_updateThing T sub thing n count t)"
proof (cases thing)
  case (TileCreature c)
  then show ?thesis using assms(1) by (simp add: tile_updateThing_def)
next
  case (TileItem i)
  obtain g ds ts where t: "in_order K T t g ds ts" using assms(1) by (auto simp: tile_ok_def)
  note o = in_order_simps [OF t]
  show ?thesis
  proof (cases "tile_getThingIndex T thing t = -1")
    case True
    then show ?thesis using assms(1) by (simp add: tile_updateThing_def)
  next
    case False
    then have i: "i \<in> set (ground_list g @ ds @ ts)" using getThingIndex_on [OF t] TileItem by simp
    define x where "x = sub count ((things t i)\<lparr> itemType := n \<rparr>)"
    define t1 where "t1 = resetTileFlags T i t"
    define t2 where "t2 = t1\<lparr> things := (things t)(i := x) \<rparr>"
    let ?xs = "set (ground_list g @ ds @ ts)"
    have r: "tile_updateThing T sub thing n count t = setTileFlags T i t2"
      using False TileItem by (simp add: tile_updateThing_def Let_def t2_def t1_def x_def)
    have "follows T t1 (?xs - {i})" unfolding t1_def
      by (rule follows_reset [OF o(5) i]) (simp add: holds_lists(6) [OF o(1)])
    then have "follows T t2 (?xs - {i})" unfolding follows_def t2_def t1_def by simp
    from follows_set [OF this, of i] have f: "follows T (setTileFlags T i t2) ?xs" using i by (simp add: insert_absorb)
    have a: "arranged K T (things t2) g ds ts"
      unfolding t2_def using arranged_same_place [OF o(2) same [OF TileItem]] by (simp add: x_def)
    have h: "holds t2 g ds ts" using o(1) unfolding t2_def t1_def by simp
    have "in_order K T (setTileFlags T i t2) g ds ts"
      unfolding in_order_def using f a h o(3,4) by (simp add: t2_def t1_def)
    then show ?thesis unfolding r tile_ok_def by blast
  qed
qed

lemma update_all: "\<forall>j\<in>set xs. P j \<Longrightarrow> P i \<Longrightarrow> \<forall>j\<in>set (xs[k := i]). P j"
  using set_update_subset_insert [of xs k i] by blast

lemma update_distinct:
  assumes "distinct (as @ xs @ bs)" and "i \<notin> set (as @ xs @ bs)"
  shows "distinct (as @ xs[k := i] @ bs)"
proof -
  have "distinct (xs[k := i])" using assms by (intro distinct_list_update) auto
  then show ?thesis using assms set_update_subset_insert [of xs k i] by fastforce
qed

lemma arranged_replace:
  assumes a: "arranged K T th g ds ts" and i: "i \<notin> set (ground_list g @ ds @ ts)"
  shows "g = Some old \<Longrightarrow> same_place K T (th old) (th i) \<Longrightarrow> arranged K T th (Some i) ds ts"
    and "k < length ts \<Longrightarrow> same_place K T (th (ts ! k)) (th i) \<Longrightarrow> arranged K T th g ds (ts[k := i])"
    and "k < length ds \<Longrightarrow> same_place K T (th (ds ! k)) (th i) \<Longrightarrow> arranged K T th g (ds[k := i]) ts"
proof -
  let ?top = "\<lambda>i. alwaysOnTop (T (itemType (th i)))"
  let ?f = "\<lambda>i. alwaysOnTopOrder (T (itemType (th i)))"
  have len: "length (ds @ ts) \<le> 65535" and d: "distinct (ground_list g @ ds @ ts)"
    and down: "\<forall>i\<in>set ds. \<not> ?top i" and top: "\<forall>i\<in>set ts. ?top i"
    and sort: "K \<Longrightarrow> sorted_wrt (\<lambda>i j. ?f i \<le> ?f j) ts"
    using a unfolding arranged_def by blast+
  show "arranged K T th (Some i) ds ts" if "g = Some old" "same_place K T (th old) (th i)"
    using that a i by (auto simp: arranged_def ground_list_def same_place_def)
  show "arranged K T th g ds (ts[k := i])" if k: "k < length ts" and same: "same_place K T (th (ts ! k)) (th i)"
  proof -
    have "sorted_wrt (\<lambda>i j. ?f i \<le> ?f j) (ts[k := i])" if K
    proof -
      have "map ?f (ts[k := i]) = map ?f ts"
        using k same that by (simp add: map_update same_place_def list_update_same_conv)
      moreover have "sorted_wrt (\<le>) (map ?f ts)" using sort [OF that] by (simp add: sorted_wrt_map)
      ultimately have "sorted_wrt (\<le>) (map ?f (ts[k := i]))" by (simp only:)
      then show ?thesis by (simp only: sorted_wrt_map)
    qed
    moreover have "\<forall>j\<in>set (ts[k := i]). ?top j"
      using top nth_mem [OF k] same by (intro update_all) (simp_all add: same_place_def)
    moreover have "distinct ((ground_list g @ ds) @ ts[k := i] @ [])" using d i by (intro update_distinct) auto
    ultimately show ?thesis using len down unfolding arranged_def by simp
  qed
  show "arranged K T th g (ds[k := i]) ts" if k: "k < length ds" and same: "same_place K T (th (ds ! k)) (th i)"
  proof -
    have "\<forall>j\<in>set (ds[k := i]). \<not> ?top j"
      using down nth_mem [OF k] same by (intro update_all) (simp_all add: same_place_def)
    moreover have "distinct (ground_list g @ ds[k := i] @ ts)" using d i by (rule update_distinct)
    ultimately show ?thesis using len top sort unfolding arranged_def by simp
  qed
qed

lemma replaced:
  assumes t: "in_order K T t g ds ts" and i: "i \<notin> set (ground_list g @ ds @ ts)" and old: "old \<in> set (ground_list g @ ds @ ts)"
    and t': "holds t' g' ds' ts'" "things t' = things t" "tileFlags t' = tileFlags t" "creatures_of t' = creatures_of t"
      "parented t' = parented t"
    and sets: "set (ground_list g' @ ds' @ ts') = insert i (set (ground_list g @ ds @ ts) - {old})"
    and a: "arranged K T (things t) g' ds' ts'"
  shows "tile_ok K T (disown_thing (TileItem old) (setTileFlags T i (resetTileFlags T old (own_thing (TileItem i) t'))))"
proof -
  let ?t = "own_thing (TileItem i) t'"
  have "TileItem ` set (ground_list g' @ ds' @ ts') \<subseteq> parented ?t"
    using in_order_simps(4) [OF t] unfolding sets by (auto simp: t')
  then have "in_order K T (setTileFlags T i (resetTileFlags T old ?t)) g' ds' ts'"
    using t' by (intro in_order_swapped [OF t i old _ _ _ _ _ sets a]) simp_all
  moreover have "old \<notin> set (ground_list g' @ ds' @ ts')" using i old unfolding sets by blast
  ultimately show ?thesis unfolding tile_ok_def by (blast intro: in_order_parent(3))
qed

lemma replace_above_ok:
  assumes t: "in_order K T t g ds ts" and i: "i \<notin> set (ground_list g @ ds @ ts)"
    and r: "replace_above k i t = Some (old, t')"
    and same: "\<And>j. thing_above k t = Some (TileItem j) \<Longrightarrow> same_place K T (things t j) (things t i)"
  shows "tile_ok K T (disown_thing (TileItem old) (setTileFlags T i (resetTileFlags T old (own_thing (TileItem i) t'))))"
proof -
  note o = in_order_simps [OF t]
  note l = holds_lists [OF o(1)]
  have d: "distinct ds" "distinct ts" "distinct (ground_list g @ ds @ ts)" using o(2) by (simp_all add: arranged_def)
  have put: "things (put_at n i t) = things t" "tileFlags (put_at n i t) = tileFlags t"
    "creatures_of (put_at n i t) = creatures_of t" "parented (put_at n i t) = parented t" for n
    by (simp_all add: put_at_def creatures_of_def)
  show ?thesis
  proof (cases "k < length ts")
    case True
    then have r': "old = ts ! k" "t' = put_at (length ds + k) i t" and above: "thing_above k t = Some (TileItem (ts ! k))"
      using r by (simp_all add: replace_above_def thing_above_def l nth_append)
    have h: "holds t' g ds (ts[k := i])"
      using o(1) l(7) by (simp add: r'(2) holds_def put_at_def list_update_append) (simp add: items_of_def)
    have mem: "ts ! k \<in> set ts" using True by simp
    have "set (ground_list g @ ds @ ts[k := i]) = insert i (set (ground_list g @ ds @ ts) - {old})"
      using d mem by (auto simp: set_update_distinct [OF d(2) True] r')
    then show ?thesis using mem
      by (intro replaced [OF t i _ h _ _ _ _ _ arranged_replace(2) [OF o(2) i True same [OF above]]]) (auto simp: put r')
  next
    case False
    define m where "m = k - length ts - length (creatures_of t)"
    have m: "\<not> k - length ts < length (creatures_of t)" "m < length ds"
      using r False by (auto simp: replace_above_def l m_def Let_def split: if_splits)
    then have r': "old = ds ! m" "t' = put_at m i t" and above: "thing_above k t = Some (TileItem (ds ! m))"
      using r False by (simp_all add: replace_above_def thing_above_def l nth_append Let_def m_def)
    have h: "holds t' g (ds[m := i]) ts"
      using o(1) l(7) m(2) by (simp add: r'(2) holds_def put_at_def list_update_append) (simp add: items_of_def)
    have mem: "ds ! m \<in> set ds" using m(2) by simp
    have "set (ground_list g @ ds[m := i] @ ts) = insert i (set (ground_list g @ ds @ ts) - {old})"
      using d mem by (auto simp: set_update_distinct [OF d(1) m(2)] r')
    then show ?thesis using mem
      by (intro replaced [OF t i _ h _ _ _ _ _ arranged_replace(3) [OF o(2) i m(2) same [OF above]]]) (auto simp: put r')
  qed
qed

lemma tile_replaceThing_ok:
  assumes "tile_ok K T t" and off: "off_tile (TileItem i) t"
    and same: "\<And>j. tile_getThing index t = Some (TileItem j) \<Longrightarrow> same_place K T (things t j) (things t i)"
  shows "tile_ok K T (tile_replaceThing T index (TileItem i) t)"
proof -
  obtain g ds ts where t: "in_order K T t g ds ts" using assms(1) by (auto simp: tile_ok_def)
  note o = in_order_simps [OF t]
  note l = holds_lists [OF o(1)]
  have i: "i \<notin> set (ground_list g @ ds @ ts)" using off l by (simp add: off_tile_def)
  show ?thesis
  proof (cases "\<exists>old. g = Some old \<and> index = 0")
    case True
    then obtain old where g: "g = Some old" "index = 0" by blast
    have "same_place K T (things t old) (things t i)" using same [of old] g l(1) by (simp add: tile_getThing_def)
    note a = arranged_replace(1) [OF o(2) i g(1) this]
    have "old \<notin> set (ds @ ts)" using o(2) g(1) by (auto simp: arranged_def ground_list_def)
    then have "tile_ok K T (disown_thing (TileItem old) (setTileFlags T i (resetTileFlags T old (own_thing (TileItem i) (t\<lparr> ground := Some i \<rparr>)))))"
      using g(1) by (intro replaced [OF t i _ holds_ground [OF o(1)] _ _ _ _ _ a]) (auto simp: ground_list_def)
    then show ?thesis using g l(1) by (simp add: tile_replaceThing_def)
  next
    case False
    define k where "k = (if g = None then index else index - 1)"
    have above: "tile_getThing index t = thing_above k t"
      using False l(1) by (auto simp: tile_getThing_def k_def split: option.splits)
    have r: "tile_replaceThing T index (TileItem i) t = (case replace_above k i t of None \<Rightarrow> t
        | Some (old, t') \<Rightarrow> disown_thing (TileItem old) (setTileFlags T i (resetTileFlags T old (own_thing (TileItem i) t'))))"
      using False l(1) by (auto simp: tile_replaceThing_def k_def split: option.splits)
    show ?thesis
    proof (cases "replace_above k i t")
      case None
      then show ?thesis using assms(1) unfolding r by simp
    next
      case (Some p)
      then obtain old t' where "replace_above k i t = Some (old, t')" by (cases p) simp
      with replace_above_ok [OF t i this same] above show ?thesis unfolding r by simp
    qed
  qed
qed

section \<open>Everything that happens to a tile\<close>

definition new_tile :: "bool \<Rightarrow> (nat \<Rightarrow> tile_item) \<Rightarrow> u32 \<Rightarrow> tile" where
  "new_tile dynamic th zone = \<lparr> ground = None, itemVector = (if dynamic then Some [] else None), downItemCount = 0,
     creatures = (if dynamic then Some [] else None), tileFlags = zone AND mask 11, things = th, parented = {}, released = [] \<rparr>"

text \<open>
  The events: things that are not there are added, and magic fields, when one is added, do not stack; things
  are removed; items are changed or replaced in place by others that lie below, or on top, as they do; and
  items that are not on the tile may change in any way. So \<open>transformItem\<close> takes one that moves between
  the two parts away, changes it and adds it. With \<open>K\<close> the items on top also keep their order when they
  are changed in place.
\<close>

inductive tile_run :: "tile_types \<Rightarrow> (u32 \<Rightarrow> tile_item \<Rightarrow> tile_item) \<Rightarrow> bool \<Rightarrow> tile \<Rightarrow> bool" for T sub K where
  start: "tile_run T sub K (new_tile dynamic th zone)"
| add: "tile_run T sub K t \<Longrightarrow> off_tile thing t \<Longrightarrow> fields_single T t \<Longrightarrow> tile_run T sub K (tile_addThing T thing t)"
| load: "tile_run T sub K t \<Longrightarrow> off_tile thing t \<Longrightarrow> tile_run T sub K (tile_internalAddThing T thing t)"
| remove: "tile_run T sub K t \<Longrightarrow> tile_run T sub K (tile_removeThing T thing count t)"
| update: "tile_run T sub K t \<Longrightarrow>
    (\<And>i. thing = TileItem i \<Longrightarrow> same_place K T (things t i) (sub count ((things t i)\<lparr> itemType := n \<rparr>))) \<Longrightarrow>
    tile_run T sub K (tile_updateThing T sub thing n count t)"
| replace: "tile_run T sub K t \<Longrightarrow> off_tile (TileItem i) t \<Longrightarrow>
    (\<And>j. tile_getThing index t = Some (TileItem j) \<Longrightarrow> same_place K T (things t j) (things t i)) \<Longrightarrow>
    tile_run T sub K (tile_replaceThing T index (TileItem i) t)"
| elsewhere: "tile_run T sub K t \<Longrightarrow> off_tile (TileItem i) t \<Longrightarrow>
    tile_run T sub K (t\<lparr> things := (things t)(i := x) \<rparr>)"

lemma elsewhere_ok:
  assumes "tile_ok K T t" and "off_tile (TileItem i) t"
  shows "tile_ok K T (t\<lparr> things := (things t)(i := x) \<rparr>)"
proof -
  obtain g ds ts where t: "in_order K T t g ds ts" using assms(1) by (auto simp: tile_ok_def)
  note l = holds_lists [OF in_order_simps(1) [OF t]]
  let ?th = "(things t)(i := x)"
  have same: "?th j = things t j" if "j \<in> set (ground_list g @ ds @ ts)" for j
    using that assms(2) l by (auto simp: off_tile_def)
  have "arranged K T ?th g ds ts"
    using in_order_simps(2) [OF t] same unfolding arranged_def
    by (auto simp: sorted_wrt_iff_nth_less simp del: fun_upd_apply)
  moreover have "follows T (t\<lparr> things := ?th \<rparr>) (set (ground_list g @ ds @ ts))"
    using in_order_simps(5) [OF t] same unfolding follows_def by (simp del: fun_upd_apply set_append)
  ultimately have "in_order K T (t\<lparr> things := ?th \<rparr>) g ds ts"
    using in_order_simps [OF t] by (simp add: in_order_def del: fun_upd_apply)
  then show ?thesis unfolding tile_ok_def by blast
qed

lemma new_tile_ok: "tile_ok K T (new_tile dynamic th zone)"
proof -
  have "in_order K T (new_tile dynamic th zone) None [] []"
    by (auto simp: in_order_def holds_def arranged_def follows_def followed_def new_tile_def items_of_def creatures_of_def
        ground_list_def bit_and_iff bit_mask_iff)
  then show ?thesis unfolding tile_ok_def by blast
qed

lemma tile_run_ok: "tile_run T sub K t \<Longrightarrow> tile_ok K T t"
proof (induction rule: tile_run.induct)
  case start
  then show ?case by (rule new_tile_ok)
next
  case add
  then show ?case by (intro tile_addThing_ok)
next
  case load
  then show ?case by (intro tile_internalAddThing_ok)
next
  case remove
  then show ?case by (intro tile_removeThing_ok)
next
  case update
  then show ?case by (intro tile_updateThing_ok)
next
  case replace
  then show ?case by (intro tile_replaceThing_ok)
next
  case elsewhere
  then show ?case by (intro elsewhere_ok)
qed

text \<open>An example: a stone floor, a border on top, a chest below that blocks the way, and a creature.\<close>

definition plain_type :: tile_type where
  "plain_type = \<lparr> isGroundTile = False, alwaysOnTop = False, alwaysOnTopOrder = 0, isSplash = False, isMagicField = False,
     stackable = False, blockSolid = False, moveable = True, hasHeight = False, blockPathFind = False,
     blockProjectile = False, isVertical = False, isHorizontal = False, replaceable = True, lookThrough = False,
     forceUse = False, isContainer = False, floorChange = 0 \<rparr>"

definition sample_types :: tile_types where
  "sample_types ty = (if ty = 1 then plain_type\<lparr> isGroundTile := True, moveable := False \<rparr>
     else if ty = 2 then plain_type\<lparr> alwaysOnTop := True, alwaysOnTopOrder := 1 \<rparr>
     else if ty = 3 then plain_type\<lparr> blockSolid := True, moveable := False \<rparr> else plain_type)"

definition sample_items :: "nat \<Rightarrow> tile_item" where
  "sample_items i = \<lparr> itemType = of_nat i, itemCount = 1, uniqueId = False, getTeleport = False, getMagicField = False,
     getMailbox = False, getTrashHolder = False, getBed = False, getDepotLocker = False \<rparr>"

definition sample_tile :: tile where
  "sample_tile = fold (tile_addThing sample_types) [TileItem 1, TileItem 2, TileItem 3, TileCreature 9] (new_tile True sample_items 0)"

lemma sample_run: "tile_run sample_types (\<lambda>n x. x) True sample_tile"
proof -
  let ?t0 = "new_tile True sample_items 0"
  let ?t1 = "tile_addThing sample_types (TileItem 1) ?t0"
  let ?t2 = "tile_addThing sample_types (TileItem 2) ?t1"
  let ?t3 = "tile_addThing sample_types (TileItem 3) ?t2"
  have "off_tile (TileItem 1) ?t0" "fields_single sample_types ?t0" "off_tile (TileItem 2) ?t1" "fields_single sample_types ?t1"
    "off_tile (TileItem 3) ?t2" "fields_single sample_types ?t2" "off_tile (TileCreature 9) ?t3" "fields_single sample_types ?t3"
    by code_simp+
  then have "tile_run sample_types (\<lambda>n x. x) True (tile_addThing sample_types (TileCreature 9) ?t3)"
    by (intro tile_run.add tile_run.start)
  then show ?thesis by (simp add: sample_tile_def)
qed

lemma hasFlag_bit: "hasFlag (push_bit n 1) t \<longleftrightarrow> bit (tileFlags t) n"
  by (simp add: hasFlag_def push_bit_of_1 and_exp_eq_0_iff_not_bit)

lemma flags_of_order:
  assumes "in_order K T t g ds ts"
  shows "hasFlag TILESTATE_BLOCKSOLID t = tile_hasProperty T t CONST_PROP_BLOCKSOLID"
    "hasFlag TILESTATE_BLOCKPATH t = tile_hasProperty T t CONST_PROP_BLOCKPATH"
    "hasFlag TILESTATE_IMMOVABLEBLOCKSOLID t = tile_hasProperty T t CONST_PROP_IMMOVABLEBLOCKSOLID"
    "hasFlag TILESTATE_IMMOVABLENOFIELDBLOCKPATH t = tile_hasProperty T t CONST_PROP_IMMOVABLENOFIELDBLOCKPATH"
    "hasFlag TILESTATE_NOFIELDBLOCKPATH t = tile_hasProperty T t CONST_PROP_NOFIELDBLOCKPATH"
  using in_order_simps(5) [OF assms]
  unfolding TILESTATE_BLOCKSOLID_def TILESTATE_BLOCKPATH_def TILESTATE_IMMOVABLEBLOCKSOLID_def
    TILESTATE_IMMOVABLENOFIELDBLOCKPATH_def TILESTATE_NOFIELDBLOCKPATH_def hasFlag_bit tile_hasProperty_on
    holds_lists(6) [OF in_order_simps(1) [OF assms]]
  by (simp_all add: follows_def followed_def)

text \<open>
  C36:
  Whatever is added to a tile it was not on, removed, replaced or changed, the vector stays divided: the
  first \<open>downItemCount\<close> items lie below and the others are always on top; nothing is there twice, every item
  has the tile as its parent, and the flags that path finding and walking read say exactly whether some
  item blocks. The items on top are in the order of their types as long as (flag \<open>K\<close>) no item on top is
  changed or replaced in place by one of another order. Two things are assumed of the game: an item is
  changed in place only into one that is on top if it is, as \<open>transformItem\<close> tests, and magic fields do not
  stack.
\<close>

theorem tile_stays_in_order:
  assumes "tile_run T sub K t"
  shows "unat (downItemCount t) \<le> length (items_of t) \<and> length (items_of t) \<le> 65535 \<and> distinct (on_tile t) \<and>
    (\<forall>i\<in>set (down_items t). \<not> isAlwaysOnTop T t i) \<and> (\<forall>i\<in>set (top_items t). isAlwaysOnTop T t i) \<and>
    (K \<longrightarrow> sorted_wrt (\<lambda>i j. alwaysOnTopOrder (type_of_item T t i) \<le> alwaysOnTopOrder (type_of_item T t j)) (top_items t)) \<and>
    (\<forall>i\<in>set (on_tile t). TileItem i \<in> parented t) \<and>
    hasFlag TILESTATE_BLOCKSOLID t = tile_hasProperty T t CONST_PROP_BLOCKSOLID \<and>
    hasFlag TILESTATE_BLOCKPATH t = tile_hasProperty T t CONST_PROP_BLOCKPATH \<and>
    hasFlag TILESTATE_IMMOVABLEBLOCKSOLID t = tile_hasProperty T t CONST_PROP_IMMOVABLEBLOCKSOLID \<and>
    hasFlag TILESTATE_IMMOVABLENOFIELDBLOCKPATH t = tile_hasProperty T t CONST_PROP_IMMOVABLENOFIELDBLOCKPATH \<and>
    hasFlag TILESTATE_NOFIELDBLOCKPATH t = tile_hasProperty T t CONST_PROP_NOFIELDBLOCKPATH"
proof -
  obtain g ds ts where t: "in_order K T t g ds ts" using tile_run_ok [OF assms] by (auto simp: tile_ok_def)
  note l = holds_lists [OF in_order_simps(1) [OF t]]
  note a = in_order_simps(2) [OF t, unfolded arranged_def]
  have "unat (downItemCount t) \<le> length (items_of t)" using l by simp
  moreover have "length (items_of t) \<le> 65535" "distinct (on_tile t)" using a unfolding l(4,6) by blast+
  moreover have "\<forall>i\<in>set (down_items t). \<not> isAlwaysOnTop T t i" "\<forall>i\<in>set (top_items t). isAlwaysOnTop T t i"
    using a unfolding l(2,3) isAlwaysOnTop_def type_of_item_def by blast+
  moreover have "K \<longrightarrow> sorted_wrt (\<lambda>i j. alwaysOnTopOrder (type_of_item T t i) \<le> alwaysOnTopOrder (type_of_item T t j)) (top_items t)"
    using a unfolding l(3) type_of_item_def by blast
  moreover have "\<forall>i\<in>set (on_tile t). TileItem i \<in> parented t" using in_order_simps(4) [OF t] unfolding l(6) by blast
  ultimately show ?thesis using flags_of_order [OF t] by blast
qed

theorem tile_stays_in_order_witness:
  "distinct (on_tile sample_tile) \<and> hasFlag TILESTATE_BLOCKSOLID sample_tile \<and>
   tile_hasProperty sample_types sample_tile CONST_PROP_BLOCKSOLID \<and> items_of sample_tile = [3, 2] \<and>
   sorted_wrt (\<lambda>i j. alwaysOnTopOrder (type_of_item sample_types sample_tile i) \<le>
     alwaysOnTopOrder (type_of_item sample_types sample_tile j)) (top_items sample_tile)"
proof -
  have "tile_hasProperty sample_types sample_tile CONST_PROP_BLOCKSOLID" "items_of sample_tile = [3, 2]" by code_simp+
  with tile_stays_in_order [OF sample_run] show ?thesis by blast
qed

text \<open>
  Without \<open>K\<close> the order can be lost: \<open>transformItem\<close> turns the lower of two items on top into one of a higher
  order where it is, and compares only \<open>alwaysOnTop\<close>.
\<close>

definition sample_orders :: tile_types where
  "sample_orders ty = plain_type\<lparr> alwaysOnTop := True, alwaysOnTopOrder := (if ty = 1 then 1 else if ty = 2 then 2 else 3) \<rparr>"

lemma order_lost_in_place:
  defines "t0 \<equiv> fold (tile_addThing sample_orders) [TileItem 1, TileItem 2] (new_tile True sample_items 0)"
  defines "t \<equiv> tile_updateThing sample_orders (\<lambda>n x. x) (TileItem 1) 3 1 t0"
  shows "tile_run sample_orders (\<lambda>n x. x) False t" and "top_items t = [1, 2]"
    and "alwaysOnTopOrder (type_of_item sample_orders t 1) > alwaysOnTopOrder (type_of_item sample_orders t 2)"
proof -
  let ?t0 = "new_tile True sample_items 0"
  let ?t1 = "tile_addThing sample_orders (TileItem 1) ?t0"
  have "off_tile (TileItem 1) ?t0" "fields_single sample_orders ?t0" "off_tile (TileItem 2) ?t1" "fields_single sample_orders ?t1"
    by code_simp+
  then have "tile_run sample_orders (\<lambda>n x. x) False t0"
    unfolding t0_def fold.simps o_apply id_apply by (intro tile_run.add tile_run.start)
  then show "tile_run sample_orders (\<lambda>n x. x) False t"
    unfolding t_def by (intro tile_run.update) (auto simp: same_place_def sample_orders_def plain_type_def)
  show "top_items t = [1, 2]"
    "alwaysOnTopOrder (type_of_item sample_orders t 1) > alwaysOnTopOrder (type_of_item sample_orders t 2)"
    unfolding t_def t0_def by code_simp+
qed

lemma thing_order_distinct:
  assumes "in_order K T t g ds ts"
  shows "distinct (thing_order t)" and "length (thing_order t) = getThingCount t"
proof -
  note l = holds_lists [OF in_order_simps(1) [OF assms]]
  have "distinct (ground_list g @ ds @ ts)" using in_order_simps(2) [OF assms] by (simp add: arranged_def)
  then show "distinct (thing_order t)" using in_order_simps(3) [OF assms]
    by (auto simp: thing_order_def l distinct_map inj_on_def)
  show "length (thing_order t) = getThingCount t"
    by (simp add: thing_order_def l getThingCount_def ground_list_def split: option.splits)
qed

text \<open>
  C37:
  The numbers of the things on a tile are a bijection: \<open>getThing\<close> gives back the thing whose number
  \<open>getThingIndex\<close> has found, every number below \<open>getThingCount\<close> is that of one thing, and the number is -1
  exactly for things that are not there.
\<close>

theorem thing_numbers_roundtrip:
  assumes "tile_run T sub K t"
  shows "(tile_getThingIndex T thing t = -1 \<longleftrightarrow> off_tile thing t) \<and>
    (\<not> off_tile thing t \<longrightarrow> tile_getThing (nat (tile_getThingIndex T thing t)) t = Some thing) \<and>
    (k < getThingCount t \<longleftrightarrow> tile_getThing k t \<noteq> None) \<and>
    (\<forall>x. tile_getThing k t = Some x \<longrightarrow> tile_getThingIndex T x t = int k)"
proof -
  obtain g ds ts where t: "in_order K T t g ds ts" using tile_run_ok [OF assms] by (auto simp: tile_ok_def)
  note h = in_order_simps(1) [OF t]
  note index = getThingIndex_order [OF t]
  note get = getThing_order [OF h]
  have off: "off_tile thing t \<longleftrightarrow> thing \<notin> set (thing_order t)"
    using thing_order_set(1) [OF h] thing_order_set(2)
    by (cases thing) (simp_all add: off_tile_def holds_lists(6) [OF h])
  have minus: "tile_getThingIndex T thing t = -1 \<longleftrightarrow> off_tile thing t"
    unfolding index off find_pos_None [symmetric] by (auto split: option.splits)
  have "tile_getThing (nat (tile_getThingIndex T thing t)) t = Some thing" if on: "\<not> off_tile thing t"
  proof -
    obtain n where "find_pos thing (thing_order t) = Some n"
      using on find_pos_None [of thing "thing_order t"] unfolding off by (cases "find_pos thing (thing_order t)") simp_all
    then show ?thesis using find_pos_Some [of thing "thing_order t" n] unfolding index get by simp
  qed
  moreover have "tile_getThingIndex T x t = int k" if "tile_getThing k t = Some x" for x
  proof -
    have k: "k < length (thing_order t)" "x = thing_order t ! k" using that unfolding get by (auto split: if_splits)
    then have "x \<in> set (thing_order t)" by simp
    then obtain n where n: "find_pos x (thing_order t) = Some n" using find_pos_None [of x "thing_order t"] by auto
    from find_pos_Some [OF this] k(2) have "n < length (thing_order t)" "thing_order t ! n = thing_order t ! k" by simp_all
    then have "n = k" using nth_eq_iff_index_eq [OF thing_order_distinct(1) [OF t] _ k(1)] by blast
    then show ?thesis unfolding index n by simp
  qed
  moreover have "k < getThingCount t \<longleftrightarrow> tile_getThing k t \<noteq> None"
    unfolding get thing_order_distinct(2) [OF t] by simp
  ultimately show ?thesis using minus by blast
qed

theorem thing_numbers_roundtrip_witness:
  "tile_getThingIndex sample_types (TileItem 3) sample_tile = 3 \<and> tile_getThing 3 sample_tile = Some (TileItem 3) \<and>
   tile_getThingIndex sample_types (TileItem 5) sample_tile = -1"
proof -
  have "tile_getThingIndex sample_types (TileItem 3) sample_tile = 3" "\<not> off_tile (TileItem 3) sample_tile"
    "off_tile (TileItem 5) sample_tile" by code_simp+
  with thing_numbers_roundtrip [OF sample_run, of "TileItem 3" 0] thing_numbers_roundtrip [OF sample_run, of "TileItem 5" 0]
  show ?thesis by simp
qed

section \<open>The client agrees\<close>

text \<open>The things of a tile as a client lists them: the creatures it can see, the last one first.\<close>

definition client_order :: "(nat \<Rightarrow> bool) \<Rightarrow> tile \<Rightarrow> tile_thing list" where
  "client_order canSee t = map TileItem (ground_list (ground t)) @ map TileItem (top_items t) @
     map TileCreature (filter canSee (rev (creatures_of t))) @ map TileItem (down_items t)"

definition shown :: "nat option \<Rightarrow> int" where
  "shown k = (case k of None \<Rightarrow> -1 | Some k \<Rightarrow> if k < 10 then int k else -1)"

lemma stackpos_creature_pos:
  "canSee c \<Longrightarrow> n < 10 \<Longrightarrow> stackpos_creature canSee c cs n =
    (case find_pos c (filter canSee cs) of None \<Rightarrow> -1 | Some k \<Rightarrow> if n + int k < 10 then n + int k else -1)"
  by (induction cs arbitrary: n) (auto split: option.splits)

lemma client_index_pos:
  "canSee c \<Longrightarrow> client_index canSee c cs n = (case find_pos c (filter canSee cs) of None \<Rightarrow> -1 | Some k \<Rightarrow> n + int k)"
  by (induction cs arbitrary: n) (auto split: option.splits)

lemma stackpos_item_pos:
  "n < 10 \<Longrightarrow> stackpos_item i js n = (case find_pos i js of Some k \<Rightarrow> Inl (if n + int k < 10 then n + int k else -1)
    | None \<Rightarrow> if n + int (length js) < 10 then Inr (n + int (length js)) else Inl (-1))"
  by (induction js arbitrary: n) (auto split: option.splits)

lemma count_seen_pos:
  "n < 10 \<Longrightarrow> count_seen canSee cs n = (if n + int (length (filter canSee cs)) < 10
    then Inr (n + int (length (filter canSee cs))) else Inl (-1))"
  by (induction cs arbitrary: n) auto

lemma length_filter_rev: "length (filter P (rev xs)) = length (filter P xs)"
  by (simp add: rev_filter [symmetric])

text \<open>
  C38:
  The server's stack positions are the places in the client's list: ground, things on top, the creatures
  that the player can see, things below. A position is -1 exactly from the tenth on or when the thing is
  not there, and the index of a creature without that bound is its place.
\<close>

theorem stack_positions_are_places:
  assumes "tile_run T sub K t" and "canSee c"
  shows "getStackposOfItem T canSee i t = shown (find_pos (TileItem i) (client_order canSee t)) \<and>
    getStackposOfCreature canSee c t = shown (find_pos (TileCreature c) (client_order canSee t)) \<and>
    getClientIndexOfCreature canSee c t =
      (case find_pos (TileCreature c) (client_order canSee t) of None \<Rightarrow> -1 | Some k \<Rightarrow> int k)"
proof -
  obtain g ds ts where t: "in_order K T t g ds ts" using tile_run_ok [OF assms(1)] by (auto simp: tile_ok_def)
  note l = holds_lists [OF in_order_simps(1) [OF t]]
  have a: "i \<in> set ds \<Longrightarrow> \<not> isAlwaysOnTop T t i" "i \<in> set ts \<Longrightarrow> isAlwaysOnTop T t i"
    using in_order_simps(2) [OF t] by (auto simp: arranged_def isAlwaysOnTop_def type_of_item_def)
  have none: "itemVector t = None \<Longrightarrow> ds = [] \<and> ts = []" using l(4) by (simp add: items_of_def)
  note pos = client_order_def l find_pos_append ground_list_def shown_def
  have "getStackposOfCreature canSee c t = shown (find_pos (TileCreature c) (client_order canSee t))"
    using none assms(2)
    by (cases g) (auto simp: getStackposOfCreature_def Let_def stackpos_creature_pos pos split: option.splits)
  moreover have "getClientIndexOfCreature canSee c t =
      (case find_pos (TileCreature c) (client_order canSee t) of None \<Rightarrow> -1 | Some k \<Rightarrow> int k)"
    using assms(2) by (cases g) (auto simp: getClientIndexOfCreature_def client_index_pos pos split: option.splits)
  moreover have "getStackposOfItem T canSee i t = shown (find_pos (TileItem i) (client_order canSee t))"
  proof (cases "isAlwaysOnTop T t i")
    case True
    then have "find_pos i ds = None" using a by (auto simp: find_pos_None)
    with True none show ?thesis
      by (cases g) (auto simp: getStackposOfItem_def stackpos_item_pos count_seen_pos pos length_filter_rev split: option.splits)
  next
    case False
    then have "find_pos i ts = None" using a by (auto simp: find_pos_None)
    with False none show ?thesis
      by (cases g) (auto simp: getStackposOfItem_def stackpos_item_pos count_seen_pos pos length_filter_rev Let_def split: option.splits)
  qed
  ultimately show ?thesis by blast
qed

theorem stack_positions_are_places_witness:
  "getStackposOfItem sample_types (\<lambda>c. True) 3 sample_tile = 3 \<and> getStackposOfCreature (\<lambda>c. True) 9 sample_tile = 2 \<and>
   find_pos (TileCreature 9) (client_order (\<lambda>c. True) sample_tile) = Some 2"
proof -
  have pos: "find_pos (TileCreature 9) (client_order (\<lambda>c. True) sample_tile) = Some 2"
    "find_pos (TileItem 3) (client_order (\<lambda>c. True) sample_tile) = Some 3" by code_simp+
  from stack_positions_are_places [OF sample_run, of "\<lambda>c. True" 9 3] show ?thesis by (simp add: pos shown_def)
qed

section \<open>Look-ups find what is there\<close>

lemma use_item_on_tile:
  assumes "tile_run T sub K t" and "getUseItem T t = Some i"
  shows "i \<in> set (on_tile t)"
proof -
  obtain g ds ts where t: "in_order K T t g ds ts" using tile_run_ok [OF assms(1)] by (auto simp: tile_ok_def)
  note l = holds_lists [OF in_order_simps(1) [OF t]]
  have empty: "downItemCount t = 0" "getTopItemCount t = 0" if "items_of t = []"
    using that l(4,5,7) by (simp_all add: word_unat_eq_iff [of "downItemCount t"])
  have "getTopDownItem t = Some j \<Longrightarrow> j \<in> set (items_of t)" "getTopTopItem t = Some j \<Longrightarrow> j \<in> set (items_of t)" for j
    using empty by (cases "items_of t = []"; auto simp: getTopDownItem_def getTopTopItem_def split: if_splits)+
  moreover have "i \<in> set (items_of t)" if "find P (rev (items_of t)) = Some i" for P
    using that by (auto simp: find_Some_iff) (metis length_rev nth_mem set_rev)
  ultimately show ?thesis using assms(2)
    by (auto simp: getUseItem_def on_tile_def split: if_splits option.splits)
qed

text \<open>A height is reached exactly when enough items have one; zero needs a first item without.\<close>

lemma height_reached_count:
  "unat h + length is < 2 ^ 32 \<Longrightarrow> h < n \<Longrightarrow>
    height_reached T t n is h \<longleftrightarrow>
      unat n \<le> unat h + length (filter (\<lambda>i. item_hasProperty T (things t i) CONST_PROP_HASHEIGHT) is)"
proof (induction "is" arbitrary: h)
  case (Cons i rest)
  show ?case
  proof (cases "item_hasProperty T (things t i) CONST_PROP_HASHEIGHT")
    case True
    have "h + 1 \<noteq> 0" using Cons.prems(2) by (metis add.inverse_unique add.commute word_order.extremum_strict minus_equation_iff add_eq_0_iff)
    then have up: "unat (h + 1) = unat h + 1" using unatSuc [of h] by (simp add: add.commute)
    have "h + 1 \<le> n" using Cons.prems(2) up by (simp add: word_le_nat_alt word_less_nat_alt)
    then consider "n = h + 1" | "h + 1 < n" by (auto simp: le_less)
    then show ?thesis using Cons.IH [of "h + 1"] Cons.prems(1) True up by cases auto
  next
    case False
    then show ?thesis using Cons.IH [of h] Cons.prems by auto
  qed
qed (simp add: word_less_nat_alt)

lemma hasHeight_counts:
  assumes "0 < n" and "length (on_tile t) < 2 ^ 32"
  shows "hasHeight_tile T t n \<longleftrightarrow>
    unat n \<le> length (filter (\<lambda>i. item_hasProperty T (things t i) CONST_PROP_HASHEIGHT) (on_tile t))"
  using height_reached_count [of 0 "on_tile t" n T t] assms by (simp add: hasHeight_tile_def on_tile_def)

text \<open>When one of two teleports on a tile is taken away, the flag goes and the other is not found.\<close>

lemma second_teleport_hidden:
  "let t = tile_removeThing sample_types (TileItem 7) 1 (fold (tile_internalAddThing sample_types) [TileItem 6, TileItem 7]
       (new_tile True (\<lambda>i. (sample_items i)\<lparr> getTeleport := True \<rparr>) 0))
   in items_of t = [6] \<and> getTeleport (things t 6) \<and> getTeleportItem t = None"
  by code_simp

end
