(* ===== verification/Spec2Isabelle.thy ===== *)
theory Spec2Isabelle
  imports Position Connection PropStream ConditionLedger ConditionDamage PlayerNames DatabaseTasks
    Scheduler ContainerQuery ContainerIteration PartySafety WaitList Trade PathSearch Spectators
    Skills Decay TileOrder
begin

text \<open>
  Verification library of the game server under \<open>compiler/src\<close>. The server reads packets from
  connections, decodes them and hands the commands to a dispatcher thread, which runs the game; timed
  work comes from a scheduler thread, queries go to a database thread. The library models the layers
  below and beside the game commands, from the bytes of a packet to the contents of a backpack.

  \<^bold>\<open>Shared.\<close> \<open>Prelude\<close>: byte strings, words of fixed width, little-endian encoding, buffers with checked
  reads and writes, and the collections \<open>bytes_simps\<close> and \<open>mem_simps\<close>. \<open>ReturnValues\<close>: the answers of
  queries.

  \<^bold>\<open>Geometry.\<close> \<open>Position\<close> (\<open>position.h\<close>, \<open>tools.cpp\<close>): positions, directions, ranges.
  \<open>SightLine\<close> (\<open>map.cpp\<close>): the walk along a line of sight; it ends without overflow within 16383
  squares, and the line is clear. \<open>Pathfinding\<close> and \<open>PathSearch\<close> (\<open>map.*\<close>, \<open>creature.cpp\<close>): the search
  for a path over at most 512 nodes; it ends, and its directions lead over walkable squares to a goal.
  \<open>QuadTree\<close> and \<open>Spectators\<close> (\<open>map.*\<close>, \<open>tile.cpp\<close>): the tree of the map's leaves, its tiles, the
  lists of creatures and the search for spectators with its caches; \<open>getTile\<close> implements a map from
  positions, and a search finds exactly the creatures in the view after any changes of the map; only a
  search that starts from spectators found elsewhere (\<open>monster.cpp\<close>) can leave more in a cache, until the
  next creature moves.

  \<^bold>\<open>Network.\<close> \<open>NetMessage\<close> (\<open>networkmessage.*\<close>, \<open>outputmessage.h\<close>): the packet buffer; reads, writes
  and cursor moves stay in bounds, the few operations that do not check (\<open>getPreviousByte\<close>, \<open>append\<close>, the
  headers) leave it exactly where stated, and what is written is read back. \<open>Adler\<close> (\<open>adlerChecksum\<close> of \<open>tools.cpp\<close>): equal to the
  definition of RFC 1950. \<open>Protocol\<close> (\<open>protocol.*\<close>): encryption, framing and the buffer of automatic
  sends, and the challenge of \<open>protocolgame.cpp\<close>; a framed message is received unchanged, whatever arrives
  stays in bounds. \<open>Connection\<close> (\<open>connection.*\<close>, \<open>server.*\<close>): the handlers of one connection as steps on
  its state, started by the environment in any order; writes in order, draining before a graceful close,
  the packet limit. A protocol may send any message with at most 24567 bytes in its body, and the challenge
  is one.

  \<^bold>\<open>Threads.\<close> \<open>WorkQueue\<close>: the contract of a queue of work, a locale. \<open>Tasks\<close> (\<open>tasks.*\<close>) and
  \<open>DatabaseTasks\<close> (\<open>databasetasks.*\<close>) interpret it; \<open>Scheduler\<close> (\<open>scheduler.*\<close>) is a step relation of
  the event queue and its sleeping thread. The sections that hold a lock are atomic steps and interleave
  freely; an event that fires is pushed to the front of the dispatcher's queue, as the code does.

  \<^bold>\<open>Names.\<close> \<open>WildcardTree\<close> (\<open>wildcardtree.*\<close>) refines the set of names, stated as the locale
  \<open>name_index\<close>; \<open>PlayerNames\<close> (\<open>game.cpp\<close>) uses the tree through it: the look-ups find who is online.

  \<^bold>\<open>Conditions.\<close> \<open>PropStream\<close> (\<open>fileloader.*\<close>): property streams and OTB trees, with their round
  trip. \<open>Condition\<close>, \<open>ConditionParam\<close>, \<open>ConditionStore\<close>, \<open>ConditionRun\<close>, \<open>ConditionLedger\<close>,
  \<open>ConditionDamage\<close> (\<open>condition.*\<close>, parts of \<open>creature.cpp\<close>, \<open>combat.cpp\<close> and \<open>iologindata.cpp\<close>): the
  data of all subclasses, their parameters, their storage, and how they act on a creature. What speed,
  skills, stats and light conditions give is taken back exactly; damage is dealt in rounds, each once.

  \<^bold>\<open>Items.\<close> \<open>ItemAttributes\<close> (\<open>item.h\<close>, \<open>item.cpp\<close>): the list of typed values with its mask refines
  two maps. \<open>Item\<close>: count, subtype, weight, comparison and storage of an item, with its round trip.
  \<open>Container\<close>, \<open>ContainerQuery\<close>, \<open>ContainerIteration\<close> (\<open>container.*\<close>, \<open>inbox.cpp\<close>): a store of items
  that point to their parents, with the containers' lists and weights. All operations keep the store
  well-formed and the weights right; accepted moves never put a container into itself (an inbox must lie in none); the iterator
  visits all contents once.

  \<^bold>\<open>Players together.\<close> \<open>Party\<close> and \<open>PartySafety\<close> (\<open>party.*\<close>, parts of \<open>player.*\<close> and \<open>game.cpp\<close>):
  parties, invitations and the party commands; the pointers of players and parties agree after every
  command and none dangles, unless a script vetoes a disbanding or the leaving of a player who logs out.
  \<open>Trade\<close> (\<open>game.cpp\<close>, parts of \<open>player.cpp\<close> and \<open>events.cpp\<close>): trades
  between two players and everything that ends them; partners agree, and items change hands only when both
  have accepted. \<open>WaitList\<close> (\<open>waitlist.cpp\<close>): the players who wait for a place on a full
  server; expired places are kept, which the code does not mean to do.

  \<^bold>\<open>Tiles.\<close> \<open>Tile\<close> and \<open>TileOrder\<close> (\<open>tile.*\<close>): the things on a tile, the changes of its vector and its
  flags, the numbers of things and the stack positions sent to clients. The vector stays divided, the flags
  for blocking items are exact, and the numbers are a bijection; the items on top stay sorted unless one is
  turned in place into one of another order, which \<open>transformItem\<close> does not prevent. The flags of teleports
  and fields are not exact.

  \<^bold>\<open>Growth.\<close> \<open>Levels\<close> and \<open>Skills\<close> (\<open>player.cpp\<close>, \<open>vocation.h\<close>): experience and levels, skills, the
  magic level and what a death takes. The level is the one that the experience has reached, up to level
  699999, where the 64 bits still hold the polynomial; whatever tries the levels need, each is counted once when
  levels are gained and dropped only at a last level, and a death takes exactly its share. \<open>Decay\<close> (\<open>startDecay\<close>, \<open>checkDecay\<close> and \<open>cleanup\<close> of \<open>game.cpp\<close>): the buckets of
  items that decay, on a clock in milliseconds; an item that nothing changes is decayed once, at most
  1125 ms early, and less than 500 ms late when no tick is late.

  \<^bold>\<open>Conventions.\<close> C++ integers are words of their width, signed ones read by \<open>sint\<close>. Undefined
  behaviour, null pointers and reads out of bounds are \<open>None\<close>. Loops whose end is to be proved are
  \<open>partial_function (option)\<close>, and a theorem says that they return; all others recurse on their data.
  Floating point values are kept as their bits where they are only stored. Time, random numbers, the
  table of item types and the network are parameters or inputs of steps.

  \<^bold>\<open>Not modelled.\<close> The Lua interface and the tables of scripts (the effect of a script is not in the
  sources), the commands of the game over tiles and creatures beyond the parts above, combat formulas in
  floating point, the messages to the client beyond their framing, SQL and the loading of data files,
  the RSA library, start-up and configuration. Locks and memory reclamation appear only through the
  atomic steps and the absence of dangling references.
\<close>

end
